(* ===== verification/Prelude.thy ===== *)
theory Prelude
  imports Main "HOL-Library.Word" "HOL-Library.Monad_Syntax" "HOL-Library.Signed_Division"
begin

text \<open>
  The prelude of the development: the machine types of the target (an ILP32 ARM, so
  \<open>int\<close> and \<open>unsigned\<close> are 32 bits wide), the memory accesses that
  every component uses, and the lemmas about them that the component theories share.

  A C array (or malloc block) is a list of its cells, so its length is its allocated
  size. An access outside of the block is undefined behaviour in C; here it is the
  result \<^const>\<open>None\<close>, and \<^const>\<open>Option.bind\<close> (the \<open>do\<close> notation) propagates it. So a
  definition of type \<open>'a option\<close> that returns \<^const>\<open>None\<close> says that the C code leaves its
  memory blocks (or dereferences a null pointer) on that input. Error codes, which
  the code returns on purpose, are ordinary values.

  A C \<open>int\<close> is an \<^typ>\<open>int\<close> (the sizes and counters of the code stay far from the
  bounds of the type, and their overflow would be undefined behaviour); an unsigned
  quantity whose wrap-around is used is a word of its width.
\<close>

unbundle bit_operations_syntax

named_theorems mem_simps \<open>unfolding of the memory accesses\<close>
named_theorems mem_len \<open>lengths are kept by the memory accesses\<close>

type_synonym u8 = "8 word"
type_synonym u16 = "16 word"
type_synonym u32 = "32 word"

section \<open>Options\<close>

lemma bind_Some_iff [simp]:
  "Option.bind x f = Some y \<longleftrightarrow> (\<exists>z. x = Some z \<and> f z = Some y)"
  by (cases x) auto

lemma option_eqI: "(\<And>v. x = Some v \<longleftrightarrow> y = Some v) \<Longrightarrow> x = y"
  by (cases x; cases y) auto

section \<open>Reading and writing blocks\<close>

definition rd :: "'a list \<Rightarrow> nat \<Rightarrow> 'a option" where
  "rd b i = (if i < length b then Some (b ! i) else None)"

definition wr :: "'a list \<Rightarrow> nat \<Rightarrow> 'a \<Rightarrow> 'a list option" where
  "wr b i v = (if i < length b then Some (b[i := v]) else None)"

definition rd_slice :: "'a list \<Rightarrow> nat \<Rightarrow> nat \<Rightarrow> 'a list option" where
  "rd_slice b off n = (if off + n \<le> length b then Some (take n (drop off b)) else None)"

definition wr_slice :: "'a list \<Rightarrow> nat \<Rightarrow> 'a list \<Rightarrow> 'a list option" where
  "wr_slice b off ys =
     (if off + length ys \<le> length b
      then Some (take off b @ ys @ drop (off + length ys) b) else None)"

lemmas mem_defs [mem_simps] = rd_def wr_def rd_slice_def wr_slice_def

lemma rd_Some_iff [simp]: "rd b i = Some v \<longleftrightarrow> i < length b \<and> b ! i = v"
  by (auto simp: rd_def)

lemma rd_in [simp]: "i < length b \<Longrightarrow> rd b i = Some (b ! i)"
  by (simp add: rd_def)

lemma wr_in [simp]: "i < length b \<Longrightarrow> wr b i v = Some (b[i := v])"
  by (simp add: wr_def)

lemma rd_slice_in [simp]: "off + n \<le> length b \<Longrightarrow> rd_slice b off n = Some (take n (drop off b))"
  by (simp add: rd_slice_def)

lemma wr_slice_in [simp]:
  "off + length ys \<le> length b
   \<Longrightarrow> wr_slice b off ys = Some (take off b @ ys @ drop (off + length ys) b)"
  by (simp add: wr_slice_def)

lemma wr_length [mem_len]: "wr b i v = Some b' \<Longrightarrow> length b' = length b"
  by (auto simp: wr_def split: if_splits)

lemma wr_slice_length [mem_len]: "wr_slice b off ys = Some b' \<Longrightarrow> length b' = length b"
  by (auto simp: wr_slice_def split: if_splits)

lemma rd_slice_length [mem_len]: "rd_slice b off n = Some ys \<Longrightarrow> length ys = n"
  by (auto simp: rd_slice_def split: if_splits)

text \<open>\<open>memset(p, v, n)\<close> at the start of a block.\<close>

definition c_memset :: "'a list \<Rightarrow> 'a \<Rightarrow> int \<Rightarrow> 'a list option" where
  "c_memset b v n = (if n < 0 then None else wr_slice b 0 (replicate (nat n) v))"

text \<open>A slice that has just been written reads back, and the cells around it are kept.\<close>

lemma rd_slice_wr_slice:
  "wr_slice b off ys = Some b' \<Longrightarrow> rd_slice b' off (length ys) = Some ys"
  by (auto simp: wr_slice_def rd_slice_def split: if_splits)

lemma wr_slice_nth_other:
  "wr_slice b off ys = Some b' \<Longrightarrow> i < off \<or> off + length ys \<le> i \<Longrightarrow> i < length b
   \<Longrightarrow> b' ! i = b ! i"
  by (auto simp: wr_slice_def nth_append split: if_splits)

text \<open>
  \<open>memcpy(dst + doff, src + soff, n)\<close> between two blocks. A negative \<open>int\<close> count is
  converted to a huge \<open>size_t\<close>, so it leaves every block.
\<close>

definition c_memcpy :: "'a list \<Rightarrow> int \<Rightarrow> 'a list \<Rightarrow> int \<Rightarrow> int \<Rightarrow> 'a list option" where
  "c_memcpy dst doff src soff n =
     (if doff < 0 \<or> soff < 0 \<or> n < 0 then None
      else do { xs \<leftarrow> rd_slice src (nat soff) (nat n); wr_slice dst (nat doff) xs })"

lemma c_memcpy_nat:
  "c_memcpy dst (int d) src (int s) (int n) =
     (if s + n \<le> length src \<and> d + n \<le> length dst
      then Some (take d dst @ take n (drop s src) @ drop (d + n) dst) else None)"
  by (auto simp: c_memcpy_def rd_slice_def wr_slice_def)

lemma c_memcpy_length [mem_len]: "c_memcpy dst d src s n = Some dst' \<Longrightarrow> length dst' = length dst"
  by (auto simp: c_memcpy_def split: if_splits dest: wr_slice_length)

section \<open>Bytes of words\<close>

lemma byte_mask: "(0xff :: 'a::len word) = mask 8"
  by (simp add: mask_eq_exp_minus_1)

lemma and_byte_bound: "unat ((x :: 'a::len word) AND 0xff) < 256"
proof -
  have "unat (x AND 0xff) \<le> unat (0xff :: 'a word)"
    unfolding word_le_nat_alt [symmetric] by (rule word_and_le1)
  also have "\<dots> \<le> 255"
    by (metis mod_less_eq_dividend of_nat_numeral unat_of_nat)
  finally show ?thesis by simp
qed

section \<open>Masks as remainders\<close>

text \<open>The remainder of C truncates; on non-negative operands it is the mathematical one.\<close>

lemma smod_nonneg: "0 \<le> a \<Longrightarrow> 0 < b \<Longrightarrow> a smod b = a mod (b :: int)"
  by (cases "a = 0") (auto simp: smod_int_alt_def sgn_if)

lemma sdiv_nonneg: "0 \<le> a \<Longrightarrow> 0 < b \<Longrightarrow> a sdiv b = a div (b :: int)"
  by (cases "a = 0") (auto simp: signed_divide_int_def sgn_if)

lemma and_pow2_mask: "(x :: int) AND (2 ^ k - 1) = x mod 2 ^ k"
  by (simp add: mask_eq_exp_minus_1 [symmetric] take_bit_eq_mask [symmetric] take_bit_eq_mod)

section \<open>Arrays of pointers\<close>

text \<open>The number of the cells that are not \<open>NULL\<close>.\<close>

fun used_slots :: "'a option list \<Rightarrow> nat" where
  "used_slots [] = 0"
| "used_slots (e # es) = (if e \<noteq> None then 1 else 0) + used_slots es"

lemma used_slots_le: "used_slots xs \<le> length xs"
  by (induction xs) auto

lemma used_slots_full_iff: "used_slots xs = length xs \<longleftrightarrow> None \<notin> set xs"
proof (induction xs)
  case (Cons x xs)
  then show ?case using used_slots_le [of xs] by auto
qed simp

lemma used_slots_replicate [simp]: "used_slots (replicate n None) = 0"
  by (induction n) auto

lemma used_slots_zero_iff: "used_slots xs = 0 \<longleftrightarrow> (\<forall>e \<in> set xs. e = None)"
  by (induction xs) auto

lemma used_slots_update:
  "i < length xs \<Longrightarrow> int (used_slots (xs[i := e])) =
     int (used_slots xs) + (if e \<noteq> None then 1 else 0) - (if xs ! i \<noteq> None then 1 else 0)"
proof (induction xs arbitrary: i)
  case (Cons x xs)
  show ?case
  proof (cases i)
    case (Suc j)
    then show ?thesis using Cons.IH [of j] Cons.prems by simp
  qed simp
qed simp

text \<open>The index of the first cell with \<open>P\<close>, or the length.\<close>

fun first_slot :: "('a \<Rightarrow> bool) \<Rightarrow> 'a list \<Rightarrow> nat" where
  "first_slot P [] = 0"
| "first_slot P (x # xs) = (if P x then 0 else Suc (first_slot P xs))"

lemma first_slot_le: "first_slot P xs \<le> length xs"
  by (induction xs) auto

lemma first_slot_nth: "first_slot P xs < length xs \<Longrightarrow> P (xs ! first_slot P xs)"
  by (induction xs) auto

lemma first_slot_least: "j < first_slot P xs \<Longrightarrow> \<not> P (xs ! j)"
proof (induction xs arbitrary: j)
  case (Cons x xs)
  then show ?case by (cases j) (auto split: if_splits)
qed simp

lemma first_slot_less_iff: "first_slot P xs < length xs \<longleftrightarrow> (\<exists>x \<in> set xs. P x)"
  by (induction xs) auto

lemma first_slot_eq: "i < length xs \<Longrightarrow> P (xs ! i) \<Longrightarrow> (\<And>j. j < i \<Longrightarrow> \<not> P (xs ! j)) \<Longrightarrow> first_slot P xs = i"
  by (metis first_slot_least first_slot_less_iff first_slot_nth linorder_neqE_nat nth_mem)

end
