(* ===== verification/Crc.thy ===== *)
theory Crc
  imports Prelude
begin

text \<open>
  The checksum of the TLV packets: \<open>tlv/crc-itu-t.c\<close> and \<open>tlv/crc-itu-t.h\<close>.
  \<open>crc_itu_t_table\<close> and \<open>crc_itu_t_byte\<close> are the table-driven code;
  \<open>crc_shift\<close> is the bitwise division by the polynomial \<open>0x1021\<close> that the table
  stands for. The lemmas show that the table is right at each of its 256 entries, that
  the table-driven checksum is the bitwise one, and that a change of one byte always
  changes the checksum.
\<close>

definition crc_itu_t_table :: "u16 list" where
  "crc_itu_t_table = [
    0x0000, 0x1021, 0x2042, 0x3063, 0x4084, 0x50a5, 0x60c6, 0x70e7,
    0x8108, 0x9129, 0xa14a, 0xb16b, 0xc18c, 0xd1ad, 0xe1ce, 0xf1ef,
    0x1231, 0x0210, 0x3273, 0x2252, 0x52b5, 0x4294, 0x72f7, 0x62d6,
    0x9339, 0x8318, 0xb37b, 0xa35a, 0xd3bd, 0xc39c, 0xf3ff, 0xe3de,
    0x2462, 0x3443, 0x0420, 0x1401, 0x64e6, 0x74c7, 0x44a4, 0x5485,
    0xa56a, 0xb54b, 0x8528, 0x9509, 0xe5ee, 0xf5cf, 0xc5ac, 0xd58d,
    0x3653, 0x2672, 0x1611, 0x0630, 0x76d7, 0x66f6, 0x5695, 0x46b4,
    0xb75b, 0xa77a, 0x9719, 0x8738, 0xf7df, 0xe7fe, 0xd79d, 0xc7bc,
    0x48c4, 0x58e5, 0x6886, 0x78a7, 0x0840, 0x1861, 0x2802, 0x3823,
    0xc9cc, 0xd9ed, 0xe98e, 0xf9af, 0x8948, 0x9969, 0xa90a, 0xb92b,
    0x5af5, 0x4ad4, 0x7ab7, 0x6a96, 0x1a71, 0x0a50, 0x3a33, 0x2a12,
    0xdbfd, 0xcbdc, 0xfbbf, 0xeb9e, 0x9b79, 0x8b58, 0xbb3b, 0xab1a,
    0x6ca6, 0x7c87, 0x4ce4, 0x5cc5, 0x2c22, 0x3c03, 0x0c60, 0x1c41,
    0xedae, 0xfd8f, 0xcdec, 0xddcd, 0xad2a, 0xbd0b, 0x8d68, 0x9d49,
    0x7e97, 0x6eb6, 0x5ed5, 0x4ef4, 0x3e13, 0x2e32, 0x1e51, 0x0e70,
    0xff9f, 0xefbe, 0xdfdd, 0xcffc, 0xbf1b, 0xaf3a, 0x9f59, 0x8f78,
    0x9188, 0x81a9, 0xb1ca, 0xa1eb, 0xd10c, 0xc12d, 0xf14e, 0xe16f,
    0x1080, 0x00a1, 0x30c2, 0x20e3, 0x5004, 0x4025, 0x7046, 0x6067,
    0x83b9, 0x9398, 0xa3fb, 0xb3da, 0xc33d, 0xd31c, 0xe37f, 0xf35e,
    0x02b1, 0x1290, 0x22f3, 0x32d2, 0x4235, 0x5214, 0x6277, 0x7256,
    0xb5ea, 0xa5cb, 0x95a8, 0x8589, 0xf56e, 0xe54f, 0xd52c, 0xc50d,
    0x34e2, 0x24c3, 0x14a0, 0x0481, 0x7466, 0x6447, 0x5424, 0x4405,
    0xa7db, 0xb7fa, 0x8799, 0x97b8, 0xe75f, 0xf77e, 0xc71d, 0xd73c,
    0x26d3, 0x36f2, 0x0691, 0x16b0, 0x6657, 0x7676, 0x4615, 0x5634,
    0xd94c, 0xc96d, 0xf90e, 0xe92f, 0x99c8, 0x89e9, 0xb98a, 0xa9ab,
    0x5844, 0x4865, 0x7806, 0x6827, 0x18c0, 0x08e1, 0x3882, 0x28a3,
    0xcb7d, 0xdb5c, 0xeb3f, 0xfb1e, 0x8bf9, 0x9bd8, 0xabbb, 0xbb9a,
    0x4a75, 0x5a54, 0x6a37, 0x7a16, 0x0af1, 0x1ad0, 0x2ab3, 0x3a92,
    0xfd2e, 0xed0f, 0xdd6c, 0xcd4d, 0xbdaa, 0xad8b, 0x9de8, 0x8dc9,
    0x7c26, 0x6c07, 0x5c64, 0x4c45, 0x3ca2, 0x2c83, 0x1ce0, 0x0cc1,
    0xef1f, 0xff3e, 0xcf5d, 0xdf7c, 0xaf9b, 0xbfba, 0x8fd9, 0x9ff8,
    0x6e17, 0x7e36, 0x4e55, 0x5e74, 0x2e93, 0x3eb2, 0x0ed1, 0x1ef0]"

definition crc_itu_t_byte :: "u16 \<Rightarrow> u8 \<Rightarrow> u16" where
  "crc_itu_t_byte crc data =
     push_bit 8 crc XOR
     crc_itu_t_table ! unat ((drop_bit 8 crc XOR ucast data) AND 0xff)"

text \<open>The loop runs over the bytes of the buffer, \<open>len\<close> of them.\<close>

fun crc_itu_t :: "u16 \<Rightarrow> u8 list \<Rightarrow> u16" where
  "crc_itu_t crc [] = crc"
| "crc_itu_t crc (b # bs) = crc_itu_t (crc_itu_t_byte crc b) bs"

section \<open>The bitwise reference\<close>

definition crc_shift :: "u16 \<Rightarrow> u16" where
  "crc_shift x = (if bit x 15 then push_bit 1 x XOR 0x1021 else push_bit 1 x)"

definition crc_shift8 :: "u16 \<Rightarrow> u16" where
  "crc_shift8 x = (crc_shift ^^ 8) x"

definition crc_ref_byte :: "u16 \<Rightarrow> u8 \<Rightarrow> u16" where
  "crc_ref_byte crc data = crc_shift8 (crc XOR push_bit 8 (ucast data))"

fun crc_ref :: "u16 \<Rightarrow> u8 list \<Rightarrow> u16" where
  "crc_ref crc [] = crc"
| "crc_ref crc (b # bs) = crc_ref (crc_ref_byte crc b) bs"

lemma crc_shift_xor: "crc_shift (x XOR y) = crc_shift x XOR crc_shift y"
  by (auto simp: crc_shift_def bit_xor_iff push_bit_xor ac_simps)

lemma crc_shift_pow_xor: "(crc_shift ^^ n) (x XOR y) = (crc_shift ^^ n) x XOR (crc_shift ^^ n) y"
  by (induction n) (simp_all add: crc_shift_xor)

lemma crc_shift8_xor: "crc_shift8 (x XOR y) = crc_shift8 x XOR crc_shift8 y"
  by (simp add: crc_shift8_def crc_shift_pow_xor)

lemma crc_table_length: "length crc_itu_t_table = 256"
  by (simp add: crc_itu_t_table_def)


lemma crc_shift8_unfold:
  "crc_shift8 x = crc_shift (crc_shift (crc_shift (crc_shift (crc_shift (crc_shift (crc_shift (crc_shift x)))))))"
  by (simp add: crc_shift8_def eval_nat_numeral)

fun crc_entries_ok :: "u16 \<Rightarrow> u16 list \<Rightarrow> bool" where
  "crc_entries_ok x [] = True"
| "crc_entries_ok x (t # ts) = (t = crc_shift8 x \<and> crc_entries_ok (x + 0x100) ts)"

lemma crc_entries_nth:
  "crc_entries_ok x ts \<Longrightarrow> i < length ts \<Longrightarrow> ts ! i = crc_shift8 (x + 0x100 * word_of_nat i)"
proof (induction ts arbitrary: x i)
  case (Cons t ts)
  then show ?case by (cases i) (auto simp: algebra_simps)
qed simp

lemma crc_table_entries: "crc_entries_ok 0 crc_itu_t_table"
  by (simp add: crc_itu_t_table_def crc_shift8_unfold crc_shift_def)

lemma crc_table_nth:
  assumes "i < 256"
  shows "crc_itu_t_table ! i = crc_shift8 (push_bit 8 (word_of_nat i))"
  using crc_entries_nth [OF crc_table_entries, of i] assms
  by (simp add: crc_table_length push_bit_eq_mult mult.commute)

text \<open>A byte without its high bits is only shifted: the polynomial is not subtracted.\<close>

lemma crc_shift_low:
  assumes "\<And>k. k \<ge> 8 \<Longrightarrow> \<not> bit (x::u16) k" "n \<le> 8"
  shows "(crc_shift ^^ n) x = push_bit n x"
  using assms(2)
proof (induction n)
  case (Suc n)
  then have "\<not> bit (push_bit n x) 15"
    using assms(1) by (simp add: bit_push_bit_iff)
  with Suc show ?case by (simp add: crc_shift_def push_bit_push_bit [symmetric])
qed simp

lemma crc_byte_split:
  fixes crc :: u16 and d :: u8
  shows "crc XOR push_bit 8 (ucast d) =
    push_bit 8 ((drop_bit 8 crc XOR ucast d) AND 0xff) XOR (crc AND 0xff)"
proof (rule bit_word_eqI)
  fix n assume "n < LENGTH(16)"
  then show "bit (crc XOR push_bit 8 (ucast d)) n =
    bit (push_bit 8 ((drop_bit 8 crc XOR ucast d) AND 0xff) XOR (crc AND 0xff)) n"
    unfolding byte_mask by (cases "n < 8") (auto simp del: push_bit_and push_bit_xor simp: bit_simps)
qed

lemma crc_shift8_and: "crc_shift8 (crc AND 0xff) = push_bit 8 crc"
proof -
  have "crc_shift8 (crc AND 0xff) = push_bit 8 (crc AND 0xff)"
    unfolding crc_shift8_def byte_mask by (rule crc_shift_low) (auto simp: bit_simps)
  also have "\<dots> = push_bit 8 crc"
    unfolding byte_mask by (rule bit_word_eqI) (auto simp del: push_bit_and simp: bit_simps)
  finally show ?thesis .
qed

lemma crc_byte_ref: "crc_itu_t_byte crc d = crc_ref_byte crc d"
proof -
  let ?i = "(drop_bit 8 crc XOR ucast d) AND 0xff :: u16"
  have "crc_ref_byte crc d = crc_shift8 (push_bit 8 ?i) XOR crc_shift8 (crc AND 0xff)"
    unfolding crc_ref_byte_def crc_byte_split by (rule crc_shift8_xor)
  also have "crc_shift8 (push_bit 8 ?i) = crc_itu_t_table ! unat ?i"
    using crc_table_nth [of "unat ?i"] and_byte_bound [of "drop_bit 8 crc XOR ucast d"]
    by simp
  finally show ?thesis
    by (simp add: crc_itu_t_byte_def crc_shift8_and xor.commute)
qed

section \<open>The checksum as a step function\<close>

text \<open>
  A byte step that can be undone in both its arguments makes a checksum that no change
  of a single byte escapes. The locale states that interface and what follows from it;
  \<open>crc_itu_t_byte\<close> provides it.
\<close>

locale checksum =
  fixes step :: "'c \<Rightarrow> 'b \<Rightarrow> 'c"
    and digest :: "'c \<Rightarrow> 'b list \<Rightarrow> 'c"
  assumes digest_Nil: "digest c [] = c"
    and digest_Cons: "digest c (b # bs) = digest (step c b) bs"
    and step_inj_state: "step c b = step c' b \<Longrightarrow> c = c'"
    and step_inj_byte: "step c b = step c b' \<Longrightarrow> b = b'"
begin

lemma digest_append: "digest c (xs @ ys) = digest (digest c xs) ys"
  by (induction xs arbitrary: c) (simp_all add: digest_Nil digest_Cons)

lemma digest_inj_state: "digest c xs = digest c' xs \<Longrightarrow> c = c'"
  by (induction xs arbitrary: c c') (auto simp: digest_Nil digest_Cons dest: step_inj_state)

lemma digest_change_detected:
  assumes "b \<noteq> b'"
  shows "digest c (xs @ b # ys) \<noteq> digest c (xs @ b' # ys)"
proof
  assume "digest c (xs @ b # ys) = digest c (xs @ b' # ys)"
  then have "step (digest c xs) b = step (digest c xs) b'"
    by (auto simp: digest_append digest_Cons dest: digest_inj_state)
  with assms show False by (auto dest: step_inj_byte)
qed

lemma digest_update_detected:
  assumes "i < length xs" "xs ! i \<noteq> b"
  shows "digest c (xs[i := b]) \<noteq> digest c xs"
proof -
  have "xs = take i xs @ xs ! i # drop (Suc i) xs"
    using assms(1) by (simp add: id_take_nth_drop)
  moreover have "xs[i := b] = take i xs @ b # drop (Suc i) xs"
    using assms(1) by (simp add: upd_conv_take_nth_drop)
  ultimately show ?thesis
    using digest_change_detected [of b "xs ! i" c "take i xs" "drop (Suc i) xs"] assms(2)
    by metis
qed

end

lemma crc_shift_zero: "crc_shift z = 0 \<Longrightarrow> z = 0"
proof (cases "bit z 15")
  case True
  assume "crc_shift z = 0"
  with True have "bit (push_bit 1 z XOR 0x1021 :: u16) 0 = bit (0::u16) 0"
    by (simp add: crc_shift_def)
  then have "bit (push_bit 1 z) 0 = bit (0x1021 :: u16) 0"
    by (simp only: bit_xor_iff) simp
  moreover have "\<not> bit (push_bit 1 z) 0"
    by (simp only: bit_push_bit_iff) simp
  moreover have "bit (0x1021 :: u16) 0" by simp
  ultimately show ?thesis by simp
next
  case False
  assume "crc_shift z = 0"
  with False have *: "push_bit 1 z = 0" by (simp add: crc_shift_def)
  show "z = 0"
  proof (rule bit_word_eqI)
    fix n assume "n < LENGTH(16)"
    then consider "n = 15" | "n < 15" by fastforce
    then show "bit z n = bit 0 n"
    proof cases
      case 2
      then have "bit (push_bit 1 z) (Suc n) = bit z n"
        by (simp only: bit_push_bit_iff) simp
      then show ?thesis unfolding * by simp
    qed (use False in simp)
  qed
qed

lemma crc_shift8_inj: "crc_shift8 x = crc_shift8 y \<Longrightarrow> x = y"
proof -
  have zero: "(crc_shift ^^ n) z = 0 \<Longrightarrow> z = 0" for n z
    by (induction n) (auto dest: crc_shift_zero)
  assume "crc_shift8 x = crc_shift8 y"
  then have "crc_shift8 (x XOR y) = 0" by (simp add: crc_shift8_xor)
  then have "x XOR y = 0" unfolding crc_shift8_def by (rule zero)
  then have "(x XOR y) XOR y = y" by simp
  then show "x = y" by (simp add: xor.assoc)
qed

lemma xor_left_inj: "(c :: 'a::len word) XOR x = c XOR y \<Longrightarrow> x = y"
  by (metis xor.assoc xor.left_neutral xor_self_eq)

lemma crc_byte_inj_state: "crc_itu_t_byte c b = crc_itu_t_byte c' b \<Longrightarrow> c = c'"
  by (auto simp: crc_byte_ref crc_ref_byte_def xor.commute
      dest!: crc_shift8_inj intro: xor_left_inj)

lemma crc_byte_inj_data: "crc_itu_t_byte c b = crc_itu_t_byte c b' \<Longrightarrow> b = b'"
proof -
  assume "crc_itu_t_byte c b = crc_itu_t_byte c b'"
  then have eq: "push_bit 8 (ucast b :: u16) = push_bit 8 (ucast b')"
    by (auto simp: crc_byte_ref crc_ref_byte_def dest!: crc_shift8_inj intro: xor_left_inj)
  show "b = b'"
  proof (rule bit_word_eqI)
    fix n assume "n < LENGTH(8)"
    then show "bit b n = bit b' n"
      using arg_cong [OF eq, of "\<lambda>w. bit w (n + 8)"] by (simp add: bit_simps)
  qed
qed

interpretation itu: checksum crc_itu_t_byte crc_itu_t
  by unfold_locales (auto dest: crc_byte_inj_state crc_byte_inj_data)

text \<open>C33. C12 equivalence\<close>
theorem crc_table_driven_eq_bitwise: "crc_itu_t crc bs = crc_ref crc bs"
  by (induction bs arbitrary: crc) (simp_all add: crc_byte_ref)

end
