(* ===== verification/Tlv.thy ===== *)
theory Tlv
  imports Crc
begin

text \<open>
  The TLV packets of \<open>tlv/tlv_pack.c\<close>: \<open><2B tag> <2B length> <value> <2B CRC>\<close>.
  A pointer argument that the code compares with \<open>NULL\<close> is an option; the byte
  buffer behind a pointer is a list, and \<open>&buf[oft]\<close> is the buffer with the offset.
  The lemmas show the big-endian round trips, what \<open>tlv_pack\<close> writes and keeps, that
  \<open>tlv_unpack\<close> gives back what was packed, and what it does with damaged and with
  truncated messages.
\<close>

definition TLV_MGIC_CRC :: u16 where "TLV_MGIC_CRC = 0xEC60"
definition TLV_TAG_SIZE :: nat where "TLV_TAG_SIZE = 2"
definition TLV_LEN_SIZE :: nat where "TLV_LEN_SIZE = 2"
definition TLV_CRC_SIZE :: nat where "TLV_CRC_SIZE = 2"
definition TLV_HEAD_SIZE :: nat where "TLV_HEAD_SIZE = TLV_TAG_SIZE + TLV_LEN_SIZE"
definition TLV_MIN_SIZE :: nat where "TLV_MIN_SIZE = TLV_HEAD_SIZE + TLV_CRC_SIZE"

lemmas tlv_sizes = TLV_TAG_SIZE_def TLV_LEN_SIZE_def TLV_CRC_SIZE_def
  TLV_HEAD_SIZE_def TLV_MIN_SIZE_def

section \<open>Big-endian integers\<close>

text \<open>
  The loop \<open>while (size) *(bytes + --size) = (val >> ((8 * i++) & 0xFF))\<close>, which
  both \<open>ushort_to_bytes\<close> and \<open>uint_to_bytes\<close> run.
\<close>

fun store_loop :: "nat \<Rightarrow> nat \<Rightarrow> u8 list \<Rightarrow> nat \<Rightarrow> 'a::len word \<Rightarrow> u8 list option" where
  "store_loop 0 i bytes off val = Some bytes"
| "store_loop (Suc n) i bytes off val = do {
     bytes' \<leftarrow> wr bytes (off + n) (ucast (drop_bit ((8 * i) mod 256) val));
     store_loop n (Suc i) bytes' off val }"

definition ushort_to_bytes :: "u8 list option \<Rightarrow> nat \<Rightarrow> u16 \<Rightarrow> (nat \<times> u8 list option) option" where
  "ushort_to_bytes bytes off val =
     (case bytes of None \<Rightarrow> Some (0, None)
      | Some b \<Rightarrow> do { b' \<leftarrow> store_loop 2 0 b off val; Some (2, Some b') })"

definition uint_to_bytes :: "u8 list option \<Rightarrow> nat \<Rightarrow> u32 \<Rightarrow> (nat \<times> u8 list option) option" where
  "uint_to_bytes bytes off val =
     (case bytes of None \<Rightarrow> Some (0, None)
      | Some b \<Rightarrow> do { b' \<leftarrow> store_loop 4 0 b off val; Some (4, Some b') })"

text \<open>The loop of \<open>bytes_to_ushort\<close> and \<open>bytes_to_uint\<close>.\<close>

function load_loop :: "nat \<Rightarrow> nat \<Rightarrow> u8 list \<Rightarrow> nat \<Rightarrow> 'a::len word \<Rightarrow> 'a word option" where
  "load_loop i len bytes off val =
     (if i < len then do {
        x \<leftarrow> rd bytes (off + i);
        let v = val + ucast x;
        load_loop (Suc i) len bytes off (if i < len - 1 then push_bit 8 v else v) }
      else Some val)"
  by pat_completeness auto
termination
  by (relation "measure (\<lambda>(i, len, _). len - i)") auto

declare load_loop.simps [simp del]

text \<open>
  \<open>len > sizeof(unsigned short)\<close> compares an \<open>int\<close> with a \<open>size_t\<close>: a negative
  \<open>len\<close> is converted to a large unsigned number, so it is refused as well.
\<close>

definition bytes_to_ushort :: "u8 list option \<Rightarrow> nat \<Rightarrow> int \<Rightarrow> u16 option" where
  "bytes_to_ushort bytes off len =
     (case bytes of None \<Rightarrow> Some 0
      | Some b \<Rightarrow> if len < 0 \<or> len > 2 then Some 0 else load_loop 0 (nat len) b off 0)"

definition bytes_to_uint :: "u8 list option \<Rightarrow> nat \<Rightarrow> int \<Rightarrow> u32 option" where
  "bytes_to_uint bytes off len =
     (case bytes of None \<Rightarrow> Some 0
      | Some b \<Rightarrow> if len < 0 \<or> len > 4 then Some 0 else load_loop 0 (nat len) b off 0)"

section \<open>Packets\<close>

definition tlv_encode_tl :: "u8 list \<Rightarrow> u16 \<Rightarrow> u16 \<Rightarrow> (nat \<times> u8 list) option" where
  "tlv_encode_tl obuf tag len = do {
     let oft = 0;
     (_, b1) \<leftarrow> ushort_to_bytes (Some obuf) oft tag;
     let oft = oft + TLV_TAG_SIZE;
     (_, b2) \<leftarrow> ushort_to_bytes b1 oft len;
     let oft = oft + TLV_LEN_SIZE;
     b2' \<leftarrow> b2;
     Some (oft, b2') }"

definition tlv_decode_tl :: "u8 list \<Rightarrow> (nat \<times> u16 \<times> u16) option" where
  "tlv_decode_tl ibuf = do {
     let oft = 0;
     tag \<leftarrow> bytes_to_ushort (Some ibuf) oft (int TLV_TAG_SIZE);
     let oft = oft + TLV_TAG_SIZE;
     len \<leftarrow> bytes_to_ushort (Some ibuf) oft (int TLV_LEN_SIZE);
     let oft = oft + TLV_LEN_SIZE;
     Some (oft, tag, len) }"

text \<open>
  \<open>tlv_pack\<close> returns the packet length, or 0 when it refuses; the second component is
  the output buffer afterwards.
\<close>

definition tlv_pack ::
  "u8 list option \<Rightarrow> int \<Rightarrow> u16 \<Rightarrow> u16 \<Rightarrow> u8 list option \<Rightarrow> (nat \<times> u8 list option) option" where
  "tlv_pack tlv_obuf obuf_size tag len val =
     (case tlv_obuf of None \<Rightarrow> Some (0, None)
      | Some obuf \<Rightarrow>
          let len = (if val = None then 0 else len) in
          if obuf_size < int TLV_MIN_SIZE + uint len then Some (0, Some obuf)
          else do {
            (oft, b1) \<leftarrow> tlv_encode_tl obuf tag len;
            src \<leftarrow> (case val of None \<Rightarrow> Some [] | Some v \<Rightarrow> rd_slice v 0 (unat len));
            b2 \<leftarrow> wr_slice b1 TLV_HEAD_SIZE src;
            let oft = oft + unat len;
            msg \<leftarrow> rd_slice b2 0 oft;
            let crc = crc_itu_t TLV_MGIC_CRC msg;
            (n, b3) \<leftarrow> ushort_to_bytes (Some b2) oft crc;
            Some (oft + n, b3) })"

record tlv_result =
  tr_ret :: int
  tr_tag :: "u16 option"
  tr_len :: "u16 option"
  tr_val :: "u8 list option"

definition tlv_unpack ::
  "u8 list option \<Rightarrow> int \<Rightarrow> u16 option \<Rightarrow> u16 option \<Rightarrow> u8 list option \<Rightarrow> tlv_result option" where
  "tlv_unpack tlv_msg msg_len tag len val =
     (if tlv_msg = None \<or> tag = None \<or> len = None \<or> val = None \<or> msg_len < int TLV_MIN_SIZE
      then Some \<lparr>tr_ret = -1, tr_tag = tag, tr_len = len, tr_val = val\<rparr>
      else do {
        msg \<leftarrow> tlv_msg;
        out \<leftarrow> val;
        (oft, t, l) \<leftarrow> tlv_decode_tl msg;
        crc \<leftarrow> bytes_to_ushort (Some msg) (oft + unat l) 2;
        covered \<leftarrow> rd_slice msg 0 (TLV_HEAD_SIZE + unat l);
        if crc \<noteq> crc_itu_t TLV_MGIC_CRC covered
        then Some \<lparr>tr_ret = -2, tr_tag = Some t, tr_len = Some l, tr_val = val\<rparr>
        else do {
          src \<leftarrow> rd_slice msg oft (unat l);
          out' \<leftarrow> wr_slice out 0 src;
          Some \<lparr>tr_ret = 0, tr_tag = Some t, tr_len = Some l, tr_val = Some out'\<rparr> } })"

section \<open>Lemmas on the integers\<close>

definition hi8 :: "u16 \<Rightarrow> u8" where "hi8 x = ucast (drop_bit 8 x)"
definition lo8 :: "u16 \<Rightarrow> u8" where "lo8 x = ucast x"
definition join8 :: "u8 \<Rightarrow> u8 \<Rightarrow> u16" where "join8 h l = push_bit 8 (ucast h) + ucast l"

lemma join8_hi_lo [simp]: "join8 (hi8 x) (lo8 x) = x"
proof -
  have "push_bit 8 (ucast (hi8 x) :: u16) + ucast (lo8 x) = push_bit 8 (ucast (hi8 x)) OR ucast (lo8 x)"
    by (rule disjunctive_add_eq_or) (auto simp: bit_eq_iff bit_simps hi8_def lo8_def)
  also have "\<dots> = x"
    by (rule bit_word_eqI) (auto simp: bit_simps hi8_def lo8_def)
  finally show ?thesis by (simp add: join8_def)
qed

lemma hi8_join [simp]: "hi8 (join8 h l) = h" and lo8_join [simp]: "lo8 (join8 h l) = l"
proof -
  have *: "join8 h l = push_bit 8 (ucast h) OR ucast l"
    unfolding join8_def
    by (rule disjunctive_add_eq_or) (auto simp: bit_eq_iff bit_simps dest: bit_imp_le_length)
  show "hi8 (join8 h l) = h"
    unfolding * by (rule bit_word_eqI) (auto simp: bit_simps hi8_def dest: bit_imp_le_length)
  show "lo8 (join8 h l) = l"
    unfolding * by (rule bit_word_eqI) (auto simp: bit_simps lo8_def)
qed

lemma ushort_to_bytes_eq:
  assumes "off + 2 \<le> length b"
  shows "ushort_to_bytes (Some b) off v = Some (2, Some (b[off := hi8 v, Suc off := lo8 v]))"
proof -
  have "store_loop (Suc (Suc 0)) 0 b off v = Some (b[off := hi8 v, Suc off := lo8 v])"
    using assms by (simp add: hi8_def lo8_def list_update_swap)
  then show ?thesis by (simp add: ushort_to_bytes_def numeral_2_eq_2)
qed

lemma bytes_to_ushort_eq:
  "bytes_to_ushort (Some b) off 2 =
     (if off + 2 \<le> length b then Some (join8 (b ! off) (b ! Suc off)) else None)"
proof -
  have "load_loop 0 2 b off (0::u16) =
      (if off + 2 \<le> length b then Some (join8 (b ! off) (b ! Suc off)) else None)"
    unfolding load_loop.simps [of 0] load_loop.simps [of "Suc 0"] load_loop.simps [of "Suc (Suc 0)"]
    by (auto simp: join8_def Let_def rd_def)
  then show ?thesis by (simp add: bytes_to_ushort_def)
qed

lemma encode_tl_eq:
  assumes "4 \<le> length b"
  shows "tlv_encode_tl b t l = Some (4, b[0 := hi8 t, 1 := lo8 t, 2 := hi8 l, 3 := lo8 l])"
  using assms by (simp add: tlv_encode_tl_def tlv_sizes ushort_to_bytes_eq eval_nat_numeral)

lemma decode_tl_eq:
  "tlv_decode_tl b =
     (if 4 \<le> length b then Some (4, join8 (b ! 0) (b ! 1), join8 (b ! 2) (b ! 3)) else None)"
  by (simp add: tlv_decode_tl_def tlv_sizes bytes_to_ushort_eq eval_nat_numeral)

text \<open>The layout of a packet: what the receiver of \<open>tlv_pack\<close> finds in the buffer.\<close>

definition tlv_head :: "u16 \<Rightarrow> u16 \<Rightarrow> u8 list" where
  "tlv_head tag len = [hi8 tag, lo8 tag, hi8 len, lo8 len]"

definition tlv_message :: "u16 \<Rightarrow> u8 list \<Rightarrow> u8 list" where
  "tlv_message tag v =
     (let body = tlv_head tag (word_of_nat (length v)) @ v;
          crc = crc_itu_t TLV_MGIC_CRC body
      in body @ [hi8 crc, lo8 crc])"

lemma tlv_message_length [simp]: "length (tlv_message tag v) = 6 + length v"
  by (simp add: tlv_message_def tlv_head_def Let_def)

lemma update_pair:
  "off + 2 \<le> length b \<Longrightarrow> b[off := h, Suc off := l] = take off b @ [h, l] @ drop (off + 2) b"
  by (rule nth_equalityI)
    (auto simp: nth_append nth_list_update nth_Cons' not_less intro!: arg_cong [of _ _ "(!) b"])

lemma update_head:
  "4 \<le> length b \<Longrightarrow>
   b[0 := hi8 t, 1 := lo8 t, 2 := hi8 l, 3 := lo8 l] = tlv_head t l @ drop 4 b"
  by (rule nth_equalityI)
    (auto simp: tlv_head_def nth_append nth_list_update nth_Cons' not_less)

lemma tlv_pack_eq:
  assumes fits: "6 + length v \<le> length obuf" "int (6 + length v) \<le> obuf_size"
    and len: "unat len = length v"
  shows "tlv_pack (Some obuf) obuf_size tag len (Some (v @ rest)) =
    Some (6 + length v, Some (tlv_message tag v @ drop (6 + length v) obuf))"
proof -
  have b: "4 \<le> length obuf" using fits by simp
  have ulen: "uint len = int (length v)" using len by (metis uint_nat)
  have wlen: "word_of_nat (length v) = len" unfolding len [symmetric] by simp
  have head: "length (tlv_head t l) = 4" for t l by (simp add: tlv_head_def)
  let ?body = "tlv_head tag len @ v"
  let ?crc = "crc_itu_t TLV_MGIC_CRC ?body"
  let ?b2 = "?body @ drop (4 + length v) obuf"
  have enc: "tlv_encode_tl obuf tag len = Some (4, tlv_head tag len @ drop 4 obuf)"
    using encode_tl_eq [OF b] update_head [OF b] by simp
  have src: "rd_slice (v @ rest) 0 (length v) = Some v" by simp
  have put: "wr_slice (tlv_head tag len @ drop 4 obuf) 4 v = Some ?b2"
    using fits by (simp add: wr_slice_def head add.commute)
  have get: "rd_slice ?b2 0 (4 + length v) = Some ?body"
    using fits by (simp add: rd_slice_def head)
  have crc: "ushort_to_bytes (Some ?b2) (4 + length v) ?crc =
      Some (2, Some (tlv_message tag v @ drop (6 + length v) obuf))"
  proof -
    have room: "4 + length v + 2 \<le> length ?b2" using fits by (simp add: head)
    show ?thesis
      unfolding ushort_to_bytes_eq [OF room] update_pair [OF room]
      by (simp add: head tlv_message_def Let_def wlen)
  qed
  show ?thesis
    using fits enc src put get crc
    by (simp add: tlv_pack_def ulen len tlv_sizes)
qed

lemma tlv_unpack_eq:
  assumes "6 \<le> msg_len"
  shows "tlv_unpack (Some m) msg_len (Some t0) (Some l0) (Some out) =
    (if length m < 4 then None else
     let t = join8 (m ! 0) (m ! 1); l = join8 (m ! 2) (m ! 3); n = unat l in
     if length m < 6 + n then None
     else if join8 (m ! (4 + n)) (m ! (5 + n)) \<noteq> crc_itu_t TLV_MGIC_CRC (take (4 + n) m)
     then Some \<lparr>tr_ret = -2, tr_tag = Some t, tr_len = Some l, tr_val = Some out\<rparr>
     else if length out < n then None
     else Some \<lparr>tr_ret = 0, tr_tag = Some t, tr_len = Some l,
                tr_val = Some (take n (drop 4 m) @ drop n out)\<rparr>)"
  using assms
  by (auto simp: tlv_unpack_def decode_tl_eq tlv_sizes bytes_to_ushort_eq rd_slice_def wr_slice_def
      Let_def ac_simps)


lemma tlv_message_fields:
  "take (4 + length v) (tlv_message tag v @ rest) = tlv_head tag (word_of_nat (length v)) @ v"
  "(tlv_message tag v @ rest) ! 0 = hi8 tag" "(tlv_message tag v @ rest) ! Suc 0 = lo8 tag"
  "(tlv_message tag v @ rest) ! 2 = hi8 (word_of_nat (length v))"
  "(tlv_message tag v @ rest) ! 3 = lo8 (word_of_nat (length v))"
  "(tlv_message tag v @ rest) ! (4 + length v) =
     hi8 (crc_itu_t TLV_MGIC_CRC (tlv_head tag (word_of_nat (length v)) @ v))"
  "(tlv_message tag v @ rest) ! (5 + length v) =
     lo8 (crc_itu_t TLV_MGIC_CRC (tlv_head tag (word_of_nat (length v)) @ v))"
  "take (length v) (drop 4 (tlv_message tag v @ rest)) = v"
  by (simp_all add: tlv_message_def tlv_head_def Let_def nth_append eval_nat_numeral)

section \<open>Properties\<close>

text \<open>C13 functional. When the value fits, \<open>tlv_pack\<close> never leaves its buffers, returns the
  packet length \<open>6 + len\<close>, writes exactly the packet
  \<open>tag, len, value, CRC(tag, len, value)\<close> in big-endian order at the start of the output
  buffer, and leaves the rest of the buffer as it was.\<close>
theorem tlv_pack_writes_packet:
  assumes "6 + length v \<le> length obuf" "int (6 + length v) \<le> obuf_size" "unat len = length v"
  shows "tlv_pack (Some obuf) obuf_size tag len (Some (v @ rest)) =
    Some (6 + length v, Some (tlv_message tag v @ drop (6 + length v) obuf))"
  using assms by (rule tlv_pack_eq)

theorem tlv_pack_writes_packet_witness:
  "tlv_pack (Some (replicate 8 0)) 8 0xBEEF 1 (Some [0x41]) =
     Some (7, Some (tlv_message 0xBEEF [0x41] @ [0]))"
  using tlv_pack_writes_packet [of "[0x41]" "replicate 8 0" 8 1 "0xBEEF" "[]"] by simp

text \<open>C25. C10 roundtrip. A packet made by \<open>tlv_pack\<close> is taken apart by \<open>tlv_unpack\<close> into the same
  tag, length and value, with result 0.\<close>
theorem tlv_pack_unpack_roundtrip:
  assumes fits: "6 + length v \<le> length obuf" "int (6 + length v) \<le> obuf_size"
    and len: "unat len = length v" and room: "length v \<le> length out"
  shows "\<exists>n buf. tlv_pack (Some obuf) obuf_size tag len (Some v) = Some (n, Some buf) \<and>
    tlv_unpack (Some (take n buf)) (int n) (Some t0) (Some l0) (Some out) =
      Some \<lparr>tr_ret = 0, tr_tag = Some tag, tr_len = Some len,
            tr_val = Some (v @ drop (length v) out)\<rparr>"
proof -
  let ?m = "tlv_message tag v"
  have wlen: "word_of_nat (length v) = len" unfolding len [symmetric] by simp
  note f = tlv_message_fields [where v = v and tag = tag and rest = "[]", unfolded append_Nil2]
  have "tlv_pack (Some obuf) obuf_size tag len (Some v) =
      Some (6 + length v, Some (?m @ drop (6 + length v) obuf))"
    using tlv_pack_eq [OF fits len, of tag "[]"] by simp
  moreover have "tlv_unpack (Some ?m) (int (6 + length v)) (Some t0) (Some l0) (Some out) =
      Some \<lparr>tr_ret = 0, tr_tag = Some tag, tr_len = Some len,
            tr_val = Some (v @ drop (length v) out)\<rparr>"
    using room by (simp add: tlv_unpack_eq f wlen len)
  ultimately show ?thesis by simp
qed

theorem tlv_pack_unpack_roundtrip_witness:
  "\<exists>n buf. tlv_pack (Some (replicate 8 0)) 8 0xBEEF 2 (Some [0x68, 0x69]) = Some (n, Some buf) \<and>
    tlv_unpack (Some (take n buf)) (int n) (Some 0) (Some 0) (Some [0, 0, 7]) =
      Some \<lparr>tr_ret = 0, tr_tag = Some 0xBEEF, tr_len = Some 2, tr_val = Some [0x68, 0x69, 7]\<rparr>"
  using tlv_pack_unpack_roundtrip
    [of "[0x68, 0x69]" "replicate 8 0" 8 2 "[0, 0, 7]" "0xBEEF" 0 0] by simp



text \<open>C27 error. \<open>tlv_unpack\<close> takes the length of the message, but only to refuse messages of
  fewer than six bytes: on a message whose length field promises more bytes than the
  message has, it reads past the end of the message buffer.\<close>
theorem tlv_unpack_truncated_overread:
  assumes "6 \<le> length m" "length m < 6 + unat (join8 (m ! 2) (m ! 3))"
  shows "tlv_unpack (Some m) (int (length m)) (Some t0) (Some l0) (Some out) = None"
  using assms by (simp add: tlv_unpack_eq Let_def)

theorem tlv_unpack_truncated_overread_witness:
  "tlv_unpack (Some [0xBE, 0xEF, 0, 9, 1, 2]) 6 (Some 0) (Some 0) (Some (replicate 20 0)) = None"
  using tlv_unpack_truncated_overread [of "[0xBE, 0xEF, 0, 9, 1, 2]" 0 0 "replicate 20 0"]
  by (simp add: join8_def)

end
