(* ===== verification/Fifo.thy ===== *)
theory Fifo
  imports Prelude
begin

text \<open>
  The interface of the two byte queues of the code (\<open>cp_library/cp_ringbuf.c\<close> and
  \<open>samples/circ_buf.c\<close>): a bounded first-in first-out buffer with partial writes and
  reads. \<open>fifo_run\<close> runs any interleaving of writes and reads of a client; the
  locale proves once that no interleaving loses, repeats or reorders a byte. The second part is the
  arithmetic of a ring in an array, which both implementations share.
\<close>

section \<open>The interface\<close>

datatype 'b fifo_op = Put "'b list" | Get nat

text \<open>The result of a run: the bytes accepted by the writes, the bytes handed out by the
  reads, and the final state.\<close>

fun fifo_run ::
  "('q \<Rightarrow> 'b list \<Rightarrow> (nat \<times> 'q) option) \<Rightarrow> ('q \<Rightarrow> nat \<Rightarrow> ('b list \<times> 'q) option)
   \<Rightarrow> 'b fifo_op list \<Rightarrow> 'q \<Rightarrow> ('b list \<times> 'b list \<times> 'q) option" where
  "fifo_run put get [] q = Some ([], [], q)"
| "fifo_run put get (Put xs # ops) q = do {
     (n, q') \<leftarrow> put q xs;
     (acc, out, r) \<leftarrow> fifo_run put get ops q';
     Some (take n xs @ acc, out, r) }"
| "fifo_run put get (Get n # ops) q = do {
     (ys, q') \<leftarrow> get q n;
     (acc, out, r) \<leftarrow> fifo_run put get ops q';
     Some (acc, ys @ out, r) }"

locale byte_fifo =
  fixes inv :: "'q \<Rightarrow> bool"
    and room :: "'q \<Rightarrow> nat"
    and contents :: "'q \<Rightarrow> 'b list"
    and put :: "'q \<Rightarrow> 'b list \<Rightarrow> (nat \<times> 'q) option"
    and get :: "'q \<Rightarrow> nat \<Rightarrow> ('b list \<times> 'q) option"
  assumes put_spec: "inv q \<Longrightarrow> \<exists>q'. put q xs = Some (min (room q) (length xs), q') \<and> inv q' \<and>
      contents q' = contents q @ take (room q) xs"
    and put_room: "inv q \<Longrightarrow> put q xs = Some (n, q') \<Longrightarrow> room q' = room q - n"
    and get_spec: "inv q \<Longrightarrow> \<exists>q'. get q n = Some (take n (contents q), q') \<and> inv q' \<and>
      contents q' = drop n (contents q)"
    and get_room: "inv q \<Longrightarrow> get q n = Some (ys, q') \<Longrightarrow> room q' = room q + length ys"
begin

lemma put_eq:
  assumes "inv q" "put q xs = Some (n, q')"
  shows "inv q' \<and> n = min (room q) (length xs) \<and> contents q' = contents q @ take n xs"
  using put_spec [OF assms(1), of xs] assms(2) by (auto simp: min_def)

lemma get_eq:
  assumes "inv q" "get q n = Some (ys, q')"
  shows "inv q' \<and> contents q = ys @ contents q' \<and> length ys \<le> n"
  using get_spec [OF assms(1), of n] assms(2) by auto

lemma run_defined: "inv q \<Longrightarrow> \<exists>r. fifo_run put get ops q = Some r"
proof (induction ops arbitrary: q)
  case (Cons x ops)
  show ?case
  proof (cases x)
    case (Put xs)
    obtain q' where q': "put q xs = Some (min (room q) (length xs), q')" "inv q'"
      using put_spec [OF Cons.prems] by blast
    then show ?thesis using Cons.IH [of q'] Put by auto
  next
    case (Get n)
    obtain q' where q': "get q n = Some (take n (contents q), q')" "inv q'"
      using get_spec [OF Cons.prems] by blast
    then show ?thesis using Cons.IH [of q'] Get by auto
  qed
qed simp

lemma run_fifo:
  "inv q \<Longrightarrow> fifo_run put get ops q = Some (acc, out, q')
   \<Longrightarrow> inv q' \<and> contents q @ acc = out @ contents q' \<and>
       room q' + length (contents q') = room q + length (contents q)"
proof (induction ops arbitrary: q acc out)
  case (Cons x ops)
  show ?case
  proof (cases x)
    case (Put xs)
    with Cons.prems obtain n q1 acc1 where 1: "put q xs = Some (n, q1)"
      "fifo_run put get ops q1 = Some (acc1, out, q')" "acc = take n xs @ acc1"
      by auto
    have "inv q1 \<and> n = min (room q) (length xs) \<and> contents q1 = contents q @ take n xs"
      using put_eq [OF Cons.prems(1) 1(1)] .
    with Cons.IH [of q1 acc1 out] 1 put_room [OF Cons.prems(1) 1(1)] show ?thesis by auto
  next
    case (Get n)
    with Cons.prems obtain ys q1 out1 where 1: "get q n = Some (ys, q1)"
      "fifo_run put get ops q1 = Some (acc, out1, q')" "out = ys @ out1"
      by auto
    have "inv q1 \<and> contents q = ys @ contents q1 \<and> length ys \<le> n"
      using get_eq [OF Cons.prems(1) 1(1)] .
    with Cons.IH [of q1 acc out1] 1 get_room [OF Cons.prems(1) 1(1)] show ?thesis by auto
  qed
qed simp

end

section \<open>A ring in an array\<close>

text \<open>The \<open>d\<close> cells of the ring that start at cell \<open>r\<close>.\<close>

definition ring_slice :: "'a list \<Rightarrow> nat \<Rightarrow> nat \<Rightarrow> 'a list" where
  "ring_slice b r d = map (\<lambda>i. b ! ((r + i) mod length b)) [0..<d]"

lemma ring_slice_length [simp]: "length (ring_slice b r d) = d"
  by (simp add: ring_slice_def)

lemma ring_slice_0 [simp]: "ring_slice b r 0 = []"
  by (simp add: ring_slice_def)

lemma ring_slice_split: "ring_slice b r (m + n) = ring_slice b r m @ ring_slice b (r + m) n"
  by (rule nth_equalityI) (auto simp: ring_slice_def nth_append ac_simps)

lemma ring_slice_mod: "ring_slice b (r mod length b) d = ring_slice b r d"
  by (simp add: ring_slice_def mod_add_left_eq)

lemma ring_slice_take: "n \<le> d \<Longrightarrow> take n (ring_slice b r d) = ring_slice b r n"
  using ring_slice_split [of b r n "d - n"] by simp

lemma ring_slice_drop: "n \<le> d \<Longrightarrow> drop n (ring_slice b r d) = ring_slice b (r + n) (d - n)"
  using ring_slice_split [of b r n "d - n"] by simp

lemma ring_slice_inner: "r + d \<le> length b \<Longrightarrow> ring_slice b r d = take d (drop r b)"
  by (rule nth_equalityI) (auto simp: ring_slice_def)

text \<open>Reading through the end of the array is two plain slices.\<close>

lemma ring_slice_wrap:
  assumes "r \<le> length b" "length b < r + d" "d \<le> length b"
  shows "ring_slice b r d = drop r b @ take (d - (length b - r)) b"
proof -
  have "ring_slice b r d = ring_slice b r (length b - r) @ ring_slice b (length b) (d - (length b - r))"
    using ring_slice_split [of b r "length b - r" "d - (length b - r)"] assms by simp
  also have "ring_slice b (length b) (d - (length b - r)) = ring_slice b 0 (d - (length b - r))"
    using ring_slice_mod [of b "length b"] by simp
  finally show ?thesis using assms by (simp add: ring_slice_inner)
qed

text \<open>
  Writing the cells of \<open>xs\<close> behind \<open>d\<close> occupied cells: any update that stores \<open>xs\<close> at the
  cells \<open>w, w + 1, \<dots>\<close> of the ring and keeps the others appends \<open>xs\<close>.
\<close>

lemma ring_cells_distinct:
  assumes "(r + i) mod N = (w + j) mod N" "w mod N = (r + d) mod N" "i < d" "d + j < (N::nat)"
  shows False
proof -
  have "(r + i) mod N = (r + d + j) mod N"
    using assms(1,2) by (metis mod_add_left_eq)
  moreover have "r + d + j = (r + i) + (d + j - i)" using assms(3) by simp
  ultimately have "N dvd (d + j - i)"
    by (metis add_diff_cancel_left' mod_eq_dvd_iff_nat le_add1)
  then have "N \<le> d + j - i" by (rule dvd_imp_le) (use assms(3) in simp)
  then show False using assms(4) by simp
qed

lemma ring_append:
  assumes len: "length b' = length b" and w: "w mod length b = (r + d) mod length b"
    and fit: "d + length xs \<le> length b"
    and new: "\<And>j. j < length xs \<Longrightarrow> b' ! ((w + j) mod length b) = xs ! j"
    and old: "\<And>p. p < length b \<Longrightarrow> (\<forall>j < length xs. p \<noteq> (w + j) mod length b) \<Longrightarrow> b' ! p = b ! p"
  shows "ring_slice b' r (d + length xs) = ring_slice b r d @ xs"
proof (rule nth_equalityI)
  fix i assume "i < length (ring_slice b' r (d + length xs))"
  then have i: "i < d + length xs" by simp
  show "ring_slice b' r (d + length xs) ! i = (ring_slice b r d @ xs) ! i"
  proof (cases "i < d")
    case True
    have "b' ! ((r + i) mod length b) = b ! ((r + i) mod length b)"
    proof (rule old)
      show "(r + i) mod length b < length b" using fit True by (intro mod_less_divisor) linarith
      show "\<forall>j < length xs. (r + i) mod length b \<noteq> (w + j) mod length b"
        using ring_cells_distinct [OF _ w True] fit by fastforce
    qed
    with True i len show ?thesis by (simp add: ring_slice_def nth_append)
  next
    case False
    then have "(r + i) mod length b = (r + d + (i - d)) mod length b" by simp
    also have "\<dots> = (w + (i - d)) mod length b" using w by (metis mod_add_left_eq)
    finally show ?thesis
      using False i len new [of "i - d"] by (simp add: ring_slice_def nth_append)
  qed
qed simp

lemma ring_append_one:
  assumes "w \<le> length b" "w mod length b = (r + d) mod length b" "d + length xs \<le> length b"
    "w + length xs \<le> length b"
  shows "ring_slice (take w b @ xs @ drop (w + length xs) b) r (d + length xs) = ring_slice b r d @ xs"
proof (rule ring_append)
  fix j assume "j < length xs"
  with assms show "(take w b @ xs @ drop (w + length xs) b) ! ((w + j) mod length b) = xs ! j"
    by (simp add: nth_append)
next
  fix p assume p: "p < length b" "\<forall>j < length xs. p \<noteq> (w + j) mod length b"
  have "p < w \<or> w + length xs \<le> p"
  proof (rule ccontr)
    assume *: "\<not> ?thesis"
    then have "p \<noteq> (w + (p - w)) mod length b" by (intro p(2) [rule_format]) linarith
    then show False using * p(1) by simp
  qed
  with p(1) show "(take w b @ xs @ drop (w + length xs) b) ! p = b ! p"
    using assms by (auto simp: nth_append)
qed (use assms in auto)

lemma ring_append_two:
  fixes b :: "'a list"
  defines "N \<equiv> length b"
  assumes w: "w \<le> N" "w mod N = (r + d) mod N" and fit: "d + length xs \<le> N"
    and wrap: "N < w + length xs"
  shows "ring_slice (drop (N - w) xs @ drop (length xs - (N - w)) (take w b) @ take (N - w) xs)
           r (d + length xs) = ring_slice b r d @ xs" (is "ring_slice ?b' _ _ = _")
proof (rule ring_append)
  show len: "length ?b' = length b" using assms by simp
  show "w mod length b = (r + d) mod length b" using w N_def by simp
  show "d + length xs \<le> length b" using fit N_def by simp
next
  fix j assume j: "j < length xs"
  show "?b' ! ((w + j) mod length b) = xs ! j"
  proof (cases "w + j < N")
    case True
    with assms j show ?thesis by (auto simp: nth_append)
  next
    case False
    then have "(w + j) mod N = w + j - N" using assms j by (simp add: le_mod_geq mod_if)
    with assms False j show ?thesis by (auto simp: nth_append)
  qed
next
  fix p assume p: "p < length b" "\<forall>j < length xs. p \<noteq> (w + j) mod length b"
  have lo: "length xs - (N - w) \<le> p"
  proof (rule ccontr)
    assume *: "\<not> ?thesis"
    then have "p \<noteq> (w + (N - w + p)) mod length b" by (intro p(2) [rule_format]) simp
    then show False using p(1) w N_def by simp
  qed
  have hi: "p < w"
  proof (rule ccontr)
    assume *: "\<not> ?thesis"
    then have "p \<noteq> (w + (p - w)) mod length b"
      using p(1) wrap N_def by (intro p(2) [rule_format]) linarith
    then show False using * p(1) by simp
  qed
  show "?b' ! p = b ! p"
    using lo hi p(1) assms by (auto simp: nth_append)
qed

end
