(* ===== verification/Ringbuf.thy ===== *)
theory Ringbuf
  imports Fifo
begin

text \<open>
  The ring buffer of \<open>cp_library/cp_ringbuf.c\<close>. The state is the C struct: the byte
  array and the two pointers, which the code lets run up to \<open>size\<close> itself (they are
  wrapped by the next access, not by the one that moved them). The invariant says that the
  size is a power of two, which \<open>rb_data_size\<close> relies on; under it the buffer
  provides the interface of \<open>byte_fifo\<close>. A size that is not a power of two loses
  data, which the last property shows.
\<close>

record ring_buffer =
  rb_buffer :: "u8 list"
  rb_wr_pointer :: int
  rb_rd_pointer :: int
  rb_size :: int

definition rb_init :: "u8 list \<Rightarrow> int \<Rightarrow> ring_buffer" where
  "rb_init buff size' =
     \<lparr>rb_buffer = buff, rb_wr_pointer = 0, rb_rd_pointer = 0, rb_size = size'\<rparr>"

definition rb_data_size :: "ring_buffer \<Rightarrow> int" where
  "rb_data_size rb = (rb_wr_pointer rb - rb_rd_pointer rb) AND (rb_size rb - 1)"

definition rb_free_size :: "ring_buffer \<Rightarrow> int" where
  "rb_free_size rb = rb_size rb - 1 - rb_data_size rb"

definition rb_write :: "ring_buffer \<Rightarrow> u8 list \<Rightarrow> int \<Rightarrow> (int \<times> ring_buffer) option" where
  "rb_write rb buf len =
     (let total = rb_free_size rb;
          (len, total) = (if len > total then (total, total) else (len, len));
          i = rb_wr_pointer rb
      in if i + len > rb_size rb
         then do {
           b \<leftarrow> c_memcpy (rb_buffer rb) i buf 0 (rb_size rb - i);
           let len' = len - (rb_size rb - i);
           b' \<leftarrow> c_memcpy b 0 buf (rb_size rb - i) len';
           Some (total, rb\<lparr>rb_buffer := b', rb_wr_pointer := 0 + len'\<rparr>) }
         else do {
           b' \<leftarrow> c_memcpy (rb_buffer rb) i buf 0 len;
           Some (total, rb\<lparr>rb_buffer := b', rb_wr_pointer := i + len\<rparr>) })"

text \<open>\<open>rb_read\<close> returns the byte count, the destination buffer and the ring.\<close>

definition rb_read :: "ring_buffer \<Rightarrow> u8 list \<Rightarrow> int \<Rightarrow> (int \<times> u8 list \<times> ring_buffer) option" where
  "rb_read rb buf count =
     (let total = rb_data_size rb;
          (count, total) = (if count > total then (total, total) else (count, count));
          i = rb_rd_pointer rb
      in if i + count > rb_size rb
         then do {
           o1 \<leftarrow> c_memcpy buf 0 (rb_buffer rb) i (rb_size rb - i);
           let left = count - (rb_size rb - i);
           o2 \<leftarrow> c_memcpy o1 (rb_size rb - i) (rb_buffer rb) 0 left;
           Some (total, o2, rb\<lparr>rb_rd_pointer := 0 + left\<rparr>) }
         else do {
           o2 \<leftarrow> c_memcpy buf 0 (rb_buffer rb) i count;
           Some (total, o2, rb\<lparr>rb_rd_pointer := i + count\<rparr>) })"

definition rb_clear :: "ring_buffer \<Rightarrow> ring_buffer option" where
  "rb_clear rb = do {
     b \<leftarrow> c_memset (rb_buffer rb) 0 (rb_size rb);
     Some (rb\<lparr>rb_buffer := b, rb_rd_pointer := 0, rb_wr_pointer := 0\<rparr>) }"

text \<open>A failing \<open>assert\<close> stops the program: \<open>None\<close>, like an access out of the block. The
  remainder is that of C, which truncates towards zero.\<close>

definition rb_peek :: "ring_buffer \<Rightarrow> int \<Rightarrow> u8 option" where
  "rb_peek rb index =
     (if \<not> index < rb_data_size rb \<or> rb_size rb = 0 then None
      else let p = (rb_rd_pointer rb + index) smod rb_size rb
           in if p < 0 then None else rd (rb_buffer rb) (nat p))"

section \<open>Invariant and abstraction\<close>

definition rb_wf :: "ring_buffer \<Rightarrow> bool" where
  "rb_wf rb \<longleftrightarrow> (\<exists>k < 31. rb_size rb = 2 ^ k) \<and> int (length (rb_buffer rb)) = rb_size rb \<and>
     0 \<le> rb_wr_pointer rb \<and> rb_wr_pointer rb \<le> rb_size rb \<and>
     0 \<le> rb_rd_pointer rb \<and> rb_rd_pointer rb \<le> rb_size rb"

definition rb_bytes :: "ring_buffer \<Rightarrow> u8 list" where
  "rb_bytes rb = ring_slice (rb_buffer rb) (nat (rb_rd_pointer rb)) (nat (rb_data_size rb))"

definition rb_room :: "ring_buffer \<Rightarrow> nat" where
  "rb_room rb = nat (rb_free_size rb)"

lemma rb_data_size_mod:
  "rb_wf rb \<Longrightarrow> rb_data_size rb = (rb_wr_pointer rb - rb_rd_pointer rb) mod rb_size rb"
  by (auto simp: rb_wf_def rb_data_size_def and_pow2_mask)

lemma rb_wf_size: "rb_wf rb \<Longrightarrow> 0 < rb_size rb"
  by (auto simp: rb_wf_def)

lemma rb_data_size_bounds: "rb_wf rb \<Longrightarrow> 0 \<le> rb_data_size rb \<and> rb_data_size rb < rb_size rb"
  using rb_wf_size [of rb] by (simp add: rb_data_size_mod)

text \<open>The positions as natural numbers, with the facts on them that the proofs need.\<close>

lemma rb_positions:
  assumes "rb_wf rb"
  obtains N w r d where "rb_size rb = int N" "length (rb_buffer rb) = N"
    "rb_wr_pointer rb = int w" "rb_rd_pointer rb = int r" "rb_data_size rb = int d"
    "w \<le> N" "r \<le> N" "d < N" "w mod N = (r + d) mod N" "rb_bytes rb = ring_slice (rb_buffer rb) r d"
proof -
  let ?N = "length (rb_buffer rb)"
  let ?w = "nat (rb_wr_pointer rb)" and ?r = "nat (rb_rd_pointer rb)" and ?d = "nat (rb_data_size rb)"
  note b = rb_data_size_bounds [OF assms]
  have "int (?r + ?d) mod int ?N = int ?w mod int ?N"
    using assms b by (simp add: rb_data_size_mod) (simp add: rb_wf_def mod_add_right_eq)
  then have "?w mod ?N = (?r + ?d) mod ?N"
    by (metis of_nat_eq_iff zmod_int)
  then show thesis
    using assms b by (intro that [of ?N ?w ?r ?d]) (auto simp: rb_wf_def rb_bytes_def)
qed

lemma rb_data_size_after_write:
  assumes "rb_wf rb'" "rb_wr_pointer rb' = int w'" "rb_rd_pointer rb' = int r" "rb_size rb' = int N"
    "w' mod N = (r + d') mod N" "d' < N"
  shows "rb_data_size rb' = int d'"
proof -
  have "rb_data_size rb' = (int w' - int r) mod int N"
    using assms by (simp add: rb_data_size_mod)
  also have "\<dots> = (int (r + d') - int r) mod int N"
    using assms(5) by (metis mod_diff_left_eq zmod_int)
  finally show ?thesis using assms(6) by simp
qed

section \<open>Writing and reading\<close>

text \<open>The pairs of copies around the end of the ring.\<close>

lemma c_memcpy_wrap_in:
  assumes "w \<le> length b" "n \<le> length xs" "length b < w + n" "n < length b"
  defines "k \<equiv> length b - w"
  shows "c_memcpy b (int w) xs 0 (int k) = Some (take w b @ take k xs)"
    and "c_memcpy (take w b @ take k xs) 0 xs (int k) (int (n - k)) =
      Some (drop k (take n xs) @ drop (n - k) (take w b) @ take k (take n xs))"
proof -
  have k: "k \<le> n" "n - k \<le> w" "k \<le> length xs" using assms by auto
  show "c_memcpy b (int w) xs 0 (int k) = Some (take w b @ take k xs)"
    using assms k c_memcpy_nat [of b w xs 0 k] by simp
  show "c_memcpy (take w b @ take k xs) 0 xs (int k) (int (n - k)) =
      Some (drop k (take n xs) @ drop (n - k) (take w b) @ take k (take n xs))"
    using assms(1,2) k c_memcpy_nat [of "take w b @ take k xs" 0 xs k "n - k"]
    by (simp add: drop_take min_absorb1)
qed

lemma c_memcpy_wrap_out:
  assumes "r \<le> length b" "n \<le> length out" "length b < r + n" "n < length b"
  defines "k \<equiv> length b - r"
  shows "c_memcpy out 0 b (int r) (int k) = Some (drop r b @ drop k out)"
    and "c_memcpy (drop r b @ drop k out) (int k) b 0 (int (n - k)) =
      Some (ring_slice b r n @ drop n out)"
proof -
  have k: "k \<le> n" "n - k \<le> r" "k \<le> length out" "r + k = length b" using assms by auto
  show "c_memcpy out 0 b (int r) (int k) = Some (drop r b @ drop k out)"
    using k c_memcpy_nat [of out 0 b r k] by simp
  have "ring_slice b r n = drop r b @ take (n - k) b"
    using assms ring_slice_wrap [of r b n] by simp
  then show "c_memcpy (drop r b @ drop k out) (int k) b 0 (int (n - k)) =
      Some (ring_slice b r n @ drop n out)"
    using assms(1,2,4) k c_memcpy_nat [of "drop r b @ drop k out" k b 0 "n - k"]
    by (simp add: k_def)
qed

lemma rb_write_spec:
  assumes "rb_wf rb"
  shows "\<exists>rb'. rb_write rb xs (int (length xs)) = Some (int (min (rb_room rb) (length xs)), rb') \<and>
    rb_wf rb' \<and> rb_bytes rb' = rb_bytes rb @ take (rb_room rb) xs \<and>
    rb_data_size rb' = rb_data_size rb + int (min (rb_room rb) (length xs)) \<and>
    rb_size rb' = rb_size rb"
proof -
  obtain N w r d where p: "rb_size rb = int N" "length (rb_buffer rb) = N"
    "rb_wr_pointer rb = int w" "rb_rd_pointer rb = int r" "rb_data_size rb = int d"
    "w \<le> N" "r \<le> N" "d < N" "w mod N = (r + d) mod N" "rb_bytes rb = ring_slice (rb_buffer rb) r d"
    using rb_positions [OF assms] by blast
  define n where "n = min (N - 1 - d) (length xs)"
  define ys where "ys = take n xs"
  let ?b = "rb_buffer rb"
  have room: "rb_room rb = N - 1 - d"
    using p by (simp add: rb_room_def rb_free_size_def)
  have n: "n = min (rb_room rb) (length xs)" "length ys = n" "d + n < N" "n \<le> length xs"
    using p(8) by (auto simp: n_def ys_def room)
  have tk: "take (rb_room rb) xs = ys" by (auto simp: ys_def n_def room min_def)
  have clip: "(if int (length xs) > rb_free_size rb then (rb_free_size rb, rb_free_size rb)
      else (int (length xs), int (length xs))) = (int n, int n)"
    using p by (auto simp: n_def rb_free_size_def)
  show ?thesis
  proof (cases "w + n \<le> N")
    case True
    let ?b' = "take w ?b @ ys @ drop (w + n) ?b"
    let ?rb' = "rb\<lparr>rb_buffer := ?b', rb_wr_pointer := int (w + n)\<rparr>"
    have run: "rb_write rb xs (int (length xs)) = Some (int n, ?rb')"
      using True p n c_memcpy_nat [of ?b w xs 0 n]
      by (simp add: rb_write_def Let_def clip ys_def split: if_split)
    have wf: "rb_wf ?rb'" using assms p True n by (auto simp: rb_wf_def)
    have "(w + n) mod N = (r + (d + n)) mod N" using p(9) by (metis add.assoc mod_add_left_eq)
    then have ds: "rb_data_size ?rb' = int (d + n)"
      using rb_data_size_after_write [OF wf, of "w + n" r N "d + n"] p n by simp
    have "rb_bytes ?rb' = ring_slice ?b' r (d + n)"
      unfolding rb_bytes_def ds nat_int using p by simp
    also have "\<dots> = rb_bytes rb @ ys"
      using ring_append_one [of w ?b r d ys] p n True by simp
    finally show ?thesis unfolding n(1) [symmetric] tk p(5) using run wf ds by simp
  next
    case False
    let ?k = "N - w"
    let ?b' = "drop ?k ys @ drop (n - ?k) (take w ?b) @ take ?k ys"
    let ?rb' = "rb\<lparr>rb_buffer := ?b', rb_wr_pointer := int (n - ?k)\<rparr>"
    have k: "rb_size rb - rb_wr_pointer rb = int ?k" "int n - int ?k = int (n - ?k)"
      using p(1,2,3,6) False by auto
    have cond: "(int w + int n > rb_size rb) = True" using p(1) False by auto
    have c1: "c_memcpy ?b (int w) xs 0 (int ?k) = Some (take w ?b @ take ?k xs)"
      and c2: "c_memcpy (take w ?b @ take ?k xs) 0 xs (int ?k) (int (n - ?k)) = Some ?b'"
      using c_memcpy_wrap_in [of w ?b n xs] p(2,6) n False by (simp_all add: ys_def)
    have run: "rb_write rb xs (int (length xs)) = Some (int n, ?rb')"
      unfolding rb_write_def Let_def clip prod.case p(3)
      by (simp only: cond if_True k(1) [unfolded p(3)] k(2) c1 c2 Option.bind.bind_lunit add_0)
    have wf: "rb_wf ?rb'" using assms p False n by (auto simp: rb_wf_def)
    have "(n - ?k) mod N = (w + n) mod N" using False p by (simp add: le_mod_geq add.commute)
    then have "(n - ?k) mod N = (r + (d + n)) mod N" using p(9) by (metis add.assoc mod_add_left_eq)
    then have ds: "rb_data_size ?rb' = int (d + n)"
      using rb_data_size_after_write [OF wf, of "n - ?k" r N "d + n"] p n by simp
    have "rb_bytes ?rb' = ring_slice ?b' r (d + n)"
      unfolding rb_bytes_def ds nat_int using p by simp
    also have "\<dots> = rb_bytes rb @ ys"
      using ring_append_two [of w ?b r d ys] p n False by simp
    finally show ?thesis unfolding n(1) [symmetric] tk p(5) using run wf ds by simp
  qed
qed

lemma rb_read_spec:
  assumes "rb_wf rb" and cap: "min (length (rb_bytes rb)) m \<le> length out"
  shows "\<exists>rb'. rb_read rb out (int m) =
      Some (int (min (length (rb_bytes rb)) m),
            take m (rb_bytes rb) @ drop (min (length (rb_bytes rb)) m) out, rb') \<and>
    rb_wf rb' \<and> rb_bytes rb' = drop m (rb_bytes rb) \<and>
    rb_data_size rb' = rb_data_size rb - int (min (length (rb_bytes rb)) m) \<and>
    rb_size rb' = rb_size rb"
proof -
  obtain N w r d where p: "rb_size rb = int N" "length (rb_buffer rb) = N"
    "rb_wr_pointer rb = int w" "rb_rd_pointer rb = int r" "rb_data_size rb = int d"
    "w \<le> N" "r \<le> N" "d < N" "w mod N = (r + d) mod N" "rb_bytes rb = ring_slice (rb_buffer rb) r d"
    using rb_positions [OF assms(1)] by blast
  define n where "n = min d m"
  let ?b = "rb_buffer rb"
  have len: "length (rb_bytes rb) = d" using p by simp
  have n: "n \<le> d" "n < N" "n \<le> length out" using p(8) cap len by (auto simp: n_def)
  have clip: "(if int m > rb_data_size rb then (rb_data_size rb, rb_data_size rb)
      else (int m, int m)) = (int n, int n)"
    using p by (auto simp: n_def)
  have tk: "take m (rb_bytes rb) = ring_slice ?b r n"
    using p(10) ring_slice_take [of n d ?b r] len by (auto simp: n_def min_def)
  have dr: "drop m (rb_bytes rb) = ring_slice ?b (r + n) (d - n)"
    using p(10) ring_slice_drop [of n d ?b r] len by (auto simp: n_def min_def)
  have post: "rb_wf rb' \<and> rb_bytes rb' = drop m (rb_bytes rb) \<and> rb_data_size rb' = int d - int n"
    if rb': "rb' = rb\<lparr>rb_rd_pointer := int r'\<rparr>" and r': "r' \<le> N" "r' mod N = (r + n) mod N" for rb' r'
  proof -
    have wf: "rb_wf rb'" using assms(1) p r' rb' by (auto simp: rb_wf_def)
    have "w mod N = (r' + (d - n)) mod N"
      using p(9) r'(2) n by (metis add.assoc le_add_diff_inverse mod_add_left_eq)
    then have ds: "rb_data_size rb' = int (d - n)"
      using rb_data_size_after_write [OF wf, of w r' N "d - n"] p n rb' by simp
    have "rb_bytes rb' = ring_slice ?b r' (d - n)" using ds rb' by (simp add: rb_bytes_def)
    also have "\<dots> = ring_slice ?b (r + n) (d - n)"
      using r'(2) p(2) ring_slice_mod by metis
    finally show ?thesis using wf ds dr n by simp
  qed
  show ?thesis
  proof (cases "r + n \<le> N")
    case True
    let ?rb' = "rb\<lparr>rb_rd_pointer := int (r + n)\<rparr>"
    have "rb_read rb out (int m) = Some (int n, ring_slice ?b r n @ drop n out, ?rb')"
      unfolding rb_read_def Let_def clip prod.case
      using True p n c_memcpy_nat [of out 0 ?b r n] by (simp add: ring_slice_inner)
    then show ?thesis using post [of ?rb' "r + n"] True tk len p by (simp add: n_def)
  next
    case False
    let ?k = "N - r"
    let ?rb' = "rb\<lparr>rb_rd_pointer := int (n - ?k)\<rparr>"
    have k: "rb_size rb - rb_rd_pointer rb = int ?k" "int n - int ?k = int (n - ?k)"
      using p(1,2,4,7) False by auto
    have cond: "(int r + int n > rb_size rb) = True" using p(1) False by auto
    have c1: "c_memcpy out 0 ?b (int r) (int ?k) = Some (drop r ?b @ drop ?k out)"
      and c2: "c_memcpy (drop r ?b @ drop ?k out) (int ?k) ?b 0 (int (n - ?k)) =
        Some (ring_slice ?b r n @ drop n out)"
      using c_memcpy_wrap_out [of r ?b n out] p(2,7) n False by simp_all
    have "rb_read rb out (int m) = Some (int n, ring_slice ?b r n @ drop n out, ?rb')"
      unfolding rb_read_def Let_def clip prod.case p(4)
      by (simp only: cond if_True k(1) [unfolded p(4)] k(2) c1 c2 Option.bind.bind_lunit add_0)
    moreover have "n - ?k \<le> N" "(n - ?k) mod N = (r + n) mod N"
      using False p n by (simp_all add: le_mod_geq)
    ultimately show ?thesis using post [of ?rb' "n - ?k"] tk len p by (simp add: n_def)
  qed
qed


section \<open>The buffer as a byte queue\<close>

text \<open>A client writes a whole block and reads into a block of its own.\<close>

definition rb_put :: "ring_buffer \<Rightarrow> u8 list \<Rightarrow> (nat \<times> ring_buffer) option" where
  "rb_put rb xs = do { (n, rb') \<leftarrow> rb_write rb xs (int (length xs)); Some (nat n, rb') }"

definition rb_get :: "ring_buffer \<Rightarrow> nat \<Rightarrow> (u8 list \<times> ring_buffer) option" where
  "rb_get rb m = do {
     (n, out, rb') \<leftarrow> rb_read rb (replicate m 0) (int m);
     Some (take (nat n) out, rb') }"

lemma rb_room_eq: "rb_wf rb \<Longrightarrow> int (rb_room rb) = rb_size rb - 1 - rb_data_size rb"
  using rb_data_size_bounds [of rb] by (simp add: rb_room_def rb_free_size_def)

lemma rb_bytes_length: "rb_wf rb \<Longrightarrow> int (length (rb_bytes rb)) = rb_data_size rb"
  using rb_data_size_bounds [of rb] by (simp add: rb_bytes_def)

lemma rb_put_spec:
  assumes "rb_wf rb"
  obtains rb' where "rb_put rb xs = Some (min (rb_room rb) (length xs), rb')" "rb_wf rb'"
    "rb_bytes rb' = rb_bytes rb @ take (rb_room rb) xs"
    "rb_room rb' = rb_room rb - min (rb_room rb) (length xs)"
proof -
  obtain rb' where 1: "rb_write rb xs (int (length xs)) = Some (int (min (rb_room rb) (length xs)), rb')"
    "rb_wf rb'" "rb_bytes rb' = rb_bytes rb @ take (rb_room rb) xs"
    "rb_data_size rb' = rb_data_size rb + int (min (rb_room rb) (length xs))" "rb_size rb' = rb_size rb"
    using rb_write_spec [OF assms, of xs] by blast
  have "int (rb_room rb') = int (rb_room rb) - int (min (rb_room rb) (length xs))"
    unfolding rb_room_eq [OF 1(2)] 1(4,5) using rb_room_eq [OF assms] by linarith
  with 1 show thesis by (intro that [of rb']) (auto simp: rb_put_def)
qed

lemma rb_get_spec:
  assumes "rb_wf rb"
  obtains rb' where "rb_get rb m = Some (take m (rb_bytes rb), rb')" "rb_wf rb'"
    "rb_bytes rb' = drop m (rb_bytes rb)"
    "rb_room rb' = rb_room rb + min (length (rb_bytes rb)) m"
proof -
  obtain rb' where 1: "rb_read rb (replicate m 0) (int m) = Some (int (min (length (rb_bytes rb)) m),
      take m (rb_bytes rb) @ drop (min (length (rb_bytes rb)) m) (replicate m 0), rb')"
    "rb_wf rb'" "rb_bytes rb' = drop m (rb_bytes rb)"
    "rb_data_size rb' = rb_data_size rb - int (min (length (rb_bytes rb)) m)" "rb_size rb' = rb_size rb"
    using rb_read_spec [OF assms, of m "replicate m 0"] by auto
  have "int (rb_room rb') = int (rb_room rb) + int (min (length (rb_bytes rb)) m)"
    unfolding rb_room_eq [OF 1(2)] 1(4,5) using rb_room_eq [OF assms] by linarith
  moreover have "take (min (length (rb_bytes rb)) m) (rb_bytes rb) = take m (rb_bytes rb)"
    by (simp add: min_def)
  ultimately show thesis using 1 by (intro that [of rb']) (auto simp: rb_get_def)
qed

interpretation rb: byte_fifo rb_wf rb_room rb_bytes rb_put rb_get
proof
  fix q :: ring_buffer and xs n q' ys
  assume q: "rb_wf q"
  obtain q1 where q1: "rb_put q xs = Some (min (rb_room q) (length xs), q1)" "rb_wf q1"
    "rb_bytes q1 = rb_bytes q @ take (rb_room q) xs"
    "rb_room q1 = rb_room q - min (rb_room q) (length xs)"
    using rb_put_spec [OF q] by blast
  then show "\<exists>q'. rb_put q xs = Some (min (rb_room q) (length xs), q') \<and> rb_wf q' \<and>
      rb_bytes q' = rb_bytes q @ take (rb_room q) xs" by blast
  show "rb_put q xs = Some (n, q') \<Longrightarrow> rb_room q' = rb_room q - n" using q1 by simp
  obtain q2 where q2: "rb_get q n = Some (take n (rb_bytes q), q2)" "rb_wf q2"
    "rb_bytes q2 = drop n (rb_bytes q)" "rb_room q2 = rb_room q + min (length (rb_bytes q)) n"
    using rb_get_spec [OF q] by blast
  then show "\<exists>q'. rb_get q n = Some (take n (rb_bytes q), q') \<and> rb_wf q' \<and>
      rb_bytes q' = drop n (rb_bytes q)" by blast
  show "rb_get q n = Some (ys, q') \<Longrightarrow> rb_room q' = rb_room q + length ys" using q2 by auto
qed

section \<open>Properties\<close>

lemma rb_init_wf:
  "k < 31 \<Longrightarrow> length buff = 2 ^ k \<Longrightarrow> rb_wf (rb_init buff (2 ^ k)) \<and> rb_bytes (rb_init buff (2 ^ k)) = []
   \<and> rb_room (rb_init buff (2 ^ k)) = 2 ^ k - 1"
  by (auto simp: rb_wf_def rb_init_def rb_bytes_def rb_room_def rb_free_size_def rb_data_size_def
      nat_diff_distrib nat_power_eq)

text \<open>C6. On a ring buffer initialised with a block of a power of two bytes, every
  sequence of writes and reads, of any block sizes, is defined (no access leaves the
  block), and the bytes that the reads hand out followed by the bytes still stored are
  exactly the bytes that the writes accepted, in order; the stored bytes and the free
  space always add up to the size less one.\<close>

theorem ringbuf_is_fifo:
  assumes "k < 31" "length buff = 2 ^ k"
  shows "\<exists>acc out rb. fifo_run rb_put rb_get ops (rb_init buff (2 ^ k)) = Some (acc, out, rb) \<and>
    rb_wf rb \<and> acc = out @ rb_bytes rb \<and> rb_room rb + length (rb_bytes rb) = 2 ^ k - 1"
proof -
  note i = rb_init_wf [OF assms]
  obtain acc out rb where r: "fifo_run rb_put rb_get ops (rb_init buff (2 ^ k)) = Some (acc, out, rb)"
    using rb.run_defined i by (metis prod_cases3)
  show ?thesis using rb.run_fifo [OF _ r] i r by auto
qed

theorem ringbuf_is_fifo_witness:
  "\<exists>acc out rb. fifo_run rb_put rb_get [Put [1, 2, 3], Get 2, Put [4, 5], Get 3] (rb_init [0, 0, 0, 0] (2 ^ 2))
     = Some (acc, out, rb) \<and> rb_wf rb \<and> acc = out @ rb_bytes rb \<and>
     rb_room rb + length (rb_bytes rb) = 2 ^ 2 - 1"
  by (rule ringbuf_is_fifo) simp_all

text \<open>\<open>rb_write\<close> stores the longest prefix of the block that leaves one byte of the
  ring free, returns its length, keeps what was stored, and never writes outside of the
  ring, also when the copy runs around its end.\<close>

theorem ringbuf_write_functional:
  assumes "rb_wf rb"
  shows "\<exists>rb'. rb_write rb xs (int (length xs)) = Some (min (rb_free_size rb) (int (length xs)), rb') \<and>
    rb_wf rb' \<and> rb_bytes rb' = rb_bytes rb @ take (nat (rb_free_size rb)) xs \<and>
    rb_free_size rb' = rb_free_size rb - min (rb_free_size rb) (int (length xs))"
proof -
  have "int (rb_room rb) = rb_free_size rb"
    using rb_room_eq [OF assms] by (simp add: rb_free_size_def)
  then have "int (min (rb_room rb) (length xs)) = min (rb_free_size rb) (int (length xs))" by simp
  then show ?thesis
    using rb_write_spec [OF assms, of xs] by (auto simp: rb_free_size_def rb_room_def)
qed

theorem ringbuf_write_functional_witness:
  "let rb = \<lparr>rb_buffer = [9, 0, 0, 8], rb_wr_pointer = 1, rb_rd_pointer = 3, rb_size = 4\<rparr> in
   \<exists>rb'. rb_write rb [7, 6] (int (length [7, 6::u8])) = Some (min (rb_free_size rb) (int (length [7, 6::u8])), rb') \<and>
    rb_wf rb' \<and> rb_bytes rb' = rb_bytes rb @ take (nat (rb_free_size rb)) [7, 6] \<and>
    rb_free_size rb' = rb_free_size rb - min (rb_free_size rb) (int (length [7, 6::u8]))"
  unfolding Let_def
  by (rule ringbuf_write_functional) (auto simp: rb_wf_def intro!: exI [of _ 2])

text \<open>\<open>rb_peek\<close> at an index below the number of stored bytes returns the byte that
  this many reads later \<open>rb_read\<close> hands out, and changes nothing.\<close>

theorem ringbuf_peek_functional:
  assumes "rb_wf rb" "0 \<le> i" "i < rb_data_size rb"
  shows "rb_peek rb i = Some (rb_bytes rb ! nat i)"
proof -
  obtain N w r d where p: "rb_size rb = int N" "length (rb_buffer rb) = N"
    "rb_wr_pointer rb = int w" "rb_rd_pointer rb = int r" "rb_data_size rb = int d"
    "w \<le> N" "r \<le> N" "d < N" "w mod N = (r + d) mod N" "rb_bytes rb = ring_slice (rb_buffer rb) r d"
    using rb_positions [OF assms(1)] by blast
  obtain j where j: "i = int j" using assms(2) nonneg_int_cases by blast
  have "(int r + int j) smod int N = int ((r + j) mod N)"
    using p(8) by (simp add: smod_nonneg zmod_int)
  then show ?thesis using p j assms(3) by (simp add: rb_peek_def ring_slice_def)
qed

theorem ringbuf_peek_functional_witness:
  "let rb = \<lparr>rb_buffer = [9, 0, 0, 8], rb_wr_pointer = 1, rb_rd_pointer = 3, rb_size = 4\<rparr> in
   rb_peek rb 1 = Some (rb_bytes rb ! nat 1)"
  unfolding Let_def
  by (rule ringbuf_peek_functional) (auto simp: rb_wf_def rb_data_size_def intro!: exI [of _ 2])

text \<open>The power of two is needed, although nothing in the code says so: a ring
  buffer over six bytes that has just accepted two bytes reports that it holds none, and
  a read returns nothing.\<close>

theorem ringbuf_size_not_power_of_two_loses_data:
  "\<exists>rb. rb_write (rb_init [0, 0, 0, 0, 0, 0] 6) [1, 2] 2 = Some (2, rb) \<and> rb_data_size rb = 0 \<and>
     rb_read rb [0, 0] 2 = Some (0, [0, 0], rb)"
  by (auto simp: rb_write_def rb_init_def rb_free_size_def rb_data_size_def rb_read_def
      c_memcpy_def Let_def)

end
