(* ===== verification/ItemQueue.thy ===== *)
theory ItemQueue
  imports Prelude
begin

text \<open>
  The contract of a bounded queue of objects, as the users of \<open>cp_queue.c\<close> (the event
  loop of \<open>cp_fds.c\<close>) rely on it: enqueue at the rear unless the queue is full or no
  memory is left, dequeue from the front, removal of one object from the middle.
  The abstract queue is a list; \<open>qspec_step\<close> says what each operation answers and
  does, and when it has undefined behaviour. The locale states the laws of a provider and proves
  that every run of operations on a provider gives the answers of the abstract queue.
\<close>

datatype ('m, 'x) q_op = Enq "'m option" 'x | Deq | Rem 'x

datatype 'x q_ans = Stored bool | Item "'x option" | Removed

fun qspec_step :: "nat \<Rightarrow> ('m, 'x) q_op \<Rightarrow> 'x list \<Rightarrow> ('x q_ans \<times> 'x list) option" where
  "qspec_step cap (Enq m x) xs =
     Some (if m \<noteq> None \<and> length xs < cap then (Stored True, xs @ [x]) else (Stored False, xs))"
| "qspec_step cap Deq [] = Some (Item None, [])"
| "qspec_step cap Deq (x # xs) = Some (Item (Some x), xs)"
| "qspec_step cap (Rem x) xs =
     (if xs = [] \<or> x \<in> set xs then Some (Removed, remove1 x xs) else None)"

fun qspec_run :: "nat \<Rightarrow> ('m, 'x) q_op list \<Rightarrow> 'x list \<Rightarrow> ('x q_ans list \<times> 'x list) option" where
  "qspec_run cap [] xs = Some ([], xs)"
| "qspec_run cap (op # ops) xs = do {
     (a, ys) \<leftarrow> qspec_step cap op xs;
     (as, zs) \<leftarrow> qspec_run cap ops ys;
     Some (a # as, zs) }"

text \<open>The operations of a provider, and runs of them. In a valid run the allocator never
  answers with memory in use.\<close>

type_synonym ('m, 's, 'x) q_enq_op = "'m option \<Rightarrow> 's \<Rightarrow> 'x \<Rightarrow> (bool \<times> 's) option"
type_synonym ('s, 'x) q_deq_op = "'s \<Rightarrow> ('x option \<times> 's) option"
type_synonym ('s, 'x) q_rem_op = "'s \<Rightarrow> 'x \<Rightarrow> 's option"

fun q_step ::
  "('m, 's, 'x) q_enq_op \<Rightarrow> ('s, 'x) q_deq_op \<Rightarrow> ('s, 'x) q_rem_op
   \<Rightarrow> ('m, 'x) q_op \<Rightarrow> 's \<Rightarrow> ('x q_ans \<times> 's) option" where
  "q_step enq deq rem (Enq m x) s = do { (b, s') \<leftarrow> enq m s x; Some (Stored b, s') }"
| "q_step enq deq rem Deq s = do { (x, s') \<leftarrow> deq s; Some (Item x, s') }"
| "q_step enq deq rem (Rem x) s = do { s' \<leftarrow> rem s x; Some (Removed, s') }"

fun q_run ::
  "('m, 's, 'x) q_enq_op \<Rightarrow> ('s, 'x) q_deq_op \<Rightarrow> ('s, 'x) q_rem_op
   \<Rightarrow> ('m, 'x) q_op list \<Rightarrow> 's \<Rightarrow> ('x q_ans list \<times> 's) option" where
  "q_run enq deq rem [] s = Some ([], s)"
| "q_run enq deq rem (op # ops) s = do {
     (a, s1) \<leftarrow> q_step enq deq rem op s;
     (as, s2) \<leftarrow> q_run enq deq rem ops s1;
     Some (a # as, s2) }"

fun q_valid ::
  "('m \<Rightarrow> 's \<Rightarrow> bool) \<Rightarrow> ('m, 's, 'x) q_enq_op \<Rightarrow> ('s, 'x) q_deq_op \<Rightarrow> ('s, 'x) q_rem_op
   \<Rightarrow> ('m, 'x) q_op list \<Rightarrow> 's \<Rightarrow> bool" where
  "q_valid fresh enq deq rem [] s \<longleftrightarrow> True"
| "q_valid fresh enq deq rem (op # ops) s \<longleftrightarrow>
     (case op of Enq (Some m) x \<Rightarrow> fresh m s | _ \<Rightarrow> True) \<and>
     (case q_step enq deq rem op s of Some (_, s') \<Rightarrow> q_valid fresh enq deq rem ops s' | None \<Rightarrow> True)"

locale item_queue =
  fixes wf :: "'s \<Rightarrow> bool"
    and cap :: "'s \<Rightarrow> nat"
    and items :: "'s \<Rightarrow> 'x list"
    and fresh :: "'m \<Rightarrow> 's \<Rightarrow> bool"
    and enq :: "('m, 's, 'x) q_enq_op"
    and deq :: "('s, 'x) q_deq_op"
    and rem :: "('s, 'x) q_rem_op"
  assumes bound: "wf s \<Longrightarrow> length (items s) \<le> cap s"
    and enq_ok: "wf s \<Longrightarrow> fresh m s \<Longrightarrow> length (items s) < cap s \<Longrightarrow>
      \<exists>s'. enq (Some m) s x = Some (True, s') \<and> wf s' \<and> items s' = items s @ [x] \<and> cap s' = cap s"
    and enq_fail: "wf s \<Longrightarrow> length (items s) = cap s \<or> mo = None \<Longrightarrow> enq mo s x = Some (False, s)"
    and deq_item: "wf s \<Longrightarrow> items s = x # xs \<Longrightarrow>
      \<exists>s'. deq s = Some (Some x, s') \<and> wf s' \<and> items s' = xs \<and> cap s' = cap s"
    and deq_empty: "wf s \<Longrightarrow> items s = [] \<Longrightarrow> deq s = Some (None, s)"
    and rem_found: "wf s \<Longrightarrow> x \<in> set (items s) \<Longrightarrow>
      \<exists>s'. rem s x = Some s' \<and> wf s' \<and> items s' = remove1 x (items s) \<and> cap s' = cap s"
    and rem_empty: "wf s \<Longrightarrow> items s = [] \<Longrightarrow> rem s x = Some s"
    and rem_missing: "wf s \<Longrightarrow> items s \<noteq> [] \<Longrightarrow> x \<notin> set (items s) \<Longrightarrow> rem s x = None"
begin

lemma q_step_refines:
  assumes "wf s" "q_valid fresh enq deq rem [op] s"
  shows "(case q_step enq deq rem op s of
            None \<Rightarrow> qspec_step (cap s) op (items s) = None
          | Some (a, s') \<Rightarrow> qspec_step (cap s) op (items s) = Some (a, items s') \<and> wf s' \<and> cap s' = cap s)"
proof (cases op)
  case (Enq m x)
  show ?thesis
  proof (cases "m \<noteq> None \<and> length (items s) < cap s")
    case True
    then obtain a where a: "m = Some a" "fresh a s" using assms(2) Enq by auto
    then show ?thesis using True Enq enq_ok [OF assms(1) a(2), of x] by auto
  next
    case False
    then have "length (items s) = cap s \<or> m = None" using bound [OF assms(1)] by auto
    with False show ?thesis using Enq assms enq_fail [OF assms(1)] by auto
  qed
next
  case Deq
  then show ?thesis
    using assms(1) deq_item [OF assms(1)] deq_empty [OF assms(1)] by (cases "items s") fastforce+
next
  case (Rem x)
  then show ?thesis
    using rem_found [OF assms(1), of x] rem_empty [OF assms(1), of x] rem_missing [OF assms(1), of x] assms(1)
    by (cases "x \<in> set (items s)"; cases "items s = []") auto
qed

lemma q_run_refines:
  "wf s \<Longrightarrow> q_valid fresh enq deq rem ops s \<Longrightarrow>
   (case q_run enq deq rem ops s of
      None \<Rightarrow> qspec_run (cap s) ops (items s) = None
    | Some (as, s') \<Rightarrow> qspec_run (cap s) ops (items s) = Some (as, items s') \<and> wf s' \<and> cap s' = cap s)"
proof (induction ops arbitrary: s)
  case (Cons op ops)
  have "q_valid fresh enq deq rem [op] s" using Cons.prems(2) by (auto split: option.splits)
  note st = q_step_refines [OF Cons.prems(1) this]
  show ?case
  proof (cases "q_step enq deq rem op s")
    case None
    then show ?thesis using st by simp
  next
    case (Some r)
    then obtain a s1 where r: "q_step enq deq rem op s = Some (a, s1)" by (cases r) auto
    then have 1: "wf s1" "q_valid fresh enq deq rem ops s1" "cap s1 = cap s"
        "qspec_step (cap s) op (items s) = Some (a, items s1)"
      using st Cons.prems(2) by simp_all
    show ?thesis
      using Cons.IH [OF 1(1,2)] 1(3,4) r by (cases "q_run enq deq rem ops s1") auto
  qed
qed simp

end

text \<open>On the abstract queue, the objects that come out of a run without removals are a prefix
  of those that were stored, in order.\<close>

fun q_stored :: "('m, 'x) q_op list \<Rightarrow> 'x q_ans list \<Rightarrow> 'x list" where
  "q_stored (Enq m x # ops) (Stored True # as) = x # q_stored ops as"
| "q_stored (_ # ops) (_ # as) = q_stored ops as"
| "q_stored _ _ = []"

fun q_served :: "'x q_ans list \<Rightarrow> 'x list" where
  "q_served [] = []"
| "q_served (Item (Some x) # as) = x # q_served as"
| "q_served (_ # as) = q_served as"

lemma qspec_run_fifo:
  "qspec_run cap ops xs = Some (as, ys) \<Longrightarrow> (\<And>x. Rem x \<notin> set ops)
   \<Longrightarrow> xs @ q_stored ops as = q_served as @ ys"
proof (induction ops arbitrary: xs as)
  case (Cons op ops)
  from Cons.prems(1) obtain a zs as1 where r: "qspec_step cap op xs = Some (a, zs)"
    "qspec_run cap ops zs = Some (as1, ys)" "as = a # as1" by auto
  have ih: "zs @ q_stored ops as1 = q_served as1 @ ys"
    using Cons.IH [OF r(2)] Cons.prems(2) by auto
  show ?case
  proof (cases op)
    case (Enq m x)
    then show ?thesis using r ih by (auto split: if_splits)
  next
    case Deq
    then show ?thesis using r ih by (cases xs) auto
  next
    case (Rem x)
    then show ?thesis using Cons.prems(2) by auto
  qed
qed simp

lemma qspec_run_total:
  "(\<And>x. Rem x \<notin> set ops) \<Longrightarrow> \<exists>r. qspec_run cap ops xs = Some r"
proof (induction ops arbitrary: xs)
  case (Cons op ops)
  obtain a ys where s: "qspec_step cap op xs = Some (a, ys)"
  proof (cases op)
    case (Rem x)
    with Cons.prems [of x] show thesis by simp
  next
    case (Enq m x)
    then show thesis using that by (cases "m \<noteq> None \<and> length xs < cap") auto
  next
    case Deq
    then show thesis using that by (cases xs) auto
  qed
  obtain r where "qspec_run cap ops ys = Some r" using Cons.IH [of ys] Cons.prems by fastforce
  with s show ?case by (cases r) simp
qed simp

end
