(* ===== verification/CpQueue.thy ===== *)
theory CpQueue
  imports ItemQueue
begin

text \<open>
  The linked queue of \<open>cp_library/cp_queue.c\<close>, with its nodes in an explicit heap: a
  map from addresses to nodes, where a freed node is not in the domain any more. A
  \<open>void *\<close> item is an option, \<^const>\<open>None\<close> being \<open>NULL\<close>. The answer of
  \<open>t_malloc\<close> (an address, or \<open>NULL\<close>) is an argument of the operations that allocate.
  A null or dangling dereference makes the whole operation \<^const>\<open>None\<close>. The loops are
  partial functions: \<^const>\<open>None\<close> is also the value of a loop that does not end, and
  the lemmas show when it does.

  The second half proves that the heap operations refine the operations on a list of
  items, as the interface \<open>item_queue\<close> states them.
\<close>

type_synonym addr = nat

record 'a qnode =
  qn_item :: "'a option"
  qn_next :: "addr option"

type_synonym 'a qheap = "addr \<rightharpoonup> 'a qnode"

record cp_queue =
  cq_front :: "addr option"
  cq_rear :: "addr option"
  cq_items :: int
  cq_size :: int

section \<open>The operations\<close>

definition cp_queue_is_full :: "cp_queue \<Rightarrow> bool" where
  "cp_queue_is_full pq \<longleftrightarrow> cq_size pq = cq_items pq"

definition cp_queue_is_empty :: "cp_queue \<Rightarrow> bool" where
  "cp_queue_is_empty pq \<longleftrightarrow> 0 = cq_items pq"

text \<open>With a null argument the queue is allocated; the code does not check the
  allocation (\<open>ok\<close>) before it clears the block.\<close>

definition cp_queue_init :: "bool \<Rightarrow> cp_queue option \<Rightarrow> int \<Rightarrow> cp_queue option" where
  "cp_queue_init ok queue size' =
     (if queue = None \<and> \<not> ok then None
      else Some \<lparr>cq_front = None, cq_rear = None, cq_items = 0, cq_size = size'\<rparr>)"

definition cp_enqueue ::
  "addr option \<Rightarrow> 'a qheap \<Rightarrow> cp_queue option \<Rightarrow> 'a option
   \<Rightarrow> ('a option \<times> 'a qheap \<times> cp_queue option) option" where
  "cp_enqueue mem h queue data =
     (case queue of
        None \<Rightarrow> Some (None, h, queue)
      | Some q \<Rightarrow>
          if cp_queue_is_full q then Some (None, h, queue)
          else
            (case mem of
               None \<Rightarrow> Some (None, h, queue)
             | Some node \<Rightarrow> do {
                 let h = h(node \<mapsto> \<lparr>qn_item = data, qn_next = None\<rparr>);
                 (h, q) \<leftarrow>
                   (if cp_queue_is_empty q then Some (h, q\<lparr>cq_front := Some node\<rparr>)
                    else do {
                      rear \<leftarrow> cq_rear q;
                      n \<leftarrow> h rear;
                      Some (h(rear \<mapsto> n\<lparr>qn_next := Some node\<rparr>), q) });
                 Some (data, h, Some (q\<lparr>cq_rear := Some node, cq_items := cq_items q + 1\<rparr>)) }))"

definition cp_dequeue ::
  "'a qheap \<Rightarrow> cp_queue option \<Rightarrow> ('a option \<times> 'a qheap \<times> cp_queue option) option" where
  "cp_dequeue h queue =
     (case queue of
        None \<Rightarrow> Some (None, h, queue)
      | Some q \<Rightarrow>
          if cp_queue_is_empty q then Some (None, h, queue)
          else do {
            node \<leftarrow> cq_front q;
            n \<leftarrow> h node;
            let q = q\<lparr>cq_front := qn_next n, cq_items := cq_items q - 1\<rparr>;
            let q = (if cq_items q = 0 then q\<lparr>cq_rear := None\<rparr> else q);
            Some (qn_item n, h(node := None), Some q) })"

text \<open>The search of \<open>cp_rmqueue\<close> from \<open>node\<close> on: it looks at the item of the next
  node, also when there is none.\<close>

partial_function (option) rmqueue_loop ::
  "'a qheap \<Rightarrow> cp_queue \<Rightarrow> addr option \<Rightarrow> 'a option
   \<Rightarrow> ('a option \<times> 'a qheap \<times> cp_queue option) option" where
  "rmqueue_loop h q node data =
     (case node of
        None \<Rightarrow> Some (data, h, Some q)
      | Some a \<Rightarrow>
          (case h a of
             None \<Rightarrow> None
           | Some n \<Rightarrow>
               (case qn_next n of
                  None \<Rightarrow> None
                | Some b \<Rightarrow>
                    (case h b of
                       None \<Rightarrow> None
                     | Some m \<Rightarrow>
                         if qn_item m = data then
                           let q1 = q\<lparr>cq_items := cq_items q - 1\<rparr> in
                           if cq_rear q \<noteq> Some b
                           then Some (data, (h(a \<mapsto> n\<lparr>qn_next := qn_next m\<rparr>))(b := None), Some q1)
                           else Some (data, (h(a \<mapsto> n\<lparr>qn_next := None\<rparr>))(b := None),
                                      Some (q1\<lparr>cq_rear := Some a\<rparr>))
                         else rmqueue_loop h q (Some b) data))))"

declare rmqueue_loop.simps [code]

definition cp_rmqueue ::
  "'a qheap \<Rightarrow> cp_queue option \<Rightarrow> 'a option
   \<Rightarrow> ('a option \<times> 'a qheap \<times> cp_queue option) option" where
  "cp_rmqueue h queue data =
     (case queue of
        None \<Rightarrow> Some (None, h, queue)
      | Some q \<Rightarrow>
          if cp_queue_is_empty q then Some (None, h, queue)
          else
            (case cq_front q of
               None \<Rightarrow> None
             | Some a \<Rightarrow>
                 (case h a of
                    None \<Rightarrow> None
                  | Some n \<Rightarrow>
                      if qn_item n = data
                      then Some (data, h(a := None),
                             Some (q\<lparr>cq_front := qn_next n, cq_items := cq_items q - 1\<rparr>))
                      else rmqueue_loop h q (Some a) data)))"

text \<open>\<open>cp_travel_queue\<close> prints the items; the model returns the list printed.\<close>

partial_function (option) travel_loop :: "'a qheap \<Rightarrow> addr option \<Rightarrow> 'a option list option" where
  "travel_loop h node =
     (case node of
        None \<Rightarrow> Some []
      | Some a \<Rightarrow>
          (case h a of
             None \<Rightarrow> None
           | Some n \<Rightarrow> do { l \<leftarrow> travel_loop h (qn_next n); Some (qn_item n # l) }))"

declare travel_loop.simps [code]

definition cp_travel_queue :: "'a qheap \<Rightarrow> cp_queue \<Rightarrow> 'a option list option" where
  "cp_travel_queue h q = travel_loop h (cq_front q)"

text \<open>\<open>cp_queue_destroy\<close> dequeues until the count is zero, then frees the queue.\<close>

partial_function (option) destroy_loop :: "'a qheap \<Rightarrow> cp_queue \<Rightarrow> 'a qheap option" where
  "destroy_loop h q =
     (if cp_queue_is_empty q then Some h
      else case cp_dequeue h (Some q) of
             Some (_, h', Some q') \<Rightarrow> destroy_loop h' q'
           | _ \<Rightarrow> None)"

declare destroy_loop.simps [code]

definition cp_queue_destroy :: "'a qheap \<Rightarrow> cp_queue option \<Rightarrow> 'a qheap option" where
  "cp_queue_destroy h queue =
     (case queue of None \<Rightarrow> Some h | Some q \<Rightarrow> destroy_loop h q)"

section \<open>Linked segments\<close>

fun qseg :: "'a qheap \<Rightarrow> addr option \<Rightarrow> addr list \<Rightarrow> addr option \<Rightarrow> bool" where
  "qseg h p [] e \<longleftrightarrow> p = e"
| "qseg h p (a # as) e \<longleftrightarrow>
     p = Some a \<and> (case h a of None \<Rightarrow> False | Some n \<Rightarrow> qseg h (qn_next n) as e)"

definition q_item :: "'a qheap \<Rightarrow> addr \<Rightarrow> 'a option" where
  "q_item h a = (case h a of None \<Rightarrow> None | Some n \<Rightarrow> qn_item n)"

lemma qseg_append: "qseg h p (as @ bs) e \<longleftrightarrow> (\<exists>m. qseg h p as m \<and> qseg h m bs e)"
  by (induction as arbitrary: p) (auto split: option.splits)

lemma qseg_upd [simp]: "a \<notin> set as \<Longrightarrow> qseg (h(a := v)) p as e = qseg h p as e"
  by (induction as arbitrary: p) (auto split: option.splits)

lemma q_item_upd [simp]: "a \<noteq> b \<Longrightarrow> q_item (h(a := v)) b = q_item h b"
  by (simp add: q_item_def)

lemma map_q_item_upd [simp]: "a \<notin> set as \<Longrightarrow> map (q_item (h(a := v))) as = map (q_item h) as"
  by (auto simp: q_item_def)

lemma qseg_dom: "qseg h p as e \<Longrightarrow> set as \<subseteq> dom h"
  by (induction as arbitrary: p) (auto split: option.splits)

definition q_rep :: "'a qheap \<Rightarrow> cp_queue \<Rightarrow> addr list \<Rightarrow> bool" where
  "q_rep h q as \<longleftrightarrow> distinct as \<and> qseg h (cq_front q) as None \<and> cq_items q = int (length as) \<and>
     cq_items q \<le> cq_size q \<and> (as \<noteq> [] \<longrightarrow> cq_rear q = Some (last as))"

lemma q_rep_empty: "q_rep h q as \<Longrightarrow> cp_queue_is_empty q \<longleftrightarrow> as = []"
  by (auto simp: q_rep_def cp_queue_is_empty_def)

lemma q_rep_full: "q_rep h q as \<Longrightarrow> cp_queue_is_full q \<longleftrightarrow> int (length as) = cq_size q"
  by (auto simp: q_rep_def cp_queue_is_full_def)

lemma cp_queue_init_rep: "0 \<le> sz \<Longrightarrow> cp_queue_init ok queue sz = Some q \<Longrightarrow> q_rep h q [] \<and> cq_size q = sz"
  by (auto simp: cp_queue_init_def q_rep_def split: if_splits)

subsection \<open>Enqueue and dequeue\<close>

lemma cp_enqueue_rep:
  assumes "q_rep h q as" and fresh: "h a = None" and room: "int (length as) < cq_size q"
  shows "\<exists>h' q'. cp_enqueue (Some a) h (Some q) x = Some (x, h', Some q') \<and> q_rep h' q' (as @ [a]) \<and>
    map (q_item h') (as @ [a]) = map (q_item h) as @ [x] \<and> cq_size q' = cq_size q \<and>
    dom h' = insert a (dom h)"
proof (cases as rule: rev_cases)
  case Nil
  then show ?thesis
    using assms q_rep_empty [OF assms(1)] q_rep_full [OF assms(1)]
    by (auto simp: cp_enqueue_def q_rep_def q_item_def Let_def)
next
  case (snoc bs r)
  then obtain n where n: "h r = Some n" "qn_next n = None" "qseg h (cq_front q) bs (Some r)"
    using assms(1) by (auto simp: q_rep_def qseg_append split: option.splits)
  have ne: "a \<noteq> r" "a \<notin> set bs" "r \<notin> set bs" "distinct bs"
    using fresh n(1) qseg_dom [OF n(3)] assms(1) snoc by (auto simp: q_rep_def)
  then show ?thesis
    using assms snoc n q_rep_empty [OF assms(1)] q_rep_full [OF assms(1)]
    by (auto simp: cp_enqueue_def q_rep_def qseg_append Let_def fun_upd_twist) (auto simp: q_item_def)
qed

lemma cp_dequeue_rep:
  assumes "q_rep h q (a # as)"
  shows "\<exists>q'. cp_dequeue h (Some q) = Some (q_item h a, h(a := None), Some q') \<and>
    q_rep (h(a := None)) q' as \<and> map (q_item (h(a := None))) as = map (q_item h) as \<and>
    cq_size q' = cq_size q"
  using assms by (cases "h a") (auto simp: q_rep_def cp_dequeue_def cp_queue_is_empty_def q_item_def Let_def)

lemma cp_dequeue_empty: "q_rep h q [] \<Longrightarrow> cp_dequeue h (Some q) = Some (None, h, Some q)"
  by (simp add: q_rep_def cp_dequeue_def cp_queue_is_empty_def)

subsection \<open>Removal from the middle\<close>

lemma q_rep_remove_after:
  assumes "q_rep h q (xs @ a # b # ys)" "h a = Some n" "h b = Some m"
  shows "q_rep ((h(a \<mapsto> n\<lparr>qn_next := qn_next m\<rparr>))(b := None))
      (if cq_rear q = Some b then q\<lparr>cq_items := cq_items q - 1, cq_rear := Some a\<rparr>
       else q\<lparr>cq_items := cq_items q - 1\<rparr>) (xs @ a # ys)"
    and "cq_rear q = Some b \<longleftrightarrow> ys = []" "qn_next m = None \<longleftrightarrow> ys = []"
    and "map (q_item ((h(a \<mapsto> n\<lparr>qn_next := nx\<rparr>))(b := None))) (xs @ a # ys) =
      map (q_item h) (xs @ a # ys)"
proof -
  have d: "a \<noteq> b" "a \<notin> set xs" "b \<notin> set xs" "a \<notin> set ys" "b \<notin> set ys"
    using assms(1) by (auto simp: q_rep_def)
  have s: "qseg h (cq_front q) xs (Some a)" "qn_next n = Some b" "qseg h (qn_next m) ys None"
    using assms by (auto simp: q_rep_def qseg_append)
  show rear: "cq_rear q = Some b \<longleftrightarrow> ys = []"
    using assms(1) d by (auto simp: q_rep_def)
  show "qn_next m = None \<longleftrightarrow> ys = []" using s(3) by (cases ys) auto
  show "q_rep ((h(a \<mapsto> n\<lparr>qn_next := qn_next m\<rparr>))(b := None))
      (if cq_rear q = Some b then q\<lparr>cq_items := cq_items q - 1, cq_rear := Some a\<rparr>
       else q\<lparr>cq_items := cq_items q - 1\<rparr>) (xs @ a # ys)"
    using assms d s rear by (auto simp: q_rep_def qseg_append)
  show "map (q_item ((h(a \<mapsto> n\<lparr>qn_next := nx\<rparr>))(b := None))) (xs @ a # ys) =
      map (q_item h) (xs @ a # ys)"
    using d assms(2) by (auto simp: q_item_def)
qed

lemma rmqueue_loop_found:
  assumes "q_rep h q (xs @ a # ys)" "x \<in> set (map (q_item h) ys)"
  shows "\<exists>h' q' ys'. rmqueue_loop h q (Some a) x = Some (x, h', Some q') \<and>
    q_rep h' q' (xs @ a # ys') \<and> cq_size q' = cq_size q \<and>
    map (q_item h') (xs @ a # ys') = map (q_item h) (xs @ [a]) @ remove1 x (map (q_item h) ys)"
  using assms
proof (induction ys arbitrary: xs a)
  case (Cons b ys)
  obtain n m where nm: "h a = Some n" "qn_next n = Some b" "h b = Some m"
    using Cons.prems(1) by (auto simp: q_rep_def qseg_append split: option.splits)
  note rm = q_rep_remove_after [OF Cons.prems(1) nm(1,3)]
  show ?case
  proof (cases "qn_item m = x")
    case True
    then have hd: "q_item h b = x" using nm by (simp add: q_item_def)
    show ?thesis
    proof (cases "cq_rear q = Some b")
      case last: True
      then have "qn_next m = None" "ys = []" using rm(2,3) by auto
      then show ?thesis
        using rm(1) rm(4) [of None] nm True hd last
        by (subst rmqueue_loop.simps) (auto simp: Let_def intro!: exI [of _ "[]"])
    next
      case False
      then show ?thesis
        using rm(1) rm(4) [of "qn_next m"] nm True hd
        by (subst rmqueue_loop.simps) (auto simp: Let_def intro!: exI [of _ ys])
    qed
  next
    case False
    then have hd: "q_item h b \<noteq> x" using nm by (simp add: q_item_def)
    with Cons.prems have "q_rep h q ((xs @ [a]) @ b # ys)" "x \<in> set (map (q_item h) ys)" by auto
    from Cons.IH [OF this] obtain h' q' ys' where
      "rmqueue_loop h q (Some b) x = Some (x, h', Some q')" "q_rep h' q' ((xs @ [a]) @ b # ys')"
      "cq_size q' = cq_size q"
      "map (q_item h') ((xs @ [a]) @ b # ys') =
        map (q_item h) ((xs @ [a]) @ [b]) @ remove1 x (map (q_item h) ys)" by blast
    with nm False hd show ?thesis
      by (subst rmqueue_loop.simps) (auto intro!: exI [of _ "b # ys'"])
  qed
qed simp

lemma rmqueue_loop_missing:
  "qseg h (Some a) (a # ys) None \<Longrightarrow> x \<notin> set (map (q_item h) ys) \<Longrightarrow> rmqueue_loop h q (Some a) x = None"
proof (induction ys arbitrary: a)
  case Nil
  then show ?case by (subst rmqueue_loop.simps) (auto split: option.splits)
next
  case (Cons b ys)
  then obtain n m where nm: "h a = Some n" "qn_next n = Some b" "h b = Some m"
    by (auto split: option.splits)
  then have "rmqueue_loop h q (Some b) x = None" "qn_item m \<noteq> x"
    using Cons.prems Cons.IH [of b] by (auto simp: q_item_def)
  then show ?case using nm by (subst rmqueue_loop.simps) simp
qed

lemma cp_rmqueue_found:
  assumes "q_rep h q as" "x \<in> set (map (q_item h) as)"
  shows "\<exists>h' q' as'. cp_rmqueue h (Some q) x = Some (x, h', Some q') \<and> q_rep h' q' as' \<and>
    cq_size q' = cq_size q \<and> map (q_item h') as' = remove1 x (map (q_item h) as)"
proof -
  obtain a ys where as: "as = a # ys" using assms(2) by (cases as) auto
  then obtain n where n: "cq_front q = Some a" "h a = Some n" "\<not> cp_queue_is_empty q"
    using assms(1) q_rep_empty [OF assms(1)] by (auto simp: q_rep_def split: option.splits)
  show ?thesis
  proof (cases "qn_item n = x")
    case True
    have "q_rep (h(a := None)) (q\<lparr>cq_front := qn_next n, cq_items := cq_items q - 1\<rparr>) ys"
      using assms(1) as n by (auto simp: q_rep_def split: if_splits)
    moreover have "map (q_item (h(a := None))) ys = map (q_item h) ys"
      using assms(1) as by (auto simp: q_rep_def q_item_def)
    ultimately show ?thesis using True as n by (auto simp: cp_rmqueue_def q_item_def)
  next
    case False
    then have "x \<in> set (map (q_item h) ys)" "q_item h a \<noteq> x"
      using assms(2) as n by (auto simp: q_item_def)
    moreover obtain h' q' ys' where "rmqueue_loop h q (Some a) x = Some (x, h', Some q')"
      "q_rep h' q' (a # ys')" "cq_size q' = cq_size q"
      "map (q_item h') (a # ys') = q_item h a # remove1 x (map (q_item h) ys)"
      using rmqueue_loop_found [of h q "[]" a ys x] assms(1) as calculation by auto
    ultimately show ?thesis
      using as n False by (auto simp: cp_rmqueue_def intro!: exI [of _ "a # ys'"])
  qed
qed

lemma cp_rmqueue_missing:
  assumes "q_rep h q as" "as \<noteq> []" "x \<notin> set (map (q_item h) as)"
  shows "cp_rmqueue h (Some q) x = None"
proof -
  obtain a ys where as: "as = a # ys" using assms(2) by (cases as) auto
  then obtain n where n: "cq_front q = Some a" "h a = Some n" "\<not> cp_queue_is_empty q"
    using assms(1) q_rep_empty [OF assms(1)] by (auto simp: q_rep_def split: option.splits)
  moreover have "qn_item n \<noteq> x" using assms(3) as n by (auto simp: q_item_def)
  moreover have "rmqueue_loop h q (Some a) x = None"
    using rmqueue_loop_missing [of h a ys x] assms as n by (auto simp: q_rep_def)
  ultimately show ?thesis by (simp add: cp_rmqueue_def)
qed

lemma cp_rmqueue_empty: "q_rep h q [] \<Longrightarrow> cp_rmqueue h (Some q) x = Some (None, h, Some q)"
  by (simp add: q_rep_def cp_rmqueue_def cp_queue_is_empty_def)

subsection \<open>Walking through the whole queue\<close>

lemma travel_loop_seg: "qseg h p as None \<Longrightarrow> travel_loop h p = Some (map (q_item h) as)"
proof (induction as arbitrary: p)
  case Nil
  then show ?case by (subst travel_loop.simps) simp
next
  case (Cons a as)
  then show ?case
    by (subst travel_loop.simps) (auto simp: q_item_def split: option.splits)
qed

lemma destroy_loop_rep:
  "q_rep h q as \<Longrightarrow> destroy_loop h q = Some (h |` (- set as))"
proof (induction as arbitrary: h q)
  case Nil
  then show ?case using q_rep_empty [OF Nil] by (subst destroy_loop.simps) (simp add: restrict_map_def)
next
  case (Cons a as)
  obtain q' where q': "cp_dequeue h (Some q) = Some (q_item h a, h(a := None), Some q')"
    "q_rep (h(a := None)) q' as"
    using cp_dequeue_rep [OF Cons.prems] by blast
  have "(h(a := None)) |` (- set as) = h |` (- set (a # as))"
    by (auto simp: restrict_map_def)
  then have "destroy_loop (h(a := None)) q' = Some (h |` (- set (a # as)))"
    using Cons.IH [OF q'(2)] by (simp only:)
  then show ?case
    using q'(1) q_rep_empty [OF Cons.prems]
    by (subst destroy_loop.simps) (simp del: fun_upd_apply)
qed

section \<open>The queue as a provider of the interface\<close>

text \<open>The addresses of the nodes, found by following the links.\<close>

fun q_walk :: "'a qheap \<Rightarrow> addr option \<Rightarrow> nat \<Rightarrow> addr list" where
  "q_walk h (Some a) (Suc n) = a # (case h a of Some m \<Rightarrow> q_walk h (qn_next m) n | None \<Rightarrow> [])"
| "q_walk h _ _ = []"

lemma q_walk_seg: "qseg h p as None \<Longrightarrow> q_walk h p (length as) = as"
  by (induction as arbitrary: p) (auto split: option.splits)

definition q_addrs :: "'a qheap \<times> cp_queue \<Rightarrow> addr list" where
  "q_addrs s = q_walk (fst s) (cq_front (snd s)) (nat (cq_items (snd s)))"

definition q_wf :: "'a qheap \<times> cp_queue \<Rightarrow> bool" where
  "q_wf s \<longleftrightarrow> q_rep (fst s) (snd s) (q_addrs s) \<and> None \<notin> q_item (fst s) ` set (q_addrs s)"

definition q_items :: "'a qheap \<times> cp_queue \<Rightarrow> 'a list" where
  "q_items s = map (the \<circ> q_item (fst s)) (q_addrs s)"

definition q_cap :: "'a qheap \<times> cp_queue \<Rightarrow> nat" where
  "q_cap s = nat (cq_size (snd s))"

definition q_fresh :: "addr \<Rightarrow> 'a qheap \<times> cp_queue \<Rightarrow> bool" where
  "q_fresh a s \<longleftrightarrow> fst s a = None"

lemma q_addrs_rep: "q_rep h q as \<Longrightarrow> q_addrs (h, q) = as"
  by (auto simp: q_addrs_def q_rep_def q_walk_seg)

lemma q_wf_iff: "q_wf (h, q) \<longleftrightarrow> (\<exists>as xs. q_rep h q as \<and> map (q_item h) as = map Some xs)"
proof
  assume w: "q_wf (h, q)"
  then have "map (q_item h) (q_addrs (h, q)) = map Some (q_items (h, q))"
    by (auto simp: q_wf_def q_items_def image_iff)
  then show "\<exists>as xs. q_rep h q as \<and> map (q_item h) as = map Some xs" using w by (auto simp: q_wf_def)
next
  assume "\<exists>as xs. q_rep h q as \<and> map (q_item h) as = map Some xs"
  then obtain as xs where as: "q_rep h q as" "map (q_item h) as = map Some xs" by blast
  have "q_item h ` set as = Some ` set xs" using as(2) by (metis list.set_map)
  then show "q_wf (h, q)" using as(1) q_addrs_rep [OF as(1)] by (auto simp: q_wf_def)
qed

lemma q_items_rep: "q_rep h q as \<Longrightarrow> map (q_item h) as = map Some xs \<Longrightarrow> q_items (h, q) = xs"
proof -
  assume as: "q_rep h q as" "map (q_item h) as = map Some xs"
  have "map (the \<circ> q_item h) as = map the (map (q_item h) as)" by simp
  also have "\<dots> = xs" unfolding as(2) by (simp add: map_idI)
  finally show ?thesis using q_addrs_rep [OF as(1)] by (simp add: q_items_def)
qed

lemma q_wf_rep:
  "q_rep h q as \<Longrightarrow> map (q_item h) as = map Some xs \<Longrightarrow> q_wf (h, q) \<and> q_items (h, q) = xs"
  using q_items_rep q_wf_iff by blast

lemma q_wf_obtain:
  assumes "q_wf (h, q)"
  obtains as where "q_rep h q as" "map (q_item h) as = map Some (q_items (h, q))"
    "length as = length (q_items (h, q))" "q_cap (h, q) = nat (cq_size q)"
  using assms q_items_rep unfolding q_wf_iff by (metis length_map q_cap_def snd_conv)

definition q_enq :: "addr option \<Rightarrow> 'a qheap \<times> cp_queue \<Rightarrow> 'a \<Rightarrow> (bool \<times> 'a qheap \<times> cp_queue) option" where
  "q_enq m s x = do {
     (r, h, q) \<leftarrow> cp_enqueue m (fst s) (Some (snd s)) (Some x);
     q \<leftarrow> q;
     Some (r \<noteq> None, h, q) }"

definition q_deq :: "'a qheap \<times> cp_queue \<Rightarrow> ('a option \<times> 'a qheap \<times> cp_queue) option" where
  "q_deq s = do {
     (r, h, q) \<leftarrow> cp_dequeue (fst s) (Some (snd s));
     q \<leftarrow> q;
     Some (r, h, q) }"

definition q_rem :: "'a qheap \<times> cp_queue \<Rightarrow> 'a \<Rightarrow> ('a qheap \<times> cp_queue) option" where
  "q_rem s x = do {
     (r, h, q) \<leftarrow> cp_rmqueue (fst s) (Some (snd s)) (Some x);
     q \<leftarrow> q;
     Some (h, q) }"

lemma map_remove1_Some: "map Some (remove1 x xs) = remove1 (Some x) (map Some xs)"
  by (induction xs) auto

interpretation lq: item_queue q_wf q_cap q_items q_fresh q_enq q_deq q_rem
proof
  fix s :: "'a qheap \<times> cp_queue" and a x xs mo
  assume wf: "q_wf s"
  obtain h q where s: "s = (h, q)" by (cases s)
  obtain as where as: "q_rep h q as" "map (q_item h) as = map Some (q_items s)"
    "length as = length (q_items s)" "q_cap s = nat (cq_size q)"
    using q_wf_obtain wf s by metis
  have le: "int (length as) \<le> cq_size q" using as(1) by (simp add: q_rep_def)
  show "length (q_items s) \<le> q_cap s" using le as(3,4) by simp
  show "\<exists>s'. q_enq (Some a) s x = Some (True, s') \<and> q_wf s' \<and> q_items s' = q_items s @ [x] \<and> q_cap s' = q_cap s"
    if "q_fresh a s" "length (q_items s) < q_cap s"
  proof -
    have "h a = None" "int (length as) < cq_size q" using that s as(3,4) by (simp_all add: q_fresh_def)
    from cp_enqueue_rep [OF as(1) this, of "Some x"] obtain h' q' where e:
      "cp_enqueue (Some a) h (Some q) (Some x) = Some (Some x, h', Some q')" "q_rep h' q' (as @ [a])"
      "map (q_item h') (as @ [a]) = map (q_item h) as @ [Some x]" "cq_size q' = cq_size q" by blast
    have m: "map (q_item h') (as @ [a]) = map Some (q_items s @ [x])" using e(3) as(2) by simp
    show ?thesis
      using e(1,4) q_wf_rep [OF e(2) m] s by (auto simp: q_enq_def q_cap_def)
  qed
  show "q_enq mo s x = Some (False, s)" if "length (q_items s) = q_cap s \<or> mo = None"
    using that le as(3,4) s q_rep_full [OF as(1)] by (auto simp: q_enq_def cp_enqueue_def)
  show "\<exists>s'. q_deq s = Some (Some x, s') \<and> q_wf s' \<and> q_items s' = xs \<and> q_cap s' = q_cap s"
    if cons: "q_items s = x # xs"
  proof -
    obtain b bs where bs: "as = b # bs" "q_item h b = Some x" "map (q_item h) bs = map Some xs"
      using as(2) cons by (cases as) auto
    from cp_dequeue_rep [OF as(1) [unfolded bs(1)]] obtain q' where e:
      "cp_dequeue h (Some q) = Some (q_item h b, h(b := None), Some q')" "q_rep (h(b := None)) q' bs"
      "map (q_item (h(b := None))) bs = map (q_item h) bs" "cq_size q' = cq_size q" by blast
    have m: "map (q_item (h(b := None))) bs = map Some xs" using e(3) bs(3) by simp
    show ?thesis
      using e(1,4) bs(2) q_wf_rep [OF e(2) m] s by (auto simp: q_deq_def q_cap_def)
  qed
  show "q_deq s = Some (None, s)" if "q_items s = []"
    using that as s cp_dequeue_empty by (auto simp: q_deq_def)
  have mem: "Some x \<in> set (map (q_item h) as) \<longleftrightarrow> x \<in> set (q_items s)" unfolding as(2) by auto
  show "\<exists>s'. q_rem s x = Some s' \<and> q_wf s' \<and> q_items s' = remove1 x (q_items s) \<and> q_cap s' = q_cap s"
    if inx: "x \<in> set (q_items s)"
  proof -
    obtain h' q' as' where e: "cp_rmqueue h (Some q) (Some x) = Some (Some x, h', Some q')"
      "q_rep h' q' as'" "cq_size q' = cq_size q" "map (q_item h') as' = remove1 (Some x) (map (q_item h) as)"
      using cp_rmqueue_found [OF as(1)] mem inx by blast
    have m: "map (q_item h') as' = map Some (remove1 x (q_items s))"
      unfolding e(4) as(2) by (rule map_remove1_Some [symmetric])
    show ?thesis
      using e(1,3) q_wf_rep [OF e(2) m] s by (auto simp: q_rem_def q_cap_def)
  qed
  show "q_rem s x = Some s" if "q_items s = []"
    using that as s cp_rmqueue_empty by (auto simp: q_rem_def)
  show "q_rem s x = None" if "q_items s \<noteq> []" "x \<notin> set (q_items s)"
  proof -
    have "as \<noteq> []" using as(3) that(1) by auto
    then have "cp_rmqueue h (Some q) (Some x) = None"
      using cp_rmqueue_missing [OF as(1)] mem that(2) by blast
    then show ?thesis using s by (simp add: q_rem_def)
  qed
qed

section \<open>Properties\<close>

text \<open>C1. The linked queue refines a bounded list. From any well-formed queue, every
  sequence of enqueues (with any answers of \<open>t_malloc\<close> that are not memory in use),
  dequeues and removals either gives, operation by operation, the answers of the list
  and ends in a well-formed queue that holds the list's content, or has undefined behaviour exactly
  where the list specification says so: when it removes an object that is not in a non-empty queue.\<close>

theorem queue_run_refines_list:
  assumes "q_wf s" "q_valid q_fresh q_enq q_deq q_rem ops s"
  shows "(case q_run q_enq q_deq q_rem ops s of
      None \<Rightarrow> qspec_run (q_cap s) ops (q_items s) = None
    | Some (as, s') \<Rightarrow> qspec_run (q_cap s) ops (q_items s) = Some (as, q_items s') \<and>
        q_wf s' \<and> q_cap s' = q_cap s)"
  using lq.q_run_refines [OF assms] .

definition sample_queue :: "nat qheap \<times> cp_queue" where
  "sample_queue =
     ([5 \<mapsto> \<lparr>qn_item = Some 70, qn_next = Some 6\<rparr>, 6 \<mapsto> \<lparr>qn_item = Some 71, qn_next = None\<rparr>],
      \<lparr>cq_front = Some 5, cq_rear = Some 6, cq_items = 2, cq_size = 3\<rparr>)"

lemma sample_queue_rep:
  "q_rep (fst sample_queue) (snd sample_queue) [5, 6]"
  "q_wf sample_queue" "q_items sample_queue = [70, 71]" "q_cap sample_queue = 3"
  by (simp_all add: sample_queue_def q_rep_def q_wf_def q_addrs_def q_item_def q_items_def q_cap_def
      eval_nat_numeral)

theorem queue_run_refines_list_witness:
  "case q_run q_enq q_deq q_rem [Deq, Rem 71, Enq None 9] sample_queue of
      None \<Rightarrow> qspec_run (q_cap sample_queue) [Deq, Rem 71, Enq (None :: addr option) 9] (q_items sample_queue) = None
    | Some (as, s') \<Rightarrow>
        qspec_run (q_cap sample_queue) [Deq, Rem 71, Enq (None :: addr option) 9] (q_items sample_queue) = Some (as, q_items s') \<and>
        q_wf s' \<and> q_cap s' = q_cap sample_queue"
  by (rule queue_run_refines_list [OF sample_queue_rep(2)]) (auto split: option.splits)

text \<open>Objects leave the queue in the order in which they were stored: in a run of
  enqueues and dequeues, what the queue held at first followed by what was stored is what was served
  followed by what is left.\<close>

theorem queue_serves_in_order:
  assumes "q_wf s" "q_valid q_fresh q_enq q_deq q_rem ops s" "\<And>x. Rem x \<notin> set ops"
  shows "\<exists>as s'. q_run q_enq q_deq q_rem ops s = Some (as, s') \<and> q_wf s' \<and>
    q_items s @ q_stored ops as = q_served as @ q_items s'"
  using lq.q_run_refines [OF assms(1,2)] qspec_run_total [OF assms(3), of "q_cap s" "q_items s"]
    qspec_run_fifo [OF _ assms(3)]
  by (fastforce split: option.splits)

theorem queue_serves_in_order_witness:
  "\<exists>as s'. q_run q_enq q_deq q_rem [Deq, Enq (Some 9) 72, Deq, Deq] sample_queue = Some (as, s') \<and> q_wf s' \<and>
    q_items sample_queue @ q_stored [Deq, Enq (Some (9::addr)) 72, Deq, Deq] as = q_served as @ q_items s'"
  by (rule queue_serves_in_order [OF sample_queue_rep(2)])
    (auto simp: q_fresh_def q_deq_def cp_dequeue_def cp_queue_is_empty_def sample_queue_def Let_def
      split: option.splits)

text \<open>The search of \<open>cp_rmqueue\<close> has no exit for an object that is not queued: on a
  non-empty well-formed queue it follows the null link of the last node.\<close>

theorem rmqueue_missing_dereferences_null:
  assumes "q_rep h q as" "as \<noteq> []" "x \<notin> set (map (q_item h) as)"
  shows "cp_rmqueue h (Some q) x = None"
  using cp_rmqueue_missing [OF assms] .

theorem rmqueue_missing_dereferences_null_witness:
  "cp_rmqueue (fst sample_queue) (Some (snd sample_queue)) (Some 99) = None"
  by (rule rmqueue_missing_dereferences_null [OF sample_queue_rep(1)])
    (auto simp: sample_queue_def q_item_def)

text \<open>\<open>cp_queue_destroy\<close> returns, and frees every node of the queue and
  nothing else; traversal before it prints every item once, in order.\<close>

theorem queue_destroy_frees_nodes:
  assumes "q_rep h q as"
  shows "cp_queue_destroy h (Some q) = Some (h |` (- set as)) \<and>
    cp_travel_queue h q = Some (map (q_item h) as)"
  using assms destroy_loop_rep [OF assms] travel_loop_seg
  by (auto simp: cp_queue_destroy_def cp_travel_queue_def q_rep_def)

theorem queue_destroy_frees_nodes_witness:
  "cp_queue_destroy (fst sample_queue) (Some (snd sample_queue)) =
     Some (fst sample_queue |` (- set [5, 6])) \<and>
   cp_travel_queue (fst sample_queue) (snd sample_queue) = Some (map (q_item (fst sample_queue)) [5, 6])"
  by (rule queue_destroy_frees_nodes [OF sample_queue_rep(1)])

end
