(* ===== verification/SlotTable.thy ===== *)
theory SlotTable
  imports Prelude
begin

text \<open>
  The contract of a table of slots with handles, as the event loop uses \<open>cp_array.c\<close> for
  its task list: adding an object answers with the index of the slot that it got, and that
  index is the handle under which the object is removed. The locale proves once that a handle stays
  valid until it is removed, whatever the other users of the table do.
\<close>

datatype 'x slot_op = SAdd 'x | SDel nat

fun st_step :: "('s \<Rightarrow> 'x \<Rightarrow> (int \<times> 's) option) \<Rightarrow> ('s \<Rightarrow> nat \<Rightarrow> 's option) \<Rightarrow> 'x slot_op \<Rightarrow> 's \<Rightarrow> 's option" where
  "st_step add del (SAdd x) s = map_option snd (add s x)"
| "st_step add del (SDel i) s = del s i"

fun st_run :: "('s \<Rightarrow> 'x \<Rightarrow> (int \<times> 's) option) \<Rightarrow> ('s \<Rightarrow> nat \<Rightarrow> 's option) \<Rightarrow> 'x slot_op list \<Rightarrow> 's \<Rightarrow> 's option" where
  "st_run add del [] s = Some s"
| "st_run add del (op # ops) s = Option.bind (st_step add del op s) (st_run add del ops)"

locale slot_table =
  fixes wf :: "'s \<Rightarrow> bool"
    and slots :: "'s \<Rightarrow> 'x option list"
    and add :: "'s \<Rightarrow> 'x \<Rightarrow> (int \<times> 's) option"
    and del :: "'s \<Rightarrow> nat \<Rightarrow> 's option"
  assumes add_ok: "wf s \<Longrightarrow> None \<in> set (slots s) \<Longrightarrow>
      \<exists>i s'. add s x = Some (int i, s') \<and> wf s' \<and> i < length (slots s) \<and> slots s ! i = None \<and>
        slots s' = (slots s)[i := Some x]"
    and add_full: "wf s \<Longrightarrow> None \<notin> set (slots s) \<Longrightarrow> add s x = Some (- 2, s)"
    and del_ok: "wf s \<Longrightarrow> i < length (slots s) \<Longrightarrow>
      \<exists>s'. del s i = Some s' \<and> wf s' \<and> slots s' = (slots s)[i := None]"
begin

lemma add_cases:
  assumes "wf s"
  obtains (stored) i s' where "add s x = Some (int i, s')" "wf s'" "i < length (slots s)"
      "slots s ! i = None" "slots s' = (slots s)[i := Some x]"
    | (full) "add s x = Some (- 2, s)" "None \<notin> set (slots s)"
proof (cases "None \<in> set (slots s)")
  case True
  then show thesis using add_ok [OF assms, of x] stored by blast
next
  case False
  then show thesis using add_full [OF assms, of x] full by blast
qed

lemma step_keeps:
  assumes "wf s" "slots s ! h = Some y" "h < length (slots s)"
    "\<And>i. op = SDel i \<Longrightarrow> i < length (slots s) \<and> i \<noteq> h"
  shows "\<exists>s'. st_step add del op s = Some s' \<and> wf s' \<and> slots s' ! h = Some y \<and> length (slots s') = length (slots s)"
proof (cases op)
  case (SAdd x)
  show ?thesis using assms(1)
  proof (cases rule: add_cases [where x = x])
    case (stored i s')
    have "i \<noteq> h" using assms(2) stored(4) by auto
    then show ?thesis using SAdd stored assms by auto
  next
    case full
    then show ?thesis using SAdd assms by simp
  qed
next
  case (SDel i)
  then have "i < length (slots s)" "i \<noteq> h" using assms(4) by auto
  then show ?thesis using SDel del_ok [OF assms(1), of i] assms(2) by auto
qed

lemma handle_stable:
  "wf s \<Longrightarrow> slots s ! h = Some y \<Longrightarrow> h < length (slots s)
   \<Longrightarrow> (\<forall>i. SDel i \<in> set ops \<longrightarrow> i < length (slots s) \<and> i \<noteq> h)
   \<Longrightarrow> \<exists>s'. st_run add del ops s = Some s' \<and> wf s' \<and> slots s' ! h = Some y \<and> length (slots s') = length (slots s)"
proof (induction ops arbitrary: s)
  case (Cons op ops)
  have "\<And>i. op = SDel i \<Longrightarrow> i < length (slots s) \<and> i \<noteq> h" using Cons.prems(4) by auto
  then obtain s1 where s1: "st_step add del op s = Some s1" "wf s1" "slots s1 ! h = Some y"
    "length (slots s1) = length (slots s)"
    using step_keeps [OF Cons.prems(1,2,3)] by blast
  then show ?case using Cons.IH [of s1] Cons.prems(3,4) by auto
qed simp

end

end
