(* ===== verification/CpArray.thy ===== *)
theory CpArray
  imports SlotTable
begin

text \<open>
  The pointer array of \<open>cp_library/cp_array.c\<close> and the vector of
  \<open>cp_library/cp_vector.c\<close>. A pointer is an option, \<^const>\<open>None\<close> being \<open>NULL\<close>; the block
  \<open>data\<close> (or \<open>mem\<close>) is the list of its cells. An initialisation answers
  \<open>Some None\<close> when it returns \<open>NULL\<close>. The arguments \<open>ok\<close> are the outcomes of the allocations.
\<close>

section \<open>The array\<close>

definition CP_ARRAY_FLAG_MALLOC :: u8 where
  "CP_ARRAY_FLAG_MALLOC = push_bit 0 1"

record 'a cp_array =
  ar_flag :: u8
  ar_size :: int
  ar_items :: int
  ar_data :: "'a option list"

definition cp_array_is_full :: "'a cp_array \<Rightarrow> bool" where
  "cp_array_is_full arr \<longleftrightarrow> ar_size arr - 1 = ar_items arr"

definition cp_array_is_empty :: "'a cp_array \<Rightarrow> bool" where
  "cp_array_is_empty arr \<longleftrightarrow> 0 = ar_items arr"

definition cp_array_count :: "'a cp_array \<Rightarrow> int" where
  "cp_array_count arr = ar_items arr"

definition cp_array_size :: "'a cp_array \<Rightarrow> int" where
  "cp_array_size arr = ar_size arr - 1"

text \<open>\<open>ok1\<close> is the allocation of the struct (used when the caller passes \<open>NULL\<close>), \<open>ok2\<close>
  that of the cells.\<close>

definition cp_array_init :: "bool \<Rightarrow> bool \<Rightarrow> bool \<Rightarrow> int \<Rightarrow> 'a cp_array option" where
  "cp_array_init given ok1 ok2 size' =
     (if \<not> given \<and> \<not> ok1 then None
      else let flag = (if given then 0 else 0 OR CP_ARRAY_FLAG_MALLOC)
           in if \<not> ok2 then None
              else Some \<lparr>ar_flag = flag, ar_size = size', ar_items = 0,
                         ar_data = replicate (nat size') None\<rparr>)"

text \<open>The loop of \<open>cp_list_array_for_each\<close>, left at the first entry with \<open>P\<close>: the entry
  is read before the body, and that of index 0 before the test of the loop.\<close>

function for_each_until :: "('a option \<Rightarrow> bool) \<Rightarrow> 'a cp_array \<Rightarrow> int \<Rightarrow> 'a option \<Rightarrow> int option" where
  "for_each_until P arr i entry =
     (if i < ar_size arr
      then if P entry then Some i
           else do {
             e \<leftarrow> (if i + 1 < ar_size arr then rd (ar_data arr) (nat (i + 1)) else Some None);
             for_each_until P arr (i + 1) e }
      else Some i)"
  by pat_completeness auto
termination by (relation "measure (\<lambda>(P, arr, i, e). nat (ar_size arr - i))") auto

declare for_each_until.simps [simp del]

definition cp_list_array_for_each :: "('a option \<Rightarrow> bool) \<Rightarrow> 'a cp_array \<Rightarrow> int option" where
  "cp_list_array_for_each P arr = do { e \<leftarrow> rd (ar_data arr) 0; for_each_until P arr 0 e }"

definition cp_array_add :: "'a cp_array option \<Rightarrow> 'a option \<Rightarrow> (int \<times> 'a cp_array option) option" where
  "cp_array_add array data =
     (case array of None \<Rightarrow> Some (- 1, array) | Some arr \<Rightarrow>
        if data = None then Some (- 1, array)
        else if ar_items arr \<ge> ar_size arr then Some (- 2, array)
        else do {
          i \<leftarrow> cp_list_array_for_each (\<lambda>entry. entry = None) arr;
          if i < ar_size arr
          then do {
            d \<leftarrow> wr (ar_data arr) (nat i) data;
            Some (i, Some (arr\<lparr>ar_data := d, ar_items := ar_items arr + 1\<rparr>)) }
          else Some (i, array) })"

definition cp_array_rm_byindex :: "'a cp_array option \<Rightarrow> int \<Rightarrow> 'a cp_array option option" where
  "cp_array_rm_byindex array index =
     (case array of None \<Rightarrow> Some array | Some arr \<Rightarrow>
        if index < 0 then Some array
        else do {
          e \<leftarrow> rd (ar_data arr) (nat index);
          if e \<noteq> None
          then do {
            d \<leftarrow> wr (ar_data arr) (nat index) None;
            Some (Some (arr\<lparr>ar_items := ar_items arr - 1, ar_data := d\<rparr>)) }
          else Some array })"

definition cp_array_rm_bydata :: "'a cp_array option \<Rightarrow> 'a option \<Rightarrow> (int \<times> 'a cp_array option) option" where
  "cp_array_rm_bydata array data =
     (case array of None \<Rightarrow> Some (- 1, array) | Some arr \<Rightarrow>
        if data = None then Some (- 1, array)
        else if ar_items arr \<le> 0 then Some (- 2, array)
        else do {
          i \<leftarrow> cp_list_array_for_each (\<lambda>entry. entry = data) arr;
          if i < ar_size arr
          then do {
            d \<leftarrow> wr (ar_data arr) (nat i) None;
            Some (0, Some (arr\<lparr>ar_items := ar_items arr - 1, ar_data := d\<rparr>)) }
          else Some (- 3, array) })"

text \<open>Which of the two blocks are freed, the cells and the struct.\<close>

definition cp_array_term :: "'a cp_array option \<Rightarrow> bool \<times> bool" where
  "cp_array_term array =
     (case array of None \<Rightarrow> (False, False) | Some arr \<Rightarrow> (True, ar_flag arr AND CP_ARRAY_FLAG_MALLOC \<noteq> 0))"

text \<open>It only prints every cell.\<close>

definition cp_array_travel :: "'a cp_array \<Rightarrow> int option" where
  "cp_array_travel arr = cp_list_array_for_each (\<lambda>_. False) arr"

subsection \<open>The invariant\<close>

definition ar_wf :: "'a cp_array \<Rightarrow> bool" where
  "ar_wf arr \<longleftrightarrow> ar_size arr = int (length (ar_data arr)) \<and> ar_items arr = int (used_slots (ar_data arr))"

lemma for_each_until_first:
  "ar_size arr = int (length (ar_data arr)) \<Longrightarrow> k < length (ar_data arr)
   \<Longrightarrow> for_each_until P arr (int k) (ar_data arr ! k) = Some (int (k + first_slot P (drop k (ar_data arr))))"
proof (induction "length (ar_data arr) - k" arbitrary: k)
  case (Suc n)
  let ?d = "ar_data arr"
  have dr: "drop k ?d = ?d ! k # drop (Suc k) ?d" using Suc.prems by (simp add: Cons_nth_drop_Suc)
  have n: "nat (int k + 1) = Suc k" by simp
  show ?case
  proof (cases "P (?d ! k) \<or> Suc k = length ?d")
    case True
    then show ?thesis using Suc.prems dr
      by (subst for_each_until.simps) (auto simp: for_each_until.simps [of P arr "int k + 1"])
  next
    case False
    with Suc.prems have k: "Suc k < length ?d" by simp
    then have "for_each_until P arr (int (Suc k)) (?d ! Suc k) =
        Some (int (Suc k + first_slot P (drop (Suc k) ?d)))"
      using Suc.hyps(1) [of "Suc k"] Suc.hyps(2) Suc.prems by simp
    then show ?thesis
      using False Suc.prems(1) k dr n by (subst for_each_until.simps) (simp add: add.commute)
  qed
qed simp

lemma for_each_first:
  "ar_size arr = int (length (ar_data arr)) \<Longrightarrow> ar_data arr \<noteq> [] \<Longrightarrow>
   cp_list_array_for_each P arr = Some (int (first_slot P (ar_data arr)))"
  using for_each_until_first [of arr 0 P] by (simp add: cp_list_array_for_each_def)

lemma cp_array_init_wf:
  "0 \<le> n \<Longrightarrow> cp_array_init given ok1 ok2 n = Some arr
   \<Longrightarrow> ar_wf arr \<and> ar_data arr = replicate (nat n) None"
  by (auto simp: cp_array_init_def ar_wf_def split: if_splits)

lemma cp_array_add_stored:
  assumes "ar_wf arr" "None \<in> set (ar_data arr)"
  defines "i \<equiv> first_slot (\<lambda>e. e = None) (ar_data arr)"
  shows "\<exists>arr'. cp_array_add (Some arr) (Some x) = Some (int i, Some arr') \<and> ar_wf arr' \<and>
    i < length (ar_data arr) \<and> ar_data arr ! i = None \<and> ar_data arr' = (ar_data arr)[i := Some x]"
proof -
  have i: "i < length (ar_data arr)" using assms(2) by (auto simp: i_def first_slot_less_iff)
  then have n: "ar_data arr ! i = None" unfolding i_def by (rule first_slot_nth)
  have "used_slots (ar_data arr) < length (ar_data arr)"
    using assms(2) used_slots_full_iff used_slots_le by (metis le_neq_implies_less)
  moreover have "ar_data arr \<noteq> []" using i by auto
  then have "cp_list_array_for_each (\<lambda>e. e = None) arr = Some (int i)"
    using assms(1) for_each_first [of arr "\<lambda>e. e = None"] by (simp add: ar_wf_def i_def)
  ultimately show ?thesis
    using assms(1) i n used_slots_update [OF i, of "Some x"]
    by (simp add: cp_array_add_def ar_wf_def)
qed

lemma cp_array_add_full:
  "ar_wf arr \<Longrightarrow> None \<notin> set (ar_data arr) \<Longrightarrow>
   cp_array_add (Some arr) (Some x) = Some (- 2, Some arr)"
  by (simp add: cp_array_add_def ar_wf_def used_slots_full_iff [symmetric])

lemma cp_array_rm_byindex_wf:
  assumes "ar_wf arr" "i < length (ar_data arr)"
  shows "\<exists>arr'. cp_array_rm_byindex (Some arr) (int i) = Some (Some arr') \<and> ar_wf arr' \<and>
    ar_data arr' = (ar_data arr)[i := None]"
proof (cases "ar_data arr ! i")
  case None
  then show ?thesis
    using assms by (simp add: cp_array_rm_byindex_def) (metis list_update_id)
next
  case (Some x)
  then show ?thesis
    using assms used_slots_update [OF assms(2), of None]
    by (auto simp: cp_array_rm_byindex_def ar_wf_def)
qed

definition ar_add :: "'a cp_array \<Rightarrow> 'a \<Rightarrow> (int \<times> 'a cp_array) option" where
  "ar_add arr x = do { (i, a) \<leftarrow> cp_array_add (Some arr) (Some x); a \<leftarrow> a; Some (i, a) }"

definition ar_del :: "'a cp_array \<Rightarrow> nat \<Rightarrow> 'a cp_array option" where
  "ar_del arr i = do { a \<leftarrow> cp_array_rm_byindex (Some arr) (int i); a }"

interpretation ar: slot_table ar_wf ar_data ar_add ar_del
proof
  fix s :: "'a cp_array" and x i
  assume wf: "ar_wf s"
  show "\<exists>i s'. ar_add s x = Some (int i, s') \<and> ar_wf s' \<and> i < length (ar_data s) \<and>
      ar_data s ! i = None \<and> ar_data s' = (ar_data s)[i := Some x]" if "None \<in> set (ar_data s)"
    using cp_array_add_stored [OF wf that, of x] by (auto simp: ar_add_def)
  show "ar_add s x = Some (- 2, s)" if "None \<notin> set (ar_data s)"
    using cp_array_add_full [OF wf that, of x] by (simp add: ar_add_def)
  show "\<exists>s'. ar_del s i = Some s' \<and> ar_wf s' \<and> ar_data s' = (ar_data s)[i := None]"
    if "i < length (ar_data s)"
    using cp_array_rm_byindex_wf [OF wf that] by (auto simp: ar_del_def)
qed

section \<open>The vector\<close>

record 'a cp_vector =
  v_size :: int
  v_used :: int
  v_mem :: "'a option list"

text \<open>\<open>t_malloc\<close> clears the block, so the following \<open>memset\<close> of \<open>size\<close> bytes
  changes nothing.\<close>

definition cp_vector_init :: "bool \<Rightarrow> bool \<Rightarrow> int \<Rightarrow> 'a cp_vector option" where
  "cp_vector_init ok1 ok2 size' =
     (if size' < 0 then None
      else if \<not> ok1 then None
      else if \<not> ok2 then None
      else Some \<lparr>v_size = size', v_used = 0, v_mem = replicate (nat size') None\<rparr>)"

definition cp_vector_add ::
  "'a cp_vector \<Rightarrow> int \<Rightarrow> 'a option \<Rightarrow> ('a option \<times> 'a cp_vector) option" where
  "cp_vector_add vector index item =
     (if index < 0 \<or> index > v_size vector then Some (None, vector)
      else do {
        mem \<leftarrow> wr (v_mem vector) (nat index) item;
        Some (item, vector\<lparr>v_mem := mem, v_used := v_used vector + 1\<rparr>) })"

definition cp_vector_del :: "'a cp_vector \<Rightarrow> int \<Rightarrow> ('a option \<times> 'a cp_vector) option" where
  "cp_vector_del vector index =
     (if index < 0 \<or> index > v_size vector then Some (None, vector)
      else do {
        save \<leftarrow> rd (v_mem vector) (nat index);
        mem \<leftarrow> wr (v_mem vector) (nat index) None;
        Some (save, vector\<lparr>v_mem := mem, v_used := v_used vector - 1\<rparr>) })"

definition cp_vector_get :: "'a cp_vector \<Rightarrow> int \<Rightarrow> 'a option option" where
  "cp_vector_get vector index =
     (if index < 0 \<or> index > v_size vector then Some None
      else rd (v_mem vector) (nat index))"

definition cp_vector_destroy :: "'a cp_vector option \<Rightarrow> bool \<times> bool" where
  "cp_vector_destroy vector = (case vector of None \<Rightarrow> (False, False) | Some v \<Rightarrow> (True, True))"

definition v_wf :: "'a cp_vector \<Rightarrow> bool" where
  "v_wf v \<longleftrightarrow> v_size v = int (length (v_mem v))"

section \<open>Properties\<close>

definition sample_array :: "nat cp_array" where
  "sample_array = \<lparr>ar_flag = 1, ar_size = 3, ar_items = 2, ar_data = [Some 7, None, Some 9]\<rparr>"

lemma sample_array_wf: "ar_wf sample_array"
  by (simp add: sample_array_def ar_wf_def)

text \<open>On an array whose counter counts the cells in use, \<open>cp_array_add\<close> of an object
  stores it in the first free cell, answers with its index and counts it; it answers -2 and
  changes nothing exactly when no cell is free. In both cases the array stays well formed.\<close>

theorem array_add_functional:
  assumes "ar_wf arr"
  shows "\<exists>i arr'. cp_array_add (Some arr) (Some x) = Some (i, Some arr') \<and> ar_wf arr' \<and>
    (if None \<in> set (ar_data arr)
     then 0 \<le> i \<and> i < ar_size arr \<and> ar_data arr ! nat i = None \<and>
       (\<forall>j < nat i. ar_data arr ! j \<noteq> None) \<and> ar_data arr' = (ar_data arr)[nat i := Some x]
     else i = - 2 \<and> arr' = arr)"
proof (cases "None \<in> set (ar_data arr)")
  case True
  then show ?thesis
    using cp_array_add_stored [OF assms True, of x] first_slot_least [of _ "\<lambda>e. e = None" "ar_data arr"] assms
    by (auto simp: ar_wf_def)
next
  case False
  then show ?thesis using cp_array_add_full [OF assms False, of x] assms by simp
qed

theorem array_add_functional_witness:
  "\<exists>i arr'. cp_array_add (Some sample_array) (Some 5) = Some (i, Some arr') \<and> ar_wf arr' \<and>
    (if None \<in> set (ar_data sample_array)
     then 0 \<le> i \<and> i < ar_size sample_array \<and> ar_data sample_array ! nat i = None \<and>
       (\<forall>j < nat i. ar_data sample_array ! j \<noteq> None) \<and>
       ar_data arr' = (ar_data sample_array)[nat i := Some 5]
     else i = - 2 \<and> arr' = sample_array)"
  by (rule array_add_functional [OF sample_array_wf])

text \<open>Removal by content clears the first cell that holds the object and answers 0; on
  an empty array it answers -2, for an object that is not there -3, and then changes
  nothing.\<close>

theorem array_rm_bydata_functional:
  assumes "ar_wf arr"
  shows "\<exists>rv arr'. cp_array_rm_bydata (Some arr) (Some x) = Some (rv, Some arr') \<and> ar_wf arr' \<and>
    (if Some x \<in> set (ar_data arr)
     then rv = 0 \<and> ar_data arr' = (ar_data arr)[first_slot (\<lambda>e. e = Some x) (ar_data arr) := None]
     else arr' = arr \<and> rv = (if \<forall>e \<in> set (ar_data arr). e = None then - 2 else - 3))"
proof (cases "\<forall>e \<in> set (ar_data arr). e = None")
  case True
  then show ?thesis using assms used_slots_zero_iff by (auto simp: cp_array_rm_bydata_def ar_wf_def)
next
  case False
  let ?i = "first_slot (\<lambda>e. e = Some x) (ar_data arr)"
  have "used_slots (ar_data arr) \<noteq> 0" "ar_data arr \<noteq> []" using False by (auto simp: used_slots_zero_iff)
  then have scan: "cp_array_rm_bydata (Some arr) (Some x) =
      (if int ?i < ar_size arr then do {
         d \<leftarrow> wr (ar_data arr) ?i None;
         Some (0, Some (arr\<lparr>ar_items := ar_items arr - 1, ar_data := d\<rparr>)) }
       else Some (- 3, Some arr))"
    using assms for_each_first [of arr "\<lambda>e. e = Some x"] by (simp add: cp_array_rm_bydata_def ar_wf_def)
  show ?thesis
  proof (cases "Some x \<in> set (ar_data arr)")
    case True
    then have i: "?i < length (ar_data arr)" by (auto simp: first_slot_less_iff)
    then have "ar_data arr ! ?i = Some x" by (rule first_slot_nth)
    then show ?thesis
      using scan i True assms used_slots_update [OF i, of None] by (simp add: ar_wf_def)
  next
    case notin: False
    then have "\<not> ?i < length (ar_data arr)" by (auto simp: first_slot_less_iff)
    then show ?thesis using scan notin False assms by (auto simp: ar_wf_def)
  qed
qed

theorem array_rm_bydata_functional_witness:
  "\<exists>rv arr'. cp_array_rm_bydata (Some sample_array) (Some 9) = Some (rv, Some arr') \<and> ar_wf arr' \<and>
    (if Some 9 \<in> set (ar_data sample_array)
     then rv = 0 \<and> ar_data arr' =
       (ar_data sample_array)[first_slot (\<lambda>e. e = Some 9) (ar_data sample_array) := None]
     else arr' = sample_array \<and> rv = (if \<forall>e \<in> set (ar_data sample_array). e = None then - 2 else - 3))"
  by (rule array_rm_bydata_functional [OF sample_array_wf])

text \<open>The bound checks of the vector are off by one: at the index equal to its size every
  operation of a vector accesses the cell behind its block, while at every other index
  it is defined.\<close>

theorem vector_bound_off_by_one:
  assumes "v_wf v"
  shows "(cp_vector_get v i = None \<longleftrightarrow> i = v_size v) \<and> (cp_vector_add v i x = None \<longleftrightarrow> i = v_size v) \<and>
    (cp_vector_del v i = None \<longleftrightarrow> i = v_size v)"
  using assms
  by (auto simp: v_wf_def cp_vector_get_def cp_vector_add_def cp_vector_del_def rd_def wr_def)

theorem vector_bound_off_by_one_witness:
  "let v = \<lparr>v_size = 2, v_used = 0, v_mem = [None, Some (1::nat)]\<rparr> in
   (cp_vector_get v 2 = None \<longleftrightarrow> 2 = v_size v) \<and> (cp_vector_add v 2 None = None \<longleftrightarrow> 2 = v_size v) \<and>
    (cp_vector_del v 2 = None \<longleftrightarrow> 2 = v_size v)"
  unfolding Let_def by (rule vector_bound_off_by_one) (simp add: v_wf_def)

text \<open>C10. The handle that \<open>cp_array_add\<close> answered stays the place of its object: whatever
  objects are added and whatever other handles are removed afterwards, the cell still holds the
  object.\<close>

theorem array_handle_stable:
  assumes "ar_wf arr" "ar_add arr x = Some (i, arr1)" "0 \<le> i"
    "\<forall>j. SDel j \<in> set ops \<longrightarrow> j < length (ar_data arr) \<and> j \<noteq> nat i"
  shows "\<exists>arr2. st_run ar_add ar_del ops arr1 = Some arr2 \<and> ar_wf arr2 \<and> ar_data arr2 ! nat i = Some x"
proof -
  from assms(1) show ?thesis
  proof (cases rule: ar.add_cases [where x = x])
    case (stored j s')
    then have "i = int j" "arr1 = s'" using assms(2) by simp_all
    then show ?thesis
      using stored assms(4) ar.handle_stable [of arr1 j x ops] by (auto simp: ar_wf_def)
  qed (use assms(2,3) in simp)
qed

theorem array_handle_stable_witness:
  "\<exists>arr2. st_run ar_add ar_del [SAdd 6, SDel 0] (sample_array\<lparr>ar_data := [Some 7, Some 5, Some 9], ar_items := 3\<rparr>)
     = Some arr2 \<and> ar_wf arr2 \<and> ar_data arr2 ! nat 1 = Some 5"
  by (rule array_handle_stable [OF sample_array_wf])
    (auto simp: sample_array_def ar_add_def cp_array_add_def cp_list_array_for_each_def
      for_each_until.simps)

end
