(* ===== verification/CString.thy ===== *)
theory CString
  imports Prelude "HOL-Library.Char_ord"
begin

text \<open>
  The parts of the C library on strings that the code uses: character classes of the C
  locale, the conversions of \<open>sscanf\<close>, \<open>strtol\<close>, paddings of \<open>printf\<close>. A C string is the
  list of its characters before the terminating zero. A \<open>char\<close> of the target is unsigned.
\<close>

named_theorems cstr_simps \<open>unfolding of the string functions on concrete strings\<close>

section \<open>Characters\<close>

abbreviation (input) nl :: char where "nl \<equiv> CHR 0x0A"

definition c_isspace :: "char \<Rightarrow> bool" where
  "c_isspace c \<longleftrightarrow> c = CHR '' '' \<or> c = CHR 0x09 \<or> c = CHR 0x0A \<or> c = CHR 0x0B \<or> c = CHR 0x0C \<or> c = CHR 0x0D"

definition c_isdigit :: "char \<Rightarrow> bool" where
  "c_isdigit c \<longleftrightarrow> 48 \<le> (of_char c :: nat) \<and> (of_char c :: nat) \<le> 57"

definition c_isupper :: "char \<Rightarrow> bool" where
  "c_isupper c \<longleftrightarrow> 65 \<le> (of_char c :: nat) \<and> (of_char c :: nat) \<le> 90"

definition c_islower :: "char \<Rightarrow> bool" where
  "c_islower c \<longleftrightarrow> 97 \<le> (of_char c :: nat) \<and> (of_char c :: nat) \<le> 122"

definition c_tolower :: "char \<Rightarrow> char" where
  "c_tolower c = (if c_isupper c then char_of ((of_char c :: nat) + 32) else c)"

definition c_toupper :: "char \<Rightarrow> char" where
  "c_toupper c = (if c_islower c then char_of ((of_char c :: nat) - 32) else c)"

lemmas c_char_defs [cstr_simps] =
  c_isspace_def c_isdigit_def c_isupper_def c_islower_def c_tolower_def c_toupper_def

section \<open>Strings\<close>

text \<open>The string in a buffer: everything before the first zero. A pointer into a string
  may go up to its terminating zero, not further.\<close>

definition cstr :: "string \<Rightarrow> string" where
  "cstr b = takeWhile (\<lambda>c. c \<noteq> CHR 0x00) b"

definition c_suffix :: "string \<Rightarrow> nat \<Rightarrow> string option" where
  "c_suffix s off = (if off \<le> length s then Some (drop off s) else None)"

definition strip_left :: "string \<Rightarrow> string" where
  "strip_left s = dropWhile c_isspace s"

definition strip_right :: "string \<Rightarrow> string" where
  "strip_right s = rev (dropWhile c_isspace (rev s))"

definition strncmp_eq :: "string \<Rightarrow> string \<Rightarrow> nat \<Rightarrow> bool" where
  "strncmp_eq a b n \<longleftrightarrow> take n a = take n b"

definition pad_left :: "nat \<Rightarrow> string \<Rightarrow> string" where
  "pad_left n s = replicate (n - length s) (CHR '' '') @ s"

definition pad_right :: "nat \<Rightarrow> string \<Rightarrow> string" where
  "pad_right n s = s @ replicate (n - length s) (CHR '' '')"

lemmas c_string_defs [cstr_simps] =
  cstr_def c_suffix_def strip_left_def strip_right_def strncmp_eq_def

lemma strip_right_length: "length (strip_right s) \<le> length s"
  unfolding strip_right_def by (metis length_dropWhile_le length_rev)

lemma strip_left_length: "length (strip_left s) \<le> length s"
  by (simp add: strip_left_def length_dropWhile_le)

lemma strip_right_append_nonspace: "\<not> c_isspace c \<Longrightarrow> strip_right (s @ [c]) = s @ [c]"
  by (simp add: strip_right_def)

lemma strip_right_append_space: "c_isspace c \<Longrightarrow> strip_right (s @ [c]) = strip_right s"
  by (simp add: strip_right_def)

lemma strip_right_id: "s = [] \<or> \<not> c_isspace (last s) \<Longrightarrow> strip_right s = s"
  by (cases s rule: rev_cases) (auto simp: strip_right_def)

lemma strip_right_last: "strip_right s \<noteq> [] \<Longrightarrow> \<not> c_isspace (last (strip_right s))"
proof -
  assume "strip_right s \<noteq> []"
  then have "dropWhile c_isspace (rev s) \<noteq> []" by (simp add: strip_right_def)
  then show ?thesis using hd_dropWhile [of c_isspace "rev s"] by (simp add: strip_right_def last_rev)
qed

lemma strip_left_id: "s = [] \<or> \<not> c_isspace (hd s) \<Longrightarrow> strip_left s = s"
  by (cases s) (auto simp: strip_left_def)

section \<open>Conversions of sscanf\<close>

definition scan_ws :: "string \<Rightarrow> string" where
  "scan_ws s = dropWhile c_isspace s"

definition scan_lit :: "char \<Rightarrow> string \<Rightarrow> string option" where
  "scan_lit c s = (case s of x # xs \<Rightarrow> if x = c then Some xs else None | [] \<Rightarrow> None)"

text \<open>\<open>%[...]\<close>: the longest non-empty prefix of characters of the set.\<close>

definition scan_set :: "(char \<Rightarrow> bool) \<Rightarrow> string \<Rightarrow> (string \<times> string) option" where
  "scan_set P s = (let m = takeWhile P s in if m = [] then None else Some (m, drop (length m) s))"

lemmas scan_defs [cstr_simps] = scan_ws_def scan_lit_def scan_set_def

section \<open>strtol\<close>

definition digit_val :: "char \<Rightarrow> nat option" where
  "digit_val c =
     (if c_isdigit c then Some (of_char c - 48)
      else if c_islower c then Some (of_char c - 87)
      else if c_isupper c then Some (of_char c - 55) else None)"

fun digits_val :: "nat \<Rightarrow> int \<Rightarrow> string \<Rightarrow> int" where
  "digits_val b acc [] = acc"
| "digits_val b acc (c # cs) =
     (case digit_val c of
        Some v \<Rightarrow> if v < b then digits_val b (acc * int b + int v) cs else acc
      | None \<Rightarrow> acc)"

text \<open>A \<open>long\<close> of the target has 32 bits; \<open>strtol\<close> saturates at its bounds.\<close>

definition LONG_MAX :: int where
  "LONG_MAX = 2147483647"

definition clamp_long :: "int \<Rightarrow> int" where
  "clamp_long x = max (- LONG_MAX - 1) (min LONG_MAX x)"

text \<open>\<open>strtol(s, NULL, 0)\<close>: the base is that of the prefix. After \<open>0x\<close> without a hexadecimal
  digit the number is the zero before the \<open>x\<close>.\<close>

definition strtol0 :: "string \<Rightarrow> int" where
  "strtol0 s =
     (let s = strip_left s;
          neg = (take 1 s = ''-'');
          s = (if take 1 s = ''-'' \<or> take 1 s = ''+'' then drop 1 s else s);
          v = (if take 2 s = ''0x'' \<or> take 2 s = ''0X'' then digits_val 16 0 (drop 2 s)
               else if take 1 s = ''0'' then digits_val 8 0 s
               else digits_val 10 0 s)
      in clamp_long (if neg then - v else v))"

text \<open>\<open>atoi(s)\<close>, which is \<open>strtol(s, NULL, 10)\<close>.\<close>

definition atoi :: "string \<Rightarrow> int" where
  "atoi s =
     (let s = strip_left s;
          neg = (take 1 s = ''-'');
          s = (if take 1 s = ''-'' \<or> take 1 s = ''+'' then drop 1 s else s);
          v = digits_val 10 0 s
      in clamp_long (if neg then - v else v))"

section \<open>Lines of fields\<close>

text \<open>A line of fields with a delimiter between them.\<close>

fun csv :: "char \<Rightarrow> string list \<Rightarrow> string" where
  "csv d [] = []"
| "csv d [x] = x"
| "csv d (x # xs) = x @ d # csv d xs"

lemma csv_Cons: "xs \<noteq> [] \<Longrightarrow> csv d (x # xs) = x @ d # csv d xs"
  by (cases xs) auto

end
