(* ===== verification/Dictionary.thy ===== *)
theory Dictionary
  imports CString
begin

text \<open>
  The string dictionary of \<open>cp_library/cp_dictionary.c\<close>: three parallel blocks of keys,
  values and hashes, that double when all slots are used. A C string is the list of its characters
  without the terminating zero, \<open>NULL\<close> is \<^const>\<open>None\<close>; a block that is \<open>NULL\<close> is the empty list,
  in which every access is undefined. The argument \<open>ok\<close> of the operations that allocate gives the
  outcome of each of their allocations.

  The dictionary provides the contract \<open>string_dict\<close> of a finite map, which the ini file
  parser relies on.
\<close>

section \<open>The contract\<close>

text \<open>The value of a key may be \<open>NULL\<close>: the abstract dictionary maps a key to a string option.\<close>

type_synonym dict_abs = "string \<rightharpoonup> string option"

text \<open>A \<open>char *\<close> that a lookup may return: the marker \<open>(char *) -1\<close> of the code, or a
  string or \<open>NULL\<close>.\<close>

datatype charp = Invalid | Ptr "string option"

fun put_all :: "('d \<Rightarrow> string \<Rightarrow> string option \<Rightarrow> 'd option) \<Rightarrow> (string \<times> string option) list \<Rightarrow> 'd \<Rightarrow> 'd option" where
  "put_all put [] d = Some d"
| "put_all put ((k, v) # kvs) d = Option.bind (put d k v) (put_all put kvs)"

locale string_dict =
  fixes wf :: "'d \<Rightarrow> bool"
    and abs :: "'d \<Rightarrow> dict_abs"
    and get :: "'d \<Rightarrow> string \<Rightarrow> charp \<Rightarrow> charp option"
    and put :: "'d \<Rightarrow> string \<Rightarrow> string option \<Rightarrow> 'd option"
    and unset :: "'d \<Rightarrow> string \<Rightarrow> 'd option"
  assumes get_ok: "wf d \<Longrightarrow> get d k def = Some (case abs d k of Some v \<Rightarrow> Ptr v | None \<Rightarrow> def)"
    and put_ok: "wf d \<Longrightarrow> \<exists>d'. put d k v = Some d' \<and> wf d' \<and> abs d' = (abs d)(k \<mapsto> v)"
    and unset_ok: "wf d \<Longrightarrow> \<exists>d'. unset d k = Some d' \<and> wf d' \<and> abs d' = (abs d)(k := None)"
begin

lemma put_all_abs:
  "wf d \<Longrightarrow> \<exists>d'. put_all put kvs d = Some d' \<and> wf d' \<and> abs d' = abs d ++ map_of (rev kvs)"
proof (induction kvs arbitrary: d)
  case (Cons kv kvs)
  obtain k v where kv: "kv = (k, v)" by (cases kv)
  obtain d1 where d1: "put d k v = Some d1" "wf d1" "abs d1 = (abs d)(k \<mapsto> v)"
    using put_ok [OF Cons.prems] by blast
  obtain d2 where d2: "put_all put kvs d1 = Some d2" "wf d2" "abs d2 = abs d1 ++ map_of (rev kvs)"
    using Cons.IH [OF d1(2)] by blast
  have "abs d2 = abs d ++ map_of (rev (kv # kvs))"
    unfolding d2(3) d1(3) kv by (simp add: map_add_upd_left)
  then show ?case using kv d1 d2 by simp
qed simp

lemma get_after_put:
  assumes "wf d" "put d k v = Some d'"
  shows "get d' k' def = (if k' = k then Some (Ptr v) else get d k' def)"
proof -
  have "wf d'" "abs d' = (abs d)(k \<mapsto> v)" using put_ok [OF assms(1), of k v] assms(2) by auto
  then show ?thesis using get_ok [OF assms(1)] get_ok [of d'] by simp
qed

lemma get_after_unset:
  assumes "wf d" "unset d k = Some d'"
  shows "get d' k' def = (if k' = k then Some def else get d k' def)"
proof -
  have "wf d'" "abs d' = (abs d)(k := None)" using unset_ok [OF assms(1), of k] assms(2) by auto
  then show ?thesis using get_ok [OF assms(1)] get_ok [of d'] by simp
qed

end

section \<open>The operations\<close>

definition DICTMINSZ :: int where
  "DICTMINSZ = 128"

record dictionary =
  d_n :: int
  d_size :: int
  d_val :: "string option list"
  d_key :: "string option list"
  d_hash :: "u32 list"

definition mem_double :: "bool \<Rightarrow> 'a \<Rightarrow> 'a list \<Rightarrow> int \<Rightarrow> 'a list option option" where
  "mem_double ok zero ptr size' =
     (if \<not> ok then Some None
      else do { xs \<leftarrow> rd_slice ptr 0 (nat size'); Some (Some (xs @ replicate (nat size') zero)) })"

definition xstrdup :: "bool \<Rightarrow> string option \<Rightarrow> string option" where
  "xstrdup ok s = (case s of None \<Rightarrow> None | Some cs \<Rightarrow> if ok then Some cs else None)"

text \<open>A \<open>char\<close> of the target is unsigned.\<close>

fun hash_loop :: "u32 \<Rightarrow> string \<Rightarrow> u32" where
  "hash_loop hash [] = hash"
| "hash_loop hash (c # cs) =
     (let hash = hash + of_char c;
          hash = hash + push_bit 10 hash;
          hash = hash XOR drop_bit 6 hash
      in hash_loop hash cs)"

definition dictionary_hash :: "string \<Rightarrow> u32" where
  "dictionary_hash key =
     (let hash = hash_loop 0 key;
          hash = hash + push_bit 3 hash;
          hash = hash XOR drop_bit 11 hash
      in hash + push_bit 15 hash)"

text \<open>Only the first allocation is checked; the others leave a null block.\<close>

definition dictionary_new :: "(nat \<Rightarrow> bool) \<Rightarrow> int \<Rightarrow> dictionary option" where
  "dictionary_new ok size0 =
     (let size' = (if size0 < DICTMINSZ then DICTMINSZ else size0)
      in if \<not> ok 0 then None
         else Some \<lparr>d_n = 0, d_size = size',
                d_val = (if ok 1 then replicate (nat size') None else []),
                d_key = (if ok 2 then replicate (nat size') None else []),
                d_hash = (if ok 3 then replicate (nat size') 0 else [])\<rparr>)"

text \<open>The search loop of the three operations: the index of the key, or the size.\<close>

function dict_find :: "dictionary \<Rightarrow> string \<Rightarrow> u32 \<Rightarrow> nat \<Rightarrow> nat option" where
  "dict_find d key hash i =
     (if int i < d_size d
      then do {
        ki \<leftarrow> rd (d_key d) i;
        case ki of None \<Rightarrow> dict_find d key hash (Suc i)
        | Some k \<Rightarrow> do {
            hi \<leftarrow> rd (d_hash d) i;
            if hash = hi then if key = k then Some i else dict_find d key hash (Suc i)
            else dict_find d key hash (Suc i) } }
      else Some i)"
  by pat_completeness auto
termination by (relation "measure (\<lambda>(d, key, hash, i). nat (d_size d - int i))") auto

declare dict_find.simps [simp del]

definition DICT_INVALID_KEY :: charp where
  "DICT_INVALID_KEY = Invalid"

definition dictionary_get :: "dictionary \<Rightarrow> string \<Rightarrow> charp \<Rightarrow> charp option" where
  "dictionary_get d key def =
     (let hash = dictionary_hash key in do {
        i \<leftarrow> dict_find d key hash 0;
        if int i < d_size d then map_option Ptr (rd (d_val d) i) else Some def })"

partial_function (option) free_slot :: "dictionary \<Rightarrow> int \<Rightarrow> int option" where
  "free_slot d i =
     (if i < 0 then None
      else case rd (d_key d) (nat i) of
             None \<Rightarrow> None
           | Some None \<Rightarrow> Some i
           | Some (Some _) \<Rightarrow> free_slot d (if i + 1 = d_size d then 0 else i + 1))"

declare free_slot.simps [code]

definition dict_grow :: "(nat \<Rightarrow> bool) \<Rightarrow> dictionary \<Rightarrow> (int \<times> dictionary) option" where
  "dict_grow ok d = do {
     v \<leftarrow> mem_double (ok 0) None (d_val d) (d_size d);
     k \<leftarrow> mem_double (ok 1) None (d_key d) (d_size d);
     h \<leftarrow> mem_double (ok 2) 0 (d_hash d) (d_size d);
     let blk = (\<lambda>p. case p of None \<Rightarrow> [] | Some b \<Rightarrow> b);
     let d = d\<lparr>d_val := blk v, d_key := blk k, d_hash := case_option [] id h\<rparr>;
     if v = None \<or> k = None \<or> h = None then Some (- 1, d)
     else Some (0, d\<lparr>d_size := d_size d * 2\<rparr>) }"

definition dictionary_set ::
  "(nat \<Rightarrow> bool) \<Rightarrow> dictionary option \<Rightarrow> string option \<Rightarrow> string option
   \<Rightarrow> (int \<times> dictionary option) option" where
  "dictionary_set ok dp keyp val =
     (case (dp, keyp) of
        (Some d, Some key) \<Rightarrow> (let hash = dictionary_hash key in do {
          i \<leftarrow> (if d_n d > 0 then dict_find d key hash 0 else Some (nat (d_size d)));
          if int i < d_size d
          then do {
            v \<leftarrow> wr (d_val d) i (xstrdup (ok 4) val);
            Some (0, Some (d\<lparr>d_val := v\<rparr>)) }
          else do {
            (rv, d) \<leftarrow> (if d_n d = d_size d then dict_grow ok d else Some (0, d));
            if rv < 0 then Some (- 1, Some d)
            else do {
              i \<leftarrow> free_slot d (d_n d);
              ks \<leftarrow> wr (d_key d) (nat i) (xstrdup (ok 3) (Some key));
              vs \<leftarrow> wr (d_val d) (nat i) (xstrdup (ok 4) val);
              hs \<leftarrow> wr (d_hash d) (nat i) hash;
              Some (0, Some (d\<lparr>d_key := ks, d_val := vs, d_hash := hs, d_n := d_n d + 1\<rparr>)) } } })
      | _ \<Rightarrow> Some (- 1, dp))"

definition dictionary_unset :: "dictionary \<Rightarrow> string option \<Rightarrow> dictionary option" where
  "dictionary_unset d keyp =
     (case keyp of None \<Rightarrow> Some d
      | Some key \<Rightarrow> (let hash = dictionary_hash key in do {
          i \<leftarrow> dict_find d key hash 0;
          if int i \<ge> d_size d then Some d
          else do {
            ks \<leftarrow> wr (d_key d) i None;
            v \<leftarrow> rd (d_val d) i;
            vs \<leftarrow> (if v \<noteq> None then wr (d_val d) i None else Some (d_val d));
            hs \<leftarrow> wr (d_hash d) i 0;
            Some (d\<lparr>d_key := ks, d_val := vs, d_hash := hs, d_n := d_n d - 1\<rparr>) } }))"

text \<open>\<open>dictionary_del\<close> visits every slot of the key and value blocks to free the strings;
  the dictionary is gone afterwards, so all that is left of it is whether its accesses are defined.\<close>

definition dictionary_del :: "dictionary option \<Rightarrow> unit option" where
  "dictionary_del dp =
     (case dp of None \<Rightarrow> Some ()
      | Some d \<Rightarrow> do {
          ks \<leftarrow> rd_slice (d_key d) 0 (nat (d_size d));
          vs \<leftarrow> rd_slice (d_val d) 0 (nat (d_size d));
          Some () })"

text \<open>\<open>dictionary_dump\<close> prints each entry; the model returns the text.\<close>

fun dump_loop :: "(string option \<times> string option) list \<Rightarrow> string" where
  "dump_loop [] = []"
| "dump_loop ((None, _) # es) = dump_loop es"
| "dump_loop ((Some k, v) # es) =
     pad_left 20 k @ [CHR 0x09] @ ''['' @ (case v of Some s \<Rightarrow> s | None \<Rightarrow> ''UNDEF'') @ '']'' @
     [CHR 0x0A] @ dump_loop es"

definition dictionary_dump :: "dictionary \<Rightarrow> string option" where
  "dictionary_dump d =
     (if d_n d < 1 then Some (''empty dictionary'' @ [CHR 0x0A])
      else do {
        ks \<leftarrow> rd_slice (d_key d) 0 (nat (d_size d));
        vs \<leftarrow> rd_slice (d_val d) 0 (nat (d_size d));
        Some (dump_loop (zip ks vs)) })"

section \<open>Invariant and abstraction\<close>

definition keys_distinct :: "'k option list \<Rightarrow> bool" where
  "keys_distinct ks \<longleftrightarrow>
     (\<forall>i j k. i < length ks \<longrightarrow> j < length ks \<longrightarrow> ks ! i = Some k \<longrightarrow> ks ! j = Some k \<longrightarrow> i = j)"

definition hashes_agree :: "string option list \<Rightarrow> u32 list \<Rightarrow> bool" where
  "hashes_agree ks hs \<longleftrightarrow> (\<forall>i k. i < length ks \<longrightarrow> ks ! i = Some k \<longrightarrow> hs ! i = dictionary_hash k)"

definition d_wf :: "dictionary \<Rightarrow> bool" where
  "d_wf d \<longleftrightarrow> d_key d \<noteq> [] \<and> d_size d = int (length (d_key d)) \<and>
     length (d_val d) = length (d_key d) \<and> length (d_hash d) = length (d_key d) \<and>
     d_n d = int (used_slots (d_key d)) \<and>
     hashes_agree (d_key d) (d_hash d) \<and> keys_distinct (d_key d)"

lemma hashes_agreeD: "hashes_agree ks hs \<Longrightarrow> i < length ks \<Longrightarrow> ks ! i = Some k \<Longrightarrow> hs ! i = dictionary_hash k"
  unfolding hashes_agree_def by blast

lemma hashes_agree_upd:
  "hashes_agree ks hs \<Longrightarrow> length hs = length ks \<Longrightarrow> (\<And>k. e = Some k \<Longrightarrow> h = dictionary_hash k)
   \<Longrightarrow> hashes_agree (ks[i := e]) (hs[i := h])"
  unfolding hashes_agree_def
proof (intro allI impI)
  fix j k
  assume a: "\<forall>i k. i < length ks \<longrightarrow> ks ! i = Some k \<longrightarrow> hs ! i = dictionary_hash k" "length hs = length ks"
    "\<And>k. e = Some k \<Longrightarrow> h = dictionary_hash k" "j < length (ks[i := e])" "ks[i := e] ! j = Some k"
  then show "hs[i := h] ! j = dictionary_hash k" by (cases "j = i") auto
qed

lemma hashes_agree_append:
  "hashes_agree ks hs \<Longrightarrow> length hs = length ks
   \<Longrightarrow> hashes_agree (ks @ replicate n None) (hs @ replicate n 0)"
  unfolding hashes_agree_def by (auto simp: nth_append)

lemma keys_distinctD:
  "keys_distinct ks \<Longrightarrow> i < length ks \<Longrightarrow> j < length ks \<Longrightarrow> ks ! i = Some k \<Longrightarrow> ks ! j = Some k \<Longrightarrow> i = j"
  unfolding keys_distinct_def by blast

lemma keys_distinct_upd:
  assumes "keys_distinct ks" "\<And>k. e = Some k \<Longrightarrow> Some k \<notin> set ks"
  shows "keys_distinct (ks[i := e])"
  unfolding keys_distinct_def
proof (intro allI impI)
  fix a b k
  assume ab: "a < length (ks[i := e])" "b < length (ks[i := e])" "ks[i := e] ! a = Some k" "ks[i := e] ! b = Some k"
  have "ks ! c \<noteq> Some k" if "e = Some k" "c < length ks" for c
    using assms(2) [OF that(1)] that(2) nth_mem by metis
  then show "a = b"
    using ab keys_distinctD [OF assms(1), of a b k]
    by (cases "a = i"; cases "b = i") (auto simp: nth_list_update)
qed

lemma keys_distinct_append: "keys_distinct ks \<Longrightarrow> keys_distinct (ks @ replicate n None)"
  unfolding keys_distinct_def by (auto simp: nth_append split: if_splits)

definition key_index :: "dictionary \<Rightarrow> string \<Rightarrow> nat" where
  "key_index d k = first_slot (\<lambda>x. x = Some k) (d_key d)"

definition dict_map :: "dictionary \<Rightarrow> dict_abs" where
  "dict_map d k = (if key_index d k < length (d_key d) then Some (d_val d ! key_index d k) else None)"

lemma key_index_nth: "key_index d k < length (d_key d) \<Longrightarrow> d_key d ! key_index d k = Some k"
  unfolding key_index_def by (rule first_slot_nth)

lemma key_index_less_iff: "key_index d k < length (d_key d) \<longleftrightarrow> Some k \<in> set (d_key d)"
  by (auto simp: key_index_def first_slot_less_iff)

lemma key_index_eq:
  assumes "d_wf d" "i < length (d_key d)" "d_key d ! i = Some k"
  shows "key_index d k = i"
proof -
  have l: "key_index d k < length (d_key d)"
    unfolding key_index_less_iff using nth_mem [OF assms(2)] assms(3) by simp
  have "keys_distinct (d_key d)" using assms(1) by (simp add: d_wf_def)
  from keys_distinctD [OF this l assms(2) key_index_nth [OF l] assms(3)] show ?thesis .
qed

lemma dict_map_iff:
  "d_wf d \<Longrightarrow> dict_map d k = Some v \<longleftrightarrow> (\<exists>i < length (d_key d). d_key d ! i = Some k \<and> d_val d ! i = v)"
proof
  assume "dict_map d k = Some v"
  then have "key_index d k < length (d_key d)" "d_val d ! key_index d k = v"
    by (auto simp: dict_map_def split: if_splits)
  then show "\<exists>i < length (d_key d). d_key d ! i = Some k \<and> d_val d ! i = v"
    using key_index_nth by blast
next
  assume wf: "d_wf d" and "\<exists>i < length (d_key d). d_key d ! i = Some k \<and> d_val d ! i = v"
  then obtain i where "i < length (d_key d)" "d_key d ! i = Some k" "d_val d ! i = v" by blast
  with key_index_eq [OF wf] show "dict_map d k = Some v" by (simp add: dict_map_def)
qed

lemma d_wf_hash:
  "d_wf d \<Longrightarrow> i < length (d_key d) \<Longrightarrow> d_key d ! i = Some k \<Longrightarrow> d_hash d ! i = dictionary_hash k"
  by (rule hashes_agreeD [of "d_key d"]) (simp_all add: d_wf_def)

lemma dict_find_first:
  assumes "d_wf d" "i \<le> length (d_key d)"
  shows "dict_find d key (dictionary_hash key) i =
    Some (i + first_slot (\<lambda>x. x = Some key) (drop i (d_key d)))"
  using assms(2)
proof (induction "length (d_key d) - i" arbitrary: i)
  case 0
  then show ?case using assms(1) by (subst dict_find.simps) (simp add: d_wf_def)
next
  case (Suc n)
  then have i: "i < length (d_key d)" and dr: "drop i (d_key d) = d_key d ! i # drop (Suc i) (d_key d)"
    by (simp_all add: Cons_nth_drop_Suc)
  have ih: "dict_find d key (dictionary_hash key) (Suc i) =
      Some (Suc i + first_slot (\<lambda>x. x = Some key) (drop (Suc i) (d_key d)))"
    using Suc.hyps(1) [of "Suc i"] Suc.hyps(2) Suc.prems by simp
  have len: "int i < d_size d" "i < length (d_hash d)"
    using assms(1) i by (simp_all add: d_wf_def)
  show ?case
  proof (cases "d_key d ! i")
    case None
    then show ?thesis using i ih dr len by (subst dict_find.simps) simp
  next
    case (Some k)
    then have "d_hash d ! i = dictionary_hash k" using d_wf_hash [OF assms(1) i] by simp
    then have "dict_find d key (dictionary_hash key) i =
        (if k = key then Some i else dict_find d key (dictionary_hash key) (Suc i))"
      using Some i len by (subst dict_find.simps) auto
    then show ?thesis using Some ih dr by simp
  qed
qed

lemma dict_find_key: "d_wf d \<Longrightarrow> dict_find d key (dictionary_hash key) 0 = Some (key_index d key)"
  using dict_find_first [of d 0 key] by (simp add: key_index_def)

section \<open>The free slot\<close>

lemma free_slot_reaches:
  assumes "0 < length (d_key d)" "d_size d = int (length (d_key d))"
  shows "i < length (d_key d) \<Longrightarrow> d_key d ! ((i + m) mod length (d_key d)) = None \<Longrightarrow>
    \<exists>k < length (d_key d). free_slot d (int i) = Some (int k) \<and> d_key d ! k = None"
proof (induction m arbitrary: i)
  case 0
  then show ?case by (subst free_slot.simps) auto
next
  case (Suc m)
  let ?N = "length (d_key d)"
  show ?case
  proof (cases "d_key d ! i")
    case None
    then show ?thesis using Suc.prems(1) by (subst free_slot.simps) auto
  next
    case (Some k)
    let ?j = "if Suc i = ?N then 0 else Suc i"
    have "?j < ?N" using assms(1) Suc.prems(1) by auto
    moreover have "(?j + m) mod ?N = (i + Suc m) mod ?N"
    proof (cases "Suc i = ?N")
      case True
      then have "i + Suc m = m + ?N" by simp
      then have "(i + Suc m) mod ?N = m mod ?N" by (metis mod_add_self2)
      then show ?thesis using True by simp
    qed simp
    ultimately have "\<exists>k < ?N. free_slot d (int ?j) = Some (int k) \<and> d_key d ! k = None"
      using Suc.IH [of ?j] Suc.prems(2) by simp
    moreover have "free_slot d (int i) = free_slot d (int ?j)"
      using Some Suc.prems(1) assms(2)
      by (subst free_slot.simps) (auto simp: add.commute)
    ultimately show ?thesis by simp
  qed
qed

lemma free_slot_found:
  assumes "0 < length (d_key d)" "d_size d = int (length (d_key d))"
    "i < length (d_key d)" "None \<in> set (d_key d)"
  shows "\<exists>k < length (d_key d). free_slot d (int i) = Some (int k) \<and> d_key d ! k = None"
proof -
  let ?N = "length (d_key d)"
  obtain j where j: "j < ?N" "d_key d ! j = None" using assms(4) by (metis in_set_conv_nth)
  have "(i + (j + ?N - i)) mod ?N = j" using j(1) assms(3) by simp
  then show ?thesis using free_slot_reaches [OF assms(1,2,3), of "j + ?N - i"] j(2) by simp
qed

section \<open>Setting and unsetting\<close>

lemma dict_map_empty_slot:
  fixes v :: "string option"
  assumes "d_wf d" "dict_map d key = None" "i < length (d_key d)" "d_key d ! i = None"
  defines "d' \<equiv> d\<lparr>d_key := (d_key d)[i := Some key], d_val := (d_val d)[i := v],
     d_hash := (d_hash d)[i := dictionary_hash key], d_n := d_n d + 1\<rparr>"
  shows "d_wf d' \<and> dict_map d' = (dict_map d)(key \<mapsto> v)"
proof -
  have new: "Some key \<notin> set (d_key d)" using assms(2) key_index_less_iff by (auto simp: dict_map_def split: if_splits)
  have wf: "d_wf d'"
    using assms(1,3,4) new used_slots_update [OF assms(3), of "Some key"]
    by (auto simp: d_wf_def d'_def intro: hashes_agree_upd keys_distinct_upd)
  have "dict_map d' k = ((dict_map d)(key \<mapsto> v)) k" for k
  proof (rule option_eqI)
    fix w
    show "dict_map d' k = Some w \<longleftrightarrow> ((dict_map d)(key \<mapsto> v)) k = Some w"
    proof (cases "k = key")
      case True
      have "key_index d' key = i"
        using key_index_eq [OF wf, of i key] assms(3) by (simp add: d'_def)
      then show ?thesis using True assms(1,3) by (simp add: dict_map_def d'_def d_wf_def)
    next
      case False
      have "((d_key d)[i := Some key] ! j = Some k) = (d_key d ! j = Some k)" for j
        using False assms(3,4) by (cases "j = i") auto
      moreover have "(d_val d)[i := v] ! j = d_val d ! j" if "d_key d ! j = Some k" for j
        using assms(4) that by (cases "j = i") auto
      ultimately show ?thesis
        using False unfolding dict_map_iff [OF wf] by (auto simp: dict_map_iff [OF assms(1)] d'_def)
    qed
  qed
  then show ?thesis using wf by blast
qed

lemma dict_map_replace:
  fixes v :: "string option"
  assumes "d_wf d" "key_index d key < length (d_key d)"
  defines "d' \<equiv> d\<lparr>d_val := (d_val d)[key_index d key := v]\<rparr>"
  shows "d_wf d' \<and> dict_map d' = (dict_map d)(key \<mapsto> v)"
proof -
  have wf: "d_wf d'" using assms(1) by (simp add: d_wf_def d'_def)
  have idx: "key_index d' k = key_index d k" "d_key d' = d_key d" for k by (simp_all add: key_index_def d'_def)
  have ne: "key_index d k \<noteq> key_index d key" if "k \<noteq> key" "key_index d k < length (d_key d)" for k
    using key_index_nth [OF that(2)] key_index_nth [OF assms(2)] that(1) by auto
  have "dict_map d' k = ((dict_map d)(key \<mapsto> v)) k" for k
    using assms(1,2) ne [of k] by (auto simp: dict_map_def idx) (auto simp: d'_def d_wf_def nth_list_update)
  then show ?thesis using wf by blast
qed

lemma dict_map_remove:
  fixes v :: "string option" and h :: u32
  assumes "d_wf d" "key_index d key < length (d_key d)"
  defines "i \<equiv> key_index d key"
  defines "d' \<equiv> d\<lparr>d_key := (d_key d)[i := None], d_val := (d_val d)[i := v], d_hash := (d_hash d)[i := h],
      d_n := d_n d - 1\<rparr>"
  shows "d_wf d' \<and> dict_map d' = (dict_map d)(key := None)"
proof -
  note k = key_index_nth [OF assms(2), folded i_def]
  have i: "i < length (d_key d)" using assms(2) by (simp add: i_def)
  have "hashes_agree ((d_key d)[i := None]) ((d_hash d)[i := h])"
    using assms(1) by (auto simp: d_wf_def intro: hashes_agree_upd)
  moreover have "keys_distinct ((d_key d)[i := None])"
    using assms(1) by (auto simp: d_wf_def intro: keys_distinct_upd)
  ultimately have wf: "d_wf d'"
    using assms(1) i k used_slots_update [OF i, of None] by (simp add: d_wf_def d'_def)
  have "dict_map d' k = ((dict_map d)(key := None)) k" for k
  proof (rule option_eqI)
    fix w
    show "dict_map d' k = Some w \<longleftrightarrow> ((dict_map d)(key := None)) k = Some w"
    proof (cases "k = key")
      case True
      have "j = i" if "j < length (d_key d)" "d_key d ! j = Some key" for j
        using key_index_eq [OF assms(1) that] by (simp add: i_def)
      then show ?thesis
        using True i unfolding dict_map_iff [OF wf] by (auto simp: d'_def nth_list_update)
    next
      case False
      then have "((d_key d)[i := None] ! j = Some k) = (d_key d ! j = Some k)" for j
        using k i by (cases "j = i") auto
      moreover have "(d_val d)[i := v] ! j = d_val d ! j" if "d_key d ! j = Some k" for j
        using k that False by (cases "j = i") auto
      ultimately show ?thesis
        using False unfolding dict_map_iff [OF wf] by (auto simp: dict_map_iff [OF assms(1)] d'_def)
    qed
  qed
  then show ?thesis using wf by blast
qed

lemma first_slot_append_None:
  "first_slot (\<lambda>x. x = Some k) (ks @ replicate n None) =
    (if Some k \<in> set ks then first_slot (\<lambda>x. x = Some k) ks else length ks + n)"
proof (induction ks)
  case Nil
  then show ?case by (induction n) auto
qed auto

lemma used_slots_append: "used_slots (xs @ ys) = used_slots xs + used_slots ys"
  by (induction xs) auto

lemma dict_grow_ok:
  assumes "d_wf d" "ok 0" "ok 1" "ok 2"
  shows "\<exists>d'. dict_grow ok d = Some (0, d') \<and> d_wf d' \<and> dict_map d' = dict_map d \<and> d_n d' = d_n d \<and>
    length (d_key d') = 2 * length (d_key d)"
proof -
  let ?N = "length (d_key d)"
  let ?d = "d\<lparr>d_val := d_val d @ replicate ?N None, d_key := d_key d @ replicate ?N None,
     d_hash := d_hash d @ replicate ?N 0, d_size := d_size d * 2\<rparr>"
  have n: "nat (d_size d) = ?N" "length (d_val d) = ?N" "length (d_hash d) = ?N"
    using assms(1) by (simp_all add: d_wf_def)
  then have run: "dict_grow ok d = Some (0, ?d)"
    using assms(2-4) by (simp add: dict_grow_def mem_double_def)
  have wf: "d_wf ?d"
    using assms(1) hashes_agree_append [of "d_key d" "d_hash d"] keys_distinct_append [of "d_key d"]
    by (simp add: d_wf_def used_slots_append)
  have "dict_map ?d k = dict_map d k" for k
    using n first_slot_less_iff [of "\<lambda>x. x = Some k" "d_key d"]
    by (auto simp: dict_map_def key_index_def first_slot_append_None nth_append)
  then show ?thesis using run wf by auto
qed

text \<open>A full dictionary that cannot grow answers -1 and is left with null blocks.\<close>

lemma dictionary_set_ok:
  assumes "d_wf d" "\<And>i. ok i"
  shows "\<exists>d'. dictionary_set ok (Some d) (Some key) v = Some (0, Some d') \<and> d_wf d' \<and>
    dict_map d' = (dict_map d)(key \<mapsto> v)"
proof (cases "key_index d key < length (d_key d)")
  case True
  then have "Some key \<in> set (d_key d)" by (simp add: key_index_less_iff)
  then have "used_slots (d_key d) \<noteq> 0" by (auto simp: used_slots_zero_iff)
  then have "0 < d_n d" "d_size d = int (length (d_key d))" "length (d_val d) = length (d_key d)"
    using assms(1) by (simp_all add: d_wf_def)
  moreover have "xstrdup (ok 4) v = v" using assms(2) by (simp add: xstrdup_def split: option.split)
  ultimately show ?thesis
    using True dict_map_replace [OF assms(1) True, of v] dict_find_key [OF assms(1), of key]
    by (simp add: dictionary_set_def)
next
  case False
  then have kn: "dict_map d key = None" by (simp add: dict_map_def)
  have "key_index d key = length (d_key d)"
    using False first_slot_le [of "\<lambda>x. x = Some key" "d_key d"] by (simp add: key_index_def)
  then have find: "(if d_n d > 0 then dict_find d key (dictionary_hash key) 0 else Some (nat (d_size d))) =
      Some (length (d_key d))" "d_size d = int (length (d_key d))"
    using dict_find_key [OF assms(1), of key] assms(1) by (simp_all add: d_wf_def)
  obtain d1 where d1: "(if d_n d = d_size d then dict_grow ok d else Some (0, d)) = Some (0, d1)"
    "d_wf d1" "dict_map d1 = dict_map d" "d_n d1 < d_size d1"
  proof (cases "d_n d = d_size d")
    case True
    obtain d' where "dict_grow ok d = Some (0, d')" "d_wf d'" "dict_map d' = dict_map d" "d_n d' = d_n d"
      "length (d_key d') = 2 * length (d_key d)"
      using dict_grow_ok [OF assms(1), of ok] assms(2) by blast
    then show thesis using that True assms(1) by (simp add: d_wf_def)
  next
    case False
    then show thesis using that assms(1) used_slots_le [of "d_key d"] by (simp add: d_wf_def)
  qed
  then have len: "d_size d1 = int (length (d_key d1))" "length (d_val d1) = length (d_key d1)"
    "length (d_hash d1) = length (d_key d1)" "d_n d1 = int (used_slots (d_key d1))"
    by (simp_all add: d_wf_def)
  have "None \<in> set (d_key d1)"
    using d1(4) len used_slots_full_iff [of "d_key d1"] by auto
  then obtain k where k: "k < length (d_key d1)" "free_slot d1 (d_n d1) = Some (int k)" "d_key d1 ! k = None"
    using free_slot_found [of d1 "used_slots (d_key d1)"] d1(4) len by fastforce
  have "xstrdup (ok 4) v = v" using assms(2) by (simp add: xstrdup_def split: option.split)
  then show ?thesis
    using find d1 k len assms(2) dict_map_empty_slot [OF d1(2) _ k(1,3), of key v] kn
    by (simp add: dictionary_set_def Let_def xstrdup_def [of _ "Some key"])
qed

lemma dictionary_unset_ok:
  assumes "d_wf d"
  shows "\<exists>d'. dictionary_unset d (Some key) = Some d' \<and> d_wf d' \<and> dict_map d' = (dict_map d)(key := None)"
proof (cases "key_index d key < length (d_key d)")
  case True
  have len: "d_size d = int (length (d_key d))" "length (d_val d) = length (d_key d)"
    "length (d_hash d) = length (d_key d)" using assms by (simp_all add: d_wf_def)
  let ?i = "key_index d key"
  have "\<exists>v. dictionary_unset d (Some key) = Some (d\<lparr>d_key := (d_key d)[?i := None], d_val := (d_val d)[?i := v],
      d_hash := (d_hash d)[?i := 0], d_n := d_n d - 1\<rparr>)"
  proof (cases "d_val d ! ?i")
    case None
    then have "(d_val d)[?i := None] = d_val d" by (metis list_update_id)
    then show ?thesis
      using True len dict_find_key [OF assms, of key] None
      by (intro exI [of _ None]) (simp add: dictionary_unset_def)
  next
    case (Some w)
    then show ?thesis
      using True len dict_find_key [OF assms, of key]
      by (intro exI [of _ None]) (simp add: dictionary_unset_def)
  qed
  then show ?thesis using dict_map_remove [OF assms True] by auto
next
  case False
  then have "dict_map d key = None" by (simp add: dict_map_def)
  then have "(dict_map d)(key := None) = dict_map d" by auto
  then show ?thesis
    using False assms dict_find_key [OF assms, of key] by (auto simp: dictionary_unset_def d_wf_def)
qed

lemma dictionary_get_ok:
  assumes "d_wf d"
  shows "dictionary_get d key def = Some (case dict_map d key of Some v \<Rightarrow> Ptr v | None \<Rightarrow> def)"
  using assms dict_find_key [OF assms, of key]
  by (auto simp: dictionary_get_def dict_map_def d_wf_def)

lemma dictionary_new_wf:
  assumes "\<And>i. ok i"
  shows "\<exists>d. dictionary_new ok n = Some d \<and> d_wf d \<and> dict_map d = Map.empty"
proof -
  define m where "m = (if n < DICTMINSZ then DICTMINSZ else n)"
  let ?d = "\<lparr>d_n = 0, d_size = m, d_val = replicate (nat m) None, d_key = replicate (nat m) None,
     d_hash = replicate (nat m) 0\<rparr>"
  have "0 < m" by (auto simp: m_def DICTMINSZ_def)
  then have "d_wf ?d" by (simp add: d_wf_def hashes_agree_def keys_distinct_def)
  moreover have "dict_map ?d k = None" for k
    using key_index_less_iff [of ?d k] by (simp add: dict_map_def)
  ultimately show ?thesis using assms by (auto simp: dictionary_new_def m_def Let_def fun_eq_iff)
qed

definition dict_put :: "dictionary \<Rightarrow> string \<Rightarrow> string option \<Rightarrow> dictionary option" where
  "dict_put d k v = do {
     (rv, d') \<leftarrow> dictionary_set (\<lambda>_. True) (Some d) (Some k) v;
     if rv = 0 then d' else None }"

definition dict_unset :: "dictionary \<Rightarrow> string \<Rightarrow> dictionary option" where
  "dict_unset d k = dictionary_unset d (Some k)"

interpretation sd: string_dict d_wf dict_map dictionary_get dict_put dict_unset
proof
  fix d k v def
  assume wf: "d_wf d"
  show "dictionary_get d k def = Some (case dict_map d k of Some v \<Rightarrow> Ptr v | None \<Rightarrow> def)"
    by (rule dictionary_get_ok [OF wf])
  show "\<exists>d'. dict_put d k v = Some d' \<and> d_wf d' \<and> dict_map d' = (dict_map d)(k \<mapsto> v)"
    using dictionary_set_ok [OF wf, of "\<lambda>_. True" k v] by (auto simp: dict_put_def)
  show "\<exists>d'. dict_unset d k = Some d' \<and> d_wf d' \<and> dict_map d' = (dict_map d)(k := None)"
    using dictionary_unset_ok [OF wf] by (simp add: dict_unset_def)
qed

section \<open>Properties\<close>

definition sample_dict :: dictionary where
  "sample_dict = \<lparr>d_n = 2, d_size = 3, d_val = [None, None, Some ''on''], d_key = [Some ''a:b'', None, Some ''c''],
     d_hash = [dictionary_hash ''a:b'', 0, dictionary_hash ''c'']\<rparr>"

lemma less_3: "i < Suc (Suc (Suc 0)) \<longleftrightarrow> i = 0 \<or> i = 1 \<or> i = 2" for i :: nat
  by auto

lemma sample_dict_wf: "d_wf sample_dict"
  by (auto simp: sample_dict_def d_wf_def hashes_agree_def keys_distinct_def less_3)

text \<open>C2. \<open>dictionary_set\<close>, when its allocations succeed, answers 0 and maps the key to the
  value and every other key to what it was, whether the key is new or present, and whether the blocks
  had to grow or not; the dictionary stays well formed.\<close>

theorem dictionary_set_updates_map:
  assumes "d_wf d" "\<And>i. ok i"
  shows "\<exists>d'. dictionary_set ok (Some d) (Some key) v = Some (0, Some d') \<and> d_wf d' \<and>
    (\<forall>k def. dictionary_get d' k def = (if k = key then Some (Ptr v) else dictionary_get d k def))"
  using dictionary_set_ok [of d ok key v] assms dictionary_get_ok by fastforce

theorem dictionary_set_updates_map_witness:
  "\<exists>d'. dictionary_set (\<lambda>_. True) (Some sample_dict) (Some ''x'') (Some ''1'') = Some (0, Some d') \<and> d_wf d' \<and>
    (\<forall>k def. dictionary_get d' k def =
       (if k = ''x'' then Some (Ptr (Some ''1'')) else dictionary_get sample_dict k def))"
  by (rule dictionary_set_updates_map [OF sample_dict_wf]) simp

text \<open>After \<open>dictionary_unset\<close> a lookup of the key answers the default, and every other
  lookup is as before; unsetting a key that is not there changes no lookup.\<close>

theorem dictionary_unset_removes_key:
  assumes "d_wf d"
  shows "\<exists>d'. dictionary_unset d (Some key) = Some d' \<and> d_wf d' \<and>
    (\<forall>k def. dictionary_get d' k def = (if k = key then Some def else dictionary_get d k def))"
  using dictionary_unset_ok [OF assms, of key] assms dictionary_get_ok by fastforce

theorem dictionary_unset_removes_key_witness:
  "\<exists>d'. dictionary_unset sample_dict (Some ''a:b'') = Some d' \<and> d_wf d' \<and>
    (\<forall>k def. dictionary_get d' k def =
       (if k = ''a:b'' then Some def else dictionary_get sample_dict k def))"
  by (rule dictionary_unset_removes_key [OF sample_dict_wf])

text \<open>C12. A new dictionary filled by any sequence of sets, of any length (so through
  any number of growths), answers every lookup with the last value set for the key, or
  the default.\<close>

theorem dictionary_filled_lookup:
  assumes "\<And>i. ok i"
  shows "\<exists>d0 d. dictionary_new ok n = Some d0 \<and> put_all dict_put kvs d0 = Some d \<and> d_wf d \<and>
    (\<forall>k def. dictionary_get d k def = Some (case map_of (rev kvs) k of Some v \<Rightarrow> Ptr v | None \<Rightarrow> def))"
proof -
  obtain d0 where d0: "dictionary_new ok n = Some d0" "d_wf d0" "dict_map d0 = Map.empty"
    using dictionary_new_wf [of ok n] assms by blast
  obtain d where d: "put_all dict_put kvs d0 = Some d" "d_wf d" "dict_map d = dict_map d0 ++ map_of (rev kvs)"
    using sd.put_all_abs [OF d0(2)] by blast
  then show ?thesis using d0 dictionary_get_ok [OF d(2)] by auto
qed

theorem dictionary_filled_lookup_witness:
  "\<exists>d0 d. dictionary_new (\<lambda>_. True) 0 = Some d0 \<and>
    put_all dict_put [(''a'', Some ''1''), (''a'', Some ''2''), (''b'', None)] d0 = Some d \<and> d_wf d \<and>
    (\<forall>k def. dictionary_get d k def = Some (case map_of
       (rev [(''a'', Some ''1''), (''a'', Some ''2''), (''b'', None)]) k of Some v \<Rightarrow> Ptr v | None \<Rightarrow> def))"
  by (rule dictionary_filled_lookup) simp

text \<open>When a full dictionary cannot grow, \<open>dictionary_set\<close> reports -1 but has already
  dropped its blocks: the old value block is gone, and a later lookup of any key dereferences a
  null pointer if the key block failed too.\<close>

theorem dictionary_grow_failure_loses_entries:
  assumes "d_wf d" "d_n d = d_size d" "dict_map d key = None" "\<not> ok 0" "\<not> ok 1" "\<not> ok 2"
  shows "\<exists>d'. dictionary_set ok (Some d) (Some key) v = Some (- 1, Some d') \<and>
    (\<forall>k def. dictionary_get d' k def = None)"
proof -
  let ?d = "d\<lparr>d_val := [], d_key := [], d_hash := []\<rparr>"
  have pos: "0 < d_size d" using assms(1) by (auto simp: d_wf_def)
  have "key_index d key = length (d_key d)"
    using assms(3) first_slot_le [of "\<lambda>x. x = Some key" "d_key d"]
    by (auto simp: dict_map_def key_index_def split: if_splits)
  then have "dict_find d key (dictionary_hash key) 0 = Some (nat (d_size d))"
    using dict_find_key [OF assms(1), of key] assms(1) by (simp add: d_wf_def)
  then have "dictionary_set ok (Some d) (Some key) v = Some (- 1, Some ?d)"
    using pos assms(2,4-6) by (simp add: dictionary_set_def dict_grow_def mem_double_def)
  moreover have "dictionary_get ?d k def = None" for k def
    using pos by (simp add: dictionary_get_def dict_find.simps rd_def)
  ultimately show ?thesis by blast
qed

definition full_dict :: dictionary where
  "full_dict = \<lparr>d_n = 1, d_size = 1, d_val = [Some ''on''], d_key = [Some ''a''],
     d_hash = [dictionary_hash ''a'']\<rparr>"

theorem dictionary_grow_failure_loses_entries_witness:
  "\<exists>d'. dictionary_set (\<lambda>_. False) (Some full_dict) (Some ''b'') None = Some (- 1, Some d') \<and>
    (\<forall>k def. dictionary_get d' k def = None)"
  by (rule dictionary_grow_failure_loses_entries)
    (auto simp: full_dict_def d_wf_def hashes_agree_def keys_distinct_def dict_map_def key_index_def)

end
