(* ===== verification/Iniparser.thy ===== *)
theory Iniparser
  imports Dictionary
begin

text \<open>
  The ini file parser of \<open>cp_library/cp_iniparser.c\<close>. A file is the list of its
  characters. The loader is a machine with two control points, the call of \<open>fgets\<close> and
  the label \<open>CONTINUE_PARSER\<close>; one step of it is the code between two of them, and its
  run is a total function, because every pass consumes input.

  The buffers \<open>line\<close>, \<open>section\<close>, \<open>key\<close> and \<open>val\<close> are the C strings in them; reading behind the
  terminating zero of \<open>line\<close> (which is not initialised there) is undefined.
\<close>

section \<open>Strings\<close>

definition ASCIILINESZ :: nat where
  "ASCIILINESZ = 1024"

definition strlwc :: "string option \<Rightarrow> string option" where
  "strlwc s = map_option (\<lambda>cs. map c_tolower (take ASCIILINESZ cs)) s"

definition strlwc_buf :: "string \<Rightarrow> string" where
  "strlwc_buf s = map c_tolower (take ASCIILINESZ s)"

text \<open>The static buffer of \<open>strstrip\<close> has room for 1024 characters.\<close>

definition strstrip :: "string \<Rightarrow> string option" where
  "strstrip s =
     (let s = strip_left s in if length s > ASCIILINESZ then None else Some (strip_right s))"

section \<open>Queries\<close>

definition INI_INVALID_KEY :: charp where
  "INI_INVALID_KEY = Invalid"

definition is_section :: "string option \<Rightarrow> bool" where
  "is_section k = (case k of None \<Rightarrow> False | Some s \<Rightarrow> CHR '':'' \<notin> set s)"

definition iniparser_getnsec :: "dictionary option \<Rightarrow> int option" where
  "iniparser_getnsec dp =
     (case dp of None \<Rightarrow> Some (- 1)
      | Some d \<Rightarrow> do {
          ks \<leftarrow> rd_slice (d_key d) 0 (nat (d_size d));
          Some (int (length (filter is_section ks))) })"

fun secname_loop :: "string option list \<Rightarrow> int \<Rightarrow> int \<Rightarrow> string option" where
  "secname_loop [] n foundsec = None"
| "secname_loop (k # ks) n foundsec =
     (if is_section k
      then if foundsec + 1 > n then k else secname_loop ks n (foundsec + 1)
      else secname_loop ks n foundsec)"

definition iniparser_getsecname :: "dictionary option \<Rightarrow> int \<Rightarrow> string option option" where
  "iniparser_getsecname dp n =
     (case dp of None \<Rightarrow> Some None
      | Some d \<Rightarrow>
          if n < 0 then Some None
          else do {
            ks \<leftarrow> rd_slice (d_key d) 0 (nat (d_size d));
            Some (secname_loop ks n 0) })"

definition iniparser_getstring :: "dictionary option \<Rightarrow> string option \<Rightarrow> charp \<Rightarrow> charp option" where
  "iniparser_getstring dp key def =
     (case (dp, strlwc key) of
        (Some d, Some lc_key) \<Rightarrow> dictionary_get d lc_key def
      | _ \<Rightarrow> Some def)"

definition iniparser_getint :: "dictionary option \<Rightarrow> string option \<Rightarrow> int \<Rightarrow> int option" where
  "iniparser_getint d key notfound = do {
     str \<leftarrow> iniparser_getstring d key INI_INVALID_KEY;
     case str of Invalid \<Rightarrow> Some notfound | Ptr p \<Rightarrow> map_option strtol0 p }"

definition iniparser_getboolean :: "dictionary option \<Rightarrow> string option \<Rightarrow> int \<Rightarrow> int option" where
  "iniparser_getboolean d key notfound = do {
     c \<leftarrow> iniparser_getstring d key INI_INVALID_KEY;
     case c of Invalid \<Rightarrow> Some notfound
     | Ptr None \<Rightarrow> None
     | Ptr (Some s) \<Rightarrow>
         let c0 = (if s = [] then CHR 0x00 else hd s)
         in if c0 \<in> set ''yY1tT'' then Some 1
            else if c0 \<in> set ''nN0fF'' then Some 0
            else Some notfound }"

definition iniparser_find_entry :: "dictionary option \<Rightarrow> string option \<Rightarrow> int option" where
  "iniparser_find_entry ini entry = do {
     p \<leftarrow> iniparser_getstring ini entry INI_INVALID_KEY;
     Some (if p \<noteq> INI_INVALID_KEY then 1 else 0) }"

definition iniparser_set ::
  "(nat \<Rightarrow> bool) \<Rightarrow> dictionary option \<Rightarrow> string option \<Rightarrow> string option \<Rightarrow> (int \<times> dictionary option) option" where
  "iniparser_set ok ini entry val = dictionary_set ok ini (strlwc entry) val"

definition iniparser_unset :: "dictionary \<Rightarrow> string option \<Rightarrow> dictionary option" where
  "iniparser_unset ini entry = dictionary_unset ini (strlwc entry)"

text \<open>The keys of a section: the code prints \<open>s:\<close> into a buffer of 1025 bytes and compares
  prefixes.\<close>

definition keym :: "string \<Rightarrow> string option" where
  "keym s = (if length s + 1 > ASCIILINESZ then None else Some (s @ '':''))"

definition in_section :: "string \<Rightarrow> string \<Rightarrow> string option \<Rightarrow> bool" where
  "in_section km s k = (case k of None \<Rightarrow> False | Some cs \<Rightarrow> strncmp_eq cs km (length s + 1))"

definition iniparser_getsecnkeys :: "dictionary option \<Rightarrow> string \<Rightarrow> int option" where
  "iniparser_getsecnkeys dp s =
     (case dp of None \<Rightarrow> Some 0
      | Some d \<Rightarrow> do {
          f \<leftarrow> iniparser_find_entry dp (Some s);
          if f = 0 then Some 0
          else do {
            km \<leftarrow> keym s;
            ks \<leftarrow> rd_slice (d_key d) 0 (nat (d_size d));
            Some (int (length (filter (in_section km s) ks))) } })"

definition iniparser_getseckeys ::
  "bool \<Rightarrow> dictionary option \<Rightarrow> string \<Rightarrow> string option list option option" where
  "iniparser_getseckeys ok dp s =
     (case dp of None \<Rightarrow> Some None
      | Some d \<Rightarrow> do {
          f \<leftarrow> iniparser_find_entry dp (Some s);
          if f = 0 then Some None
          else do {
            nkeys \<leftarrow> iniparser_getsecnkeys dp s;
            km \<leftarrow> keym s;
            ks \<leftarrow> rd_slice (d_key d) 0 (nat (d_size d));
            let found = filter (in_section km s) ks;
            keys \<leftarrow> (if ok then Some (replicate (nat nkeys) None) else Some []);
            keys \<leftarrow> wr_slice keys 0 found;
            Some (if ok then Some keys else None) } })"

section \<open>Printing\<close>

fun ini_dump_loop :: "(string option \<times> string option) list \<Rightarrow> string" where
  "ini_dump_loop [] = []"
| "ini_dump_loop ((None, _) # es) = ini_dump_loop es"
| "ini_dump_loop ((Some k, Some v) # es) = ''['' @ k @ '']=['' @ v @ '']'' @ [nl] @ ini_dump_loop es"
| "ini_dump_loop ((Some k, None) # es) = ''['' @ k @ '']=UNDEF'' @ [nl] @ ini_dump_loop es"

definition dict_cells :: "dictionary \<Rightarrow> (string option \<times> string option) list option" where
  "dict_cells d = do {
     ks \<leftarrow> rd_slice (d_key d) 0 (nat (d_size d));
     vs \<leftarrow> rd_slice (d_val d) 0 (nat (d_size d));
     Some (zip ks vs) }"

definition iniparser_dump :: "dictionary option \<Rightarrow> string option" where
  "iniparser_dump dp =
     (case dp of None \<Rightarrow> Some [] | Some d \<Rightarrow> map_option ini_dump_loop (dict_cells d))"

fun dumpsection_loop :: "string \<Rightarrow> string \<Rightarrow> (string option \<times> string option) list \<Rightarrow> string" where
  "dumpsection_loop km s [] = []"
| "dumpsection_loop km s ((k, v) # es) =
     (if in_section km s k
      then pad_right 30 (drop (length s + 1) (the k)) @ '' = '' @ (case v of Some w \<Rightarrow> w | None \<Rightarrow> []) @ [nl]
      else []) @ dumpsection_loop km s es"

definition iniparser_dumpsection_ini :: "dictionary option \<Rightarrow> string \<Rightarrow> string option" where
  "iniparser_dumpsection_ini dp s =
     (case dp of None \<Rightarrow> Some []
      | Some d \<Rightarrow> do {
          f \<leftarrow> iniparser_find_entry dp (Some s);
          if f = 0 then Some []
          else do {
            km \<leftarrow> keym s;
            cells \<leftarrow> dict_cells d;
            Some ([nl] @ ''['' @ s @ '']'' @ [nl] @ dumpsection_loop km s cells @ [nl]) } })"

text \<open>Without sections a value that is \<open>NULL\<close> is passed to \<open>%s\<close>.\<close>

fun dump_keys_loop :: "(string option \<times> string option) list \<Rightarrow> string option" where
  "dump_keys_loop [] = Some []"
| "dump_keys_loop ((None, _) # es) = dump_keys_loop es"
| "dump_keys_loop ((Some k, None) # es) = None"
| "dump_keys_loop ((Some k, Some v) # es) = do {
     r \<leftarrow> dump_keys_loop es; Some (k @ '' = '' @ v @ [nl] @ r) }"

fun dump_secs_loop :: "dictionary \<Rightarrow> nat \<Rightarrow> int \<Rightarrow> string option" where
  "dump_secs_loop d 0 i = Some []"
| "dump_secs_loop d (Suc n) i = do {
     secname \<leftarrow> iniparser_getsecname (Some d) i;
     s \<leftarrow> secname;
     t \<leftarrow> iniparser_dumpsection_ini (Some d) s;
     r \<leftarrow> dump_secs_loop d n (i + 1);
     Some (t @ r) }"

definition iniparser_dump_ini :: "dictionary option \<Rightarrow> string option" where
  "iniparser_dump_ini dp =
     (case dp of None \<Rightarrow> Some []
      | Some d \<Rightarrow> do {
          nsec \<leftarrow> iniparser_getnsec dp;
          if nsec < 1 then do { cells \<leftarrow> dict_cells d; dump_keys_loop cells }
          else do { r \<leftarrow> dump_secs_loop d (nat nsec) 0; Some (r @ [nl]) } })"

section \<open>One line\<close>

datatype line_status = LINE_UNPROCESSED | LINE_ERROR | LINE_EMPTY | LINE_COMMENT | LINE_SECTION | LINE_VALUE

record ini_bufs =
  b_line :: string
  b_section :: string
  b_key :: string
  b_value :: string

text \<open>A call \<open>sscanf(line, "%[^=] ... %[...]", key, value)\<close>: the number of conversions, and the
  buffers, of which the key is already overwritten when the rest does not match.\<close>

definition sscanf_kv ::
  "(string \<Rightarrow> string option) \<Rightarrow> (char \<Rightarrow> bool) \<Rightarrow> string \<Rightarrow> string \<Rightarrow> string \<Rightarrow> int \<times> string \<times> string" where
  "sscanf_kv between P line key value =
     (case scan_set (\<lambda>c. c \<noteq> CHR ''='') line of
        None \<Rightarrow> (0, key, value)
      | Some (k, r) \<Rightarrow>
          (case Option.bind (between r) (scan_set P) of
             None \<Rightarrow> (1, k, value)
           | Some (v, _) \<Rightarrow> (2, k, v)))"

fun try_scans ::
  "((string \<Rightarrow> string option) \<times> (char \<Rightarrow> bool)) list \<Rightarrow> string \<Rightarrow> string \<Rightarrow> string \<Rightarrow> bool \<times> string \<times> string" where
  "try_scans [] line key value = (False, key, value)"
| "try_scans ((between, P) # fs) line key value =
     (let (n, k, v) = sscanf_kv between P line key value
      in if n = 2 then (True, k, v) else try_scans fs line k v)"

definition fmt_eq :: "string \<Rightarrow> string option" where
  "fmt_eq r = map_option scan_ws (scan_lit (CHR ''='') (scan_ws r))"

definition fmt_eq_quote :: "char \<Rightarrow> string \<Rightarrow> string option" where
  "fmt_eq_quote q r = Option.bind (fmt_eq r) (scan_lit q)"

definition fmt_ws :: "string \<Rightarrow> string option" where
  "fmt_ws r = Some (scan_ws r)"

definition value_formats :: "((string \<Rightarrow> string option) \<times> (char \<Rightarrow> bool)) list" where
  "value_formats =
     [(fmt_eq_quote (CHR 0x22), \<lambda>c. c \<noteq> CHR 0x22),
      (fmt_eq_quote (CHR 0x27), \<lambda>c. c \<noteq> CHR 0x27),
      (fmt_eq, \<lambda>c. c \<noteq> CHR '';'' \<and> c \<noteq> CHR ''#'')]"

definition empty_formats :: "((string \<Rightarrow> string option) \<times> (char \<Rightarrow> bool)) list" where
  "empty_formats =
     [(fmt_eq, \<lambda>c. c = CHR '';'' \<or> c = CHR ''#''), (fmt_ws, \<lambda>c. c = CHR ''='')]"

text \<open>\<open>memset(input_line, 0, len)\<close> on the string in the buffer.\<close>

definition clear_line :: "string \<Rightarrow> nat \<Rightarrow> string" where
  "clear_line s len = (if len = 0 then s else [])"

text \<open>What is left of the line behind \<open>offset\<close> goes back into the input.\<close>

definition left_over :: "string \<Rightarrow> string \<Rightarrow> nat \<Rightarrow> string option" where
  "left_over input line offset = do {
     rest \<leftarrow> c_suffix line offset;
     left \<leftarrow> strstrip rest;
     Some (if left \<noteq> [] then left @ [nl] else clear_line input (length line)) }"

definition iniparser_line :: "ini_bufs \<Rightarrow> (line_status \<times> ini_bufs) option" where
  "iniparser_line b = do {
     line \<leftarrow> strstrip (b_line b);
     let len = length line;
     if len < 1 then Some (LINE_EMPTY, b\<lparr>b_line := clear_line (b_line b) len\<rparr>)
     else if hd line = CHR ''#'' \<or> hd line = CHR '';''
     then Some (LINE_COMMENT, b\<lparr>b_line := clear_line (b_line b) len\<rparr>)
     else if hd line = CHR ''['' then do {
       let sec = (case scan_set (\<lambda>c. c \<noteq> CHR '']'') (drop 1 line) of
                    Some (s, _) \<Rightarrow> s | None \<Rightarrow> b_section b);
       sec \<leftarrow> strstrip sec;
       let sec = strlwc_buf sec;
       input \<leftarrow> left_over (b_line b) line (length sec + 2);
       Some (LINE_SECTION, b\<lparr>b_line := input, b_section := sec\<rparr>) }
     else
       (let (ok, key, value) = try_scans value_formats line (b_key b) (b_value b)
        in if ok then do {
             key \<leftarrow> strstrip key;
             let key = strlwc_buf key;
             value \<leftarrow> strstrip value;
             let value = (if take 2 value = [CHR 0x22, CHR 0x22] \<or> take 2 value = [CHR 0x27, CHR 0x27]
                          then [] else value);
             let after = drop 1 (dropWhile (\<lambda>c. c \<noteq> CHR ''='') line);
             let quoted = (take 1 after = [CHR 0x27] \<or> take 1 after = [CHR 0x22]);
             input \<leftarrow> left_over (b_line b) line (length key + length value + (if quoted then 3 else 1));
             Some (LINE_VALUE, b\<lparr>b_line := input, b_key := key, b_value := value\<rparr>) }
           else
             (let (ok, key, value) = try_scans empty_formats line key value
              in if ok then do {
                   key \<leftarrow> strstrip key;
                   Some (LINE_VALUE, b\<lparr>b_key := strlwc_buf key, b_value := []\<rparr>) }
                 else Some (LINE_ERROR, b\<lparr>b_line := clear_line (b_line b) len, b_key := key, b_value := value\<rparr>))) }"

section \<open>The loader\<close>

datatype ini_pc = FGETS | CONTINUE_PARSER

record ini_state =
  is_file :: string
  is_last :: nat
  is_bufs :: ini_bufs
  is_errs :: int
  is_dict :: dictionary
  is_sets :: nat

text \<open>The outcome of a pass: go on at a control point, leave the loop, or return
  \<open>NULL\<close>.\<close>

datatype ini_out = Goto ini_pc ini_state | Leave ini_state | ReturnNull

text \<open>The first line of the file with its end of line.\<close>

definition first_line :: "string \<Rightarrow> string" where
  "first_line f =
     (let a = takeWhile (\<lambda>c. c \<noteq> nl) f in if length a < length f then a @ [nl] else a)"

text \<open>\<open>fgets(line + last, ASCIILINESZ - last, in)\<close>. The lines are shorter than the buffer, so
  the space is never as small as one byte.\<close>

definition ini_fgets :: "ini_state \<Rightarrow> ini_out option" where
  "ini_fgets st =
     (if is_file st = [] then Some (Leave st)
      else let n = ASCIILINESZ - is_last st; line = b_line (is_bufs st) in
        if n < 2 \<or> is_last st > length line then None
        else let chunk = take (n - 1) (first_line (is_file st));
                 line' = cstr (take (is_last st) line @ chunk)
             in Some (Goto CONTINUE_PARSER
                  (st\<lparr>is_file := drop (length chunk) (is_file st),
                      is_bufs := (is_bufs st)\<lparr>b_line := line'\<rparr>\<rparr>)))"

text \<open>\<open>sprintf(tmp, "%s:%s", section, key)\<close> into 1025 bytes.\<close>

definition ini_tmp :: "string \<Rightarrow> string \<Rightarrow> string option" where
  "ini_tmp section key =
     (if length section + 1 + length key > ASCIILINESZ then None else Some (section @ '':'' @ key))"

definition ini_store ::
  "(nat \<Rightarrow> nat \<Rightarrow> bool) \<Rightarrow> line_status \<Rightarrow> ini_state \<Rightarrow> ini_state option" where
  "ini_store ok sta st =
     (case sta of
        LINE_SECTION \<Rightarrow> do {
          (errs, d) \<leftarrow> dictionary_set (ok (is_sets st)) (Some (is_dict st)) (Some (b_section (is_bufs st))) None;
          d \<leftarrow> d;
          Some (st\<lparr>is_errs := errs, is_dict := d, is_sets := is_sets st + 1\<rparr>) }
      | LINE_VALUE \<Rightarrow> do {
          tmp \<leftarrow> ini_tmp (b_section (is_bufs st)) (b_key (is_bufs st));
          (errs, d) \<leftarrow> dictionary_set (ok (is_sets st)) (Some (is_dict st)) (Some tmp) (Some (b_value (is_bufs st)));
          d \<leftarrow> d;
          Some (st\<lparr>is_errs := errs, is_dict := d, is_sets := is_sets st + 1\<rparr>) }
      | LINE_ERROR \<Rightarrow> Some (st\<lparr>is_errs := is_errs st + 1\<rparr>)
      | _ \<Rightarrow> Some st)"

definition ini_pass :: "(nat \<Rightarrow> nat \<Rightarrow> bool) \<Rightarrow> ini_state \<Rightarrow> ini_out option" where
  "ini_pass ok st =
     (let line = b_line (is_bufs st) in
      if length line = 1 then Some (Goto FGETS st)
      else if line = [] then None
      else if last line \<noteq> nl then do {
        _ \<leftarrow> dictionary_del (Some (is_dict st));
        Some ReturnNull }
      else let line = strip_right line in
        if line = [] then None
        else if last line = CHR 0x5C
        then Some (Goto FGETS (st\<lparr>is_bufs := (is_bufs st)\<lparr>b_line := line\<rparr>, is_last := length line - 1\<rparr>))
        else do {
          (sta, b) \<leftarrow> iniparser_line ((is_bufs st)\<lparr>b_line := line\<rparr>);
          st \<leftarrow> ini_store ok sta (st\<lparr>is_bufs := b, is_last := 0\<rparr>);
          if b_line b \<noteq> [] then Some (Goto CONTINUE_PARSER st)
          else if is_errs st < 0 then Some (Leave st)
          else Some (Goto FGETS st) })"

definition ini_step :: "(nat \<Rightarrow> nat \<Rightarrow> bool) \<Rightarrow> ini_pc \<Rightarrow> ini_state \<Rightarrow> ini_out option" where
  "ini_step ok pc st = (case pc of FGETS \<Rightarrow> ini_fgets st | CONTINUE_PARSER \<Rightarrow> ini_pass ok st)"

subsection \<open>Every pass makes progress\<close>

lemma strstrip_length: "strstrip s = Some t \<Longrightarrow> length t \<le> length s"
  using strip_right_length [of "strip_left s"] strip_left_length [of s]
  by (auto simp: strstrip_def Let_def split: if_splits)

lemma left_over_length:
  assumes "left_over input line off = Some r" "0 < off"
  shows "length r \<le> max (length input) (length line)"
proof -
  obtain left where l: "off \<le> length line" "strstrip (drop off line) = Some left"
    "r = (if left \<noteq> [] then left @ [nl] else clear_line input (length line))"
    using assms(1) by (auto simp: left_over_def c_suffix_def split: if_splits)
  have "length left < length line" if "left \<noteq> []"
    using strstrip_length [OF l(2)] assms(2) l(1) that by (cases left) auto
  then show ?thesis using l(3) by (auto simp: clear_line_def)
qed

lemma iniparser_line_length:
  assumes "iniparser_line b = Some (sta, b')"
  shows "length (b_line b') \<le> length (b_line b)"
proof -
  obtain line where line: "strstrip (b_line b) = Some line"
    using assms by (auto simp: iniparser_line_def)
  have lo: "left_over (b_line b) line off = Some r \<Longrightarrow> 0 < off \<Longrightarrow> length r \<le> length (b_line b)" for off r
    using left_over_length strstrip_length [OF line] by fastforce
  have cl: "length (clear_line (b_line b) n) \<le> length (b_line b)" for n by (simp add: clear_line_def)
  show ?thesis
    using assms line
    by (auto simp: iniparser_line_def Let_def cl split: if_splits prod.splits dest!: lo)
qed

lemma ini_store_bufs:
  "ini_store ok sta st = Some st' \<Longrightarrow> is_bufs st' = is_bufs st \<and> is_file st' = is_file st"
  by (cases sta) (auto simp: ini_store_def)

lemma first_line_nonempty: "f \<noteq> [] \<Longrightarrow> first_line f \<noteq> []"
  by (cases f) (auto simp: first_line_def Let_def)

lemma ini_fgets_progress:
  assumes "ini_fgets st = Some (Goto pc st')"
  shows "length (is_file st') < length (is_file st)"
proof -
  have f: "is_file st \<noteq> []" using assms by (auto simp: ini_fgets_def)
  then have "0 < length (first_line (is_file st))" using first_line_nonempty by auto
  then show ?thesis
    using assms f by (auto simp: ini_fgets_def Let_def split: if_splits)
qed

lemma ini_pass_progress:
  assumes "ini_pass ok st = Some (Goto pc st')"
  shows "is_file st' = is_file st \<and>
    (pc = CONTINUE_PARSER \<longrightarrow> length (b_line (is_bufs st')) < length (b_line (is_bufs st)))"
proof -
  let ?l = "b_line (is_bufs st)"
  have short: "length (strip_right ?l) < length ?l" if "?l \<noteq> []" "last ?l = nl"
  proof -
    have "?l = butlast ?l @ [nl]" using that by (metis append_butlast_last_id)
    then have "strip_right ?l = strip_right (butlast ?l)"
      by (metis strip_right_append_space c_isspace_def)
    then show ?thesis using strip_right_length [of "butlast ?l"] that(1) by (cases ?l) auto
  qed
  consider "length ?l = 1 \<or> ?l = [] \<or> last ?l \<noteq> nl \<or> strip_right ?l = [] \<or> last (strip_right ?l) = CHR 0x5C"
    | (line) "length ?l \<noteq> 1" "?l \<noteq> []" "last ?l = nl" "strip_right ?l \<noteq> []" "last (strip_right ?l) \<noteq> CHR 0x5C"
    by blast
  then show ?thesis
  proof cases
    case 1
    then show ?thesis using assms by (auto simp: ini_pass_def Let_def split: if_splits)
  next
    case line
    then obtain sta b st1 where b: "iniparser_line ((is_bufs st)\<lparr>b_line := strip_right ?l\<rparr>) = Some (sta, b)"
      "ini_store ok sta (st\<lparr>is_bufs := b, is_last := 0\<rparr>) = Some st1"
      "(if b_line b \<noteq> [] then Some (Goto CONTINUE_PARSER st1)
          else if is_errs st1 < 0 then Some (Leave st1) else Some (Goto FGETS st1)) = Some (Goto pc st')"
      using assms by (auto simp: ini_pass_def Let_def)
    have "length (b_line b) < length ?l"
      using iniparser_line_length [OF b(1)] short [OF line(2,3)] by simp
    then show ?thesis using b(3) ini_store_bufs [OF b(2)] by (auto split: if_splits)
  qed
qed

fun pc_weight :: "ini_pc \<Rightarrow> ini_state \<Rightarrow> nat" where
  "pc_weight FGETS st = 0"
| "pc_weight CONTINUE_PARSER st = Suc (length (b_line (is_bufs st)))"

definition ini_order :: "((ini_pc \<times> ini_state) \<times> (ini_pc \<times> ini_state)) set" where
  "ini_order = measures [\<lambda>(pc, st). length (is_file st), \<lambda>(pc, st). pc_weight pc st]"

lemma ini_step_progress:
  assumes "ini_step ok pc st = Some (Goto pc' st')"
  shows "((pc', st'), (pc, st)) \<in> ini_order"
proof (cases pc)
  case FGETS
  then show ?thesis using assms ini_fgets_progress by (simp add: ini_step_def ini_order_def)
next
  case CONTINUE_PARSER
  then have "ini_pass ok st = Some (Goto pc' st')" using assms by (simp add: ini_step_def)
  from ini_pass_progress [OF this] show ?thesis
    using CONTINUE_PARSER by (cases pc') (auto simp: ini_order_def)
qed

text \<open>The run of the loop: the state in which it is left, or \<open>None\<close> inside for a return of
  \<open>NULL\<close>.\<close>

function ini_run :: "(nat \<Rightarrow> nat \<Rightarrow> bool) \<Rightarrow> ini_pc \<Rightarrow> ini_state \<Rightarrow> ini_state option option" where
  "ini_run ok pc st =
     (case ini_step ok pc st of
        None \<Rightarrow> None
      | Some ReturnNull \<Rightarrow> Some None
      | Some (Leave st') \<Rightarrow> Some (Some st')
      | Some (Goto pc' st') \<Rightarrow> ini_run ok pc' st')"
  by pat_completeness auto
termination
  by (relation "inv_image ini_order (\<lambda>(ok, pc, st). (pc, st))")
    (auto simp: ini_step_progress, simp add: ini_order_def)

declare ini_run.simps [simp del]

text \<open>\<open>iniparser_load\<close>: the file is absent when it cannot be opened.\<close>

definition iniparser_load ::
  "(nat \<Rightarrow> bool) \<Rightarrow> (nat \<Rightarrow> nat \<Rightarrow> bool) \<Rightarrow> string option \<Rightarrow> dictionary option option" where
  "iniparser_load oknew ok file =
     (case file of None \<Rightarrow> Some None
      | Some f \<Rightarrow>
          (case dictionary_new oknew 0 of None \<Rightarrow> Some None
           | Some d \<Rightarrow> do {
               r \<leftarrow> ini_run ok FGETS
                 \<lparr>is_file = f, is_last = 0,
                  is_bufs = \<lparr>b_line = [], b_section = [], b_key = [], b_value = []\<rparr>,
                  is_errs = 0, is_dict = d, is_sets = 0\<rparr>;
               case r of None \<Rightarrow> Some None
               | Some st \<Rightarrow>
                   if is_errs st \<noteq> 0 then do { _ \<leftarrow> dictionary_del (Some (is_dict st)); Some None }
                   else Some (Some (is_dict st)) }))"

section \<open>Files that are written the way the parser expects\<close>

text \<open>The lines of a file, their text, and what they mean: a section is a key without a value,
  a pair is stored under \<open>section:key\<close>.\<close>

datatype ini_entry = Section string | Pair string string | Comment string | Blank

fun ini_text :: "ini_entry \<Rightarrow> string" where
  "ini_text (Section s) = ''['' @ s @ '']''"
| "ini_text (Pair k v) = k @ ''='' @ v"
| "ini_text (Comment c) = CHR ''#'' # c"
| "ini_text Blank = []"

definition ini_file :: "ini_entry list \<Rightarrow> string" where
  "ini_file es = concat (map (\<lambda>e. ini_text e @ [nl]) es)"

fun ini_meaning :: "string \<Rightarrow> ini_entry list \<Rightarrow> (string \<times> string option) list" where
  "ini_meaning sec [] = []"
| "ini_meaning sec (Section s # es) = (s, None) # ini_meaning s es"
| "ini_meaning sec (Pair k v # es) = (sec @ '':'' @ k, Some v) # ini_meaning sec es"
| "ini_meaning sec (Comment c # es) = ini_meaning sec es"
| "ini_meaning sec (Blank # es) = ini_meaning sec es"

definition trimmed :: "string \<Rightarrow> bool" where
  "trimmed s \<longleftrightarrow> s \<noteq> [] \<and> \<not> c_isspace (hd s) \<and> \<not> c_isspace (last s)"

definition plain :: "string \<Rightarrow> bool" where
  "plain s \<longleftrightarrow> nl \<notin> set s \<and> CHR 0x00 \<notin> set s \<and> length s \<le> 500"

definition lower :: "string \<Rightarrow> bool" where
  "lower s \<longleftrightarrow> map c_tolower s = s"

fun ini_ok :: "ini_entry \<Rightarrow> bool" where
  "ini_ok (Section s) \<longleftrightarrow> trimmed s \<and> plain s \<and> lower s \<and> CHR '']'' \<notin> set s"
| "ini_ok (Pair k v) \<longleftrightarrow> trimmed k \<and> plain k \<and> lower k \<and> CHR ''='' \<notin> set k \<and> hd k \<notin> set ''#;['' \<and>
     trimmed v \<and> plain v \<and> CHR '';'' \<notin> set v \<and> CHR ''#'' \<notin> set v \<and> hd v \<notin> {CHR 0x22, CHR 0x27} \<and>
     last v \<noteq> CHR 0x5C"
| "ini_ok (Comment c) \<longleftrightarrow> plain c \<and> (c = [] \<or> \<not> c_isspace (last c) \<and> last c \<noteq> CHR 0x5C)"
| "ini_ok Blank \<longleftrightarrow> True"

lemma strstrip_trimmed: "trimmed s \<Longrightarrow> length s \<le> ASCIILINESZ \<Longrightarrow> strstrip s = Some s"
  by (simp add: strstrip_def trimmed_def strip_left_id strip_right_id)

lemma strstrip_nil [simp]: "strstrip [] = Some []"
  by (simp add: strstrip_def strip_left_def strip_right_def)

lemma strlwc_buf_lower: "lower s \<Longrightarrow> length s \<le> ASCIILINESZ \<Longrightarrow> strlwc_buf s = s"
  by (simp add: strlwc_buf_def lower_def)

lemma scan_set_stop:
  "(\<And>x. x \<in> set m \<Longrightarrow> P x) \<Longrightarrow> m \<noteq> [] \<Longrightarrow> \<not> P c \<Longrightarrow> scan_set P (m @ c # r) = Some (m, c # r)"
  by (simp add: scan_set_def Let_def takeWhile_append2)

lemma scan_set_all: "(\<And>x. x \<in> set m \<Longrightarrow> P x) \<Longrightarrow> m \<noteq> [] \<Longrightarrow> scan_set P m = Some (m, [])"
proof -
  assume a: "\<And>x. x \<in> set m \<Longrightarrow> P x" "m \<noteq> []"
  then have tw: "takeWhile P m = m" by (simp add: takeWhile_eq_all_conv)
  show ?thesis unfolding scan_set_def Let_def tw using a(2) by simp
qed

lemma left_over_all: "left_over input line (length line) = Some (clear_line input (length line))"
  by (simp add: left_over_def c_suffix_def)

lemma ini_line_comment:
  "ini_ok (Comment c) \<Longrightarrow> b_line b = CHR ''#'' # c
   \<Longrightarrow> iniparser_line b = Some (LINE_COMMENT, b\<lparr>b_line := []\<rparr>)"
proof -
  assume a: "ini_ok (Comment c)" "b_line b = CHR ''#'' # c"
  then have "trimmed (CHR ''#'' # c)" by (auto simp: trimmed_def c_isspace_def)
  then have "strstrip (CHR ''#'' # c) = Some (CHR ''#'' # c)"
    using a(1) by (intro strstrip_trimmed) (auto simp: plain_def ASCIILINESZ_def)
  then show ?thesis using a(2) by (simp add: iniparser_line_def clear_line_def)
qed

lemma ini_line_section:
  assumes "ini_ok (Section s)" "b_line b = ini_text (Section s)"
  shows "iniparser_line b = Some (LINE_SECTION, b\<lparr>b_line := [], b_section := s\<rparr>)"
proof -
  have s: "trimmed s" "length s \<le> 500" "lower s" "CHR '']'' \<notin> set s" "s \<noteq> []"
    using assms(1) by (auto simp: plain_def trimmed_def)
  have "trimmed (ini_text (Section s))" by (auto simp: trimmed_def c_isspace_def)
  then have line: "strstrip (ini_text (Section s)) = Some (ini_text (Section s))"
    using s(2) by (intro strstrip_trimmed) (auto simp: ASCIILINESZ_def)
  have scan: "scan_set (\<lambda>c. c \<noteq> CHR '']'') (s @ '']'') = Some (s, '']'')"
    by (rule scan_set_stop) (use s(4,5) in auto)
  have sec: "strstrip s = Some s" "strlwc_buf s = s"
    using s strstrip_trimmed strlwc_buf_lower by (simp_all add: ASCIILINESZ_def)
  have "length s + 2 = length (ini_text (Section s))" by simp
  then have "left_over (ini_text (Section s)) (ini_text (Section s)) (length s + 2) = Some []"
    by (simp only: left_over_all) (simp add: clear_line_def)
  then show ?thesis
    using assms(2) line scan sec by (simp add: iniparser_line_def)
qed

lemma ini_line_pair:
  assumes "ini_ok (Pair k v)" "b_line b = ini_text (Pair k v)"
  shows "iniparser_line b = Some (LINE_VALUE, b\<lparr>b_line := [], b_key := k, b_value := v\<rparr>)"
proof -
  let ?line = "k @ CHR ''='' # v"
  have k: "trimmed k" "length k \<le> 500" "lower k" "CHR ''='' \<notin> set k" "k \<noteq> []" "hd k \<notin> set ''#;[''"
    and v: "trimmed v" "length v \<le> 500" "CHR '';'' \<notin> set v" "CHR ''#'' \<notin> set v" "v \<noteq> []"
      "hd v \<noteq> CHR 0x22" "hd v \<noteq> CHR 0x27"
    using assms(1) by (auto simp: plain_def trimmed_def)
  obtain c w where vc: "v = c # w" using v(5) by (cases v) auto
  have "trimmed ?line" using k(1) v(1) by (simp add: trimmed_def)
  then have line: "strstrip ?line = Some ?line"
    using k(2) v(2) by (intro strstrip_trimmed) (auto simp: ASCIILINESZ_def)
  have hdl: "hd ?line \<noteq> CHR ''#''" "hd ?line \<noteq> CHR '';''" "hd ?line \<noteq> CHR ''[''"
    using k(5,6) by auto
  have sk: "scan_set (\<lambda>c. c \<noteq> CHR ''='') ?line = Some (k, CHR ''='' # v)"
    by (rule scan_set_stop) (use k(4,5) in auto)
  have ws: "\<not> c_isspace c" using v(1) vc by (simp add: trimmed_def)
  have sv: "scan_set (\<lambda>c. c \<noteq> CHR '';'' \<and> c \<noteq> CHR ''#'') v = Some (v, [])"
    by (rule scan_set_all) (use v(3-5) in auto)
  have feq: "fmt_eq (CHR ''='' # v) = Some v"
    using ws vc by (simp add: fmt_eq_def scan_lit_def scan_ws_def c_isspace_def)
  then have "\<exists>k1 v1. fmt_eq_quote q (CHR ''='' # v) = None" if "hd v \<noteq> q" for q
    using that vc by (simp add: fmt_eq_quote_def scan_lit_def)
  then have scans: "try_scans value_formats ?line x y = (True, k, v)" for x y
    using v(6,7) by (simp add: value_formats_def sscanf_kv_def sk sv feq)
  have bufs: "strstrip k = Some k" "strlwc_buf k = k" "strstrip v = Some v"
    using k v strstrip_trimmed strlwc_buf_lower by (simp_all add: ASCIILINESZ_def)
  have dw: "drop 1 (dropWhile (\<lambda>c. c \<noteq> CHR ''='') ?line) = v"
    using k(4) by (simp add: dropWhile_append)
  have "length k + length v + 1 = length ?line" by simp
  then have lo: "left_over ?line ?line (length k + length v + 1) = Some []"
    by (simp only: left_over_all) (simp add: clear_line_def)
  have q: "take 1 v \<noteq> [CHR 0x27]" "take 1 v \<noteq> [CHR 0x22]"
    "take 2 v \<noteq> [CHR 0x22, CHR 0x22]" "take 2 v \<noteq> [CHR 0x27, CHR 0x27]"
    using v(6,7) vc by (auto simp: numeral_2_eq_2)
  show ?thesis
    using assms(2) line hdl scans bufs dw lo q by (simp add: iniparser_line_def Let_def)
qed

subsection \<open>Loading them\<close>

lemma ini_fgets_line:
  assumes "is_file st = l @ nl # rest" "is_last st = 0" "nl \<notin> set l" "CHR 0x00 \<notin> set l" "length l \<le> 1001"
  shows "ini_fgets st = Some (Goto CONTINUE_PARSER
    (st\<lparr>is_file := rest, is_bufs := (is_bufs st)\<lparr>b_line := l @ [nl]\<rparr>\<rparr>))"
proof -
  have "takeWhile (\<lambda>c. c \<noteq> nl) (l @ nl # rest) = l"
    using assms(3) by (subst takeWhile_append2) auto
  then have fl: "first_line (l @ nl # rest) = l @ [nl]" by (simp add: first_line_def)
  have "takeWhile (\<lambda>c. c \<noteq> CHR 0x00) (l @ [nl]) = l @ [nl]"
    using assms(4) by (subst takeWhile_append2) auto
  then have "cstr (l @ [nl]) = l @ [nl]" by (simp add: cstr_def)
  then show ?thesis
    using assms(1,2,5) fl by (simp add: ini_fgets_def ASCIILINESZ_def)
qed

lemma ini_text_line:
  assumes "ini_ok e" "e \<noteq> Blank"
  shows "trimmed (ini_text e)" "last (ini_text e) \<noteq> CHR 0x5C"
    "nl \<notin> set (ini_text e)" "CHR 0x00 \<notin> set (ini_text e)" "length (ini_text e) \<le> 1001"
  using assms by (cases e; auto simp: trimmed_def plain_def c_isspace_def)+

lemma ini_pass_line:
  assumes "trimmed l" "last l \<noteq> CHR 0x5C" "b_line (is_bufs st) = l @ [nl]"
  shows "ini_pass ok st = do {
     (sta, b) \<leftarrow> iniparser_line ((is_bufs st)\<lparr>b_line := l\<rparr>);
     st \<leftarrow> ini_store ok sta (st\<lparr>is_bufs := b, is_last := 0\<rparr>);
     if b_line b \<noteq> [] then Some (Goto CONTINUE_PARSER st)
     else if is_errs st < 0 then Some (Leave st)
     else Some (Goto FGETS st) }"
proof -
  have "strip_right (l @ [nl]) = l"
    using assms(1) by (subst strip_right_append_space) (auto simp: c_isspace_def trimmed_def strip_right_id)
  then show ?thesis
    using assms by (simp add: ini_pass_def trimmed_def)
qed

fun next_section :: "string \<Rightarrow> ini_entry \<Rightarrow> string" where
  "next_section sec (Section s) = s"
| "next_section sec _ = sec"

definition ini_ready :: "string \<Rightarrow> string \<Rightarrow> ini_state \<Rightarrow> bool" where
  "ini_ready file sec st \<longleftrightarrow> is_file st = file \<and> is_last st = 0 \<and> is_errs st = 0 \<and> d_wf (is_dict st) \<and>
     b_section (is_bufs st) = sec \<and> length sec \<le> 500"

lemma ini_entry_pass:
  assumes "ini_ok e" "e \<noteq> Blank" "\<And>i j. ok i j" "ini_ready rest sec st"
    "b_line (is_bufs st) = ini_text e @ [nl]"
  shows "\<exists>st'. ini_pass ok st = Some (Goto FGETS st') \<and> ini_ready rest (next_section sec e) st' \<and>
    dict_map (is_dict st') = dict_map (is_dict st) ++ map_of (rev (ini_meaning sec [e]))"
proof -
  note r = assms(4) [unfolded ini_ready_def]
  note pass = ini_pass_line [OF ini_text_line(1,2) [OF assms(1,2)] assms(5), of ok]
  have put: "\<exists>d'. dictionary_set (ok (is_sets st)) (Some (is_dict st)) (Some k) v = Some (0, Some d') \<and> d_wf d' \<and>
      dict_map d' = (dict_map (is_dict st))(k \<mapsto> v)" for k v
    using dictionary_set_ok [of "is_dict st" "ok (is_sets st)" k v] r assms(3) by blast
  show ?thesis
  proof (cases e)
    case (Comment c)
    then show ?thesis
      using ini_line_comment [of c "(is_bufs st)\<lparr>b_line := CHR ''#'' # c\<rparr>"] assms(1) r pass
      by (simp add: ini_store_def ini_ready_def)
  next
    case (Section s)
    obtain d' where d': "dictionary_set (ok (is_sets st)) (Some (is_dict st)) (Some s) None = Some (0, Some d')"
      "d_wf d'" "dict_map d' = (dict_map (is_dict st))(s \<mapsto> None)" using put by blast
    then show ?thesis
      using ini_line_section [of s "(is_bufs st)\<lparr>b_line := ini_text e\<rparr>"] Section assms(1) r pass
      by (simp add: ini_store_def ini_ready_def plain_def)
  next
    case (Pair k v)
    obtain d' where d': "dictionary_set (ok (is_sets st)) (Some (is_dict st)) (Some (sec @ '':'' @ k)) (Some v) = Some (0, Some d')"
      "d_wf d'" "dict_map d' = (dict_map (is_dict st))(sec @ '':'' @ k \<mapsto> Some v)" using put by blast
    have "ini_tmp sec k = Some (sec @ '':'' @ k)"
      using r assms(1) Pair by (simp add: ini_tmp_def plain_def ASCIILINESZ_def)
    then show ?thesis
      using d' ini_line_pair [of k v "(is_bufs st)\<lparr>b_line := ini_text e\<rparr>"] Pair assms(1) r pass
      by (simp add: ini_store_def ini_ready_def)
  qed (use assms(2) in simp)
qed

lemma ini_entry_run:
  assumes "ini_ok e" "\<And>i j. ok i j" "ini_ready (ini_text e @ nl # rest) sec st"
  shows "\<exists>st'. ini_run ok FGETS st = ini_run ok FGETS st' \<and> ini_ready rest (next_section sec e) st' \<and>
    dict_map (is_dict st') = dict_map (is_dict st) ++ map_of (rev (ini_meaning sec [e]))"
proof -
  let ?st1 = "st\<lparr>is_file := rest, is_bufs := (is_bufs st)\<lparr>b_line := ini_text e @ [nl]\<rparr>\<rparr>"
  have line: "nl \<notin> set (ini_text e)" "CHR 0x00 \<notin> set (ini_text e)" "length (ini_text e) \<le> 1001"
    using ini_text_line(3-5) [OF assms(1)] by (cases "e = Blank"; simp)+
  have "ini_fgets st = Some (Goto CONTINUE_PARSER ?st1)"
    using assms(3) line by (intro ini_fgets_line) (auto simp: ini_ready_def)
  then have run1: "ini_run ok FGETS st = ini_run ok CONTINUE_PARSER ?st1"
    by (subst ini_run.simps) (simp add: ini_step_def)
  have r1: "ini_ready rest sec ?st1" using assms(3) by (simp add: ini_ready_def)
  show ?thesis
  proof (cases "e = Blank")
    case True
    then have "ini_run ok CONTINUE_PARSER ?st1 = ini_run ok FGETS ?st1"
      by (subst ini_run.simps) (simp add: ini_step_def ini_pass_def)
    then show ?thesis using run1 r1 True by (intro exI [of _ ?st1]) simp
  next
    case False
    obtain st' where st': "ini_pass ok ?st1 = Some (Goto FGETS st')" "ini_ready rest (next_section sec e) st'"
      "dict_map (is_dict st') = dict_map (is_dict ?st1) ++ map_of (rev (ini_meaning sec [e]))"
      using ini_entry_pass [where ok = ok and st = ?st1, OF assms(1) False assms(2) r1] by auto
    have "ini_run ok CONTINUE_PARSER ?st1 = ini_run ok FGETS st'"
      using st'(1) by (subst ini_run.simps) (simp add: ini_step_def)
    then show ?thesis using run1 st'(2,3) by (intro exI [of _ st']) simp
  qed
qed

lemma ini_meaning_Cons: "ini_meaning sec (e # es) = ini_meaning sec [e] @ ini_meaning (next_section sec e) es"
  by (cases e) auto

lemma ini_file_run:
  assumes "\<And>i j. ok i j"
  shows "\<forall>e \<in> set es. ini_ok e \<Longrightarrow> ini_ready (ini_file es) sec st \<Longrightarrow>
    \<exists>st'. ini_run ok FGETS st = Some (Some st') \<and> is_errs st' = 0 \<and> d_wf (is_dict st') \<and>
      dict_map (is_dict st') = dict_map (is_dict st) ++ map_of (rev (ini_meaning sec es))"
proof (induction es arbitrary: sec st)
  case Nil
  then show ?case by (subst ini_run.simps) (simp add: ini_step_def ini_fgets_def ini_ready_def ini_file_def)
next
  case (Cons e es)
  have "ini_ready (ini_text e @ nl # ini_file es) sec st" using Cons.prems(2) by (simp add: ini_file_def)
  then obtain st1 where st1: "ini_run ok FGETS st = ini_run ok FGETS st1" "ini_ready (ini_file es) (next_section sec e) st1"
    "dict_map (is_dict st1) = dict_map (is_dict st) ++ map_of (rev (ini_meaning sec [e]))"
    using ini_entry_run [of e ok "ini_file es" sec st] Cons.prems(1) assms by auto
  obtain st' where "ini_run ok FGETS st1 = Some (Some st')" "is_errs st' = 0" "d_wf (is_dict st')"
    "dict_map (is_dict st') = dict_map (is_dict st1) ++ map_of (rev (ini_meaning (next_section sec e) es))"
    using Cons.IH [OF _ st1(2)] Cons.prems(1) by auto
  then show ?case
    using st1(1,3) unfolding ini_meaning_Cons [of sec e es] by (simp del: ini_meaning.simps)
qed

subsection \<open>A key without a value\<close>

lemma ini_entries_run:
  assumes "\<And>i j. ok i j"
  shows "\<forall>e \<in> set es. ini_ok e \<Longrightarrow> ini_ready (ini_file es @ rest) sec st \<Longrightarrow>
    \<exists>st' sec'. ini_run ok FGETS st = ini_run ok FGETS st' \<and> ini_ready rest sec' st'"
proof (induction es arbitrary: sec st)
  case Nil
  then show ?case by (auto simp: ini_file_def)
next
  case (Cons e es)
  have "ini_ready (ini_text e @ nl # (ini_file es @ rest)) sec st" using Cons.prems(2) by (simp add: ini_file_def)
  then obtain st1 where st1: "ini_run ok FGETS st = ini_run ok FGETS st1"
    "ini_ready (ini_file es @ rest) (next_section sec e) st1"
    using ini_entry_run [of e ok "ini_file es @ rest" sec st] Cons.prems(1) assms by auto
  then show ?case using Cons.IH [OF _ st1(2)] Cons.prems(1) by auto
qed

text \<open>A line \<open>k=\<close> is accepted by the last formats, and stays in the input.\<close>

lemma ini_line_empty_value:
  assumes "ini_ok (Pair k ''v'')" "b_line b = k @ ''=''"
  shows "iniparser_line b = Some (LINE_VALUE, b\<lparr>b_key := k, b_value := []\<rparr>)"
proof -
  let ?line = "k @ ''=''"
  have k: "trimmed k" "length k \<le> 500" "lower k" "CHR ''='' \<notin> set k" "k \<noteq> []" "hd k \<notin> set ''#;[''"
    using assms(1) by (auto simp: plain_def trimmed_def)
  have "trimmed ?line" using k(1) by (simp add: trimmed_def c_isspace_def)
  then have line: "strstrip ?line = Some ?line"
    using k(2) by (intro strstrip_trimmed) (auto simp: ASCIILINESZ_def)
  have hdl: "hd ?line \<noteq> CHR ''#''" "hd ?line \<noteq> CHR '';''" "hd ?line \<noteq> CHR ''[''"
    using k(5,6) by auto
  have sk: "scan_set (\<lambda>c. c \<noteq> CHR ''='') ?line = Some (k, ''='')"
    by (rule scan_set_stop) (use k(4,5) in auto)
  have feq: "fmt_eq ''='' = Some []" "fmt_ws ''='' = Some ''=''"
    by (simp_all add: fmt_eq_def fmt_ws_def scan_lit_def scan_ws_def c_isspace_def)
  have none: "fmt_eq_quote q ''='' = None" "scan_set P [] = None" for q P
    using feq by (simp_all add: fmt_eq_quote_def scan_lit_def scan_set_def)
  have "try_scans value_formats ?line x y = (False, k, y)" for x y
    by (simp add: value_formats_def sscanf_kv_def sk feq none)
  moreover have "try_scans empty_formats ?line x y = (True, k, ''='')" for x y
    by (simp add: empty_formats_def sscanf_kv_def sk feq none) (simp add: scan_set_def)
  moreover have "strstrip k = Some k" "strlwc_buf k = k"
    using k strstrip_trimmed strlwc_buf_lower by (simp_all add: ASCIILINESZ_def)
  ultimately show ?thesis
    using assms(2) line hdl by (simp add: iniparser_line_def)
qed

lemma ini_empty_value_run:
  assumes "ini_ok (Pair k ''v'')" "\<And>i j. ok i j" "ini_ready (k @ ''='' @ nl # rest) sec st"
  shows "ini_run ok FGETS st = Some None"
proof -
  have k: "k \<noteq> []" "nl \<notin> set (k @ ''='')" "CHR 0x00 \<notin> set (k @ ''='')" "length (k @ ''='') \<le> 1001" "length k \<le> 500"
    "trimmed (k @ ''='')"
    using assms(1) by (auto simp: trimmed_def plain_def c_isspace_def)
  let ?st1 = "st\<lparr>is_file := rest, is_bufs := (is_bufs st)\<lparr>b_line := (k @ ''='') @ [nl]\<rparr>\<rparr>"
  let ?b = "(is_bufs st)\<lparr>b_line := k @ ''='', b_key := k, b_value := []\<rparr>"
  have "ini_fgets st = Some (Goto CONTINUE_PARSER ?st1)"
    using assms(3) k by (intro ini_fgets_line) (auto simp: ini_ready_def)
  then have 1: "ini_run ok FGETS st = ini_run ok CONTINUE_PARSER ?st1"
    by (subst ini_run.simps) (simp add: ini_step_def)
  have "iniparser_line ((is_bufs ?st1)\<lparr>b_line := k @ ''=''\<rparr>) = Some (LINE_VALUE, ?b)"
    using ini_line_empty_value [OF assms(1), of "(is_bufs st)\<lparr>b_line := k @ ''=''\<rparr>"] by simp
  moreover obtain d' where d': "dictionary_set (ok (is_sets st)) (Some (is_dict st)) (Some (sec @ '':'' @ k)) (Some []) = Some (0, Some d')"
    "d_wf d'"
    using dictionary_set_ok [of "is_dict st" "ok (is_sets st)" "sec @ '':'' @ k" "Some []"] assms(2,3)
    by (auto simp: ini_ready_def)
  moreover have "ini_tmp sec k = Some (sec @ '':'' @ k)"
    using assms(3) k(5) by (simp add: ini_tmp_def ini_ready_def ASCIILINESZ_def)
  moreover have "b_section (is_bufs st) = sec" using assms(3) by (simp add: ini_ready_def)
  ultimately obtain st2 where st2: "ini_pass ok ?st1 = Some (Goto CONTINUE_PARSER st2)"
    "b_line (is_bufs st2) = k @ ''=''" "is_dict st2 = d'"
    using ini_pass_line [OF k(6), of ?st1 ok] by (simp add: ini_store_def)
  have "d_key d' \<noteq> []" "d_size d' = int (length (d_key d'))" "length (d_val d') = length (d_key d')"
    using d'(2) by (simp_all add: d_wf_def)
  then have "ini_pass ok st2 = Some ReturnNull"
    using st2(2,3) k(1) by (simp add: ini_pass_def dictionary_del_def)
  then have "ini_run ok CONTINUE_PARSER st2 = Some None"
    by (subst ini_run.simps) (simp add: ini_step_def)
  moreover have "ini_run ok CONTINUE_PARSER ?st1 = ini_run ok CONTINUE_PARSER st2"
    using st2(1) by (subst ini_run.simps) (simp add: ini_step_def)
  ultimately show ?thesis using 1 by simp
qed


section \<open>Properties\<close>

text \<open>C14. The loader terminates: every pass between two of its control points either consumes
  characters of the file, or leaves a shorter rest of the line to the next pass. (The run of the loop is
  defined by recursion along this order.)\<close>

theorem iniparser_pass_makes_progress:
  assumes "ini_step ok pc st = Some (Goto pc' st')"
  shows "length (is_file st') < length (is_file st) \<or>
    length (is_file st') = length (is_file st) \<and> pc_weight pc' st' < pc_weight pc st"
  using ini_step_progress [OF assms] by (simp add: ini_order_def)

definition sample_ini :: ini_state where
  "sample_ini = \<lparr>is_file = [], is_last = 0,
     is_bufs = \<lparr>b_line = ''# x'' @ [nl], b_section = [], b_key = [], b_value = []\<rparr>,
     is_errs = 0, is_dict = sample_dict, is_sets = 0\<rparr>"

theorem iniparser_pass_makes_progress_witness:
  "\<exists>st'. ini_step (\<lambda>_ _. True) CONTINUE_PARSER sample_ini = Some (Goto FGETS st') \<and>
     (length (is_file st') < length (is_file sample_ini) \<or>
      length (is_file st') = length (is_file sample_ini) \<and> pc_weight FGETS st' < pc_weight CONTINUE_PARSER sample_ini)"
proof -
  have "\<exists>st'. ini_step (\<lambda>_ _. True) CONTINUE_PARSER sample_ini = Some (Goto FGETS st')"
    by (simp add: ini_step_def ini_pass_def sample_ini_def iniparser_line_def strstrip_def ini_store_def
        cstr_simps clear_line_def ASCIILINESZ_def)
  then show ?thesis using iniparser_pass_makes_progress by blast
qed

lemma ini_file_loads:
  assumes "\<And>i. oknew i" "\<And>i j. ok i j" "\<forall>e \<in> set es. ini_ok e"
  shows "\<exists>d. iniparser_load oknew ok (Some (ini_file es)) = Some (Some d) \<and> d_wf d \<and>
    (\<forall>k def. dictionary_get d k def =
       Some (case map_of (rev (ini_meaning [] es)) k of Some v \<Rightarrow> Ptr v | None \<Rightarrow> def))"
proof -
  obtain d0 where d0: "dictionary_new oknew 0 = Some d0" "d_wf d0" "dict_map d0 = Map.empty"
    using dictionary_new_wf [of oknew 0] assms(1) by blast
  let ?st = "\<lparr>is_file = ini_file es, is_last = 0,
     is_bufs = \<lparr>b_line = [], b_section = [], b_key = [], b_value = []\<rparr>,
     is_errs = 0, is_dict = d0, is_sets = 0\<rparr>"
  have "ini_ready (ini_file es) [] ?st" using d0(2) by (simp add: ini_ready_def)
  then obtain st where st: "ini_run ok FGETS ?st = Some (Some st)" "is_errs st = 0" "d_wf (is_dict st)"
    "dict_map (is_dict st) = dict_map d0 ++ map_of (rev (ini_meaning [] es))"
    using ini_file_run [where ok = ok and st = ?st and sec = "[]", OF assms(2,3)] by auto
  then have "iniparser_load oknew ok (Some (ini_file es)) = Some (Some (is_dict st))"
    using d0(1) by (simp add: iniparser_load_def)
  then show ?thesis using st(3,4) d0(3) dictionary_get_ok [OF st(3)] by auto
qed


definition sample_entries :: "ini_entry list" where
  "sample_entries = [Comment '' net'', Section ''net'', Pair ''port'' ''80'', Blank, Pair ''host'' ''a=b'', Pair ''port'' ''81'']"

lemma sample_entries_ok: "\<forall>e \<in> set sample_entries. ini_ok e"
  by (simp add: sample_entries_def trimmed_def plain_def lower_def cstr_simps)


text \<open>A key with an empty value, which the comments of the code list as a case of its own,
  makes the load fail: the line is stored but not removed from the input, so the
  next pass takes it for a line that is too long and the loader returns \<open>NULL\<close>.\<close>

theorem iniparser_empty_value_rejected:
  assumes "\<And>i. oknew i" "\<And>i j. ok i j" "\<forall>e \<in> set es. ini_ok e" "ini_ok (Pair k ''v'')"
  shows "iniparser_load oknew ok (Some (ini_file es @ k @ ''='' @ nl # rest)) = Some None"
proof -
  obtain d0 where d0: "dictionary_new oknew 0 = Some d0" "d_wf d0"
    using dictionary_new_wf [of oknew 0] assms(1) by blast
  let ?st = "\<lparr>is_file = ini_file es @ k @ ''='' @ nl # rest, is_last = 0,
     is_bufs = \<lparr>b_line = [], b_section = [], b_key = [], b_value = []\<rparr>,
     is_errs = 0, is_dict = d0, is_sets = 0\<rparr>"
  have "ini_ready (ini_file es @ k @ ''='' @ nl # rest) [] ?st" using d0(2) by (simp add: ini_ready_def)
  then obtain st sec where "ini_run ok FGETS ?st = ini_run ok FGETS st" "ini_ready (k @ ''='' @ nl # rest) sec st"
    using ini_entries_run [where ok = ok and st = ?st, OF assms(2,3)] by blast
  then show ?thesis
    using ini_empty_value_run [where ok = ok, OF assms(4,2)] d0(1) by (simp add: iniparser_load_def)
qed

theorem iniparser_empty_value_rejected_witness:
  "iniparser_load (\<lambda>_. True) (\<lambda>_ _. True) (Some (ini_file sample_entries @ ''host'' @ ''='' @ nl # [])) = Some None"
  by (rule iniparser_empty_value_rejected [OF _ _ sample_entries_ok])
    (simp_all add: trimmed_def plain_def lower_def cstr_simps)

text \<open>\<open>iniparser_dump_ini\<close>, which promises a loadable ini file, writes blanks around the
  equals sign; the loader computes where the rest of the line starts without them, finds a rest that
  is not an assignment, and rejects the file.\<close>

theorem iniparser_dump_not_loadable:
  "\<exists>d f. iniparser_load (\<lambda>_. True) (\<lambda>_ _. True) (Some (ini_file [Section ''net'', Pair ''port'' ''80''])) = Some (Some d) \<and>
     iniparser_dump_ini (Some d) = Some f \<and> iniparser_load (\<lambda>_. True) (\<lambda>_ _. True) (Some f) = Some None"
proof -
  have "case iniparser_load (\<lambda>_. True) (\<lambda>_ _. True) (Some (ini_file [Section ''net'', Pair ''port'' ''80''])) of
      Some (Some d) \<Rightarrow>
        (case iniparser_dump_ini (Some d) of
           Some f \<Rightarrow> (case iniparser_load (\<lambda>_. True) (\<lambda>_ _. True) (Some f) of
              Some r \<Rightarrow> (case r of None \<Rightarrow> True | Some x \<Rightarrow> False) | None \<Rightarrow> False)
         | None \<Rightarrow> False)
    | _ \<Rightarrow> False"
    by code_simp
  then show ?thesis by (auto split: option.splits)
qed

text \<open>A syntax error is forgotten as soon as a later line is stored: the count of errors is
  overwritten with the result of \<open>dictionary_set\<close>, so a file that contains a line without an
  equals sign loads, although the line alone is rejected.\<close>

theorem iniparser_syntax_error_forgotten:
  "\<exists>d. iniparser_load (\<lambda>_. True) (\<lambda>_ _. True) (Some (''nonsense'' @ nl # ini_file [Pair ''a'' ''1''])) = Some (Some d) \<and>
    iniparser_load (\<lambda>_. True) (\<lambda>_ _. True) (Some (''nonsense'' @ [nl])) = Some None"
proof -
  have "case iniparser_load (\<lambda>_. True) (\<lambda>_ _. True) (Some (''nonsense'' @ nl # ini_file [Pair ''a'' ''1''])) of
      Some r \<Rightarrow> (case r of None \<Rightarrow> False | Some x \<Rightarrow> True) | None \<Rightarrow> False"
    by code_simp
  moreover have "case iniparser_load (\<lambda>_. True) (\<lambda>_ _. True) (Some (''nonsense'' @ [nl])) of
      Some r \<Rightarrow> (case r of None \<Rightarrow> True | Some x \<Rightarrow> False) | None \<Rightarrow> False"
    by code_simp
  ultimately show ?thesis by (auto split: option.splits)
qed

text \<open>\<open>iniparser_getboolean\<close> reads a stored value by its first letter alone, answers the
  default for any other letter and for an absent key, in any case of the key; only a key without value
  (a section) makes it dereference a null pointer.\<close>

theorem iniparser_getboolean_functional:
  assumes "d_wf d" "length key \<le> 1024"
  shows "iniparser_getboolean (Some d) (Some key) nf =
    (case dict_map d (map c_tolower key) of
       None \<Rightarrow> Some nf
     | Some None \<Rightarrow> None
     | Some (Some v) \<Rightarrow>
         Some (if v \<noteq> [] \<and> hd v \<in> {CHR ''y'', CHR ''Y'', CHR ''1'', CHR ''t'', CHR ''T''} then 1
               else if v \<noteq> [] \<and> hd v \<in> {CHR ''n'', CHR ''N'', CHR ''0'', CHR ''f'', CHR ''F''} then 0
               else nf))"
  using assms dictionary_get_ok [OF assms(1), of "map c_tolower key" Invalid]
  by (auto simp: iniparser_getboolean_def iniparser_getstring_def strlwc_def INI_INVALID_KEY_def
      ASCIILINESZ_def Let_def split: option.splits)

theorem iniparser_getboolean_functional_witness:
  "iniparser_getboolean (Some sample_dict) (Some ''C'') 7 =
    (case dict_map sample_dict (map c_tolower ''C'') of
       None \<Rightarrow> Some 7
     | Some None \<Rightarrow> None
     | Some (Some v) \<Rightarrow>
         Some (if v \<noteq> [] \<and> hd v \<in> {CHR ''y'', CHR ''Y'', CHR ''1'', CHR ''t'', CHR ''T''} then 1
               else if v \<noteq> [] \<and> hd v \<in> {CHR ''n'', CHR ''N'', CHR ''0'', CHR ''f'', CHR ''F''} then 0
               else 7))"
  by (rule iniparser_getboolean_functional [OF sample_dict_wf]) simp


end
