(* ===== verification/CpTime.thy ===== *)
theory CpTime
  imports Prelude
begin

text \<open>
  The clock of the library (\<open>cp_library/cp_time.h\<close>): the millisecond clock of the system as an unsigned
  word, which wraps around, the time that has passed since a moment, and the pause.
\<close>

definition time_now :: "nat \<Rightarrow> nat \<Rightarrow> u32" where
  "time_now tv_sec tv_usec = of_nat tv_sec * 1000 + of_nat (tv_usec div 1000)"

definition time_elapsed :: "u32 \<Rightarrow> u32 \<Rightarrow> u32" where
  "time_elapsed current start =
     (if current < start then (0xFFFFFFFF - start) + current else current - start)"

text \<open>The seconds and nanoseconds that \<open>micro_second_sleep\<close> asks for.\<close>

definition micro_second_sleep :: "u32 \<Rightarrow> u32 \<times> u32" where
  "micro_second_sleep ms = (ms div 1000, if ms div 1000 = 0 then (ms * 10000) * 100 else 0)"

text \<open>The elapsed time is exact while the clock has not wrapped around in between.\<close>

lemma time_elapsed_later:
  assumes "unat start + d < 2 ^ 32"
  shows "time_elapsed (start + of_nat d) start = of_nat d"
proof -
  have "unat (start + of_nat d) = unat start + d"
    using assms by (simp add: unat_word_ariths unat_of_nat)
  then have "\<not> start + of_nat d < start" by (simp add: word_less_nat_alt)
  then show ?thesis by (simp add: time_elapsed_def)
qed

end
