(* ===== verification/CpString.thy ===== *)
theory CpString
  imports CString
begin

text \<open>
  The growable strings of \<open>cp_library/cp_string.c\<close>: a block of \<open>size\<close> bytes of which the first
  \<open>len\<close> are the contents, not necessarily with a terminating zero. The outcome of an allocation is an
  argument \<open>ok\<close>; \<open>g\<close> is what the fresh cells of a grown block hold. Two strings that an operation
  takes are different objects.
\<close>

record cp_string =
  cs_size :: int
  cs_len :: int
  cs_data :: "char list option"

definition NUL :: char where "NUL = CHR 0x00"

text \<open>\<open>strncpy(dst, src, n)\<close> to the start of a block: the string, filled with zeros, and cut at \<open>n\<close>.\<close>

definition c_strncpy :: "char list \<Rightarrow> string \<Rightarrow> nat \<Rightarrow> char list option" where
  "c_strncpy dst src n = wr_slice dst 0 (take n (src @ replicate n NUL))"

section \<open>The operations\<close>

text \<open>\<open>t_malloc\<close> answers a cleared block, \<open>realloc\<close> keeps what fits.\<close>

definition cs_malloc :: "bool \<Rightarrow> int \<Rightarrow> char list option" where
  "cs_malloc ok n = (if ok \<and> 0 \<le> n then Some (replicate (nat n) NUL) else None)"

definition cs_realloc :: "bool \<Rightarrow> (nat \<Rightarrow> char) \<Rightarrow> char list option \<Rightarrow> int \<Rightarrow> char list option" where
  "cs_realloc ok g data n =
     (if ok \<and> 0 \<le> n
      then let d = (case data of None \<Rightarrow> [] | Some d \<Rightarrow> d)
           in Some (take (nat n) d @ map g [length d..<nat n])
      else None)"

text \<open>The constructors answer \<open>Some None\<close> for \<open>NULL\<close>.\<close>

definition cp_string_create :: "bool \<Rightarrow> bool \<Rightarrow> char list \<Rightarrow> int \<Rightarrow> cp_string option option" where
  "cp_string_create ok1 ok2 data len =
     (if \<not> ok1 then Some None
      else case cs_malloc ok2 (len + 1) of
             None \<Rightarrow> Some None
           | Some blk \<Rightarrow> do {
               d \<leftarrow> c_memcpy blk 0 data 0 len;
               Some (Some \<lparr>cs_size = len + 1, cs_len = len, cs_data = Some d\<rparr>) })"

definition cp_string_create_empty :: "bool \<Rightarrow> bool \<Rightarrow> int \<Rightarrow> cp_string option" where
  "cp_string_create_empty ok1 ok2 initial_size =
     (if \<not> ok1 then None
      else case cs_malloc ok2 initial_size of
             None \<Rightarrow> None
           | Some blk \<Rightarrow> Some \<lparr>cs_size = initial_size, cs_len = 0, cs_data = Some blk\<rparr>)"

definition cp_string_clear_data :: "cp_string option \<Rightarrow> cp_string option option" where
  "cp_string_clear_data str =
     (case str of None \<Rightarrow> Some None
      | Some s \<Rightarrow>
          (case cs_data s of None \<Rightarrow> Some str
           | Some d \<Rightarrow> do {
               d \<leftarrow> c_memset d NUL (cs_size s);
               Some (Some (s\<lparr>cs_data := Some d, cs_len := 0\<rparr>)) }))"

text \<open>A pointer to a string that another object owns: null, a string, or freed memory. Freeing a freed
  string is undefined.\<close>

datatype str_ptr = STR_NULL | STR_AT cp_string | STR_FREED

definition cp_string_destroy :: "str_ptr \<Rightarrow> str_ptr option" where
  "cp_string_destroy p =
     (case p of STR_NULL \<Rightarrow> Some STR_NULL | STR_AT _ \<Rightarrow> Some STR_FREED | STR_FREED \<Rightarrow> None)"

lemma cp_string_destroy_ok: "p \<noteq> STR_FREED \<Longrightarrow> \<exists>q. cp_string_destroy p = Some q"
  by (cases p) (simp_all add: cp_string_destroy_def)

text \<open>\<open>cp_string_cstrcpy\<close> copies \<open>size\<close> bytes from a string; the block behind \<open>cstr\<close> has its
  characters and the terminating zero.\<close>

definition cp_string_cstrcpy :: "bool \<Rightarrow> cp_string option \<Rightarrow> string \<Rightarrow> cp_string option option" where
  "cp_string_cstrcpy ok str cs0 =
     (case str of None \<Rightarrow> Some None
      | Some s \<Rightarrow>
          let s = s\<lparr>cs_len := int (length cs0)\<rparr>;
              s = (if cs_size s < cs_len s + 1
                   then s\<lparr>cs_size := cs_len s + 1, cs_data := cs_malloc ok (cs_len s + 1)\<rparr> else s)
          in case cs_data s of
               None \<Rightarrow> Some None
             | Some d \<Rightarrow> do {
                 d \<leftarrow> c_memcpy d 0 (cs0 @ [NUL]) 0 (cs_size s);
                 Some (Some (s\<lparr>cs_data := Some d\<rparr>)) })"

definition cp_string_copy :: "cp_string option \<Rightarrow> cp_string option \<Rightarrow> (int \<times> cp_string option) option" where
  "cp_string_copy dst src =
     (case (dst, src) of
        (Some d, Some s) \<Rightarrow>
          (case (cs_data d, cs_data s) of
             (Some dd, Some sd) \<Rightarrow>
               let left = cs_size d - cs_len d;
                   n = (if left > cs_len s then cs_len s else left)
               in do {
                 dd \<leftarrow> c_memcpy dd (cs_len d) sd 0 n;
                 Some (n, Some (d\<lparr>cs_data := Some dd, cs_len := cs_len d + n\<rparr>)) }
           | _ \<Rightarrow> Some (0, dst))
      | _ \<Rightarrow> Some (0, dst))"

definition cp_string_cstrcopy :: "cp_string option \<Rightarrow> char list option \<Rightarrow> int \<Rightarrow> (int \<times> cp_string option) option" where
  "cp_string_cstrcopy dst bytes len =
     (case (dst, bytes) of
        (Some d, Some b) \<Rightarrow>
          (case cs_data d of
             Some dd \<Rightarrow>
               if len \<le> 0 then Some (0, dst)
               else let left = cs_size d - cs_len d;
                        n = (if left > len then len else left)
                    in do {
                      dd \<leftarrow> c_memcpy dd (cs_len d) b 0 n;
                      Some (n, Some (d\<lparr>cs_data := Some dd, cs_len := cs_len d + n\<rparr>)) }
           | None \<Rightarrow> Some (0, dst))
      | _ \<Rightarrow> Some (0, dst))"

text \<open>\<open>memmove (src->data, src->data + size, src->len)\<close> within a block.\<close>

definition cp_string_move ::
  "cp_string option \<Rightarrow> cp_string option \<Rightarrow> (int \<times> cp_string option \<times> cp_string option) option" where
  "cp_string_move dst src =
     (case (dst, src) of
        (Some d, Some s) \<Rightarrow>
          (case (cs_data d, cs_data s) of
             (Some dd, Some sd) \<Rightarrow>
               let left = cs_size d - cs_len d;
                   n = (if left > cs_len s then cs_len s else left)
               in do {
                 dd \<leftarrow> c_memcpy dd (cs_len d) sd 0 n;
                 sd' \<leftarrow> c_memcpy sd 0 sd n (cs_len s - n);
                 Some (n, Some (d\<lparr>cs_data := Some dd, cs_len := cs_len d + n\<rparr>),
                          Some (s\<lparr>cs_data := Some sd', cs_len := cs_len s - n\<rparr>)) }
           | _ \<Rightarrow> Some (0, dst, src))
      | _ \<Rightarrow> Some (0, dst, src))"

definition cp_string_dup :: "bool \<Rightarrow> bool \<Rightarrow> cp_string \<Rightarrow> cp_string option option" where
  "cp_string_dup ok1 ok2 src =
     (if \<not> ok1 then Some None
      else case cs_malloc ok2 (cs_len src + 1) of
             None \<Rightarrow> Some None
           | Some blk \<Rightarrow> do {
               sd \<leftarrow> cs_data src;
               d \<leftarrow> c_memcpy blk 0 sd 0 (cs_len src + 1);
               Some (Some (src\<lparr>cs_data := Some d\<rparr>)) })"

definition cp_string_cstrdup :: "bool \<Rightarrow> bool \<Rightarrow> string \<Rightarrow> cp_string option option" where
  "cp_string_cstrdup ok1 ok2 src =
     (if \<not> ok1 then Some None
      else let n = int (length src) + 1 in
           case cs_malloc ok2 n of
             None \<Rightarrow> Some None
           | Some blk \<Rightarrow> do {
               d \<leftarrow> c_memcpy blk 0 (src @ [NUL]) 0 n;
               Some (Some \<lparr>cs_size = n, cs_len = n - 1, cs_data = Some d\<rparr>) })"

text \<open>The growth of \<open>cp_string_cat\<close> and \<open>cp_string_cstrcat\<close>: room for one byte more than the
  length.\<close>

definition cs_grow :: "bool \<Rightarrow> (nat \<Rightarrow> char) \<Rightarrow> cp_string \<Rightarrow> cp_string" where
  "cs_grow ok g s =
     (if cs_len s + 1 > cs_size s
      then s\<lparr>cs_size := cs_len s + 1, cs_data := cs_realloc ok g (cs_data s) (cs_len s + 1)\<rparr> else s)"

definition cp_string_cat :: "bool \<Rightarrow> (nat \<Rightarrow> char) \<Rightarrow> cp_string \<Rightarrow> cp_string \<Rightarrow> cp_string option" where
  "cp_string_cat ok g str appendum =
     (let len = cs_len str;
          s = cs_grow ok g (str\<lparr>cs_len := cs_len str + cs_len appendum\<rparr>)
      in case cs_data s of
           None \<Rightarrow> Some s
         | Some d \<Rightarrow> do {
             ad \<leftarrow> cs_data appendum;
             d \<leftarrow> c_memcpy d len ad 0 (cs_len appendum);
             Some (s\<lparr>cs_data := Some d\<rparr>) })"

definition cp_string_cstrcat :: "bool \<Rightarrow> (nat \<Rightarrow> char) \<Rightarrow> cp_string \<Rightarrow> string \<Rightarrow> cp_string option" where
  "cp_string_cstrcat ok g str cs0 =
     (let len = cs_len str; clen = int (length cs0);
          s = cs_grow ok g (str\<lparr>cs_len := cs_len str + clen\<rparr>)
      in case cs_data s of
           None \<Rightarrow> Some s
         | Some d \<Rightarrow> do {
             d \<leftarrow> c_memcpy d len cs0 0 clen;
             Some (s\<lparr>cs_data := Some d\<rparr>) })"

definition cp_string_append_char :: "bool \<Rightarrow> (nat \<Rightarrow> char) \<Rightarrow> cp_string \<Rightarrow> char \<Rightarrow> cp_string option option" where
  "cp_string_append_char ok g str ch =
     (let s = (if cs_len str + 1 > cs_size str
               then str\<lparr>cs_size := cs_len str + 0x100, cs_data := cs_realloc ok g (cs_data str) (cs_len str + 0x100)\<rparr>
               else str)
      in case cs_data s of
           None \<Rightarrow> if cs_len str + 1 > cs_size str then Some None else None
         | Some d \<Rightarrow>
             if cs_len s < 0 then None
             else do {
               d \<leftarrow> wr d (nat (cs_len s)) ch;
               Some (Some (s\<lparr>cs_data := Some d, cs_len := cs_len s + 1\<rparr>)) })"

definition cp_string_cat_bin :: "bool \<Rightarrow> (nat \<Rightarrow> char) \<Rightarrow> cp_string \<Rightarrow> char list \<Rightarrow> int \<Rightarrow> cp_string option" where
  "cp_string_cat_bin ok g str bin len =
     (let olen = cs_len str;
          s = str\<lparr>cs_len := cs_len str + len\<rparr>;
          s = (if cs_len s > cs_size s
               then let n = cs_len s + 0x400 - cs_len s smod 0x400
                    in s\<lparr>cs_size := n, cs_data := cs_realloc ok g (cs_data s) n\<rparr>
               else s)
      in do {
        d \<leftarrow> cs_data s;
        d \<leftarrow> c_memcpy d olen bin 0 len;
        Some (s\<lparr>cs_data := Some d\<rparr>) })"

text \<open>\<open>memcmp\<close>: the difference at the first byte that differs.\<close>

fun c_memcmp :: "char list \<Rightarrow> char list \<Rightarrow> nat \<Rightarrow> int option" where
  "c_memcmp a b 0 = Some 0"
| "c_memcmp (x # a) (y # b) (Suc n) =
     (if x = y then c_memcmp a b n else Some (of_char x - of_char y))"
| "c_memcmp _ _ (Suc n) = None"

text \<open>\<open>same\<close> says that both arguments are the same pointer.\<close>

definition cp_string_cmp :: "bool \<Rightarrow> cp_string option \<Rightarrow> cp_string option \<Rightarrow> int option" where
  "cp_string_cmp same s1 s2 =
     (if same then Some 0
      else case s1 of None \<Rightarrow> Some (- 1) | Some a \<Rightarrow>
        (case s2 of None \<Rightarrow> Some 1 | Some b \<Rightarrow> do {
           ad \<leftarrow> cs_data a;
           bd \<leftarrow> cs_data b;
           if cs_len a = cs_len b then c_memcmp ad bd (nat (cs_len a))
           else
             (let p = (if cs_len a > cs_len b then cs_len b else cs_len a) in do {
                rc \<leftarrow> c_memcmp ad bd (nat p);
                Some (if rc = 0 then cs_len a - cs_len b else rc) }) }))"

text \<open>\<open>cp_string_tocstr\<close> writes the terminating zero behind the contents.\<close>

definition cp_string_tocstr :: "cp_string option \<Rightarrow> (cp_string option \<times> string option) option" where
  "cp_string_tocstr str =
     (case str of None \<Rightarrow> Some (None, None)
      | Some s \<Rightarrow> if cs_len s < 0 then None else do {
          d \<leftarrow> cs_data s;
          d \<leftarrow> wr d (nat (cs_len s)) NUL;
          Some (Some (s\<lparr>cs_data := Some d\<rparr>), Some (cstr d)) })"

text \<open>The loop of \<open>cp_string_flip\<close> with the indexes of the two pointers.\<close>

function flip_loop :: "char list \<Rightarrow> nat \<Rightarrow> nat \<Rightarrow> char list option" where
  "flip_loop d i f =
     (if i < f then do {
        ch \<leftarrow> rd d i;
        cf \<leftarrow> rd d f;
        d \<leftarrow> wr d i cf;
        d \<leftarrow> wr d f ch;
        flip_loop d (i + 1) (f - 1) }
      else Some d)"
  by pat_completeness auto
termination by (relation "measure (\<lambda>(d, i, f). f - i)") auto

declare flip_loop.simps [simp del]

definition cp_string_flip :: "cp_string \<Rightarrow> cp_string option" where
  "cp_string_flip str =
     (if cs_len str \<noteq> 0
      then if cs_len str < 0 then None
           else do {
             d \<leftarrow> cs_data str;
             d \<leftarrow> flip_loop d 0 (nat (cs_len str) - 1);
             Some (str\<lparr>cs_data := Some d\<rparr>) }
      else Some str)"

text \<open>\<open>cp_string_filter\<close>: find the first letter from \<open>i\<close> on, skip the run of letters there, and
  move the rest of the contents over it.\<close>

partial_function (option) filter_loop :: "char list \<Rightarrow> nat \<Rightarrow> nat \<Rightarrow> string \<Rightarrow> (char list \<times> nat) option" where
  "filter_loop d len i letters =
     (let s = cstr (drop i d);
          a = takeWhile (\<lambda>c. c \<notin> set letters) s
      in if length a = length s then Some (d, len)
         else let i = i + length a;
                  f = i + length (takeWhile (\<lambda>c. c \<in> set letters) (drop (length a) s))
              in case rd d f of
                   None \<Rightarrow> None
                 | Some c \<Rightarrow>
                     if c \<noteq> NUL
                     then (case c_memcpy d (int i) d (int f) (int len - int f) of
                             None \<Rightarrow> None
                           | Some d1 \<Rightarrow>
                               let len = len - (f - i)
                               in case wr d1 len NUL of
                                    None \<Rightarrow> None
                                  | Some d2 \<Rightarrow> filter_loop d2 len i letters)
                     else (case wr d i NUL of None \<Rightarrow> None | Some d1 \<Rightarrow> Some (d1, i)))"

declare filter_loop.simps [code]

definition cp_string_filter :: "cp_string \<Rightarrow> string \<Rightarrow> cp_string option" where
  "cp_string_filter str letters =
     (if cs_len str < 0 then None
      else do {
        d \<leftarrow> cs_data str;
        d \<leftarrow> wr d (nat (cs_len str)) NUL;
        (d, len) \<leftarrow> filter_loop d (nat (cs_len str)) 0 letters;
        Some (str\<lparr>cs_data := Some d, cs_len := int len\<rparr>) })"

text \<open>The loop of \<open>del_char_from_string\<close>: reading at \<open>idx\<close>, writing at \<open>end\<close>, both in the
  block.\<close>

function del_char_loop :: "char list \<Rightarrow> nat \<Rightarrow> nat \<Rightarrow> char \<Rightarrow> char list option" where
  "del_char_loop b idx fin delchar =
     (if idx < length b then
        if b ! idx = NUL then wr b fin NUL
        else if b ! idx = delchar then del_char_loop b (idx + 1) fin delchar
        else do { b' \<leftarrow> wr b fin (b ! idx); del_char_loop b' (idx + 1) (fin + 1) delchar }
      else None)"
  by pat_completeness auto
termination by (relation "measure (\<lambda>(b, idx, fin, c). length b - idx)") (auto dest: wr_length)

declare del_char_loop.simps [simp del]

definition del_char_from_string :: "char list \<Rightarrow> char \<Rightarrow> char list option" where
  "del_char_from_string str delchar = del_char_loop str 0 0 delchar"

section \<open>Reading and writing descriptors\<close>

text \<open>What the calls of \<open>read\<close> return is a list of chunks; an empty chunk (or the end of the list) is
  the end of the file or an error.\<close>

fun string_read_loop ::
  "bool \<Rightarrow> (nat \<Rightarrow> char) \<Rightarrow> int \<Rightarrow> char list list \<Rightarrow> cp_string option \<Rightarrow> cp_string option option" where
  "string_read_loop ok g len chunks res =
     (if len = 0 \<or> (case res of None \<Rightarrow> True | Some r \<Rightarrow> cs_len r < len)
      then (case chunks of
              [] \<Rightarrow> Some res
            | c # cs \<Rightarrow>
                if c = [] then Some res
                else (case res of
                        None \<Rightarrow> do {
                          r \<leftarrow> cp_string_create ok ok c (int (length c));
                          (case r of None \<Rightarrow> Some None | Some _ \<Rightarrow> string_read_loop ok g len cs r) }
                      | Some r \<Rightarrow> do {
                          r \<leftarrow> cp_string_cat_bin ok g r c (int (length c));
                          string_read_loop ok g len cs (Some r) }))
      else Some res)"

declare string_read_loop.simps [simp del]

definition CHUNK :: int where "CHUNK = 0x1000"

text \<open>\<open>input n\<close>: what the calls of \<open>read\<close> with \<open>n\<close> as the count return one after the other.\<close>

definition cp_string_read :: "bool \<Rightarrow> (nat \<Rightarrow> char) \<Rightarrow> (int \<Rightarrow> char list list) \<Rightarrow> int \<Rightarrow> cp_string option option" where
  "cp_string_read ok g input len =
     (let read_len = (if len = 0 then CHUNK else if len < CHUNK then len else CHUNK)
      in string_read_loop ok g len (input read_len) None)"

text \<open>The answers of \<open>write\<close>: bytes taken, interrupted, or another error. The result is the total
  and the bytes that went out.\<close>

datatype write_rv = Wrote nat | EINTR | WFAIL

fun string_write_loop :: "char list \<Rightarrow> int \<Rightarrow> write_rv list \<Rightarrow> int \<Rightarrow> (int \<times> char list) option" where
  "string_write_loop d len [] tot = (if tot < len then None else Some (tot, []))"
| "string_write_loop d len (w # ws) tot =
     (if tot < len
      then (case w of
              EINTR \<Rightarrow> string_write_loop d len ws tot
            | WFAIL \<Rightarrow> Some (tot, [])
            | Wrote n \<Rightarrow> do {
                xs \<leftarrow> rd_slice d (nat tot) n;
                (t, out) \<leftarrow> string_write_loop d len ws (tot + int n);
                Some (t, xs @ out) })
      else Some (tot, []))"

definition cp_string_write :: "cp_string \<Rightarrow> write_rv list \<Rightarrow> (int \<times> char list) option" where
  "cp_string_write str ws = do {
     d \<leftarrow> cs_data str;
     string_write_loop d (cs_len str) ws 0 }"

text \<open>The versions with a file; \<open>opened\<close> says whether it could be opened. One that cannot is \<open>NULL\<close> or 0 bytes.\<close>

definition cp_string_read_file :: "bool \<Rightarrow> bool \<Rightarrow> (nat \<Rightarrow> char) \<Rightarrow> (int \<Rightarrow> char list list) \<Rightarrow> cp_string option option" where
  "cp_string_read_file opened ok g input = (if \<not> opened then Some None else cp_string_read ok g input 0)"

definition cp_string_write_file :: "bool \<Rightarrow> cp_string \<Rightarrow> write_rv list \<Rightarrow> int option" where
  "cp_string_write_file opened str ws = (if \<not> opened then Some 0 else map_option fst (cp_string_write str ws))"

section \<open>Splitting a line into values\<close>

text \<open>\<open>strtok\<close> with one delimiter: the token and what is behind it.\<close>

definition strtok :: "char \<Rightarrow> string \<Rightarrow> (string \<times> string) option" where
  "strtok delim s =
     (let s = dropWhile (\<lambda>c. c = delim) s
      in if s = [] then None
         else Some (takeWhile (\<lambda>c. c \<noteq> delim) s, drop 1 (dropWhile (\<lambda>c. c \<noteq> delim) s)))"

text \<open>\<open>strtol(s, NULL, 16)\<close>.\<close>

definition strtol16 :: "string \<Rightarrow> int" where
  "strtol16 s =
     (let s = strip_left s;
          neg = (take 1 s = ''-'');
          s = (if take 1 s = ''-'' \<or> take 1 s = ''+'' then drop 1 s else s);
          s = (if take 2 s = ''0x'' \<or> take 2 s = ''0X'' then drop 2 s else s);
          v = digits_val 16 0 s
      in clamp_long (if neg then - v else v))"

datatype split_val = VString string | VInt int | VLong int

text \<open>\<open>args\<close> says of each pointer argument whether it is not \<open>NULL\<close>; the result is what is stored
  through each, in order.\<close>

definition split_conv :: "char \<Rightarrow> string \<Rightarrow> split_val option" where
  "split_conv c tok =
     (if c = CHR ''s'' then Some (VString tok)
      else if c = CHR ''d'' then Some (VInt (atoi tok))
      else if c = CHR ''l'' then Some (VLong (atoi tok))
      else if c = CHR ''x'' then Some (VLong (strtol16 tok))
      else None)"

fun split_loop :: "char \<Rightarrow> string \<Rightarrow> (string \<times> string) option \<Rightarrow> bool list \<Rightarrow> split_val option list option" where
  "split_loop delim [] result args = Some []"
| "split_loop delim (c # fmt) result args =
     (if c = CHR ''s'' \<or> c = CHR ''d'' \<or> c = CHR ''l'' \<or> c = CHR ''x''
      then (case args of
              [] \<Rightarrow> None
            | p # args \<Rightarrow>
                (case result of
                   None \<Rightarrow> Some []
                 | Some (tok, rest) \<Rightarrow> do {
                     vs \<leftarrow> split_loop delim fmt (strtok delim rest) args;
                     Some ((if p then split_conv c tok else None) # vs) }))
      else split_loop delim fmt result args)"

definition split_string_to_value :: "string \<Rightarrow> string \<Rightarrow> bool list \<Rightarrow> split_val option list option" where
  "split_string_to_value str fmt args = do {
     delim \<leftarrow> rd (fmt @ [NUL]) 2;
     split_loop delim fmt (strtok delim str) args }"

section \<open>Contents\<close>

definition cs_wf :: "cp_string \<Rightarrow> bool" where
  "cs_wf s \<longleftrightarrow> (\<exists>d. cs_data s = Some d \<and> cs_size s = int (length d) \<and> 0 \<le> cs_len s \<and> cs_len s \<le> cs_size s)"

definition cs_bytes :: "cp_string \<Rightarrow> char list" where
  "cs_bytes s = take (nat (cs_len s)) (the (cs_data s))"

lemma cs_wfE:
  assumes "cs_wf s"
  obtains d n where "cs_data s = Some d" "cs_size s = int (length d)" "cs_len s = int n" "n \<le> length d"
    "cs_bytes s = take n d"
  using assms that [of _ "nat (cs_len s)"] by (auto simp: cs_wf_def cs_bytes_def)

lemma cs_wfI:
  "cs_data s = Some d \<Longrightarrow> cs_size s = int (length d) \<Longrightarrow> cs_len s = int n \<Longrightarrow> n \<le> length d
   \<Longrightarrow> cs_wf s \<and> cs_bytes s = take n d"
  by (simp add: cs_wf_def cs_bytes_def)

lemma cs_realloc_prefix:
  "length d \<le> n \<Longrightarrow> \<exists>e. cs_realloc True g (Some d) (int n) = Some (d @ e) \<and> length (d @ e) = n"
  by (simp add: cs_realloc_def)

text \<open>Writing behind the contents, in a block that has room.\<close>

lemma c_memcpy_append:
  assumes "n + m \<le> length d" "m \<le> length xs"
  shows "\<exists>d'. c_memcpy d (int n) xs 0 (int m) = Some d' \<and> length d' = length d \<and>
    take (n + m) d' = take n d @ take m xs"
  using c_memcpy_nat [of d n xs 0 m] assms by simp

lemma cs_grow_wf:
  assumes "cs_wf s" "cs_len s = int n" "0 \<le> k"
  shows "\<exists>d. cs_data (cs_grow True g (s\<lparr>cs_len := int (n + k)\<rparr>)) = Some d \<and>
    cs_size (cs_grow True g (s\<lparr>cs_len := int (n + k)\<rparr>)) = int (length d) \<and> n + k < length d \<and>
    take n d = cs_bytes s \<and> cs_len (cs_grow True g (s\<lparr>cs_len := int (n + k)\<rparr>)) = int (n + k)"
proof -
  obtain d0 where d0: "cs_data s = Some d0" "cs_size s = int (length d0)" "n \<le> length d0" "cs_bytes s = take n d0"
    using cs_wfE [OF assms(1)] assms(2) by auto
  obtain e where e: "length d0 \<le> n + k + 1 \<Longrightarrow>
      cs_realloc True g (Some d0) (int (n + k + 1)) = Some (d0 @ e) \<and> length (d0 @ e) = n + k + 1"
    using cs_realloc_prefix [of d0 "n + k + 1" g] by blast
  show ?thesis
  proof (cases "int (n + k) + 1 > cs_size s")
    case True
    then have r: "cs_realloc True g (Some d0) (int (n + k) + 1) = Some (d0 @ e)" "length d0 + length e = n + k + 1"
      using e d0(2) by (auto simp: algebra_simps)
    then show ?thesis using True d0 by (simp add: cs_grow_def)
  next
    case False
    then show ?thesis using d0 by (simp add: cs_grow_def)
  qed
qed

text \<open>A string to whose contents \<open>xs\<close> was appended.\<close>

definition appended :: "cp_string \<Rightarrow> char list \<Rightarrow> cp_string \<Rightarrow> bool" where
  "appended s xs s' \<longleftrightarrow> cs_wf s' \<and> cs_bytes s' = cs_bytes s @ xs"

lemma cp_string_cstrcat_appends:
  assumes "cs_wf s"
  shows "\<exists>s'. cp_string_cstrcat True g s xs = Some s' \<and> appended s xs s'"
proof -
  obtain n where n: "cs_len s = int n" using cs_wfE [OF assms] by metis
  let ?s = "cs_grow True g (s\<lparr>cs_len := int (n + length xs)\<rparr>)"
  obtain d where d: "cs_data ?s = Some d" "cs_size ?s = int (length d)" "n + length xs < length d" "take n d = cs_bytes s"
    "cs_len ?s = int (n + length xs)"
    using cs_grow_wf [OF assms n, of "length xs" g] by auto
  obtain d' where d': "c_memcpy d (int n) xs 0 (int (length xs)) = Some d'" "length d' = length d"
    "take (n + length xs) d' = take n d @ xs"
    using c_memcpy_append [of n "length xs" d xs] d(3) by auto
  have "cs_wf (?s\<lparr>cs_data := Some d'\<rparr>) \<and> cs_bytes (?s\<lparr>cs_data := Some d'\<rparr>) = take (n + length xs) d'"
    by (rule cs_wfI) (use d d' in simp_all)
  then show ?thesis
    using n d d' by (simp add: cp_string_cstrcat_def Let_def appended_def)
qed

lemma cp_string_cat_appends:
  assumes "cs_wf s" "cs_wf a"
  shows "\<exists>s'. cp_string_cat True g s a = Some s' \<and> appended s (cs_bytes a) s'"
proof -
  obtain n where n: "cs_len s = int n" using cs_wfE [OF assms(1)] by metis
  obtain ad m where a: "cs_data a = Some ad" "cs_len a = int m" "m \<le> length ad" "cs_bytes a = take m ad"
    using cs_wfE [OF assms(2)] by metis
  let ?s = "cs_grow True g (s\<lparr>cs_len := int (n + m)\<rparr>)"
  obtain d where d: "cs_data ?s = Some d" "cs_size ?s = int (length d)" "n + m < length d" "take n d = cs_bytes s"
    "cs_len ?s = int (n + m)"
    using cs_grow_wf [OF assms(1) n, of m g] by auto
  obtain d' where d': "c_memcpy d (int n) ad 0 (int m) = Some d'" "length d' = length d"
    "take (n + m) d' = take n d @ take m ad"
    using c_memcpy_append [of n m d ad] d(3) a(3) by auto
  have "cs_wf (?s\<lparr>cs_data := Some d'\<rparr>) \<and> cs_bytes (?s\<lparr>cs_data := Some d'\<rparr>) = take (n + m) d'"
    by (rule cs_wfI) (use d d' in simp_all)
  then show ?thesis
    using n a d d' by (simp add: cp_string_cat_def Let_def appended_def)
qed

lemma cp_string_append_char_appends:
  assumes "cs_wf s"
  shows "\<exists>s'. cp_string_append_char True g s c = Some (Some s') \<and> appended s [c] s'"
proof -
  obtain d0 n where s: "cs_data s = Some d0" "cs_size s = int (length d0)" "cs_len s = int n" "n \<le> length d0"
    "cs_bytes s = take n d0"
    using cs_wfE [OF assms] by metis
  define s1 where "s1 = (if cs_len s + 1 > cs_size s
      then s\<lparr>cs_size := cs_len s + 0x100, cs_data := cs_realloc True g (cs_data s) (cs_len s + 0x100)\<rparr> else s)"
  obtain d where d: "cs_data s1 = Some d" "cs_size s1 = int (length d)" "n < length d" "take n d = take n d0" "cs_len s1 = int n"
  proof (cases "cs_len s + 1 > cs_size s")
    case True
    then have n: "n = length d0" using s by simp
    obtain e where "cs_realloc True g (Some d0) (int (n + 256)) = Some (d0 @ e)" "length (d0 @ e) = n + 256"
      using cs_realloc_prefix [of d0 "n + 256" g] n by auto
    then show thesis using that [of "d0 @ e"] True s n by (simp add: s1_def algebra_simps)
  next
    case False
    then show thesis using that [of d0] s by (simp add: s1_def)
  qed
  have "cp_string_append_char True g s c = Some (Some (s1\<lparr>cs_data := Some (d[n := c]), cs_len := int n + 1\<rparr>))"
    using d unfolding cp_string_append_char_def Let_def s1_def [symmetric] by simp
  moreover have "cs_wf (s1\<lparr>cs_data := Some (d[n := c]), cs_len := int n + 1\<rparr>) \<and>
      cs_bytes (s1\<lparr>cs_data := Some (d[n := c]), cs_len := int n + 1\<rparr>) = take (n + 1) (d[n := c])"
    by (rule cs_wfI) (use d in simp_all)
  moreover have "take (n + 1) (d[n := c]) = take n d0 @ [c]"
    using d(3,4) by (simp add: take_Suc_conv_app_nth)
  ultimately show ?thesis using s(5) by (simp add: appended_def)
qed

lemma cp_string_cat_bin_appends:
  assumes "cs_wf s"
  shows "\<exists>s'. cp_string_cat_bin True g s xs (int (length xs)) = Some s' \<and> appended s xs s'"
proof -
  obtain d0 n where s: "cs_data s = Some d0" "cs_size s = int (length d0)" "cs_len s = int n" "n \<le> length d0"
    "cs_bytes s = take n d0"
    using cs_wfE [OF assms] by metis
  define t where "t = s\<lparr>cs_len := cs_len s + int (length xs)\<rparr>"
  define m where "m = n + length xs + 1024 - (n + length xs) mod 1024"
  have m: "cs_len t + 0x400 - cs_len t smod 0x400 = int m" "n + length xs \<le> m"
  proof -
    have "cs_len t smod 0x400 = int ((n + length xs) mod 1024)"
      using s(3) by (simp add: t_def smod_nonneg zmod_int)
    moreover have "(n + length xs) mod 1024 \<le> 1024" by (simp add: less_imp_le)
    ultimately show "cs_len t + 0x400 - cs_len t smod 0x400 = int m" "n + length xs \<le> m"
      using s(3) by (simp_all add: t_def m_def of_nat_diff)
  qed
  define s1 where "s1 = (if cs_len t > cs_size t
      then t\<lparr>cs_size := int m, cs_data := cs_realloc True g (cs_data t) (int m)\<rparr> else t)"
  obtain d where d: "cs_data s1 = Some d" "cs_size s1 = int (length d)" "n + length xs \<le> length d" "take n d = take n d0"
    "cs_len s1 = int (n + length xs)"
  proof (cases "cs_len t > cs_size t")
    case True
    then have "length d0 \<le> m" using s m(2) by (simp add: t_def)
    then obtain e where "cs_realloc True g (Some d0) (int m) = Some (d0 @ e)" "length (d0 @ e) = m"
      using cs_realloc_prefix [of d0 m g] by blast
    then show thesis using that [of "d0 @ e"] True s m(2) by (simp add: s1_def t_def)
  next
    case False
    then show thesis using that [of d0] s by (simp add: s1_def t_def)
  qed
  obtain d' where d': "c_memcpy d (int n) xs 0 (int (length xs)) = Some d'" "length d' = length d"
    "take (n + length xs) d' = take n d @ xs"
    using c_memcpy_append [of n "length xs" d xs] d(3) by auto
  have "cp_string_cat_bin True g s xs (int (length xs)) = Some (s1\<lparr>cs_data := Some d'\<rparr>)"
    using d(1) d'(1) s(3) unfolding cp_string_cat_bin_def Let_def t_def [symmetric] m(1) s1_def [symmetric] by simp
  moreover have "cs_wf (s1\<lparr>cs_data := Some d'\<rparr>) \<and> cs_bytes (s1\<lparr>cs_data := Some d'\<rparr>) = take (n + length xs) d'"
    by (rule cs_wfI) (use d d' in simp_all)
  ultimately show ?thesis using d(4) d'(3) s(5) by (simp add: appended_def)
qed


subsection \<open>Moving between strings\<close>

lemma cp_string_move_conserves:
  assumes "cs_wf d" "cs_wf s"
  shows "\<exists>n d' s'. cp_string_move (Some d) (Some s) = Some (int n, Some d', Some s') \<and> cs_wf d' \<and> cs_wf s' \<and>
    n = min (nat (cs_size d - cs_len d)) (length (cs_bytes s)) \<and>
    cs_bytes d' = cs_bytes d @ take n (cs_bytes s) \<and> cs_bytes s' = drop n (cs_bytes s) \<and>
    cs_size d' = cs_size d \<and> cs_size s' = cs_size s"
proof -
  obtain dd m where d: "cs_data d = Some dd" "cs_size d = int (length dd)" "cs_len d = int m" "m \<le> length dd"
    "cs_bytes d = take m dd" using cs_wfE [OF assms(1)] by metis
  obtain sd k where s: "cs_data s = Some sd" "cs_size s = int (length sd)" "cs_len s = int k" "k \<le> length sd"
    "cs_bytes s = take k sd" using cs_wfE [OF assms(2)] by metis
  define n where "n = min (length dd - m) k"
  have clip: "(if cs_size d - cs_len d > cs_len s then cs_len s else cs_size d - cs_len d) = int n"
    using d s by (auto simp: n_def)
  have nk: "n \<le> k" "m + n \<le> length dd" using d(4) by (auto simp: n_def)
  obtain dd' where dd': "c_memcpy dd (int m) sd 0 (int n) = Some dd'" "length dd' = length dd"
    "take (m + n) dd' = take m dd @ take n sd"
    using c_memcpy_append [of m n dd sd] nk s(4) by auto
  define sd' where "sd' = take (k - n) (drop n sd) @ drop (k - n) sd"
  have sd': "c_memcpy sd 0 sd (int n) (int (k - n)) = Some sd'"
    using c_memcpy_nat [of sd 0 sd n "k - n"] nk s(4) by (simp add: sd'_def)
  let ?d = "d\<lparr>cs_data := Some dd', cs_len := int m + int n\<rparr>"
  let ?s = "s\<lparr>cs_data := Some sd', cs_len := int k - int n\<rparr>"
  have "cp_string_move (Some d) (Some s) = Some (int n, Some ?d, Some ?s)"
    using d s nk dd'(1) sd' clip unfolding cp_string_move_def Let_def by (simp add: of_nat_diff)
  moreover have "cs_wf ?d \<and> cs_bytes ?d = take (m + n) dd'"
    by (rule cs_wfI) (use d dd' nk in simp_all)
  moreover have "cs_wf ?s \<and> cs_bytes ?s = take (k - n) sd'"
    by (rule cs_wfI) (use s nk in \<open>simp_all add: sd'_def of_nat_diff\<close>)
  moreover have "take (k - n) sd' = drop n (take k sd)"
    using nk s(4) by (simp add: sd'_def drop_take)
  moreover have "n = min (nat (cs_size d - cs_len d)) (length (cs_bytes s))"
    using d s by (simp add: n_def nat_diff_distrib)
  ultimately show ?thesis using d s dd'(3) nk by (auto simp: min_def)
qed

subsection \<open>Reversing\<close>

lemma flip_loop_rev:
  "i + n = f + 1 \<Longrightarrow> f < length d \<Longrightarrow>
   flip_loop d i f = Some (take i d @ rev (take n (drop i d)) @ drop (i + n) d)"
proof (induction d i f arbitrary: n rule: flip_loop.induct)
  case (1 d i f)
  show ?case
  proof (cases "i < f")
    case False
    then have "n = 0 \<or> n = 1" using 1(2) by auto
    then have "rev (take n (drop i d)) = take n (drop i d)" by (cases "drop i d") auto
    moreover have "take i d @ take n (drop i d) @ drop (i + n) d = d"
      by (metis append_take_drop_id drop_drop add.commute)
    ultimately show ?thesis using False by (subst flip_loop.simps) simp
  next
    case True
    then obtain m where m: "n = Suc (Suc m)" using 1(2) by (cases n; cases "n - 1") auto
    let ?d = "(d[i := d ! f])[f := d ! i]"
    have f: "f = i + m + 1" using 1(2) m by simp
    have "flip_loop ?d (i + 1) (f - 1) = Some (take (i + 1) ?d @ rev (take m (drop (i + 1) ?d)) @ drop (i + 1 + m) ?d)"
      using 1(1) [of "d ! i" "d ! f" "d[i := d ! f]" ?d m] True 1(3) f by simp
    moreover have "take (i + 1) ?d = take i d @ [d ! f]"
      using True 1(3) by (simp add: take_Suc_conv_app_nth)
    moreover have "take m (drop (i + 1) ?d) = take m (drop (i + 1) d)"
      using f by (intro nth_equalityI) auto
    moreover have "drop (i + 1 + m) ?d = d ! i # drop (i + n) d"
      using f 1(3) m by (simp add: Cons_nth_drop_Suc [symmetric])
    moreover have "take n (drop i d) = d ! i # take m (drop (i + 1) d) @ [d ! f]"
    proof -
      have "drop i d = d ! i # drop (Suc i) d" using True 1(3) by (simp add: Cons_nth_drop_Suc)
      then have "take n (drop i d) = d ! i # take (Suc m) (drop (Suc i) d)" using m by simp
      also have "take (Suc m) (drop (Suc i) d) = take m (drop (Suc i) d) @ [d ! f]"
        using f 1(3) by (subst take_Suc_conv_app_nth) (auto simp: add.commute)
      finally show ?thesis by simp
    qed
    ultimately show ?thesis
      using True 1(3) by (subst flip_loop.simps) simp
  qed
qed

lemma cp_string_flip_rev:
  assumes "cs_wf s"
  shows "\<exists>s'. cp_string_flip s = Some s' \<and> cs_wf s' \<and> cs_bytes s' = rev (cs_bytes s)"
proof -
  obtain d n where s: "cs_data s = Some d" "cs_size s = int (length d)" "cs_len s = int n" "n \<le> length d"
    "cs_bytes s = take n d" using cs_wfE [OF assms] by metis
  show ?thesis
  proof (cases "n = 0")
    case True
    then show ?thesis using assms s by (simp add: cp_string_flip_def)
  next
    case False
    let ?d = "rev (take n d) @ drop n d"
    have "flip_loop d 0 (n - 1) = Some ?d"
      using flip_loop_rev [of 0 n "n - 1" d] False s(4) by simp
    then have "cp_string_flip s = Some (s\<lparr>cs_data := Some ?d\<rparr>)"
      using False s by (simp add: cp_string_flip_def)
    moreover have "cs_wf (s\<lparr>cs_data := Some ?d\<rparr>) \<and> cs_bytes (s\<lparr>cs_data := Some ?d\<rparr>) = take n ?d"
      by (rule cs_wfI) (use s in simp_all)
    ultimately show ?thesis using s by simp
  qed
qed

subsection \<open>Filtering\<close>

lemma cstr_append_NUL: "NUL \<notin> set r \<Longrightarrow> cstr (r @ NUL # x) = r"
  unfolding cstr_def NUL_def by (subst takeWhile_append2) auto

lemma takeWhile_append_stop: "\<forall>x\<in>set a. P x \<Longrightarrow> q = [] \<or> \<not> P (hd q) \<Longrightarrow> takeWhile P (a @ q) = a"
  by (cases q) auto

text \<open>What one round of the loop does when the contents from \<open>i\<close> on are \<open>a @ l @ q\<close>: \<open>a\<close> is kept, the
  run \<open>l\<close> of letters is cut.\<close>

lemma filter_loop_stop:
  assumes "d = p @ r @ NUL # x" "NUL \<notin> set r" "\<forall>c\<in>set r. c \<notin> set letters"
  shows "filter_loop d len (length p) letters = Some (d, len)"
proof -
  have "cstr (drop (length p) d) = r" using assms cstr_append_NUL by simp
  moreover have "takeWhile (\<lambda>c. c \<notin> set letters) r = r" using assms(3) by (simp add: takeWhile_eq_all_conv)
  ultimately show ?thesis by (subst filter_loop.simps) (simp only: Let_def if_True simp_thms)
qed

lemma filter_loop_round:
  assumes d: "d = p @ a @ l @ q @ NUL # x" and z: "NUL \<notin> set (a @ l @ q)"
    and a: "\<forall>c\<in>set a. c \<notin> set letters" and l: "\<forall>c\<in>set l. c \<in> set letters" "l \<noteq> []"
    and q: "q = [] \<or> hd q \<notin> set letters"
  shows "filter_loop d len (length p) letters =
    (let i = length p + length a; f = i + length l in
     case rd d f of None \<Rightarrow> None
     | Some c \<Rightarrow>
         if c \<noteq> NUL
         then (case c_memcpy d (int i) d (int f) (int len - int f) of None \<Rightarrow> None
              | Some d1 \<Rightarrow> (case wr d1 (len - (f - i)) NUL of None \<Rightarrow> None
                            | Some d2 \<Rightarrow> filter_loop d2 (len - (f - i)) i letters))
         else (case wr d i NUL of None \<Rightarrow> None | Some d1 \<Rightarrow> Some (d1, i)))"
proof -
  have s: "cstr (drop (length p) d) = a @ l @ q" using d z cstr_append_NUL [of "a @ l @ q" x] by simp
  have ta: "takeWhile (\<lambda>c. c \<notin> set letters) (a @ l @ q) = a"
    using a l by (intro takeWhile_append_stop) (auto simp: neq_Nil_conv)
  have tl: "takeWhile (\<lambda>c. c \<in> set letters) (drop (length a) (a @ l @ q)) = l"
    using l q takeWhile_append_stop [of l "\<lambda>c. c \<in> set letters" q] by simp
  have ne: "length a \<noteq> length (a @ l @ q)" using l by simp
  show ?thesis
    unfolding filter_loop.simps [of d len "length p" letters] s Let_def ta tl if_not_P [OF ne] by (rule refl)
qed

lemma split_run:
  obtains (none) "\<forall>c\<in>set r. P c"
  | (run) a l q where "r = a @ l @ q" "\<forall>c\<in>set a. P c" "\<forall>c\<in>set l. \<not> P c" "l \<noteq> []" "q = [] \<or> P (hd q)"
proof (cases "\<forall>c\<in>set r. P c")
  case True then show thesis by (rule none)
next
  case False
  then obtain a x z where r: "r = a @ x # z" "\<not> P x" "\<forall>c\<in>set a. P c"
    using split_list_first_prop [of r "\<lambda>c. \<not> P c"] by blast
  show thesis
  proof (rule run)
    show "r = a @ (x # takeWhile (\<lambda>c. \<not> P c) z) @ dropWhile (\<lambda>c. \<not> P c) z" using r(1) by simp
    show "\<forall>c\<in>set a. P c" by (fact r(3))
    show "\<forall>c\<in>set (x # takeWhile (\<lambda>c. \<not> P c) z). \<not> P c" using r(2) set_takeWhileD by fastforce
    show "x # takeWhile (\<lambda>c. \<not> P c) z \<noteq> []" by simp
    show "dropWhile (\<lambda>c. \<not> P c) z = [] \<or> P (hd (dropWhile (\<lambda>c. \<not> P c) z))"
      using hd_dropWhile [of "\<lambda>c. \<not> P c" z] by blast
  qed
qed

lemma filter_loop_filters:
  "NUL \<notin> set r \<Longrightarrow>
   \<exists>x'. filter_loop (p @ r @ NUL # x) (length p + length r) (length p) letters =
     Some (p @ filter (\<lambda>c. c \<notin> set letters) r @ NUL # x', length p + length (filter (\<lambda>c. c \<notin> set letters) r)) \<and>
     length x' + length (filter (\<lambda>c. c \<notin> set letters) r) = length x + length r"
proof (induction "length r" arbitrary: p r x rule: less_induct)
  case less
  let ?P = "\<lambda>c. c \<notin> set letters" and ?d = "p @ r @ NUL # x"
  show ?case
  proof (cases rule: split_run [where r = r and P = ?P])
    case none
    then show ?thesis using filter_loop_stop [OF refl less.prems none] by simp
  next
    case (run a l q)
    let ?i = "length p + length a" and ?n = "length p + length r"
    let ?f = "?i + length l"
    have d: "?d = p @ a @ l @ q @ NUL # x" using run(1) by simp
    have z: "NUL \<notin> set (a @ l @ q)" using less.prems run(1) by simp
    have l: "\<forall>c\<in>set l. c \<in> set letters" using run(3) by simp
    have fr: "filter ?P r = a @ filter ?P q"
      using run l by (simp add: filter_id_conv filter_empty_conv)
    note round = filter_loop_round [OF d z run(2) l run(4,5), of ?n, unfolded Let_def]
    show ?thesis
    proof (cases q)
      case Nil
      obtain l0 l1 where l01: "l = l0 # l1" using run(4) by (cases l) auto
      have "rd ?d ?f = Some NUL" unfolding d using Nil by (simp add: nth_append)
      moreover have "wr ?d ?i NUL = Some (p @ a @ NUL # (l1 @ NUL # x))"
        unfolding d l01 using Nil by (simp add: list_update_append)
      ultimately have "filter_loop ?d ?n (length p) letters = Some (p @ a @ NUL # (l1 @ NUL # x), ?i)"
        unfolding round by simp
      then show ?thesis using fr Nil run(1) l01 by simp
    next
      case (Cons c q')
      have c: "rd ?d ?f = Some c" unfolding d using Cons by (simp add: nth_append)
      have c0: "c \<noteq> NUL" using z Cons by auto
      define y where "y = drop (length q) (l @ q @ NUL # x)"
      have y: "length y = length l + 1 + length x" by (simp add: y_def)
      then obtain y0 y1 where y01: "y = y0 # y1" by (cases y) auto
      have cnt: "int ?n - int ?f = int (length q)" using run(1) by simp
      have mv: "c_memcpy ?d (int ?i) ?d (int ?f) (int ?n - int ?f) = Some ((p @ a) @ q @ y)"
        unfolding cnt using c_memcpy_nat [of ?d ?i ?d ?f "length q"] unfolding d by (simp add: y_def)
      have len: "?n - (?f - ?i) = length (p @ a) + length q" using run(1) by simp
      have w: "wr ((p @ a) @ q @ y) (length (p @ a) + length q) NUL = Some ((p @ a) @ q @ NUL # y1)"
        using y01 by (simp add: list_update_append)
      have i: "?i = length (p @ a)" by simp
      have "filter_loop ?d ?n (length p) letters =
          filter_loop ((p @ a) @ q @ NUL # y1) (length (p @ a) + length q) ?i letters"
        unfolding round c option.case if_P [OF c0] mv len w ..
      note step = this [unfolded i]
      have "length q < length r" "NUL \<notin> set q" using run(1,4) z by auto
      from less.hyps [OF this, of "p @ a" y1] obtain x' where
        "filter_loop ((p @ a) @ q @ NUL # y1) (length (p @ a) + length q) (length (p @ a)) letters =
          Some ((p @ a) @ filter ?P q @ NUL # x', length (p @ a) + length (filter ?P q))"
        "length x' + length (filter ?P q) = length y1 + length q" by blast
      then show ?thesis unfolding step fr using y y01 run(1) by (intro exI [of _ x']) simp
    qed
  qed
qed

lemma cp_string_filter_filters:
  assumes "cs_wf s" "cs_len s < cs_size s" "NUL \<notin> set (cs_bytes s)"
  shows "\<exists>s'. cp_string_filter s letters = Some s' \<and> cs_wf s' \<and>
    cs_bytes s' = filter (\<lambda>c. c \<notin> set letters) (cs_bytes s)"
proof -
  obtain d n where s: "cs_data s = Some d" "cs_size s = int (length d)" "cs_len s = int n" "n \<le> length d"
    "cs_bytes s = take n d" using cs_wfE [OF assms(1)] by metis
  let ?r = "take n d" and ?x = "drop (Suc n) d"
  have n: "n < length d" using assms(2) s by simp
  have d: "d[n := NUL] = [] @ ?r @ NUL # ?x" using n by (simp add: upd_conv_take_nth_drop)
  obtain x' where "filter_loop (d[n := NUL]) n 0 letters =
      Some (filter (\<lambda>c. c \<notin> set letters) ?r @ NUL # x', length (filter (\<lambda>c. c \<notin> set letters) ?r))"
    "length x' + length (filter (\<lambda>c. c \<notin> set letters) ?r) = length ?x + length ?r"
    using filter_loop_filters [of ?r "[]" ?x letters] assms(3) s n unfolding d by auto
  moreover have "cs_wf (s\<lparr>cs_data := Some (filter (\<lambda>c. c \<notin> set letters) ?r @ NUL # x'),
        cs_len := int (length (filter (\<lambda>c. c \<notin> set letters) ?r))\<rparr>) \<and>
      cs_bytes (s\<lparr>cs_data := Some (filter (\<lambda>c. c \<notin> set letters) ?r @ NUL # x'),
        cs_len := int (length (filter (\<lambda>c. c \<notin> set letters) ?r))\<rparr>) =
      take (length (filter (\<lambda>c. c \<notin> set letters) ?r)) (filter (\<lambda>c. c \<notin> set letters) ?r @ NUL # x')"
    by (rule cs_wfI) (use calculation(2) s n in simp_all)
  ultimately show ?thesis
    using s n by (simp add: cp_string_filter_def)
qed

subsection \<open>Deleting a character\<close>

lemma del_char_loop_filters:
  "b = p @ x @ r @ NUL # y \<Longrightarrow> NUL \<notin> set r \<Longrightarrow> \<exists>x'. del_char_loop b (length p + length x) (length p) c =
     Some (p @ filter (\<lambda>e. e \<noteq> c) r @ NUL # x') \<and>
     length (p @ filter (\<lambda>e. e \<noteq> c) r @ NUL # x') = length b"
proof (induction r arbitrary: b p x)
  case Nil
  then show ?case
    by (subst del_char_loop.simps) (cases x; auto simp: nth_append list_update_append)
next
  case (Cons e r)
  have e: "b ! (length p + length x) = e" "length p + length x < length b" "e \<noteq> NUL"
    using Cons.prems by (auto simp: nth_append)
  show ?case
  proof (cases "e = c")
    case True
    then have "del_char_loop b (length p + length x) (length p) c = del_char_loop b (length p + length (x @ [e])) (length p) c"
      using e by (subst del_char_loop.simps) simp
    then show ?thesis using Cons.IH [of b p "x @ [e]"] Cons.prems True by simp
  next
    case False
    let ?x = "tl (x @ [e])" and ?p = "p @ [e]"
    have "wr b (length p) e = Some (?p @ ?x @ r @ NUL # y)"
      using Cons.prems(1) by (cases x) (auto simp: list_update_append)
    moreover have "length ?p + length ?x = length p + length x + 1" by (cases x) auto
    ultimately have "del_char_loop b (length p + length x) (length p) c =
        del_char_loop (?p @ ?x @ r @ NUL # y) (length ?p + length ?x) (length ?p) c"
      using e False by (subst del_char_loop.simps) simp
    moreover have "length (?p @ ?x @ r @ NUL # y) = length b" using Cons.prems(1) by (cases x) auto
    ultimately show ?thesis
      using Cons.IH [of "?p @ ?x @ r @ NUL # y" ?p ?x] Cons.prems(2) False by auto
  qed
qed

lemma del_char_filters:
  assumes "NUL \<notin> set r"
  shows "\<exists>x'. del_char_from_string (r @ NUL # y) c = Some (filter (\<lambda>e. e \<noteq> c) r @ NUL # x')"
  using del_char_loop_filters [of "r @ NUL # y" "[]" "[]" r y c] assms by (auto simp: del_char_from_string_def)

subsection \<open>Reading and writing\<close>

text \<open>Whatever the calls of \<open>write\<close> answer, what went out is a prefix of the contents that is left,
  and the total counts it.\<close>

lemma string_write_loop_prefix:
  "string_write_loop d len ws (int tot) = Some (t, out) \<Longrightarrow>
   t = int (tot + length out) \<and> out = take (length out) (drop tot d)"
proof (induction ws arbitrary: tot t out)
  case Nil
  then show ?case by (auto split: if_splits)
next
  case (Cons w ws)
  show ?case
  proof (cases "int tot < len")
    case False
    then show ?thesis using Cons.prems by simp
  next
    case True
    show ?thesis
    proof (cases w)
      case (Wrote n)
      with True Cons.prems obtain xs out' where x: "rd_slice d tot n = Some xs"
        "string_write_loop d len ws (int (tot + n)) = Some (t, out')" "out = xs @ out'"
        by auto
      have "t = int (tot + n + length out')" "out' = take (length out') (drop (tot + n) d)"
        using Cons.IH [OF x(2)] by auto
      moreover have "xs = take n (drop tot d)" "length xs = n"
        using x(1) by (auto simp: rd_slice_def split: if_splits)
      ultimately show ?thesis using x(3) by (simp add: take_add add.commute)
    qed (use True Cons in auto)
  qed
qed

subsection \<open>Splitting\<close>

lemma strtok_first:
  assumes "tok \<noteq> []" "delim \<notin> set tok"
  shows "strtok delim (tok @ delim # rest) = Some (tok, rest)"
proof -
  have "dropWhile (\<lambda>c. c = delim) (tok @ delim # rest) = tok @ delim # rest" using assms by (cases tok) auto
  moreover have "takeWhile (\<lambda>c. c \<noteq> delim) (tok @ delim # rest) = tok"
    using assms(2) by (intro takeWhile_append_stop) auto
  moreover have "dropWhile (\<lambda>c. c \<noteq> delim) (tok @ delim # rest) = delim # rest"
    using assms(2) by (subst dropWhile_append2) auto
  ultimately show ?thesis by (simp add: strtok_def)
qed

lemma strtok_last:
  assumes "tok \<noteq> []" "delim \<notin> set tok"
  shows "strtok delim tok = Some (tok, [])"
proof -
  have "dropWhile (\<lambda>c. c = delim) tok = tok" using assms by (cases tok) auto
  moreover have "takeWhile (\<lambda>c. c \<noteq> delim) tok = tok"
    unfolding takeWhile_eq_all_conv using assms(2) by auto
  moreover have d: "dropWhile (\<lambda>c. c \<noteq> delim) tok = []"
    unfolding dropWhile_eq_Nil_conv using assms(2) by auto
  moreover have "drop 1 (dropWhile (\<lambda>c. c \<noteq> delim) tok) = []" unfolding d by simp
  ultimately show ?thesis using assms(1) unfolding strtok_def Let_def by (simp del: drop_eq_Nil)
qed

text \<open>A conversion character of the format.\<close>

definition conv_char :: "char \<Rightarrow> bool" where
  "conv_char c \<longleftrightarrow> c \<in> set ''sdlx''"

lemma strtok_csv:
  "xs \<noteq> [] \<Longrightarrow> \<forall>x\<in>set xs. x \<noteq> [] \<and> d \<notin> set x \<Longrightarrow> strtok d (csv d xs) = Some (hd xs, csv d (tl xs))"
  by (cases "(d, xs)" rule: csv.cases) (auto simp: strtok_first strtok_last)

lemma strtok_Nil: "strtok d [] = None"
  by (simp add: strtok_def)

lemma split_loop_csv:
  assumes "length cs = length xs" "length ps = length xs" "\<forall>c\<in>set cs. conv_char c" "\<not> conv_char d"
    "\<forall>x\<in>set xs. x \<noteq> [] \<and> d \<notin> set x" "cs \<noteq> []"
  shows "split_loop d (csv d (map (\<lambda>c. [CHR ''%'', c]) cs)) (strtok d (csv d xs)) ps =
    Some (map (\<lambda>(c, x, p). if p then split_conv c x else None) (zip cs (zip xs ps)))"
  using assms
proof (induction cs arbitrary: xs ps)
  case Nil
  then show ?case by simp
next
  case (Cons c cs)
  obtain x xs' p ps' where xs: "xs = x # xs'" "ps = p # ps'" using Cons.prems(1,2) by (cases xs; cases ps) auto
  have tok: "strtok d (csv d xs) = Some (x, csv d xs')" using strtok_csv [of xs d] Cons.prems(5) xs by simp
  have c: "c = CHR ''s'' \<or> c = CHR ''d'' \<or> c = CHR ''l'' \<or> c = CHR ''x''"
    using Cons.prems(3) by (auto simp: conv_char_def)
  have dn: "d \<noteq> CHR ''s''" "d \<noteq> CHR ''d''" "d \<noteq> CHR ''l''" "d \<noteq> CHR ''x''"
    using Cons.prems(4) by (auto simp: conv_char_def)
  show ?case
  proof (cases cs)
    case Nil
    then show ?thesis using tok c xs Cons.prems(1) by (simp add: strtok_Nil)
  next
    case (Cons c2 cs')
    have "split_loop d (csv d (map (\<lambda>c. [CHR ''%'', c]) cs)) (strtok d (csv d xs')) ps' =
      Some (map (\<lambda>(c, x, p). if p then split_conv c x else None) (zip cs (zip xs' ps')))"
      using Cons.IH [of xs' ps'] Cons.prems xs Cons by simp
    moreover have "csv d (map (\<lambda>c. [CHR ''%'', c]) (c # cs)) = [CHR ''%'', c, d] @ csv d (map (\<lambda>c. [CHR ''%'', c]) cs)"
      using Cons by simp
    ultimately show ?thesis using tok c xs dn by simp
  qed
qed

section \<open>Properties\<close>

text \<open>Concatenation: to a well-formed string \<open>cp_string_cat\<close>, \<open>cp_string_cstrcat\<close>,
  \<open>cp_string_append_char\<close> and \<open>cp_string_cat_bin\<close> append exactly the bytes of their argument, growing
  the block when needed; no byte is written outside of it and the result is well-formed.\<close>

theorem cp_string_appends:
  assumes "cs_wf s" "cs_wf a"
  shows "(\<exists>s'. cp_string_cat True g s a = Some s' \<and> cs_wf s' \<and> cs_bytes s' = cs_bytes s @ cs_bytes a) \<and>
    (\<exists>s'. cp_string_cstrcat True g s xs = Some s' \<and> cs_wf s' \<and> cs_bytes s' = cs_bytes s @ xs) \<and>
    (\<exists>s'. cp_string_append_char True g s c = Some (Some s') \<and> cs_wf s' \<and> cs_bytes s' = cs_bytes s @ [c]) \<and>
    (\<exists>s'. cp_string_cat_bin True g s xs (int (length xs)) = Some s' \<and> cs_wf s' \<and> cs_bytes s' = cs_bytes s @ xs)"
  using cp_string_cat_appends [OF assms] cp_string_cstrcat_appends [OF assms(1)]
    cp_string_append_char_appends [OF assms(1)] cp_string_cat_bin_appends [OF assms(1)]
  by (auto simp: appended_def)

definition str_ab :: cp_string where
  "str_ab = \<lparr>cs_size = 2, cs_len = 2, cs_data = Some ''ab''\<rparr>"

lemma str_ab_wf: "cs_wf str_ab"
  by (simp add: cs_wf_def str_ab_def)

theorem cp_string_appends_witness:
  "\<exists>s'. cp_string_cat True (\<lambda>_. NUL) str_ab str_ab = Some s' \<and> cs_wf s' \<and>
     cs_bytes s' = cs_bytes str_ab @ cs_bytes str_ab"
  using cp_string_appends [OF str_ab_wf str_ab_wf] by blast

text \<open>\<open>cp_string_flip\<close> reverses the contents, \<open>cp_string_filter\<close> deletes every byte of the set of
  letters (when the block has room for the terminating zero) and \<open>del_char_from_string\<close> every
  occurrence of a character; the other bytes keep their order.\<close>

theorem cp_string_edit_functional:
  assumes "cs_wf s" "cs_len s < cs_size s" "NUL \<notin> set (cs_bytes s)"
  shows "(\<exists>s'. cp_string_flip s = Some s' \<and> cs_wf s' \<and> cs_bytes s' = rev (cs_bytes s)) \<and>
    (\<exists>s'. cp_string_filter s letters = Some s' \<and> cs_wf s' \<and>
      cs_bytes s' = filter (\<lambda>c. c \<notin> set letters) (cs_bytes s)) \<and>
    (\<exists>x'. del_char_from_string (cs_bytes s @ NUL # y) ch = Some (filter (\<lambda>e. e \<noteq> ch) (cs_bytes s) @ NUL # x'))"
  using cp_string_flip_rev [OF assms(1)] cp_string_filter_filters [OF assms] del_char_filters [OF assms(3)]
  by blast

definition str_xyxy :: cp_string where
  "str_xyxy = \<lparr>cs_size = 6, cs_len = 4, cs_data = Some (''xyxy'' @ [NUL, NUL])\<rparr>"

theorem cp_string_edit_functional_witness:
  "\<exists>s'. cp_string_filter str_xyxy ''x'' = Some s' \<and> cs_wf s' \<and> cs_bytes s' = ''yy''"
proof -
  have "cs_wf str_xyxy" "cs_len str_xyxy < cs_size str_xyxy" "NUL \<notin> set (cs_bytes str_xyxy)"
    by (simp_all add: cs_wf_def cs_bytes_def str_xyxy_def NUL_def)
  then show ?thesis
    using cp_string_edit_functional [of str_xyxy "''x''"] by (simp add: cs_bytes_def str_xyxy_def)
qed

text \<open>Where the two conversions with C strings leave their blocks: on a well-formed string
  \<open>cp_string_tocstr\<close> writes behind the block exactly when the string is full, and
  \<open>cp_string_cstrcpy\<close> reads behind the source exactly when the block is larger than the source with its
  terminating zero, because it copies the size of the block.\<close>

theorem cp_string_cstr_bounds:
  assumes "cs_wf s"
  shows "(cp_string_tocstr (Some s) = None \<longleftrightarrow> cs_len s = cs_size s) \<and>
    (cp_string_cstrcpy True (Some s) xs = None \<longleftrightarrow> cs_size s > int (length xs) + 1)"
proof -
  obtain d n where s: "cs_data s = Some d" "cs_size s = int (length d)" "cs_len s = int n" "n \<le> length d"
    "cs_bytes s = take n d" using cs_wfE [OF assms] by metis
  have "cp_string_tocstr (Some s) = None \<longleftrightarrow> cs_len s = cs_size s"
    using s by (auto simp: cp_string_tocstr_def wr_def)
  moreover have "cp_string_cstrcpy True (Some s) xs = None \<longleftrightarrow> cs_size s > int (length xs) + 1"
    using s by (auto simp: cp_string_cstrcpy_def Let_def c_memcpy_def cs_malloc_def rd_slice_def wr_slice_def)
  ultimately show ?thesis ..
qed

theorem cp_string_cstr_bounds_witness: "cp_string_tocstr (Some str_ab) = None"
  using cp_string_cstr_bounds [OF str_ab_wf] by (simp add: str_ab_def)

text \<open>Splitting a line: with a format of conversions joined by a delimiter, and a line of as many
  non-empty fields joined by the same delimiter, every field is converted and stored through its
  pointer, and skipped when the pointer is \<open>NULL\<close>.\<close>

theorem split_string_to_value_fields:
  assumes "length cs = length xs" "length ps = length xs" "\<forall>c\<in>set cs. conv_char c" "\<not> conv_char d"
    "\<forall>x\<in>set xs. x \<noteq> [] \<and> d \<notin> set x" "2 \<le> length cs"
  shows "split_string_to_value (csv d xs) (csv d (map (\<lambda>c. [CHR ''%'', c]) cs)) ps =
    Some (map (\<lambda>(c, x, p). if p then split_conv c x else None) (zip cs (zip xs ps)))"
proof -
  obtain c1 c2 cs' where cs: "cs = c1 # c2 # cs'" using assms(6) by (cases cs; cases "tl cs") auto
  then have "rd (csv d (map (\<lambda>c. [CHR ''%'', c]) cs) @ [NUL]) 2 = Some d" by simp
  then show ?thesis
    using split_loop_csv [OF assms(1-5)] cs by (simp add: split_string_to_value_def)
qed

theorem split_string_to_value_fields_witness:
  "split_string_to_value ''24,-7,CMCC'' ''%d,%x,%s'' [True, False, True] =
     Some [Some (VInt 24), None, Some (VString ''CMCC'')]"
proof -
  have "split_conv CHR ''d'' ''24'' = Some (VInt 24)" "split_conv CHR ''s'' ''CMCC'' = Some (VString ''CMCC'')" by code_simp+
  then show ?thesis
    using split_string_to_value_fields [of "''dxs''" "[''24'', ''-7'', ''CMCC'']" "[True, False, True]" "CHR '',''"]
    by (simp add: conv_char_def)
qed

end
