(* ===== verification/Fds.thy ===== *)
theory Fds
  imports CpQueue CpArray CpTime CpString
begin

text \<open>
  The event loop of \<open>cp_library/cp_fds.c\<close>: sockets with pending events wait in the event
  queue (\<open>cp_queue.c\<close>), sockets with urgent work (timeouts, pending sends) in the task array
  (\<open>cp_array.c\<close>), and flags in each socket say where it is. The state holds the sockets by
  address, the nodes of the queue, and the registry lists; the intrusive kernel lists are lists of addresses.

  The fields \<open>f_calls\<close> and \<open>f_privt_calls\<close> are not in the struct: they record the calls of the
  callbacks of the sockets and of the functions that free private data.

  What the kernel answers is an argument: the outcome of \<open>epoll_ctl\<close>, the events of
  \<open>epoll_wait\<close>, the time. \<open>t_malloc\<close> is a function of the queue's heap, and the callbacks
  of the sockets are a function on the state.
\<close>

section \<open>Sockets and the context\<close>

definition FLAG_SOCK_INIT :: u16 where "FLAG_SOCK_INIT = push_bit 0 1"
definition FLAG_SOCK_MALLOC :: u16 where "FLAG_SOCK_MALLOC = push_bit 1 1"
definition FLAG_SOCK_EPOLLED :: u16 where "FLAG_SOCK_EPOLLED = push_bit 2 1"
definition FLAG_SOCK_REGISTRY :: u16 where "FLAG_SOCK_REGISTRY = push_bit 3 1"
definition FLAG_SOCK_INQUEUE :: u16 where "FLAG_SOCK_INQUEUE = push_bit 4 1"
definition FLAG_SOCK_TASKED :: u16 where "FLAG_SOCK_TASKED = push_bit 5 1"

definition CP_SOCK_MODE_ACCEPT :: int where "CP_SOCK_MODE_ACCEPT = 1"
definition CP_SOCK_MODE_CONNECT :: int where "CP_SOCK_MODE_CONNECT = 2"
definition CP_SOCK_MODE_LISTEN :: int where "CP_SOCK_MODE_LISTEN = 3"

definition SOCK_STAT_ALREADY :: u8 where "SOCK_STAT_ALREADY = 2"

definition CP_SOCK_EVENT_READ :: u32 where "CP_SOCK_EVENT_READ = 1"
definition CP_SOCK_EVENT_IDLE_TIMEOUT :: u32 where "CP_SOCK_EVENT_IDLE_TIMEOUT = push_bit 16 1"
definition CP_SOCK_EVENT_MSG_TIMEOUT :: u32 where "CP_SOCK_EVENT_MSG_TIMEOUT = push_bit 17 1"

record cp_sock =
  s_fd :: int
  s_mode :: int
  s_flag :: u16
  s_status :: u8
  s_actv_time :: u32
  s_msg_time :: u32
  s_idle_timeout :: u32
  s_msg_timeout :: u32
  s_keepintvl :: int
  s_keepcnt :: int
  s_rsize :: int
  s_ssize :: int
  s_events :: u32
  s_sbuf :: str_ptr
  s_rbuf :: str_ptr
  s_saddr :: "u8 list"
  s_laddr :: "char list"
  s_lport :: int
  s_raddr :: "char list"
  s_rport :: int
  s_fds :: bool
  s_cbfunc :: "nat option"
  s_client_func :: "nat option"
  s_serv_sock :: "addr option"
  s_max_client :: int
  s_accept_cnt :: int
  s_accept_list :: "addr list"
  s_privt :: "nat option"
  s_privt_free :: "nat option"
  s_index :: int

record cp_fds =
  f_flag :: u8
  f_epfd :: int
  f_timeout :: int
  f_max_event :: int
  f_event_cnt :: int
  f_server_list :: "addr list"
  f_client_list :: "addr list"
  f_queue :: "cp_queue option"
  f_tasks :: "addr cp_array option"
  f_heap :: "addr qheap"
  f_socks :: "addr \<rightharpoonup> cp_sock"
  f_calls :: "(nat \<times> addr) list"
  f_privt_calls :: "nat list"

definition has_flag :: "u16 \<Rightarrow> cp_sock \<Rightarrow> bool" where
  "has_flag f s \<longleftrightarrow> s_flag s AND f \<noteq> 0"

definition set_flag :: "u16 \<Rightarrow> cp_sock \<Rightarrow> cp_sock" where
  "set_flag f s = s\<lparr>s_flag := s_flag s OR f\<rparr>"

definition clear_flag :: "u16 \<Rightarrow> cp_sock \<Rightarrow> cp_sock" where
  "clear_flag f s = s\<lparr>s_flag := s_flag s AND NOT f\<rparr>"

definition put_sock :: "addr \<Rightarrow> cp_sock \<Rightarrow> cp_fds \<Rightarrow> cp_fds" where
  "put_sock a s st = st\<lparr>f_socks := (f_socks st)(a \<mapsto> s)\<rparr>"

section \<open>The epoll set\<close>

text \<open>The outcome of \<open>epoll_ctl\<close>: success, the error \<open>EEXIST\<close>, another error.\<close>

datatype epoll_rv = EP_OK | EP_EXIST | EP_FAIL

definition cp_add_epoll_event :: "epoll_rv \<Rightarrow> addr option \<Rightarrow> cp_fds \<Rightarrow> (int \<times> cp_fds) option" where
  "cp_add_epoll_event rv sock st =
     (case sock of None \<Rightarrow> Some (- 1, st)
      | Some a \<Rightarrow> do {
          s \<leftarrow> f_socks st a;
          if \<not> s_fds s then Some (- 1, st)
          else if has_flag FLAG_SOCK_EPOLLED s then Some (0, st)
          else if f_event_cnt st > f_max_event st then Some (- 2, st)
          else let s = s\<lparr>s_events := CP_SOCK_EVENT_READ\<rparr> in
            case rv of
              EP_EXIST \<Rightarrow> Some (0, put_sock a s st)
            | EP_FAIL \<Rightarrow> Some (- 3, put_sock a s st)
            | EP_OK \<Rightarrow>
                Some (0, put_sock a (set_flag FLAG_SOCK_EPOLLED s) (st\<lparr>f_event_cnt := f_event_cnt st + 1\<rparr>)) })"

definition cp_mod_epoll_event :: "bool \<Rightarrow> addr option \<Rightarrow> u32 \<Rightarrow> cp_fds \<Rightarrow> (int \<times> cp_fds) option" where
  "cp_mod_epoll_event ok sock event st =
     (case sock of None \<Rightarrow> Some (- 1, st)
      | Some a \<Rightarrow> do {
          s \<leftarrow> f_socks st a;
          if \<not> s_fds s then Some (- 1, st)
          else if \<not> has_flag FLAG_SOCK_EPOLLED s then Some (- 2, st)
          else Some (if ok then 0 else - 3, put_sock a (s\<lparr>s_events := event\<rparr>) st) })"

definition cp_del_epoll_event :: "addr option \<Rightarrow> cp_fds \<Rightarrow> cp_fds option" where
  "cp_del_epoll_event sock st =
     (case sock of None \<Rightarrow> Some st
      | Some a \<Rightarrow> do {
          s \<leftarrow> f_socks st a;
          if \<not> s_fds s then Some st
          else if \<not> has_flag FLAG_SOCK_EPOLLED s then Some st
          else Some (put_sock a (clear_flag FLAG_SOCK_EPOLLED s) (st\<lparr>f_event_cnt := f_event_cnt st - 1\<rparr>)) })"

section \<open>The registry\<close>

definition cp_fds_add_sock_registry :: "addr option \<Rightarrow> cp_fds \<Rightarrow> (int \<times> cp_fds) option" where
  "cp_fds_add_sock_registry sock st =
     (case sock of None \<Rightarrow> Some (- 1, st)
      | Some a \<Rightarrow> do {
          s \<leftarrow> f_socks st a;
          if \<not> s_fds s then Some (- 1, st)
          else if has_flag FLAG_SOCK_REGISTRY s then Some (0, st)
          else let s' = set_flag FLAG_SOCK_REGISTRY s in
            if s_mode s = CP_SOCK_MODE_CONNECT
            then Some (0, put_sock a s' (st\<lparr>f_client_list := f_client_list st @ [a]\<rparr>))
            else if s_mode s = CP_SOCK_MODE_LISTEN
            then Some (0, put_sock a s' (st\<lparr>f_server_list := f_server_list st @ [a]\<rparr>))
            else if s_mode s = CP_SOCK_MODE_ACCEPT
            then (case s_serv_sock s of
                    None \<Rightarrow> Some (- 2, st)
                  | Some v \<Rightarrow> do {
                      srv \<leftarrow> f_socks st v;
                      let st = put_sock v (srv\<lparr>s_accept_list := s_accept_list srv @ [a],
                                              s_accept_cnt := s_accept_cnt srv + 1\<rparr>) st;
                      s \<leftarrow> f_socks st a;
                      Some (0, put_sock a (set_flag FLAG_SOCK_REGISTRY s) st) })
            else Some (- 2, st) })"

text \<open>\<open>list_del\<close> unlinks the socket from the one list that it is in.\<close>

definition unlink_registry :: "addr \<Rightarrow> cp_fds \<Rightarrow> cp_fds" where
  "unlink_registry a st =
     st\<lparr>f_client_list := remove1 a (f_client_list st), f_server_list := remove1 a (f_server_list st),
        f_socks := (\<lambda>b. map_option (\<lambda>s. s\<lparr>s_accept_list := remove1 a (s_accept_list s)\<rparr>) (f_socks st b))\<rparr>"

definition cp_fds_del_sock_registry :: "addr option \<Rightarrow> cp_fds \<Rightarrow> cp_fds option" where
  "cp_fds_del_sock_registry sock st =
     (case sock of None \<Rightarrow> Some st
      | Some a \<Rightarrow> do {
          s \<leftarrow> f_socks st a;
          if \<not> has_flag FLAG_SOCK_REGISTRY s then Some st
          else do {
            st \<leftarrow> (case s_serv_sock s of
                     Some v \<Rightarrow>
                       if s_mode s = CP_SOCK_MODE_ACCEPT
                       then do {
                         srv \<leftarrow> f_socks st v;
                         Some (put_sock v (srv\<lparr>s_accept_cnt := s_accept_cnt srv - 1\<rparr>) st) }
                       else Some st
                   | None \<Rightarrow> Some st);
            let st = unlink_registry a st;
            s \<leftarrow> f_socks st a;
            Some (put_sock a (clear_flag FLAG_SOCK_REGISTRY s) st) } })"

section \<open>The task array\<close>

definition cp_fds_add_sock_task :: "addr option \<Rightarrow> cp_fds \<Rightarrow> (int \<times> cp_fds) option" where
  "cp_fds_add_sock_task sock st =
     (case sock of None \<Rightarrow> Some (- 1, st)
      | Some a \<Rightarrow> do {
          s \<leftarrow> f_socks st a;
          if \<not> s_fds s then Some (- 1, st)
          else if has_flag FLAG_SOCK_TASKED s then Some (0, st)
          else do {
            (rv, t) \<leftarrow> cp_array_add (f_tasks st) (Some a);
            let st = st\<lparr>f_tasks := t\<rparr>;
            if rv \<ge> 0
            then Some (0, put_sock a (set_flag FLAG_SOCK_TASKED (s\<lparr>s_index := rv\<rparr>)) st)
            else Some (- 2, st) } })"

definition cp_fds_del_sock_task :: "addr option \<Rightarrow> cp_fds \<Rightarrow> cp_fds option" where
  "cp_fds_del_sock_task sock st =
     (case sock of None \<Rightarrow> Some st
      | Some a \<Rightarrow> do {
          s \<leftarrow> f_socks st a;
          if \<not> has_flag FLAG_SOCK_TASKED s then Some st
          else if \<not> s_fds s then None
          else do {
            t \<leftarrow> (if s_index s \<ge> 0 then cp_array_rm_byindex (f_tasks st) (s_index s)
                  else do { (_, t) \<leftarrow> cp_array_rm_bydata (f_tasks st) (Some a); Some t });
            Some (put_sock a ((clear_flag FLAG_SOCK_TASKED s)\<lparr>s_index := - 1, s_events := 0\<rparr>)
                    (st\<lparr>f_tasks := t\<rparr>)) } })"

section \<open>The event queue\<close>

definition cp_fds_sock_enqueue ::
  "(addr qheap \<Rightarrow> addr option) \<Rightarrow> addr option \<Rightarrow> cp_fds \<Rightarrow> (addr option \<times> cp_fds) option" where
  "cp_fds_sock_enqueue mal sock st =
     (case sock of None \<Rightarrow> Some (None, st)
      | Some a \<Rightarrow> do {
          s \<leftarrow> f_socks st a;
          if has_flag FLAG_SOCK_INQUEUE s \<or> has_flag FLAG_SOCK_TASKED s \<or> \<not> s_fds s then Some (None, st)
          else do {
            let st = put_sock a (set_flag FLAG_SOCK_INQUEUE s) st;
            (r, h, q) \<leftarrow> cp_enqueue (mal (f_heap st)) (f_heap st) (f_queue st) (Some a);
            Some (r, st\<lparr>f_heap := h, f_queue := q\<rparr>) } })"

text \<open>\<open>cp_fds_sock_dequeue\<close> uses the dequeued socket without a test for \<open>NULL\<close>.\<close>

definition cp_fds_sock_dequeue :: "cp_fds \<Rightarrow> (addr option \<times> cp_fds) option" where
  "cp_fds_sock_dequeue st = do {
     (r, h, q) \<leftarrow> cp_dequeue (f_heap st) (f_queue st);
     let st = st\<lparr>f_heap := h, f_queue := q\<rparr>;
     a \<leftarrow> r;
     s \<leftarrow> f_socks st a;
     Some (Some a, put_sock a (clear_flag FLAG_SOCK_INQUEUE s) st) }"

definition cp_fds_sock_rmqueue :: "addr option \<Rightarrow> cp_fds \<Rightarrow> (addr option \<times> cp_fds) option" where
  "cp_fds_sock_rmqueue sock st =
     (case sock of None \<Rightarrow> Some (None, st)
      | Some a \<Rightarrow> do {
          s \<leftarrow> f_socks st a;
          if \<not> has_flag FLAG_SOCK_INQUEUE s \<or> \<not> s_fds s then Some (None, st)
          else do {
            let st = put_sock a (clear_flag FLAG_SOCK_INQUEUE s) st;
            (r, h, q) \<leftarrow> cp_rmqueue (f_heap st) (f_queue st) (Some a);
            Some (r, st\<lparr>f_heap := h, f_queue := q\<rparr>) } })"

section \<open>Destroying a socket\<close>

text \<open>\<open>cp_sock_close\<close> and \<open>cp_sock_term\<close> of \<open>cp_sock.c\<close>: \<open>ok\<close> is the outcome of
  \<open>close\<close>. The buffers are freed but the pointers to them stay, and a socket that was allocated is
  freed. \<open>shutdown\<close> tells the kernel alone.\<close>

definition cp_sock_close :: "bool \<Rightarrow> cp_sock \<Rightarrow> int \<times> cp_sock" where
  "cp_sock_close ok s = (if s_fd s > 0 \<and> \<not> ok then (- 2, s) else (0, s\<lparr>s_fd := - 1\<rparr>))"

definition cp_sock_term :: "bool \<Rightarrow> addr option \<Rightarrow> cp_fds \<Rightarrow> cp_fds option" where
  "cp_sock_term ok sock st =
     (case sock of None \<Rightarrow> Some st
      | Some a \<Rightarrow> do {
          s \<leftarrow> f_socks st a;
          let s = (if has_flag FLAG_SOCK_INIT s then snd (cp_sock_close ok s) else s);
          r \<leftarrow> cp_string_destroy (s_rbuf s);
          let st = (case (s_privt s, s_privt_free s) of
                      (Some _, Some f) \<Rightarrow> st\<lparr>f_privt_calls := f_privt_calls st @ [f]\<rparr> | _ \<Rightarrow> st);
          w \<leftarrow> cp_string_destroy (s_sbuf s);
          let s = s\<lparr>s_rbuf := r, s_sbuf := w\<rparr>;
          if has_flag FLAG_SOCK_MALLOC s then Some (st\<lparr>f_socks := (f_socks st)(a := None)\<rparr>)
          else Some (put_sock a (s\<lparr>s_fd := - 1\<rparr>) st) })"

definition cp_fds_destroy_sock :: "bool \<Rightarrow> addr option \<Rightarrow> cp_fds \<Rightarrow> cp_fds option" where
  "cp_fds_destroy_sock ok sock st = do {
     st \<leftarrow> cp_fds_del_sock_task sock st;
     (_, st) \<leftarrow> cp_fds_sock_rmqueue sock st;
     st \<leftarrow> cp_del_epoll_event sock st;
     st \<leftarrow> cp_fds_del_sock_registry sock st;
     cp_sock_term ok sock st }"

section \<open>The loop\<close>

text \<open>\<open>cp_fds_detect_event\<close>: the events of \<open>epoll_wait\<close> (or its failure) and the time.\<close>

fun detect_loop ::
  "(addr qheap \<Rightarrow> addr option) \<Rightarrow> u32 \<Rightarrow> (addr \<times> u32) list \<Rightarrow> cp_fds \<Rightarrow> cp_fds option" where
  "detect_loop mal now [] st = Some st"
| "detect_loop mal now ((a, ev) # evts) st = do {
     s \<leftarrow> f_socks st a;
     let st = put_sock a (s\<lparr>s_events := ev, s_actv_time := now\<rparr>) st;
     st \<leftarrow> (if s_status s = SOCK_STAT_ALREADY
           then do { (_, st) \<leftarrow> cp_fds_sock_enqueue mal (Some a) st; Some st } else Some st);
     detect_loop mal now evts st }"

definition cp_fds_detect_event ::
  "(addr qheap \<Rightarrow> addr option) \<Rightarrow> (addr \<times> u32) list option \<Rightarrow> u32 \<Rightarrow> cp_fds \<Rightarrow> (int \<times> cp_fds) option" where
  "cp_fds_detect_event mal evts now st =
     (case evts of None \<Rightarrow> Some (- 2, st)
      | Some es \<Rightarrow> do { st \<leftarrow> detect_loop mal now es st; Some (0, st) })"

text \<open>A callback gets its socket and the state; it may change both.\<close>

type_synonym callback = "nat \<Rightarrow> addr \<Rightarrow> cp_fds \<Rightarrow> cp_fds option"

definition call :: "callback \<Rightarrow> nat \<Rightarrow> addr \<Rightarrow> cp_fds \<Rightarrow> cp_fds option" where
  "call cb f a st = cb f a (st\<lparr>f_calls := f_calls st @ [(f, a)]\<rparr>)"

partial_function (option) task_loop :: "callback \<Rightarrow> nat \<Rightarrow> addr option \<Rightarrow> cp_fds \<Rightarrow> cp_fds option" where
  "task_loop cb i sock st = do {
     t \<leftarrow> f_tasks st;
     if int i < ar_size t
     then do {
       st \<leftarrow> (case sock of None \<Rightarrow> Some st
             | Some a \<Rightarrow> do {
                 s \<leftarrow> f_socks st a;
                 case s_cbfunc s of
                   Some f \<Rightarrow> call cb f a st
                 | None \<Rightarrow> cp_fds_del_sock_task (Some a) st });
       t \<leftarrow> f_tasks st;
       e \<leftarrow> (if int (Suc i) < ar_size t then rd (ar_data t) (Suc i) else Some None);
       task_loop cb (Suc i) e st }
     else Some st }"

partial_function (option) event_loop :: "callback \<Rightarrow> cp_fds \<Rightarrow> cp_fds option" where
  "event_loop cb st = do {
     q \<leftarrow> f_queue st;
     if cp_queue_is_empty q then Some st
     else do {
       (sock, st) \<leftarrow> cp_fds_sock_dequeue st;
       st \<leftarrow> (case sock of None \<Rightarrow> Some st
             | Some a \<Rightarrow> do {
                 s \<leftarrow> f_socks st a;
                 case s_cbfunc s of Some f \<Rightarrow> call cb f a st | None \<Rightarrow> Some st });
       event_loop cb st } }"

declare task_loop.simps [code] event_loop.simps [code]

definition cp_fds_proc_event :: "callback \<Rightarrow> cp_fds \<Rightarrow> cp_fds option" where
  "cp_fds_proc_event cb st = do {
     t \<leftarrow> f_tasks st;
     e \<leftarrow> rd (ar_data t) 0;
     st \<leftarrow> task_loop cb 0 e st;
     event_loop cb st }"

section \<open>Timeouts\<close>

definition check_timeout :: "u32 \<Rightarrow> addr \<Rightarrow> cp_fds \<Rightarrow> cp_fds option" where
  "check_timeout now a st = do {
     s \<leftarrow> f_socks st a;
     if s_idle_timeout s > 0 \<and> time_elapsed now (s_actv_time s) > s_idle_timeout s
     then do {
       (_, st) \<leftarrow> cp_fds_add_sock_task (Some a) (put_sock a (s\<lparr>s_events := CP_SOCK_EVENT_IDLE_TIMEOUT\<rparr>) st);
       Some st }
     else if s_msg_timeout s > 0 \<and> s_msg_time s > 0 \<and> time_elapsed now (s_msg_time s) > s_msg_timeout s
     then do {
       (_, st) \<leftarrow> cp_fds_add_sock_task (Some a) (put_sock a (s\<lparr>s_events := CP_SOCK_EVENT_MSG_TIMEOUT\<rparr>) st);
       Some st }
     else Some st }"

fun timeout_loop :: "u32 \<Rightarrow> addr list \<Rightarrow> cp_fds \<Rightarrow> cp_fds option" where
  "timeout_loop now [] st = Some st"
| "timeout_loop now (a # as) st = do { st \<leftarrow> check_timeout now a st; timeout_loop now as st }"

fun server_timeout_loop :: "u32 \<Rightarrow> addr list \<Rightarrow> cp_fds \<Rightarrow> cp_fds option" where
  "server_timeout_loop now [] st = Some st"
| "server_timeout_loop now (v # vs) st = do {
     srv \<leftarrow> f_socks st v;
     st \<leftarrow> timeout_loop now (s_accept_list srv) st;
     server_timeout_loop now vs st }"

definition cp_sock_detect_timeout :: "u32 \<Rightarrow> cp_fds \<Rightarrow> cp_fds option" where
  "cp_sock_detect_timeout now st = do {
     st \<leftarrow> timeout_loop now (f_client_list st) st;
     server_timeout_loop now (f_server_list st) st }"

section \<open>Termination of sockets\<close>

fun destroy_all :: "bool \<Rightarrow> addr list \<Rightarrow> cp_fds \<Rightarrow> cp_fds option" where
  "destroy_all ok [] st = Some st"
| "destroy_all ok (a # as) st = do { st \<leftarrow> cp_fds_destroy_sock ok (Some a) st; destroy_all ok as st }"

definition cp_sock_term_server :: "bool \<Rightarrow> addr \<Rightarrow> cp_fds \<Rightarrow> cp_fds option" where
  "cp_sock_term_server ok v st = do {
     srv \<leftarrow> f_socks st v;
     st \<leftarrow> destroy_all ok (s_accept_list srv) st;
     cp_fds_destroy_sock ok (Some v) st }"

fun term_servers :: "bool \<Rightarrow> addr list \<Rightarrow> cp_fds \<Rightarrow> cp_fds option" where
  "term_servers ok [] st = Some st"
| "term_servers ok (v # vs) st = do { st \<leftarrow> cp_sock_term_server ok v st; term_servers ok vs st }"

definition cp_sock_term_all_server :: "bool \<Rightarrow> cp_fds \<Rightarrow> cp_fds option" where
  "cp_sock_term_all_server ok st = term_servers ok (f_server_list st) st"

definition cp_sock_term_all_client :: "bool \<Rightarrow> cp_fds \<Rightarrow> cp_fds option" where
  "cp_sock_term_all_client ok st = destroy_all ok (f_client_list st) st"

section \<open>The invariant\<close>

lemma has_flag_push: "has_flag (push_bit k 1) s \<longleftrightarrow> bit (s_flag s) k"
  by (simp add: has_flag_def bit_iff_and_push_bit_not_eq_0)

lemma has_flag_set:
  "j < 16 \<Longrightarrow> has_flag (push_bit k 1) (set_flag (push_bit j 1) s) \<longleftrightarrow> has_flag (push_bit k 1) s \<or> k = j"
  unfolding has_flag_push by (auto simp: set_flag_def bit_or_iff bit_exp_iff)

lemma has_flag_clear:
  "has_flag (push_bit k 1) (clear_flag (push_bit j 1) s) \<longleftrightarrow> has_flag (push_bit k 1) s \<and> k \<noteq> j"
  unfolding has_flag_push by (auto simp: clear_flag_def bit_and_iff bit_not_iff bit_exp_iff dest: bit_imp_le_length)

lemma flag_fields [simp]:
  "s_index (set_flag f s) = s_index s" "s_index (clear_flag f s) = s_index s"
  "s_fds (set_flag f s) = s_fds s" "s_fds (clear_flag f s) = s_fds s"
  "s_cbfunc (set_flag f s) = s_cbfunc s" "s_cbfunc (clear_flag f s) = s_cbfunc s"
  by (simp_all add: set_flag_def clear_flag_def)

abbreviation inq :: "cp_sock \<Rightarrow> bool" where "inq \<equiv> has_flag FLAG_SOCK_INQUEUE"
abbreviation tasked :: "cp_sock \<Rightarrow> bool" where "tasked \<equiv> has_flag FLAG_SOCK_TASKED"

lemmas flag_defs =
  FLAG_SOCK_INIT_def FLAG_SOCK_MALLOC_def FLAG_SOCK_EPOLLED_def FLAG_SOCK_REGISTRY_def
  FLAG_SOCK_INQUEUE_def FLAG_SOCK_TASKED_def

lemma flag_tests [simp]:
  "inq (set_flag FLAG_SOCK_INQUEUE s)" "tasked (set_flag FLAG_SOCK_INQUEUE s) = tasked s"
  "inq (set_flag FLAG_SOCK_TASKED s) = inq s" "tasked (set_flag FLAG_SOCK_TASKED s)"
  "\<not> inq (clear_flag FLAG_SOCK_INQUEUE s)" "tasked (clear_flag FLAG_SOCK_INQUEUE s) = tasked s"
  "inq (clear_flag FLAG_SOCK_TASKED s) = inq s" "\<not> tasked (clear_flag FLAG_SOCK_TASKED s)"
  "inq (set_flag FLAG_SOCK_EPOLLED s) = inq s" "tasked (set_flag FLAG_SOCK_EPOLLED s) = tasked s"
  "inq (clear_flag FLAG_SOCK_EPOLLED s) = inq s" "tasked (clear_flag FLAG_SOCK_EPOLLED s) = tasked s"
  "inq (set_flag FLAG_SOCK_REGISTRY s) = inq s" "tasked (set_flag FLAG_SOCK_REGISTRY s) = tasked s"
  "inq (clear_flag FLAG_SOCK_REGISTRY s) = inq s" "tasked (clear_flag FLAG_SOCK_REGISTRY s) = tasked s"
  by (simp_all only: flag_defs has_flag_set has_flag_clear rel_simps simp_thms zero_less_numeral numeral_less_iff)

lemma has_flag_cong [simp]: "has_flag f (s\<lparr>s_events := e\<rparr>) = has_flag f s"
  "has_flag f (s\<lparr>s_index := i\<rparr>) = has_flag f s" "has_flag f (s\<lparr>s_fd := i\<rparr>) = has_flag f s"
  "has_flag f (s\<lparr>s_actv_time := t\<rparr>) = has_flag f s"
  "has_flag f (s\<lparr>s_accept_list := l\<rparr>) = has_flag f s" "has_flag f (s\<lparr>s_accept_cnt := i\<rparr>) = has_flag f s"
  by (simp_all add: has_flag_def)

definition fq :: "cp_fds \<Rightarrow> addr qheap \<times> cp_queue" where
  "fq st = (f_heap st, the (f_queue st))"

definition waiting :: "cp_fds \<Rightarrow> addr list" where
  "waiting st = q_items (fq st)"

definition task_cells :: "cp_fds \<Rightarrow> addr option list" where
  "task_cells st = ar_data (the (f_tasks st))"

text \<open>What a socket says about its place in the task array is true.\<close>

definition task_ok :: "addr option list \<Rightarrow> addr \<Rightarrow> cp_sock \<Rightarrow> bool" where
  "task_ok cells a s \<longleftrightarrow>
     (tasked s \<longrightarrow> 0 \<le> s_index s \<and> nat (s_index s) < length cells) \<and>
     (\<forall>i < length cells. cells ! i = Some a \<longleftrightarrow> tasked s \<and> s_index s = int i)"

text \<open>The queue holds each socket whose flag says so exactly once and no other address,
  and the task array likewise.\<close>

definition fds_wf :: "cp_fds \<Rightarrow> bool" where
  "fds_wf st \<longleftrightarrow> f_queue st \<noteq> None \<and> f_tasks st \<noteq> None \<and> q_wf (fq st) \<and> ar_wf (the (f_tasks st)) \<and>
     distinct (waiting st) \<and>
     (\<forall>a. a \<in> set (waiting st) \<longleftrightarrow> (\<exists>s. f_socks st a = Some s \<and> inq s)) \<and>
     (\<forall>a s. f_socks st a = Some s \<longrightarrow> task_ok (task_cells st) a s) \<and>
     (\<forall>a. Some a \<in> set (task_cells st) \<longrightarrow> f_socks st a \<noteq> None)"

lemma fds_wfD:
  assumes "fds_wf st"
  shows "\<exists>q. f_queue st = Some q \<and> fq st = (f_heap st, q)" "\<exists>t. f_tasks st = Some t \<and> ar_wf t \<and> task_cells st = ar_data t"
    "q_wf (fq st)" "distinct (waiting st)"
    "a \<in> set (waiting st) \<longleftrightarrow> (\<exists>s. f_socks st a = Some s \<and> inq s)"
    "f_socks st a = Some s \<Longrightarrow> task_ok (task_cells st) a s"
    "Some a \<in> set (task_cells st) \<Longrightarrow> f_socks st a \<noteq> None"
  using assms unfolding fds_wf_def by (auto simp: fq_def task_cells_def)

lemma put_sock_simps [simp]:
  "f_queue (put_sock a s st) = f_queue st" "f_tasks (put_sock a s st) = f_tasks st"
  "f_heap (put_sock a s st) = f_heap st" "fq (put_sock a s st) = fq st"
  "waiting (put_sock a s st) = waiting st" "task_cells (put_sock a s st) = task_cells st"
  "f_socks (put_sock a s st) = (f_socks st)(a \<mapsto> s)"
  by (simp_all add: put_sock_def fq_def waiting_def task_cells_def)

text \<open>Changing anything of a socket but its place keeps the invariant.\<close>

lemma fds_wf_put_same:
  assumes "fds_wf st" "f_socks st a = Some s" "inq s' = inq s" "tasked s' = tasked s" "s_index s' = s_index s"
  shows "fds_wf (put_sock a s' st)"
proof -
  have "(\<exists>x. ((f_socks st)(a \<mapsto> s')) b = Some x \<and> inq x) = (\<exists>x. f_socks st b = Some x \<and> inq x)" for b
    using assms(2,3) by auto
  moreover have "task_ok (task_cells st) a s'"
    using fds_wfD(6) [OF assms(1,2)] assms(4,5) by (simp add: task_ok_def)
  ultimately show ?thesis using assms(1) by (simp add: fds_wf_def)
qed

lemma fds_wf_other_fields:
  "fds_wf (st\<lparr>f_event_cnt := n\<rparr>) = fds_wf st" "fds_wf (st\<lparr>f_client_list := l\<rparr>) = fds_wf st"
  "fds_wf (st\<lparr>f_server_list := l\<rparr>) = fds_wf st"
  by (simp_all add: fds_wf_def fq_def waiting_def task_cells_def)

subsection \<open>The operations on the queue\<close>

text \<open>The documented behaviour of an allocator that has memory left: what it answers is not in use,
  and it answers as long as finitely many nodes are.\<close>

definition good_malloc :: "(addr qheap \<Rightarrow> addr option) \<Rightarrow> bool" where
  "good_malloc mal \<longleftrightarrow> (\<forall>h m. mal h = Some m \<longrightarrow> h m = None) \<and> (\<forall>h. finite (dom h) \<longrightarrow> mal h \<noteq> None)"

definition next_address :: "addr qheap \<Rightarrow> addr option" where
  "next_address h = (if finite (dom h) then Some (if dom h = {} then 0 else Suc (Max (dom h))) else None)"

lemma good_malloc_next_address: "good_malloc next_address"
proof -
  have "h (Suc (Max (dom h))) = None" if "finite (dom h)" for h :: "addr qheap"
  proof (rule ccontr)
    assume "h (Suc (Max (dom h))) \<noteq> None"
    then have "Suc (Max (dom h)) \<in> dom h" by auto
    then have "Suc (Max (dom h)) \<le> Max (dom h)" using Max_ge [OF that] by blast
    then show False by simp
  qed
  then show ?thesis by (auto simp: good_malloc_def next_address_def split: if_splits)
qed

lemma cp_enqueue_finite:
  "cp_enqueue mem h (Some q) x = Some (r, h', q') \<Longrightarrow> finite (dom h) \<Longrightarrow> finite (dom h')"
  by (auto simp: cp_enqueue_def Let_def split: if_splits option.splits)

lemma enqueue_state:
  assumes "fds_wf st" "f_socks st a = Some s" "good_malloc mal" "finite (dom (f_heap st))" "length (waiting st) < q_cap (fq st)"
  shows "\<exists>r st'. cp_fds_sock_enqueue mal (Some a) st = Some (r, st') \<and> fds_wf st' \<and>
    waiting st' = (if inq s \<or> tasked s \<or> \<not> s_fds s then waiting st else waiting st @ [a]) \<and>
    task_cells st' = task_cells st \<and> q_cap (fq st') = q_cap (fq st) \<and> dom (f_socks st') = dom (f_socks st) \<and>
    finite (dom (f_heap st'))"
proof (cases "inq s \<or> tasked s \<or> \<not> s_fds s")
  case True
  then show ?thesis using assms(1,2,4) by (simp add: cp_fds_sock_enqueue_def)
next
  case False
  note w = fds_wfD [OF assms(1)]
  obtain q where q: "f_queue st = Some q" "fq st = (f_heap st, q)" using w(1) by blast
  let ?st1 = "put_sock a (set_flag FLAG_SOCK_INQUEUE s) st"
  obtain m where m: "mal (f_heap st) = Some m" "q_fresh m (f_heap st, q)"
    using assms(3,4) unfolding good_malloc_def q_fresh_def by fastforce
  have wfq: "q_wf (f_heap st, q)" "length (q_items (f_heap st, q)) < q_cap (f_heap st, q)"
    using w(3) q(2) assms(5) by (simp_all add: waiting_def)
  from lq.enq_ok [OF wfq(1) m(2) wfq(2), of a] obtain s1 where "q_enq (Some m) (f_heap st, q) a = Some (True, s1)"
    "q_wf s1" "q_items s1 = q_items (f_heap st, q) @ [a]" "q_cap s1 = q_cap (f_heap st, q)" by blast
  then obtain r h' q' where e: "cp_enqueue (mal (f_heap st)) (f_heap st) (Some q) (Some a) = Some (r, h', Some q')"
    "q_wf (h', q')" "q_items (h', q') = waiting st @ [a]" "q_cap (h', q') = q_cap (fq st)"
    using m(1) q(2) by (cases s1) (auto simp: q_enq_def waiting_def)
  have fin: "finite (dom h')" using cp_enqueue_finite [OF e(1) assms(4)] .
  let ?st2 = "?st1\<lparr>f_heap := h', f_queue := Some q'\<rparr>"
  have fq2: "fq ?st2 = (h', q')" "waiting ?st2 = waiting st @ [a]" "task_cells ?st2 = task_cells st"
    using e(3) by (simp_all add: fq_def waiting_def task_cells_def)
  have "a \<notin> set (waiting st)" using w(5) [of a] assms(2) False by auto
  moreover have "(\<exists>x. ((f_socks st)(a \<mapsto> set_flag FLAG_SOCK_INQUEUE s)) b = Some x \<and> inq x) \<longleftrightarrow>
      b = a \<or> b \<in> set (waiting st)" for b
    using w(5) [of b] by auto
  moreover have "task_ok (task_cells st) a (set_flag FLAG_SOCK_INQUEUE s)"
    using w(6) [OF assms(2)] by (simp add: task_ok_def)
  ultimately have "fds_wf ?st2"
    using assms(1) e(2) fq2 unfolding fds_wf_def by auto
  moreover have "cp_fds_sock_enqueue mal (Some a) st = Some (r, ?st2)"
    using assms(2) False q(1) e(1) by (simp add: cp_fds_sock_enqueue_def Let_def)
  ultimately show ?thesis using False fq2 e(4) fin assms(2) by auto
qed

lemma cp_dequeue_item:
  assumes "q_wf (h, q)" "q_items (h, q) = x # xs"
  obtains h' q' where "cp_dequeue h (Some q) = Some (Some x, h', Some q')" "q_wf (h', q')"
    "q_items (h', q') = xs" "q_cap (h', q') = q_cap (h, q)"
proof -
  from lq.deq_item [OF assms] obtain s' where "q_deq (h, q) = Some (Some x, s')" "q_wf s'" "q_items s' = xs"
    "q_cap s' = q_cap (h, q)" by blast
  then show thesis using that by (cases s') (auto simp: q_deq_def)
qed

lemma dequeue_state:
  assumes "fds_wf st" "waiting st = a # as"
  shows "\<exists>s st'. f_socks st a = Some s \<and> cp_fds_sock_dequeue st = Some (Some a, st') \<and> fds_wf st' \<and>
    waiting st' = as \<and> task_cells st' = task_cells st \<and> q_cap (fq st') = q_cap (fq st) \<and>
    f_socks st' = (f_socks st)(a \<mapsto> clear_flag FLAG_SOCK_INQUEUE s)"
proof -
  note w = fds_wfD [OF assms(1)]
  obtain q where q: "f_queue st = Some q" "fq st = (f_heap st, q)" using w(1) by blast
  obtain h' q' where e: "cp_dequeue (f_heap st) (Some q) = Some (Some a, h', Some q')" "q_wf (h', q')"
    "q_items (h', q') = as" "q_cap (h', q') = q_cap (fq st)"
    using cp_dequeue_item [of "f_heap st" q a as] w(3) q assms(2) by (auto simp: waiting_def)
  obtain s where s: "f_socks st a = Some s" "inq s" using w(5) [of a] assms(2) by auto
  let ?st2 = "put_sock a (clear_flag FLAG_SOCK_INQUEUE s) (st\<lparr>f_heap := h', f_queue := Some q'\<rparr>)"
  have fq2: "fq ?st2 = (h', q')" "waiting ?st2 = as" "task_cells ?st2 = task_cells st"
    using e(3) by (simp_all add: fq_def waiting_def task_cells_def)
  have "a \<notin> set as" "distinct as" using w(4) assms(2) by auto
  moreover have "(\<exists>x. ((f_socks st)(a \<mapsto> clear_flag FLAG_SOCK_INQUEUE s)) b = Some x \<and> inq x) \<longleftrightarrow> b \<in> set as" for b
    using w(5) [of b] assms(2) \<open>a \<notin> set as\<close> by auto
  moreover have "task_ok (task_cells st) a (clear_flag FLAG_SOCK_INQUEUE s)"
    using w(6) [OF s(1)] by (simp add: task_ok_def)
  ultimately have "fds_wf ?st2"
    using assms(1) e(2) fq2 unfolding fds_wf_def by auto
  moreover have "cp_fds_sock_dequeue st = Some (Some a, ?st2)"
    using s(1) q(1) e(1) by (simp add: cp_fds_sock_dequeue_def Let_def)
  ultimately show ?thesis using fq2 e(4) s(1) by simp
qed


lemma rmqueue_state:
  assumes "fds_wf st" "f_socks st a = Some s" "s_fds s"
  shows "\<exists>r st'. cp_fds_sock_rmqueue (Some a) st = Some (r, st') \<and> fds_wf st' \<and>
    waiting st' = remove1 a (waiting st) \<and> task_cells st' = task_cells st \<and>
    (\<exists>s'. f_socks st' = (f_socks st)(a \<mapsto> s') \<and> \<not> inq s' \<and> tasked s' = tasked s \<and> s_fds s')"
proof (cases "inq s")
  case False
  note w = fds_wfD [OF assms(1)]
  then have "a \<notin> set (waiting st)" using False assms(2) by auto
  moreover have "(f_socks st)(a \<mapsto> s) = f_socks st" using assms(2) by auto
  ultimately show ?thesis
    using assms False by (auto simp: cp_fds_sock_rmqueue_def remove1_idem intro!: exI [of _ s])
next
  case True
  note w = fds_wfD [OF assms(1)]
  obtain q where q: "f_queue st = Some q" "fq st = (f_heap st, q)" using w(1) by blast
  have a: "a \<in> set (q_items (f_heap st, q))" using w(5) [of a] assms(2) True q(2) by (simp add: waiting_def)
  from lq.rem_found [OF _ a] w(3) q(2) obtain s1 where "q_rem (f_heap st, q) a = Some s1" "q_wf s1"
    "q_items s1 = remove1 a (waiting st)" by (auto simp: waiting_def)
  then obtain r h' q' where e: "cp_rmqueue (f_heap st) (Some q) (Some a) = Some (r, h', Some q')" "q_wf (h', q')"
    "q_items (h', q') = remove1 a (waiting st)" by (cases s1) (auto simp: q_rem_def)
  let ?s = "clear_flag FLAG_SOCK_INQUEUE s"
  let ?st2 = "put_sock a ?s (st\<lparr>f_heap := h', f_queue := Some q'\<rparr>)"
  have fq2: "fq ?st2 = (h', q')" "waiting ?st2 = remove1 a (waiting st)" "task_cells ?st2 = task_cells st"
    using e(3) by (simp_all add: fq_def waiting_def task_cells_def)
  have "(\<exists>x. ((f_socks st)(a \<mapsto> ?s)) b = Some x \<and> inq x) \<longleftrightarrow> b \<in> set (remove1 a (waiting st))" for b
    using w(5) [of b] w(4) by auto
  moreover have "task_ok (task_cells st) a ?s"
    using w(6) [OF assms(2)] by (simp add: task_ok_def)
  ultimately have "fds_wf ?st2"
    using assms(1) e(2) fq2 unfolding fds_wf_def by auto
  moreover have "cp_fds_sock_rmqueue (Some a) st = Some (r, ?st2)"
    using assms(2,3) True q(1) e(1) by (simp add: cp_fds_sock_rmqueue_def Let_def put_sock_def)
  ultimately show ?thesis using fq2 assms(3) by auto
qed

subsection \<open>The operations on the task array\<close>

lemma fds_wf_tasks:
  assumes "fds_wf st" "f_socks st a = Some s" "ar_wf t" "inq s' = inq s"
    "task_ok (ar_data t) a s'" "length (ar_data t) = length (task_cells st)"
    "\<And>b i. i < length (ar_data t) \<Longrightarrow> b \<noteq> a \<Longrightarrow> ar_data t ! i = Some b \<longleftrightarrow> task_cells st ! i = Some b"
  shows "fds_wf (put_sock a s' (st\<lparr>f_tasks := Some t\<rparr>))"
proof -
  let ?st = "put_sock a s' (st\<lparr>f_tasks := Some t\<rparr>)"
  note w = fds_wfD [OF assms(1)]
  have eqs: "fq ?st = fq st" "waiting ?st = waiting st" "task_cells ?st = ar_data t"
    by (simp_all add: fq_def waiting_def task_cells_def)
  have socks: "f_socks ?st = (f_socks st)(a \<mapsto> s')" by simp
  have inq: "b \<in> set (waiting st) \<longleftrightarrow> (\<exists>x. ((f_socks st)(a \<mapsto> s')) b = Some x \<and> inq x)" for b
    using w(5) [of b] assms(2,4) by (cases "b = a") simp_all
  have ok: "task_ok (ar_data t) b sb" if "((f_socks st)(a \<mapsto> s')) b = Some sb" for b sb
  proof (cases "b = a")
    case True
    then show ?thesis using that assms(5) by simp
  next
    case False
    then have "task_ok (task_cells st) b sb" using that w(6) by simp
    moreover have "ar_data t ! i = Some b \<longleftrightarrow> task_cells st ! i = Some b" if "i < length (task_cells st)" for i
      using assms(7) that False assms(6) by simp
    ultimately show ?thesis by (simp add: task_ok_def assms(6))
  qed
  have live: "((f_socks st)(a \<mapsto> s')) b \<noteq> None" if mem: "Some b \<in> set (ar_data t)" for b
  proof (cases "b = a")
    case False
    obtain i where i: "i < length (ar_data t)" "ar_data t ! i = Some b"
      using mem unfolding in_set_conv_nth by blast
    then have "task_cells st ! i = Some b" "i < length (task_cells st)"
      using assms(7) [OF i(1) False] assms(6) by simp_all
    then have "Some b \<in> set (task_cells st)" unfolding in_set_conv_nth by blast
    then show ?thesis using w(7) False by simp
  qed simp
  have q: "f_queue ?st \<noteq> None" "f_tasks ?st \<noteq> None" "ar_wf (the (f_tasks ?st))"
    using w(1) assms(3) by auto
  show ?thesis
    unfolding fds_wf_def eqs socks
    by (intro conjI allI impI q w(3,4) inq ok live)
qed

lemma add_task_state:
  assumes "fds_wf st" "f_socks st a = Some s" "s_fds s"
  shows "\<exists>rv st'. cp_fds_add_sock_task (Some a) st = Some (rv, st') \<and> fds_wf st' \<and> waiting st' = waiting st \<and>
    (if tasked s \<or> None \<in> set (task_cells st)
     then rv = 0 \<and> (\<exists>s'. f_socks st' a = Some s' \<and> tasked s' \<and> inq s' = inq s \<and>
            task_cells st' ! nat (s_index s') = Some a)
     else rv = - 2 \<and> f_socks st' = f_socks st)"
proof (cases "tasked s")
  case True
  then show ?thesis
    using assms fds_wfD(6) [OF assms(1,2)] by (auto simp: cp_fds_add_sock_task_def task_ok_def)
next
  case False
  note w = fds_wfD [OF assms(1)]
  obtain t where t: "f_tasks st = Some t" "ar_wf t" "task_cells st = ar_data t" using w(2) by blast
  show ?thesis using t(2)
  proof (cases rule: ar.add_cases [where x = a])
    case (stored i t')
    let ?s = "set_flag FLAG_SOCK_TASKED (s\<lparr>s_index := int i\<rparr>)"
    let ?st = "put_sock a ?s (st\<lparr>f_tasks := Some t'\<rparr>)"
    have arr: "cp_array_add (Some t) (Some a) = Some (int i, Some t')"
      using stored(1) by (auto simp: ar_add_def)
    have free: "ar_data t ! j \<noteq> Some a" if "j < length (ar_data t)" for j
      using w(6) [OF assms(2)] that False t(3) by (auto simp: task_ok_def)
    have "task_ok (ar_data t') a ?s"
      using stored(3,5) free by (auto simp: task_ok_def nth_list_update)
    moreover have "ar_data t' ! j = Some b \<longleftrightarrow> task_cells st ! j = Some b" if "j < length (ar_data t')" "b \<noteq> a" for j b
      using stored(3-5) that t(3) by (cases "j = i") auto
    ultimately have wf: "fds_wf ?st"
      using fds_wf_tasks [OF assms(1,2) stored(2)] stored(5) t(3) by simp
    have "waiting ?st = waiting st" "task_cells ?st = ar_data t'" by (simp_all add: waiting_def fq_def task_cells_def)
    moreover have "cp_fds_add_sock_task (Some a) st = Some (0, ?st)"
      using assms(2,3) False t(1) arr by (simp add: cp_fds_add_sock_task_def)
    moreover have "None \<in> set (task_cells st)" using stored(3,4) t(3) nth_mem by metis
    ultimately show ?thesis using wf stored(3,5) by auto
  next
    case full
    then have "cp_array_add (Some t) (Some a) = Some (- 2, Some t)" by (auto simp: ar_add_def)
    then have call: "cp_fds_add_sock_task (Some a) st = Some (- 2, st\<lparr>f_tasks := Some t\<rparr>)"
      using assms(2,3) False t(1) by (simp add: cp_fds_add_sock_task_def)
    have same: "st\<lparr>f_tasks := Some t\<rparr> = st" using t(1) by simp
    show ?thesis
      using call [unfolded same] assms(1) False full t(3) by simp
  qed
qed

lemma del_task_state:
  assumes "fds_wf st" "f_socks st a = Some s" "s_fds s"
  shows "\<exists>st'. cp_fds_del_sock_task (Some a) st = Some st' \<and> fds_wf st' \<and> waiting st' = waiting st \<and>
    Some a \<notin> set (task_cells st') \<and>
    (\<exists>s'. f_socks st' = (f_socks st)(a \<mapsto> s') \<and> inq s' = inq s \<and> \<not> tasked s' \<and> s_fds s')"
proof (cases "tasked s")
  case False
  have "task_ok (task_cells st) a s" using fds_wfD(6) [OF assms(1,2)] .
  then have "Some a \<notin> set (task_cells st)" using False by (auto simp: task_ok_def in_set_conv_nth)
  moreover have "(f_socks st)(a \<mapsto> s) = f_socks st" using assms(2) by auto
  ultimately show ?thesis
    using assms False by (auto simp: cp_fds_del_sock_task_def intro!: exI [of _ s])
next
  case True
  note w = fds_wfD [OF assms(1)]
  obtain t where t: "f_tasks st = Some t" "ar_wf t" "task_cells st = ar_data t" using w(2) by blast
  have ok: "task_ok (ar_data t) a s" using w(6) [OF assms(2)] t(3) by simp
  define i where "i = nat (s_index s)"
  have i: "s_index s = int i" "i < length (ar_data t)" "ar_data t ! i = Some a"
    using ok True by (auto simp: task_ok_def i_def)
  obtain t' where t': "ar_del t i = Some t'" "ar_wf t'" "ar_data t' = (ar_data t)[i := None]"
    using ar.del_ok [OF t(2) i(2)] by blast
  then have rm: "cp_array_rm_byindex (Some t) (int i) = Some (Some t')" by (auto simp: ar_del_def)
  let ?s = "(clear_flag FLAG_SOCK_TASKED s)\<lparr>s_index := - 1, s_events := 0\<rparr>"
  let ?st = "put_sock a ?s (st\<lparr>f_tasks := Some t'\<rparr>)"
  have out: "ar_data t' ! j \<noteq> Some a" if "j < length (ar_data t')" for j
    using ok i t'(3) that by (cases "j = i") (auto simp: task_ok_def)
  then have "task_ok (ar_data t') a ?s" by (simp add: task_ok_def)
  moreover have "ar_data t' ! j = Some b \<longleftrightarrow> task_cells st ! j = Some b" if "j < length (ar_data t')" "b \<noteq> a" for j b
    using i t'(3) that t(3) by (cases "j = i") auto
  ultimately have wf: "fds_wf ?st"
    using fds_wf_tasks [OF assms(1,2) t'(2)] t'(3) t(3) by simp
  have "waiting ?st = waiting st" "task_cells ?st = ar_data t'" by (simp_all add: waiting_def fq_def task_cells_def)
  moreover have "cp_fds_del_sock_task (Some a) st = Some ?st"
    using assms(2,3) True t(1) rm i(1) by (simp add: cp_fds_del_sock_task_def)
  moreover have "Some a \<notin> set (ar_data t')" using out by (metis in_set_conv_nth)
  ultimately show ?thesis using wf assms(3) by auto
qed


subsection \<open>Destroying a socket\<close>

definition same_place :: "cp_sock option \<Rightarrow> cp_sock option \<Rightarrow> bool" where
  "same_place x y \<longleftrightarrow> map_option (\<lambda>s. (inq s, tasked s, s_index s)) x = map_option (\<lambda>s. (inq s, tasked s, s_index s)) y"

lemma same_place_refl [simp]: "same_place x x"
  by (simp add: same_place_def)

lemma fds_wf_same_place:
  assumes "fds_wf st" "f_queue st' = f_queue st" "f_heap st' = f_heap st" "f_tasks st' = f_tasks st"
    "\<And>b. same_place (f_socks st b) (f_socks st' b)"
  shows "fds_wf st'" "waiting st' = waiting st" "task_cells st' = task_cells st"
proof -
  note w = fds_wfD [OF assms(1)]
  have eqs: "fq st' = fq st" "waiting st' = waiting st" "task_cells st' = task_cells st"
    using assms(2-4) by (simp_all add: fq_def waiting_def task_cells_def)
  have inq: "b \<in> set (waiting st) \<longleftrightarrow> (\<exists>x. f_socks st' b = Some x \<and> inq x)" for b
    using w(5) [of b] assms(5) [of b] by (cases "f_socks st b"; cases "f_socks st' b") (simp_all add: same_place_def)
  have ok: "task_ok (task_cells st) b sb" if "f_socks st' b = Some sb" for b sb
    using w(6) [of b] assms(5) [of b] that by (cases "f_socks st b") (simp_all add: same_place_def task_ok_def)
  have live: "f_socks st' b \<noteq> None" if "Some b \<in> set (task_cells st)" for b
    using w(7) [OF that] assms(5) [of b] by (cases "f_socks st b"; cases "f_socks st' b") (simp_all add: same_place_def)
  have q: "f_queue st' \<noteq> None" "f_tasks st' \<noteq> None" "ar_wf (the (f_tasks st'))"
    using w(1,2) assms(2,4) by auto
  show "fds_wf st'"
    unfolding fds_wf_def eqs by (intro conjI allI impI q w(3,4) inq ok live)
  show "waiting st' = waiting st" "task_cells st' = task_cells st" using eqs by simp_all
qed

lemma del_epoll_state:
  assumes "fds_wf st" "f_socks st a = Some s"
  shows "\<exists>st'. cp_del_epoll_event (Some a) st = Some st' \<and> fds_wf st' \<and> waiting st' = waiting st \<and>
    task_cells st' = task_cells st \<and> (\<forall>b. same_place (f_socks st b) (f_socks st' b)) \<and>
    map_option s_serv_sock (f_socks st' a) = Some (s_serv_sock s)"
proof (cases "s_fds s \<and> has_flag FLAG_SOCK_EPOLLED s")
  case True
  let ?s = "clear_flag FLAG_SOCK_EPOLLED s"
  let ?st = "put_sock a ?s (st\<lparr>f_event_cnt := f_event_cnt st - 1\<rparr>)"
  have same: "same_place (f_socks st b) (f_socks ?st b)" for b
    using assms(2) by (simp add: same_place_def put_sock_def)
  have "cp_del_epoll_event (Some a) st = Some ?st"
    using True assms(2) by (simp add: cp_del_epoll_event_def)
  then show ?thesis
    using fds_wf_same_place [OF assms(1), of ?st] same by (simp add: clear_flag_def)
next
  case False
  then show ?thesis using assms by (auto simp: cp_del_epoll_event_def)
qed

lemma unlink_same_place: "same_place (f_socks st b) (f_socks (unlink_registry a st) b)"
  by (cases "f_socks st b") (simp_all add: same_place_def unlink_registry_def)

lemma del_registry_state:
  assumes "fds_wf st" "f_socks st a = Some s"
    "\<And>v. has_flag FLAG_SOCK_REGISTRY s \<Longrightarrow> s_mode s = CP_SOCK_MODE_ACCEPT \<Longrightarrow> s_serv_sock s = Some v \<Longrightarrow>
      f_socks st v \<noteq> None"
  shows "\<exists>st'. cp_fds_del_sock_registry (Some a) st = Some st' \<and> fds_wf st' \<and> waiting st' = waiting st \<and>
    task_cells st' = task_cells st \<and> (\<forall>b. same_place (f_socks st b) (f_socks st' b))"
proof (cases "has_flag FLAG_SOCK_REGISTRY s")
  case False
  then show ?thesis using assms(1,2) by (auto simp: cp_fds_del_sock_registry_def)
next
  case True
  obtain st1 where st1: "(case s_serv_sock s of
      Some v \<Rightarrow> if s_mode s = CP_SOCK_MODE_ACCEPT
        then do { srv \<leftarrow> f_socks st v; Some (put_sock v (srv\<lparr>s_accept_cnt := s_accept_cnt srv - 1\<rparr>) st) }
        else Some st
      | None \<Rightarrow> Some st) = Some st1"
    "f_queue st1 = f_queue st" "f_heap st1 = f_heap st" "f_tasks st1 = f_tasks st"
    "\<And>b. same_place (f_socks st b) (f_socks st1 b)"
  proof (cases "s_serv_sock s")
    case (Some v)
    show thesis
    proof (cases "s_mode s = CP_SOCK_MODE_ACCEPT")
      case True
      then obtain srv where "f_socks st v = Some srv" using assms(3) [OF \<open>has_flag FLAG_SOCK_REGISTRY s\<close>] Some by blast
      then show thesis
        using that [of "put_sock v (srv\<lparr>s_accept_cnt := s_accept_cnt srv - 1\<rparr>) st"] True Some
        by (simp add: same_place_def)
    qed (use that [of st] Some in simp)
  qed (use that [of st] in simp)
  let ?st2 = "unlink_registry a st1"
  have "f_socks st1 a \<noteq> None" using st1(5) [of a] assms(2) by (cases "f_socks st1 a") (simp_all add: same_place_def)
  then obtain s2 where s2: "f_socks ?st2 a = Some s2" by (auto simp: unlink_registry_def)
  let ?st = "put_sock a (clear_flag FLAG_SOCK_REGISTRY s2) ?st2"
  have "same_place (f_socks ?st2 b) (f_socks ?st b)" for b
    using s2 by (simp add: same_place_def)
  then have same: "same_place (f_socks st b) (f_socks ?st b)" for b
    using st1(5) [of b] unlink_same_place [of st1 b a] by (simp add: same_place_def)
  have "cp_fds_del_sock_registry (Some a) st = Some ?st"
    using True assms(2) st1(1) s2 by (simp add: cp_fds_del_sock_registry_def Let_def)
  moreover have "f_queue ?st = f_queue st" "f_heap ?st = f_heap st" "f_tasks ?st = f_tasks st"
    using st1(2-4) by (simp_all add: unlink_registry_def)
  ultimately show ?thesis
    using fds_wf_same_place [OF assms(1), of ?st] same by simp
qed

lemma fds_wf_remove:
  assumes "fds_wf st" "a \<notin> set (waiting st)" "Some a \<notin> set (task_cells st)"
  shows "fds_wf (st\<lparr>f_socks := (f_socks st)(a := None)\<rparr>)"
proof -
  let ?st = "st\<lparr>f_socks := (f_socks st)(a := None)\<rparr>"
  note w = fds_wfD [OF assms(1)]
  have eqs: "fq ?st = fq st" "waiting ?st = waiting st" "task_cells ?st = task_cells st"
    by (simp_all add: fq_def waiting_def task_cells_def)
  have inq: "b \<in> set (waiting st) \<longleftrightarrow> (\<exists>x. f_socks ?st b = Some x \<and> inq x)" for b
    using w(5) [of b] assms(2) by (cases "b = a") simp_all
  have ok: "task_ok (task_cells st) b sb" if "f_socks ?st b = Some sb" for b sb
    using w(6) [of b sb] that by (simp split: if_splits)
  have live: "f_socks ?st b \<noteq> None" if "Some b \<in> set (task_cells st)" for b
    using w(7) [OF that] assms(3) that by auto
  have q: "f_queue ?st \<noteq> None" "f_tasks ?st \<noteq> None" "ar_wf (the (f_tasks ?st))"
    using w(1,2) by auto
  show ?thesis
    unfolding fds_wf_def eqs by (intro conjI allI impI q w(3,4) inq ok live)
qed

text \<open>The buffers of the socket have not been freed.\<close>

definition bufs_live :: "cp_sock \<Rightarrow> bool" where
  "bufs_live s \<longleftrightarrow> s_rbuf s \<noteq> STR_FREED \<and> s_sbuf s \<noteq> STR_FREED"

text \<open>What \<open>cp_sock_term\<close> leaves: the private data is freed by its function, a socket from the heap is gone, and
  another one is closed, with pointers to its freed buffers.\<close>

lemma sock_term_cases:
  assumes "f_socks st a = Some s" "bufs_live s"
  obtains calls s' where
    "cp_sock_term ok (Some a) st = Some (let st = st\<lparr>f_privt_calls := calls\<rparr> in
       if has_flag FLAG_SOCK_MALLOC s then st\<lparr>f_socks := (f_socks st)(a := None)\<rparr> else put_sock a s' st)"
    "s_flag s' = s_flag s" "s_index s' = s_index s" "s_mode s' = s_mode s" "s_accept_list s' = s_accept_list s"
    "s_accept_cnt s' = s_accept_cnt s" "s_serv_sock s' = s_serv_sock s" "s_fds s' = s_fds s"
proof -
  define s1 where "s1 = (if has_flag FLAG_SOCK_INIT s then snd (cp_sock_close ok s) else s)"
  have s1: "s_rbuf s1 = s_rbuf s" "s_sbuf s1 = s_sbuf s" "s_privt s1 = s_privt s" "s_privt_free s1 = s_privt_free s"
    "s_flag s1 = s_flag s" "s_index s1 = s_index s" "s_mode s1 = s_mode s" "s_accept_list s1 = s_accept_list s"
    "s_accept_cnt s1 = s_accept_cnt s" "s_serv_sock s1 = s_serv_sock s" "s_fds s1 = s_fds s"
    by (simp_all add: s1_def cp_sock_close_def)
  obtain r w where rw: "cp_string_destroy (s_rbuf s) = Some r" "cp_string_destroy (s_sbuf s) = Some w"
    using assms(2) cp_string_destroy_ok by (metis bufs_live_def)
  have same: "st\<lparr>f_privt_calls := f_privt_calls st\<rparr> = st" by simp
  define calls where "calls = (case (s_privt s, s_privt_free s) of (Some _, Some f) \<Rightarrow> f_privt_calls st @ [f]
    | _ \<Rightarrow> f_privt_calls st)"
  have "cp_sock_term ok (Some a) st = Some (let st = st\<lparr>f_privt_calls := calls\<rparr> in
       if has_flag FLAG_SOCK_MALLOC s then st\<lparr>f_socks := (f_socks st)(a := None)\<rparr>
       else put_sock a (s1\<lparr>s_rbuf := r, s_sbuf := w, s_fd := - 1\<rparr>) st)"
    unfolding cp_sock_term_def option.case assms(1) Option.bind.bind_lunit s1_def [symmetric] Let_def
    using rw s1 same by (cases "s_privt s"; cases "s_privt_free s") (simp_all add: has_flag_def calls_def)
  then show thesis by (rule that) (simp_all add: s1)
qed

lemma sock_term_state:
  assumes "fds_wf st" "f_socks st a = Some s" "a \<notin> set (waiting st)" "Some a \<notin> set (task_cells st)" "bufs_live s"
  shows "\<exists>st'. cp_sock_term ok (Some a) st = Some st' \<and> fds_wf st' \<and> waiting st' = waiting st \<and>
    task_cells st' = task_cells st"
proof -
  obtain calls s' where t: "cp_sock_term ok (Some a) st = Some (let st = st\<lparr>f_privt_calls := calls\<rparr> in
       if has_flag FLAG_SOCK_MALLOC s then st\<lparr>f_socks := (f_socks st)(a := None)\<rparr> else put_sock a s' st)"
    "s_flag s' = s_flag s" "s_index s' = s_index s"
    using sock_term_cases [OF assms(2,5), of ok] by metis
  let ?st = "st\<lparr>f_privt_calls := calls\<rparr>"
  have eqs: "waiting ?st = waiting st" "task_cells ?st = task_cells st" "f_socks ?st = f_socks st"
    "fds_wf ?st = fds_wf st"
    by (simp_all add: waiting_def fq_def task_cells_def fds_wf_def)
  let ?f = "?st\<lparr>f_socks := (f_socks ?st)(a := None)\<rparr>" and ?p = "put_sock a s' ?st"
  have "fds_wf ?f"
    by (rule fds_wf_remove) (use assms eqs in simp_all)
  moreover have "fds_wf ?p"
    by (rule fds_wf_put_same [of ?st a s]) (use assms eqs t in \<open>simp_all add: has_flag_def\<close>)
  moreover have "waiting ?f = waiting st" "task_cells ?f = task_cells st"
    by (simp_all add: waiting_def fq_def task_cells_def)
  ultimately show ?thesis using t(1) eqs by (auto simp: Let_def)
qed


definition same_serv :: "cp_fds \<Rightarrow> cp_fds \<Rightarrow> bool" where
  "same_serv st st' \<longleftrightarrow> (\<forall>b. map_option (\<lambda>s. (s_serv_sock s, bufs_live s)) (f_socks st' b) =
         map_option (\<lambda>s. (s_serv_sock s, bufs_live s)) (f_socks st b))"

lemma serv_flag [simp]: "s_serv_sock (set_flag f s) = s_serv_sock s" "s_serv_sock (clear_flag f s) = s_serv_sock s"
  "bufs_live (set_flag f s) = bufs_live s" "bufs_live (clear_flag f s) = bufs_live s"
  "bufs_live (s\<lparr>s_index := i\<rparr>) = bufs_live s" "bufs_live (s\<lparr>s_events := e\<rparr>) = bufs_live s"
  by (simp_all add: set_flag_def clear_flag_def bufs_live_def)

lemma del_task_serv: "cp_fds_del_sock_task (Some a) st = Some st' \<Longrightarrow> same_serv st st'"
  by (auto simp: cp_fds_del_sock_task_def put_sock_def same_serv_def split: if_splits)

lemma rmqueue_serv: "cp_fds_sock_rmqueue (Some a) st = Some (r, st') \<Longrightarrow> same_serv st st'"
  by (auto simp: cp_fds_sock_rmqueue_def put_sock_def same_serv_def Let_def split: if_splits)

lemma del_epoll_serv: "cp_del_epoll_event (Some a) st = Some st' \<Longrightarrow> same_serv st st'"
  by (auto simp: cp_del_epoll_event_def put_sock_def same_serv_def split: if_splits)

lemma same_serv_trans: "same_serv st st' \<Longrightarrow> same_serv st' st'' \<Longrightarrow> same_serv st st''"
  by (simp add: same_serv_def)

lemma unlink_serv: "same_serv st (unlink_registry a st)"
  by (auto simp: same_serv_def unlink_registry_def bufs_live_def option.map_comp o_def)

lemma put_serv:
  "f_socks st a = Some s \<Longrightarrow> s_serv_sock s' = s_serv_sock s \<Longrightarrow> bufs_live s' = bufs_live s \<Longrightarrow> same_serv st (put_sock a s' st)"
  by (simp add: same_serv_def)

lemma del_registry_serv:
  assumes "cp_fds_del_sock_registry (Some a) st = Some st'"
  shows "same_serv st st'"
proof -
  obtain s where s: "f_socks st a = Some s" using assms by (auto simp: cp_fds_del_sock_registry_def)
  have unreg: "same_serv st0 (put_sock a (clear_flag FLAG_SOCK_REGISTRY s0) (unlink_registry a st0))"
    if "f_socks (unlink_registry a st0) a = Some s0" for st0 s0
    by (rule same_serv_trans [OF unlink_serv], rule put_serv [OF that]) simp_all
  have cnt: "same_serv st (put_sock v (srv\<lparr>s_accept_cnt := n\<rparr>) st)" if "f_socks st v = Some srv" for v srv n
    by (rule put_serv [OF that]) (simp_all add: bufs_live_def)
  show ?thesis
    using assms s unreg same_serv_trans [OF cnt unreg]
    by (auto simp: cp_fds_del_sock_registry_def Let_def same_serv_def split: if_splits option.splits)
qed

lemma destroy_state:
  assumes "fds_wf st" "f_socks st a = Some s" "s_fds s" "\<And>v. s_serv_sock s = Some v \<Longrightarrow> f_socks st v \<noteq> None" "bufs_live s"
  shows "\<exists>st'. cp_fds_destroy_sock ok (Some a) st = Some st' \<and> fds_wf st' \<and>
    waiting st' = remove1 a (waiting st) \<and> Some a \<notin> set (task_cells st')"
proof -
  obtain st1 s1 where 1: "cp_fds_del_sock_task (Some a) st = Some st1" "fds_wf st1" "waiting st1 = waiting st"
    "Some a \<notin> set (task_cells st1)" "f_socks st1 = (f_socks st)(a \<mapsto> s1)" "s_fds s1"
    using del_task_state [OF assms(1-3)] by blast
  have a1: "f_socks st1 a = Some s1" using 1(5) by simp
  obtain r st2 s2 where 2: "cp_fds_sock_rmqueue (Some a) st1 = Some (r, st2)" "fds_wf st2"
    "waiting st2 = remove1 a (waiting st1)" "task_cells st2 = task_cells st1" "f_socks st2 = (f_socks st1)(a \<mapsto> s2)"
    using rmqueue_state [OF 1(2) a1 1(6)] by blast
  have a2: "f_socks st2 a = Some s2" using 2(5) by simp
  have notin: "a \<notin> set (remove1 a (waiting st))" using fds_wfD(4) [OF assms(1)] by simp
  obtain st3 where 3: "cp_del_epoll_event (Some a) st2 = Some st3" "fds_wf st3" "waiting st3 = waiting st2"
    "task_cells st3 = task_cells st2"
    using del_epoll_state [OF 2(2) a2] by blast
  have serv: "map_option (\<lambda>s. (s_serv_sock s, bufs_live s)) (f_socks st3 b) =
      map_option (\<lambda>s. (s_serv_sock s, bufs_live s)) (f_socks st b)" for b
    using del_task_serv [OF 1(1)] rmqueue_serv [OF 2(1)] del_epoll_serv [OF 3(1)] by (simp add: same_serv_def)
  obtain s3 where a3: "f_socks st3 a = Some s3" "s_serv_sock s3 = s_serv_sock s" "bufs_live s3"
    using serv [of a] assms(2,5) by (cases "f_socks st3 a") simp_all
  have v3: "f_socks st3 v \<noteq> None" if "s_serv_sock s3 = Some v" for v
    using assms(4) [of v] serv [of v] that a3(2) by (cases "f_socks st3 v"; cases "f_socks st v") simp_all
  obtain st4 where 4: "cp_fds_del_sock_registry (Some a) st3 = Some st4" "fds_wf st4" "waiting st4 = waiting st3"
    "task_cells st4 = task_cells st3" "\<forall>b. same_place (f_socks st3 b) (f_socks st4 b)"
    using del_registry_state [OF 3(2) a3(1)] v3 by blast
  obtain s4 where a4: "f_socks st4 a = Some s4" "bufs_live s4"
    using del_registry_serv [OF 4(1), unfolded same_serv_def, rule_format, of a] a3(1,3)
    by (cases "f_socks st4 a") simp_all
  obtain st5 where "cp_sock_term ok (Some a) st4 = Some st5" "fds_wf st5" "waiting st5 = waiting st4"
    "task_cells st5 = task_cells st4"
    using sock_term_state [OF 4(2) a4(1) _ _ a4(2), of ok] 4(3,4) 3(3,4) 2(3,4) 1(3,4) notin by auto
  then show ?thesis
    using 1 2 3 4 by (simp add: cp_fds_destroy_sock_def)
qed

subsection \<open>The loops\<close>

text \<open>What a callback must not do for the loops to be understood from outside: it leaves the queue,
  the task array and the callbacks of the sockets alone (it may read and write its socket).\<close>

definition same_cbs :: "cp_fds \<Rightarrow> cp_fds \<Rightarrow> bool" where
  "same_cbs st st' \<longleftrightarrow> (\<forall>b. map_option s_cbfunc (f_socks st' b) = map_option s_cbfunc (f_socks st b))"

definition quiet :: "callback \<Rightarrow> bool" where
  "quiet cb \<longleftrightarrow> (\<forall>f a st. fds_wf st \<longrightarrow> f_socks st a \<noteq> None \<longrightarrow>
     (\<exists>st'. cb f a st = Some st' \<and> fds_wf st' \<and> waiting st' = waiting st \<and> task_cells st' = task_cells st \<and>
        f_calls st' = f_calls st \<and> same_cbs st st'))"

text \<open>Every socket has a callback; \<open>fn a\<close> is that of the socket at \<open>a\<close>.\<close>

definition cbs_are :: "(addr \<Rightarrow> nat) \<Rightarrow> cp_fds \<Rightarrow> bool" where
  "cbs_are fn st \<longleftrightarrow> (\<forall>a s. f_socks st a = Some s \<longrightarrow> s_cbfunc s = Some (fn a))"

lemma cbs_are_same: "cbs_are fn st \<Longrightarrow> same_cbs st st' \<Longrightarrow> cbs_are fn st'"
  unfolding cbs_are_def same_cbs_def
  by (metis (no_types, lifting) map_option_eq_Some option.simps(9))

lemma quiet_call:
  assumes "quiet cb" "fds_wf st" "f_socks st a \<noteq> None" "cbs_are fn st"
  shows "\<exists>st'. call cb f a st = Some st' \<and> fds_wf st' \<and> waiting st' = waiting st \<and> task_cells st' = task_cells st \<and>
    f_calls st' = f_calls st @ [(f, a)] \<and> cbs_are fn st'"
proof -
  let ?st = "st\<lparr>f_calls := f_calls st @ [(f, a)]\<rparr>"
  have e: "fds_wf ?st" "waiting ?st = waiting st" "task_cells ?st = task_cells st"
    using assms(2) by (simp_all add: fds_wf_def fq_def waiting_def task_cells_def)
  moreover have "cbs_are fn ?st" using assms(4) by (simp add: cbs_are_def)
  moreover obtain st' where "cb f a ?st = Some st'" "fds_wf st'" "waiting st' = waiting ?st"
    "task_cells st' = task_cells ?st" "f_calls st' = f_calls ?st" "same_cbs ?st st'"
    using assms(1) [unfolded quiet_def, rule_format, of ?st a f] e(1) assms(3) by auto
  ultimately show ?thesis using cbs_are_same by (auto simp: call_def)
qed

lemma event_loop_quiet:
  assumes "quiet cb"
  shows "fds_wf st \<Longrightarrow> cbs_are fn st \<Longrightarrow> waiting st = as \<Longrightarrow>
    \<exists>st'. event_loop cb st = Some st' \<and> fds_wf st' \<and> waiting st' = [] \<and> cbs_are fn st' \<and>
      task_cells st' = task_cells st \<and> f_calls st' = f_calls st @ map (\<lambda>a. (fn a, a)) as"
proof (induction as arbitrary: st)
  case Nil
  note w = fds_wfD [OF Nil.prems(1)]
  obtain q where q: "f_queue st = Some q" "fq st = (f_heap st, q)" using w(1) by blast
  then have "cp_queue_is_empty q"
    using w(3) Nil.prems(3) by (auto simp: waiting_def q_items_def q_wf_def q_rep_empty)
  then show ?case using Nil q(1) by (subst event_loop.simps) simp
next
  case (Cons a as)
  note w = fds_wfD [OF Cons.prems(1)]
  obtain q where q: "f_queue st = Some q" "fq st = (f_heap st, q)" using w(1) by blast
  then have ne: "\<not> cp_queue_is_empty q"
    using w(3) Cons.prems(3) by (auto simp: waiting_def q_items_def q_wf_def q_rep_empty)
  obtain s st1 where 1: "f_socks st a = Some s" "cp_fds_sock_dequeue st = Some (Some a, st1)" "fds_wf st1"
    "waiting st1 = as" "task_cells st1 = task_cells st" "f_socks st1 = (f_socks st)(a \<mapsto> clear_flag FLAG_SOCK_INQUEUE s)"
    using dequeue_state [OF Cons.prems(1,3)] by blast
  have fn: "s_cbfunc s = Some (fn a)" using Cons.prems(2) 1(1) by (simp add: cbs_are_def)
  have c1: "cbs_are fn st1" using Cons.prems(2) 1(1,6) by (auto simp: cbs_are_def)
  have calls1: "f_calls st1 = f_calls st"
    using 1(2) by (auto simp: cp_fds_sock_dequeue_def put_sock_def Let_def)
  obtain st2 where 2: "call cb (fn a) a st1 = Some st2" "fds_wf st2" "waiting st2 = as"
    "task_cells st2 = task_cells st" "f_calls st2 = f_calls st @ [(fn a, a)]" "cbs_are fn st2"
    using quiet_call [OF assms 1(3) _ c1, of a "fn a"] 1(4-6) calls1 by auto
  obtain st' where "event_loop cb st2 = Some st'" "fds_wf st'" "waiting st' = []" "cbs_are fn st'"
    "task_cells st' = task_cells st2" "f_calls st' = f_calls st2 @ map (\<lambda>a. (fn a, a)) as"
    using Cons.IH [OF 2(2,6,3)] by blast
  then show ?case
    using q(1) ne 1(2,6) fn 2 by (subst event_loop.simps) simp
qed

fun cells_list :: "'a option list \<Rightarrow> 'a list" where
  "cells_list [] = []"
| "cells_list (None # cs) = cells_list cs"
| "cells_list (Some a # cs) = a # cells_list cs"

lemma task_loop_quiet:
  assumes "quiet cb"
  shows "fds_wf st \<Longrightarrow> cbs_are fn st \<Longrightarrow> task_cells st = cells \<Longrightarrow> i < length cells \<Longrightarrow> e = cells ! i \<Longrightarrow>
    \<exists>st'. task_loop cb i e st = Some st' \<and> fds_wf st' \<and> waiting st' = waiting st \<and> cbs_are fn st' \<and>
      task_cells st' = cells \<and> f_calls st' = f_calls st @ map (\<lambda>a. (fn a, a)) (cells_list (drop i cells))"
proof (induction "length cells - i" arbitrary: i e st)
  case (Suc n)
  note w = fds_wfD [OF Suc.prems(1)]
  obtain t where t: "f_tasks st = Some t" "ar_wf t" "task_cells st = ar_data t" using w(2) by blast
  have sz: "int i < ar_size t" using t(2,3) Suc.prems(3,4) by (simp add: ar_wf_def)
  have dr: "drop i cells = cells ! i # drop (Suc i) cells" using Suc.prems(4) by (simp add: Cons_nth_drop_Suc)
  obtain st1 where 1: "(case e of None \<Rightarrow> Some st | Some a \<Rightarrow> do {
       s \<leftarrow> f_socks st a;
       case s_cbfunc s of Some f \<Rightarrow> call cb f a st | None \<Rightarrow> cp_fds_del_sock_task (Some a) st }) = Some st1"
    "fds_wf st1" "waiting st1 = waiting st" "cbs_are fn st1" "task_cells st1 = cells"
    "f_calls st1 = f_calls st @ map (\<lambda>a. (fn a, a)) (cells_list [cells ! i])"
  proof (cases e)
    case None
    then show thesis using that [of st] Suc.prems by simp
  next
    case (Some a)
    have "Some a \<in> set (task_cells st)" using Suc.prems(3-5) Some nth_mem by metis
    then obtain s where s: "f_socks st a = Some s" using w(7) by blast
    then have "s_cbfunc s = Some (fn a)" using Suc.prems(2) by (simp add: cbs_are_def)
    moreover obtain st2 where "call cb (fn a) a st = Some st2" "fds_wf st2" "waiting st2 = waiting st"
      "task_cells st2 = task_cells st" "f_calls st2 = f_calls st @ [(fn a, a)]" "cbs_are fn st2"
      using quiet_call [OF assms Suc.prems(1) _ Suc.prems(2), of a "fn a"] s by auto
    ultimately show thesis using that [of st2] s Some Suc.prems(3,5) [symmetric] by simp
  qed
  obtain t1 where t1: "f_tasks st1 = Some t1" "ar_wf t1" "cells = ar_data t1"
    using fds_wfD(2) [OF 1(2)] 1(5) by auto
  have step: "task_loop cb i e st = do {
      e \<leftarrow> (if int (Suc i) < ar_size t1 then rd (ar_data t1) (Suc i) else Some None);
      task_loop cb (Suc i) e st1 }"
    using t(1) sz 1(1) t1(1) by (subst task_loop.simps) (simp split: option.splits)
  show ?case
  proof (cases "Suc i < length cells")
    case True
    then have "int (Suc i) < ar_size t1" using t1 by (simp add: ar_wf_def)
    then have "task_loop cb i e st = task_loop cb (Suc i) (cells ! Suc i) st1"
      using step True t1(3) by simp
    moreover have "n = length cells - Suc i" using Suc.hyps(2) by simp
    ultimately show ?thesis
      using Suc.hyps(1) [of "Suc i" st1 "cells ! Suc i", OF _ 1(2,4,5) True] 1(3,6) dr
      by (cases "cells ! i") auto
  next
    case False
    then have "\<not> int (Suc i) < ar_size t1" using t1 by (simp add: ar_wf_def)
    then have "task_loop cb i e st = Some st1"
      using step t1(1) by (simp, subst task_loop.simps) simp
    moreover have "drop (Suc i) cells = []" using False by simp
    ultimately show ?thesis using 1 dr by simp
  qed
qed simp

lemma proc_event_quiet:
  assumes "quiet cb" "fds_wf st" "cbs_are fn st" "task_cells st \<noteq> []"
  shows "\<exists>st'. cp_fds_proc_event cb st = Some st' \<and> fds_wf st' \<and> waiting st' = [] \<and>
    task_cells st' = task_cells st \<and>
    f_calls st' = f_calls st @ map (\<lambda>a. (fn a, a)) (cells_list (task_cells st) @ waiting st)"
proof -
  obtain t where t: "f_tasks st = Some t" "task_cells st = ar_data t" using fds_wfD(2) [OF assms(2)] by blast
  obtain st1 where 1: "task_loop cb 0 (task_cells st ! 0) st = Some st1" "fds_wf st1" "waiting st1 = waiting st"
    "cbs_are fn st1" "task_cells st1 = task_cells st"
    "f_calls st1 = f_calls st @ map (\<lambda>a. (fn a, a)) (cells_list (task_cells st))"
    using task_loop_quiet [OF assms(1-3) refl _ refl, of 0] assms(4) by auto
  obtain st' where "event_loop cb st1 = Some st'" "fds_wf st'" "waiting st' = []"
    "task_cells st' = task_cells st1" "f_calls st' = f_calls st1 @ map (\<lambda>a. (fn a, a)) (waiting st)"
    using event_loop_quiet [OF assms(1) 1(2,4,3)] by blast
  then show ?thesis
    using t 1 assms(4) by (simp add: cp_fds_proc_event_def)
qed

subsection \<open>New events and timeouts\<close>

lemma detect_loop_state:
  assumes "good_malloc mal"
  shows "fds_wf st \<Longrightarrow> finite (dom (f_heap st)) \<Longrightarrow> fst ` set es \<subseteq> dom (f_socks st) \<Longrightarrow> length (waiting st) + length es \<le> q_cap (fq st) \<Longrightarrow>
    \<exists>st' new. detect_loop mal now es st = Some st' \<and> fds_wf st' \<and> waiting st' = waiting st @ new \<and>
      set new \<subseteq> fst ` set es \<and> task_cells st' = task_cells st"
proof (induction es arbitrary: st)
  case (Cons e es)
  obtain a ev where e: "e = (a, ev)" by (cases e)
  obtain s where s: "f_socks st a = Some s" using Cons.prems(3) e by auto
  let ?s = "s\<lparr>s_events := ev, s_actv_time := now\<rparr>"
  let ?st = "put_sock a ?s st"
  have wf: "fds_wf ?st" by (rule fds_wf_put_same [OF Cons.prems(1) s]) simp_all
  have sa: "f_socks ?st a = Some ?s" by simp
  obtain st1 new1 where 1: "(if s_status s = SOCK_STAT_ALREADY
      then do { (_, st) \<leftarrow> cp_fds_sock_enqueue mal (Some a) ?st; Some st } else Some ?st) = Some st1"
    "fds_wf st1" "waiting st1 = waiting st @ new1" "set new1 \<subseteq> {a}" "length new1 \<le> 1"
    "task_cells st1 = task_cells st" "q_cap (fq st1) = q_cap (fq st)" "dom (f_socks st1) = dom (f_socks st)"
    "finite (dom (f_heap st1))"
  proof (cases "s_status s = SOCK_STAT_ALREADY")
    case True
    have room: "finite (dom (f_heap ?st))" "length (waiting ?st) < q_cap (fq ?st)"
      using Cons.prems(2,4) by simp_all
    obtain r st2 where "cp_fds_sock_enqueue mal (Some a) ?st = Some (r, st2)" "fds_wf st2"
      "waiting st2 = (if inq ?s \<or> tasked ?s \<or> \<not> s_fds ?s then waiting ?st else waiting ?st @ [a])"
      "task_cells st2 = task_cells ?st" "q_cap (fq st2) = q_cap (fq ?st)" "dom (f_socks st2) = dom (f_socks ?st)"
      "finite (dom (f_heap st2))"
      using enqueue_state [OF wf sa assms(1) room] by blast
    then show thesis
      using that [of st2 "if inq ?s \<or> tasked ?s \<or> \<not> s_fds ?s then [] else [a]"] True s
      by (auto simp: insert_absorb domI)
  next
    case False
    then show thesis using that [of ?st "[]"] wf s Cons.prems(2) by (auto simp: insert_absorb domI)
  qed
  have "fst ` set es \<subseteq> dom (f_socks st1)" "length (waiting st1) + length es \<le> q_cap (fq st1)"
    using Cons.prems(3,4) 1(3,5,7,8) by auto
  then obtain st' new where "detect_loop mal now es st1 = Some st'" "fds_wf st'" "waiting st' = waiting st1 @ new"
    "set new \<subseteq> fst ` set es" "task_cells st' = task_cells st1"
    using Cons.IH [OF 1(2) 1(9)] by blast
  then show ?case
    using e s 1 by (intro exI [of _ st'] exI [of _ "new1 @ new"]) (auto simp: Let_def)
qed simp

definition expired :: "u32 \<Rightarrow> cp_sock \<Rightarrow> bool" where
  "expired now s \<longleftrightarrow>
     s_idle_timeout s > 0 \<and> time_elapsed now (s_actv_time s) > s_idle_timeout s \<or>
     s_msg_timeout s > 0 \<and> s_msg_time s > 0 \<and> time_elapsed now (s_msg_time s) > s_msg_timeout s"

lemma check_timeout_state:
  assumes "fds_wf st" "f_socks st a = Some s" "s_fds s"
  shows "\<exists>st' s'. check_timeout now a st = Some st' \<and> fds_wf st' \<and> waiting st' = waiting st \<and>
    f_socks st' a = Some s' \<and> (tasked s' \<longleftrightarrow> tasked s \<or> expired now s \<and> None \<in> set (task_cells st))"
proof -
  have add: "\<exists>st' s'. do { (_, st) \<leftarrow> cp_fds_add_sock_task (Some a) (put_sock a (s\<lparr>s_events := ev\<rparr>) st); Some st } = Some st' \<and>
      fds_wf st' \<and> waiting st' = waiting st \<and> f_socks st' a = Some s' \<and>
      (tasked s' \<longleftrightarrow> tasked s \<or> None \<in> set (task_cells st))" for ev
  proof -
    let ?s = "s\<lparr>s_events := ev\<rparr>" and ?st = "put_sock a (s\<lparr>s_events := ev\<rparr>) st"
    have wf: "fds_wf ?st" by (rule fds_wf_put_same [OF assms(1,2)]) simp_all
    obtain rv st' where "cp_fds_add_sock_task (Some a) ?st = Some (rv, st')" "fds_wf st'" "waiting st' = waiting ?st"
      "if tasked ?s \<or> None \<in> set (task_cells ?st)
       then rv = 0 \<and> (\<exists>s'. f_socks st' a = Some s' \<and> tasked s' \<and> inq s' = inq ?s \<and>
              task_cells st' ! nat (s_index s') = Some a)
       else rv = - 2 \<and> f_socks st' = f_socks ?st"
      using add_task_state [OF wf, of a ?s] assms(3) by auto
    then show ?thesis by (auto split: if_splits)
  qed
  show ?thesis
  proof (cases "s_idle_timeout s > 0 \<and> time_elapsed now (s_actv_time s) > s_idle_timeout s")
    case True
    then show ?thesis
      using add [of CP_SOCK_EVENT_IDLE_TIMEOUT] assms(2) by (simp add: check_timeout_def expired_def)
  next
    case idle: False
    show ?thesis
    proof (cases "s_msg_timeout s > 0 \<and> s_msg_time s > 0 \<and> time_elapsed now (s_msg_time s) > s_msg_timeout s")
      case True
      have "check_timeout now a st = do {
          (_, st) \<leftarrow> cp_fds_add_sock_task (Some a) (put_sock a (s\<lparr>s_events := CP_SOCK_EVENT_MSG_TIMEOUT\<rparr>) st); Some st }"
        using idle True assms(2) by (simp only: check_timeout_def Option.bind.bind_lunit if_False if_True simp_thms)
      moreover have "expired now s" using True by (simp add: expired_def)
      ultimately show ?thesis using add [of CP_SOCK_EVENT_MSG_TIMEOUT] by simp
    next
      case False
      then have "check_timeout now a st = Some st" "\<not> expired now s"
        using idle assms(2) by (simp_all only: check_timeout_def expired_def Option.bind.bind_lunit if_False) simp_all
      then show ?thesis using assms(1,2) by auto
    qed
  qed
qed

section \<open>Properties\<close>

definition sample_sock :: "u16 \<Rightarrow> int \<Rightarrow> cp_sock" where
  "sample_sock fl ix = \<lparr>s_fd = 7, s_mode = 2, s_flag = fl, s_status = 2, s_actv_time = 0, s_msg_time = 0,
     s_idle_timeout = 10, s_msg_timeout = 0, s_keepintvl = 600, s_keepcnt = 3, s_rsize = 2048, s_ssize = 2048,
     s_events = 0, s_sbuf = STR_NULL, s_rbuf = STR_NULL, s_saddr = [], s_laddr = [], s_lport = 0, s_raddr = [], s_rport = 0,
     s_fds = True, s_cbfunc = Some 1, s_client_func = None, s_serv_sock = None, s_max_client = 0,
     s_accept_cnt = 0, s_accept_list = [], s_privt = None, s_privt_free = None, s_index = ix\<rparr>"

text \<open>The socket at 100 waits in the queue, the one at 300 is in the task array, the one at 200 is idle.\<close>

definition sample_fds :: cp_fds where
  "sample_fds = \<lparr>f_flag = 1, f_epfd = 3, f_timeout = 10, f_max_event = 2, f_event_cnt = 0, f_server_list = [], f_client_list = [],
     f_queue = Some \<lparr>cq_front = Some 5, cq_rear = Some 5, cq_items = 1, cq_size = 2\<rparr>,
     f_tasks = Some \<lparr>ar_flag = 1, ar_size = 2, ar_items = 1, ar_data = [Some 300, None]\<rparr>,
     f_heap = [5 \<mapsto> \<lparr>qn_item = Some 100, qn_next = None\<rparr>],
     f_socks = [100 \<mapsto> sample_sock 16 (- 1), 200 \<mapsto> sample_sock 0 (- 1), 300 \<mapsto> sample_sock 32 0], f_calls = [], f_privt_calls = []\<rparr>"

lemma sample_flags [simp]:
  "inq (sample_sock 16 i)" "\<not> tasked (sample_sock 16 i)" "\<not> inq (sample_sock 0 i)" "\<not> tasked (sample_sock 0 i)"
  "\<not> inq (sample_sock 32 i)" "tasked (sample_sock 32 i)"
  by (simp_all add: has_flag_def sample_sock_def FLAG_SOCK_INQUEUE_def FLAG_SOCK_TASKED_def)

lemma less_2: "i < Suc (Suc 0) \<longleftrightarrow> i = 0 \<or> i = 1" for i :: nat
  by auto

lemma sample_fds_queue:
  "waiting sample_fds = [100]" "task_cells sample_fds = [Some 300, None]" "q_cap (fq sample_fds) = 2"
  "q_wf (fq sample_fds) = True"
  by (simp_all add: sample_fds_def waiting_def fq_def task_cells_def q_items_def q_addrs_def q_item_def q_cap_def
      q_wf_def q_rep_def numeral_2_eq_2 One_nat_def)

lemma sample_fds_wf: "fds_wf sample_fds"
proof -
  have "f_queue sample_fds \<noteq> None" "f_tasks sample_fds \<noteq> None" "ar_wf (the (f_tasks sample_fds))"
    by (simp_all add: sample_fds_def ar_wf_def)
  moreover have "a \<in> set (waiting sample_fds) \<longleftrightarrow> (\<exists>s. f_socks sample_fds a = Some s \<and> inq s)" for a
    unfolding sample_fds_queue by (auto simp: sample_fds_def)
  moreover have "task_ok (task_cells sample_fds) a s" if "f_socks sample_fds a = Some s" for a s
    using that unfolding sample_fds_queue
    by (auto simp: sample_fds_def task_ok_def less_2 split: if_splits) (auto simp: sample_sock_def)
  moreover have "f_socks sample_fds a \<noteq> None" if "Some a \<in> set (task_cells sample_fds)" for a
    using that unfolding sample_fds_queue by (simp add: sample_fds_def)
  ultimately show ?thesis
    unfolding fds_wf_def using sample_fds_queue by simp
qed


text \<open>C5. One round of the event loop, with callbacks that leave the queue and the task array
  alone, ends; it calls the callback of each socket in the task array, in the order of the
  slots, and then of each socket in the event queue, in the order of arrival, each exactly once, and
  leaves the queue empty and the context well formed.\<close>

theorem proc_event_serves_each_once:
  assumes "quiet cb" "fds_wf st" "cbs_are fn st" "task_cells st \<noteq> []"
  shows "\<exists>st'. cp_fds_proc_event cb st = Some st' \<and> fds_wf st' \<and> waiting st' = [] \<and>
    f_calls st' = f_calls st @ map (\<lambda>a. (fn a, a)) (cells_list (task_cells st) @ waiting st)"
  using proc_event_quiet [OF assms] by blast

theorem proc_event_serves_each_once_witness:
  "\<exists>st'. cp_fds_proc_event (\<lambda>f a st. Some st) sample_fds = Some st' \<and> fds_wf st' \<and> waiting st' = [] \<and>
    f_calls st' = f_calls sample_fds @
      map (\<lambda>a. (1, a)) (cells_list (task_cells sample_fds) @ waiting sample_fds)"
proof (rule proc_event_serves_each_once [OF _ sample_fds_wf])
  show "quiet (\<lambda>f a st. Some st)" by (simp add: quiet_def same_cbs_def)
  show "cbs_are (\<lambda>a. 1) sample_fds" by (auto simp: cbs_are_def sample_fds_def sample_sock_def split: if_splits)
  show "task_cells sample_fds \<noteq> []" by (simp add: sample_fds_queue)
qed



text \<open>Taking in a batch of events keeps the context well formed, as long as the queue has room for
  them and memory is left: only sockets of the batch are queued, behind those that wait already, and
  a socket that is queued already (or is in the task array) is not queued again.\<close>

theorem detect_event_keeps_invariant:
  assumes "good_malloc mal" "fds_wf st" "finite (dom (f_heap st))"
    "fst ` set es \<subseteq> dom (f_socks st)" "length (waiting st) + length es \<le> q_cap (fq st)"
  shows "\<exists>st' new. cp_fds_detect_event mal (Some es) now st = Some (0, st') \<and> fds_wf st' \<and>
    waiting st' = waiting st @ new \<and> set new \<subseteq> fst ` set es \<and> distinct (waiting st')"
proof -
  obtain st' new where "detect_loop mal now es st = Some st'" "fds_wf st'" "waiting st' = waiting st @ new"
    "set new \<subseteq> fst ` set es"
    using detect_loop_state [OF assms, of now] by blast
  then show ?thesis using fds_wfD(4) [of st'] by (simp add: cp_fds_detect_event_def)
qed

theorem detect_event_keeps_invariant_witness:
  "\<exists>st' new. cp_fds_detect_event next_address (Some [(200, 1)]) 5 sample_fds = Some (0, st') \<and> fds_wf st' \<and>
    waiting st' = waiting sample_fds @ new \<and> set new \<subseteq> fst ` set [(200, 1 :: u32)] \<and> distinct (waiting st')"
  by (rule detect_event_keeps_invariant [OF good_malloc_next_address sample_fds_wf])
    (simp_all add: sample_fds_queue, simp_all add: sample_fds_def)

text \<open>The check for timeouts puts a socket into the task array exactly when it was there
  or its idle or message timeout has passed and a slot is free, and keeps the context well formed.\<close>

theorem check_timeout_functional:
  assumes "fds_wf st" "f_socks st a = Some s" "s_fds s"
  shows "\<exists>st' s'. check_timeout now a st = Some st' \<and> fds_wf st' \<and> waiting st' = waiting st \<and>
    f_socks st' a = Some s' \<and> (tasked s' \<longleftrightarrow> tasked s \<or> expired now s \<and> None \<in> set (task_cells st))"
  by (rule check_timeout_state [OF assms])

theorem check_timeout_functional_witness:
  "\<exists>st' s'. check_timeout 11 200 sample_fds = Some st' \<and> fds_wf st' \<and> waiting st' = waiting sample_fds \<and>
    f_socks st' 200 = Some s' \<and> (tasked s' \<longleftrightarrow> tasked (sample_sock 0 (- 1)) \<or>
      expired 11 (sample_sock 0 (- 1)) \<and> None \<in> set (task_cells sample_fds))"
  by (rule check_timeout_functional [OF sample_fds_wf]) (simp_all add: sample_fds_def sample_sock_def)

text \<open>The elapsed time is right while the clock has not wrapped around, and one
  millisecond short afterwards.\<close>

theorem time_elapsed_wraps_one_short:
  "time_elapsed current start = (if current < start then current - start - 1 else current - start)"
  by (simp add: time_elapsed_def)

text \<open>\<open>cp_fds_sock_enqueue\<close> marks the socket before it knows that the queue took it. When
  the queue is full the socket stays marked although it is not queued: later events of it are
  never queued again, and removing it from the queue (when it is destroyed) dereferences a null pointer.\<close>

theorem enqueue_on_full_queue_loses_socket:
  assumes "fds_wf st" "f_socks st a = Some s" "\<not> inq s" "\<not> tasked s" "s_fds s"
    "length (waiting st) = q_cap (fq st)" "waiting st \<noteq> []"
  shows "\<exists>st'. cp_fds_sock_enqueue mal (Some a) st = Some (None, st') \<and> a \<notin> set (waiting st') \<and>
    cp_fds_sock_enqueue mal2 (Some a) st' = Some (None, st') \<and>
    cp_fds_sock_rmqueue (Some a) st' = None"
proof -
  note w = fds_wfD [OF assms(1)]
  obtain q where q: "f_queue st = Some q" "fq st = (f_heap st, q)" using w(1) by blast
  let ?st = "put_sock a (set_flag FLAG_SOCK_INQUEUE s) st"
  have same: "?st\<lparr>f_heap := f_heap st, f_queue := Some q\<rparr> = ?st"
    using q(1) by (simp add: put_sock_def)
  have "q_enq (mal (f_heap st)) (f_heap st, q) a = Some (False, f_heap st, q)"
    using lq.enq_fail [of "fq st" "mal (f_heap st)" a] w(3) assms(6) q(2) by (simp add: waiting_def)
  then have "cp_enqueue (mal (f_heap st)) (f_heap st) (Some q) (Some a) = Some (None, f_heap st, Some q)"
    by (auto simp: q_enq_def)
  then have 1: "cp_fds_sock_enqueue mal (Some a) st = Some (None, ?st)"
    using assms(2-5) q(1) same by (simp add: cp_fds_sock_enqueue_def Let_def)
  have notin: "a \<notin> set (waiting st)" using w(5) [of a] assms(2,3) by auto
  have "cp_fds_sock_enqueue mal2 (Some a) ?st = Some (None, ?st)"
    by (simp add: cp_fds_sock_enqueue_def)
  moreover obtain as where as: "q_rep (f_heap st) q as" "map (q_item (f_heap st)) as = map Some (waiting st)"
    using q_wf_obtain [of "f_heap st" q] w(3) q(2) by (metis waiting_def)
  have "cp_rmqueue (f_heap st) (Some q) (Some a) = None"
    by (rule cp_rmqueue_missing [OF as(1)]) (use as(2) assms(7) notin in auto)
  then have "cp_fds_sock_rmqueue (Some a) ?st = None"
    using q(1) assms(5) by (simp add: cp_fds_sock_rmqueue_def)
  ultimately show ?thesis using 1 notin by auto
qed

definition full_fds :: cp_fds where
  "full_fds = sample_fds\<lparr>f_queue := Some \<lparr>cq_front = Some 5, cq_rear = Some 5, cq_items = 1, cq_size = 1\<rparr>\<rparr>"

lemma full_fds_wf: "fds_wf full_fds" "waiting full_fds = [100]" "q_cap (fq full_fds) = 1"
proof -
  have e: "waiting full_fds = [100]" "task_cells full_fds = task_cells sample_fds" "f_socks full_fds = f_socks sample_fds"
    "f_queue full_fds \<noteq> None" "f_tasks full_fds = f_tasks sample_fds" "q_wf (fq full_fds)"
    by (simp_all add: full_fds_def sample_fds_def waiting_def fq_def task_cells_def q_items_def q_addrs_def q_item_def
        q_wf_def q_rep_def One_nat_def)
  show "fds_wf full_fds"
    using sample_fds_wf sample_fds_queue(1) e unfolding fds_wf_def by simp
  show "waiting full_fds = [100]" by (rule e)
  show "q_cap (fq full_fds) = 1" by (simp add: full_fds_def fq_def q_cap_def)
qed

theorem enqueue_on_full_queue_loses_socket_witness:
  "\<exists>st'. cp_fds_sock_enqueue next_address (Some 200) full_fds = Some (None, st') \<and> 200 \<notin> set (waiting st') \<and>
    cp_fds_sock_enqueue next_address (Some 200) st' = Some (None, st') \<and>
    cp_fds_sock_rmqueue (Some 200) st' = None"
  by (rule enqueue_on_full_queue_loses_socket [OF full_fds_wf(1), where s = "sample_sock 0 (- 1)"])
    (simp_all add: full_fds_wf, simp_all add: full_fds_def sample_fds_def sample_sock_def)

end
