(* ===== verification/Nmea.thy ===== *)
theory Nmea
  imports CString
begin

text \<open>
  The NMEA parser of \<open>fwed/gpsd\<close> (\<open>nmea_parse.c\<close> and \<open>nmea_info.c\<close>): the scanner of sentences, one
  parser per kind of sentence, the merge of a sentence into the summary of the receiver, and the loop
  over the lines of a buffer. The bytes that a size argument delimits are a list of that length.
\<close>

section \<open>Data\<close>

text \<open>The code stores floating-point numbers and only negates and scales them; a \<open>double\<close> is the
  expression it is the value of. \<open>DKnots\<close> is the constant \<open>NMEA_TUD_KNOTS\<close>.\<close>

datatype dbl = DZero | DStrtod string | DKnots | DNeg dbl | DMul dbl dbl

abbreviation (input) nul :: char where "nul \<equiv> CHR 0x00"

definition NMEA_CONVSTR_BUF :: nat where "NMEA_CONVSTR_BUF = 256"
definition NMEA_TIMEPARSE_BUF :: nat where "NMEA_TIMEPARSE_BUF = 256"
definition NMEA_SIG_BAD :: int where "NMEA_SIG_BAD = 0"
definition NMEA_SIG_MID :: int where "NMEA_SIG_MID = 2"
definition NMEA_FIX_BAD :: int where "NMEA_FIX_BAD = 1"
definition NMEA_FIX_2D :: int where "NMEA_FIX_2D = 2"
definition NMEA_MAXSAT :: nat where "NMEA_MAXSAT = 12"
definition NMEA_SATINPACK :: nat where "NMEA_SATINPACK = 4"

datatype nmeaPACKTYPE = GPNON | GPGGA | GPGSA | GPGSV | GPRMC | GPVTG

fun pack_mask :: "nmeaPACKTYPE \<Rightarrow> int" where
  "pack_mask GPNON = 0x0000"
| "pack_mask GPGGA = 0x0001"
| "pack_mask GPGSA = 0x0002"
| "pack_mask GPGSV = 0x0004"
| "pack_mask GPRMC = 0x0008"
| "pack_mask GPVTG = 0x0010"

record nmeaTIME =
  t_year :: int
  t_mon :: int
  t_day :: int
  t_hour :: int
  t_min :: int
  t_sec :: int
  t_hsec :: int

record nmeaSATELLITE =
  s_id :: int
  s_in_use :: int
  s_elv :: int
  s_azimuth :: int
  s_sig :: int

record nmeaSATINFO =
  inuse :: int
  inview :: int
  sat :: "nmeaSATELLITE list"

record nmeaINFO =
  smask :: int
  i_utc :: nmeaTIME
  i_sig :: int
  i_fix :: int
  i_PDOP :: dbl
  i_HDOP :: dbl
  i_VDOP :: dbl
  i_lat :: dbl
  i_lon :: dbl
  i_elv :: dbl
  i_speed :: dbl
  i_direction :: dbl
  i_declination :: dbl
  satinfo :: nmeaSATINFO

record nmeaGPGGA =
  gga_utc :: nmeaTIME
  gga_lat :: dbl
  gga_ns :: char
  gga_lon :: dbl
  gga_ew :: char
  gga_sig :: int
  gga_satinuse :: int
  gga_HDOP :: dbl
  gga_elv :: dbl
  gga_elv_units :: char
  gga_diff :: dbl
  gga_diff_units :: char
  gga_dgps_age :: dbl
  gga_dgps_sid :: int

record nmeaGPGSA =
  gsa_fix_mode :: char
  gsa_fix_type :: int
  gsa_sat_prn :: "int list"
  gsa_PDOP :: dbl
  gsa_HDOP :: dbl
  gsa_VDOP :: dbl

record nmeaGPGSV =
  gsv_pack_count :: int
  gsv_pack_index :: int
  gsv_sat_count :: int
  gsv_sat_data :: "nmeaSATELLITE list"

record nmeaGPRMC =
  rmc_utc :: nmeaTIME
  rmc_status :: char
  rmc_lat :: dbl
  rmc_ns :: char
  rmc_lon :: dbl
  rmc_ew :: char
  rmc_speed :: dbl
  rmc_direction :: dbl
  rmc_declination :: dbl
  rmc_declin_ew :: char
  rmc_mode :: char

record nmeaGPVTG =
  vtg_dir :: dbl
  vtg_dir_t :: char
  vtg_dec :: dbl
  vtg_dec_m :: char
  vtg_spn :: dbl
  vtg_spn_n :: char
  vtg_spk :: dbl
  vtg_spk_k :: char

definition zero_time :: nmeaTIME where
  "zero_time = \<lparr>t_year = 0, t_mon = 0, t_day = 0, t_hour = 0, t_min = 0, t_sec = 0, t_hsec = 0\<rparr>"

definition zero_sat :: nmeaSATELLITE where
  "zero_sat = \<lparr>s_id = 0, s_in_use = 0, s_elv = 0, s_azimuth = 0, s_sig = 0\<rparr>"

section \<open>Conversions\<close>

text \<open>\<open>strtol(s, NULL, radix)\<close> for the radices of the scanner.\<close>

definition strtol_radix :: "nat \<Rightarrow> string \<Rightarrow> int" where
  "strtol_radix radix s =
     (let s = strip_left s;
          neg = (take 1 s = ''-'');
          s = (if take 1 s = ''-'' \<or> take 1 s = ''+'' then drop 1 s else s);
          s = (if radix = 16 \<and> (take 2 s = ''0x'' \<or> take 2 s = ''0X'') then drop 2 s else s);
          v = digits_val radix 0 s
      in clamp_long (if neg then - v else v))"

definition nmea_atoi :: "char list \<Rightarrow> nat \<Rightarrow> int" where
  "nmea_atoi str radix = (if length str < NMEA_CONVSTR_BUF then strtol_radix radix (cstr str) else 0)"

definition nmea_atof :: "char list \<Rightarrow> dbl" where
  "nmea_atof str = (if length str < NMEA_CONVSTR_BUF then DStrtod (cstr str) else DZero)"

section \<open>The scanner\<close>

text \<open>What the variable arguments point to (a \<open>char\<close> array with its size) and what is stored there.
  A store that does not fit its target is undefined.\<close>

datatype target = ToChar | ToStr nat | ToDouble | ToInt | ToNull

datatype sval = SChar char | SStr string | SDbl dbl | SInt int

text \<open>The second switch, on the conversions to integers. \<open>True\<close> says to go on, \<open>False\<close> is
  \<open>goto fail\<close>.\<close>

definition scan_int :: "char \<Rightarrow> char list \<Rightarrow> target list \<Rightarrow> (bool \<times> sval option list \<times> target list) option" where
  "scan_int c tok args =
     (case args of
        [] \<Rightarrow> None
      | ToNull # args \<Rightarrow> Some (True, [None], args)
      | t # args \<Rightarrow>
          if tok = [] then Some (True, [None], args)
          else if c = CHR ''d'' \<or> c = CHR ''i'' \<or> c = CHR ''u''
          then (if t = ToInt then Some (True, [Some (SInt (nmea_atoi tok 10))], args) else None)
          else if c = CHR ''x'' \<or> c = CHR ''X''
          then (if t = ToInt then Some (True, [Some (SInt (nmea_atoi tok 16))], args) else None)
          else if c = CHR ''o''
          then (if t = ToInt then Some (True, [Some (SInt (nmea_atoi tok 8))], args) else None)
          else Some (False, [None], args))"

text \<open>The first switch; a conversion that left no target falls through to the second, with the next
  argument.\<close>

definition scan_store :: "char \<Rightarrow> char list \<Rightarrow> target list \<Rightarrow> (bool \<times> sval option list \<times> target list) option" where
  "scan_store c tok args =
     (if c = CHR ''c'' \<or> c = CHR ''C''
      then (case args of
              ToChar # args \<Rightarrow> Some (True, [if tok \<noteq> [] then Some (SChar (hd tok)) else None], args)
            | ToNull # args \<Rightarrow> do { (go, ss, args) \<leftarrow> scan_int c tok args; Some (go, None # ss, args) }
            | _ \<Rightarrow> None)
      else if c = CHR ''s'' \<or> c = CHR ''S''
      then (case args of
              ToStr n # args \<Rightarrow>
                if tok \<noteq> [] then (if length tok < n then Some (True, [Some (SStr tok)], args) else None)
                else Some (True, [None], args)
            | ToNull # args \<Rightarrow> do { (go, ss, args) \<leftarrow> scan_int c tok args; Some (go, None # ss, args) }
            | _ \<Rightarrow> None)
      else if c = CHR ''f'' \<or> c = CHR ''g'' \<or> c = CHR ''G'' \<or> c = CHR ''e'' \<or> c = CHR ''E''
      then (case args of
              ToDouble # args \<Rightarrow> Some (True, [if tok \<noteq> [] then Some (SDbl (nmea_atof tok)) else None], args)
            | ToNull # args \<Rightarrow> do { (go, ss, args) \<leftarrow> scan_int c tok args; Some (go, None # ss, args) }
            | _ \<Rightarrow> None)
      else scan_int c tok args)"

text \<open>The number of bytes of a token: the width, one for a character, or up to the character that
  follows in the format. \<open>None\<close> is \<open>goto fail\<close>.\<close>

definition scan_width :: "string \<Rightarrow> char \<Rightarrow> string \<Rightarrow> char list \<Rightarrow> nat option" where
  "scan_width digits c fmt b =
     (let width = (if digits \<noteq> [] then nat (nmea_atoi digits 10) else 0);
          width = (if width = 0 \<and> (c = CHR ''c'' \<or> c = CHR ''C'') \<and> hd b \<noteq> hd (fmt @ [nul]) then 1 else width)
      in if width \<noteq> 0 then (if width \<le> length b then Some width else None)
         else if fmt = [] then Some (length b)
         else Some (length (takeWhile (\<lambda>x. x \<noteq> hd fmt) b)))"

text \<open>The states of the scanner. It stays in \<open>PERCENT\<close> and \<open>WIDTH\<close> only over digits, which are kept
  with the state; the state \<open>TYPE\<close> is left in the round that enters it.\<close>

datatype tok_type = COMPARE | PERCENT | WIDTH string

fun scanf_loop ::
  "tok_type \<Rightarrow> string \<Rightarrow> char list \<Rightarrow> target list \<Rightarrow> (int \<times> sval option list) option" where
  "scanf_loop st [] b args = Some (0, [])"
| "scanf_loop st (c # fmt) b args =
     (if b = [] then Some (0, [])
      else case st of
        COMPARE \<Rightarrow>
          if c = CHR ''%'' then scanf_loop PERCENT fmt b args
          else if hd b \<noteq> c then Some (0, []) else scanf_loop COMPARE fmt (tl b) args
      | _ \<Rightarrow>
          (let digits = (case st of WIDTH ds \<Rightarrow> ds | _ \<Rightarrow> [])
           in if c_isdigit c then scanf_loop (WIDTH (digits @ [c])) fmt b args
              else case scan_width digits c fmt b of
                     None \<Rightarrow> Some (0, [])
                   | Some w \<Rightarrow>
                       (case scan_store c (take w b) args of
                          None \<Rightarrow> None
                        | Some (go, ss, args) \<Rightarrow>
                            if go
                            then (case scanf_loop COMPARE fmt (drop w b) args of
                                    None \<Rightarrow> None
                                  | Some (n, ss') \<Rightarrow> Some (n + 1, ss @ ss'))
                            else Some (1, ss))))"

definition nmea_scanf :: "char list \<Rightarrow> string \<Rightarrow> target list \<Rightarrow> (int \<times> sval option list) option" where
  "nmea_scanf buff format args = scanf_loop COMPARE format buff args"

section \<open>The parsers of the sentences\<close>

text \<open>A field keeps its value where nothing was stored.\<close>

definition st_int :: "sval option list \<Rightarrow> nat \<Rightarrow> int \<Rightarrow> int" where
  "st_int ss k d = (case rd ss k of Some (Some (SInt x)) \<Rightarrow> x | _ \<Rightarrow> d)"

definition st_dbl :: "sval option list \<Rightarrow> nat \<Rightarrow> dbl \<Rightarrow> dbl" where
  "st_dbl ss k d = (case rd ss k of Some (Some (SDbl x)) \<Rightarrow> x | _ \<Rightarrow> d)"

definition st_chr :: "sval option list \<Rightarrow> nat \<Rightarrow> char \<Rightarrow> char" where
  "st_chr ss k d = (case rd ss k of Some (Some (SChar x)) \<Rightarrow> x | _ \<Rightarrow> d)"

text \<open>A \<open>char\<close> array: the string, its terminating zero, and what was there before. As a C string it
  must have a zero.\<close>

definition st_buf :: "sval option list \<Rightarrow> nat \<Rightarrow> char list \<Rightarrow> char list" where
  "st_buf ss k b = (case rd ss k of Some (Some (SStr x)) \<Rightarrow> x @ nul # drop (length x + 1) b | _ \<Rightarrow> b)"

definition buf_str :: "char list \<Rightarrow> string option" where
  "buf_str b = (if nul \<in> set b then Some (cstr b) else None)"

text \<open>The result is 0 or -1 and the time.\<close>

definition nmea_parse_time :: "char list \<Rightarrow> nmeaTIME \<Rightarrow> (int \<times> nmeaTIME) option" where
  "nmea_parse_time buff res =
     (if length buff = 6 then do {
        (n, ss) \<leftarrow> nmea_scanf buff ''%2d%2d%2d'' (replicate 3 ToInt);
        Some (if n = 3 then 0 else - 1,
              res\<lparr>t_hour := st_int ss 0 (t_hour res), t_min := st_int ss 1 (t_min res), t_sec := st_int ss 2 (t_sec res)\<rparr>) }
      else if length buff = 8 \<or> length buff = 9 \<or> length buff = 10 then do {
        (n, ss) \<leftarrow> nmea_scanf buff ''%2d%2d%2d.%d'' (replicate 4 ToInt);
        Some (if n = 4 then 0 else - 1,
              res\<lparr>t_hour := st_int ss 0 (t_hour res), t_min := st_int ss 1 (t_min res), t_sec := st_int ss 2 (t_sec res),
                  t_hsec := st_int ss 3 (t_hsec res)\<rparr>) }
      else Some (- 1, res))"

text \<open>The type of a sentence; \<open>buff\<close> is the block behind the pointer, \<open>buff_sz\<close> the size that the caller
  passes.\<close>

definition nmea_pack_type :: "char list \<Rightarrow> int \<Rightarrow> nmeaPACKTYPE option" where
  "nmea_pack_type buff buff_sz =
     (if buff_sz < 5 then Some GPNON
      else do {
        h \<leftarrow> rd_slice buff 0 5;
        Some (if h = ''GPGGA'' then GPGGA
              else if h = ''GPGSA'' then GPGSA
              else if h = ''GPGSV'' then GPGSV
              else if h = ''GPRMC'' then GPRMC
              else if h = ''GPVTG'' then GPVTG
              else GPNON) })"

text \<open>\<open>strchr\<close> on a block of memory: the outer option is undefined without a terminating zero.\<close>

definition c_strchr :: "char list \<Rightarrow> char \<Rightarrow> nat option option" where
  "c_strchr b c =
     (let i = length (takeWhile (\<lambda>x. x \<noteq> c \<and> x \<noteq> nul) b)
      in if i < length b then Some (if b ! i = c then Some i else None) else None)"

text \<open>The results: the bytes used, the length of the line (-1 without a line), and the line.\<close>

definition nmea_get_item_line :: "char list \<Rightarrow> int \<Rightarrow> char list \<Rightarrow> (int \<times> int \<times> char list) option" where
  "nmea_get_item_line buff buff_sz line = do {
     s \<leftarrow> c_strchr buff CHR ''$'';
     (case s of None \<Rightarrow> Some (buff_sz, - 1, line)
      | Some start \<Rightarrow> do {
          s \<leftarrow> c_strchr (drop start buff) CHR ''*'';
          (case s of None \<Rightarrow> Some (buff_sz, - 1, line)
           | Some k \<Rightarrow> do {
               line \<leftarrow> wr_slice line 0 (take (k + 1) (drop start buff));
               (let nread = int (start + k) + 5
                in Some (if nread > buff_sz then buff_sz else nread, int k + 1, line)) }) }) }"

text \<open>The loop of \<open>nmea_find_tail\<close>, at the byte \<open>nread\<close> with the checksum so far. The results are the
  return value and \<open>res_crc\<close>.\<close>

function find_tail_loop :: "char list \<Rightarrow> nat \<Rightarrow> int \<Rightarrow> int \<times> int" where
  "find_tail_loop buff nread crc =
     (if nread < length buff then
        let c = buff ! nread in
        if c = CHR ''$'' \<and> nread \<noteq> 0 then (int nread, - 1)
        else if c = CHR ''*''
        then (if nread + 5 \<le> length buff \<and> buff ! (nread + 3) = CHR 0x0D \<and> buff ! (nread + 4) = CHR 0x0A
              then let r = nmea_atoi (take 2 (drop (nread + 1) buff)) 16
                   in if r \<noteq> crc then (int (nread + 5), - 1)
                      else if r < 0 then (0, r) else (int (nread + 5), r)
              else (0, - 1))
        else find_tail_loop buff (nread + 1) (if nread \<noteq> 0 then crc XOR of_char c else crc)
      else (0, - 1))"
  by pat_completeness auto
termination by (relation "measure (\<lambda>(buff, nread, crc). length buff - nread)") auto

declare find_tail_loop.simps [simp del]

definition nmea_find_tail :: "char list \<Rightarrow> int \<times> int" where
  "nmea_find_tail buff = find_tail_loop buff 0 0"

definition fmt_GPGGA :: string where
  "fmt_GPGGA = ''$GPGGA,%s,%f,%C,%f,%C,%d,%d,%f,%f,%C,%f,%C,%f,%d*''"

definition args_GPGGA :: "target list" where
  "args_GPGGA = [ToStr NMEA_TIMEPARSE_BUF, ToDouble, ToChar, ToDouble, ToChar, ToInt, ToInt, ToDouble, ToDouble,
     ToChar, ToDouble, ToChar, ToDouble, ToInt]"

definition gga_of :: "sval option list \<Rightarrow> nmeaGPGGA" where
  "gga_of ss = \<lparr>gga_utc = zero_time, gga_lat = st_dbl ss 1 DZero, gga_ns = st_chr ss 2 nul,
     gga_lon = st_dbl ss 3 DZero, gga_ew = st_chr ss 4 nul, gga_sig = st_int ss 5 0, gga_satinuse = st_int ss 6 0,
     gga_HDOP = st_dbl ss 7 DZero, gga_elv = st_dbl ss 8 DZero, gga_elv_units = st_chr ss 9 nul,
     gga_diff = st_dbl ss 10 DZero, gga_diff_units = st_chr ss 11 nul, gga_dgps_age = st_dbl ss 12 DZero,
     gga_dgps_sid = st_int ss 13 0\<rparr>"

text \<open>The parsers return 1 or 0 and the packet, which is cleared first. \<open>tb\<close> is what the array
  \<open>time_buff\<close> on the stack holds before the call.\<close>

definition nmea_parse_GPGGA :: "char list \<Rightarrow> char list \<Rightarrow> (int \<times> nmeaGPGGA) option" where
  "nmea_parse_GPGGA tb buff = do {
     (n, ss) \<leftarrow> nmea_scanf buff fmt_GPGGA args_GPGGA;
     (let pack = gga_of ss in
      if n \<noteq> 14 then Some (0, pack)
      else do {
        t \<leftarrow> buf_str (st_buf ss 0 tb);
        (rv, utc) \<leftarrow> nmea_parse_time t (gga_utc pack);
        Some (if rv \<noteq> 0 then 0 else 1, pack\<lparr>gga_utc := utc\<rparr>) }) }"

definition fmt_GPGSA :: string where
  "fmt_GPGSA = ''$GPGSA,%C,%d,%d,%d,%d,%d,%d,%d,%d,%d,%d,%d,%d,%d,%f,%f,%f*''"

definition args_GPGSA :: "target list" where
  "args_GPGSA = [ToChar, ToInt] @ replicate 12 ToInt @ [ToDouble, ToDouble, ToDouble]"

definition gsa_of :: "sval option list \<Rightarrow> nmeaGPGSA" where
  "gsa_of ss = \<lparr>gsa_fix_mode = st_chr ss 0 nul, gsa_fix_type = st_int ss 1 0,
     gsa_sat_prn = map (\<lambda>i. st_int ss (i + 2) 0) [0..<NMEA_MAXSAT],
     gsa_PDOP = st_dbl ss 14 DZero, gsa_HDOP = st_dbl ss 15 DZero, gsa_VDOP = st_dbl ss 16 DZero\<rparr>"

definition nmea_parse_GPGSA :: "char list \<Rightarrow> (int \<times> nmeaGPGSA) option" where
  "nmea_parse_GPGSA buff = do {
     (n, ss) \<leftarrow> nmea_scanf buff fmt_GPGSA args_GPGSA;
     Some (if n \<noteq> 17 then 0 else 1, gsa_of ss) }"

definition fmt_GPGSV :: string where
  "fmt_GPGSV = ''$GPGSV,%d,%d,%d,'' @ ''%d,%d,%d,%d,'' @ ''%d,%d,%d,%d,'' @ ''%d,%d,%d,%d,'' @ ''%d,%d,%d,%d*''"

definition gsv_of :: "sval option list \<Rightarrow> nmeaGPGSV" where
  "gsv_of ss = \<lparr>gsv_pack_count = st_int ss 0 0, gsv_pack_index = st_int ss 1 0, gsv_sat_count = st_int ss 2 0,
     gsv_sat_data = map (\<lambda>i. zero_sat\<lparr>s_id := st_int ss (4 * i + 3) 0, s_elv := st_int ss (4 * i + 4) 0,
       s_azimuth := st_int ss (4 * i + 5) 0, s_sig := st_int ss (4 * i + 6) 0\<rparr>) [0..<NMEA_SATINPACK]\<rparr>"

text \<open>The numbers come from the sentence; an \<open>int\<close> that overflows is undefined.\<close>

definition c_int :: "int \<Rightarrow> int option" where
  "c_int x = (if - LONG_MAX - 1 \<le> x \<and> x \<le> LONG_MAX then Some x else None)"

text \<open>The number of satellites in this sentence, computed in both functions on it.\<close>

definition gsv_nsat :: "nmeaGPGSV \<Rightarrow> int option" where
  "gsv_nsat pack = do {
     i \<leftarrow> c_int (gsv_pack_index pack - 1);
     nsat \<leftarrow> c_int (i * int NMEA_SATINPACK);
     s \<leftarrow> c_int (nsat + int NMEA_SATINPACK);
     if s > gsv_sat_count pack then c_int (gsv_sat_count pack - nsat) else Some (int NMEA_SATINPACK) }"

definition nmea_parse_GPGSV :: "char list \<Rightarrow> (int \<times> nmeaGPGSV) option" where
  "nmea_parse_GPGSV buff = do {
     (nsen, ss) \<leftarrow> nmea_scanf buff fmt_GPGSV (replicate 19 ToInt);
     (let pack = gsv_of ss in do {
        nsat \<leftarrow> gsv_nsat pack;
        n \<leftarrow> c_int (nsat * 4);
        n \<leftarrow> c_int (n + 3);
        Some (if nsen < n \<or> nsen > int NMEA_SATINPACK * 4 + 3 then 0 else 1, pack) }) }"

definition fmt_GPRMC :: string where
  "fmt_GPRMC = ''$GPRMC,%s,%C,%f,%C,%f,%C,%f,%f,%2d%2d%2d,%f,%C,%C*''"

definition args_GPRMC :: "target list" where
  "args_GPRMC = [ToStr NMEA_TIMEPARSE_BUF, ToChar, ToDouble, ToChar, ToDouble, ToChar, ToDouble, ToDouble,
     ToInt, ToInt, ToInt, ToDouble, ToChar, ToChar]"

definition rmc_of :: "sval option list \<Rightarrow> nmeaGPRMC" where
  "rmc_of ss = \<lparr>rmc_utc = zero_time\<lparr>t_day := st_int ss 8 0, t_mon := st_int ss 9 0, t_year := st_int ss 10 0\<rparr>,
     rmc_status = st_chr ss 1 nul, rmc_lat = st_dbl ss 2 DZero, rmc_ns = st_chr ss 3 nul,
     rmc_lon = st_dbl ss 4 DZero, rmc_ew = st_chr ss 5 nul, rmc_speed = st_dbl ss 6 DZero,
     rmc_direction = st_dbl ss 7 DZero, rmc_declination = st_dbl ss 11 DZero, rmc_declin_ew = st_chr ss 12 nul,
     rmc_mode = st_chr ss 13 nul\<rparr>"

definition nmea_parse_GPRMC :: "char list \<Rightarrow> char list \<Rightarrow> (int \<times> nmeaGPRMC) option" where
  "nmea_parse_GPRMC tb buff = do {
     (nsen, ss) \<leftarrow> nmea_scanf buff fmt_GPRMC args_GPRMC;
     (let pack = rmc_of ss in
      if nsen \<noteq> 13 \<and> nsen \<noteq> 14 then Some (0, pack)
      else do {
        t \<leftarrow> buf_str (st_buf ss 0 tb);
        (rv, utc) \<leftarrow> nmea_parse_time t (rmc_utc pack);
        if rv \<noteq> 0 then Some (0, pack\<lparr>rmc_utc := utc\<rparr>)
        else
          (let utc = (if t_year utc < 90 then utc\<lparr>t_year := t_year utc + 100\<rparr> else utc)
           in Some (1, pack\<lparr>rmc_utc := utc\<lparr>t_mon := t_mon utc - 1\<rparr>\<rparr>)) }) }"

definition fmt_GPVTG :: string where
  "fmt_GPVTG = ''$GPVTG,%f,%C,%f,%C,%f,%C,%f,%C*''"

definition args_GPVTG :: "target list" where
  "args_GPVTG = [ToDouble, ToChar, ToDouble, ToChar, ToDouble, ToChar, ToDouble, ToChar]"

definition vtg_of :: "sval option list \<Rightarrow> nmeaGPVTG" where
  "vtg_of ss = \<lparr>vtg_dir = st_dbl ss 0 DZero, vtg_dir_t = st_chr ss 1 nul, vtg_dec = st_dbl ss 2 DZero,
     vtg_dec_m = st_chr ss 3 nul, vtg_spn = st_dbl ss 4 DZero, vtg_spn_n = st_chr ss 5 nul,
     vtg_spk = st_dbl ss 6 DZero, vtg_spk_k = st_chr ss 7 nul\<rparr>"

definition nmea_parse_GPVTG :: "char list \<Rightarrow> (int \<times> nmeaGPVTG) option" where
  "nmea_parse_GPVTG buff = do {
     (n, ss) \<leftarrow> nmea_scanf buff fmt_GPVTG args_GPVTG;
     (let pack = vtg_of ss in
      if n \<noteq> 8 then Some (0, pack)
      else if vtg_dir_t pack \<noteq> CHR ''T'' \<or> vtg_dec_m pack \<noteq> CHR ''M'' \<or> vtg_spn_n pack \<noteq> CHR ''N'' \<or> vtg_spk_k pack \<noteq> CHR ''K''
      then Some (0, pack)
      else Some (1, pack)) }"


section \<open>Merging a sentence into the summary\<close>

definition nmea_GPGGA2info :: "nmeaGPGGA \<Rightarrow> nmeaINFO \<Rightarrow> nmeaINFO" where
  "nmea_GPGGA2info pack info = info\<lparr>
     i_utc := (i_utc info)\<lparr>t_hour := t_hour (gga_utc pack), t_min := t_min (gga_utc pack),
       t_sec := t_sec (gga_utc pack), t_hsec := t_hsec (gga_utc pack)\<rparr>,
     i_sig := gga_sig pack,
     i_HDOP := gga_HDOP pack,
     i_elv := gga_elv pack,
     i_lat := (if gga_ns pack = CHR ''N'' then gga_lat pack else DNeg (gga_lat pack)),
     i_lon := (if gga_ew pack = CHR ''E'' then gga_lon pack else DNeg (gga_lon pack)),
     smask := smask info OR pack_mask GPGGA\<rparr>"

text \<open>The two loops of \<open>nmea_GPGSA2info\<close>. The satellites in view are counted by a number of the
  summary, not by the size of its array.\<close>

function gsa_inner :: "int \<Rightarrow> int \<Rightarrow> nat \<Rightarrow> nmeaSATELLITE list \<Rightarrow> int \<Rightarrow> (nmeaSATELLITE list \<times> int) option" where
  "gsa_inner prn view j sats nuse =
     (if int j < view then
        if prn \<noteq> 0
        then (case rd sats j of
                None \<Rightarrow> None
              | Some s \<Rightarrow>
                  if prn = s_id s then gsa_inner prn view (j + 1) (sats[j := s\<lparr>s_in_use := 1\<rparr>]) (nuse + 1)
                  else gsa_inner prn view (j + 1) sats nuse)
        else gsa_inner prn view (j + 1) sats nuse
      else Some (sats, nuse))"
  by pat_completeness auto
termination by (relation "measure (\<lambda>(prn, view, j, sats, nuse). nat view - j)") auto

declare gsa_inner.simps [simp del]

fun gsa_outer :: "int list \<Rightarrow> int \<Rightarrow> nmeaSATELLITE list \<Rightarrow> int \<Rightarrow> (nmeaSATELLITE list \<times> int) option" where
  "gsa_outer [] view sats nuse = Some (sats, nuse)"
| "gsa_outer (prn # prns) view sats nuse = do {
     (sats, nuse) \<leftarrow> gsa_inner prn view 0 sats nuse;
     gsa_outer prns view sats nuse }"

definition nmea_GPGSA2info :: "nmeaGPGSA \<Rightarrow> nmeaINFO \<Rightarrow> nmeaINFO option" where
  "nmea_GPGSA2info pack info = do {
     (sats, nuse) \<leftarrow> gsa_outer (gsa_sat_prn pack) (inview (satinfo info)) (sat (satinfo info)) 0;
     Some (info\<lparr>i_fix := gsa_fix_type pack, i_PDOP := gsa_PDOP pack, i_HDOP := gsa_HDOP pack, i_VDOP := gsa_VDOP pack,
       satinfo := (satinfo info)\<lparr>sat := sats, inuse := nuse\<rparr>,
       smask := smask info OR pack_mask GPGSA\<rparr>) }"

text \<open>The copy loop of \<open>nmea_GPGSV2info\<close>, for the satellites from \<open>isat\<close> on.\<close>

fun gsv_copy :: "nat \<Rightarrow> nat \<Rightarrow> int \<Rightarrow> nmeaSATELLITE list \<Rightarrow> nmeaSATELLITE list \<Rightarrow> nmeaSATELLITE list option" where
  "gsv_copy 0 isat base data sats = Some sats"
| "gsv_copy (Suc k) isat base data sats = do {
     d \<leftarrow> rd data isat;
     (if base + int isat < 0 then None
      else do {
        s \<leftarrow> rd sats (nat (base + int isat));
        gsv_copy k (isat + 1) base data
          (sats[nat (base + int isat) := s\<lparr>s_id := s_id d, s_elv := s_elv d, s_azimuth := s_azimuth d, s_sig := s_sig d\<rparr>]) }) }"

definition nmea_GPGSV2info :: "nmeaGPGSV \<Rightarrow> nmeaINFO \<Rightarrow> nmeaINFO option" where
  "nmea_GPGSV2info pack info =
     (if gsv_pack_index pack > gsv_pack_count pack then Some info
      else do {
        m \<leftarrow> c_int (gsv_pack_index pack * int NMEA_SATINPACK);
        if m > int NMEA_MAXSAT then Some info
        else
          (let pack = (if gsv_pack_index pack < 1 then pack\<lparr>gsv_pack_index := 1\<rparr> else pack)
           in do {
             nsat \<leftarrow> gsv_nsat pack;
             sats \<leftarrow> gsv_copy (nat nsat) 0 ((gsv_pack_index pack - 1) * int NMEA_SATINPACK) (gsv_sat_data pack)
                      (sat (satinfo info));
             Some (info\<lparr>satinfo := (satinfo info)\<lparr>inview := gsv_sat_count pack, sat := sats\<rparr>,
               smask := smask info OR pack_mask GPGSV\<rparr>) }) })"

definition nmea_GPRMC2info :: "nmeaGPRMC \<Rightarrow> nmeaINFO \<Rightarrow> nmeaINFO" where
  "nmea_GPRMC2info pack info =
     (let info =
        (if rmc_status pack = CHR ''A''
         then (let info = (if i_sig info = NMEA_SIG_BAD then info\<lparr>i_sig := NMEA_SIG_MID\<rparr> else info)
               in if i_fix info = NMEA_FIX_BAD then info\<lparr>i_fix := NMEA_FIX_2D\<rparr> else info)
         else if rmc_status pack = CHR ''V'' then info\<lparr>i_sig := NMEA_SIG_BAD, i_fix := NMEA_FIX_BAD\<rparr>
         else info)
      in info\<lparr>i_utc := rmc_utc pack,
           i_lat := (if rmc_ns pack = CHR ''N'' then rmc_lat pack else DNeg (rmc_lat pack)),
           i_lon := (if rmc_ew pack = CHR ''E'' then rmc_lon pack else DNeg (rmc_lon pack)),
           i_speed := DMul (rmc_speed pack) DKnots,
           i_direction := rmc_direction pack,
           smask := smask info OR pack_mask GPRMC\<rparr>)"

definition nmea_GPVTG2info :: "nmeaGPVTG \<Rightarrow> nmeaINFO \<Rightarrow> nmeaINFO" where
  "nmea_GPVTG2info pack info = info\<lparr>i_direction := vtg_dir pack, i_declination := vtg_dec pack,
     i_speed := vtg_spk pack, smask := smask info OR pack_mask GPVTG\<rparr>"

section \<open>Initial values\<close>

text \<open>\<open>nmea_time_now\<close>; \<open>tm\<close> is what \<open>gmtime\<close> answers, in the fields of the same meaning.\<close>

definition nmea_time_now :: "nmeaTIME \<Rightarrow> nmeaTIME" where
  "nmea_time_now tm = \<lparr>t_year = t_year tm, t_mon = t_mon tm, t_day = t_day tm, t_hour = t_hour tm,
     t_min = t_min tm, t_sec = t_sec tm, t_hsec = 0\<rparr>"

definition nmea_zero_GPGGA :: "nmeaTIME \<Rightarrow> nmeaGPGGA" where
  "nmea_zero_GPGGA tm = (gga_of [])\<lparr>gga_utc := nmea_time_now tm, gga_ns := CHR ''N'', gga_ew := CHR ''E'',
     gga_elv_units := CHR ''M'', gga_diff_units := CHR ''M''\<rparr>"

definition nmea_zero_GPGSA :: nmeaGPGSA where
  "nmea_zero_GPGSA = (gsa_of [])\<lparr>gsa_fix_mode := CHR ''A'', gsa_fix_type := NMEA_FIX_BAD\<rparr>"

definition nmea_zero_GPGSV :: nmeaGPGSV where
  "nmea_zero_GPGSV = gsv_of []"

definition nmea_zero_GPRMC :: "nmeaTIME \<Rightarrow> nmeaGPRMC" where
  "nmea_zero_GPRMC tm = (rmc_of [])\<lparr>rmc_utc := nmea_time_now tm, rmc_status := CHR ''V'', rmc_ns := CHR ''N'',
     rmc_ew := CHR ''E'', rmc_declin_ew := CHR ''E''\<rparr>"

definition nmea_zero_GPVTG :: nmeaGPVTG where
  "nmea_zero_GPVTG = (vtg_of [])\<lparr>vtg_dir_t := CHR ''T'', vtg_dec_m := CHR ''M'', vtg_spn_n := CHR ''N'', vtg_spk_k := CHR ''K''\<rparr>"

definition nmea_zero_INFO :: "nmeaTIME \<Rightarrow> nmeaINFO" where
  "nmea_zero_INFO tm = \<lparr>smask = 0, i_utc = nmea_time_now tm, i_sig = NMEA_SIG_BAD, i_fix = NMEA_FIX_BAD,
     i_PDOP = DZero, i_HDOP = DZero, i_VDOP = DZero, i_lat = DZero, i_lon = DZero, i_elv = DZero, i_speed = DZero,
     i_direction = DZero, i_declination = DZero,
     satinfo = \<lparr>inuse = 0, inview = 0, sat = replicate NMEA_MAXSAT zero_sat\<rparr>\<rparr>"

section \<open>Lines and buffers\<close>

text \<open>\<open>buf\<close> is the block of the line, \<open>buf_sz\<close> the length of the line; \<open>ok\<close> is the outcome of
  \<open>malloc\<close>.\<close>

definition nmea_parse_line :: "bool \<Rightarrow> char list \<Rightarrow> char list \<Rightarrow> int \<Rightarrow> nmeaINFO \<Rightarrow> (int \<times> nmeaINFO) option" where
  "nmea_parse_line ok tb buf buf_sz info = do {
     type \<leftarrow> nmea_pack_type (drop 1 buf) buf_sz;
     line \<leftarrow> rd_slice buf 0 (nat buf_sz);
     (if type = GPNON then Some (0, info)
      else if \<not> ok then Some (- 1, info)
      else case type of
        GPGGA \<Rightarrow> do {
          (rv, pack) \<leftarrow> nmea_parse_GPGGA tb line;
          Some (0, if rv \<noteq> 0 then nmea_GPGGA2info pack info else info) }
      | GPGSA \<Rightarrow> do {
          (rv, pack) \<leftarrow> nmea_parse_GPGSA line;
          if rv \<noteq> 0 then do { info \<leftarrow> nmea_GPGSA2info pack info; Some (0, info) } else Some (0, info) }
      | GPGSV \<Rightarrow> do {
          (rv, pack) \<leftarrow> nmea_parse_GPGSV line;
          if rv \<noteq> 0 then do { info \<leftarrow> nmea_GPGSV2info pack info; Some (0, info) } else Some (0, info) }
      | GPRMC \<Rightarrow> do {
          (rv, pack) \<leftarrow> nmea_parse_GPRMC tb line;
          Some (0, if rv \<noteq> 0 then nmea_GPRMC2info pack info else info) }
      | GPVTG \<Rightarrow> do {
          (rv, pack) \<leftarrow> nmea_parse_GPVTG line;
          Some (0, if rv \<noteq> 0 then nmea_GPVTG2info pack info else info) }
      | GPNON \<Rightarrow> Some (0, info)) }"

text \<open>Every line that is found advances the buffer.\<close>

lemma get_item_line_progress:
  "nmea_get_item_line buff sz line = Some (nread, len, line') \<Longrightarrow> 0 \<le> len \<Longrightarrow> 0 < sz \<Longrightarrow> 0 < nread \<and> nread \<le> sz"
  by (auto simp: nmea_get_item_line_def Let_def split: option.splits if_splits)

text \<open>The loop of \<open>nmea_parse\<close>; \<open>data\<close> is the rest of the block, \<open>env k\<close> the outcome of \<open>malloc\<close> and the
  old contents of the stack at the line \<open>k\<close>.\<close>

function nmea_parse_loop :: "(nat \<Rightarrow> bool \<times> char list) \<Rightarrow> nat \<Rightarrow> char list \<Rightarrow> int \<Rightarrow> nmeaINFO \<Rightarrow> nmeaINFO option" where
  "nmea_parse_loop env k data len info =
     (if 0 < len then
        case nmea_get_item_line data len (replicate 512 nul) of
          None \<Rightarrow> None
        | Some (nbytes, line_len, line) \<Rightarrow>
            if line_len < 0 then Some info
            else case (if line_len > 0 then nmea_parse_line (fst (env k)) (snd (env k)) line line_len info else Some (0, info)) of
                   None \<Rightarrow> None
                 | Some (rv, info') \<Rightarrow> nmea_parse_loop env (k + 1) (drop (nat nbytes) data) (len - nbytes) info'
      else Some info)"
  by pat_completeness auto
termination
  by (relation "measure (\<lambda>(env, k, data, len, info). nat len)")
    (auto dest: get_item_line_progress simp: not_less)

declare nmea_parse_loop.simps [simp del]

definition nmea_parse :: "(nat \<Rightarrow> bool \<times> char list) \<Rightarrow> char list \<Rightarrow> int \<Rightarrow> nmeaINFO \<Rightarrow> (int \<times> nmeaINFO) option" where
  "nmea_parse env data len info = do {
     info \<leftarrow> nmea_parse_loop env 0 data len info;
     Some (0, info) }"


section \<open>The scanner on a sentence of fields\<close>

text \<open>The conversions of the formats of the sentences, and what each stores of its field.\<close>

definition conv_field :: "char \<Rightarrow> string \<Rightarrow> sval option" where
  "conv_field t tok =
     (if tok = [] then None
      else if t = CHR ''C'' then Some (SChar (hd tok))
      else if t = CHR ''s'' then Some (SStr tok)
      else if t = CHR ''f'' then Some (SDbl (nmea_atof tok))
      else Some (SInt (nmea_atoi tok 10)))"

definition fits :: "char \<Rightarrow> string \<Rightarrow> target \<Rightarrow> bool" where
  "fits t tok tg \<longleftrightarrow>
     t = CHR ''C'' \<and> tg = ToChar \<and> length tok \<le> 1 \<or>
     t = CHR ''s'' \<and> (\<exists>n. tg = ToStr n \<and> length tok < n) \<or>
     t = CHR ''f'' \<and> tg = ToDouble \<or>
     t = CHR ''d'' \<and> tg = ToInt"

lemma scan_store_fits:
  "fits t tok tg \<Longrightarrow> scan_store t tok (tg # args) = Some (True, [conv_field t tok], args)"
  unfolding fits_def
  by (elim disjE conjE exE) (simp_all add: scan_store_def scan_int_def conv_field_def)

lemma takeWhile_neq_append: "d \<notin> set tok \<Longrightarrow> takeWhile (\<lambda>x. x \<noteq> d) (tok @ d # b) = tok"
  by (induction tok) auto

lemma scan_width_field:
  assumes "fits t tok tg" "d \<notin> set tok"
  shows "scan_width [] t (d # fmt) (tok @ d # b) = Some (length tok)"
proof -
  have w: "length (takeWhile (\<lambda>x. x \<noteq> d) (tok @ d # b)) = length tok"
    using takeWhile_neq_append [OF assms(2), of b] by simp
  show ?thesis
  proof (cases "t = CHR ''C''")
    case False
    then have "t \<noteq> CHR ''c''" "t \<noteq> CHR ''C''" using assms(1) by (auto simp: fits_def)
    then show ?thesis using w by (simp add: scan_width_def)
  next
    case True
    then have "length tok \<le> 1" using assms(1) by (auto simp: fits_def)
    then show ?thesis
    proof (cases tok)
      case (Cons x xs)
      then have "x \<noteq> d" "xs = []" using assms(2) \<open>length tok \<le> 1\<close> by auto
      then show ?thesis using True Cons by (simp add: scan_width_def)
    qed (simp add: scan_width_def)
  qed
qed

text \<open>One conversion, up to the delimiter.\<close>

lemma scanf_field:
  assumes "fits t tok tg" "d \<notin> set tok"
  shows "scanf_loop COMPARE (CHR ''%'' # t # d # fmt) (tok @ d # b) (tg # args) =
    (case scanf_loop COMPARE (d # fmt) (d # b) args of
       None \<Rightarrow> None | Some (n, ss) \<Rightarrow> Some (n + 1, conv_field t tok # ss))"
proof -
  have t: "\<not> c_isdigit t" using assms(1) by (auto simp: fits_def c_isdigit_def)
  have "scanf_loop COMPARE (CHR ''%'' # t # d # fmt) (tok @ d # b) (tg # args) =
    scanf_loop PERCENT (t # d # fmt) (tok @ d # b) (tg # args)" by simp
  also have "\<dots> = (case scanf_loop COMPARE (d # fmt) (d # b) args of
       None \<Rightarrow> None | Some (n, ss) \<Rightarrow> Some (n + 1, conv_field t tok # ss))"
    unfolding scanf_loop.simps(2) [of PERCENT t]
    by (simp add: t Let_def scan_width_field [OF assms] scan_store_fits [OF assms(1)] del: scanf_loop.simps split: option.split)
  finally show ?thesis .
qed

text \<open>Literal text of the format.\<close>

lemma scanf_literal:
  "CHR ''%'' \<notin> set h \<Longrightarrow> b \<noteq> [] \<Longrightarrow> scanf_loop COMPARE (h @ fmt) (h @ b) args = scanf_loop COMPARE fmt b args"
  by (induction h) auto

definition field_fmt :: "char list \<Rightarrow> string" where
  "field_fmt ts = csv CHR '','' (map (\<lambda>t. [CHR ''%'', t]) ts)"

lemma scanf_fields:
  "length toks = length ts \<Longrightarrow> list_all2 (\<lambda>(t, tok) tg. fits t tok tg) (zip ts toks) tgs \<Longrightarrow> ts \<noteq> [] \<Longrightarrow>
   \<forall>tok\<in>set toks. CHR '','' \<notin> set tok \<and> CHR ''*'' \<notin> set tok \<Longrightarrow>
   scanf_loop COMPARE (field_fmt ts @ ''*'') (csv CHR '','' toks @ ''*'') tgs =
     Some (int (length ts), map2 conv_field ts toks)"
proof (induction ts arbitrary: toks tgs)
  case Nil
  then show ?case by simp
next
  case (Cons t ts)
  obtain tok toks' where toks: "toks = tok # toks'" using Cons.prems(1) by (cases toks) auto
  obtain tg tgs' where tgs: "tgs = tg # tgs'" "fits t tok tg"
    "list_all2 (\<lambda>(t, tok) tg. fits t tok tg) (zip ts toks') tgs'"
    using Cons.prems(2) toks by (cases tgs) auto
  have n: "CHR '','' \<notin> set tok" "CHR ''*'' \<notin> set tok" using Cons.prems(4) toks by auto
  show ?case
  proof (cases "ts = []")
    case True
    have "scanf_loop COMPARE (CHR ''%'' # t # CHR ''*'' # []) (tok @ CHR ''*'' # []) (tg # tgs') =
        Some (1, [conv_field t tok])"
      by (subst scanf_field [OF tgs(2) n(2)]) simp
    then show ?thesis using True toks tgs Cons.prems(1) by (simp add: field_fmt_def del: scanf_loop.simps)
  next
    case False
    have ne: "toks' \<noteq> []" "csv CHR '','' toks' @ ''*'' \<noteq> []" using False Cons.prems(1) toks by auto
    have f: "field_fmt (t # ts) @ ''*'' = CHR ''%'' # t # CHR '','' # (field_fmt ts @ ''*'')"
      using False by (simp add: field_fmt_def csv_Cons)
    have b: "csv CHR '','' toks @ ''*'' = tok @ CHR '','' # (csv CHR '','' toks' @ ''*'')"
      using ne toks by (simp add: csv_Cons)
    have IH: "scanf_loop COMPARE (field_fmt ts @ ''*'') (csv CHR '','' toks' @ ''*'') tgs' =
        Some (int (length ts), map2 conv_field ts toks')"
      using Cons.IH [of toks' tgs'] Cons.prems toks tgs False by simp
    show ?thesis
      unfolding f b tgs(1) scanf_field [OF tgs(2) n(1)]
      using IH toks by simp
  qed
qed

lemma nmea_scanf_sentence:
  assumes "length toks = length ts" "list_all2 (\<lambda>(t, tok) tg. fits t tok tg) (zip ts toks) tgs" "ts \<noteq> []"
    "\<forall>tok\<in>set toks. CHR '','' \<notin> set tok \<and> CHR ''*'' \<notin> set tok" "CHR ''%'' \<notin> set h"
  shows "nmea_scanf (h @ csv CHR '','' toks @ ''*'') (h @ field_fmt ts @ ''*'') tgs =
    Some (int (length ts), map2 conv_field ts toks)"
  unfolding nmea_scanf_def
  using scanf_literal [OF assms(5), of "csv CHR '','' toks @ ''*''"] scanf_fields [OF assms(1-4)] by simp


declare scanf_loop.simps [simp del]

section \<open>Times\<close>

lemma nmea_atoi_2: "nmea_atoi ''2'' 10 = 2"
  by code_simp

text \<open>A conversion of two digits.\<close>

lemma scanf_2d:
  "scanf_loop COMPARE (''%2d'' @ fmt) (x # y # b) (ToInt # args) =
    (case scanf_loop COMPARE fmt b args of
       None \<Rightarrow> None | Some (n, ss) \<Rightarrow> Some (n + 1, Some (SInt (nmea_atoi [x, y] 10)) # ss))"
proof -
  have d: "c_isdigit CHR ''2''" "\<not> c_isdigit CHR ''d''" by (simp_all add: c_isdigit_def)
  have w: "scan_width ''2'' CHR ''d'' fmt (x # y # b) = Some 2"
    by (simp add: scan_width_def nmea_atoi_2)
  have st: "scan_store CHR ''d'' [x, y] (ToInt # args) = Some (True, [Some (SInt (nmea_atoi [x, y] 10))], args)"
    by (simp add: scan_store_def scan_int_def)
  show ?thesis
    by (simp add: scanf_loop.simps d w st Let_def numeral_2_eq_2 split: option.split)
qed

lemma nmea_parse_time_hms:
  "nmea_parse_time [h1, h2, m1, m2, s1, s2] t =
    Some (0, t\<lparr>t_hour := nmea_atoi [h1, h2] 10, t_min := nmea_atoi [m1, m2] 10, t_sec := nmea_atoi [s1, s2] 10\<rparr>)"
proof -
  have "nmea_scanf [h1, h2, m1, m2, s1, s2] ''%2d%2d%2d'' (replicate 3 ToInt) =
    Some (3, map (\<lambda>x. Some (SInt (nmea_atoi x 10))) [[h1, h2], [m1, m2], [s1, s2]])"
    using scanf_2d [of "''%2d%2d''"] scanf_2d [of "''%2d''"] scanf_2d [of "[]"]
    by (simp add: nmea_scanf_def numeral_3_eq_3 scanf_loop.simps(1))
  then show ?thesis by (simp add: nmea_parse_time_def st_int_def rd_def)
qed

section \<open>The GGA sentence\<close>

text \<open>The fields of a GGA sentence fit their targets.\<close>

definition gga_fields :: "string list \<Rightarrow> bool" where
  "gga_fields fs \<longleftrightarrow> length fs = 14 \<and> (\<forall>f\<in>set fs. CHR '','' \<notin> set f \<and> CHR ''*'' \<notin> set f) \<and>
     length (fs ! 0) < NMEA_TIMEPARSE_BUF \<and> (\<forall>k\<in>{2, 4, 9, 11}. length (fs ! k) \<le> 1)"

definition ts_GPGGA :: string where
  "ts_GPGGA = ''sfCfCddffCfCfd''"

lemma fmt_GPGGA_fields: "fmt_GPGGA = ''$GPGGA,'' @ field_fmt ts_GPGGA @ ''*''"
  by (simp add: fmt_GPGGA_def field_fmt_def ts_GPGGA_def)

lemma nmea_scanf_GPGGA:
  assumes "gga_fields fs"
  shows "nmea_scanf (''$GPGGA,'' @ csv CHR '','' fs @ ''*'') fmt_GPGGA args_GPGGA = Some (14, map2 conv_field ts_GPGGA fs)"
proof -
  have len: "length fs = length ts_GPGGA" using assms by (simp add: gga_fields_def ts_GPGGA_def)
  obtain a b c d e f g h i j k l m n where fs: "fs = [a, b, c, d, e, f, g, h, i, j, k, l, m, n]"
    using assms by (auto simp: gga_fields_def length_Suc_conv eval_nat_numeral)
  have "list_all2 (\<lambda>(t, tok) tg. fits t tok tg) (zip ts_GPGGA fs) args_GPGGA"
    using assms by (simp add: fs ts_GPGGA_def args_GPGGA_def gga_fields_def fits_def)
  then show ?thesis
    using nmea_scanf_sentence [OF len, of args_GPGGA "''$GPGGA,''"] assms
    by (simp add: fmt_GPGGA_fields gga_fields_def ts_GPGGA_def)
qed

lemma cstr_nul: "nul \<notin> set s \<Longrightarrow> cstr (s @ nul # x) = s"
  unfolding cstr_def by (induction s) auto


text \<open>The values of the fields; an empty field leaves the cleared packet as it is.\<close>

definition field_int :: "string \<Rightarrow> int" where
  "field_int f = (if f = [] then 0 else nmea_atoi f 10)"

definition field_dbl :: "string \<Rightarrow> dbl" where
  "field_dbl f = (if f = [] then DZero else nmea_atof f)"

definition field_chr :: "string \<Rightarrow> char" where
  "field_chr f = (if f = [] then nul else hd f)"

lemma pack_type_GPGGA: "nmea_pack_type (''GPGGA'' @ x) sz = Some (if sz < 5 then GPNON else GPGGA)"
  by (simp add: nmea_pack_type_def)

lemma nmea_parse_GPGGA_fields:
  assumes "gga_fields [tm, lat, ns, lon, ew, sg, nsat, hdop, elv, eu, df, du, age, sid]"
    "tm = [h1, h2, m1, m2, s1, s2]" "nul \<notin> set tm"
  shows "nmea_parse_GPGGA tb (''$GPGGA,'' @ csv CHR '','' [tm, lat, ns, lon, ew, sg, nsat, hdop, elv, eu, df, du, age, sid] @ ''*'') =
    Some (1, \<lparr>gga_utc = zero_time\<lparr>t_hour := nmea_atoi [h1, h2] 10, t_min := nmea_atoi [m1, m2] 10, t_sec := nmea_atoi [s1, s2] 10\<rparr>,
      gga_lat = field_dbl lat, gga_ns = field_chr ns, gga_lon = field_dbl lon, gga_ew = field_chr ew, gga_sig = field_int sg,
      gga_satinuse = field_int nsat, gga_HDOP = field_dbl hdop, gga_elv = field_dbl elv, gga_elv_units = field_chr eu,
      gga_diff = field_dbl df, gga_diff_units = field_chr du, gga_dgps_age = field_dbl age, gga_dgps_sid = field_int sid\<rparr>)"
proof -
  define ss where "ss = map2 conv_field ts_GPGGA [tm, lat, ns, lon, ew, sg, nsat, hdop, elv, eu, df, du, age, sid]"
  have s: "nmea_scanf (''$GPGGA,'' @ csv CHR '','' [tm, lat, ns, lon, ew, sg, nsat, hdop, elv, eu, df, du, age, sid] @ ''*'')
      fmt_GPGGA args_GPGGA = Some (14, ss)"
    unfolding ss_def by (rule nmea_scanf_GPGGA [OF assms(1)])
  have "st_buf ss 0 tb = tm @ nul # drop (length tm + 1) tb"
    by (simp add: ss_def ts_GPGGA_def assms(2) st_buf_def conv_field_def rd_def)
  then have t: "buf_str (st_buf ss 0 tb) = Some tm"
    using cstr_nul [OF assms(3)] by (simp add: buf_str_def)
  have "gga_of ss = \<lparr>gga_utc = zero_time, gga_lat = field_dbl lat, gga_ns = field_chr ns, gga_lon = field_dbl lon,
      gga_ew = field_chr ew, gga_sig = field_int sg, gga_satinuse = field_int nsat, gga_HDOP = field_dbl hdop,
      gga_elv = field_dbl elv, gga_elv_units = field_chr eu, gga_diff = field_dbl df, gga_diff_units = field_chr du,
      gga_dgps_age = field_dbl age, gga_dgps_sid = field_int sid\<rparr>"
    unfolding gga_of_def ss_def ts_GPGGA_def
    by (simp add: st_int_def st_dbl_def st_chr_def rd_def conv_field_def field_int_def field_dbl_def field_chr_def)
  then show ?thesis
    using t nmea_parse_time_hms [of h1 h2 m1 m2 s1 s2 zero_time]
    unfolding nmea_parse_GPGGA_def s by (simp add: assms(2))
qed

text \<open>C28. A GGA line: when the fourteen fields of a GGA sentence fit (single-letter hemispheres and
  units, a time \<open>hhmmss\<close>), parsing the line is defined and puts the time, the quality, the precision,
  the altitude and the position with its sign into the summary, sets its mask bit, and leaves the rest
  alone; empty fields read as zero.\<close>

theorem nmea_gga_line_updates_info:
  assumes "gga_fields [tm, lat, ns, lon, ew, sg, nsat, hdop, elv, eu, df, du, age, sid]"
    and "tm = [h1, h2, m1, m2, s1, s2]" "nul \<notin> set tm"
    and "line = ''$GPGGA,'' @ csv CHR '','' [tm, lat, ns, lon, ew, sg, nsat, hdop, elv, eu, df, du, age, sid] @ ''*''"
  shows "nmea_parse_line True tb (line @ pad) (int (length line)) info = Some (0, info\<lparr>
    i_utc := (i_utc info)\<lparr>t_hour := nmea_atoi [h1, h2] 10, t_min := nmea_atoi [m1, m2] 10,
      t_sec := nmea_atoi [s1, s2] 10, t_hsec := 0\<rparr>,
    i_sig := field_int sg, i_HDOP := field_dbl hdop, i_elv := field_dbl elv,
    i_lat := (if field_chr ns = CHR ''N'' then field_dbl lat else DNeg (field_dbl lat)),
    i_lon := (if field_chr ew = CHR ''E'' then field_dbl lon else DNeg (field_dbl lon)),
    smask := smask info OR 1\<rparr>)"
proof -
  define fs where "fs = csv CHR '','' [tm, lat, ns, lon, ew, sg, nsat, hdop, elv, eu, df, du, age, sid]"
  have line: "line = ''$GPGGA,'' @ fs @ ''*''" unfolding fs_def by (rule assms(4))
  have type: "nmea_pack_type (drop 1 (line @ pad)) (int (length line)) = Some GPGGA"
    using pack_type_GPGGA [of "'','' @ fs @ ''*'' @ pad" "int (length line)"] by (simp add: line)
  have slice: "rd_slice (line @ pad) 0 (nat (int (length line))) = Some line" by simp
  note parse = nmea_parse_GPGGA_fields [OF assms(1-3), folded fs_def, folded line]
  show ?thesis
    unfolding nmea_parse_line_def type slice
    by (simp add: parse nmea_GPGGA2info_def zero_time_def)
qed

theorem nmea_gga_line_updates_info_witness:
  "\<exists>info. nmea_parse_line True [] (''$GPGGA,081803,3029.9100,N,11423.2012,E,1,05,1.6,38.7,M,-13.7,M,,0000*'' @ [nul]) 69
     (nmea_zero_INFO zero_time) = Some (0, info) \<and> i_lat info = DStrtod ''3029.9100'' \<and> t_min (i_utc info) = 18"
proof -
  have "gga_fields [''081803'', ''3029.9100'', ''N'', ''11423.2012'', ''E'', ''1'', ''05'', ''1.6'', ''38.7'', ''M'', ''-13.7'',
      ''M'', [], ''0000'']" by code_simp
  note T = nmea_gga_line_updates_info [OF this refl, of "''$GPGGA,081803,3029.9100,N,11423.2012,E,1,05,1.6,38.7,M,-13.7,M,,0000*''"
      "[]" "[nul]" "nmea_zero_INFO zero_time"]
  have "nmea_atof ''3029.9100'' = DStrtod ''3029.9100''" "nmea_atoi ''18'' 10 = 18" by code_simp+
  with T show ?thesis by (simp add: field_chr_def field_dbl_def)
qed


section \<open>Satellites\<close>

text \<open>The satellites at the positions where \<open>P\<close> holds are marked as used, the others kept.\<close>

definition marked :: "(nat \<Rightarrow> bool) \<Rightarrow> nmeaSATELLITE list \<Rightarrow> nmeaSATELLITE list \<Rightarrow> bool" where
  "marked P sats sats' \<longleftrightarrow> length sats' = length sats \<and>
     (\<forall>i<length sats. sats' ! i = (if P i then (sats ! i)\<lparr>s_in_use := 1\<rparr> else sats ! i))"

lemma marked_refl: "(\<And>i. i < length sats \<Longrightarrow> \<not> P i) \<Longrightarrow> marked P sats sats"
  by (simp add: marked_def)

lemma marked_trans:
  assumes "marked P a b" "marked Q b c" "\<And>i. i < length a \<Longrightarrow> R i \<longleftrightarrow> P i \<or> Q i"
  shows "marked R a c"
  using assms by (auto simp: marked_def)

lemma marked_id: "marked P a b \<Longrightarrow> i < length a \<Longrightarrow> s_id (b ! i) = s_id (a ! i)"
  by (auto simp: marked_def)

lemma gsa_inner_marks:
  "view \<le> int (length sats) \<Longrightarrow> \<exists>sats' n'. gsa_inner prn view j sats n = Some (sats', n') \<and>
     marked (\<lambda>i. j \<le> i \<and> int i < view \<and> prn \<noteq> 0 \<and> s_id (sats ! i) = prn) sats sats'"
proof (induction prn view j sats n rule: gsa_inner.induct)
  case (1 prn view j sats n)
  show ?case
  proof (cases "int j < view")
    case False
    then show ?thesis by (subst gsa_inner.simps) (auto intro: marked_refl)
  next
    case True
    then have j: "j < length sats" using 1(4) by simp
    consider "prn = 0" | "prn \<noteq> 0" "prn \<noteq> s_id (sats ! j)" | "prn \<noteq> 0" "prn = s_id (sats ! j)" by blast
    then show ?thesis
    proof cases
      case 1
      then show ?thesis
        using "1.IH"(3) [OF True] "1.prems" True by (subst gsa_inner.simps) simp
    next
      case 2
      then have eq: "gsa_inner prn view j sats n = gsa_inner prn view (j + 1) sats n"
        using True j by (subst gsa_inner.simps) simp
      obtain sats' n' where "gsa_inner prn view (j + 1) sats n = Some (sats', n')"
        "marked (\<lambda>i. j + 1 \<le> i \<and> int i < view \<and> prn \<noteq> 0 \<and> s_id (sats ! i) = prn) sats sats'"
        using "1.IH"(2) [of "sats ! j"] True 2 j "1.prems" by auto
      then show ?thesis
        unfolding eq using 2(2) by (intro exI conjI) (auto simp: marked_def le_less_Suc_eq Suc_le_eq le_neq_implies_less)
    next
      case 3
      let ?s = "sats[j := (sats ! j)\<lparr>s_in_use := 1\<rparr>]"
      have eq: "gsa_inner prn view j sats n = gsa_inner prn view (j + 1) ?s (n + 1)"
        using True j 3 by (subst gsa_inner.simps) simp
      obtain sats' n' where *: "gsa_inner prn view (j + 1) ?s (n + 1) = Some (sats', n')"
        "marked (\<lambda>i. j + 1 \<le> i \<and> int i < view \<and> prn \<noteq> 0 \<and> s_id (?s ! i) = prn) ?s sats'"
        using "1.IH"(1) [of "sats ! j"] True 3 j "1.prems" by auto
      have "marked (\<lambda>i. i = j) sats ?s" using j by (simp add: marked_def)
      then have "marked (\<lambda>i. j \<le> i \<and> int i < view \<and> prn \<noteq> 0 \<and> s_id (sats ! i) = prn) sats sats'"
        by (rule marked_trans [OF _ *(2)]) (use True 3 j in \<open>auto simp: nth_list_update\<close>)
      then show ?thesis unfolding eq using *(1) by blast
    qed
  qed
qed


lemma gsa_outer_marks:
  "view \<le> int (length sats) \<Longrightarrow> \<exists>sats' n'. gsa_outer prns view sats n = Some (sats', n') \<and>
     marked (\<lambda>i. int i < view \<and> s_id (sats ! i) \<noteq> 0 \<and> s_id (sats ! i) \<in> set prns) sats sats'"
proof (induction prns arbitrary: sats n)
  case Nil
  then show ?case by (auto intro: marked_refl)
next
  case (Cons prn prns)
  obtain s1 n1 where 1: "gsa_inner prn view 0 sats n = Some (s1, n1)"
    "marked (\<lambda>i. 0 \<le> i \<and> int i < view \<and> prn \<noteq> 0 \<and> s_id (sats ! i) = prn) sats s1"
    using gsa_inner_marks [OF Cons.prems, of prn 0 n] by blast
  have len: "length s1 = length sats" using 1(2) by (simp add: marked_def)
  obtain s2 n2 where 2: "gsa_outer prns view s1 n1 = Some (s2, n2)"
    "marked (\<lambda>i. int i < view \<and> s_id (s1 ! i) \<noteq> 0 \<and> s_id (s1 ! i) \<in> set prns) s1 s2"
    using Cons.IH [of s1 n1] Cons.prems len by auto
  have "marked (\<lambda>i. int i < view \<and> s_id (sats ! i) \<noteq> 0 \<and> s_id (sats ! i) \<in> set (prn # prns)) sats s2"
    by (rule marked_trans [OF 1(2) 2(2)]) (use marked_id [OF 1(2)] in auto)
  then show ?case using 1(1) 2(1) by auto
qed

text \<open>With a satellite number that is not in the table, the inner loop reaches every index below the
  number in view.\<close>

lemma gsa_inner_leaves:
  "int (length sats) < view \<Longrightarrow> prn \<noteq> 0 \<Longrightarrow> j \<le> length sats \<Longrightarrow> gsa_inner prn view j sats n = None"
proof (induction prn view j sats n rule: gsa_inner.induct)
  case (1 prn view j sats n)
  show ?case
  proof (cases "j < length sats")
    case True
    then have "int j < view" using "1.prems" by simp
    then show ?thesis using True "1.IH"(1,2) [of "sats ! j"] "1.prems" by (subst gsa_inner.simps) simp
  next
    case False
    then show ?thesis using "1.prems" by (subst gsa_inner.simps) (simp add: rd_def)
  qed
qed

text \<open>The table of the summary: twelve satellites, of which \<open>inview\<close> are in view.\<close>

definition sat_table :: "nmeaINFO \<Rightarrow> bool" where
  "sat_table info \<longleftrightarrow> length (sat (satinfo info)) = NMEA_MAXSAT"

lemma sat_table_zero: "sat_table (nmea_zero_INFO tm)"
  by (simp add: sat_table_def nmea_zero_INFO_def)

text \<open>C32. Satellites in use: merging a GSA sentence stays inside the table of the summary for every
  sentence exactly when the number of satellites in view is at most 12; then it marks exactly the
  satellites in view whose number the sentence lists, and changes no other entry of the table.\<close>

theorem nmea_gsa_marks_satellites:
  assumes "sat_table info"
  shows "((\<forall>pack. length (gsa_sat_prn pack) = NMEA_MAXSAT \<longrightarrow> nmea_GPGSA2info pack info \<noteq> None) \<longleftrightarrow>
      inview (satinfo info) \<le> int NMEA_MAXSAT) \<and>
    (inview (satinfo info) \<le> int NMEA_MAXSAT \<longrightarrow>
      (\<exists>info'. nmea_GPGSA2info pack info = Some info' \<and> sat_table info' \<and>
        (\<forall>i < NMEA_MAXSAT. let s = sat (satinfo info) ! i in
           sat (satinfo info') ! i =
             (if int i < inview (satinfo info) \<and> s_id s \<noteq> 0 \<and> s_id s \<in> set (gsa_sat_prn pack)
              then s\<lparr>s_in_use := 1\<rparr> else s))))"
proof -
  have len: "length (sat (satinfo info)) = NMEA_MAXSAT" using assms by (simp add: sat_table_def)
  have ok: "\<exists>info'. nmea_GPGSA2info pack info = Some info' \<and> sat_table info' \<and>
      marked (\<lambda>i. int i < inview (satinfo info) \<and> s_id (sat (satinfo info) ! i) \<noteq> 0 \<and>
        s_id (sat (satinfo info) ! i) \<in> set (gsa_sat_prn pack)) (sat (satinfo info)) (sat (satinfo info'))"
    if "inview (satinfo info) \<le> int NMEA_MAXSAT" for pack
  proof -
    have v: "inview (satinfo info) \<le> int (length (sat (satinfo info)))" using that len by simp
    obtain s' n' where *: "gsa_outer (gsa_sat_prn pack) (inview (satinfo info)) (sat (satinfo info)) 0 = Some (s', n')"
      "marked (\<lambda>i. int i < inview (satinfo info) \<and> s_id (sat (satinfo info) ! i) \<noteq> 0 \<and>
        s_id (sat (satinfo info) ! i) \<in> set (gsa_sat_prn pack)) (sat (satinfo info)) s'"
      using gsa_outer_marks [OF v, of "gsa_sat_prn pack" 0] by blast
    then have "length s' = NMEA_MAXSAT" using len by (simp add: marked_def)
    with * show ?thesis by (auto simp: nmea_GPGSA2info_def sat_table_def)
  qed
  have bad: "\<exists>pack. length (gsa_sat_prn pack) = NMEA_MAXSAT \<and> nmea_GPGSA2info pack info = None"
    if "\<not> inview (satinfo info) \<le> int NMEA_MAXSAT"
  proof -
    have "gsa_outer (replicate 12 1) (inview (satinfo info)) (sat (satinfo info)) 0 = None"
      using gsa_inner_leaves [of "sat (satinfo info)" "inview (satinfo info)" 1 0] that len
      by (simp add: numeral_eq_Suc)
    then show ?thesis
      by (intro exI [of _ "(gsa_of [])\<lparr>gsa_sat_prn := replicate 12 1\<rparr>"]) (simp add: nmea_GPGSA2info_def NMEA_MAXSAT_def)
  qed
  show ?thesis
    using ok bad len unfolding marked_def Let_def by (metis (no_types, lifting) option.distinct(1))
qed


theorem nmea_gsa_marks_satellites_witness:
  "\<exists>info. nmea_GPGSA2info (gsa_of [None, None, Some (SInt 7)]) (nmea_zero_INFO zero_time
       \<lparr>satinfo := \<lparr>inuse = 0, inview = 2, sat = replicate 12 (zero_sat\<lparr>s_id := 7\<rparr>)\<rparr>\<rparr>) = Some info \<and>
     s_in_use (sat (satinfo info) ! 1) = 1 \<and> s_in_use (sat (satinfo info) ! 2) = 0"
proof -
  let ?info = "nmea_zero_INFO zero_time\<lparr>satinfo := \<lparr>inuse = 0, inview = 2, sat = replicate 12 (zero_sat\<lparr>s_id := 7\<rparr>)\<rparr>\<rparr>"
  have t: "sat_table ?info" by (simp add: sat_table_def NMEA_MAXSAT_def)
  have "7 \<in> set (gsa_sat_prn (gsa_of [None, None, Some (SInt 7)]))"
    by (simp add: gsa_of_def NMEA_MAXSAT_def upt_rec st_int_def rd_def)
  then show ?thesis
    using nmea_gsa_marks_satellites [OF t, of "gsa_of [None, None, Some (SInt 7)]"]
    by (auto simp: NMEA_MAXSAT_def Let_def zero_sat_def)
qed

text \<open>The number of satellites in view of a GSV sentence is taken over unchecked: a receiver (or a
  line on the port) that announces thirteen satellites and then sends an ordinary GSA sentence makes
  the parser read behind the table of twelve.\<close>

definition gsv_line :: string where
  "gsv_line = ''$GPGSV,1,1,13,18,10,11,12,24,1,2,3,21,4,5,6,22,7,8,9*00'' @ [CHR 0x0D, CHR 0x0A]"

definition gsa_line :: string where
  "gsa_line = ''$GPGSA,A,3,18,24,21,22,15,,,,,,,,3.1,1.6,2.7*3A'' @ [CHR 0x0D, CHR 0x0A]"

theorem nmea_gsv_then_gsa_leaves_table:
  "nmea_parse (\<lambda>_. (True, [])) (gsv_line @ gsa_line @ [nul]) (int (length (gsv_line @ gsa_line))) (nmea_zero_INFO zero_time) = None
   \<and> nmea_parse (\<lambda>_. (True, [])) (gsv_line @ [nul]) (int (length gsv_line)) (nmea_zero_INFO zero_time) \<noteq> None"
  by code_simp

section \<open>Checksums\<close>

text \<open>The body of a line: no byte that ends it.\<close>

definition nmea_body :: "string \<Rightarrow> bool" where
  "nmea_body body \<longleftrightarrow> nul \<notin> set body \<and> CHR ''$'' \<notin> set body \<and> CHR ''*'' \<notin> set body"

definition nmea_sum :: "string \<Rightarrow> int" where
  "nmea_sum body = fold (\<lambda>c a. a XOR of_char c) body 0"

lemma fold_xor_nonneg: "0 \<le> a \<Longrightarrow> 0 \<le> fold (\<lambda>c a. a XOR of_char c) body (a :: int)"
proof (induction body arbitrary: a)
  case (Cons c body)
  have "0 \<le> (of_char c :: int)" using of_nat_of_char [of c, where 'a = int] by (metis of_nat_0_le_iff)
  then show ?case using Cons.IH [of "a XOR of_char c"] Cons.prems by simp
qed simp

lemma find_tail_loop_body:
  "CHR ''$'' \<notin> set body \<Longrightarrow> CHR ''*'' \<notin> set body \<Longrightarrow> pre \<noteq> [] \<Longrightarrow>
   find_tail_loop (pre @ body @ rest) (length pre) crc =
   find_tail_loop (pre @ body @ rest) (length pre + length body) (fold (\<lambda>c a. a XOR of_char c) body crc)"
proof (induction body arbitrary: pre crc)
  case Nil
  then show ?case by simp
next
  case (Cons c body)
  have c: "c \<noteq> CHR ''$''" "c \<noteq> CHR ''*''" using Cons.prems by auto
  have "find_tail_loop (pre @ (c # body) @ rest) (length pre) crc =
      find_tail_loop ((pre @ [c]) @ body @ rest) (length (pre @ [c])) (crc XOR of_char c)"
    using Cons.prems(3) by (subst find_tail_loop.simps) (simp add: Let_def c)
  then show ?case using Cons.IH [of "pre @ [c]" "crc XOR of_char c"] Cons.prems by simp
qed

text \<open>\<open>nmea_find_tail\<close> on a complete line (a body between \<open>$\<close> and \<open>*\<close>, two digits and the line end)
  always answers the length of the line, and the checksum exactly when the two hexadecimal digits are
  the exclusive or of the body, else -1.\<close>

theorem nmea_find_tail_checks_sum:
  assumes "nmea_body body"
  shows "nmea_find_tail (''$'' @ body @ ''*'' @ [h, l, CHR 0x0D, CHR 0x0A] @ rest) =
    (int (length body) + 6, if nmea_atoi [h, l] 16 = nmea_sum body then nmea_sum body else - 1)"
proof -
  let ?tail = "''*'' @ [h, l, CHR 0x0D, CHR 0x0A] @ rest"
  let ?b = "''$'' @ body @ ?tail"
  have "nmea_find_tail ?b = find_tail_loop (''$'' @ body @ ?tail) (length ''$'') 0"
    unfolding nmea_find_tail_def by (subst find_tail_loop.simps) simp
  also have "\<dots> = find_tail_loop ?b (length ''$'' + length body) (nmea_sum body)"
    using find_tail_loop_body [of body "''$''" ?tail 0] assms by (simp add: nmea_body_def nmea_sum_def)
  also have "\<dots> = (int (length body) + 6, if nmea_atoi [h, l] 16 = nmea_sum body then nmea_sum body else - 1)"
    using fold_xor_nonneg [of 0 body]
    by (subst find_tail_loop.simps) (simp add: Let_def nth_append nmea_sum_def)
  finally show ?thesis .
qed

theorem nmea_find_tail_checks_sum_witness:
  "nmea_find_tail (''$GPTXT*4F'' @ [CHR 0x0D, CHR 0x0A]) = (11, nmea_sum ''GPTXT'') \<and>
   nmea_find_tail (''$GPTXT*00'' @ [CHR 0x0D, CHR 0x0A]) = (11, - 1)"
proof -
  have b: "nmea_body ''GPTXT''" by (simp add: nmea_body_def)
  have "nmea_sum ''GPTXT'' = nmea_atoi ''4F'' 16" "nmea_atoi ''00'' 16 \<noteq> nmea_sum ''GPTXT''" by code_simp+
  then show ?thesis
    using nmea_find_tail_checks_sum [OF b, of "CHR ''4''" "CHR ''F''" "[]"]
      nmea_find_tail_checks_sum [OF b, of "CHR ''0''" "CHR ''0''" "[]"] by simp
qed

lemma c_strchr_hit: "c \<notin> set a \<Longrightarrow> nul \<notin> set a \<Longrightarrow> c \<noteq> nul \<Longrightarrow> c_strchr (a @ c # x) c = Some (Some (length a))"
proof -
  assume a: "c \<notin> set a" "nul \<notin> set a" "c \<noteq> nul"
  have "takeWhile (\<lambda>x. x \<noteq> c \<and> x \<noteq> nul) (a @ c # x) = a" using a by (induction a) auto
  then show ?thesis by (simp add: c_strchr_def)
qed

text \<open>The line that \<open>nmea_get_item_line\<close> finds, and what it skips: the two checksum bytes are not
  looked at.\<close>

lemma nmea_get_item_line_body:
  assumes "nmea_body body" "length body \<le> 510" "tail = ''$'' @ body @ ''*'' @ x"
  shows "nmea_get_item_line tail len (replicate 512 nul) =
    Some (if int (length body) + 6 > len then len else int (length body) + 6, int (length body) + 2,
          ''$'' @ body @ ''*'' @ replicate (510 - length body) nul)"
proof -
  have 1: "c_strchr tail CHR ''$'' = Some (Some 0)"
    using c_strchr_hit [of "CHR ''$''" "[]"] assms(3) by simp
  have 2: "c_strchr tail CHR ''*'' = Some (Some (length body + 1))"
    using c_strchr_hit [of "CHR ''*''" "''$'' @ body" x] assms by (simp add: nmea_body_def)
  have 3: "wr_slice (replicate 512 nul) 0 (take (length body + 2) tail) =
      Some (''$'' @ body @ ''*'' @ replicate (510 - length body) nul)"
    using assms(2,3) by (simp add: wr_slice_def)
  show ?thesis
    unfolding nmea_get_item_line_def 1 using 2 3 by (simp add: Let_def algebra_simps)
qed

text \<open>The checksum of a line is never checked: replacing the two bytes behind the \<open>*\<close> of a complete
  line by any others does not change what \<open>nmea_parse\<close> makes of the buffer.\<close>

theorem nmea_parse_ignores_checksum:
  assumes "nmea_body body" "length body \<le> 510"
  shows "nmea_parse env (''$'' @ body @ ''*'' @ [h, l, CHR 0x0D, CHR 0x0A] @ rest) len info =
    nmea_parse env (''$'' @ body @ ''*'' @ [h', l', CHR 0x0D, CHR 0x0A] @ rest) len info"
proof (cases "len < int (length body) + 6")
  case False
  let ?d = "\<lambda>h l. ''$'' @ body @ ''*'' @ [h, l, CHR 0x0D, CHR 0x0A] @ rest"
  have d: "drop (nat (int (length body) + 6)) (?d h l) = rest" for h l
  proof -
    have "?d h l = (''$'' @ body @ ''*'' @ [h, l, CHR 0x0D, CHR 0x0A]) @ rest" by simp
    moreover have "length (''$'' @ body @ ''*'' @ [h, l, CHR 0x0D, CHR 0x0A]) = nat (int (length body) + 6)" by simp
    ultimately show ?thesis by (metis append_eq_conv_conj)
  qed
  have "nmea_parse_loop env 0 (?d h l) len info =
     (case nmea_parse_line (fst (env 0)) (snd (env 0)) (''$'' @ body @ ''*'' @ replicate (510 - length body) nul)
         (int (length body) + 2) info of
        None \<Rightarrow> None | Some (rv, i) \<Rightarrow> nmea_parse_loop env 1 rest (len - (int (length body) + 6)) i)" for h l
    using nmea_get_item_line_body [OF assms refl, of "[h, l, CHR 0x0D, CHR 0x0A] @ rest" len] False d [of h l]
    by (subst nmea_parse_loop.simps) (simp del: drop_append split: option.split)
  then show ?thesis unfolding nmea_parse_def by simp
next
  case True
  let ?d = "\<lambda>h l. ''$'' @ body @ ''*'' @ [h, l, CHR 0x0D, CHR 0x0A] @ rest"
  have "nmea_parse_loop env 0 (?d h l) len info =
     (if 0 < len then case nmea_parse_line (fst (env 0)) (snd (env 0)) (''$'' @ body @ ''*'' @ replicate (510 - length body) nul)
         (int (length body) + 2) info of
        None \<Rightarrow> None | Some (rv, i) \<Rightarrow> Some i else Some info)" for h l
    using nmea_get_item_line_body [OF assms refl, of "[h, l, CHR 0x0D, CHR 0x0A] @ rest" len] True
    by (subst nmea_parse_loop.simps) (simp add: nmea_parse_loop.simps [of env _ _ 0] del: drop_append split: option.split)
  then show ?thesis unfolding nmea_parse_def by simp
qed

theorem nmea_parse_ignores_checksum_witness:
  "nmea_parse (\<lambda>_. (True, [])) (''$GPTXT*4F'' @ [CHR 0x0D, CHR 0x0A, nul]) 11 (nmea_zero_INFO zero_time) = nmea_parse (\<lambda>_. (True, [])) (''$GPTXT*00'' @ [CHR 0x0D, CHR 0x0A, nul]) 11 (nmea_zero_INFO zero_time)"
proof -
  have "nmea_body ''GPTXT''" by (simp add: nmea_body_def)
  from nmea_parse_ignores_checksum [OF this, of "\<lambda>_. (True, [])" "CHR ''4''" "CHR ''F''" "[nul]" 11 "nmea_zero_INFO zero_time" "CHR ''0''" "CHR ''0''"]
  show ?thesis by simp
qed


end
