(* ===== verification/Xmodem.thy ===== *)
theory Xmodem
  imports Prelude
begin

text \<open>
  The receiver of the XMODEM protocol in \<open>bootloader/myboot/xmodem.c\<close>. What the serial port delivers
  is a list of pairs: how many polls of \<open>serial_is_recv_enable\<close> fail before the byte is there, and the
  byte. The block behind \<open>buf\<close> is a list, and the moving pointer an index into it.
\<close>

definition XMODEM_SOH :: u8 where "XMODEM_SOH = 0x01"
definition XMODEM_EOT :: u8 where "XMODEM_EOT = 0x04"
definition XMODEM_ACK :: u8 where "XMODEM_ACK = 0x06"
definition XMODEM_NAK :: u8 where "XMODEM_NAK = 0x15"
definition XMODEM_CAN :: u8 where "XMODEM_CAN = 0x18"
definition XMODEM_EOF :: u8 where "XMODEM_EOF = 0x1a"
definition XMODEM_BLOCK_SIZE :: nat where "XMODEM_BLOCK_SIZE = 128"

type_synonym line = "(nat \<times> u8) list"

section \<open>The receiver\<close>

text \<open>The polling loop of \<open>xmodem_wait\<close> over the failing polls, with its counter: the bytes it sends.\<close>

fun xmodem_wait :: "nat \<Rightarrow> nat \<Rightarrow> u8 list" where
  "xmodem_wait 0 cnt = []"
| "xmodem_wait (Suc polls) cnt =
     (if cnt + 1 \<ge> 2000000 then XMODEM_NAK # xmodem_wait polls 0 else xmodem_wait polls (cnt + 1))"

text \<open>\<open>Blocked\<close> is a receiver that waits for a byte forever, \<open>Undefined\<close> one that left its buffer.\<close>

datatype 'a outcome = Returns 'a | Blocked | Undefined

text \<open>The loop over the bytes of a block, and the block: -1 or its size, the rest of the line, and the
  buffer.\<close>

fun read_bytes :: "nat \<Rightarrow> line \<Rightarrow> u8 list \<Rightarrow> nat \<Rightarrow> u8 \<Rightarrow> (line \<times> u8 list \<times> u8) outcome" where
  "read_bytes 0 inp mem pos check_sum = Returns (inp, mem, check_sum)"
| "read_bytes (Suc n) inp mem pos check_sum =
     (case inp of
        [] \<Rightarrow> Blocked
      | (_, c) # inp \<Rightarrow>
          if pos < length mem then read_bytes n inp (mem[pos := c]) (pos + 1) (check_sum + c) else Undefined)"

definition xmodem_read_block :: "u8 \<Rightarrow> line \<Rightarrow> u8 list \<Rightarrow> nat \<Rightarrow> (int \<times> line \<times> u8 list) outcome" where
  "xmodem_read_block block_number inp mem pos =
     (case inp of [] \<Rightarrow> Blocked
      | (_, block_num) # inp \<Rightarrow>
          if block_num \<noteq> block_number then Returns (- 1, inp, mem)
          else (case inp of [] \<Rightarrow> Blocked
                | (_, c) # inp \<Rightarrow>
                    if block_num XOR c \<noteq> 0xff then Returns (- 1, inp, mem)
                    else (case read_bytes XMODEM_BLOCK_SIZE inp mem pos 0 of
                            Blocked \<Rightarrow> Blocked | Undefined \<Rightarrow> Undefined
                          | Returns (inp, mem, check_sum) \<Rightarrow>
                              (case inp of [] \<Rightarrow> Blocked
                               | (_, c) # inp \<Rightarrow>
                                   Returns (if check_sum XOR c \<noteq> 0 then - 1 else int XMODEM_BLOCK_SIZE, inp, mem)))))"

text \<open>The removal of the padding at the end: the loop counts back from the pointer and does not look at
  where the buffer starts.\<close>

fun eof_count :: "u8 list \<Rightarrow> nat \<Rightarrow> nat option" where
  "eof_count mem 0 = None"
| "eof_count mem (Suc p) =
     (if p < length mem then (if mem ! p = XMODEM_EOF then map_option Suc (eof_count mem p) else Some 0) else None)"

definition eof_strip :: "u8 list \<Rightarrow> nat \<Rightarrow> int \<Rightarrow> int option" where
  "eof_strip mem pos len =
     (let at = (\<lambda>k. if k \<le> pos then rd mem (pos - k) else None) in do {
        b1 \<leftarrow> at 1;
        e1 \<leftarrow> Some (b1 = XMODEM_EOF);
        e2 \<leftarrow> (if e1 then map_option (\<lambda>b. b = XMODEM_EOF) (at 2) else Some False);
        e3 \<leftarrow> (if e2 then map_option (\<lambda>b. b = XMODEM_EOF) (at 3) else Some False);
        if e3 \<and> len \<noteq> 0 then do { cnt \<leftarrow> eof_count mem pos; Some (len - int cnt) } else Some len })"

text \<open>The result of \<open>xmodem_recv\<close> with the buffer and the bytes sent.\<close>

lemma read_bytes_length: "read_bytes n inp mem pos c = Returns (inp', mem', c') \<Longrightarrow> length inp' \<le> length inp"
proof (induction n arbitrary: inp mem pos c)
  case (Suc n)
  then show ?case by (fastforce split: list.splits prod.splits if_splits)
qed simp

lemma read_block_length: "xmodem_read_block b inp mem pos = Returns (r, inp', mem') \<Longrightarrow> length inp' \<le> length inp"
  by (auto simp: xmodem_read_block_def split: list.splits prod.splits if_splits outcome.splits dest!: read_bytes_length)

function xmodem_recv_loop ::
  "line \<Rightarrow> u8 list \<Rightarrow> nat \<Rightarrow> bool \<Rightarrow> int \<Rightarrow> u8 \<Rightarrow> u8 list \<Rightarrow> (int \<times> u8 list \<times> u8 list) outcome" where
  "xmodem_recv_loop inp mem pos receiving len block_number sent =
     (case inp of
        [] \<Rightarrow> Blocked
      | (polls, c) # inp' \<Rightarrow>
          (let sent = (if \<not> receiving then sent @ xmodem_wait polls 0 else sent) in
           if c = XMODEM_EOT
           then (case eof_strip mem pos len of
                   None \<Rightarrow> Undefined
                 | Some len \<Rightarrow> Returns (len, mem, sent @ [XMODEM_ACK]))
           else if c = XMODEM_CAN then Returns (- 1, mem, sent)
           else if c = XMODEM_SOH
           then (case xmodem_read_block block_number inp' mem pos of
                   Blocked \<Rightarrow> Blocked | Undefined \<Rightarrow> Undefined
                 | Returns (r, inp'', mem) \<Rightarrow>
                     if r < 0 then xmodem_recv_loop inp'' mem pos True len block_number (sent @ [XMODEM_NAK])
                     else xmodem_recv_loop inp'' mem (pos + nat r) True (len + r) (block_number + 1) (sent @ [XMODEM_ACK]))
           else if receiving then Returns (- 1, mem, sent)
           else xmodem_recv_loop inp' mem pos receiving len block_number sent))"
  by pat_completeness auto
termination
  by (relation "measure (\<lambda>(inp, _). length inp)") (auto dest!: read_block_length)

declare xmodem_recv_loop.simps [simp del]

definition xmodem_recv :: "line \<Rightarrow> u8 list \<Rightarrow> (int \<times> u8 list \<times> u8 list) outcome" where
  "xmodem_recv inp buf = xmodem_recv_loop inp buf 0 False 0 1 []"

section \<open>The sender\<close>

text \<open>A frame with a block number, its complement, the data and a checksum. A block is sent again until
  it arrives; \<open>bad\<close> holds the frames with the same number whose checksum does not match.\<close>

type_synonym transfer = "((u8 list \<times> u8) list \<times> u8 list) list"

definition frame :: "u8 \<Rightarrow> u8 list \<Rightarrow> u8 \<Rightarrow> u8 list" where
  "frame b data cs = [XMODEM_SOH, b, b XOR 0xff] @ data @ [cs]"

fun sender :: "u8 \<Rightarrow> transfer \<Rightarrow> u8 list" where
  "sender b [] = [XMODEM_EOT]"
| "sender b ((bad, d) # ts) =
     concat (map (\<lambda>(x, cs). frame b x cs) bad) @ frame b d (sum_list d) @ sender (b + 1) ts"

definition transfer_ok :: "transfer \<Rightarrow> bool" where
  "transfer_ok ts \<longleftrightarrow> (\<forall>(bad, d) \<in> set ts. length d = XMODEM_BLOCK_SIZE \<and>
     (\<forall>(x, cs) \<in> set bad. length x = XMODEM_BLOCK_SIZE \<and> cs \<noteq> sum_list x))"

definition replies :: "transfer \<Rightarrow> u8 list" where
  "replies ts = concat (map (\<lambda>(bad, d). replicate (length bad) XMODEM_NAK @ [XMODEM_ACK]) ts)"

definition payload :: "transfer \<Rightarrow> u8 list" where
  "payload ts = concat (map snd ts)"

text \<open>The length after the padding: trailing \<open>EOF\<close> bytes are dropped when there are three or more.\<close>

definition unpadded :: "u8 list \<Rightarrow> nat" where
  "unpadded xs =
     (if 3 \<le> length xs \<and> take 3 (rev xs) = replicate 3 XMODEM_EOF
      then length (dropWhile (\<lambda>c. c = XMODEM_EOF) (rev xs)) else length xs)"

section \<open>The receiver on the bytes of the sender\<close>

lemma xor_0_iff: "a XOR b = 0 \<longleftrightarrow> a = (b :: 'a :: len word)"
  by (metis xor.right_neutral xor_self_eq xor.assoc)

lemma read_bytes_all:
  "map snd inp = x @ rest \<Longrightarrow> length x = n \<Longrightarrow> pos + n \<le> length mem \<Longrightarrow>
   read_bytes n inp mem pos c =
     Returns (drop n inp, take pos mem @ x @ drop (pos + n) mem, c + sum_list x)"
proof (induction n arbitrary: inp mem pos c x)
  case 0
  then show ?case by simp
next
  case (Suc n)
  obtain y x' where x: "x = y # x'" "length x' = n" using Suc.prems(2) by (cases x) auto
  obtain p inp' where inp: "inp = (p, y) # inp'" "map snd inp' = x' @ rest"
    using Suc.prems(1) x by (cases inp) auto
  have "read_bytes n inp' (mem[pos := y]) (Suc pos) (c + y) =
      Returns (drop n inp', take (Suc pos) (mem[pos := y]) @ x' @ drop (Suc pos + n) (mem[pos := y]), c + y + sum_list x')"
    using Suc.IH [OF inp(2) x(2), of "Suc pos" "mem[pos := y]" "c + y"] Suc.prems(3) by simp
  moreover have "take (Suc pos) (mem[pos := y]) = take pos mem @ [y]"
    using Suc.prems(3) by (simp add: take_Suc_conv_app_nth)
  ultimately show ?case using Suc.prems(3) inp x by (simp add: add.assoc)
qed

text \<open>One frame with the expected number.\<close>

lemma read_block_frame:
  assumes "map snd inp = [b, b XOR 0xff] @ x @ [cs] @ rest" "length x = XMODEM_BLOCK_SIZE"
    "pos + XMODEM_BLOCK_SIZE \<le> length mem"
  shows "\<exists>inp'. xmodem_read_block b inp mem pos =
    Returns (if cs = sum_list x then int XMODEM_BLOCK_SIZE else - 1, inp', take pos mem @ x @ drop (pos + XMODEM_BLOCK_SIZE) mem) \<and>
    map snd inp' = rest"
proof -
  obtain p1 p2 inp2 where inp: "inp = (p1, b) # (p2, b XOR 0xff) # inp2" "map snd inp2 = x @ [cs] @ rest"
    using assms(1) by (auto simp: map_eq_Cons_conv)
  have "map snd (drop XMODEM_BLOCK_SIZE inp2) = cs # rest"
    using inp(2) assms(2) by (simp flip: drop_map)
  then obtain p3 inp3 where inp3: "drop XMODEM_BLOCK_SIZE inp2 = (p3, cs) # inp3" "map snd inp3 = rest"
    by (auto simp: map_eq_Cons_conv)
  have "b XOR (b XOR 0xff) = (0xff :: u8)" by (simp flip: xor.assoc)
  then show ?thesis
    using read_bytes_all [OF inp(2) assms(2,3), of 0] inp(1) inp3
    by (simp add: xmodem_read_block_def xor_0_iff)
qed


lemma codes_distinct [simp]: "XMODEM_SOH \<noteq> XMODEM_EOT" "XMODEM_SOH \<noteq> XMODEM_CAN" "XMODEM_EOT \<noteq> XMODEM_SOH"
  by (simp_all add: XMODEM_SOH_def XMODEM_EOT_def XMODEM_CAN_def)

text \<open>The first frame differs from the others only by the bytes that were sent while waiting for it.\<close>

lemma recv_loop_first:
  "snd (hd inp) = XMODEM_SOH \<Longrightarrow> inp \<noteq> [] \<Longrightarrow>
   xmodem_recv_loop inp mem pos False len b sent =
   xmodem_recv_loop inp mem pos True len b (sent @ xmodem_wait (fst (hd inp)) 0)"
  by (cases inp; subst (1 2) xmodem_recv_loop.simps) (auto simp: Let_def split: outcome.split)

lemma recv_loop_frame:
  assumes "map snd inp = frame b x cs @ rest" "length x = XMODEM_BLOCK_SIZE" "length m = XMODEM_BLOCK_SIZE" "length p = pos"
  shows "\<exists>inp'. map snd inp' = rest \<and>
    xmodem_recv_loop inp (p @ m @ q) pos True len b sent =
      (if cs = sum_list x
       then xmodem_recv_loop inp' (p @ x @ q) (pos + XMODEM_BLOCK_SIZE) True (len + int XMODEM_BLOCK_SIZE) (b + 1) (sent @ [XMODEM_ACK])
       else xmodem_recv_loop inp' (p @ x @ q) pos True len b (sent @ [XMODEM_NAK]))"
proof -
  obtain p1 inp1 where inp: "inp = (p1, XMODEM_SOH) # inp1" "map snd inp1 = [b, b XOR 0xff] @ x @ [cs] @ rest"
    using assms(1) by (auto simp: frame_def map_eq_Cons_conv)
  obtain inp' where blk: "xmodem_read_block b inp1 (p @ m @ q) pos =
      Returns (if cs = sum_list x then int XMODEM_BLOCK_SIZE else - 1, inp', p @ x @ q)" "map snd inp' = rest"
    using read_block_frame [OF inp(2) assms(2), of pos "p @ m @ q"] assms(3,4) by auto
  show ?thesis
  proof (intro exI conjI)
    show "map snd inp' = rest" by (fact blk(2))
    show "xmodem_recv_loop inp (p @ m @ q) pos True len b sent =
      (if cs = sum_list x
       then xmodem_recv_loop inp' (p @ x @ q) (pos + XMODEM_BLOCK_SIZE) True (len + int XMODEM_BLOCK_SIZE) (b + 1) (sent @ [XMODEM_ACK])
       else xmodem_recv_loop inp' (p @ x @ q) pos True len b (sent @ [XMODEM_NAK]))"
      using blk(1) by (subst xmodem_recv_loop.simps) (simp add: inp(1) Let_def)
  qed
qed

text \<open>Damaged frames are refused and leave only their data behind the pointer.\<close>

lemma recv_loop_bad:
  "map snd inp = concat (map (\<lambda>(x, cs). frame b x cs) bad) @ rest \<Longrightarrow>
   \<forall>(x, cs) \<in> set bad. length x = XMODEM_BLOCK_SIZE \<and> cs \<noteq> sum_list x \<Longrightarrow>
   length m = XMODEM_BLOCK_SIZE \<Longrightarrow> length p = pos \<Longrightarrow>
   \<exists>inp' m'. map snd inp' = rest \<and> length m' = XMODEM_BLOCK_SIZE \<and>
     xmodem_recv_loop inp (p @ m @ q) pos True len b sent =
     xmodem_recv_loop inp' (p @ m' @ q) pos True len b (sent @ replicate (length bad) XMODEM_NAK)"
proof (induction bad arbitrary: inp m sent)
  case Nil
  then show ?case by auto
next
  case (Cons xc bad)
  obtain x cs where xc: "xc = (x, cs)" "length x = XMODEM_BLOCK_SIZE" "cs \<noteq> sum_list x" using Cons.prems(2) by (cases xc) auto
  have "map snd inp = frame b x cs @ (concat (map (\<lambda>(x, cs). frame b x cs) bad) @ rest)" using Cons.prems(1) xc(1) by simp
  from recv_loop_frame [OF this xc(2) Cons.prems(3,4), of q len sent] xc(3) obtain inp1 where 1:
    "map snd inp1 = concat (map (\<lambda>(x, cs). frame b x cs) bad) @ rest"
    "xmodem_recv_loop inp (p @ m @ q) pos True len b sent = xmodem_recv_loop inp1 (p @ x @ q) pos True len b (sent @ [XMODEM_NAK])"
    by auto
  obtain inp2 m' where "map snd inp2 = rest" "length m' = XMODEM_BLOCK_SIZE"
    "xmodem_recv_loop inp1 (p @ x @ q) pos True len b (sent @ [XMODEM_NAK]) =
     xmodem_recv_loop inp2 (p @ m' @ q) pos True len b ((sent @ [XMODEM_NAK]) @ replicate (length bad) XMODEM_NAK)"
    using Cons.IH [OF 1(1) _ xc(2) Cons.prems(4), of "sent @ [XMODEM_NAK]"] Cons.prems(2) by auto
  with 1(2) show ?case by auto
qed

lemma transfer_ok_Cons: "transfer_ok ((bad, d) # ts) \<longleftrightarrow> length d = XMODEM_BLOCK_SIZE \<and>
     (\<forall>(x, cs) \<in> set bad. length x = XMODEM_BLOCK_SIZE \<and> cs \<noteq> sum_list x) \<and> transfer_ok ts"
  by (auto simp: transfer_ok_def)

lemma recv_loop_transfer:
  "map snd inp = sender b ts @ rest \<Longrightarrow> transfer_ok ts \<Longrightarrow>
   length m = XMODEM_BLOCK_SIZE * length ts \<Longrightarrow> length p = pos \<Longrightarrow>
   xmodem_recv_loop inp (p @ m @ q) pos True len b sent =
     (case eof_strip (p @ payload ts @ q) (pos + length m) (len + int (length m)) of
        None \<Rightarrow> Undefined
      | Some n \<Rightarrow> Returns (n, p @ payload ts @ q, sent @ replies ts @ [XMODEM_ACK]))"
proof (induction ts arbitrary: inp b m p pos len sent)
  case Nil
  then obtain p1 inp1 where "inp = (p1, XMODEM_EOT) # inp1" by (auto simp: map_eq_Cons_conv)
  then show ?case using Nil.prems(3) by (subst xmodem_recv_loop.simps) (simp add: payload_def replies_def Let_def split: option.split)
next
  case (Cons bd ts)
  obtain bad d where bd: "bd = (bad, d)" by (cases bd)
  have ok: "length d = XMODEM_BLOCK_SIZE" "\<forall>(x, cs) \<in> set bad. length x = XMODEM_BLOCK_SIZE \<and> cs \<noteq> sum_list x" "transfer_ok ts"
    using Cons.prems(2) by (simp_all add: bd transfer_ok_Cons)
  define m1 m2 where "m1 = take XMODEM_BLOCK_SIZE m" and "m2 = drop XMODEM_BLOCK_SIZE m"
  have m: "m = m1 @ m2" "length m1 = XMODEM_BLOCK_SIZE" "length m2 = XMODEM_BLOCK_SIZE * length ts"
    using Cons.prems(3) by (auto simp: m1_def m2_def)
  have "map snd inp = concat (map (\<lambda>(x, cs). frame b x cs) bad) @ (frame b d (sum_list d) @ sender (b + 1) ts @ rest)"
    using Cons.prems(1) by (simp add: bd)
  from recv_loop_bad [OF this ok(2) m(2) Cons.prems(4), of "m2 @ q" len sent] obtain inp1 m' where 1:
    "map snd inp1 = frame b d (sum_list d) @ sender (b + 1) ts @ rest" "length m' = XMODEM_BLOCK_SIZE"
    "xmodem_recv_loop inp (p @ m1 @ m2 @ q) pos True len b sent =
     xmodem_recv_loop inp1 (p @ m' @ m2 @ q) pos True len b (sent @ replicate (length bad) XMODEM_NAK)" by blast
  obtain inp2 where 2: "map snd inp2 = sender (b + 1) ts @ rest"
    "xmodem_recv_loop inp1 (p @ m' @ m2 @ q) pos True len b (sent @ replicate (length bad) XMODEM_NAK) =
     xmodem_recv_loop inp2 (p @ d @ m2 @ q) (pos + XMODEM_BLOCK_SIZE) True (len + int XMODEM_BLOCK_SIZE) (b + 1)
       ((sent @ replicate (length bad) XMODEM_NAK) @ [XMODEM_ACK])"
    using recv_loop_frame [OF 1(1) ok(1) 1(2) Cons.prems(4), of "m2 @ q" len "sent @ replicate (length bad) XMODEM_NAK"] by auto
  have p: "length (p @ d) = pos + XMODEM_BLOCK_SIZE" using Cons.prems(4) ok(1) by simp
  show ?case
    using 1(3) 2(2) Cons.IH [OF 2(1) ok(3) m(3) p, of "len + int XMODEM_BLOCK_SIZE"
        "(sent @ replicate (length bad) XMODEM_NAK) @ [XMODEM_ACK]"] ok(1)
    by (simp add: m bd payload_def replies_def algebra_simps split: option.split)
qed


section \<open>The padding\<close>

lemma eof_count_dropWhile:
  "\<exists>x\<in>set xs. x \<noteq> XMODEM_EOF \<Longrightarrow>
   eof_count (xs @ q) (length xs) = Some (length xs - length (dropWhile (\<lambda>c. c = XMODEM_EOF) (rev xs)))"
proof (induction xs arbitrary: q rule: rev_induct)
  case (snoc x xs)
  show ?case
  proof (cases "x = XMODEM_EOF")
    case True
    then have "eof_count (xs @ [x] @ q) (length xs) = Some (length xs - length (dropWhile (\<lambda>c. c = XMODEM_EOF) (rev xs)))"
      using snoc by auto
    moreover have "length (dropWhile (\<lambda>c. c = XMODEM_EOF) (rev xs)) \<le> length xs"
      by (metis length_dropWhile_le length_rev)
    ultimately show ?thesis using True by simp
  qed simp
qed simp

lemma eof_strip_unpadded:
  assumes "\<exists>x\<in>set xs. x \<noteq> XMODEM_EOF" "3 \<le> length xs"
  shows "eof_strip (xs @ q) (length xs) (int (length xs)) = Some (int (unpadded xs))"
proof -
  obtain ys c b a where xs: "xs = ys @ [c, b, a]"
  proof -
    have "xs = take (length xs - 3) xs @ drop (length xs - 3) xs" by simp
    moreover have "length (drop (length xs - 3) xs) = 3" using assms(2) by simp
    ultimately show thesis using that by (metis (no_types, lifting) length_0_conv length_Suc_conv numeral_3_eq_3)
  qed
  have nth: "(xs @ q) ! (length ys + 2) = a" "(xs @ q) ! (length ys + 1) = b" "(xs @ q) ! length ys = c"
    by (simp_all add: xs nth_append)
  have t: "take 3 (rev xs) = [a, b, c]" by (simp add: xs)
  have le: "length (dropWhile (\<lambda>c. c = XMODEM_EOF) (rev xs)) \<le> length xs"
    by (metis length_dropWhile_le length_rev)
  show ?thesis
    unfolding eof_strip_def Let_def unpadded_def t
    using eof_count_dropWhile [OF assms(1), of q] le nth assms(2)
    by (auto simp: xs numeral_3_eq_3 eval_nat_numeral of_nat_diff)
qed


section \<open>Properties\<close>

lemma sender_head: "ts \<noteq> [] \<Longrightarrow> \<exists>r. sender b ts = XMODEM_SOH # r"
proof (cases ts)
  case (Cons bd ts')
  then show ?thesis by (cases bd; cases "fst bd") (auto simp: frame_def)
qed simp

lemma payload_length: "transfer_ok ts \<Longrightarrow> length (payload ts) = XMODEM_BLOCK_SIZE * length ts"
  by (induction ts) (auto simp: payload_def transfer_ok_def)

lemma xmodem_wait_naks: "cnt < 2000000 \<Longrightarrow> xmodem_wait polls cnt = replicate ((polls + cnt) div 2000000) XMODEM_NAK"
proof (induction polls arbitrary: cnt)
  case 0
  then show ?case by simp
next
  case (Suc polls)
  show ?case
  proof (cases "cnt + 1 \<ge> 2000000")
    case True
    then have "cnt = 1999999" using Suc.prems by simp
    moreover have "(Suc polls + 1999999) div 2000000 = Suc (polls div 2000000)" by simp
    ultimately show ?thesis using Suc.IH [of 0] by simp
  next
    case False
    then show ?thesis using Suc.IH [of "cnt + 1"] by simp
  qed
qed

text \<open>C8. A whole transfer: whatever the delays on the line, and however often a block arrives damaged (a
  wrong checksum under the right number), the receiver returns with the blocks in order at the start of
  the buffer and the rest of the buffer untouched, answers every damaged frame with a NAK and every
  good one and the end with an ACK, and reports the length without a padding of three or more EOF
  bytes. Block numbers wrap at 256.\<close>

theorem xmodem_recv_transfer:
  assumes "transfer_ok ts" "ts \<noteq> []" "map snd inp = sender 1 ts" "XMODEM_BLOCK_SIZE * length ts \<le> length mem"
    and "\<exists>x\<in>set (payload ts). x \<noteq> XMODEM_EOF"
  shows "xmodem_recv inp mem =
    Returns (int (unpadded (payload ts)), payload ts @ drop (XMODEM_BLOCK_SIZE * length ts) mem,
      replicate (fst (hd inp) div 2000000) XMODEM_NAK @ replies ts @ [XMODEM_ACK])"
proof -
  let ?n = "XMODEM_BLOCK_SIZE * length ts"
  obtain r where "map snd inp = XMODEM_SOH # r" using sender_head [OF assms(2)] assms(3) by metis
  then have hd: "snd (hd inp) = XMODEM_SOH" "inp \<noteq> []" by (cases inp; auto)+
  have mem: "mem = take ?n mem @ drop ?n mem" "length (take ?n mem) = ?n" using assms(4) by simp_all
  have len: "length (payload ts) = ?n" by (rule payload_length [OF assms(1)])
  have "XMODEM_BLOCK_SIZE \<le> ?n" using assms(2) by (cases ts) auto
  then have "3 \<le> length (payload ts)" using len by (simp add: XMODEM_BLOCK_SIZE_def)
  note strip = eof_strip_unpadded [OF assms(5) this, of "drop ?n mem", unfolded len]
  have "xmodem_recv inp mem = xmodem_recv_loop inp mem 0 True 0 1 (xmodem_wait (fst (hd inp)) 0)"
    unfolding xmodem_recv_def using recv_loop_first [OF hd, of mem 0 0 1 "[]"] by simp
  also have "\<dots> = (case eof_strip (payload ts @ drop ?n mem) ?n (int ?n) of
        None \<Rightarrow> Undefined
      | Some n \<Rightarrow> Returns (n, payload ts @ drop ?n mem, xmodem_wait (fst (hd inp)) 0 @ replies ts @ [XMODEM_ACK]))"
    using recv_loop_transfer [of inp 1 ts "[]" "take ?n mem" "[]" 0 "drop ?n mem" 0 "xmodem_wait (fst (hd inp)) 0"]
      assms(1,3) mem by (simp split: option.split)
  finally show ?thesis using strip xmodem_wait_naks [of 0] by simp
qed

definition sample_transfer :: transfer where
  "sample_transfer = [([(replicate 128 7, 9)], replicate 128 1)]"

theorem xmodem_recv_transfer_witness:
  "xmodem_recv (map (\<lambda>b. (4000000, b)) (sender 1 sample_transfer)) (replicate 200 0) =
    Returns (128, replicate 128 1 @ replicate 72 0, [XMODEM_NAK, XMODEM_NAK, XMODEM_NAK, XMODEM_ACK, XMODEM_ACK])"
proof -
  have ok: "transfer_ok sample_transfer"
    by (simp add: transfer_ok_def sample_transfer_def XMODEM_BLOCK_SIZE_def sum_list_replicate)
  have "hd (sender 1 sample_transfer) = XMODEM_SOH" "sender 1 sample_transfer \<noteq> []"
    by (simp_all add: sample_transfer_def frame_def)
  then have h: "fst (hd (map (\<lambda>b. (4000000 :: nat, b)) (sender 1 sample_transfer))) = 4000000" by (simp add: hd_map)
  have p: "payload sample_transfer = replicate 128 1" by (simp add: payload_def sample_transfer_def)
  have u: "unpadded (replicate 128 1) = 128" by (simp add: unpadded_def XMODEM_EOF_def numeral_3_eq_3)
  have r: "replies sample_transfer = [XMODEM_NAK, XMODEM_ACK]" by (simp add: replies_def sample_transfer_def)
  have "xmodem_recv (map (\<lambda>b. (4000000, b)) (sender 1 sample_transfer)) (replicate 200 0) =
    Returns (int (unpadded (payload sample_transfer)), payload sample_transfer @ drop (XMODEM_BLOCK_SIZE * length sample_transfer) (replicate 200 0),
      replicate (fst (hd (map (\<lambda>b. (4000000 :: nat, b)) (sender 1 sample_transfer))) div 2000000) XMODEM_NAK @ replies sample_transfer @ [XMODEM_ACK])"
    by (rule xmodem_recv_transfer [OF ok])
      (simp_all add: p comp_def sample_transfer_def XMODEM_BLOCK_SIZE_def payload_def XMODEM_EOF_def)
  then show ?thesis unfolding h p u r
    by (simp add: sample_transfer_def XMODEM_BLOCK_SIZE_def numeral_2_eq_2)
qed

text \<open>A block that is sent twice breaks the transfer: when the acknowledgement of a block is lost and
  the sender repeats it, the receiver answers with a NAK after the block number already, takes the next
  byte for a command, and gives up with -1.\<close>

theorem xmodem_duplicate_block_aborts:
  assumes "length d = XMODEM_BLOCK_SIZE" "XMODEM_BLOCK_SIZE \<le> length mem"
    and "map snd inp = frame 1 d (sum_list d) @ frame 1 d (sum_list d) @ rest"
  shows "\<exists>mem' sent. xmodem_recv inp mem = Returns (- 1, mem', sent @ [XMODEM_ACK, XMODEM_NAK])"
proof -
  have hd: "snd (hd inp) = XMODEM_SOH" "inp \<noteq> []" using assms(3) by (cases inp; auto simp: frame_def)+
  let ?w = "xmodem_wait (fst (hd inp)) 0"
  have mem: "mem = [] @ take XMODEM_BLOCK_SIZE mem @ drop XMODEM_BLOCK_SIZE mem" "length (take XMODEM_BLOCK_SIZE mem) = XMODEM_BLOCK_SIZE"
    using assms(2) by simp_all
  obtain inp' where i: "map snd inp' = frame 1 d (sum_list d) @ rest"
    "xmodem_recv_loop inp mem 0 True 0 1 ?w =
     xmodem_recv_loop inp' (d @ drop XMODEM_BLOCK_SIZE mem) XMODEM_BLOCK_SIZE True (int XMODEM_BLOCK_SIZE) 2 (?w @ [XMODEM_ACK])"
    using recv_loop_frame [OF assms(3,1) mem(2), of "[]" 0 "drop XMODEM_BLOCK_SIZE mem" 0 ?w] mem(1) by auto
  obtain p1 p2 p3 inp2 where inp': "inp' = (p1, XMODEM_SOH) # (p2, 1) # (p3, 0xfe) # inp2"
    using i(1) by (auto simp: frame_def map_eq_Cons_conv)
  have "xmodem_read_block 2 ((p2, 1) # (p3, 0xfe) # inp2) m p = Returns (- 1, (p3, 0xfe) # inp2, m)" for m p
    by (simp add: xmodem_read_block_def)
  then have "xmodem_recv_loop inp' (d @ drop XMODEM_BLOCK_SIZE mem) XMODEM_BLOCK_SIZE True (int XMODEM_BLOCK_SIZE) 2 (?w @ [XMODEM_ACK]) =
      xmodem_recv_loop ((p3, 0xfe) # inp2) (d @ drop XMODEM_BLOCK_SIZE mem) XMODEM_BLOCK_SIZE True (int XMODEM_BLOCK_SIZE) 2 (?w @ [XMODEM_ACK, XMODEM_NAK])"
    by (subst xmodem_recv_loop.simps) (simp add: inp' Let_def)
  also have "\<dots> = Returns (- 1, d @ drop XMODEM_BLOCK_SIZE mem, ?w @ [XMODEM_ACK, XMODEM_NAK])"
    by (subst xmodem_recv_loop.simps) (simp add: Let_def XMODEM_EOT_def XMODEM_CAN_def XMODEM_SOH_def)
  finally show ?thesis
    unfolding xmodem_recv_def using recv_loop_first [OF hd, of mem 0 0 1 "[]"] i(2) by auto
qed

theorem xmodem_duplicate_block_aborts_witness:
  "\<exists>mem' sent. xmodem_recv (map (Pair 0) (frame 1 (replicate 128 0) 0 @ frame 1 (replicate 128 0) 0)) (replicate 128 0) =
     Returns (- 1, mem', sent @ [XMODEM_ACK, XMODEM_NAK])"
proof (rule xmodem_duplicate_block_aborts [where d = "replicate 128 0" and rest = "[]"])
  show "map snd (map (Pair 0) (frame 1 (replicate 128 0) 0 @ frame 1 (replicate 128 0) 0)) =
    frame 1 (replicate 128 0) (sum_list (replicate 128 0)) @ frame 1 (replicate 128 0) (sum_list (replicate 128 0)) @ []"
    by (simp add: comp_def sum_list_replicate)
qed (simp_all add: XMODEM_BLOCK_SIZE_def)


end
