(* ===== verification/Printf.thy ===== *)
theory Printf
  imports CString
begin

text \<open>
  The formatted output of \<open>bootloader/myboot/common.c\<close>: \<open>number\<close>, \<open>vsprintf\<close> and their helpers, in the
  configuration of the makefile (32-bit \<open>long\<close>). What is written at \<open>str\<close> is the list of characters that
  a function answers; the size of the output buffer is not known to the code.
\<close>

section \<open>Numbers\<close>

definition ZEROPAD :: u32 where "ZEROPAD = 1"
definition SIGN :: u32 where "SIGN = 2"
definition PLUS :: u32 where "PLUS = 4"
definition SPACE :: u32 where "SPACE = 8"
definition LEFT :: u32 where "LEFT = 16"
definition SPECIAL :: u32 where "SPECIAL = 32"
definition LARGE :: u32 where "LARGE = 64"

definition has :: "u32 \<Rightarrow> u32 \<Rightarrow> bool" where
  "has type flag \<longleftrightarrow> type AND flag \<noteq> 0"

text \<open>The loop \<open>while (size-- > 0) *str++ = c\<close>: what it writes and what it leaves in \<open>size\<close>.\<close>

definition pad_loop :: "char \<Rightarrow> int \<Rightarrow> string \<times> int" where
  "pad_loop c size0 = (replicate (nat size0) c, if size0 > 0 then - 1 else size0 - 1)"

definition digits_lower :: string where "digits_lower = ''0123456789abcdefghijklmnopqrstuvwxyz''"
definition digits_upper :: string where "digits_upper = ''0123456789ABCDEFGHIJKLMNOPQRSTUVWXYZ''"

text \<open>The digits in \<open>tmp\<close>, the last one first.\<close>

function tmp_digits :: "string \<Rightarrow> nat \<Rightarrow> nat \<Rightarrow> string" where
  "tmp_digits digits base num =
     (if num = 0 \<or> base < 2 then [] else digits ! (num mod base) # tmp_digits digits base (num div base))"
  by pat_completeness auto
termination by (relation "measure (\<lambda>(digits, base, num). num)") auto

declare tmp_digits.simps [simp del]

definition number_tmp :: "string \<Rightarrow> nat \<Rightarrow> u32 \<Rightarrow> string" where
  "number_tmp digits base num = (if num = 0 then ''0'' else tmp_digits digits base (unat num))"

text \<open>\<open>None\<close> is the null pointer that \<open>number\<close> returns for a base it does not know.\<close>

definition number :: "u32 \<Rightarrow> nat \<Rightarrow> int \<Rightarrow> int \<Rightarrow> u32 \<Rightarrow> string option" where
  "number num base size0 precision type =
     (let digits = (if has type LARGE then digits_upper else digits_lower);
          type = (if has type LEFT then type AND NOT ZEROPAD else type)
      in if base < 2 \<or> base > 36 then None
         else
           (let c = (if has type ZEROPAD then CHR ''0'' else CHR '' '');
                (sign, num, size1) =
                  (if has type SIGN
                   then if sint num < 0 then (''-'', - num, size0 - 1)
                        else if has type PLUS then (''+'', num, size0 - 1)
                        else if has type SPACE then ('' '', num, size0 - 1)
                        else ('''', num, size0)
                   else ('''', num, size0));
                size2 = (if has type SPECIAL
                         then if base = 16 then size1 - 2 else if base = 8 then size1 - 1 else size1
                         else size1);
                tmp = number_tmp digits base num;
                i = int (length tmp);
                precision = (if i > precision then i else precision);
                size3 = size2 - precision;
                (pad1, size4) = (if type AND (ZEROPAD + LEFT) = 0 then pad_loop CHR '' '' size3 else ('''', size3));
                prefix = (if has type SPECIAL
                          then if base = 8 then ''0'' else if base = 16 then [CHR ''0'', digits ! 33] else ''''
                          else '''');
                (pad2, size5) = (if \<not> has type LEFT then pad_loop c size4 else ('''', size4));
                zeros = replicate (nat (precision - i)) CHR ''0''
            in Some (pad1 @ sign @ prefix @ pad2 @ zeros @ rev tmp @ fst (pad_loop CHR '' '' size5))))"

section \<open>Formats\<close>

definition is_digit :: "char \<Rightarrow> bool" where
  "is_digit c \<longleftrightarrow> CHR ''0'' \<le> c \<and> c \<le> CHR ''9''"

fun skip_atoi :: "string \<Rightarrow> int \<Rightarrow> int \<times> string" where
  "skip_atoi [] i = (i, [])"
| "skip_atoi (c # s) i = (if is_digit c then skip_atoi s (i * 10 + of_char c - 48) else (i, c # s))"

text \<open>The arguments: a machine word, a string (\<open>None\<close> for a null pointer), or the target of \<open>%n\<close>.\<close>

datatype arg = Word u32 | Str "string option" | Count

text \<open>The flags behind a \<open>%\<close>.\<close>

fun parse_flags :: "string \<Rightarrow> u32 \<Rightarrow> u32 \<times> string" where
  "parse_flags [] flags = (flags, [])"
| "parse_flags (c # fmt) flags =
     (if c = CHR ''-'' then parse_flags fmt (flags OR LEFT)
      else if c = CHR ''+'' then parse_flags fmt (flags OR PLUS)
      else if c = CHR '' '' then parse_flags fmt (flags OR SPACE)
      else if c = CHR ''#'' then parse_flags fmt (flags OR SPECIAL)
      else if c = CHR ''0'' then parse_flags fmt (flags OR ZEROPAD)
      else (flags, c # fmt))"

text \<open>Width, precision and qualifier. A missing or wrong argument is undefined.\<close>

definition parse_width :: "string \<Rightarrow> u32 \<Rightarrow> arg list \<Rightarrow> (int \<times> u32 \<times> string \<times> arg list) option" where
  "parse_width fmt flags args =
     (case fmt of
        [] \<Rightarrow> Some (- 1, flags, fmt, args)
      | c # fmt' \<Rightarrow>
          if is_digit c then (let (w, fmt) = skip_atoi fmt 0 in Some (w, flags, fmt, args))
          else if c = CHR ''*''
          then (case args of
                  Word w # args \<Rightarrow>
                    if sint w < 0 then Some (- sint w, flags OR LEFT, fmt', args) else Some (sint w, flags, fmt', args)
                | _ \<Rightarrow> None)
          else Some (- 1, flags, fmt, args))"

definition parse_precision :: "string \<Rightarrow> arg list \<Rightarrow> (int \<times> string \<times> arg list) option" where
  "parse_precision fmt args =
     (case fmt of
        [] \<Rightarrow> Some (- 1, fmt, args)
      | c # fmt' \<Rightarrow>
          if c \<noteq> CHR ''.'' then Some (- 1, fmt, args)
          else do {
            (p, fmt, args) \<leftarrow>
              (case fmt' of
                 [] \<Rightarrow> Some (- 1, fmt', args)
               | c # fmt'' \<Rightarrow>
                   if is_digit c then (let (p, fmt) = skip_atoi fmt' 0 in Some (p, fmt, args))
                   else if c = CHR ''*''
                   then (case args of Word w # args \<Rightarrow> Some (sint w, fmt'', args) | _ \<Rightarrow> None)
                   else Some (- 1, fmt', args));
            Some (if p < 0 then 0 else p, fmt, args) })"

text \<open>\<open>''''\<close> is no qualifier.\<close>

definition parse_qualifier :: "string \<Rightarrow> string \<times> string" where
  "parse_qualifier fmt =
     (case fmt of
        [] \<Rightarrow> ('''', [])
      | c # fmt' \<Rightarrow>
          if c \<in> set ''hlLZztq''
          then (if c = CHR ''l'' \<and> take 1 fmt' = ''l'' then (''q'', drop 1 fmt') else ([c], fmt'))
          else ('''', fmt))"

text \<open>\<open>strnlen\<close>; the precision -1 is a huge count.\<close>

definition strnlen :: "string \<Rightarrow> int \<Rightarrow> int" where
  "strnlen s count = (if count < 0 then int (length s) else min count (int (length s)))"

text \<open>The integer argument under a qualifier.\<close>

definition int_arg :: "string \<Rightarrow> u32 \<Rightarrow> u32 \<Rightarrow> u32" where
  "int_arg qualifier flags w =
     (if qualifier = ''h''
      then (if has flags SIGN then word_of_int (sint (ucast w :: u16)) else ucast (ucast w :: u16))
      else w)"

text \<open>One conversion, with \<open>fmt\<close> at its letter and \<open>pos\<close> the number of characters written before. The
  results are the characters, the count stored by \<open>%n\<close>, and the rest of the format and arguments.\<close>

definition convert ::
  "string \<Rightarrow> u32 \<Rightarrow> int \<Rightarrow> int \<Rightarrow> string \<Rightarrow> arg list \<Rightarrow> nat \<Rightarrow> (string \<times> nat list \<times> string \<times> arg list) option" where
  "convert fmt flags field_width precision qualifier args pos =
     (let num = (\<lambda>base flags fmt.
            (case args of
               Word w # args \<Rightarrow> do {
                 s \<leftarrow> number (int_arg qualifier flags w) base field_width precision flags;
                 Some (s, [], fmt, args) }
             | _ \<Rightarrow> None))
      in case fmt of
           [] \<Rightarrow> Some (''%'', [], [], args)
         | c # fmt \<Rightarrow>
             if c = CHR ''c''
             then (case args of
                     Word w # args \<Rightarrow>
                       (let pad = replicate (nat (field_width - 1)) CHR '' '' in
                        Some ((if \<not> has flags LEFT then pad else '''') @ [char_of (unat w mod 256)] @
                              (if has flags LEFT then pad else ''''), [], fmt, args))
                   | _ \<Rightarrow> None)
             else if c = CHR ''s''
             then (case args of
                     Str so # args \<Rightarrow>
                       (let s = (case so of None \<Rightarrow> ''<NULL>'' | Some s \<Rightarrow> s);
                            len = strnlen s precision;
                            pad = replicate (nat (field_width - len)) CHR '' ''
                        in Some ((if \<not> has flags LEFT then pad else '''') @ take (nat len) s @
                                 (if has flags LEFT then pad else ''''), [], fmt, args))
                   | _ \<Rightarrow> None)
             else if c = CHR ''p''
             then (case args of
                     Word w # args \<Rightarrow> do {
                       s \<leftarrow> (if field_width = - 1 then number w 16 8 precision (flags OR ZEROPAD)
                            else number w 16 field_width precision flags);
                       Some (s, [], fmt, args) }
                   | _ \<Rightarrow> None)
             else if c = CHR ''n'' then (case args of Count # args \<Rightarrow> Some ('''', [pos], fmt, args) | _ \<Rightarrow> None)
             else if c = CHR ''%'' then Some (''%'', [], fmt, args)
             else if c = CHR ''o'' then num 8 flags fmt
             else if c = CHR ''X'' then num 16 (flags OR LARGE) fmt
             else if c = CHR ''x'' then num 16 flags fmt
             else if c = CHR ''d'' \<or> c = CHR ''i'' then num 10 (flags OR SIGN) fmt
             else if c = CHR ''u'' then num 10 flags fmt
             else Some ([CHR ''%'', c], [], fmt, args))"

definition conversion ::
  "string \<Rightarrow> arg list \<Rightarrow> nat \<Rightarrow> (string \<times> nat list \<times> string \<times> arg list) option" where
  "conversion fmt args pos =
     (let (flags, fmt) = parse_flags fmt 0 in do {
        (field_width, flags, fmt, args) \<leftarrow> parse_width fmt flags args;
        (precision, fmt, args) \<leftarrow> parse_precision fmt args;
        (let (qualifier, fmt) = parse_qualifier fmt
         in convert fmt flags field_width precision qualifier args pos) })"

text \<open>Every conversion shortens the format.\<close>

lemma skip_atoi_length: "length (snd (skip_atoi fmt i)) \<le> length fmt"
  by (induction fmt i rule: skip_atoi.induct) auto

lemma parse_flags_length: "length (snd (parse_flags fmt flags)) \<le> length fmt"
  by (induction fmt flags rule: parse_flags.induct) (auto intro: le_SucI)

lemma parse_width_length: "parse_width fmt flags args = Some (w, flags', fmt', args') \<Longrightarrow> length fmt' \<le> length fmt"
  using skip_atoi_length [of fmt 0]
  by (auto simp: parse_width_def split: list.splits if_splits arg.splits prod.splits)

lemma parse_precision_length: "parse_precision fmt args = Some (p, fmt', args') \<Longrightarrow> length fmt' \<le> length fmt"
  using skip_atoi_length [of "tl fmt" 0]
  by (auto simp: parse_precision_def split: list.splits if_splits arg.splits prod.splits)

lemma parse_qualifier_length: "length (snd (parse_qualifier fmt)) \<le> length fmt"
  by (auto simp: parse_qualifier_def split: list.split)

lemma convert_length: "convert fmt flags w p q args pos = Some (s, n, fmt', args') \<Longrightarrow> length fmt' \<le> length fmt"
  unfolding convert_def Let_def
  by (simp split: list.splits if_splits arg.splits option.splits)

lemma conversion_length:
  assumes "conversion fmt args pos = Some (s, n, fmt', args')"
  shows "length fmt' \<le> length fmt"
proof -
  obtain flags f1 where 1: "parse_flags fmt 0 = (flags, f1)" by fastforce
  obtain w flags' f2 a2 p f3 a3 where 2: "parse_width f1 flags args = Some (w, flags', f2, a2)"
    "parse_precision f2 a2 = Some (p, f3, a3)"
    "(case parse_qualifier f3 of (q, f4) \<Rightarrow> convert f4 flags' w p q a3 pos) = Some (s, n, fmt', args')"
    using assms by (auto simp: conversion_def Let_def 1)
  obtain q f4 where 3: "parse_qualifier f3 = (q, f4)" by fastforce
  have "length fmt' \<le> length f4" using 2(3) convert_length by (simp add: 3)
  then show ?thesis
    using parse_flags_length [of fmt 0] parse_width_length [OF 2(1)] parse_precision_length [OF 2(2)]
      parse_qualifier_length [of f3] 1 3 by simp
qed

function vsprintf_loop :: "string \<Rightarrow> arg list \<Rightarrow> nat \<Rightarrow> (string \<times> nat list) option" where
  "vsprintf_loop fmt args pos =
     (case fmt of
        [] \<Rightarrow> Some ([], [])
      | c # fmt' \<Rightarrow>
          if c \<noteq> CHR ''%''
          then (case vsprintf_loop fmt' args (pos + 1) of
                  None \<Rightarrow> None | Some (out, ns) \<Rightarrow> Some (c # out, ns))
          else (case conversion fmt' args pos of
                  None \<Rightarrow> None
                | Some (s, n, fmt, args) \<Rightarrow>
                    (case vsprintf_loop fmt args (pos + length s) of
                       None \<Rightarrow> None | Some (out, ns) \<Rightarrow> Some (s @ out, n @ ns))))"
  by pat_completeness auto
termination
  by (relation "measure (\<lambda>(fmt, args, pos). length fmt)") (auto dest: conversion_length)

declare vsprintf_loop.simps [simp del]

text \<open>The string that is written (without its zero), its length, and the counts stored.\<close>

definition vsprintf :: "string \<Rightarrow> arg list \<Rightarrow> (string \<times> int \<times> nat list) option" where
  "vsprintf fmt args = do {
     (out, ns) \<leftarrow> vsprintf_loop fmt args 0;
     Some (out, int (length out), ns) }"

section \<open>Digits\<close>

text \<open>The digits of a number, the most significant one first.\<close>

definition udec :: "nat \<Rightarrow> nat \<Rightarrow> string" where
  "udec base n = (if n = 0 then ''0'' else rev (tmp_digits digits_lower base n))"

definition all_digits :: "nat \<Rightarrow> string \<Rightarrow> bool" where
  "all_digits b s \<longleftrightarrow> (\<forall>c\<in>set s. \<exists>v<b. digit_val c = Some v)"

lemma digit_lower: "d < 36 \<Longrightarrow> digit_val (digits_lower ! d) = Some d"
proof -
  have "\<forall>d\<in>set [0..<36]. digit_val (digits_lower ! d) = Some d" by code_simp
  then show "d < 36 \<Longrightarrow> digit_val (digits_lower ! d) = Some d" by simp
qed

lemma digits_val_snoc:
  "all_digits b xs \<Longrightarrow> digit_val c = Some v \<Longrightarrow> v < b \<Longrightarrow>
   digits_val b acc (xs @ [c]) = digits_val b acc xs * int b + int v"
  by (induction xs arbitrary: acc) (auto simp: all_digits_def)

lemma tmp_digits_value:
  "2 \<le> base \<Longrightarrow> base \<le> 36 \<Longrightarrow>
   all_digits base (rev (tmp_digits digits_lower base n)) \<and>
   digits_val base 0 (rev (tmp_digits digits_lower base n)) = int n"
proof (induction n rule: less_induct)
  case (less n)
  show ?case
  proof (cases "n = 0")
    case True
    then show ?thesis by (simp add: tmp_digits.simps all_digits_def)
  next
    case False
    define q where "q = n div base"
    have IH: "all_digits base (rev (tmp_digits digits_lower base q))"
      "digits_val base 0 (rev (tmp_digits digits_lower base q)) = int q"
      using less.IH [of q] less.prems False by (simp_all add: q_def)
    have d: "digit_val (digits_lower ! (n mod base)) = Some (n mod base)" "n mod base < base"
      using digit_lower [of "n mod base"] less.prems by (simp_all add: order_less_le_trans [of _ base])
    have eq: "rev (tmp_digits digits_lower base n) = rev (tmp_digits digits_lower base q) @ [digits_lower ! (n mod base)]"
      using False less.prems by (subst tmp_digits.simps) (simp add: q_def)
    have "digits_val base 0 (rev (tmp_digits digits_lower base n)) = int q * int base + int (n mod base)"
      unfolding eq using digits_val_snoc [OF IH(1) d, of 0] IH(2) by simp
    also have "\<dots> = int n" unfolding q_def by (metis div_mult_mod_eq of_nat_add of_nat_mult)
    finally show ?thesis using IH(1) d unfolding eq by (auto simp: all_digits_def)
  qed
qed

lemma udec_value:
  assumes "2 \<le> base" "base \<le> 36"
  shows "all_digits base (udec base n)" "digits_val base 0 (udec base n) = int n"
proof -
  have z: "digit_val CHR ''0'' = Some 0" by code_simp
  show "all_digits base (udec base n)" "digits_val base 0 (udec base n) = int n"
    using tmp_digits_value [OF assms, of n] assms z by (auto simp: udec_def all_digits_def)
qed

lemma udec_nonempty: "udec base n \<noteq> [] \<or> base < 2"
  by (auto simp: udec_def tmp_digits.simps [of _ _ n])

text \<open>Leading zeros do not change the value.\<close>

lemma digits_val_zeros: "0 < b \<Longrightarrow> digits_val b 0 (replicate n CHR ''0'' @ s) = digits_val b 0 s"
proof -
  have z: "digit_val CHR ''0'' = Some 0" by code_simp
  show "0 < b \<Longrightarrow> digits_val b 0 (replicate n CHR ''0'' @ s) = digits_val b 0 s"
    by (induction n) (simp_all add: z)
qed

lemma no_flags [simp]: "\<not> has 0 f"
  by (simp add: has_def)

lemma sign_flags [simp]: "has SIGN SIGN" "\<not> has SIGN LARGE" "\<not> has SIGN LEFT" "\<not> has SIGN ZEROPAD" "\<not> has SIGN PLUS"
  "\<not> has SIGN SPACE" "\<not> has SIGN SPECIAL" "SIGN AND (ZEROPAD + LEFT) = 0"
  by (simp_all add: has_def SIGN_def LARGE_def LEFT_def ZEROPAD_def PLUS_def SPACE_def SPECIAL_def)

lemma pad_loop_after: "fst (pad_loop c (snd (pad_loop d n))) = []" "snd (pad_loop c n) < 0"
  by (simp_all add: pad_loop_def)

text \<open>What \<open>number\<close> writes without flags, and for a signed number.\<close>

definition zeros :: "int \<Rightarrow> string \<Rightarrow> string" where
  "zeros precision s = replicate (nat (precision - int (length s))) CHR ''0'' @ s"

definition right :: "int \<Rightarrow> string \<Rightarrow> string" where
  "right width s = replicate (nat (width - int (length s))) CHR '' '' @ s"

lemma number_unsigned:
  assumes "2 \<le> base" "base \<le> 36"
  shows "number num base width precision 0 = Some (right width (zeros precision (udec base (unat num))))"
proof -
  define tmp where "tmp = number_tmp digits_lower base num"
  have u: "udec base (unat num) = rev tmp" by (simp add: udec_def unat_eq_0 tmp_def number_tmp_def)
  have b: "\<not> (base < 2 \<or> base > 36)" using assms by simp
  show ?thesis
    unfolding u using b by (simp add: number_def Let_def tmp_def [symmetric] pad_loop_def right_def zeros_def)
qed


lemma number_signed:
  "number num 10 width precision SIGN =
    Some (let neg = sint num < 0;
              s = zeros precision (udec 10 (unat (if neg then - num else num)))
          in replicate (nat (width - int (length s) - (if neg then 1 else 0))) CHR '' '' @ (if neg then ''-'' else '''') @ s)"
proof -
  define num' where "num' = (if sint num < 0 then - num else num)"
  define tmp where "tmp = number_tmp digits_lower 10 num'"
  have u: "udec 10 (unat num') = rev tmp" by (simp add: udec_def unat_eq_0 tmp_def number_tmp_def)
  show ?thesis
    unfolding num'_def [symmetric] u Let_def
    by (cases "sint num < 0") (simp_all add: number_def Let_def tmp_def num'_def pad_loop_def zeros_def diff_diff_eq add.commute [of 1])
qed

text \<open>Reading such a number back.\<close>

lemma digit_not_space: "digit_val c = Some v \<Longrightarrow> \<not> c_isspace c \<and> c \<noteq> CHR ''-'' \<and> c \<noteq> CHR ''+'' \<and> c \<noteq> CHR '' ''"
  by (auto simp: digit_val_def c_isspace_def c_isdigit_def c_islower_def c_isupper_def split: if_splits)

lemma all_digits_zeros: "all_digits b s \<Longrightarrow> 0 < b \<Longrightarrow> all_digits b (zeros p s)"
proof -
  have z: "digit_val CHR ''0'' = Some 0" by code_simp
  show "all_digits b s \<Longrightarrow> 0 < b \<Longrightarrow> all_digits b (zeros p s)" by (auto simp: all_digits_def zeros_def z)
qed

lemma digits_val_zeros': "0 < b \<Longrightarrow> digits_val b 0 (zeros p s) = digits_val b 0 s"
  by (simp add: zeros_def digits_val_zeros)

lemma zeros_nonempty: "s \<noteq> [] \<Longrightarrow> zeros p s \<noteq> []"
  by (simp add: zeros_def)

lemma dropWhile_right:
  "s \<noteq> [] \<Longrightarrow> all_digits b s \<Longrightarrow> dropWhile (\<lambda>c. c = CHR '' '') (right w s) = s"
proof -
  assume "s \<noteq> []" "all_digits b s"
  then have "hd s \<noteq> CHR '' ''" using digit_not_space by (cases s) (auto simp: all_digits_def)
  then have "dropWhile (\<lambda>c. c = CHR '' '') (replicate n CHR '' '' @ s) = s" for n
    using \<open>s \<noteq> []\<close> by (induction n) (cases s; auto)+
  then show ?thesis by (simp add: right_def)
qed

lemma atoi_spaces: "atoi (replicate n CHR '' '' @ s) = atoi s"
  by (simp add: atoi_def strip_left_def, induction n) (simp_all add: c_isspace_def)

lemma atoi_digits:
  assumes "s \<noteq> []" "all_digits 10 s"
  shows "atoi s = clamp_long (digits_val 10 0 s)" "atoi (''-'' @ s) = clamp_long (- digits_val 10 0 s)"
proof -
  obtain c s' where s: "s = c # s'" using assms(1) by (cases s) auto
  then have "\<not> c_isspace c" "c \<noteq> CHR ''-''" "c \<noteq> CHR ''+''" using assms(2) digit_not_space by (auto simp: all_digits_def)
  then show "atoi s = clamp_long (digits_val 10 0 s)" "atoi (''-'' @ s) = clamp_long (- digits_val 10 0 s)"
    by (auto simp: atoi_def strip_left_def s c_isspace_def)
qed

text \<open>C31. Printing and reading numbers: \<open>number\<close> writes an unsigned word in any base from 2 to 36, for any
  width and precision, as blanks, zeros and digits whose value in that base is the word, at least as
  long as the width and the precision ask; and \<open>atoi\<close> reads what it writes for a signed word in base 10
  back to the word, the most negative one included.\<close>

theorem number_roundtrip:
  assumes "2 \<le> base" "base \<le> 36"
  shows "(\<exists>s. number num base width precision 0 = Some s \<and>
      digits_val base 0 (dropWhile (\<lambda>c. c = CHR '' '') s) = uint num \<and> width \<le> int (length s) \<and> precision \<le> int (length s)) \<and>
    (\<exists>s. number num 10 width precision SIGN = Some s \<and> atoi s = sint num)"
proof
  let ?d = "zeros precision (udec base (unat num))"
  have d: "all_digits base ?d" "?d \<noteq> []" "digits_val base 0 ?d = int (unat num)"
    using udec_value [OF assms, of "unat num"] all_digits_zeros zeros_nonempty udec_nonempty [of base] assms
    by (auto simp: digits_val_zeros')
  have "precision \<le> int (length ?d)" by (simp add: zeros_def)
  then show "\<exists>s. number num base width precision 0 = Some s \<and>
      digits_val base 0 (dropWhile (\<lambda>c. c = CHR '' '') s) = uint num \<and> width \<le> int (length s) \<and> precision \<le> int (length s)"
    using number_unsigned [OF assms, of num width precision] dropWhile_right [OF d(2,1), of width] d(3)
    by (simp add: right_def)
next
  define num' where "num' = (if sint num < 0 then - num else num)"
  let ?d = "zeros precision (udec 10 (unat num'))"
  have d: "all_digits 10 ?d" "?d \<noteq> []" "digits_val 10 0 ?d = int (unat num')"
    using udec_value [of 10 "unat num'"] all_digits_zeros zeros_nonempty udec_nonempty [of 10]
    by (auto simp: digits_val_zeros')
  have r: "- (2 ^ 31) \<le> sint num" "sint num < 2 ^ 31" using sint_range_size [of num] by (auto simp: word_size)
  have abs: "int (unat num') = (if sint num < 0 then - sint num else sint num)"
  proof (cases "sint num < 0")
    case True
    have "uint (- num) = (- sint num) mod 2 ^ 32"
    proof -
      have "uint (- num) = uint (word_of_int (- sint num) :: u32)" by (simp add: wi_hom_neg [symmetric])
      also have "\<dots> = (- sint num) mod 2 ^ 32" unfolding uint_word_of_int by simp
      finally show ?thesis .
    qed
    then show ?thesis using True r by (simp add: num'_def)
  next
    case False
    then show ?thesis using r by (simp add: num'_def uint_sint take_bit_eq_mod)
  qed
  have v: "clamp_long (sint num) = sint num" using r by (simp add: clamp_long_def LONG_MAX_def)
  show "\<exists>s. number num 10 width precision SIGN = Some s \<and> atoi s = sint num"
    using atoi_digits [OF d(2,1)] d(3) abs v
    unfolding number_signed Let_def num'_def [symmetric]
    by (cases "sint num < 0") (simp_all add: atoi_spaces)
qed


theorem number_roundtrip_witness:
  "(\<exists>s. number 0xBEEF 16 6 (- 1) 0 = Some s \<and> digits_val 16 0 (dropWhile (\<lambda>c. c = CHR '' '') s) = 0xBEEF \<and> 6 \<le> int (length s)) \<and>
   (\<exists>s. number 0x80000000 10 0 (- 1) SIGN = Some s \<and> atoi s = - 2147483648)"
  using number_roundtrip [of 16 "0xBEEF" 6 "- 1"] number_roundtrip [of 10 "0x80000000" 0 "- 1"] by auto

section \<open>Formats of the conversions in use\<close>

text \<open>The pieces that the formats of the boot loader are made of, with their text, arguments and output.\<close>

datatype piece = Lit string | Dec u32 | Unsigned u32 | Hex u32 | Text string | Letter u32

definition piece_ok :: "piece \<Rightarrow> bool" where
  "piece_ok p \<longleftrightarrow> (case p of Lit s \<Rightarrow> CHR ''%'' \<notin> set s | _ \<Rightarrow> True)"

fun piece_fmt :: "piece \<Rightarrow> string" where
  "piece_fmt (Lit s) = s"
| "piece_fmt (Dec _) = ''%d''"
| "piece_fmt (Unsigned _) = ''%u''"
| "piece_fmt (Hex _) = ''%x''"
| "piece_fmt (Text _) = ''%s''"
| "piece_fmt (Letter _) = ''%c''"

fun piece_args :: "piece \<Rightarrow> arg list" where
  "piece_args (Lit _) = []"
| "piece_args (Dec w) = [Word w]"
| "piece_args (Unsigned w) = [Word w]"
| "piece_args (Hex w) = [Word w]"
| "piece_args (Text s) = [Str (Some s)]"
| "piece_args (Letter w) = [Word w]"

fun piece_out :: "piece \<Rightarrow> string" where
  "piece_out (Lit s) = s"
| "piece_out (Dec w) = (if sint w < 0 then ''-'' @ udec 10 (unat (- w)) else udec 10 (unat w))"
| "piece_out (Unsigned w) = udec 10 (unat w)"
| "piece_out (Hex w) = udec 16 (unat w)"
| "piece_out (Text s) = s"
| "piece_out (Letter w) = [char_of (unat w mod 256)]"

text \<open>A conversion letter without flags, width or precision.\<close>

lemma conversion_plain:
  assumes "c \<in> set ''duxsc''"
  shows "conversion (c # fmt) args pos = convert (c # fmt) 0 (- 1) (- 1) '''' args pos"
proof -
  have d: "\<not> is_digit c" using assms by (auto simp: is_digit_def less_eq_char_def)
  have "parse_flags (c # fmt) 0 = (0, c # fmt)" using assms by auto
  moreover have "parse_width (c # fmt) 0 args = Some (- 1, 0, c # fmt, args)" using assms d by (auto simp: parse_width_def)
  moreover have "parse_precision (c # fmt) args = Some (- 1, c # fmt, args)" using assms by (auto simp: parse_precision_def)
  moreover have "parse_qualifier (c # fmt) = ('''', c # fmt)" using assms by (auto simp: parse_qualifier_def)
  ultimately show ?thesis by (simp add: conversion_def)
qed

lemma zeros_none: "zeros (- 1) s = s"
  by (simp add: zeros_def)

lemma convert_piece:
  assumes "\<forall>s. p \<noteq> Lit s"
  shows "conversion (tl (piece_fmt p) @ fmt) (piece_args p @ args) pos = Some (piece_out p, [], fmt, args)"
proof (cases p)
  case (Dec w)
  have "number (int_arg '''' SIGN w) 10 (- 1) (- 1) SIGN = Some (piece_out p)"
    by (simp add: number_signed int_arg_def Let_def zeros_none Dec)
  then show ?thesis using Dec by (simp add: conversion_plain convert_def)
next
  case (Unsigned w)
  have "number (int_arg '''' 0 w) 10 (- 1) (- 1) 0 = Some (piece_out p)"
    by (simp add: number_unsigned int_arg_def zeros_none right_def Unsigned)
  then show ?thesis using Unsigned by (simp add: conversion_plain convert_def)
next
  case (Hex w)
  have "number (int_arg '''' 0 w) 16 (- 1) (- 1) 0 = Some (piece_out p)"
    by (simp add: number_unsigned int_arg_def zeros_none right_def Hex)
  then show ?thesis using Hex by (simp add: conversion_plain convert_def)
next
  case (Text s)
  then show ?thesis by (simp add: conversion_plain convert_def strnlen_def)
next
  case (Letter w)
  then show ?thesis by (simp add: conversion_plain convert_def)
qed (use assms in auto)

lemma vsprintf_loop_literal:
  "CHR ''%'' \<notin> set s \<Longrightarrow> vsprintf_loop (s @ fmt) args pos =
     (case vsprintf_loop fmt args (pos + length s) of None \<Rightarrow> None | Some (out, ns) \<Rightarrow> Some (s @ out, ns))"
proof (induction s arbitrary: pos)
  case Nil
  then show ?case by (simp split: option.split)
next
  case (Cons c s)
  then have "vsprintf_loop (s @ fmt) args (pos + 1) =
     (case vsprintf_loop fmt args (pos + 1 + length s) of None \<Rightarrow> None | Some (out, ns) \<Rightarrow> Some (s @ out, ns))" by simp
  moreover have "c \<noteq> CHR ''%''" using Cons.prems by auto
  ultimately show ?case by (subst vsprintf_loop.simps) (simp split: option.split)
qed

lemma vsprintf_loop_piece:
  assumes "piece_ok p"
  shows "vsprintf_loop (piece_fmt p @ fmt) (piece_args p @ args) pos =
     (case vsprintf_loop fmt args (pos + length (piece_out p)) of None \<Rightarrow> None | Some (out, ns) \<Rightarrow> Some (piece_out p @ out, ns))"
proof (cases "\<exists>s. p = Lit s")
  case True
  then show ?thesis using assms vsprintf_loop_literal by (auto simp: piece_ok_def split: option.split)
next
  case False
  then obtain c where c: "piece_fmt p = [CHR ''%'', c]" by (cases p) auto
  show ?thesis
    using convert_piece [of p fmt args pos] False c
    by (subst vsprintf_loop.simps) (simp split: option.split)
qed

text \<open>C40. Formatted output: for a format put together from literal text and the plain conversions \<open>%d\<close>,
  \<open>%u\<close>, \<open>%x\<close>, \<open>%s\<close> and \<open>%c\<close> with matching arguments, \<open>vsprintf\<close> is defined and writes the literal
  text and the digits, strings and characters of the arguments in order, and returns their length.\<close>

theorem vsprintf_pieces:
  assumes "\<forall>p\<in>set ps. piece_ok p"
  shows "vsprintf (concat (map piece_fmt ps)) (concat (map piece_args ps)) =
    Some (concat (map piece_out ps), int (length (concat (map piece_out ps))), [])"
proof -
  have "vsprintf_loop (concat (map piece_fmt ps)) (concat (map piece_args ps)) pos = Some (concat (map piece_out ps), [])" for pos
    using assms
  proof (induction ps arbitrary: pos)
    case Nil
    then show ?case by (simp add: vsprintf_loop.simps)
  next
    case (Cons p ps)
    then show ?case using vsprintf_loop_piece [of p] by simp
  qed
  then show ?thesis by (simp add: vsprintf_def)
qed

theorem vsprintf_pieces_witness:
  "vsprintf ''Bad %s at %d: %x'' [Str (Some ''block''), Word (- 12), Word 0xEE] = Some (''Bad block at -12: ee'', 20, [])"
proof -
  have "piece_out (Dec (- 12)) = ''-12''" "piece_out (Hex 0xEE) = ''ee''" by code_simp+
  then show ?thesis
    using vsprintf_pieces [of "[Lit ''Bad '', Text ''block'', Lit '' at '', Dec (- 12), Lit '': '', Hex 0xEE]"]
    by (simp add: piece_ok_def)
qed


end
