(* ===== verification/Nand.thy ===== *)
theory Nand
  imports Prelude
begin

text \<open>
  The NAND flash driver of the boot loader (\<open>bootloader/myboot/k9f2g08.c\<close>, macros of \<open>nand.h\<close>). The
  driver talks to the chip by writing command, address and data registers and reading the data
  register; a chip is a state with these accesses. The laws that the driver relies on are those of the
  locale \<open>nand_chip\<close> in \<open>NandChip\<close>. A \<open>ulong\<close> is a natural number with its wrap-around written out.
\<close>

section \<open>The bus\<close>

datatype bus_op = Select | Deselect | ClearRnB | DetectRnB | Cmd u8 | Addr u8 | Data u8

record 'c chip_bus =
  b_op :: "bus_op \<Rightarrow> 'c \<Rightarrow> 'c"
  b_read :: "'c \<Rightarrow> u8 \<times> 'c"

definition bus_ops :: "'c chip_bus \<Rightarrow> bus_op list \<Rightarrow> 'c \<Rightarrow> 'c" where
  "bus_ops bus ops c = fold (b_op bus) ops c"

fun bus_reads :: "'c chip_bus \<Rightarrow> nat \<Rightarrow> 'c \<Rightarrow> u8 list \<times> 'c" where
  "bus_reads bus 0 c = ([], c)"
| "bus_reads bus (Suc n) c =
     (let (x, c) = b_read bus c; (xs, c) = bus_reads bus n c in (x # xs, c))"

definition NAND_CMD_READ0 :: u8 where "NAND_CMD_READ0 = 0x00"
definition NAND_CMD_READSTART :: u8 where "NAND_CMD_READSTART = 0x30"
definition NAND_CMD_READID :: u8 where "NAND_CMD_READID = 0x90"
definition NAND_CMD_SEQIN :: u8 where "NAND_CMD_SEQIN = 0x80"
definition NAND_CMD_PAGEPROG :: u8 where "NAND_CMD_PAGEPROG = 0x10"
definition NAND_CMD_ERASE1 :: u8 where "NAND_CMD_ERASE1 = 0x60"
definition NAND_CMD_ERASE2 :: u8 where "NAND_CMD_ERASE2 = 0xd0"
definition NAND_CMD_STATUS :: u8 where "NAND_CMD_STATUS = 0x70"
definition NAND_CMD_RNDOUT :: u8 where "NAND_CMD_RNDOUT = 0x05"
definition NAND_CMD_RNDOUTSTART :: u8 where "NAND_CMD_RNDOUTSTART = 0xE0"
definition NAND_CMD_RNDIN :: u8 where "NAND_CMD_RNDIN = 0x85"
definition NAND_K9F2G08 :: u16 where "NAND_K9F2G08 = 0xecda"

section \<open>Arithmetic of the driver\<close>

definition w32 :: "nat \<Rightarrow> nat" where "w32 x = x mod 2 ^ 32"

definition byte :: "nat \<Rightarrow> u8" where "byte x = of_nat (x AND 0xff)"

text \<open>\<open>generic_ffs\<close> of \<open>linux/bitops.h\<close>, on the positive sizes it is called with.\<close>

definition generic_ffs :: "nat \<Rightarrow> nat" where
  "generic_ffs x =
     (if x = 0 then 0
      else
        (let r = 1;
             (x, r) = (if x AND 0xffff = 0 then (drop_bit 16 x, r + 16) else (x, r));
             (x, r) = (if x AND 0xff = 0 then (drop_bit 8 x, r + 8) else (x, r));
             (x, r) = (if x AND 0xf = 0 then (drop_bit 4 x, r + 4) else (x, r));
             (x, r) = (if x AND 3 = 0 then (drop_bit 2 x, r + 2) else (x, r))
         in if x AND 1 = 0 then r + 1 else r))"

record boot_nand_t =
  page_size :: nat
  spare_size :: nat
  block_size :: nat
  block_num :: nat
  bad_block_offset :: nat
  nand_id :: u16

section \<open>Identification\<close>

definition nand_read_id :: "'c chip_bus \<Rightarrow> 'c \<Rightarrow> u16 \<times> 'c" where
  "nand_read_id bus c =
     (let c = bus_ops bus [Select, ClearRnB, Cmd NAND_CMD_READID, Addr 0x00] c;
          (d1, c) = b_read bus c;
          id = ucast d1;
          (d2, c) = b_read bus c;
          id = push_bit 8 id OR ucast d2
      in (id, b_op bus Deselect c))"

definition nand_init :: "'c chip_bus \<Rightarrow> boot_nand_t \<Rightarrow> 'c \<Rightarrow> int \<times> boot_nand_t \<times> 'c" where
  "nand_init bus nand c =
     (let (id, c) = nand_read_id bus c
      in if NAND_K9F2G08 = id
         then (0, \<lparr>page_size = 0x0800, spare_size = 64, block_size = 0x20000, block_num = 2048,
                   bad_block_offset = 0x0800, nand_id = NAND_K9F2G08\<rparr>, c)
         else (- 1, nand, c))"

section \<open>Pages\<close>

definition page_addr_ops :: "nat \<Rightarrow> bus_op list" where
  "page_addr_ops page_num =
     [Addr 0, Addr 0, Addr (byte page_num), Addr (byte (drop_bit 8 page_num)), Addr (byte (drop_bit 16 page_num))]"

definition column_ops :: "nat \<Rightarrow> bus_op list" where
  "column_ops offset = [Addr (byte offset), Addr (byte (drop_bit 8 offset))]"

text \<open>How many bytes an access of \<open>size\<close> bytes at \<open>offset\<close> moves; the subtraction wraps.\<close>

definition read_bytes_of :: "boot_nand_t \<Rightarrow> nat \<Rightarrow> nat \<Rightarrow> nat" where
  "read_bytes_of nand offset sz =
     (let room = w32 (page_size nand + spare_size nand + 2 ^ 32 - offset) in if room \<ge> sz then sz else room)"

definition write_bytes_of :: "boot_nand_t \<Rightarrow> nat \<Rightarrow> nat \<Rightarrow> nat" where
  "write_bytes_of nand offset sz =
     (let room = w32 (page_size nand + spare_size nand + 2 ^ 32 - offset) in if room > sz then sz else room)"

text \<open>The bytes read, which the code stores at \<open>data\<close>; their number is the return value.\<close>

definition read_ops :: "boot_nand_t \<Rightarrow> nat \<Rightarrow> nat \<Rightarrow> nat \<Rightarrow> bus_op list" where
  "read_ops nand page_num offset sz =
     [Select, ClearRnB, Cmd NAND_CMD_READ0] @ page_addr_ops page_num @ [Cmd NAND_CMD_READSTART, DetectRnB] @
     (if 0 = offset \<and> page_size nand = sz then []
      else [Cmd NAND_CMD_RNDOUT] @ column_ops offset @ [Cmd NAND_CMD_RNDOUTSTART])"

definition nand_read_page :: "'c chip_bus \<Rightarrow> boot_nand_t \<Rightarrow> nat \<Rightarrow> nat \<Rightarrow> nat \<Rightarrow> 'c \<Rightarrow> u8 list \<times> 'c" where
  "nand_read_page bus nand page_num offset sz c =
     (let (xs, c) = bus_reads bus (read_bytes_of nand offset sz) (bus_ops bus (read_ops nand page_num offset sz) c)
      in (xs, b_op bus Deselect c))"

definition write_ops :: "boot_nand_t \<Rightarrow> nat \<Rightarrow> nat \<Rightarrow> u8 list \<Rightarrow> nat \<Rightarrow> bus_op list" where
  "write_ops nand page_num offset xs sz =
     [Select, ClearRnB, Cmd NAND_CMD_SEQIN] @ page_addr_ops page_num @
     (if 0 = offset \<and> page_size nand = sz then [] else [Cmd NAND_CMD_RNDIN] @ column_ops offset) @
     map Data xs @ [Cmd NAND_CMD_PAGEPROG, DetectRnB, Cmd NAND_CMD_STATUS]"

text \<open>\<open>data\<close> is what is behind the pointer; \<open>None\<close> if it is too short.\<close>

definition nand_write_page ::
  "'c chip_bus \<Rightarrow> boot_nand_t \<Rightarrow> nat \<Rightarrow> nat \<Rightarrow> u8 list \<Rightarrow> nat \<Rightarrow> 'c \<Rightarrow> (int \<times> 'c) option" where
  "nand_write_page bus nand page_num offset data sz c = do {
     xs \<leftarrow> rd_slice data 0 (write_bytes_of nand offset sz);
     (let (stat, c) = b_read bus (bus_ops bus (write_ops nand page_num offset xs sz) c)
      in Some (if stat AND 0x01 \<noteq> 0 then - 1 else int (length xs), b_op bus Deselect c)) }"

section \<open>Bad blocks\<close>

definition block_start_of :: "boot_nand_t \<Rightarrow> nat \<Rightarrow> nat" where
  "block_start_of nand addr = addr AND (2 ^ 32 - 1 - (block_size nand - 1))"

text \<open>A \<open>char\<close> of the target is unsigned; with a signed one the comparison would always fail.\<close>

definition is_bad_block :: "'c chip_bus \<Rightarrow> boot_nand_t \<Rightarrow> nat \<Rightarrow> 'c \<Rightarrow> (bool \<times> 'c) option" where
  "is_bad_block bus nand addr c =
     (let page_shift = generic_ffs (page_size nand) - 1;
          page_num = drop_bit page_shift (block_start_of nand addr);
          (xs, c) = nand_read_page bus nand page_num (bad_block_offset nand) 1 c
      in case xs of [] \<Rightarrow> None | data # _ \<Rightarrow> Some (data \<noteq> 0xff, b_op bus Deselect c))"

definition mark_bad_block :: "'c chip_bus \<Rightarrow> boot_nand_t \<Rightarrow> nat \<Rightarrow> 'c \<Rightarrow> (int \<times> 'c) option" where
  "mark_bad_block bus nand addr c =
     (let page_num = drop_bit (generic_ffs (page_size nand) - 1) (block_start_of nand addr) in do {
        (ret, c) \<leftarrow> nand_write_page bus nand page_num (bad_block_offset nand) [0xEE] 1 c;
        Some (if ret < 0 then ret else 0, c) })"

section \<open>Erasing\<close>

definition erase_ops :: "nat \<Rightarrow> bus_op list" where
  "erase_ops b =
     [Select, ClearRnB, Cmd NAND_CMD_ERASE1, Addr (byte (push_bit 6 b)), Addr (byte (drop_bit 2 b)),
      Addr (of_nat (drop_bit 10 b AND 0x0f)), Cmd NAND_CMD_ERASE2, DetectRnB, Cmd NAND_CMD_STATUS]"

definition nand_erase_block :: "'c chip_bus \<Rightarrow> boot_nand_t \<Rightarrow> nat \<Rightarrow> 'c \<Rightarrow> (int \<times> 'c) option" where
  "nand_erase_block bus nand b c =
     (let (stat, c) = b_read bus (bus_ops bus (erase_ops b) c);
          block_start = w32 (push_bit (generic_ffs (block_size nand) - 1) b)
      in if stat AND 1 \<noteq> 0
         then do {
           (_, c) \<leftarrow> mark_bad_block bus nand block_start c;
           Some (- 1, b_op bus Deselect c) }
         else Some (0, b_op bus Deselect c))"

text \<open>The loop may run forever; then it has no result.\<close>

partial_function (option) nand_erase_loop ::
  "'c chip_bus \<Rightarrow> boot_nand_t \<Rightarrow> nat \<Rightarrow> bool \<Rightarrow> nat \<Rightarrow> nat \<Rightarrow> int \<Rightarrow> 'c \<Rightarrow> (int \<times> 'c) option" where
  "nand_erase_loop bus nand start_addr skip_bad addr sz failed c =
     (if addr < w32 (start_addr + sz)
      then (case nand_erase_block bus nand (drop_bit (generic_ffs (block_size nand) - 1) addr) c of
              None \<Rightarrow> None
            | Some (ret, c) \<Rightarrow>
                if ret < 0
                then if skip_bad
                     then nand_erase_loop bus nand start_addr skip_bad (w32 (addr + block_size nand)) (w32 (sz + block_size nand)) failed c
                     else nand_erase_loop bus nand start_addr skip_bad addr sz (failed + 1) c
                else nand_erase_loop bus nand start_addr skip_bad (w32 (addr + block_size nand)) sz failed c)
      else Some (if \<not> skip_bad \<and> failed \<noteq> 0 then failed else 0, c))"

declare nand_erase_loop.simps [code]

definition nand_erase :: "'c chip_bus \<Rightarrow> boot_nand_t \<Rightarrow> nat \<Rightarrow> nat \<Rightarrow> bool \<Rightarrow> 'c \<Rightarrow> (int \<times> 'c) option" where
  "nand_erase bus nand start_addr sz skip_bad c =
     (if start_addr AND (block_size nand - 1) \<noteq> 0 \<or> sz AND (block_size nand - 1) \<noteq> 0 then Some (- 1, c)
      else nand_erase_loop bus nand start_addr skip_bad start_addr sz 0 c)"

fun nand_scrub_loop :: "'c chip_bus \<Rightarrow> boot_nand_t \<Rightarrow> nat list \<Rightarrow> 'c \<Rightarrow> 'c option" where
  "nand_scrub_loop bus nand [] c = Some c"
| "nand_scrub_loop bus nand (i # is) c = do {
     (_, c) \<leftarrow> nand_erase_block bus nand i c;
     nand_scrub_loop bus nand is c }"

definition nand_scrub :: "'c chip_bus \<Rightarrow> boot_nand_t \<Rightarrow> 'c \<Rightarrow> 'c option" where
  "nand_scrub bus nand c = nand_scrub_loop bus nand [0..<block_num nand] c"

section \<open>The spare area\<close>

definition nand_read_spare :: "'c chip_bus \<Rightarrow> boot_nand_t \<Rightarrow> nat \<Rightarrow> nat \<Rightarrow> 'c \<Rightarrow> u8 list \<times> 'c" where
  "nand_read_spare bus nand page_addr sz c =
     (let sz = (if sz > spare_size nand then spare_size nand else sz);
          page_num = drop_bit (generic_ffs (page_size nand) - 1) page_addr
      in nand_read_page bus nand page_num (bad_block_offset nand) sz c)"

definition nand_write_spare :: "'c chip_bus \<Rightarrow> boot_nand_t \<Rightarrow> nat \<Rightarrow> nat \<Rightarrow> u8 list \<Rightarrow> 'c \<Rightarrow> (int \<times> 'c) option" where
  "nand_write_spare bus nand page_addr sz buf c =
     (let sz = (if sz > spare_size nand then spare_size nand else sz);
          page_num = drop_bit (generic_ffs (page_size nand) - 1) page_addr
      in nand_write_page bus nand page_num (bad_block_offset nand) buf sz c)"

section \<open>Reading and writing ranges\<close>

text \<open>The loops of \<open>nand_read\<close> and \<open>nand_write\<close>: the address, the bytes that are left, the last count,
  and the position in the buffer. A page that fails to program adds -1 to the address and the pointer
  and to what is left.\<close>

partial_function (option) nand_read_loop ::
  "'c chip_bus \<Rightarrow> boot_nand_t \<Rightarrow> nat \<Rightarrow> nat \<Rightarrow> nat \<Rightarrow> nat \<Rightarrow> nat \<Rightarrow> u8 list \<Rightarrow> 'c \<Rightarrow> (int \<times> u8 list \<times> 'c) option" where
  "nand_read_loop bus nand full addr left bytes pos buf c =
     (if left > 0
      then (case (if addr AND (block_size nand - 1) = 0 then is_bad_block bus nand addr c else Some (False, c)) of
              None \<Rightarrow> None
            | Some (bad, c) \<Rightarrow>
                if bad then nand_read_loop bus nand full (w32 (addr + block_size nand)) left bytes pos buf c
                else
                  (let page_num = drop_bit (generic_ffs (page_size nand) - 1) addr;
                       page_offset = addr AND (page_size nand - 1);
                       (xs, c) = nand_read_page bus nand page_num page_offset
                                   (if left \<ge> page_size nand then page_size nand else full mod page_size nand) c
                   in case wr_slice buf pos xs of
                        None \<Rightarrow> None
                      | Some buf \<Rightarrow>
                          nand_read_loop bus nand full (w32 (addr + length xs)) (w32 (left + 2 ^ 32 - length xs))
                            (length xs) (pos + length xs) buf c))
      else Some (int bytes, buf, c))"

declare nand_read_loop.simps [code]

definition nand_read :: "'c chip_bus \<Rightarrow> boot_nand_t \<Rightarrow> nat \<Rightarrow> nat \<Rightarrow> u8 list \<Rightarrow> 'c \<Rightarrow> (int \<times> u8 list \<times> 'c) option" where
  "nand_read bus nand start_addr sz buf c =
     (if start_addr AND (page_size nand - 1) \<noteq> 0 then Some (- 1, buf, c)
      else nand_read_loop bus nand sz start_addr sz 0 0 buf c)"

partial_function (option) nand_write_loop ::
  "'c chip_bus \<Rightarrow> boot_nand_t \<Rightarrow> nat \<Rightarrow> nat \<Rightarrow> nat \<Rightarrow> int \<Rightarrow> int \<Rightarrow> u8 list \<Rightarrow> 'c \<Rightarrow> (int \<times> 'c) option" where
  "nand_write_loop bus nand full addr left bytes pos buf c =
     (if left > 0
      then (case (if addr AND (block_size nand - 1) = 0 then is_bad_block bus nand addr c else Some (False, c)) of
              None \<Rightarrow> None
            | Some (bad, c) \<Rightarrow>
                if bad then nand_write_loop bus nand full (w32 (addr + block_size nand)) left bytes pos buf c
                else
                  (let page_num = drop_bit (generic_ffs (page_size nand) - 1) addr;
                       page_offset = addr AND (page_size nand - 1)
                   in if pos < 0 then None
                      else case nand_write_page bus nand page_num page_offset (drop (nat pos) buf)
                               (if left \<ge> page_size nand then page_size nand else full mod page_size nand) c of
                             None \<Rightarrow> None
                           | Some (ret, c) \<Rightarrow>
                               nand_write_loop bus nand full (nat ((int addr + ret) mod 2 ^ 32))
                                 (nat ((int left - ret) mod 2 ^ 32)) ret (pos + ret) buf c))
      else Some (bytes, c))"

declare nand_write_loop.simps [code]

definition nand_write :: "'c chip_bus \<Rightarrow> boot_nand_t \<Rightarrow> nat \<Rightarrow> nat \<Rightarrow> u8 list \<Rightarrow> 'c \<Rightarrow> (int \<times> 'c) option" where
  "nand_write bus nand start_addr sz buf c =
     (if start_addr AND (page_size nand - 1) \<noteq> 0 then Some (- 1, c)
      else nand_write_loop bus nand sz start_addr sz 0 0 buf c)"

end
