(* ===== verification/NandChip.thy ===== *)
theory NandChip
  imports Nand
begin

text \<open>
  What the NAND driver achieves on a chip that follows its data sheet. The locale \<open>nand_chip\<close> states the
  three laws of the chip for the sequences of accesses that the driver makes: reading, programming and
  erasing. The chip \<open>k9\<close> is a register-level model of the K9F2G08 with worn blocks; the locale is
  interpreted on it and the properties are about it.
\<close>

section \<open>The chip of the board\<close>

definition k9_info :: boot_nand_t where
  "k9_info = \<lparr>page_size = 0x0800, spare_size = 64, block_size = 0x20000, block_num = 2048,
     bad_block_offset = 0x0800, nand_id = NAND_K9F2G08\<rparr>"

text \<open>The device has 2048 blocks of 64 pages; a page has 2112 bytes, its spare area included.\<close>

definition NPAGES :: nat where "NPAGES = 131072"

type_synonym cells = "nat \<Rightarrow> nat \<Rightarrow> u8"

text \<open>Programming can only clear bits; erasing sets all bits of a block. Both fail on a worn block, and
  then say nothing about the cells they were aimed at.\<close>

definition program_page :: "cells \<Rightarrow> nat \<Rightarrow> nat \<Rightarrow> u8 list \<Rightarrow> cells" where
  "program_page m page off xs =
     m(page := \<lambda>col. if off \<le> col \<and> col < off + length xs then m page col AND xs ! (col - off) else m page col)"

definition erase_block :: "cells \<Rightarrow> nat \<Rightarrow> cells" where
  "erase_block m b = (\<lambda>page col. if page div 64 = b then 0xff else m page col)"

text \<open>A block is bad when the first byte of the spare area of its first page is not all ones.\<close>

definition bad :: "cells \<Rightarrow> nat \<Rightarrow> bool" where
  "bad m b \<longleftrightarrow> m (64 * b) 2048 \<noteq> 0xff"

locale nand_chip =
  fixes bus :: "'c chip_bus" and idle :: "'c \<Rightarrow> bool" and cell :: "'c \<Rightarrow> cells" and worn :: "'c \<Rightarrow> nat \<Rightarrow> bool"
  assumes read_law:
    "idle c \<Longrightarrow> page < NPAGES \<Longrightarrow> off + n \<le> 2112 \<Longrightarrow>
     \<exists>c1 c'. bus_reads bus n (bus_ops bus (read_ops k9_info page off n) c) = (map (cell c page) [off..<off + n], c1) \<and>
       b_op bus Deselect c1 = c' \<and> b_op bus Deselect c' = c' \<and> idle c' \<and> cell c' = cell c \<and> worn c' = worn c"
    and program_law:
    "idle c \<Longrightarrow> page < NPAGES \<Longrightarrow> off + length xs \<le> 2112 \<Longrightarrow>
     \<exists>stat c1 c'. b_read bus (bus_ops bus (write_ops k9_info page off xs (length xs)) c) = (stat, c1) \<and>
       b_op bus Deselect c1 = c' \<and> idle c' \<and> worn c' = worn c \<and>
       (if worn c (page div 64) then stat AND 1 \<noteq> 0 \<and> (\<forall>q. q \<noteq> page \<longrightarrow> cell c' q = cell c q)
        else stat AND 1 = 0 \<and> cell c' = program_page (cell c) page off xs)"
    and erase_law:
    "idle c \<Longrightarrow> b < 2048 \<Longrightarrow>
     \<exists>stat c1. b_read bus (bus_ops bus (erase_ops b) c) = (stat, c1) \<and> idle c1 \<and> idle (b_op bus Deselect c1) \<and>
       cell (b_op bus Deselect c1) = cell c1 \<and> worn (b_op bus Deselect c1) = worn c \<and> worn c1 = worn c \<and>
       (if worn c b then stat AND 1 \<noteq> 0 \<and> (\<forall>q. q div 64 \<noteq> b \<longrightarrow> cell c1 q = cell c q)
        else stat AND 1 = 0 \<and> cell c1 = erase_block (cell c) b)"
    and deselect_law: "idle c \<Longrightarrow> idle (b_op bus Deselect c) \<and> cell (b_op bus Deselect c) = cell c \<and> worn (b_op bus Deselect c) = worn c"

section \<open>Arithmetic\<close>

lemma and_mask_nat: "(x :: nat) AND (2 ^ k - 1) = x mod 2 ^ k"
  by (metis mask_eq_exp_minus_1 take_bit_eq_mask take_bit_eq_mod)

lemma and_masks [simp]:
  "(x :: nat) AND 131071 = x mod 131072" "(x :: nat) AND 2047 = x mod 2048" "(x :: nat) AND 255 = x mod 256"
  using and_mask_nat [of x 17] and_mask_nat [of x 11] and_mask_nat [of x 8] by simp_all

lemma ffs_sizes [simp]: "generic_ffs 2048 = 12" "generic_ffs 131072 = 18"
  by (simp_all add: generic_ffs_def drop_bit_eq_div and_mask_nat [of _ 16, simplified] and_mask_nat [of _ 8, simplified]
      and_mask_nat [of _ 4, simplified] and_mask_nat [of _ 2, simplified] and_mask_nat [of _ 1, simplified])

lemma k9_sizes [simp]:
  "page_size k9_info = 2048" "spare_size k9_info = 64" "block_size k9_info = 131072" "block_num k9_info = 2048"
  "bad_block_offset k9_info = 2048"
  by (simp_all add: k9_info_def)

lemma and_high_mask:
  assumes "(x :: nat) < 2 ^ 32"
  shows "x AND push_bit 17 (mask 15) = push_bit 17 (drop_bit 17 x)"
proof (rule bit_eqI)
  fix n
  have "bit x n \<Longrightarrow> n < 32"
    using assms by (metis bit_take_bit_iff take_bit_nat_eq_self)
  then show "bit (x AND push_bit 17 (mask 15)) n = bit (push_bit 17 (drop_bit 17 x)) n"
    unfolding bit_and_iff bit_push_bit_iff bit_mask_iff bit_drop_bit_eq by auto
qed

lemma block_start_k9:
  assumes "addr < 2 ^ 32"
  shows "block_start_of k9_info addr = addr div 131072 * 131072"
proof -
  have m: "2 ^ 32 - 1 - (block_size k9_info - 1) = push_bit 17 (mask 15)"
    by (simp add: push_bit_eq_mult mask_eq_exp_minus_1)
  have "block_start_of k9_info addr = push_bit 17 (drop_bit 17 addr)"
    unfolding block_start_of_def m by (rule and_high_mask [OF assms])
  then show ?thesis by (simp add: push_bit_eq_mult drop_bit_eq_div)
qed

lemma w32_room:
  fixes room off :: nat
  assumes "off \<le> room" "room < 2 ^ 32"
  shows "w32 (room + 2 ^ 32 - off) = room - off"
proof -
  have "room + 2 ^ 32 - off = (room - off) + 2 ^ 32" by (rule diff_add_assoc2 [OF assms(1), symmetric, THEN sym])
  then have "w32 (room + 2 ^ 32 - off) = (room - off) mod 2 ^ 32" unfolding w32_def by (simp only: mod_add_self2)
  also have "\<dots> = room - off" using assms by (intro mod_less) (rule le_less_trans [of _ room], auto)
  finally show ?thesis .
qed

lemma bytes_of_k9:
  assumes "off + n \<le> 2112"
  shows "read_bytes_of k9_info off n = n" "write_bytes_of k9_info off n = n"
proof -
  have w: "w32 (page_size k9_info + spare_size k9_info + 2 ^ 32 - off) = 2112 - off"
    using w32_room [of off "page_size k9_info + spare_size k9_info"] assms by simp
  have "n \<le> 2112 - off" using assms by simp
  then show "read_bytes_of k9_info off n = n" "write_bytes_of k9_info off n = n"
    unfolding read_bytes_of_def write_bytes_of_def Let_def w by auto
qed

section \<open>The pages of a range\<close>

text \<open>The pages that reading and writing use from a page on: at the start of a block that is marked bad
  they go on with the next block.\<close>

function visit :: "cells \<Rightarrow> nat \<Rightarrow> nat list" where
  "visit m p =
     (if p < NPAGES
      then if p mod 64 = 0 \<and> bad m (p div 64) then visit m (p + 64) else p # visit m (p + 1)
      else [])"
  by pat_completeness auto
termination by (relation "measure (\<lambda>(m, p). NPAGES - p)") auto

declare visit.simps [simp del]

definition page_data :: "cells \<Rightarrow> nat \<Rightarrow> u8 list" where
  "page_data m p = map (m p) [0..<2048]"

lemma page_data_length [simp]: "length (page_data m p) = 2048"
  by (simp add: page_data_def)

lemma visit_past: "\<not> p < NPAGES \<Longrightarrow> visit m p = []"
  by (simp add: visit.simps)

lemma visit_bad: "p < NPAGES \<Longrightarrow> p mod 64 = 0 \<Longrightarrow> bad m (p div 64) \<Longrightarrow> visit m p = visit m (p + 64)"
  by (subst visit.simps) simp

lemma visit_good: "p < NPAGES \<Longrightarrow> \<not> (p mod 64 = 0 \<and> bad m (p div 64)) \<Longrightarrow> visit m p = p # visit m (p + 1)"
  by (subst visit.simps, subst if_P, assumption, subst if_not_P, assumption, rule refl)

lemma visit_range: "q \<in> set (visit m p) \<Longrightarrow> p \<le> q \<and> q < NPAGES"
proof (induction m p rule: visit.induct)
  case (1 m p)
  show ?case
  proof (cases "p < NPAGES")
    case False
    then show ?thesis using 1(3) by (simp add: visit_past)
  next
    case True
    then show ?thesis
      using 1 visit_bad [OF True, of m] visit_good [OF True, of m] by (cases "p mod 64 = 0 \<and> bad m (p div 64)") auto
  qed
qed

lemma visit_length: "length (visit m p) \<le> NPAGES - p"
proof (induction m p rule: visit.induct)
  case (1 m p)
  show ?case
  proof (cases "p < NPAGES")
    case True
    then show ?thesis
      using 1 visit_bad [OF True, of m] visit_good [OF True, of m] by (cases "p mod 64 = 0 \<and> bad m (p div 64)") auto
  qed (simp add: visit_past)
qed

text \<open>The last count of the loops, which the functions return.\<close>

definition last_count :: "nat \<Rightarrow> nat \<Rightarrow> nat" where
  "last_count left bytes = (if left = 0 then bytes else if left mod 2048 = 0 then 2048 else left mod 2048)"

lemma w32_small: "x < 2 ^ 32 \<Longrightarrow> w32 x = x"
  unfolding w32_def by (rule mod_less)

lemma page_address:
  assumes "p < NPAGES"
  shows "drop_bit 11 (2048 * p) = p" "2048 * p AND 2047 = 0" "(2048 * p) AND 131071 = 0 \<longleftrightarrow> p mod 64 = 0"
    "2048 * p < 2 ^ 32" "drop_bit 11 (2048 * p div 131072 * 131072) = 64 * (p div 64)"
proof -
  show "drop_bit 11 (2048 * p) = p" by (simp add: drop_bit_eq_div)
  show "2048 * p AND 2047 = 0" by simp
  have "(2048 * p) mod (2048 * 64) = 2048 * (p mod 64)" by (rule mult_mod_right [symmetric])
  then show "(2048 * p) AND 131071 = 0 \<longleftrightarrow> p mod 64 = 0" by simp
  have "p < 131072" using assms by (simp add: NPAGES_def)
  then show "2048 * p < 2 ^ 32" by simp
  have "2048 * p div (2048 * 64) = p div 64" by (simp only: div_mult_mult1_if) simp
  then show "drop_bit 11 (2048 * p div 131072 * 131072) = 64 * (p div 64)" by (simp add: drop_bit_eq_div)
qed

text \<open>Programming a range: the pages in order, each with its part of the data.\<close>

fun program_all :: "cells \<Rightarrow> nat list \<Rightarrow> u8 list \<Rightarrow> cells" where
  "program_all m [] xs = m"
| "program_all m (q # qs) xs = (if xs = [] then m else program_all (program_page m q 0 (take 2048 xs)) qs (drop 2048 xs))"

lemma program_one: "xs \<noteq> [] \<Longrightarrow> length xs \<le> 2048 \<Longrightarrow> program_all m (q # qs) xs = program_page m q 0 xs"
  by (cases qs) simp_all

definition npages :: "nat \<Rightarrow> nat" where
  "npages n = (n + 2047) div 2048"

lemma npages_steps: "2048 \<le> n \<Longrightarrow> npages n = Suc (npages (n - 2048))" "0 < n \<Longrightarrow> n < 2048 \<Longrightarrow> npages n = 1"
proof -
  assume "2048 \<le> n"
  then have e: "n + 2047 = 2048 + (n - 2048 + 2047)" by simp
  show "npages n = Suc (npages (n - 2048))"
    unfolding npages_def e using div_add_self1 [of 2048 "n - 2048 + 2047"] by simp
next
  assume "0 < n" "n < 2048"
  then have e: "n + 2047 = 2048 + (n - 1)" "n - 1 < 2048" by simp_all
  show "npages n = 1"
    unfolding npages_def e(1) using div_add_self1 [of 2048 "n - 1"] e(2) by simp
qed

lemma bad_program_page: "length xs \<le> 2048 \<Longrightarrow> bad (program_page m q 0 xs) b = bad m b"
  by (simp add: bad_def program_page_def)

lemma visit_cong: "(\<And>b. bad m' b = bad m b) \<Longrightarrow> visit m' p = visit m p"
proof (induction m p rule: visit.induct)
  case (1 m p)
  show ?case
  proof (cases "p < NPAGES")
    case True
    then show ?thesis
      using 1 visit_bad [OF True] visit_good [OF True] by (cases "p mod 64 = 0 \<and> bad m (p div 64)") auto
  qed (simp add: visit_past)
qed

lemma bad_program_all: "bad (program_all m qs xs) b = bad m b"
  by (induction m qs xs rule: program_all.induct) (simp_all add: bad_program_page)

lemma visit_distinct: "distinct (visit m p)"
proof (induction m p rule: visit.induct)
  case (1 m p)
  show ?case
  proof (cases "p < NPAGES")
    case p: True
    show ?thesis
    proof (cases "p mod 64 = 0 \<and> bad m (p div 64)")
      case True
      then show ?thesis using 1(1) [OF p True] visit_bad [OF p, of m] by simp
    next
      case False
      have "p \<notin> set (visit m (p + 1))" using visit_range [of p m "p + 1"] by auto
      then show ?thesis using 1(2) [OF p False] visit_good [OF p False] by simp
    qed
  qed (simp add: visit_past)
qed

lemma npages_bound: "npages n \<le> k \<Longrightarrow> n \<le> 2048 * k"
  unfolding npages_def by (simp add: less_Suc_eq_le [symmetric] div_less_iff_less_mult)

lemma program_all_other: "q \<notin> set qs \<Longrightarrow> program_all m qs xs q = m q"
  by (induction m qs xs rule: program_all.induct) (auto simp: program_page_def)

text \<open>On erased pages the data is what is then read.\<close>

lemma page_data_program:
  assumes "length xs \<le> 2048" "\<forall>col<2048. m q col = 0xff"
  shows "take (length xs) (page_data (program_page m q 0 xs) q) = xs"
proof (rule nth_equalityI)
  show "length (take (length xs) (page_data (program_page m q 0 xs) q)) = length xs" using assms(1) by simp
  fix i assume "i < length (take (length xs) (page_data (program_page m q 0 xs) q))"
  then have i: "i < length xs" by simp
  have "(0xff :: u8) = - 1" by simp
  then have "m q i = - 1" using assms i by simp
  then show "take (length xs) (page_data (program_page m q 0 xs) q) ! i = xs ! i"
    using i assms(1) by (simp add: page_data_def program_page_def)
qed

lemma program_all_read:
  "distinct qs \<Longrightarrow> length xs \<le> 2048 * length qs \<Longrightarrow>
   \<forall>q\<in>set (take (npages (length xs)) qs). \<forall>col<2048. m q col = 0xff \<Longrightarrow>
   take (length xs) (concat (map (page_data (program_all m qs xs)) qs)) = xs"
proof (induction qs arbitrary: m xs)
  case Nil
  then show ?case by simp
next
  case (Cons q qs)
  show ?case
  proof (cases "xs = []")
    case False
    define ys where "ys = take 2048 xs"
    define m1 where "m1 = program_page m q 0 ys"
    have np: "npages (length xs) = Suc (npages (length (drop 2048 xs)))"
      using npages_steps [of "length xs"] False by (cases "2048 \<le> length xs") (auto simp: npages_def)
    have erased: "\<forall>col<2048. m q col = 0xff" using Cons.prems(3) np by simp
    have pd: "page_data (program_all m1 qs (drop 2048 xs)) q = page_data m1 q"
      using program_all_other [of q qs m1 "drop 2048 xs"] Cons.prems(1) by (simp add: page_data_def)
    have first: "take (length ys) (page_data m1 q) = ys"
      unfolding m1_def using page_data_program [of ys m q] erased by (simp add: ys_def)
    have "\<forall>q'\<in>set (take (npages (length (drop 2048 xs))) qs). \<forall>col<2048. m1 q' col = 0xff"
      using Cons.prems(1,3) np by (auto simp: m1_def program_page_def dest: in_set_takeD)
    then have IH: "take (length (drop 2048 xs)) (concat (map (page_data (program_all m1 qs (drop 2048 xs))) qs)) = drop 2048 xs"
      using Cons.IH [of "drop 2048 xs" m1] Cons.prems(1,2) by simp
    have eq: "concat (map (page_data (program_all m (q # qs) xs)) (q # qs)) =
        page_data m1 q @ concat (map (page_data (program_all m1 qs (drop 2048 xs))) qs)"
      using False pd by (simp add: m1_def ys_def)
    show ?thesis
    proof (cases "length xs \<le> 2048")
      case True
      then show ?thesis unfolding eq using first by (simp add: ys_def)
    next
      case False
      then have "length ys = 2048" by (simp add: ys_def)
      then have "page_data m1 q = ys" using first by simp
      then show ?thesis unfolding eq using IH False by (simp add: ys_def)
    qed
  qed simp
qed

section \<open>The driver on such a chip\<close>

context nand_chip
begin

lemma read_page:
  assumes "idle c" "page < NPAGES" "off + n \<le> 2112"
  shows "\<exists>c'. nand_read_page bus k9_info page off n c = (map (cell c page) [off..<off + n], c') \<and>
    b_op bus Deselect c' = c' \<and> idle c' \<and> cell c' = cell c \<and> worn c' = worn c"
  using read_law [OF assms] bytes_of_k9(1) [OF assms(3)] by (auto simp: nand_read_page_def)

lemma write_page:
  assumes "idle c" "page < NPAGES" "off + n \<le> 2112" "n \<le> length data"
  shows "\<exists>ret c'. nand_write_page bus k9_info page off data n c = Some (ret, c') \<and> idle c' \<and> worn c' = worn c \<and>
    (if worn c (page div 64) then ret = - 1 \<and> (\<forall>q. q \<noteq> page \<longrightarrow> cell c' q = cell c q)
     else ret = int n \<and> cell c' = program_page (cell c) page off (take n data))"
  using program_law [OF assms(1,2), of off "take n data"] bytes_of_k9(2) [OF assms(3)] assms(3,4)
  by (cases "worn c (page div 64)") (auto simp: nand_write_page_def)

lemma is_bad:
  assumes "idle c" "p < NPAGES"
  shows "\<exists>c'. is_bad_block bus k9_info (2048 * p) c = Some (bad (cell c) (p div 64), c') \<and>
    idle c' \<and> cell c' = cell c \<and> worn c' = worn c"
proof -
  have "64 * (p div 64) < NPAGES" using assms(2) by (metis le_less_trans times_div_less_eq_dividend)
  then obtain c' where "nand_read_page bus k9_info (64 * (p div 64)) 2048 1 c = ([cell c (64 * (p div 64)) 2048], c')"
    "b_op bus Deselect c' = c'" "idle c'" "cell c' = cell c" "worn c' = worn c"
    using read_page [OF assms(1), of "64 * (p div 64)" 2048 1] by auto
  then show ?thesis
    using page_address [OF assms(2)] by (simp add: is_bad_block_def block_start_k9 bad_def)
qed

text \<open>The check at the start of a block, as the loops make it.\<close>

lemma block_check:
  assumes "idle c" "p < NPAGES"
  shows "\<exists>c'. (if 2048 * p AND (block_size k9_info - 1) = 0 then is_bad_block bus k9_info (2048 * p) c else Some (False, c)) =
      Some (p mod 64 = 0 \<and> bad (cell c) (p div 64), c') \<and> idle c' \<and> cell c' = cell c \<and> worn c' = worn c"
  using is_bad [OF assms] page_address(3) [OF assms(2)] assms(1) by auto

lemma read_loop_done: "nand_read_loop bus nand full addr 0 bytes pos buf c = Some (int bytes, buf, c)"
  by (subst nand_read_loop.simps) simp

text \<open>Reading a range: the main areas of the visited pages, one after the other.\<close>

lemma read_loop:
  "idle c \<Longrightarrow> m = cell c \<Longrightarrow> left \<le> 2048 * length (visit m p) \<Longrightarrow> left mod 2048 = full mod 2048 \<Longrightarrow>
   pos + left \<le> length buf \<Longrightarrow> p \<le> NPAGES \<Longrightarrow>
   \<exists>c'. nand_read_loop bus k9_info full (2048 * p) left bytes pos buf c =
       Some (int (last_count left bytes),
         take pos buf @ take left (concat (map (page_data m) (visit m p))) @ drop (pos + left) buf, c') \<and>
     idle c' \<and> cell c' = cell c \<and> worn c' = worn c"
proof (induction m p arbitrary: c left bytes pos buf rule: visit.induct)
  case (1 m p)
  show ?case
  proof (cases "left = 0")
    case True
    then show ?thesis using 1(3) by (subst nand_read_loop.simps) (auto simp: last_count_def)
  next
    case left: False
    then have p: "p < NPAGES" using 1(5) visit_past [of p m] by fastforce
    obtain c1 where c1: "(if 2048 * p AND (block_size k9_info - 1) = 0 then is_bad_block bus k9_info (2048 * p) c else Some (False, c)) =
        Some (p mod 64 = 0 \<and> bad m (p div 64), c1)" "idle c1" "cell c1 = m" "worn c1 = worn c"
      using block_check [OF 1(3) p] 1(4) by metis
    show ?thesis
    proof (cases "p mod 64 = 0 \<and> bad m (p div 64)")
      case True
      have v: "visit m p = visit m (p + 64)" using visit_bad [OF p, of m] True by simp
      have p64: "p + 64 \<le> NPAGES"
        using visit_past [of "p + 64" m] left 1(5) v by (cases "p + 64 < NPAGES") auto
      then have a: "w32 (2048 * p + block_size k9_info) = 2048 * (p + 64)"
        by (subst w32_small) (simp_all add: NPAGES_def)
      have step: "nand_read_loop bus k9_info full (2048 * p) left bytes pos buf c =
          nand_read_loop bus k9_info full (2048 * (p + 64)) left bytes pos buf c1"
        using left c1(1) True a by (subst nand_read_loop.simps) simp
      show ?thesis
        unfolding step v using 1(1) [OF p True c1(2), of left pos buf bytes] 1(5-7) c1(3,4) 1(4) v p64 by simp
    next
      case False
      have v: "visit m p = p # visit m (p + 1)" by (rule visit_good [OF p False])
      define n where "n = (if 2048 \<le> left then 2048 else left)"
      have n: "n \<le> left" "n \<le> 2048" "0 < n" using left by (auto simp: n_def)
      have sz: "(if left \<ge> page_size k9_info then page_size k9_info else full mod page_size k9_info) = n"
        using 1(6) by (auto simp: n_def)
      obtain c2 where c2: "nand_read_page bus k9_info p 0 n c1 = (map (m p) [0..<n], c2)"
        "idle c2" "cell c2 = m" "worn c2 = worn c"
        using read_page [OF c1(2) p, of 0 n] n(2) c1(3,4) by auto
      have xs: "map (m p) [0..<n] = take n (page_data m p)" using n(2) by (simp add: page_data_def take_map)
      define buf' where "buf' = take pos buf @ take n (page_data m p) @ drop (pos + n) buf"
      have w: "wr_slice buf pos (map (m p) [0..<n]) = Some buf'"
        using 1(7) n by (simp add: xs buf'_def)
      have l32: "left < 2 ^ 32"
      proof -
        have "left \<le> 2048 * 131072" using 1(5) visit_length [of m p] by (simp add: NPAGES_def)
        then show ?thesis by simp
      qed
      have left': "w32 (left + 2 ^ 32 - n) = left - n" by (rule w32_room [OF n(1) l32])
      have addr: "w32 (2048 * p + n) = 2048 * p + n"
        by (rule w32_small) (use p n(2) in \<open>simp add: NPAGES_def\<close>)
      have step: "nand_read_loop bus k9_info full (2048 * p) left bytes pos buf c =
          nand_read_loop bus k9_info full (2048 * p + n) (left - n) n (pos + n) buf' c2"
        using left c1(1) False page_address(1,2) [OF p] c2(1) w left' addr sz n(2)
        by (subst nand_read_loop.simps) (simp add: Let_def)
      show ?thesis
      proof (cases "2048 \<le> left")
        case False
        then have "left = n" by (simp add: n_def)
        then have "take left (concat (map (page_data m) (visit m p))) = take n (page_data m p)" "left mod 2048 = n"
          using n False v by simp_all
        then show ?thesis
          unfolding step using c2 \<open>left = n\<close> n 1(4)
          by (simp add: read_loop_done last_count_def buf'_def)
      next
        case True
        then have n2: "n = 2048" by (simp add: n_def)
        have b: "length buf' = length buf" using 1(7) n by (simp add: buf'_def)
        have h1: "left - 2048 \<le> 2048 * length (visit m (p + 1))" using 1(5) v by simp
        have h2: "(left - 2048) mod 2048 = full mod 2048" using 1(6) True by (metis le_mod_geq)
        have h3: "pos + 2048 + (left - 2048) \<le> length buf'" using 1(7) b True by simp
        have h4: "p + 1 \<le> NPAGES" using p by simp
        obtain c' where c': "nand_read_loop bus k9_info full (2048 * (p + 1)) (left - 2048) 2048 (pos + 2048) buf' c2 =
            Some (int (last_count (left - 2048) 2048),
              take (pos + 2048) buf' @ take (left - 2048) (concat (map (page_data m) (visit m (p + 1)))) @
              drop (pos + 2048 + (left - 2048)) buf', c')"
          "idle c'" "cell c' = cell c2" "worn c' = worn c2"
          using 1(2) [OF p False c2(2) c2(3) [symmetric] h1 h2 h3 h4] by blast
        have "last_count (left - 2048) 2048 = last_count left bytes"
          using True left by (auto simp: last_count_def le_mod_geq)
        moreover have "take (pos + 2048) buf' = take pos buf @ page_data m p" using 1(7) True by (simp add: buf'_def n2)
        moreover have "drop (pos + 2048 + (left - 2048)) buf' = drop (pos + left) buf" using 1(7) True by (simp add: buf'_def n2 add.commute)
        moreover have "take left (concat (map (page_data m) (visit m p))) =
            page_data m p @ take (left - 2048) (concat (map (page_data m) (visit m (p + 1))))" using True v by simp
        moreover have "2048 * p + 2048 = 2048 * (p + 1)" by simp
        note step' = step [unfolded n2 this]
        ultimately show ?thesis unfolding step' using c' c2(3,4) 1(4) by simp
      qed
    qed
  qed
qed

text \<open>Writing a range to blocks that are not worn.\<close>

lemma write_loop_done: "nand_write_loop bus nand full addr 0 bytes pos data c = Some (bytes, c)"
  by (subst nand_write_loop.simps) simp

lemma write_loop:
  "idle c \<Longrightarrow> (\<And>b. bad (cell c) b = bad m b) \<Longrightarrow> left \<le> 2048 * length (visit m p) \<Longrightarrow> left mod 2048 = full mod 2048 \<Longrightarrow>
   pos + left \<le> length data \<Longrightarrow> p \<le> NPAGES \<Longrightarrow>
   \<forall>q\<in>set (take (npages left) (visit m p)). \<not> worn c (q div 64) \<Longrightarrow>
   \<exists>c'. nand_write_loop bus k9_info full (2048 * p) left (int bytes) (int pos) data c =
       Some (int (last_count left bytes), c') \<and>
     idle c' \<and> cell c' = program_all (cell c) (visit m p) (take left (drop pos data)) \<and> worn c' = worn c"
proof (induction m p arbitrary: c left bytes pos rule: visit.induct)
  case (1 m p)
  show ?case
  proof (cases "left = 0")
    case True
    then show ?thesis using 1(3) by (subst nand_write_loop.simps) (cases "visit m p"; auto simp: last_count_def)
  next
    case left: False
    then have p: "p < NPAGES" using 1(5) visit_past [of p m] by fastforce
    obtain c1 where c1: "(if 2048 * p AND (block_size k9_info - 1) = 0 then is_bad_block bus k9_info (2048 * p) c else Some (False, c)) =
        Some (p mod 64 = 0 \<and> bad m (p div 64), c1)" "idle c1" "cell c1 = cell c" "worn c1 = worn c"
      using block_check [OF 1(3) p] unfolding 1(4) by blast
    show ?thesis
    proof (cases "p mod 64 = 0 \<and> bad m (p div 64)")
      case True
      have v: "visit m p = visit m (p + 64)" using visit_bad [OF p, of m] True by simp
      have p64: "p + 64 \<le> NPAGES"
        using visit_past [of "p + 64" m] left 1(5) v by (cases "p + 64 < NPAGES") auto
      then have a: "w32 (2048 * p + block_size k9_info) = 2048 * (p + 64)"
        by (subst w32_small) (simp_all add: NPAGES_def)
      have step: "nand_write_loop bus k9_info full (2048 * p) left (int bytes) (int pos) data c =
          nand_write_loop bus k9_info full (2048 * (p + 64)) left (int bytes) (int pos) data c1"
        using left c1(1) True a by (subst nand_write_loop.simps) simp
      show ?thesis
        unfolding step v using 1(1) [OF p True c1(2), of left pos bytes] 1(4-9) c1(3,4) v p64 by simp
    next
      case False
      have v: "visit m p = p # visit m (p + 1)" by (rule visit_good [OF p False])
      define n where "n = (if 2048 \<le> left then 2048 else left)"
      have n: "n \<le> left" "n \<le> 2048" "0 < n" using left by (auto simp: n_def)
      have sz: "(if left \<ge> page_size k9_info then page_size k9_info else full mod page_size k9_info) = n"
        using 1(6) by (auto simp: n_def)
      have "0 < npages left" using n(3) left npages_steps [of left] by (cases "2048 \<le> left") auto
      then have good: "\<not> worn c1 (p div 64)" using 1(9) v c1(4) by (cases "npages left") auto
      have room: "n \<le> length (drop pos data)" using 1(7) n(1) by simp
      obtain c2 where c2: "nand_write_page bus k9_info p 0 (drop pos data) n c1 = Some (int n, c2)"
        "idle c2" "cell c2 = program_page (cell c) p 0 (take n (drop pos data))" "worn c2 = worn c"
        using write_page [OF c1(2) p _ room, of 0] n(2) good c1(3,4) by auto
      have l32: "left < 2 ^ 32"
      proof -
        have "left \<le> 2048 * 131072" using 1(5) visit_length [of m p] by (simp add: NPAGES_def)
        then show ?thesis by simp
      qed
      have left': "nat ((int left - int n) mod 2 ^ 32) = left - n"
        using n(1) l32 by (simp add: mod_pos_pos_trivial nat_diff_distrib)
      have addr: "nat ((int (2048 * p) + int n) mod 2 ^ 32) = 2048 * p + n"
      proof -
        have "2048 * p + n < 2 ^ 32" using p n(2) by (simp add: NPAGES_def)
        then show ?thesis by (simp add: nat_mod_distrib nat_add_distrib)
      qed
      have step: "nand_write_loop bus k9_info full (2048 * p) left (int bytes) (int pos) data c =
          nand_write_loop bus k9_info full (2048 * p + n) (left - n) (int n) (int (pos + n)) data c2"
        using left c1(1) False page_address(1,2) [OF p] c2(1) left' addr sz n(2)
        by (subst nand_write_loop.simps) (simp add: Let_def nat_add_distrib nat_mult_distrib)
      show ?thesis
      proof (cases "2048 \<le> left")
        case False
        then have "left = n" by (simp add: n_def)
        then show ?thesis
          unfolding step v using c2(2-4) n False program_one [of "take left (drop pos data)" "cell c" p "visit m (p + 1)"] 1(7)
          by (simp add: write_loop_done last_count_def)
      next
        case True
        then have n2: "n = 2048" by (simp add: n_def)
        have h0: "\<And>b. bad (cell c2) b = bad m b" using c2(3) 1(4) n(2) by (simp add: bad_program_page)
        have h1: "left - 2048 \<le> 2048 * length (visit m (p + 1))" using 1(5) v by simp
        have h2: "(left - 2048) mod 2048 = full mod 2048" using 1(6) True by (metis le_mod_geq)
        have h3: "pos + 2048 + (left - 2048) \<le> length data" using 1(7) True by simp
        have h4: "p + 1 \<le> NPAGES" using p by simp
        have h5: "\<forall>q\<in>set (take (npages (left - 2048)) (visit m (p + 1))). \<not> worn c2 (q div 64)"
          using 1(9) v npages_steps(1) [OF True] c2(4) by simp
        obtain c' where c': "nand_write_loop bus k9_info full (2048 * (p + 1)) (left - 2048) (int 2048) (int (pos + 2048)) data c2 =
            Some (int (last_count (left - 2048) 2048), c')"
          "idle c'" "cell c' = program_all (cell c2) (visit m (p + 1)) (take (left - 2048) (drop (pos + 2048) data))" "worn c' = worn c2"
          using 1(2) [OF p False c2(2) h0 h1 h2 h3 h4 h5] by blast
        have "last_count (left - 2048) 2048 = last_count left bytes"
          using True left by (auto simp: last_count_def le_mod_geq)
        moreover have "program_all (cell c) (visit m p) (take left (drop pos data)) =
            program_all (cell c2) (visit m (p + 1)) (take (left - 2048) (drop (pos + 2048) data))"
          using v c2(3) n2 True 1(7) left by (simp add: drop_take add.commute)
        moreover have "2048 * p + 2048 = 2048 * (p + 1)" by simp
        note step' = step [unfolded n2 this]
        ultimately show ?thesis unfolding step' using c' c2(4) by simp
      qed
    qed
  qed
qed

text \<open>Writing a range and reading it back.\<close>

lemma write_read:
  assumes "idle c" "p \<le> NPAGES" "n \<le> length data" "n \<le> length buf" "npages n \<le> length (visit (cell c) p)"
    "\<forall>q\<in>set (take (npages n) (visit (cell c) p)). \<not> worn c (q div 64) \<and> (\<forall>col<2048. cell c q col = 0xff)"
  shows "\<exists>c' c''. nand_write bus k9_info (2048 * p) n data c = Some (int (last_count n 0), c') \<and>
    nand_read bus k9_info (2048 * p) n buf c' = Some (int (last_count n 0), take n data @ drop n buf, c'')"
proof -
  let ?v = "visit (cell c) p"
  have al: "2048 * p AND (page_size k9_info - 1) = 0" by simp
  have le: "n \<le> 2048 * length ?v" using npages_bound [OF assms(5)] .
  obtain c' where w: "nand_write_loop bus k9_info n (2048 * p) n (int 0) (int 0) data c = Some (int (last_count n 0), c')"
    "idle c'" "cell c' = program_all (cell c) ?v (take n (drop 0 data))"
    using write_loop [OF assms(1) refl le refl, of 0 data 0] assms(2,3,6) by auto
  have v: "visit (cell c') p = ?v"
    by (rule visit_cong) (simp add: w(3) bad_program_all)
  obtain c'' where r: "nand_read_loop bus k9_info n (2048 * p) n 0 0 buf c' =
      Some (int (last_count n 0), take 0 buf @ take n (concat (map (page_data (cell c')) ?v)) @ drop (0 + n) buf, c'')"
    using read_loop [OF w(2) refl, of n p n 0 buf 0] assms(2,4) le v by auto
  have "take (length (take n data)) (concat (map (page_data (program_all (cell c) ?v (take n data))) ?v)) = take n data"
    by (rule program_all_read) (use assms(3,6) le in \<open>auto simp: visit_distinct min_absorb2\<close>)
  then have "take n (concat (map (page_data (cell c')) ?v)) = take n data" using assms(3) w(3) by (simp add: min_absorb2)
  then show ?thesis using w(1) r al by (simp add: nand_write_def nand_read_def)
qed

text \<open>Erasing one block.\<close>

lemma erase_one:
  assumes "idle c" "b < 2048"
  shows "\<exists>c'. nand_erase_block bus k9_info b c = Some (if worn c b then - 1 else 0, c') \<and> idle c' \<and> worn c' = worn c \<and>
    (if worn c b then \<forall>q. q div 64 \<noteq> b \<longrightarrow> cell c' q = cell c q else cell c' = erase_block (cell c) b)"
proof -
  obtain stat c1 where e: "b_read bus (bus_ops bus (erase_ops b) c) = (stat, c1)" "idle c1" "worn c1 = worn c"
    "idle (b_op bus Deselect c1)" "cell (b_op bus Deselect c1) = cell c1" "worn (b_op bus Deselect c1) = worn c"
    "if worn c b then stat AND 1 \<noteq> 0 \<and> (\<forall>q. q div 64 \<noteq> b \<longrightarrow> cell c1 q = cell c q)
     else stat AND 1 = 0 \<and> cell c1 = erase_block (cell c) b"
    using erase_law [OF assms] by auto
  have start: "w32 (push_bit 17 b) = 131072 * b"
    using assms(2) by (subst w32_small) (simp_all add: push_bit_eq_mult)
  show ?thesis
  proof (cases "worn c b")
    case False
    then show ?thesis using e by (simp add: nand_erase_block_def Let_def)
  next
    case True
    have pg: "drop_bit 11 (block_start_of k9_info (131072 * b)) = 64 * b"
      using assms(2) by (subst block_start_k9) (simp_all add: drop_bit_eq_div)
    have "64 * b < NPAGES" using assms(2) by (simp add: NPAGES_def)
    then obtain ret c2 where w: "nand_write_page bus k9_info (64 * b) 2048 [0xEE] 1 c1 = Some (ret, c2)" "idle c2" "worn c2 = worn c"
      "\<forall>q. q \<noteq> 64 * b \<longrightarrow> cell c2 q = cell c1 q"
      using write_page [OF e(2), of "64 * b" 2048 1 "[0xEE]"] True e(3) by auto
    have "mark_bad_block bus k9_info (131072 * b) c1 = Some (if ret < 0 then ret else 0, c2)"
      unfolding mark_bad_block_def Let_def ffs_sizes k9_sizes using w(1) pg by simp
    then have "nand_erase_block bus k9_info b c = Some (- 1, b_op bus Deselect c2)"
      using True e(1,7) start by (simp add: nand_erase_block_def Let_def)
    moreover have "\<forall>q. q div 64 \<noteq> b \<longrightarrow> cell c2 q = cell c q"
    proof (intro allI impI)
      fix q assume "q div 64 \<noteq> b"
      then show "cell c2 q = cell c q" using w(4) e(7) True by (metis nonzero_mult_div_cancel_left zero_neq_numeral)
    qed
    ultimately show ?thesis using True deselect_law [OF w(2)] w(3) by simp
  qed
qed

end

text \<open>Erasing a range, skipping the blocks that fail: that many good blocks from the start on are erased.\<close>

definition good_blocks :: "(nat \<Rightarrow> bool) \<Rightarrow> nat \<Rightarrow> nat list" where
  "good_blocks w b = [x \<leftarrow> [b..<2048]. \<not> w x]"

lemma good_blocks_step:
  "b < 2048 \<Longrightarrow> good_blocks w b = (if w b then good_blocks w (b + 1) else b # good_blocks w (b + 1))"
  by (simp add: good_blocks_def upt_conv_Cons)

lemma good_blocks_length: "length (good_blocks w b) \<le> 2048 - b"
  unfolding good_blocks_def using length_filter_le [of "\<lambda>x. \<not> w x" "[b..<2048]"] by simp

lemma good_blocks_range: "x \<in> set (good_blocks w b) \<Longrightarrow> b \<le> x \<and> x < 2048 \<and> \<not> w x"
  by (auto simp: good_blocks_def)

lemma shift_17 [simp]: "drop_bit 17 (131072 * b) = (b :: nat)"
  by (simp add: drop_bit_eq_div)

context nand_chip
begin

lemma erase_skip:
  "idle c \<Longrightarrow> k \<le> length (good_blocks (worn c) b) \<Longrightarrow> b \<le> 2048 \<Longrightarrow> start + sz = 131072 * (b + k) \<Longrightarrow>
   \<exists>c'. nand_erase_loop bus k9_info start True (131072 * b) sz 0 c = Some (0, c') \<and> idle c' \<and> worn c' = worn c \<and>
     (\<forall>q. q div 64 \<in> set (take k (good_blocks (worn c) b)) \<longrightarrow> cell c' q = (\<lambda>_. 0xff)) \<and>
     (\<forall>q. q div 64 \<notin> set (take k (good_blocks (worn c) b)) \<longrightarrow> \<not> worn c (q div 64) \<longrightarrow> cell c' q = cell c q)"
proof (induction "2048 - b" arbitrary: c k b sz)
  case 0
  then have k: "k = 0" using good_blocks_length [of "worn c" b] by simp
  have "start + sz = 131072 * 2048" using 0 k by simp
  then show ?case using 0 k by (subst nand_erase_loop.simps) (simp add: w32_def)
next
  case (Suc d)
  have b: "b < 2048" using Suc.hyps(2) by simp
  have w: "w32 (start + sz) = 131072 * (b + k)"
    using Suc.prems(2,4) good_blocks_length [of "worn c" b] b by (subst w32_small) simp_all
  show ?case
  proof (cases "k = 0")
    case True
    then show ?thesis using w Suc.prems(1) by (subst nand_erase_loop.simps) simp
  next
    case k: False
    obtain c1 where c1: "nand_erase_block bus k9_info b c = Some (if worn c b then - 1 else 0, c1)" "idle c1" "worn c1 = worn c"
      "if worn c b then \<forall>q. q div 64 \<noteq> b \<longrightarrow> cell c1 q = cell c q else cell c1 = erase_block (cell c) b"
      using erase_one [OF Suc.prems(1) b] by blast
    have next_addr: "w32 (131072 * b + block_size k9_info) = 131072 * (b + 1)"
      using b by (subst w32_small) simp_all
    have d: "d = 2048 - (b + 1)" using Suc.hyps(2) by simp
    show ?thesis
    proof (cases "worn c b")
      case True
      have g: "good_blocks (worn c) b = good_blocks (worn c1) (b + 1)" using True good_blocks_step [OF b, of "worn c"] c1(3) by simp
      have "k \<le> 2048 - (b + 1)" using Suc.prems(2) g good_blocks_length [of "worn c1" "b + 1"] by simp
      then have sum: "start + (sz + 131072) = 131072 * (b + 1 + k)" "b + 1 + k \<le> 2048"
        using Suc.prems(4) b by simp_all
      then have sz: "w32 (sz + block_size k9_info) = sz + 131072" by (subst w32_small) simp_all
      have "nand_erase_loop bus k9_info start True (131072 * b) sz 0 c =
          nand_erase_loop bus k9_info start True (131072 * (b + 1)) (sz + 131072) 0 c1"
        using c1(1) True k w sz next_addr by (subst nand_erase_loop.simps) simp
      moreover have "\<forall>q. q div 64 \<notin> set (take k (good_blocks (worn c) b)) \<longrightarrow> \<not> worn c (q div 64) \<longrightarrow> cell c1 q = cell c q"
        using c1(4) True by auto
      moreover have "k \<le> length (good_blocks (worn c1) (b + 1))" "b + 1 \<le> 2048" using Suc.prems(2) g b by simp_all
      ultimately show ?thesis
        using Suc.hyps(1) [OF d c1(2) _ _ sum(1)] c1(3) g by auto
    next
      case False
      have g: "good_blocks (worn c) b = b # good_blocks (worn c1) (b + 1)" using False good_blocks_step [OF b, of "worn c"] c1(3) by simp
      obtain k' where k': "k = Suc k'" using k by (cases k) auto
      have sum: "start + sz = 131072 * (b + 1 + k')" using Suc.prems(4) k' by simp
      have step: "nand_erase_loop bus k9_info start True (131072 * b) sz 0 c =
          nand_erase_loop bus k9_info start True (131072 * (b + 1)) sz 0 c1"
        using c1(1) False k w next_addr by (subst nand_erase_loop.simps) simp
      have "k' \<le> length (good_blocks (worn c1) (b + 1))" "b + 1 \<le> 2048" using Suc.prems(2) g b k' by simp_all
      then obtain c' where c': "nand_erase_loop bus k9_info start True (131072 * (b + 1)) sz 0 c1 = Some (0, c')"
        "idle c'" "worn c' = worn c1"
        "\<forall>q. q div 64 \<in> set (take k' (good_blocks (worn c1) (b + 1))) \<longrightarrow> cell c' q = (\<lambda>_. 0xff)"
        "\<forall>q. q div 64 \<notin> set (take k' (good_blocks (worn c1) (b + 1))) \<longrightarrow> \<not> worn c1 (q div 64) \<longrightarrow> cell c' q = cell c1 q"
        using Suc.hyps(1) [OF d c1(2) _ _ sum] by blast
      have e: "cell c1 q = (if q div 64 = b then (\<lambda>_. 0xff) else cell c q)" for q
        using c1(4) False by (simp add: erase_block_def)
      have out: "b \<notin> set (take k' (good_blocks (worn c1) (b + 1)))"
        using good_blocks_range [of b "worn c1" "b + 1"] by (auto dest: in_set_takeD)
      have "cell c' q = (\<lambda>_. 0xff)" if "q div 64 \<in> set (take k (good_blocks (worn c) b))" for q
        using that c'(4,5) e [of q] out False c1(3) by (cases "q div 64 = b") (auto simp: g k')
      moreover have "cell c' q = cell c q" if "q div 64 \<notin> set (take k (good_blocks (worn c) b))" "\<not> worn c (q div 64)" for q
        using that c'(5) e [of q] c1(3) by (simp add: g k')
      ultimately show ?thesis using step c'(1-3) c1(3) by auto
    qed
  qed
qed

text \<open>Without skipping, the loop stays on a worn block.\<close>

lemma erase_at_worn:
  assumes "idle c" "worn c b" "b < 2048" "131072 * b < w32 (start + sz)"
  shows "nand_erase_loop bus k9_info start False (131072 * b) sz failed c = None"
proof -
  have "(idle c \<and> worn c b \<and> b < 2048 \<and> 131072 * b < w32 (start + sz)) \<Longrightarrow> False"
    if ret: "nand_erase_loop bus k9_info start False (131072 * b) sz failed c = Some r" for r
  proof -
    let ?P = "\<lambda>(bs :: 'c chip_bus) nand st skip addr z (fl :: int) c' (r' :: int \<times> 'c). \<not> (bs = bus \<and> nand = k9_info \<and> st = start \<and> skip = False \<and>
      addr = 131072 * b \<and> z = sz \<and> idle c' \<and> worn c' b)"
    have "?P bus k9_info start False (131072 * b) sz failed c r"
    proof (rule nand_erase_loop.raw_induct [where P = ?P, OF _ ret])
      fix f bs nand st skip addr z fl c' r'
      assume IH: "\<And>bs nand st skip addr z fl c' r'. f bs nand st skip addr z fl c' = Some r' \<Longrightarrow> ?P bs nand st skip addr z fl c' r'"
        and eq: "(if addr < w32 (st + z)
          then (case nand_erase_block bs nand (drop_bit (generic_ffs (block_size nand) - 1) addr) c' of
              None \<Rightarrow> None
            | Some (ret, c) \<Rightarrow>
                if ret < 0
                then if skip
                     then f bs nand st skip (w32 (addr + block_size nand)) (w32 (z + block_size nand)) fl c
                     else f bs nand st skip addr z (fl + 1) c
                else f bs nand st skip (w32 (addr + block_size nand)) z fl c)
          else Some (if \<not> skip \<and> fl \<noteq> 0 then fl else 0, c')) = Some r'"
      show "?P bs nand st skip addr z fl c' r'"
      proof
        assume a: "bs = bus \<and> nand = k9_info \<and> st = start \<and> skip = False \<and> addr = 131072 * b \<and> z = sz \<and> idle c' \<and> worn c' b"
        then obtain c2 where "nand_erase_block bus k9_info b c' = Some (- 1, c2)" "idle c2" "worn c2 = worn c'"
          using erase_one [of c' b] assms(3) by auto
        then show False using eq a IH [of bus k9_info start False "131072 * b" sz "fl + 1" c2 r'] assms(4) by simp
      qed
    qed
    then show "(idle c \<and> worn c b \<and> b < 2048 \<and> 131072 * b < w32 (start + sz)) \<Longrightarrow> False" by simp
  qed
  then show ?thesis using assms by (cases "nand_erase_loop bus k9_info start False (131072 * b) sz failed c") auto
qed

lemma erase_no_skip:
  "idle c \<Longrightarrow> b + k \<le> 2048 \<Longrightarrow> start + sz = 131072 * (b + k) \<Longrightarrow>
   if \<exists>x\<in>{b..<b + k}. worn c x then nand_erase_loop bus k9_info start False (131072 * b) sz 0 c = None
   else \<exists>c'. nand_erase_loop bus k9_info start False (131072 * b) sz 0 c = Some (0, c') \<and>
     cell c' = (\<lambda>q. if q div 64 \<in> {b..<b + k} then (\<lambda>_. 0xff) else cell c q)"
proof (induction k arbitrary: b c)
  case 0
  then have "w32 (start + sz) = 131072 * b" by (subst w32_small) simp_all
  then show ?case by (subst nand_erase_loop.simps) simp
next
  case (Suc k)
  have w: "w32 (start + sz) = 131072 * (b + Suc k)" using Suc.prems(2,3) by (subst w32_small) simp_all
  have b: "b < 2048" using Suc.prems(2) by simp
  have next_addr: "w32 (131072 * b + block_size k9_info) = 131072 * (b + 1)" using b by (subst w32_small) simp_all
  have range: "{b..<b + Suc k} = insert b {b + 1..<b + 1 + k}" by auto
  show ?case
  proof (cases "worn c b")
    case True
    then show ?thesis using erase_at_worn [OF Suc.prems(1) True b] w range by simp
  next
    case False
    then obtain c1 where c1: "nand_erase_block bus k9_info b c = Some (0, c1)" "idle c1" "worn c1 = worn c"
      "cell c1 = erase_block (cell c) b"
      using erase_one [OF Suc.prems(1) b] by auto
    have step: "nand_erase_loop bus k9_info start False (131072 * b) sz 0 c =
        nand_erase_loop bus k9_info start False (131072 * (b + 1)) sz 0 c1"
      using c1(1) w next_addr by (subst nand_erase_loop.simps) simp
    have cells: "(\<lambda>q. if q div 64 \<in> {b + 1..<b + 1 + k} then (\<lambda>_. 0xff) else cell c1 q) =
        (\<lambda>q. if q div 64 \<in> {b..<b + Suc k} then (\<lambda>_. 0xff) else cell c q)"
      unfolding range c1(4) by (auto simp: erase_block_def fun_eq_iff)
    have p: "b + 1 + k \<le> 2048" "start + sz = 131072 * (b + 1 + k)" using Suc.prems(2,3) by simp_all
    have "(\<exists>x\<in>{b..<b + Suc k}. worn c x) \<longleftrightarrow> (\<exists>x\<in>{b + 1..<b + 1 + k}. worn c x)" using False range by simp
    then show ?thesis unfolding step using Suc.IH [OF c1(2) p, unfolded cells c1(3)] by (simp only:)
  qed
qed

end

end
