(* ===== verification/K9f2g08.thy ===== *)
theory K9f2g08
  imports NandChip
begin

text \<open>
  A register-level model of the chip on the board, from the command table of its data sheet as the driver uses it:
  command and address latches, the page register, the busy state after a read, program or erase, and
  blocks that are worn. The driver's laws (\<open>nand_chip\<close>) are proved of it, and the properties of the driver
  are stated on it.
\<close>

section \<open>The chip\<close>

record k9 =
  k_cells :: cells
  k_worn :: "nat \<Rightarrow> bool"
  k_cmd :: u8
  k_addr :: "u8 list"
  k_row :: nat
  k_col :: nat
  k_reg :: "nat \<Rightarrow> u8"
  k_status :: u8
  k_busy :: bool

text \<open>An address has two column cycles and three row cycles, the low byte first.\<close>

fun bytes_val :: "u8 list \<Rightarrow> nat" where
  "bytes_val [] = 0"
| "bytes_val (x # xs) = unat x + 256 * bytes_val xs"

definition k9_addr :: "u8 \<Rightarrow> k9 \<Rightarrow> k9" where
  "k9_addr x c =
     (let a = k_addr c @ [x]; c = c\<lparr>k_addr := a\<rparr>
      in if (k_cmd c = NAND_CMD_READ0 \<or> k_cmd c = NAND_CMD_SEQIN) \<and> length a = 5
         then c\<lparr>k_col := bytes_val (take 2 a), k_row := bytes_val (drop 2 a)\<rparr>
         else if (k_cmd c = NAND_CMD_RNDOUT \<or> k_cmd c = NAND_CMD_RNDIN) \<and> length a = 2 then c\<lparr>k_col := bytes_val a\<rparr>
         else if k_cmd c = NAND_CMD_ERASE1 \<and> length a = 3 then c\<lparr>k_row := bytes_val a\<rparr>
         else c)"

definition k9_cmd :: "u8 \<Rightarrow> k9 \<Rightarrow> k9" where
  "k9_cmd x c =
     (let c = c\<lparr>k_cmd := x, k_addr := []\<rparr>; ok = \<not> k_worn c (k_row c div 64)
      in if x = NAND_CMD_READSTART then c\<lparr>k_reg := k_cells c (k_row c), k_busy := True\<rparr>
         else if x = NAND_CMD_SEQIN then c\<lparr>k_reg := \<lambda>_. 0xff\<rparr>
         else if x = NAND_CMD_PAGEPROG
         then c\<lparr>k_cells := (if ok then (k_cells c)(k_row c := \<lambda>col. k_cells c (k_row c) col AND k_reg c col) else k_cells c),
                k_status := (if ok then 0x40 else 0x41), k_busy := True\<rparr>
         else if x = NAND_CMD_ERASE2
         then c\<lparr>k_cells := (if ok then erase_block (k_cells c) (k_row c div 64) else k_cells c),
                k_status := (if ok then 0x40 else 0x41), k_busy := True\<rparr>
         else if x = NAND_CMD_READID then c\<lparr>k_reg := (\<lambda>_. 0)(0 := 0xec, 1 := 0xda), k_col := 0\<rparr>
         else c)"

text \<open>While the chip is busy it takes no access; waiting for the ready signal ends that.\<close>

fun k9_op :: "bus_op \<Rightarrow> k9 \<Rightarrow> k9" where
  "k9_op Select c = c"
| "k9_op Deselect c = c"
| "k9_op ClearRnB c = c"
| "k9_op DetectRnB c = c\<lparr>k_busy := False\<rparr>"
| "k9_op (Cmd x) c = (if k_busy c then c else k9_cmd x c)"
| "k9_op (Addr x) c = (if k_busy c then c else k9_addr x c)"
| "k9_op (Data x) c = (if k_busy c then c else c\<lparr>k_reg := (k_reg c)(k_col c := x), k_col := k_col c + 1\<rparr>)"

definition k9_read :: "k9 \<Rightarrow> u8 \<times> k9" where
  "k9_read c = (if k_cmd c = NAND_CMD_STATUS then (k_status c, c) else (k_reg c (k_col c), c\<lparr>k_col := k_col c + 1\<rparr>))"

definition k9_bus :: "k9 chip_bus" where
  "k9_bus = \<lparr>b_op = k9_op, b_read = k9_read\<rparr>"

definition k9_idle :: "k9 \<Rightarrow> bool" where
  "k9_idle c \<longleftrightarrow> \<not> k_busy c"

section \<open>The laws of the driver\<close>

lemmas nand_cmds = NAND_CMD_READ0_def NAND_CMD_READSTART_def NAND_CMD_READID_def NAND_CMD_SEQIN_def NAND_CMD_PAGEPROG_def
  NAND_CMD_ERASE1_def NAND_CMD_ERASE2_def NAND_CMD_STATUS_def NAND_CMD_RNDOUT_def NAND_CMD_RNDOUTSTART_def NAND_CMD_RNDIN_def

lemma bus_ops_append: "bus_ops bus (xs @ ys) c = bus_ops bus ys (bus_ops bus xs c)"
  by (simp add: bus_ops_def)

lemma unat_byte [simp]: "unat (byte x) = x mod 256"
  by (simp add: byte_def unat_of_nat)

lemma low_byte: "(x :: nat) mod 256 + 256 * (x div 256) = x"
  by (rule mod_mult_div_eq)

lemma div_256_256: "(x :: nat) div 256 div 256 = x div 65536"
  by (simp add: div_mult2_eq [symmetric])

lemma column_value:
  assumes "off < 65536"
  shows "bytes_val [byte off, byte (drop_bit 8 off)] = off"
proof -
  have "off div 256 < 256" using assms by (simp add: div_less_iff_less_mult)
  then show ?thesis using low_byte [of off] by (simp add: drop_bit_eq_div)
qed

lemma row_value:
  assumes "p < NPAGES"
  shows "bytes_val [byte p, byte (drop_bit 8 p), byte (drop_bit 16 p)] = p"
proof -
  have "p div 65536 < 256" using assms by (simp add: NPAGES_def div_less_iff_less_mult)
  then show ?thesis
    using low_byte [of p] low_byte [of "p div 256"] by (simp add: drop_bit_eq_div div_256_256)
qed

lemma erase_row_value:
  assumes "b < 2048"
  shows "bytes_val [byte (push_bit 6 b), byte (drop_bit 2 b), of_nat (drop_bit 10 b AND 0x0f)] = 64 * b"
proof -
  have p: "64 * b < NPAGES" using assms by (simp add: NPAGES_def)
  have "drop_bit 10 b AND 15 = b div 1024 mod 16" using and_mask_nat [of "drop_bit 10 b" 4] by (simp add: drop_bit_eq_div)
  also have "\<dots> = b div 1024" using assms by (simp add: div_less_iff_less_mult)
  finally have top: "drop_bit 10 b AND 15 = drop_bit 16 (64 * b)" by (simp add: drop_bit_eq_div div_mult2_eq [symmetric])
  have "drop_bit 16 (64 * b) < 256" using assms by (simp add: drop_bit_eq_div div_less_iff_less_mult)
  then have "byte (drop_bit 16 (64 * b)) = of_nat (drop_bit 16 (64 * b))" by (simp add: byte_def)
  moreover have "drop_bit 2 b = drop_bit 8 (64 * b)" "push_bit 6 b = 64 * b"
    by (simp_all add: drop_bit_eq_div push_bit_eq_mult)
  ultimately show ?thesis using row_value [OF p] by (simp only: top)
qed

declare bytes_val.simps [simp del]

text \<open>The state after the address of a page, or a column, has been sent.\<close>

lemma k9_addr_simps [simp]:
  "k_busy (k9_addr x c) = k_busy c" "k_cmd (k9_addr x c) = k_cmd c"
  by (simp_all add: k9_addr_def Let_def)

lemma k9_page_addr:
  assumes "p < NPAGES" "\<not> k_busy c" "k_cmd c = NAND_CMD_READ0 \<or> k_cmd c = NAND_CMD_SEQIN" "k_addr c = []"
  shows "bus_ops k9_bus (page_addr_ops p) c =
    c\<lparr>k_addr := [0, 0, byte p, byte (drop_bit 8 p), byte (drop_bit 16 p)], k_col := 0, k_row := p\<rparr>"
proof -
  have z: "bytes_val [0, 0] = 0" by (simp add: bytes_val.simps)
  have "k9_addr (byte (drop_bit 16 p)) (k9_addr (byte (drop_bit 8 p)) (k9_addr (byte p) (k9_addr 0 (k9_addr 0 c)))) =
      c\<lparr>k_addr := [0, 0, byte p, byte (drop_bit 8 p), byte (drop_bit 16 p)], k_col := 0, k_row := p\<rparr>"
    using assms(3,4) row_value [OF assms(1)] by (elim disjE) (simp_all add: k9_addr_def Let_def nand_cmds z)
  then show ?thesis using assms(2) by (simp add: bus_ops_def k9_bus_def page_addr_ops_def)
qed

lemma k9_column:
  assumes "off < 65536" "\<not> k_busy c" "k_cmd c = NAND_CMD_RNDOUT \<or> k_cmd c = NAND_CMD_RNDIN" "k_addr c = []"
  shows "bus_ops k9_bus (column_ops off) c = c\<lparr>k_addr := [byte off, byte (drop_bit 8 off)], k_col := off\<rparr>"
proof -
  have "k9_addr (byte (drop_bit 8 off)) (k9_addr (byte off) c) = c\<lparr>k_addr := [byte off, byte (drop_bit 8 off)], k_col := off\<rparr>"
    using assms(3,4) column_value [OF assms(1)] by (elim disjE) (simp_all add: k9_addr_def Let_def nand_cmds)
  then show ?thesis using assms(2) by (simp add: bus_ops_def k9_bus_def column_ops_def)
qed

lemma k9_reads:
  "k_cmd c \<noteq> NAND_CMD_STATUS \<Longrightarrow>
   bus_reads k9_bus n c = (map (k_reg c) [k_col c..<k_col c + n], c\<lparr>k_col := k_col c + n\<rparr>)"
proof (induction n arbitrary: c)
  case (Suc n)
  have "[k_col c..<k_col c + Suc n] = k_col c # [k_col c + 1..<k_col c + Suc n]" by (simp add: upt_conv_Cons)
  then show ?case using Suc.IH [of "c\<lparr>k_col := k_col c + 1\<rparr>"] Suc.prems by (simp add: k9_bus_def k9_read_def)
qed simp

lemma k9_datas:
  "\<not> k_busy c \<Longrightarrow> bus_ops k9_bus (map Data xs) c =
     c\<lparr>k_reg := (\<lambda>col. if k_col c \<le> col \<and> col < k_col c + length xs then xs ! (col - k_col c) else k_reg c col),
       k_col := k_col c + length xs\<rparr>"
proof (induction xs arbitrary: c)
  case Nil
  have "(\<lambda>col. if k_col c \<le> col \<and> col < k_col c + length ([] :: u8 list) then [] ! (col - k_col c) else k_reg c col) = k_reg c"
    by (auto simp: fun_eq_iff)
  then show ?case by (simp add: bus_ops_def)
next
  case (Cons x xs)
  define c1 where "c1 = c\<lparr>k_reg := (k_reg c)(k_col c := x), k_col := k_col c + 1\<rparr>"
  have "bus_ops k9_bus (map Data (x # xs)) c = bus_ops k9_bus (map Data xs) c1"
    using Cons.prems by (simp add: bus_ops_def k9_bus_def c1_def)
  also have "\<dots> = c1\<lparr>k_reg := (\<lambda>col. if k_col c1 \<le> col \<and> col < k_col c1 + length xs then xs ! (col - k_col c1) else k_reg c1 col),
       k_col := k_col c1 + length xs\<rparr>"
    by (rule Cons.IH) (simp add: c1_def Cons.prems)
  also have "(\<lambda>col. if k_col c1 \<le> col \<and> col < k_col c1 + length xs then xs ! (col - k_col c1) else k_reg c1 col) =
      (\<lambda>col. if k_col c \<le> col \<and> col < k_col c + length (x # xs) then (x # xs) ! (col - k_col c) else k_reg c col)"
    by (auto simp: c1_def fun_eq_iff nth_Cons')
  finally show ?case by (simp add: c1_def)
qed

lemma k9_cmds:
  "k9_cmd NAND_CMD_READ0 c = c\<lparr>k_cmd := NAND_CMD_READ0, k_addr := []\<rparr>"
  "k9_cmd NAND_CMD_RNDOUT c = c\<lparr>k_cmd := NAND_CMD_RNDOUT, k_addr := []\<rparr>"
  "k9_cmd NAND_CMD_RNDOUTSTART c = c\<lparr>k_cmd := NAND_CMD_RNDOUTSTART, k_addr := []\<rparr>"
  "k9_cmd NAND_CMD_RNDIN c = c\<lparr>k_cmd := NAND_CMD_RNDIN, k_addr := []\<rparr>"
  "k9_cmd NAND_CMD_STATUS c = c\<lparr>k_cmd := NAND_CMD_STATUS, k_addr := []\<rparr>"
  "k9_cmd NAND_CMD_ERASE1 c = c\<lparr>k_cmd := NAND_CMD_ERASE1, k_addr := []\<rparr>"
  "k9_cmd NAND_CMD_SEQIN c = c\<lparr>k_cmd := NAND_CMD_SEQIN, k_addr := [], k_reg := \<lambda>_. 0xff\<rparr>"
  "k9_cmd NAND_CMD_READSTART c = c\<lparr>k_cmd := NAND_CMD_READSTART, k_addr := [], k_reg := k_cells c (k_row c), k_busy := True\<rparr>"
  by (simp_all add: k9_cmd_def nand_cmds Let_def)

lemma bus_ops_simps:
  "bus_ops k9_bus [] c = c"
  "bus_ops k9_bus (Select # ops) c = bus_ops k9_bus ops c"
  "bus_ops k9_bus (ClearRnB # ops) c = bus_ops k9_bus ops c"
  "bus_ops k9_bus (DetectRnB # ops) c = bus_ops k9_bus ops (c\<lparr>k_busy := False\<rparr>)"
  "\<not> k_busy c \<Longrightarrow> bus_ops k9_bus (Cmd x # ops) c = bus_ops k9_bus ops (k9_cmd x c)"
  by (simp_all add: bus_ops_def k9_bus_def)

lemma and_ff: "(x :: u8) AND 0xff = x"
proof -
  have ff: "(0xff :: u8) = - 1" by simp
  show ?thesis unfolding ff by (rule and.right_neutral)
qed

lemma k9_read_ops:
  assumes "k9_idle c" "p < NPAGES" "off + n \<le> 2112"
  shows "\<exists>c1. bus_ops k9_bus (read_ops k9_info p off n) c = c1 \<and> k_reg c1 = k_cells c p \<and> k_col c1 = off \<and>
    k_cmd c1 \<noteq> NAND_CMD_STATUS \<and> k_cells c1 = k_cells c \<and> k_worn c1 = k_worn c \<and> \<not> k_busy c1"
proof -
  have b: "\<not> k_busy c" using assms(1) by (simp add: k9_idle_def)
  define c0 where "c0 = c\<lparr>k_cmd := NAND_CMD_READ0, k_addr := []\<rparr>"
  define c1 where "c1 = c\<lparr>k_col := 0, k_row := p, k_cmd := NAND_CMD_READSTART, k_addr := [], k_reg := k_cells c p, k_busy := False\<rparr>"
  have "bus_ops k9_bus (page_addr_ops p) c0 =
      c0\<lparr>k_addr := [0, 0, byte p, byte (drop_bit 8 p), byte (drop_bit 16 p)], k_col := 0, k_row := p\<rparr>"
    by (rule k9_page_addr) (use assms(2) b in \<open>simp_all add: c0_def\<close>)
  then have start: "bus_ops k9_bus ([Select, ClearRnB, Cmd NAND_CMD_READ0] @ page_addr_ops p @ [Cmd NAND_CMD_READSTART, DetectRnB] @ ops) c =
      bus_ops k9_bus ops c1" for ops
    using b by (simp add: bus_ops_append bus_ops_simps k9_cmds c0_def c1_def)
  show ?thesis
  proof (cases "0 = off \<and> 2048 = n")
    case True
    then show ?thesis using start [of "[]"] b
      by (simp add: read_ops_def bus_ops_simps c1_def c0_def nand_cmds)
  next
    case False
    have "bus_ops k9_bus (column_ops off) (c1\<lparr>k_cmd := NAND_CMD_RNDOUT, k_addr := []\<rparr>) =
        c1\<lparr>k_cmd := NAND_CMD_RNDOUT, k_addr := [byte off, byte (drop_bit 8 off)], k_col := off\<rparr>"
      by (subst k9_column) (use assms(3) b in \<open>simp_all add: c1_def c0_def\<close>)
    moreover have "read_ops k9_info p off n =
        [Select, ClearRnB, Cmd NAND_CMD_READ0] @ page_addr_ops p @ [Cmd NAND_CMD_READSTART, DetectRnB] @
        ([Cmd NAND_CMD_RNDOUT] @ column_ops off @ [Cmd NAND_CMD_RNDOUTSTART])"
      using False by (auto simp: read_ops_def)
    ultimately have "bus_ops k9_bus (read_ops k9_info p off n) c =
        c1\<lparr>k_cmd := NAND_CMD_RNDOUTSTART, k_addr := [], k_col := off\<rparr>"
      using start [of "[Cmd NAND_CMD_RNDOUT] @ column_ops off @ [Cmd NAND_CMD_RNDOUTSTART]"] b
      by (simp add: bus_ops_append bus_ops_simps k9_cmds c1_def c0_def)
    then show ?thesis using b by (simp add: c1_def c0_def nand_cmds)
  qed
qed

lemma k9_write_ops:
  assumes "k9_idle c" "p < NPAGES" "off + length xs \<le> 2112"
  shows "\<exists>c1. bus_ops k9_bus (write_ops k9_info p off xs (length xs)) c = c1 \<and> k_cmd c1 = NAND_CMD_STATUS \<and> \<not> k_busy c1 \<and>
    k_worn c1 = k_worn c \<and> k_status c1 = (if k_worn c (p div 64) then 0x41 else 0x40) \<and>
    k_cells c1 = (if k_worn c (p div 64) then k_cells c else program_page (k_cells c) p off xs)"
proof -
  have b: "\<not> k_busy c" using assms(1) by (simp add: k9_idle_def)
  define c0 where "c0 = c\<lparr>k_cmd := NAND_CMD_SEQIN, k_addr := [], k_reg := \<lambda>_. 0xff\<rparr>"
  define a where "a = [0, 0, byte p, byte (drop_bit 8 p), byte (drop_bit 16 p)]"
  define c1 where "c1 = c0\<lparr>k_addr := a, k_col := 0, k_row := p\<rparr>"
  have "bus_ops k9_bus (page_addr_ops p) c0 = c1"
    unfolding c1_def a_def by (rule k9_page_addr) (use assms(2) b in \<open>simp_all add: c0_def\<close>)
  then have start: "bus_ops k9_bus ([Select, ClearRnB, Cmd NAND_CMD_SEQIN] @ page_addr_ops p @ ops) c = bus_ops k9_bus ops c1" for ops
    using b by (simp add: bus_ops_append bus_ops_simps k9_cmds c0_def)
  have "\<exists>c2. bus_ops k9_bus (if 0 = off \<and> 2048 = length xs then [] else [Cmd NAND_CMD_RNDIN] @ column_ops off) c1 = c2 \<and>
      k_col c2 = off \<and> k_row c2 = p \<and> k_reg c2 = (\<lambda>_. 0xff) \<and> k_cells c2 = k_cells c \<and> k_worn c2 = k_worn c \<and> \<not> k_busy c2"
  proof (cases "0 = off \<and> 2048 = length xs")
    case True
    then show ?thesis using b by (simp add: bus_ops_simps c1_def c0_def)
  next
    case False
    have "bus_ops k9_bus (column_ops off) (c1\<lparr>k_cmd := NAND_CMD_RNDIN, k_addr := []\<rparr>) =
        c1\<lparr>k_cmd := NAND_CMD_RNDIN, k_addr := [byte off, byte (drop_bit 8 off)], k_col := off\<rparr>"
      by (subst k9_column) (use assms(3) b in \<open>simp_all add: c1_def c0_def\<close>)
    then show ?thesis using False b by (simp add: bus_ops_append bus_ops_simps k9_cmds c1_def c0_def)
  qed
  then obtain c2 where c2: "bus_ops k9_bus (if 0 = off \<and> 2048 = length xs then [] else [Cmd NAND_CMD_RNDIN] @ column_ops off) c1 = c2"
    "k_col c2 = off" "k_row c2 = p" "k_reg c2 = (\<lambda>_. 0xff)" "k_cells c2 = k_cells c" "k_worn c2 = k_worn c" "\<not> k_busy c2"
    by blast
  define c3 where "c3 = bus_ops k9_bus (map Data xs) c2"
  have c3: "c3 = c2\<lparr>k_reg := (\<lambda>col. if off \<le> col \<and> col < off + length xs then xs ! (col - off) else 0xff),
       k_col := off + length xs\<rparr>"
    unfolding c3_def by (rule k9_datas [OF c2(7), of xs, unfolded c2(2,4)])
  have prog: "(k_cells c)(p := \<lambda>col. k_cells c p col AND (if off \<le> col \<and> col < off + length xs then xs ! (col - off) else 0xff)) =
      program_page (k_cells c) p off xs"
    by (auto simp: program_page_def fun_eq_iff and_ff)
  have "bus_ops k9_bus (write_ops k9_info p off xs (length xs)) c =
      bus_ops k9_bus [Cmd NAND_CMD_PAGEPROG, DetectRnB, Cmd NAND_CMD_STATUS] c3"
    unfolding write_ops_def using start c2(1) c3_def by (simp add: bus_ops_append)
  also have "\<dots> = (k9_cmd NAND_CMD_PAGEPROG c3)\<lparr>k_busy := False, k_cmd := NAND_CMD_STATUS, k_addr := []\<rparr>"
    using c2(7) c3 by (simp add: bus_ops_simps k9_cmds)
  finally show ?thesis
    using c2(3,5,6) c3 prog by (simp add: k9_cmd_def Let_def nand_cmds)
qed

lemma k9_erase_ops:
  assumes "k9_idle c" "b < 2048"
  shows "\<exists>c1. bus_ops k9_bus (erase_ops b) c = c1 \<and> k_cmd c1 = NAND_CMD_STATUS \<and> \<not> k_busy c1 \<and>
    k_worn c1 = k_worn c \<and> k_status c1 = (if k_worn c b then 0x41 else 0x40) \<and>
    k_cells c1 = (if k_worn c b then k_cells c else erase_block (k_cells c) b)"
proof -
  have busy: "\<not> k_busy c" using assms(1) by (simp add: k9_idle_def)
  define c0 where "c0 = c\<lparr>k_cmd := NAND_CMD_ERASE1, k_addr := []\<rparr>"
  define a where "a = [byte (push_bit 6 b), byte (drop_bit 2 b), of_nat (drop_bit 10 b AND 0x0f)]"
  define c1 where "c1 = c0\<lparr>k_addr := a, k_row := 64 * b\<rparr>"
  have "bytes_val a = 64 * b" unfolding a_def by (rule erase_row_value [OF assms(2)])
  then have "k9_addr (a ! 2) (k9_addr (a ! 1) (k9_addr (a ! 0) c0)) = c1"
    by (simp add: c0_def c1_def k9_addr_def Let_def nand_cmds a_def)
  then have "bus_ops k9_bus (map Addr a) c0 = c1"
    using busy by (simp add: bus_ops_def k9_bus_def a_def c0_def)
  moreover have "erase_ops b = [Select, ClearRnB, Cmd NAND_CMD_ERASE1] @ map Addr a @ [Cmd NAND_CMD_ERASE2, DetectRnB, Cmd NAND_CMD_STATUS]"
    by (simp add: erase_ops_def a_def)
  ultimately have "bus_ops k9_bus (erase_ops b) c = bus_ops k9_bus [Cmd NAND_CMD_ERASE2, DetectRnB, Cmd NAND_CMD_STATUS] c1"
    using busy by (simp add: bus_ops_append bus_ops_simps k9_cmds c0_def)
  also have "\<dots> = (k9_cmd NAND_CMD_ERASE2 c1)\<lparr>k_busy := False, k_cmd := NAND_CMD_STATUS, k_addr := []\<rparr>"
    using busy by (simp add: bus_ops_simps k9_cmds c1_def c0_def)
  finally show ?thesis by (simp add: k9_cmd_def Let_def nand_cmds c1_def c0_def)
qed

lemma k9_status:
  "k_cmd c = NAND_CMD_STATUS \<Longrightarrow> b_read k9_bus c = (k_status c, c)"
  by (simp add: k9_bus_def k9_read_def)

lemma k9_deselect [simp]: "b_op k9_bus Deselect c = c"
  by (simp add: k9_bus_def)

lemma status_bits [simp]: "(0x41 :: u8) AND 1 = 1" "(0x40 :: u8) AND 1 = 0"
  by simp_all

interpretation k9: nand_chip k9_bus k9_idle k_cells k_worn
proof (unfold_locales, goal_cases)
  case (1 c page off n)
  then obtain c1 where "bus_ops k9_bus (read_ops k9_info page off n) c = c1" "k_reg c1 = k_cells c page" "k_col c1 = off"
    "k_cmd c1 \<noteq> NAND_CMD_STATUS" "k_cells c1 = k_cells c" "k_worn c1 = k_worn c" "\<not> k_busy c1"
    using k9_read_ops by blast
  then show ?case by (simp add: k9_reads k9_idle_def)
next
  case (2 c page off xs)
  then obtain c1 where "bus_ops k9_bus (write_ops k9_info page off xs (length xs)) c = c1" "k_cmd c1 = NAND_CMD_STATUS" "\<not> k_busy c1"
    "k_worn c1 = k_worn c" "k_status c1 = (if k_worn c (page div 64) then 0x41 else 0x40)"
    "k_cells c1 = (if k_worn c (page div 64) then k_cells c else program_page (k_cells c) page off xs)"
    using k9_write_ops by blast
  then show ?case by (simp add: k9_status k9_idle_def)
next
  case (3 c b)
  then obtain c1 where "bus_ops k9_bus (erase_ops b) c = c1" "k_cmd c1 = NAND_CMD_STATUS" "\<not> k_busy c1"
    "k_worn c1 = k_worn c" "k_status c1 = (if k_worn c b then 0x41 else 0x40)"
    "k_cells c1 = (if k_worn c b then k_cells c else erase_block (k_cells c) b)"
    using k9_erase_ops by blast
  then show ?case by (simp add: k9_status k9_idle_def)
qed simp

section \<open>Properties\<close>

text \<open>Identification recognises the chip.\<close>

lemma nand_init_k9:
  assumes "k9_idle c"
  shows "\<exists>c'. nand_init k9_bus nand c = (0, k9_info, c') \<and> k_cells c' = k_cells c"
proof -
  have "bus_ops k9_bus [Select, ClearRnB, Cmd NAND_CMD_READID, Addr 0] c =
      c\<lparr>k_cmd := NAND_CMD_READID, k_addr := [0], k_reg := (\<lambda>_. 0)(0 := 0xec, 1 := 0xda), k_col := 0\<rparr>"
    using assms by (simp add: k9_idle_def bus_ops_def k9_bus_def k9_addr_def k9_cmd_def nand_cmds Let_def)
  then show ?thesis
    by (simp add: nand_init_def nand_read_id_def k9_bus_def k9_read_def nand_cmds NAND_K9F2G08_def k9_info_def)
qed

text \<open>An erased chip; block 0 is marked bad, block 2 is worn.\<close>

definition k9_demo :: k9 where
  "k9_demo = \<lparr>k_cells = (\<lambda>p col. if p = 0 \<and> col = 2048 then 0xEE else 0xff), k_worn = (\<lambda>b. b = 2), k_cmd = 0xff, k_addr = [],
     k_row = 0, k_col = 0, k_reg = (\<lambda>_. 0), k_status = 0x40, k_busy = False\<rparr>"

lemma k9_demo_simps [simp]:
  "k9_idle k9_demo" "k_worn k9_demo = (\<lambda>b. b = 2)" "k_cells k9_demo p col = (if p = 0 \<and> col = 2048 then 0xEE else 0xff)"
  by (simp_all add: k9_idle_def k9_demo_def)

lemma visit_demo: "visit (k_cells k9_demo) 0 = 64 # visit (k_cells k9_demo) 65"
  using visit_bad [of 0 "k_cells k9_demo"] visit_good [of 64 "k_cells k9_demo"] by (simp add: NPAGES_def bad_def)

lemma good_demo: "good_blocks (\<lambda>b. b = 2) 0 = 0 # 1 # 3 # good_blocks (\<lambda>b. b = 2) 4"
proof -
  have "(0 :: nat) + 1 = 1" "(1 :: nat) + 1 = 2" "(2 :: nat) + 1 = 3" "(3 :: nat) + 1 = 4" by simp_all
  then show ?thesis
    using good_blocks_step [of 0 "\<lambda>b. b = 2"] good_blocks_step [of 1 "\<lambda>b. b = 2"] good_blocks_step [of 2 "\<lambda>b. b = 2"]
      good_blocks_step [of 3 "\<lambda>b. b = 2"] by (simp del: One_nat_def)
qed

text \<open>C9. Writing \<open>n\<close> bytes at a page and reading them back gives the data, when the pages used are
  erased and their blocks not worn: both skip the blocks marked bad at the same places. Both calls return the size of the last
  page moved, not \<open>n\<close>.\<close>

theorem nand_write_then_read:
  assumes "k9_idle c" "p \<le> NPAGES" "n \<le> length data" "n \<le> length buf" "npages n \<le> length (visit (k_cells c) p)"
    "\<forall>q\<in>set (take (npages n) (visit (k_cells c) p)). \<not> k_worn c (q div 64) \<and> (\<forall>col<2048. k_cells c q col = 0xff)"
  shows "\<exists>c' c''. nand_write k9_bus k9_info (2048 * p) n data c = Some (int (last_count n 0), c') \<and>
    nand_read k9_bus k9_info (2048 * p) n buf c' = Some (int (last_count n 0), take n data @ drop n buf, c'')"
  using assms by (rule k9.write_read)

lemma nand_write_then_read_witness:
  "\<exists>c' c''. nand_write k9_bus k9_info 0 3 [1, 2, 3] k9_demo = Some (3, c') \<and>
     nand_read k9_bus k9_info 0 3 [0, 0, 0, 7] c' = Some (3, [1, 2, 3, 7], c'')"
proof -
  have "\<exists>c' c''. nand_write k9_bus k9_info (2048 * 0) 3 [1, 2, 3] k9_demo = Some (int (last_count 3 0), c') \<and>
     nand_read k9_bus k9_info (2048 * 0) 3 [0, 0, 0, 7] c' = Some (int (last_count 3 0), take 3 [1, 2, 3] @ drop 3 [0, 0, 0, 7], c'')"
    by (rule nand_write_then_read) (simp_all add: visit_demo npages_def)
  then show ?thesis by (simp add: last_count_def)
qed

text \<open>C20. Erasing \<open>k\<close> blocks from \<open>b\<close> on with the skip flag returns 0 and has erased the first \<open>k\<close>
  blocks from \<open>b\<close> on that are not worn, and left every other good block as it was.\<close>

theorem nand_erase_skips_worn:
  assumes "k9_idle c" "k \<le> length (good_blocks (k_worn c) b)" "b + k \<le> 2048"
  shows "\<exists>c'. nand_erase k9_bus k9_info (131072 * b) (131072 * k) True c = Some (0, c') \<and>
    (\<forall>q. q div 64 \<in> set (take k (good_blocks (k_worn c) b)) \<longrightarrow> k_cells c' q = (\<lambda>_. 0xff)) \<and>
    (\<forall>q. q div 64 \<notin> set (take k (good_blocks (k_worn c) b)) \<longrightarrow> \<not> k_worn c (q div 64) \<longrightarrow> k_cells c' q = k_cells c q)"
  using k9.erase_skip [OF assms(1,2), of "131072 * b" "131072 * k"] assms(3) by (auto simp: nand_erase_def)

lemma nand_erase_skips_worn_witness:
  "\<exists>c'. nand_erase k9_bus k9_info 0 393216 True k9_demo = Some (0, c') \<and> k_cells c' 0 = (\<lambda>_. 0xff) \<and> k_cells c' 192 = (\<lambda>_. 0xff)"
proof -
  have g: "3 \<le> length (good_blocks (k_worn k9_demo) 0)" "take 3 (good_blocks (k_worn k9_demo) 0) = [0, 1, 3]"
    by (simp_all add: good_demo)
  show ?thesis using nand_erase_skips_worn [of k9_demo 3 0, unfolded g(2)] g(1) by auto
qed

text \<open>C21. Without the flag the call returns exactly when no block of the range is worn: the loop tries a
  block that fails again and again, instead of counting it and going on.\<close>

theorem nand_erase_returns_iff:
  assumes "k9_idle c" "b + k \<le> 2048"
  shows "nand_erase k9_bus k9_info (131072 * b) (131072 * k) False c = None \<longleftrightarrow> (\<exists>x\<in>{b..<b + k}. k_worn c x)"
  using k9.erase_no_skip [OF assms, of "131072 * b" "131072 * k"] by (auto simp: nand_erase_def split: if_splits)

lemma nand_erase_returns_iff_witness: "nand_erase k9_bus k9_info 0 393216 False k9_demo = None"
  using nand_erase_returns_iff [of k9_demo 0 3] by simp

end
