(* ===== verification/Button.thy ===== *)
theory Button
  imports Prelude
begin

text \<open>
  The push button driver (\<open>driver/plat_button.c\<close>): the interrupt and timer handlers with their state per
  button, the file operations with their error paths, and the registration with the kernel. The step
  relation \<open>button_step\<close> says in which order the kernel may call them; requests that the kernel may
  grant or refuse, and the level of a pin, are part of the event.
\<close>

section \<open>State\<close>

text \<open>A pointer from \<open>kmalloc\<close>: not set, freed, or to a block. Using a freed block is the result \<^const>\<open>None\<close>.\<close>

datatype 'a kptr = KNull | KFreed | KBlock 'a

fun kderef :: "'a kptr \<Rightarrow> 'a option" where
  "kderef (KBlock b) = Some b"
| "kderef KNull = None"
| "kderef KFreed = None"

definition BUTTON_UP :: u8 where "BUTTON_UP = 0"
definition BUTTON_DOWN :: u8 where "BUTTON_DOWN = 1"
definition BUTTON_UNCERTAIN :: u8 where "BUTTON_UNCERTAIN = 2"

datatype pin_level = LOWLEVEL | HIGHLEVEL

record s3c_button_info =
  bi_num :: u8
  bi_name :: string
  nIRQ :: nat
  setting :: nat
  gpio :: nat

text \<open>The device, with what the kernel keeps for it: the handlers of requested interrupts, the
  configured pins and the interrupts set to the falling edge. A timer is the time at which it is due, if
  it is pending.\<close>

record button_device =
  bd_status :: "u8 list kptr"
  bd_timers :: "nat option list kptr"
  ev_press :: bool
  bd_irqs :: "nat \<rightharpoonup> nat"
  bd_pins :: "nat \<rightharpoonup> nat"
  bd_falling :: "nat set"
  jiffies :: nat

text \<open>\<open>HZ\<close> is set when the kernel is configured.\<close>

definition TIMER_DELAY_DOWN :: "nat \<Rightarrow> nat" where "TIMER_DELAY_DOWN hz = hz div 50"
definition TIMER_DELAY_UP :: "nat \<Rightarrow> nat" where "TIMER_DELAY_UP hz = hz div 10"

definition mod_timer :: "nat \<Rightarrow> nat \<Rightarrow> button_device \<Rightarrow> button_device option" where
  "mod_timer i t s = do {
     ts \<leftarrow> kderef (bd_timers s);
     ts \<leftarrow> wr ts i (Some t);
     Some (s\<lparr>bd_timers := KBlock ts\<rparr>) }"

definition get_status :: "nat \<Rightarrow> button_device \<Rightarrow> u8 option" where
  "get_status i s = do { st \<leftarrow> kderef (bd_status s); rd st i }"

definition set_status :: "nat \<Rightarrow> u8 \<Rightarrow> button_device \<Rightarrow> button_device option" where
  "set_status i v s = do {
     st \<leftarrow> kderef (bd_status s);
     st \<leftarrow> wr st i v;
     Some (s\<lparr>bd_status := KBlock st\<rparr>) }"

text \<open>The table of the four buttons; the numbers of the interrupts and pins and the settings come from the kernel's headers.\<close>

definition s3c_buttons :: "(nat \<Rightarrow> nat) \<Rightarrow> (nat \<Rightarrow> nat) \<Rightarrow> (nat \<Rightarrow> nat) \<Rightarrow> s3c_button_info list" where
  "s3c_buttons irq_eint gpf gpf_eint =
     [\<lparr>bi_num = 1, bi_name = ''KEY1'', nIRQ = irq_eint 0, setting = gpf_eint 0, gpio = gpf 0\<rparr>,
      \<lparr>bi_num = 2, bi_name = ''KEY2'', nIRQ = irq_eint 2, setting = gpf_eint 2, gpio = gpf 2\<rparr>,
      \<lparr>bi_num = 3, bi_name = ''KEY3'', nIRQ = irq_eint 3, setting = gpf_eint 3, gpio = gpf 3\<rparr>,
      \<lparr>bi_num = 4, bi_name = ''KEY4'', nIRQ = irq_eint 4, setting = gpf_eint 4, gpio = gpf 4\<rparr>]"

section \<open>Interrupt and timer\<close>

datatype irqreturn_t = IRQ_NONE | IRQ_HANDLED

fun find_irq :: "s3c_button_info list \<Rightarrow> nat \<Rightarrow> nat \<Rightarrow> nat option" where
  "find_irq [] irq i = None"
| "find_irq (b # bs) irq i = (if irq = nIRQ b then Some i else find_irq bs irq (i + 1))"

definition s3c_button_intterupt ::
  "s3c_button_info list \<Rightarrow> nat \<Rightarrow> nat \<Rightarrow> button_device \<Rightarrow> (irqreturn_t \<times> button_device) option" where
  "s3c_button_intterupt bs hz irq s =
     (case find_irq bs irq 0 of
        None \<Rightarrow> Some (IRQ_NONE, s)
      | Some i \<Rightarrow> do {
          st \<leftarrow> get_status i s;
          if BUTTON_UP = st
          then do {
            s \<leftarrow> set_status i BUTTON_UNCERTAIN s;
            s \<leftarrow> mod_timer i (jiffies s + TIMER_DELAY_DOWN hz) s;
            Some (IRQ_HANDLED, s) }
          else Some (IRQ_HANDLED, s) })"

text \<open>\<open>status\<close> is the level of the pin when the timer is due.\<close>

definition button_timer_handler ::
  "s3c_button_info list \<Rightarrow> nat \<Rightarrow> nat \<Rightarrow> pin_level \<Rightarrow> button_device \<Rightarrow> button_device option" where
  "button_timer_handler bs hz num status s =
     (if \<not> num < length bs then None
      else if LOWLEVEL = status
      then do {
        st \<leftarrow> get_status num s;
        s \<leftarrow> (if BUTTON_UNCERTAIN = st
              then do { s \<leftarrow> set_status num BUTTON_DOWN s; Some (s\<lparr>ev_press := True\<rparr>) }
              else Some s);
        mod_timer num (jiffies s + TIMER_DELAY_UP hz) s }
      else set_status num BUTTON_UP s)"

section \<open>File operations\<close>

definition ENOMEM :: int where "ENOMEM = 12"
definition EBUSY :: int where "EBUSY = 16"
definition EAGAIN :: int where "EAGAIN = 11"
definition EFAULT :: int where "EFAULT = 14"

text \<open>The loop of \<open>button_open\<close> over the buttons from \<open>i\<close> on; \<open>Inl i\<close> if the interrupt of button \<open>i\<close> is refused.\<close>

fun button_setup ::
  "(nat \<Rightarrow> bool) \<Rightarrow> s3c_button_info list \<Rightarrow> nat \<Rightarrow> button_device \<Rightarrow> (nat option \<times> button_device) option" where
  "button_setup grant [] i s = Some (None, s)"
| "button_setup grant (b # bs) i s = do {
     s \<leftarrow> set_status i BUTTON_UP s;
     ts \<leftarrow> kderef (bd_timers s);
     ts \<leftarrow> wr ts i None;
     let s = s\<lparr>bd_timers := KBlock ts, bd_pins := (bd_pins s)(gpio b \<mapsto> setting b), bd_falling := insert (nIRQ b) (bd_falling s)\<rparr>;
     if nIRQ b \<in> dom (bd_irqs s) \<or> \<not> grant (nIRQ b) then Some (Some i, s)
     else button_setup grant bs (i + 1) (s\<lparr>bd_irqs := (bd_irqs s)(nIRQ b \<mapsto> i)\<rparr>) }"

text \<open>\<open>while(--i)\<close>: it stops before button 0, and starts with button -1 when button 0 has failed.\<close>

fun open_unwind :: "s3c_button_info list \<Rightarrow> nat \<Rightarrow> button_device \<Rightarrow> button_device option" where
  "open_unwind bs 0 s = None"
| "open_unwind bs (Suc 0) s = Some s"
| "open_unwind bs (Suc (Suc i)) s = do {
     b \<leftarrow> rd bs (Suc i);
     open_unwind bs (Suc i) (s\<lparr>bd_irqs := (bd_irqs s)(nIRQ b := None)\<rparr>) }"

text \<open>\<open>mem_t\<close> and \<open>mem_s\<close> say whether the two allocations succeed.\<close>

definition button_open ::
  "bool \<Rightarrow> bool \<Rightarrow> (nat \<Rightarrow> bool) \<Rightarrow> s3c_button_info list \<Rightarrow> button_device \<Rightarrow> (int \<times> button_device) option" where
  "button_open mem_t mem_s grant bs s =
     (if \<not> mem_t then Some (- ENOMEM, s\<lparr>bd_timers := KNull\<rparr>)
      else (let s = s\<lparr>bd_timers := KBlock (replicate (length bs) None)\<rparr>
            in if \<not> mem_s then Some (- ENOMEM, s\<lparr>bd_status := KNull, bd_timers := KFreed\<rparr>)
               else do {
                 (failed, s) \<leftarrow> button_setup grant bs 0 (s\<lparr>bd_status := KBlock (replicate (length bs) 0)\<rparr>);
                 case failed of
                   None \<Rightarrow> Some (0, s)
                 | Some i \<Rightarrow> do {
                     s \<leftarrow> open_unwind bs i (s\<lparr>bd_status := KFreed\<rparr>);
                     Some (- EBUSY, s\<lparr>bd_timers := KFreed\<rparr>) } }))"

fun status_word :: "u8 list \<Rightarrow> nat \<Rightarrow> u32" where
  "status_word [] i = 0"
| "status_word (x # xs) i = push_bit i (ucast x) OR status_word xs (i + 1)"

definition word_bytes :: "u32 \<Rightarrow> u8 list" where
  "word_bytes w = [ucast w, ucast (drop_bit 8 w), ucast (drop_bit 16 w), ucast (drop_bit 24 w)]"

datatype read_result = RdReturn int "u8 list" | RdBlocked

text \<open>The part of \<open>button_read\<close> after the wait; the wait also ends by a signal.\<close>

definition button_read_status ::
  "nat \<Rightarrow> bool \<Rightarrow> s3c_button_info list \<Rightarrow> button_device \<Rightarrow> (read_result \<times> button_device) option" where
  "button_read_status count user_ok bs s = do {
     let s = s\<lparr>ev_press := False\<rparr>;
     st \<leftarrow> kderef (bd_status s);
     st \<leftarrow> rd_slice st 0 (length bs);
     Some (if user_ok then RdReturn (int (min 4 count)) (take (min 4 count) (word_bytes (status_word st 0)))
           else RdReturn (- EFAULT) [], s) }"

definition button_read ::
  "bool \<Rightarrow> nat \<Rightarrow> bool \<Rightarrow> s3c_button_info list \<Rightarrow> button_device \<Rightarrow> (read_result \<times> button_device) option" where
  "button_read nonblock count user_ok bs s =
     (if \<not> ev_press s
      then if nonblock then Some (RdReturn (- EAGAIN) [], s) else Some (RdBlocked, s)
      else button_read_status count user_ok bs s)"

text \<open>Whether \<open>POLLIN | POLLRDNORM\<close> is reported.\<close>

definition button_poll :: "button_device \<Rightarrow> bool" where
  "button_poll s = ev_press s"

fun button_teardown :: "s3c_button_info list \<Rightarrow> nat \<Rightarrow> button_device \<Rightarrow> button_device option" where
  "button_teardown [] i s = Some s"
| "button_teardown (b # bs) i s = do {
     ts \<leftarrow> kderef (bd_timers s);
     ts \<leftarrow> wr ts i None;
     button_teardown bs (i + 1) (s\<lparr>bd_irqs := (bd_irqs s)(nIRQ b := None), bd_timers := KBlock ts\<rparr>) }"

definition button_release :: "s3c_button_info list \<Rightarrow> button_device \<Rightarrow> (int \<times> button_device) option" where
  "button_release bs s = do {
     s \<leftarrow> button_teardown bs 0 s;
     Some (0, s\<lparr>bd_timers := KFreed, bd_status := KFreed\<rparr>) }"

section \<open>Registration\<close>

text \<open>What the driver has registered with the kernel.\<close>

datatype kres = Region | Cdev | Class | Device | PlatDevice | PlatDriver

definition s3c_button_device_name :: string where "s3c_button_device_name = ''s3c_button''"
definition s3c_button_driver_name :: string where "s3c_button_driver_name = ''s3c_kbd''"

text \<open>\<open>region\<close> and \<open>add\<close> are the results of the kernel's calls, \<open>class_ok\<close> says whether the class was made.\<close>

definition s3c_button_probe ::
  "int \<Rightarrow> int \<Rightarrow> bool \<Rightarrow> kres set \<Rightarrow> button_device \<Rightarrow> int \<times> kres set \<times> button_device" where
  "s3c_button_probe region add class_ok res s =
     (if region < 0 then (region, res, s)
      else (let res = insert Region res; s = s\<lparr>bd_status := KNull, bd_timers := KNull, ev_press := False\<rparr>
            in if add \<noteq> 0 then (add, res - {Cdev} - {Region}, s)
               else (let res = insert Cdev res
                     in if \<not> class_ok then (- ENOMEM, res - {Cdev} - {Region}, s)
                        else (0, insert Device (insert Class res), s))))"

definition s3c_button_remove :: "kres set \<Rightarrow> kres set" where
  "s3c_button_remove res = res - {Cdev} - {Device} - {Class} - {Region}"

text \<open>Registering the platform driver probes it when the bus matches it with the device.\<close>

definition s3c_button_init ::
  "(string \<Rightarrow> string \<Rightarrow> bool) \<Rightarrow> int \<Rightarrow> int \<Rightarrow> int \<Rightarrow> int \<Rightarrow> bool \<Rightarrow> kres set \<Rightarrow> button_device \<Rightarrow> int \<times> kres set \<times> button_device" where
  "s3c_button_init bus_match reg_dev reg_drv region add class_ok res s =
     (if reg_dev \<noteq> 0 then (reg_dev, res, s)
      else (let res = insert PlatDevice res
            in if reg_drv \<noteq> 0 then (reg_drv, res - {PlatDriver}, s)
               else (let res = insert PlatDriver res;
                         (_, res, s) = (if bus_match s3c_button_device_name s3c_button_driver_name
                                        then s3c_button_probe region add class_ok res s else (0, res, s))
                     in (0, res, s))))"

text \<open>Unregistering the driver removes it from the device it is bound to.\<close>

definition s3c_button_exit :: "(string \<Rightarrow> string \<Rightarrow> bool) \<Rightarrow> kres set \<Rightarrow> kres set" where
  "s3c_button_exit bus_match res =
     (let res = (if bus_match s3c_button_device_name s3c_button_driver_name then s3c_button_remove res else res)
      in res - {PlatDriver} - {PlatDevice})"

section \<open>The driver in the kernel\<close>

text \<open>
  Each event is a call of the driver with what the kernel decides: an interrupt comes only after it was
  requested, a timer fires when it is due and is no longer pending then, and one process has the device open. The flag
  of a state says whether it is open.
\<close>

datatype button_event =
    Interrupt nat | Tick | Fire nat pin_level | Open bool bool "nat set" | Read bool nat bool | Wake nat bool | Release

inductive button_step ::
  "s3c_button_info list \<Rightarrow> nat \<Rightarrow> button_device \<times> bool \<Rightarrow> button_event \<Rightarrow> button_device \<times> bool \<Rightarrow> bool"
  for bs hz where
  StepInterrupt: "irq \<in> dom (bd_irqs s) \<Longrightarrow> s3c_button_intterupt bs hz irq s = Some (r, s') \<Longrightarrow>
    button_step bs hz (s, op) (Interrupt irq) (s', op)"
| StepTick: "button_step bs hz (s, op) Tick (s\<lparr>jiffies := jiffies s + 1\<rparr>, op)"
| StepFire: "bd_timers s = KBlock ts \<Longrightarrow> i < length ts \<Longrightarrow> ts ! i = Some t \<Longrightarrow> t \<le> jiffies s \<Longrightarrow>
    button_timer_handler bs hz i level (s\<lparr>bd_timers := KBlock (ts[i := None])\<rparr>) = Some s' \<Longrightarrow>
    button_step bs hz (s, op) (Fire i level) (s', op)"
| StepOpen: "button_open mem_t mem_s (\<lambda>irq. irq \<notin> refused) bs s = Some (r, s') \<Longrightarrow>
    button_step bs hz (s, False) (Open mem_t mem_s refused) (s', r = 0)"
| StepRead: "button_read nonblock count user_ok bs s = Some (r, s') \<Longrightarrow>
    button_step bs hz (s, True) (Read nonblock count user_ok) (s', True)"
| StepWake: "button_read_status count user_ok bs s = Some (r, s') \<Longrightarrow>
    button_step bs hz (s, True) (Wake count user_ok) (s', True)"
| StepRelease: "button_release bs s = Some (r, s') \<Longrightarrow> button_step bs hz (s, True) Release (s', False)"

inductive_cases InterruptE [elim!]: "button_step bs hz x (Interrupt irq) y"
inductive_cases TickE [elim!]: "button_step bs hz x Tick y"
inductive_cases FireE [elim!]: "button_step bs hz x (Fire i level) y"
inductive_cases OpenE [elim!]: "button_step bs hz x (Open mem_t mem_s refused) y"
inductive_cases ReadE [elim!]: "button_step bs hz x (Read nonblock count user_ok) y"
inductive_cases WakeE [elim!]: "button_step bs hz x (Wake count user_ok) y"
inductive_cases ReleaseE [elim!]: "button_step bs hz x Release y"

inductive button_steps ::
  "s3c_button_info list \<Rightarrow> nat \<Rightarrow> button_device \<times> bool \<Rightarrow> button_event list \<Rightarrow> button_device \<times> bool \<Rightarrow> bool"
  for bs hz where
  StepsNil: "button_steps bs hz x [] x"
| StepsCons: "button_step bs hz x e y \<Longrightarrow> button_steps bs hz y es z \<Longrightarrow> button_steps bs hz x (e # es) z"

definition probed :: "button_device \<Rightarrow> bool" where
  "probed s \<longleftrightarrow> bd_status s = KNull \<and> bd_timers s = KNull \<and> \<not> ev_press s \<and> bd_irqs s = Map.empty"

text \<open>No interrupt of a button is refused.\<close>

fun irqs_granted :: "s3c_button_info list \<Rightarrow> button_event \<Rightarrow> bool" where
  "irqs_granted bs (Open mem_t mem_s refused) = (\<forall>b\<in>set bs. nIRQ b \<notin> refused)"
| "irqs_granted bs _ = True"

inductive button_reach :: "s3c_button_info list \<Rightarrow> nat \<Rightarrow> button_device \<times> bool \<Rightarrow> bool" for bs hz where
  ReachInit: "probed s \<Longrightarrow> button_reach bs hz (s, False)"
| ReachStep: "button_reach bs hz x \<Longrightarrow> button_step bs hz x e y \<Longrightarrow> irqs_granted bs e \<Longrightarrow> button_reach bs hz y"

section \<open>The invariant\<close>

text \<open>While the device is open, a button is in one of three states, and its timer is pending unless it is up:
  no button can stay pressed or uncertain with nothing to come that changes it.\<close>

definition button_open_inv :: "s3c_button_info list \<Rightarrow> button_device \<Rightarrow> bool" where
  "button_open_inv bs s \<longleftrightarrow>
     (\<exists>st ts. bd_status s = KBlock st \<and> bd_timers s = KBlock ts \<and> length st = length bs \<and> length ts = length bs \<and>
       set st \<subseteq> {BUTTON_UP, BUTTON_DOWN, BUTTON_UNCERTAIN} \<and> (\<forall>i<length bs. ts ! i = None \<longleftrightarrow> st ! i = BUTTON_UP)) \<and>
     bd_irqs s = (\<lambda>irq. find_irq bs irq 0)"

definition button_closed_inv :: "button_device \<Rightarrow> bool" where
  "button_closed_inv s \<longleftrightarrow> (\<forall>ts. bd_timers s \<noteq> KBlock ts) \<and> bd_irqs s = Map.empty"

definition button_inv :: "s3c_button_info list \<Rightarrow> button_device \<times> bool \<Rightarrow> bool" where
  "button_inv bs x \<longleftrightarrow> (if snd x then button_open_inv bs (fst x) else button_closed_inv (fst x))"

lemmas button_states = BUTTON_UP_def BUTTON_DOWN_def BUTTON_UNCERTAIN_def

lemma find_irq_bounds: "find_irq bs irq i = Some j \<Longrightarrow> i \<le> j \<and> j < i + length bs \<and> nIRQ (bs ! (j - i)) = irq"
proof (induction bs irq i rule: find_irq.induct)
  case (2 b bs irq i)
  then show ?case by (cases "irq = nIRQ b") (auto simp: nth_Cons' Suc_le_eq)
qed simp

lemma find_irq_None: "find_irq bs irq i = None \<longleftrightarrow> irq \<notin> nIRQ ` set bs"
  by (induction bs irq i rule: find_irq.induct) auto

lemma find_irq_append: "find_irq (xs @ ys) irq i = (case find_irq xs irq i of Some j \<Rightarrow> Some j | None \<Rightarrow> find_irq ys irq (i + length xs))"
  by (induction xs irq i rule: find_irq.induct) (auto split: option.split)

lemma interrupt_open:
  assumes "button_open_inv bs s"
  shows "\<exists>r s'. s3c_button_intterupt bs hz irq s = Some (r, s') \<and> button_open_inv bs s' \<and> ev_press s' = ev_press s"
proof (cases "find_irq bs irq 0")
  case None
  then show ?thesis using assms by (simp add: s3c_button_intterupt_def)
next
  case (Some i)
  then have i: "i < length bs" using find_irq_bounds [OF Some] by simp
  obtain st ts where inv: "bd_status s = KBlock st" "bd_timers s = KBlock ts" "length st = length bs" "length ts = length bs"
    "set st \<subseteq> {BUTTON_UP, BUTTON_DOWN, BUTTON_UNCERTAIN}" "\<forall>i<length bs. ts ! i = None \<longleftrightarrow> st ! i = BUTTON_UP"
    using assms by (auto simp: button_open_inv_def)
  have irqs: "bd_irqs s = (\<lambda>irq. find_irq bs irq 0)" using assms by (simp add: button_open_inv_def)
  show ?thesis
  proof (cases "st ! i = BUTTON_UP")
    case False
    then show ?thesis using assms Some i inv by (simp add: s3c_button_intterupt_def get_status_def)
  next
    case True
    define s' where "s' = s\<lparr>bd_status := KBlock (st[i := BUTTON_UNCERTAIN]),
      bd_timers := KBlock (ts[i := Some (jiffies s + TIMER_DELAY_DOWN hz)])\<rparr>"
    have "s3c_button_intterupt bs hz irq s = Some (IRQ_HANDLED, s')"
      using True Some i inv(1-4) by (simp add: s3c_button_intterupt_def get_status_def set_status_def mod_timer_def s'_def)
    moreover have "set (st[i := BUTTON_UNCERTAIN]) \<subseteq> {BUTTON_UP, BUTTON_DOWN, BUTTON_UNCERTAIN}"
      using inv(5) set_update_subset_insert [of st i BUTTON_UNCERTAIN] by auto
    ultimately show ?thesis
      using inv irqs i by (auto simp: button_open_inv_def s'_def nth_list_update button_states)
  qed
qed

lemma fire_open:
  assumes "button_open_inv bs s" "bd_timers s = KBlock ts" "i < length ts" "ts ! i = Some t"
  shows "\<exists>s'. button_timer_handler bs hz i level (s\<lparr>bd_timers := KBlock (ts[i := None])\<rparr>) = Some s' \<and> button_open_inv bs s' \<and>
    (ev_press s' \<noteq> ev_press s \<longrightarrow> level = LOWLEVEL \<and> get_status i s = Some BUTTON_UNCERTAIN \<and> get_status i s' = Some BUTTON_DOWN) \<and>
    (level = HIGHLEVEL \<longrightarrow> bd_status s' = map_kptr (\<lambda>st. st[i := BUTTON_UP]) (bd_status s) \<and> bd_timers s' = KBlock (ts[i := None]) \<and>
      jiffies s' = jiffies s)"
proof -
  obtain st where inv: "bd_status s = KBlock st" "length st = length bs" "length ts = length bs"
    "set st \<subseteq> {BUTTON_UP, BUTTON_DOWN, BUTTON_UNCERTAIN}" "\<forall>i<length bs. ts ! i = None \<longleftrightarrow> st ! i = BUTTON_UP"
    using assms by (auto simp: button_open_inv_def)
  have irqs: "bd_irqs s = (\<lambda>irq. find_irq bs irq 0)" using assms by (simp add: button_open_inv_def)
  have i: "i < length bs" using assms(3) inv(3) by simp
  have up: "st ! i \<noteq> BUTTON_UP" using inv(5) i assms(4) by auto
  then have cases: "st ! i = BUTTON_DOWN \<or> st ! i = BUTTON_UNCERTAIN"
    using up subsetD [OF inv(4) nth_mem, of i] inv(2) i by auto
  have sub: "set (st[i := v]) \<subseteq> {BUTTON_UP, BUTTON_DOWN, BUTTON_UNCERTAIN}"
    if "v \<in> {BUTTON_UP, BUTTON_DOWN, BUTTON_UNCERTAIN}" for v
    using inv(4) that set_update_subset_insert [of st i v] by auto
  show ?thesis
  proof (cases level)
    case HIGHLEVEL
    then show ?thesis using inv irqs i sub [of BUTTON_UP]
      by (auto simp: button_timer_handler_def set_status_def get_status_def button_open_inv_def nth_list_update)
  next
    case LOWLEVEL
    show ?thesis
    proof (cases "st ! i = BUTTON_UNCERTAIN")
      case True
      then show ?thesis using inv irqs i sub [of BUTTON_DOWN] LOWLEVEL
        by (auto simp: button_timer_handler_def set_status_def get_status_def mod_timer_def button_open_inv_def nth_list_update button_states)
    next
      case False
      then show ?thesis using inv irqs i up LOWLEVEL
        by (auto simp: button_timer_handler_def set_status_def get_status_def mod_timer_def button_open_inv_def nth_list_update)
    qed
  qed
qed

lemma setup_all:
  assumes "bd_status s = KBlock (replicate m BUTTON_UP)" "bd_timers s = KBlock (replicate m None)" "i + length bs \<le> m"
    "\<forall>b\<in>set bs. nIRQ b \<notin> dom (bd_irqs s) \<and> grant (nIRQ b)" "distinct (map nIRQ bs)"
  shows "\<exists>pins falling. button_setup grant bs i s = Some (None, s\<lparr>bd_pins := pins, bd_falling := falling,
    bd_irqs := (\<lambda>q. case find_irq bs q i of None \<Rightarrow> bd_irqs s q | Some j \<Rightarrow> Some j)\<rparr>)"
  using assms
proof (induction bs arbitrary: i s)
  case Nil
  then show ?case by (auto intro!: exI [of _ "bd_pins s"] exI [of _ "bd_falling s"])
next
  case (Cons b bs)
  define s1 where "s1 = s\<lparr>bd_pins := (bd_pins s)(gpio b \<mapsto> setting b), bd_falling := insert (nIRQ b) (bd_falling s),
    bd_irqs := (bd_irqs s)(nIRQ b \<mapsto> i)\<rparr>"
  have i: "i < m" using Cons.prems(3) by simp
  have st: "set_status i BUTTON_UP s = Some s"
    using Cons.prems(1) i list_update_id [of "replicate m BUTTON_UP" i] by (cases s) (simp add: set_status_def)
  have up: "(replicate m (None :: nat option))[i := None] = replicate m None"
    using list_update_id [of "replicate m (None :: nat option)" i] i by simp
  have tm: "s\<lparr>bd_timers := KBlock (replicate m None), bd_pins := p, bd_falling := f\<rparr> = s\<lparr>bd_pins := p, bd_falling := f\<rparr>" for p f
    using Cons.prems(2) by (cases s) simp
  have step: "button_setup grant (b # bs) i s = button_setup grant bs (i + 1) s1"
    using Cons.prems(2,4) i by (simp add: st up tm s1_def)
  have p: "bd_status s1 = KBlock (replicate m BUTTON_UP)" "bd_timers s1 = KBlock (replicate m None)" "i + 1 + length bs \<le> m"
    "\<forall>b\<in>set bs. nIRQ b \<notin> dom (bd_irqs s1) \<and> grant (nIRQ b)" "distinct (map nIRQ bs)"
    using Cons.prems by (auto simp: s1_def image_iff)
  obtain pins falling where rest: "button_setup grant bs (i + 1) s1 = Some (None, s1\<lparr>bd_pins := pins, bd_falling := falling,
      bd_irqs := (\<lambda>q. case find_irq bs q (i + 1) of None \<Rightarrow> bd_irqs s1 q | Some j \<Rightarrow> Some j)\<rparr>)"
    using Cons.IH [OF p] by blast
  have irqs: "(\<lambda>q. case find_irq bs q (i + 1) of None \<Rightarrow> bd_irqs s1 q | Some j \<Rightarrow> Some j) =
      (\<lambda>q. case find_irq (b # bs) q i of None \<Rightarrow> bd_irqs s q | Some j \<Rightarrow> Some j)"
  proof
    fix q
    have "find_irq bs (nIRQ b) (i + 1) = None" using Cons.prems(5) by (auto simp: find_irq_None)
    then show "(case find_irq bs q (i + 1) of None \<Rightarrow> bd_irqs s1 q | Some j \<Rightarrow> Some j) =
        (case find_irq (b # bs) q i of None \<Rightarrow> bd_irqs s q | Some j \<Rightarrow> Some j)"
      by (cases "q = nIRQ b") (simp_all add: s1_def split: option.split)
  qed
  have "button_setup grant (b # bs) i s = Some (None, s\<lparr>bd_pins := pins, bd_falling := falling,
      bd_irqs := (\<lambda>q. case find_irq (b # bs) q i of None \<Rightarrow> bd_irqs s q | Some j \<Rightarrow> Some j)\<rparr>)"
    unfolding step rest irqs by (simp add: s1_def)
  then show ?case by blast
qed

lemma open_inv:
  assumes "bd_irqs s = Map.empty" "distinct (map nIRQ bs)" "\<forall>b\<in>set bs. grant (nIRQ b)"
  shows "\<exists>r s'. button_open mem_t mem_s grant bs s = Some (r, s') \<and> button_inv bs (s', r = 0)"
proof (cases "mem_t \<and> mem_s")
  case False
  then show ?thesis using assms(1) by (auto simp: button_open_def Let_def button_inv_def button_closed_inv_def ENOMEM_def)
next
  case True
  let ?n = "length bs"
  define s0 where "s0 = s\<lparr>bd_timers := KBlock (replicate ?n None), bd_status := KBlock (replicate ?n 0)\<rparr>"
  obtain pins falling where "button_setup grant bs 0 s0 = Some (None, s0\<lparr>bd_pins := pins, bd_falling := falling,
      bd_irqs := (\<lambda>q. case find_irq bs q 0 of None \<Rightarrow> bd_irqs s0 q | Some j \<Rightarrow> Some j)\<rparr>)"
    using setup_all [of s0 ?n 0 bs grant] assms by (auto simp: s0_def BUTTON_UP_def)
  moreover have "(\<lambda>q. case find_irq bs q 0 of None \<Rightarrow> bd_irqs s0 q | Some j \<Rightarrow> Some j) = (\<lambda>q. find_irq bs q 0)"
    using assms(1) by (auto simp: s0_def fun_eq_iff split: option.split)
  ultimately show ?thesis
    using True by (auto simp: button_open_def Let_def button_inv_def button_open_inv_def s0_def BUTTON_UP_def)
qed

lemma teardown:
  assumes "bd_timers s = KBlock ts" "i + length bs \<le> length ts"
  shows "\<exists>ts'. button_teardown bs i s = Some (s\<lparr>bd_irqs := (\<lambda>q. if q \<in> nIRQ ` set bs then None else bd_irqs s q), bd_timers := KBlock ts'\<rparr>)"
  using assms
proof (induction bs arbitrary: i s ts)
  case Nil
  then show ?case by (auto intro!: exI [of _ ts])
next
  case (Cons b bs)
  define s1 where "s1 = s\<lparr>bd_irqs := (bd_irqs s)(nIRQ b := None), bd_timers := KBlock (ts[i := None])\<rparr>"
  have "button_teardown (b # bs) i s = button_teardown bs (i + 1) s1"
    using Cons.prems by (simp add: s1_def)
  moreover have "bd_timers s1 = KBlock (ts[i := None])" "i + 1 + length bs \<le> length (ts[i := None])"
    using Cons.prems(2) by (simp_all add: s1_def)
  then obtain ts' where "button_teardown bs (i + 1) s1 =
      Some (s1\<lparr>bd_irqs := (\<lambda>q. if q \<in> nIRQ ` set bs then None else bd_irqs s1 q), bd_timers := KBlock ts'\<rparr>)"
    using Cons.IH [of s1 "ts[i := None]" "i + 1"] by blast
  moreover have "(\<lambda>q. if q \<in> nIRQ ` set bs then None else bd_irqs s1 q) = (\<lambda>q. if q \<in> nIRQ ` set (b # bs) then None else bd_irqs s q)"
    by (auto simp: s1_def fun_eq_iff)
  ultimately show ?case by (auto simp: s1_def)
qed

lemma release_inv:
  assumes "button_open_inv bs s"
  shows "\<exists>s'. button_release bs s = Some (0, s') \<and> button_closed_inv s'"
proof -
  obtain ts where ts: "bd_timers s = KBlock ts" "length ts = length bs" using assms by (auto simp: button_open_inv_def)
  obtain ts' where "button_teardown bs 0 s = Some (s\<lparr>bd_irqs := (\<lambda>q. if q \<in> nIRQ ` set bs then None else bd_irqs s q), bd_timers := KBlock ts'\<rparr>)"
    using teardown [OF ts(1), of 0 bs] ts(2) by auto
  moreover have "(\<lambda>q. if q \<in> nIRQ ` set bs then None else bd_irqs s q) = Map.empty"
    using assms find_irq_None [of bs _ 0] by (auto simp: button_open_inv_def fun_eq_iff)
  ultimately show ?thesis by (simp add: button_release_def button_closed_inv_def)
qed

lemma read_status_inv:
  assumes "button_open_inv bs s"
  shows "\<exists>r s'. button_read_status count user_ok bs s = Some (r, s') \<and> s' = s\<lparr>ev_press := False\<rparr>"
  using assms by (cases user_ok) (auto simp: button_read_status_def button_open_inv_def Let_def)

lemma read_inv:
  assumes "button_open_inv bs s"
  shows "\<exists>r s'. button_read nonblock count user_ok bs s = Some (r, s') \<and> (s' = s \<or> s' = s\<lparr>ev_press := False\<rparr>)"
  using read_status_inv [OF assms, of count user_ok] by (auto simp: button_read_def)

lemma inv_ev_press [simp]: "button_open_inv bs (s\<lparr>ev_press := v\<rparr>) = button_open_inv bs s"
  "button_open_inv bs (s\<lparr>jiffies := j\<rparr>) = button_open_inv bs s" "button_closed_inv (s\<lparr>jiffies := j\<rparr>) = button_closed_inv s"
  by (simp_all add: button_open_inv_def button_closed_inv_def)

lemma step_inv:
  assumes "button_step bs hz x e y" "irqs_granted bs e" "button_inv bs x" "distinct (map nIRQ bs)"
  shows "button_inv bs y"
  using assms
proof (cases rule: button_step.cases)
  case (StepInterrupt irq s r s' op)
  then have "op" using assms(3) by (cases op) (auto simp: button_inv_def button_closed_inv_def)
  then show ?thesis using StepInterrupt assms(3) interrupt_open [of bs s hz irq] by (auto simp: button_inv_def)
next
  case (StepTick s op)
  then show ?thesis using assms(3) by (cases op) (simp_all add: button_inv_def)
next
  case (StepFire s ts i t level s' op)
  then have "op" using assms(3) by (cases op) (auto simp: button_inv_def button_closed_inv_def)
  then show ?thesis using StepFire assms(3) fire_open [of bs s ts i t hz level] by (auto simp: button_inv_def)
next
  case (StepOpen mem_t mem_s refused s r s')
  then show ?thesis
    using assms(2-4) open_inv [of s bs "\<lambda>irq. irq \<notin> refused" mem_t mem_s] by (auto simp: button_inv_def button_closed_inv_def)
next
  case (StepRead nonblock count user_ok s r s')
  then show ?thesis using assms(3) read_inv [of bs s nonblock count user_ok] by (auto simp: button_inv_def)
next
  case (StepWake count user_ok s r s')
  then show ?thesis using assms(3) read_status_inv [of bs s count user_ok] by (auto simp: button_inv_def)
next
  case (StepRelease s r s')
  then show ?thesis using assms(3) release_inv [of bs s] by (auto simp: button_inv_def)
qed

lemma reach_inv: "button_reach bs hz x \<Longrightarrow> distinct (map nIRQ bs) \<Longrightarrow> button_inv bs x"
proof (induction rule: button_reach.induct)
  case (ReachInit s)
  then show ?case by (simp add: button_inv_def button_closed_inv_def probed_def)
next
  case (ReachStep x e y)
  then show ?case using step_inv by blast
qed

section \<open>What is read\<close>

lemma button_state_bit:
  assumes "x \<in> {BUTTON_UP, BUTTON_DOWN, BUTTON_UNCERTAIN}" "k < 32"
  shows "bit (push_bit i (ucast x) :: u32) k \<longleftrightarrow> (k = i \<and> x = BUTTON_DOWN) \<or> (k = i + 1 \<and> x = BUTTON_UNCERTAIN)"
proof -
  consider "x = 0" | "x = 1" | "x = 2" using assms(1) by (auto simp: button_states)
  then show ?thesis
  proof cases
    case 2
    have "(ucast x :: u32) = 1" using 2 by simp
    then show ?thesis using 2 assms(2) by (auto simp: button_states bit_exp_iff)
  next
    case 3
    have "(ucast x :: u32) = 2" using 3 by simp
    then show ?thesis using 3 assms(2) by (auto simp: button_states bit_push_bit_iff bit_2_iff)
  qed (simp add: button_states)
qed

lemma status_word_bit:
  assumes "set st \<subseteq> {BUTTON_UP, BUTTON_DOWN, BUTTON_UNCERTAIN}" "k < 32"
  shows "bit (status_word st i) k \<longleftrightarrow>
    (\<exists>j<length st. (k = i + j \<and> st ! j = BUTTON_DOWN) \<or> (k = i + j + 1 \<and> st ! j = BUTTON_UNCERTAIN))"
  using assms
proof (induction st i rule: status_word.induct)
  case (2 x xs i)
  have "bit (status_word (x # xs) i) k \<longleftrightarrow> (k = i \<and> x = BUTTON_DOWN) \<or> (k = i + 1 \<and> x = BUTTON_UNCERTAIN) \<or> bit (status_word xs (i + 1)) k"
    using button_state_bit [of x k i] 2(2,3) by (simp add: bit_or_iff)
  then show ?case using 2 by (simp add: Ex_less_Suc2)
qed simp

section \<open>Ordering of events\<close>

lemma steps_append: "button_steps bs hz x es y \<Longrightarrow> button_steps bs hz y fs z \<Longrightarrow> button_steps bs hz x (es @ fs) z"
  by (induction rule: button_steps.induct) (auto intro: button_steps.intros)

lemma steps_ticks: "button_steps bs hz (s, op) (replicate n Tick) (s\<lparr>jiffies := jiffies s + n\<rparr>, op)"
proof (induction n arbitrary: s)
  case 0
  then show ?case by (simp add: StepsNil)
next
  case (Suc n)
  show ?case
    using StepsCons [OF StepTick Suc [of "s\<lparr>jiffies := jiffies s + 1\<rparr>"]] by simp
qed

lemma fire_all:
  "button_open_inv bs s \<Longrightarrow> bd_timers s = KBlock ts \<Longrightarrow> \<forall>t\<in>set ts. \<forall>u. t = Some u \<longrightarrow> u \<le> jiffies s \<Longrightarrow>
   \<exists>es s'. button_steps bs hz (s, True) es (s', True) \<and> set es \<subseteq> range (\<lambda>i. Fire i HIGHLEVEL) \<and>
     bd_status s' = KBlock (replicate (length bs) BUTTON_UP)"
proof (induction "length (filter (\<lambda>t. t \<noteq> None) ts)" arbitrary: s ts)
  case 0
  then have none: "\<forall>i<length ts. ts ! i = None" by (simp add: filter_empty_conv)
  obtain st where st: "bd_status s = KBlock st" "length st = length bs" "length ts = length bs" "\<forall>i<length bs. ts ! i = None \<longleftrightarrow> st ! i = BUTTON_UP"
    using 0(2,3) by (auto simp: button_open_inv_def)
  have "st = replicate (length bs) BUTTON_UP" by (rule nth_equalityI) (use st none in auto)
  then show ?case using st(1) StepsNil [of bs hz "(s, True)"] by (intro exI [of _ "[]"] exI [of _ s]) simp
next
  case (Suc n)
  then have "filter (\<lambda>t. t \<noteq> None) ts \<noteq> []" by auto
  then obtain i t where i: "i < length ts" "ts ! i = Some t" by (auto simp: filter_empty_conv in_set_conv_nth)
  then have due: "t \<le> jiffies s" using Suc(5) nth_mem [OF i(1)] by auto
  obtain s1 where s1: "button_timer_handler bs hz i HIGHLEVEL (s\<lparr>bd_timers := KBlock (ts[i := None])\<rparr>) = Some s1"
    "button_open_inv bs s1" "bd_timers s1 = KBlock (ts[i := None])" "jiffies s1 = jiffies s"
    using fire_open [OF Suc(3,4) i, of hz HIGHLEVEL] by auto
  have "n = length (filter (\<lambda>t. t \<noteq> None) (ts[i := None]))"
  proof -
    let ?P = "\<lambda>t. t \<noteq> (None :: nat option)"
    have "filter ?P ts = filter ?P (take i ts) @ Some t # filter ?P (drop (Suc i) ts)"
      using arg_cong [OF id_take_nth_drop [OF i(1)], of "filter ?P"] i(2) by simp
    then have "length (filter ?P ts) = Suc (length (filter ?P (take i ts)) + length (filter ?P (drop (Suc i) ts)))" by simp
    then show ?thesis using Suc(2) i(1) by (simp add: upd_conv_take_nth_drop)
  qed
  moreover have "\<forall>t\<in>set (ts[i := None]). \<forall>u. t = Some u \<longrightarrow> u \<le> jiffies s1"
    using Suc(5) s1(4) set_update_subset_insert [of ts i None] by fastforce
  ultimately obtain es s' where es: "button_steps bs hz (s1, True) es (s', True)" "set es \<subseteq> range (\<lambda>i. Fire i HIGHLEVEL)"
    "bd_status s' = KBlock (replicate (length bs) BUTTON_UP)"
    using Suc(1) [OF _ s1(2,3)] by blast
  have "button_steps bs hz (s, True) (Fire i HIGHLEVEL # es) (s', True)"
    using StepsCons [OF StepFire [OF Suc(4) i due s1(1)] es(1)] .
  then show ?case using es by (intro exI [of _ "Fire i HIGHLEVEL # es"] exI [of _ s']) auto
qed

lemma set_status_ev_press: "set_status i v s = Some s' \<Longrightarrow> ev_press s' = ev_press s"
  by (auto simp: set_status_def)

lemma setup_ev_press: "button_setup grant bs i s = Some (f, s') \<Longrightarrow> ev_press s' = ev_press s"
  by (induction grant bs i s rule: button_setup.induct)
    (auto simp: Let_def split: if_splits dest!: set_status_ev_press)

lemma unwind_ev_press: "open_unwind bs i s = Some s' \<Longrightarrow> ev_press s' = ev_press s"
  by (induction bs i s rule: open_unwind.induct) auto

lemma open_ev_press: "button_open mem_t mem_s grant bs s = Some (r, s') \<Longrightarrow> ev_press s' = ev_press s"
  by (auto simp: button_open_def Let_def split: if_splits option.splits dest!: setup_ev_press unwind_ev_press)

lemma release_ev_press: "button_release bs s = Some (r, s') \<Longrightarrow> ev_press s' = ev_press s"
proof -
  have "button_teardown bs i s = Some s' \<Longrightarrow> ev_press s' = ev_press s" for i s s'
    by (induction bs i s rule: button_teardown.induct) auto
  then show "button_release bs s = Some (r, s') \<Longrightarrow> ev_press s' = ev_press s" by (force simp: button_release_def)
qed

section \<open>The error path of the open\<close>

lemma setup_append:
  "button_setup grant (xs @ ys) i s =
     (case button_setup grant xs i s of
        None \<Rightarrow> None
      | Some (Some f, s') \<Rightarrow> Some (Some f, s')
      | Some (None, s') \<Rightarrow> button_setup grant ys (i + length xs) s')"
  by (induction xs arbitrary: i s) (auto simp: Let_def split: Option.bind_splits option.splits)

lemma unwind_irqs:
  "k < length bs \<Longrightarrow>
   open_unwind bs (Suc k) s = Some (s\<lparr>bd_irqs := (\<lambda>q. if q \<in> nIRQ ` set (take k (drop 1 bs)) then None else bd_irqs s q)\<rparr>)"
proof (induction k arbitrary: s)
  case (Suc k)
  define s1 where "s1 = s\<lparr>bd_irqs := (bd_irqs s)(nIRQ (bs ! Suc k) := None)\<rparr>"
  have "open_unwind bs (Suc (Suc k)) s = open_unwind bs (Suc k) s1" using Suc.prems by (simp add: s1_def)
  moreover have "take (Suc k) (drop 1 bs) = take k (drop 1 bs) @ [bs ! Suc k]"
    using Suc.prems by (simp add: take_Suc_conv_app_nth)
  then have "(\<lambda>q. if q \<in> nIRQ ` set (take k (drop 1 bs)) then None else bd_irqs s1 q) =
      (\<lambda>q. if q \<in> nIRQ ` set (take (Suc k) (drop 1 bs)) then None else bd_irqs s q)"
    by (auto simp: s1_def fun_eq_iff)
  ultimately show ?case using Suc.IH [of s1] Suc.prems by (simp add: s1_def)
qed simp

lemma setup_refused:
  assumes "bd_irqs s = Map.empty" "distinct (map nIRQ bs)" "k < length bs" "\<not> grant (nIRQ (bs ! k))" "\<forall>j<k. grant (nIRQ (bs ! j))"
    "bd_status s = KBlock (replicate (length bs) BUTTON_UP)" "bd_timers s = KBlock (replicate (length bs) None)"
  shows "\<exists>s'. button_setup grant bs 0 s = Some (Some k, s') \<and> bd_irqs s' = (\<lambda>q. find_irq (take k bs) q 0)"
proof -
  have bs: "bs = take k bs @ bs ! k # drop (Suc k) bs" by (rule id_take_nth_drop [OF assms(3)])
  have "\<forall>b\<in>set (take k bs). grant (nIRQ b)" using assms(3,5) by (auto simp: in_set_conv_nth)
  moreover have "distinct (map nIRQ (take k bs))" using assms(2) by (metis distinct_take take_map)
  ultimately obtain pins falling where pre: "button_setup grant (take k bs) 0 s = Some (None, s\<lparr>bd_pins := pins, bd_falling := falling,
      bd_irqs := (\<lambda>q. case find_irq (take k bs) q 0 of None \<Rightarrow> bd_irqs s q | Some j \<Rightarrow> Some j)\<rparr>)"
    using setup_all [OF assms(6,7), of 0 "take k bs" grant] assms(1,3) by auto
  have irqs: "(\<lambda>q. case find_irq (take k bs) q 0 of None \<Rightarrow> bd_irqs s q | Some j \<Rightarrow> Some j) = (\<lambda>q. find_irq (take k bs) q 0)"
    using assms(1) by (auto simp: fun_eq_iff split: option.split)
  have "button_setup grant bs 0 s = button_setup grant (bs ! k # drop (Suc k) bs) k
      (s\<lparr>bd_pins := pins, bd_falling := falling, bd_irqs := (\<lambda>q. find_irq (take k bs) q 0)\<rparr>)"
    by (subst bs, subst setup_append) (use pre irqs assms(3) in simp)
  then show ?thesis using assms(3,4,6,7) by (simp add: set_status_def)
qed

section \<open>A run\<close>

text \<open>The device is opened, the first button is pushed down and stays down; \<open>HZ\<close> is 50.\<close>

definition demo_buttons :: "s3c_button_info list" where
  "demo_buttons = s3c_buttons (\<lambda>n. 16 + n) (\<lambda>n. 160 + n) (\<lambda>n. 2)"

definition demo_probed :: button_device where
  "demo_probed = \<lparr>bd_status = KNull, bd_timers = KNull, ev_press = False, bd_irqs = Map.empty, bd_pins = Map.empty,
     bd_falling = {}, jiffies = 0\<rparr>"

definition demo_state :: "u8 list \<Rightarrow> nat option list \<Rightarrow> bool \<Rightarrow> nat \<Rightarrow> button_device" where
  "demo_state st ts ev j = \<lparr>bd_status = KBlock st, bd_timers = KBlock ts, ev_press = ev,
     bd_irqs = [16 \<mapsto> 0, 18 \<mapsto> 1, 19 \<mapsto> 2, 20 \<mapsto> 3], bd_pins = [160 \<mapsto> 2, 162 \<mapsto> 2, 163 \<mapsto> 2, 164 \<mapsto> 2],
     bd_falling = {16, 18, 19, 20}, jiffies = j\<rparr>"

lemma demo_distinct [simp]: "distinct (map nIRQ demo_buttons)"
  by (simp add: demo_buttons_def s3c_buttons_def)

lemma demo_reach_opened: "button_reach demo_buttons 50 (demo_state [0, 0, 0, 0] [None, None, None, None] False 0, True)"
proof -
  have o: "button_open True True (\<lambda>irq. irq \<notin> {}) demo_buttons demo_probed =
      Some (0, demo_state [0, 0, 0, 0] [None, None, None, None] False 0)"
    by (simp add: button_open_def demo_buttons_def s3c_buttons_def demo_probed_def demo_state_def set_status_def BUTTON_UP_def
        numeral_2_eq_2 numeral_3_eq_3 insert_commute fun_upd_twist)
  have "button_reach demo_buttons 50 (demo_probed, False)"
    by (rule ReachInit) (simp add: probed_def demo_probed_def)
  from ReachStep [OF this StepOpen [OF o]] show ?thesis by simp
qed

lemma demo_reach_uncertain: "button_reach demo_buttons 50 (demo_state [2, 0, 0, 0] [Some 1, None, None, None] False 0, True)"
proof -
  have "s3c_button_intterupt demo_buttons 50 16 (demo_state [0, 0, 0, 0] [None, None, None, None] False 0) =
      Some (IRQ_HANDLED, demo_state [2, 0, 0, 0] [Some 1, None, None, None] False 0)"
    by (simp add: s3c_button_intterupt_def demo_buttons_def s3c_buttons_def demo_state_def get_status_def set_status_def mod_timer_def
        button_states TIMER_DELAY_DOWN_def)
  from ReachStep [OF demo_reach_opened StepInterrupt [OF _ this]] show ?thesis by (simp add: demo_state_def)
qed

lemma demo_reach_due: "button_reach demo_buttons 50 (demo_state [2, 0, 0, 0] [Some 1, None, None, None] False 1, True)"
  using ReachStep [OF demo_reach_uncertain StepTick] by (simp add: demo_state_def)

lemma demo_step_pressed: "button_step demo_buttons 50 (demo_state [2, 0, 0, 0] [Some 1, None, None, None] False 1, True)
  (Fire 0 LOWLEVEL) (demo_state [1, 0, 0, 0] [Some 6, None, None, None] True 1, True)"
  by (rule StepFire [where ts = "[Some 1, None, None, None]" and t = 1])
    (simp_all add: demo_state_def button_timer_handler_def demo_buttons_def s3c_buttons_def get_status_def set_status_def mod_timer_def
      button_states TIMER_DELAY_UP_def)

lemma demo_reach_pressed: "button_reach demo_buttons 50 (demo_state [1, 0, 0, 0] [Some 6, None, None, None] True 1, True)"
  using ReachStep [OF demo_reach_due demo_step_pressed] by simp

section \<open>Properties\<close>





text \<open>A read after a press returns a word whose bit \<open>k\<close> is set when button \<open>k\<close> is down, and also when button \<open>k - 1\<close> is
  uncertain: the states are shifted by one bit only, but take two.\<close>

theorem button_read_reports:
  assumes "distinct (map nIRQ bs)" "button_reach bs hz (s, True)" "ev_press s"
  shows "\<exists>w. button_read nonblock 4 True bs s = Some (RdReturn 4 (word_bytes w), s\<lparr>ev_press := False\<rparr>) \<and>
    (\<forall>k<32. bit w k \<longleftrightarrow> get_status k s = Some BUTTON_DOWN \<or> (\<exists>j. k = j + 1 \<and> get_status j s = Some BUTTON_UNCERTAIN))"
proof -
  obtain st where st: "bd_status s = KBlock st" "length st = length bs" "set st \<subseteq> {BUTTON_UP, BUTTON_DOWN, BUTTON_UNCERTAIN}"
    using reach_inv [OF assms(2,1)] by (auto simp: button_inv_def button_open_inv_def)
  have "button_read nonblock 4 True bs s = Some (RdReturn 4 (word_bytes (status_word st 0)), s\<lparr>ev_press := False\<rparr>)"
    using assms(3) st(1,2) by (simp add: button_read_def button_read_status_def word_bytes_def)
  moreover have "bit (status_word st 0) k \<longleftrightarrow> get_status k s = Some BUTTON_DOWN \<or> (\<exists>j. k = j + 1 \<and> get_status j s = Some BUTTON_UNCERTAIN)"
    if "k < 32" for k
    using status_word_bit [OF st(3) that, of 0] st(1) by (auto simp: get_status_def)
  ultimately show ?thesis by blast
qed

lemma button_read_reports_witness:
  "\<exists>w. button_read True 4 True demo_buttons (demo_state [1, 0, 0, 0] [Some 6, None, None, None] True 1) =
     Some (RdReturn 4 (word_bytes w), demo_state [1, 0, 0, 0] [Some 6, None, None, None] False 1) \<and> bit w 0 \<and> \<not> bit w 1"
  using button_read_reports [OF demo_distinct demo_reach_pressed, of True]
  by (force simp: demo_state_def get_status_def button_states)

text \<open>The press event is raised only when a timer finds the pin low on a button whose press was uncertain.\<close>

theorem button_press_debounced:
  assumes "distinct (map nIRQ bs)" "button_reach bs hz (s, op)" "button_step bs hz (s, op) e (s', op')" "\<not> ev_press s" "ev_press s'"
  shows "\<exists>i. e = Fire i LOWLEVEL \<and> get_status i s = Some BUTTON_UNCERTAIN \<and> get_status i s' = Some BUTTON_DOWN"
proof -
  have inv: "button_inv bs (s, op)" using reach_inv [OF assms(2,1)] .
  show ?thesis using assms(3)
  proof (cases rule: button_step.cases)
    case (StepInterrupt irq r)
    then show ?thesis
      using inv assms(4,5) interrupt_open [of bs s hz irq] by (cases op) (auto simp: button_inv_def button_closed_inv_def)
  next
    case (StepFire ts i t level)
    then show ?thesis
      using inv assms(4,5) fire_open [of bs s ts i t hz level] by (cases op) (auto simp: button_inv_def button_closed_inv_def)
  next
    case (StepOpen mem_t mem_s refused r)
    then show ?thesis using assms(4,5) open_ev_press by blast
  next
    case (StepRead nonblock count user_ok r)
    then show ?thesis using inv assms(4,5) read_inv [of bs s nonblock count user_ok] by (auto simp: button_inv_def)
  next
    case (StepWake count user_ok r)
    then show ?thesis using inv assms(5) read_status_inv [of bs s count user_ok] by (auto simp: button_inv_def)
  next
    case (StepRelease r)
    then show ?thesis using assms(4,5) release_ev_press by blast
  qed (use assms in auto)
qed

lemma button_press_debounced_witness:
  "\<exists>i. Fire 0 LOWLEVEL = Fire i LOWLEVEL \<and> get_status i (demo_state [2, 0, 0, 0] [Some 1, None, None, None] False 1) = Some BUTTON_UNCERTAIN \<and>
     get_status i (demo_state [1, 0, 0, 0] [Some 6, None, None, None] True 1) = Some BUTTON_DOWN"
  by (rule button_press_debounced [OF demo_distinct demo_reach_due demo_step_pressed]) (simp_all add: demo_state_def)

text \<open>Once the buttons are let go they all come up.\<close>

theorem buttons_come_up:
  assumes "distinct (map nIRQ bs)" "button_reach bs hz (s, True)"
  shows "\<exists>es s'. button_steps bs hz (s, True) es (s', True) \<and> set es \<subseteq> insert Tick (range (\<lambda>i. Fire i HIGHLEVEL)) \<and>
    bd_status s' = KBlock (replicate (length bs) BUTTON_UP)"
proof -
  have inv: "button_open_inv bs s" using reach_inv [OF assms(2,1)] by (simp add: button_inv_def)
  then obtain ts where ts: "bd_timers s = KBlock ts" by (auto simp: button_open_inv_def)
  define n where "n = sum_list (map (case_option 0 id) ts)"
  have due: "\<forall>t\<in>set ts. \<forall>u. t = Some u \<longrightarrow> u \<le> jiffies s + n"
  proof (intro ballI allI impI)
    fix t u assume "t \<in> set ts" "t = Some u"
    then have "u \<in> set (map (case_option 0 id) ts)" by force
    then have "u \<le> n" unfolding n_def by (intro member_le_sum_list) simp_all
    then show "u \<le> jiffies s + n" by simp
  qed
  obtain es s' where "button_steps bs hz (s\<lparr>jiffies := jiffies s + n\<rparr>, True) es (s', True)"
    "set es \<subseteq> range (\<lambda>i. Fire i HIGHLEVEL)" "bd_status s' = KBlock (replicate (length bs) BUTTON_UP)"
    using fire_all [of bs "s\<lparr>jiffies := jiffies s + n\<rparr>" ts hz] inv ts due by auto
  then show ?thesis
    using steps_append [OF steps_ticks [of bs hz s True n]]
    by (intro exI [of _ "replicate n Tick @ es"] exI [of _ s']) (auto simp: set_replicate_conv_if)
qed

lemma buttons_come_up_witness:
  "\<exists>es s'. button_steps demo_buttons 50 (demo_state [1, 0, 0, 0] [Some 6, None, None, None] True 1, True) es (s', True) \<and>
     set es \<subseteq> insert Tick (range (\<lambda>i. Fire i HIGHLEVEL)) \<and> bd_status s' = KBlock (replicate (length demo_buttons) BUTTON_UP)"
  by (rule buttons_come_up [OF demo_distinct demo_reach_pressed])

text \<open>The error path of the open: when the interrupt of button 0 is refused it goes to button -1; when that of a later button is
  refused, the interrupt of button 0 stays requested, and its handler then uses the freed status block.\<close>

theorem button_open_refused:
  assumes "distinct (map nIRQ bs)" "bd_irqs s = Map.empty" "k < length bs" "\<not> grant (nIRQ (bs ! k))" "\<forall>j<k. grant (nIRQ (bs ! j))"
  shows "if k = 0 then button_open True True grant bs s = None
    else \<exists>s'. button_open True True grant bs s = Some (- EBUSY, s') \<and> bd_irqs s' = [nIRQ (bs ! 0) \<mapsto> 0] \<and>
      s3c_button_intterupt bs hz (nIRQ (bs ! 0)) s' = None"
proof -
  define s0 where "s0 = s\<lparr>bd_timers := KBlock (replicate (length bs) None), bd_status := KBlock (replicate (length bs) 0)\<rparr>"
  obtain s1 where s1: "button_setup grant bs 0 s0 = Some (Some k, s1)" "bd_irqs s1 = (\<lambda>q. find_irq (take k bs) q 0)"
    using setup_refused [of s0 bs k grant] assms by (auto simp: s0_def BUTTON_UP_def)
  show ?thesis
  proof (cases k)
    case 0
    then show ?thesis using s1 by (simp add: button_open_def s0_def)
  next
    case (Suc j)
    obtain b bs' where bs: "bs = b # bs'" using assms(3) by (cases bs) simp_all
    define rest where "rest = take j bs'"
    have t: "take k bs = b # rest" by (simp add: bs Suc rest_def)
    have "nIRQ b \<notin> nIRQ ` set bs'" using assms(1) by (simp add: bs)
    moreover have "set rest \<subseteq> set bs'" by (simp add: rest_def set_take_subset)
    ultimately have "nIRQ b \<notin> nIRQ ` set rest" by blast
    then have last: "(\<lambda>q. if q \<in> nIRQ ` set rest then None else bd_irqs s1 q) = [nIRQ b \<mapsto> 0]"
      using find_irq_None [of rest _ 1] by (auto simp: s1(2) t fun_eq_iff)
    have "open_unwind bs k (s1\<lparr>bd_status := KFreed\<rparr>) = Some (s1\<lparr>bd_status := KFreed, bd_irqs := [nIRQ b \<mapsto> 0]\<rparr>)"
    proof -
      have "(\<lambda>q. if q \<in> nIRQ ` set (take j (drop 1 bs)) then None else bd_irqs (s1\<lparr>bd_status := KFreed\<rparr>) q) = [nIRQ b \<mapsto> 0]"
        using last by (simp add: bs rest_def cong: if_cong)
      moreover have "j < length bs" using assms(3) Suc by simp
      ultimately show ?thesis using unwind_irqs [of j bs "s1\<lparr>bd_status := KFreed\<rparr>"] unfolding Suc by (simp only:)
    qed
    then have "button_open True True grant bs s = Some (- EBUSY, s1\<lparr>bd_status := KFreed, bd_irqs := [nIRQ b \<mapsto> 0], bd_timers := KFreed\<rparr>)"
      using s1(1) unfolding s0_def by (simp add: button_open_def)
    then show ?thesis using Suc by (simp add: bs s3c_button_intterupt_def get_status_def)
  qed
qed

lemma button_open_refused_witness:
  "\<exists>s'. button_open True True (\<lambda>irq. irq \<noteq> 19) demo_buttons demo_probed = Some (- EBUSY, s') \<and> bd_irqs s' = [16 \<mapsto> 0] \<and>
     s3c_button_intterupt demo_buttons 50 16 s' = None"
proof -
  have "\<forall>j<2::nat. nIRQ (demo_buttons ! j) \<noteq> 19"
    by (simp add: demo_buttons_def s3c_buttons_def less_Suc_eq numeral_2_eq_2)
  then show ?thesis
    using button_open_refused [OF demo_distinct, of demo_probed 2 "\<lambda>irq. irq \<noteq> 19" 50]
    by (simp add: demo_probed_def) (simp add: demo_buttons_def s3c_buttons_def)
qed

text \<open>The platform bus matches by name, so the driver is loaded without ever being probed.\<close>

theorem button_driver_never_probed:
  assumes "\<And>a b. bus_match a b \<longleftrightarrow> a = b"
  shows "s3c_button_init bus_match 0 0 region add class_ok {} s = (0, {PlatDevice, PlatDriver}, s)"
  by (simp add: s3c_button_init_def assms s3c_button_device_name_def s3c_button_driver_name_def insert_commute)

lemma button_driver_never_probed_witness:
  "s3c_button_init (=) 0 0 0 0 True {} demo_probed = (0, {PlatDevice, PlatDriver}, demo_probed)"
  by (rule button_driver_never_probed) simp

end
