(* ===== verification/CircBuf.thy ===== *)
theory CircBuf
  imports Ringbuf
begin

text \<open>
  The circular buffer of the samples (\<open>samples/circ_buf.c\<close>, macros of \<open>circ_buf.h\<close>), with the one size
  that the program uses. It is the second implementation of the byte queue interface
  \<open>byte_fifo\<close>, so the results on all interleavings of writes and reads hold for it too.
\<close>

section \<open>Code\<close>

record circ_buf =
  cb_buf :: "u8 list"
  cb_head :: int
  cb_tail :: int

definition CIRC_BUF_SIZE :: int where "CIRC_BUF_SIZE = 32"

definition CIRC_CNT :: "int \<Rightarrow> int \<Rightarrow> int \<Rightarrow> int" where
  "CIRC_CNT head tail sz = (head - tail) AND (sz - 1)"

definition CIRC_SPACE :: "int \<Rightarrow> int \<Rightarrow> int \<Rightarrow> int" where
  "CIRC_SPACE head tail sz = CIRC_CNT tail (head + 1) sz"

definition CIRC_CNT_TO_END :: "int \<Rightarrow> int \<Rightarrow> int \<Rightarrow> int" where
  "CIRC_CNT_TO_END head tail sz =
     (let e = sz - tail; n = (head + e) AND (sz - 1) in if n < e then n else e)"

definition CIRC_SPACE_TO_END :: "int \<Rightarrow> int \<Rightarrow> int \<Rightarrow> int" where
  "CIRC_SPACE_TO_END head tail sz =
     (let e = sz - 1 - head; n = (e + tail) AND (sz - 1) in if n \<le> e then n else e + 1)"

definition produce_item :: "circ_buf \<Rightarrow> u8 list \<Rightarrow> int \<Rightarrow> (int \<times> circ_buf) option" where
  "produce_item ring data count =
     (let sz = CIRC_SPACE (cb_head ring) (cb_tail ring) CIRC_BUF_SIZE
      in if sz \<ge> 1
         then (let len = (if count \<le> sz then count else sz);
                   to_end_space = CIRC_SPACE_TO_END (cb_head ring) (cb_tail ring) CIRC_BUF_SIZE
               in do {
                 (ring, left, from) \<leftarrow>
                   (if len > to_end_space
                    then do {
                      b \<leftarrow> c_memcpy (cb_buf ring) (cb_head ring) data 0 to_end_space;
                      Some (ring\<lparr>cb_buf := b, cb_head := (cb_head ring + to_end_space) AND (CIRC_BUF_SIZE - 1)\<rparr>,
                            len - to_end_space, to_end_space) }
                    else Some (ring, len, 0));
                 b \<leftarrow> c_memcpy (cb_buf ring) (cb_head ring) data from left;
                 Some (len, ring\<lparr>cb_buf := b, cb_head := (cb_head ring + left) AND (CIRC_BUF_SIZE - 1)\<rparr>) })
         else Some (0, ring))"

definition consume_item :: "circ_buf \<Rightarrow> u8 list \<Rightarrow> int \<Rightarrow> (int \<times> u8 list \<times> circ_buf) option" where
  "consume_item ring buf count =
     (let sz = CIRC_CNT (cb_head ring) (cb_tail ring) CIRC_BUF_SIZE
      in if sz \<ge> 1
         then (let len = (if count \<le> sz then count else sz);
                   to_end_space = CIRC_CNT_TO_END (cb_head ring) (cb_tail ring) CIRC_BUF_SIZE
               in do {
                 (buf, ring, left, from) \<leftarrow>
                   (if len > to_end_space
                    then do {
                      buf \<leftarrow> c_memcpy buf 0 (cb_buf ring) (cb_tail ring) to_end_space;
                      Some (buf, ring\<lparr>cb_tail := (cb_tail ring + to_end_space) AND (CIRC_BUF_SIZE - 1)\<rparr>,
                            len - to_end_space, to_end_space) }
                    else Some (buf, ring, len, 0));
                 buf \<leftarrow> c_memcpy buf from (cb_buf ring) (cb_tail ring) left;
                 Some (len, buf, ring\<lparr>cb_tail := (cb_tail ring + left) AND (CIRC_BUF_SIZE - 1)\<rparr>) })
         else Some (0, buf, ring))"

section \<open>Invariant and abstraction\<close>

definition cb_wf :: "circ_buf \<Rightarrow> bool" where
  "cb_wf cb \<longleftrightarrow> length (cb_buf cb) = 32 \<and> 0 \<le> cb_head cb \<and> cb_head cb < 32 \<and> 0 \<le> cb_tail cb \<and> cb_tail cb < 32"

definition cb_count :: "circ_buf \<Rightarrow> nat" where
  "cb_count cb = nat ((cb_head cb - cb_tail cb) mod 32)"

definition cb_bytes :: "circ_buf \<Rightarrow> u8 list" where
  "cb_bytes cb = ring_slice (cb_buf cb) (nat (cb_tail cb)) (cb_count cb)"

definition cb_room :: "circ_buf \<Rightarrow> nat" where
  "cb_room cb = 31 - cb_count cb"

lemma and_31 [simp]: "(x :: int) AND 31 = x mod 32"
  using and_pow2_mask [of x 5] by simp

lemma cb_positions:
  assumes "cb_wf cb"
  obtains w r d where "cb_head cb = int w" "cb_tail cb = int r" "cb_count cb = d" "w < 32" "r < 32" "d < 32"
    "w = (r + d) mod 32" "length (cb_buf cb) = 32"
proof -
  let ?w = "nat (cb_head cb)" and ?r = "nat (cb_tail cb)"
  have h: "cb_head cb = int ?w" "cb_tail cb = int ?r" "?w < 32" "?r < 32" using assms by (auto simp: cb_wf_def)
  have c: "int (cb_count cb) = (int ?w - int ?r) mod 32"
    unfolding cb_count_def h(1,2) [symmetric] by simp
  then have "int (?r + cb_count cb) mod 32 = int ?w" using h(3) by (simp add: mod_add_right_eq)
  then have "?w = (?r + cb_count cb) mod 32" by (metis of_nat_eq_iff of_nat_numeral zmod_int)
  moreover have "cb_count cb < 32" using c by (metis of_nat_less_iff of_nat_numeral pos_mod_bound zero_less_numeral)
  ultimately show thesis using that [of ?w ?r "cb_count cb"] h assms by (simp add: cb_wf_def)
qed

lemma cb_count_eq:
  assumes "cb_head cb = int w" "cb_tail cb = int r" "w mod 32 = (r + d) mod 32" "d < 32"
  shows "cb_count cb = d"
proof -
  have "(int w - int r) mod 32 = (int (r + d) - int r) mod 32"
    using assms(3) by (metis mod_diff_left_eq of_nat_numeral zmod_int)
  then show ?thesis using assms by (simp add: cb_count_def)
qed

lemma mod_32I: "x = y + 32 * k \<Longrightarrow> 0 \<le> y \<Longrightarrow> y < 32 \<Longrightarrow> (x :: int) mod 32 = y"
  by simp

lemma circ_macros:
  assumes "w < 32" "r < 32" "d < 32" "w = (r + d) mod 32"
  shows "CIRC_CNT (int w) (int r) 32 = int d" "CIRC_SPACE (int w) (int r) 32 = int (31 - d)"
    "CIRC_CNT_TO_END (int w) (int r) 32 = int (min d (32 - r))"
    "CIRC_SPACE_TO_END (int w) (int r) 32 = int (min (31 - d) (32 - w))"
proof -
  define k :: int where "k = (if r + d < 32 then 0 else 1)"
  have "w = (if r + d < 32 then r + d else r + d - 32)" using assms by (simp add: mod_if)
  then have w: "int w = int r + int d - 32 * k" by (auto simp: k_def)
  have m: "(int w - int r) mod 32 = int d" "(int r - (int w + 1)) mod 32 = 31 - int d"
    "(int w + (32 - int r)) mod 32 = int d" "(32 - 1 - int w + int r) mod 32 = 31 - int d"
    using w assms(3)
    by (intro mod_32I [of _ _ "- k"] mod_32I [of _ _ "k - 1"] mod_32I [of _ _ "1 - k"] mod_32I [of _ _ k]; simp)+
  have a: "(x :: int) AND (32 - 1) = x mod 32" for x by simp
  show "CIRC_CNT (int w) (int r) 32 = int d" unfolding CIRC_CNT_def a m ..
  show "CIRC_SPACE (int w) (int r) 32 = int (31 - d)"
    unfolding CIRC_SPACE_def CIRC_CNT_def a m using assms(3) by simp
  show "CIRC_CNT_TO_END (int w) (int r) 32 = int (min d (32 - r))"
    unfolding CIRC_CNT_TO_END_def Let_def a m using assms(2) by (auto simp: min_def)
  show "CIRC_SPACE_TO_END (int w) (int r) 32 = int (min (31 - d) (32 - w))"
    unfolding CIRC_SPACE_TO_END_def Let_def a m using assms(1,3) by (auto simp: min_def)
qed

section \<open>The two operations\<close>

text \<open>The state with the bytes \<open>ys\<close> appended.\<close>

lemma produce_item_spec:
  assumes "cb_wf cb"
  shows "\<exists>cb'. produce_item cb xs (int (length xs)) = Some (int (min (cb_room cb) (length xs)), cb') \<and>
    cb_wf cb' \<and> cb_bytes cb' = cb_bytes cb @ take (cb_room cb) xs \<and>
    cb_count cb' = cb_count cb + min (cb_room cb) (length xs)"
proof -
  obtain w r d where p: "cb_head cb = int w" "cb_tail cb = int r" "cb_count cb = d" "w < 32" "r < 32" "d < 32"
    "w = (r + d) mod 32" "length (cb_buf cb) = 32"
    using cb_positions [OF assms] by blast
  note m = circ_macros [OF p(4-7)]
  define n where "n = min (31 - d) (length xs)"
  define ys where "ys = take n xs"
  let ?b = "cb_buf cb"
  have n: "length ys = n" "n \<le> length xs" "d + n < 32" "n \<le> 31 - d" using p(6) by (auto simp: n_def ys_def)
  have tk: "take (cb_room cb) xs = ys" "min (cb_room cb) (length xs) = n"
    by (auto simp: ys_def n_def cb_room_def p(3) min_def)
  have bytes: "cb_bytes cb = ring_slice ?b r d" by (simp add: cb_bytes_def p)
  have post: "cb_wf cb' \<and> cb_bytes cb' = cb_bytes cb @ ys \<and> cb_count cb' = d + n"
    if "cb' = cb\<lparr>cb_buf := b', cb_head := int w'\<rparr>" "w' < 32" "w' mod 32 = (w + n) mod 32" "length b' = 32"
      "ring_slice b' r (d + n) = ring_slice ?b r d @ ys" for cb' b' w'
  proof -
    have "w' mod 32 = (r + (d + n)) mod 32" using that(3) p(7) by (simp add: mod_add_left_eq add.assoc)
    then have "cb_count cb' = d + n" using that(1) p(2) n(3) by (intro cb_count_eq [of _ w' r]) simp_all
    then show ?thesis using that p bytes by (simp add: cb_wf_def cb_bytes_def)
  qed
  have clip: "(if int (length xs) \<le> int (31 - d) then int (length xs) else int (31 - d)) = int n" by (auto simp: n_def)
  show ?thesis
  proof (cases "d = 31")
    case True
    have "produce_item cb xs (int (length xs)) = Some (0, cb)"
      using m(2) True by (simp add: produce_item_def Let_def p(1,2) CIRC_BUF_SIZE_def)
    then show ?thesis using assms True p(3) tk by (simp add: n_def cb_room_def)
  next
    case False
    then have some: "(int (31 - d) \<ge> 1) = True" using p(6) by simp
    show ?thesis
    proof (cases "w + n \<le> 32")
      case True
      let ?b' = "take w ?b @ ys @ drop (w + n) ?b"
      let ?cb' = "cb\<lparr>cb_buf := ?b', cb_head := int ((w + n) mod 32)\<rparr>"
      have "\<not> int n > int (min (31 - d) (32 - w))" using True n(4) by simp
      moreover have "c_memcpy ?b (int w) xs 0 (int n) = Some ?b'"
        using c_memcpy_nat [of ?b w xs 0 n] True p(8) n(2) by (simp add: ys_def)
      ultimately have "produce_item cb xs (int (length xs)) = Some (int n, ?cb')"
        unfolding produce_item_def CIRC_BUF_SIZE_def p(1,2) m Let_def clip some if_True
        by (simp add: p(1,2) zmod_int)
      moreover have "ring_slice ?b' r (d + n) = ring_slice ?b r d @ ys"
        using ring_append_one [of w ?b r d ys] p n True by simp
      ultimately show ?thesis
        using post [of ?cb' "(w + n) mod 32" ?b'] p(3,8) n(1) True unfolding tk by simp
    next
      case False
      let ?k = "32 - w"
      define j where "j = n - ?k"
      have j: "n - ?k = j" "j < 32" "n = ?k + j" "w \<le> 32" using False p(4) n(3) by (simp_all add: j_def)
      let ?b' = "drop ?k ys @ drop j (take w ?b) @ take ?k ys"
      let ?cb' = "cb\<lparr>cb_buf := ?b', cb_head := int j\<rparr>"
      have te: "min (31 - d) (32 - w) = ?k" using False n(4) by simp
      have c1: "c_memcpy ?b (int w) xs 0 (int ?k) = Some (take w ?b @ take ?k xs)"
        and c2: "c_memcpy (take w ?b @ take ?k xs) 0 xs (int ?k) (int j) = Some ?b'"
        using c_memcpy_wrap_in [of w ?b n xs] p(4,8) n False by (simp_all add: ys_def j_def)
      have i: "(int n > int ?k) = True" "int n - int ?k = int j" "(int w + int ?k) mod 32 = 0" "(0 + int j) mod 32 = int j"
        using False j by auto
      have a: "(x :: int) AND (32 - 1) = x mod 32" for x by simp
      have pr: "produce_item cb xs (int (length xs)) = Some (int n, ?cb')"
        unfolding produce_item_def CIRC_BUF_SIZE_def p(1,2) m Let_def clip te some if_True i a c1
        using c2 i(4) by simp
      have rs: "ring_slice ?b' r (d + n) = ring_slice ?b r d @ ys"
        using ring_append_two [of w ?b r d ys] p n False j(1) by simp
      have md: "j mod 32 = (w + n) mod 32" using j p(4) by simp
      have "length ?b' = 32" using j n(1,3) p(8) by simp
      then show ?thesis using post [OF refl j(2) md _ rs] pr p(3) unfolding tk by simp
    qed
  qed
qed

lemma consume_item_spec:
  assumes "cb_wf cb" "min (length (cb_bytes cb)) m \<le> length out"
  shows "\<exists>cb'. consume_item cb out (int m) =
      Some (int (min (length (cb_bytes cb)) m), take m (cb_bytes cb) @ drop (min (length (cb_bytes cb)) m) out, cb') \<and>
    cb_wf cb' \<and> cb_bytes cb' = drop m (cb_bytes cb) \<and> cb_count cb' = cb_count cb - min (length (cb_bytes cb)) m"
proof -
  obtain w r d where p: "cb_head cb = int w" "cb_tail cb = int r" "cb_count cb = d" "w < 32" "r < 32" "d < 32"
    "w = (r + d) mod 32" "length (cb_buf cb) = 32"
    using cb_positions [OF assms(1)] by blast
  note mac = circ_macros [OF p(4-7)]
  define n where "n = min d m"
  let ?b = "cb_buf cb"
  have bytes: "cb_bytes cb = ring_slice ?b r d" by (simp add: cb_bytes_def p)
  then have len: "length (cb_bytes cb) = d" "min (length (cb_bytes cb)) m = n" by (simp_all add: n_def)
  have n: "n \<le> d" "n < 32" "n \<le> length out" using p(6) assms(2) len by (auto simp: n_def)
  have tk: "take m (cb_bytes cb) = ring_slice ?b r n"
    using bytes ring_slice_take [of n d ?b r] len by (auto simp: n_def min_def)
  have dr: "drop m (cb_bytes cb) = ring_slice ?b (r + n) (d - n)"
    using bytes ring_slice_drop [of n d ?b r] len by (auto simp: n_def min_def)
  have post: "cb_wf cb' \<and> cb_bytes cb' = drop m (cb_bytes cb) \<and> cb_count cb' = d - n"
    if "cb' = cb\<lparr>cb_tail := int r'\<rparr>" "r' < 32" "r' mod 32 = (r + n) mod 32" for cb' r'
  proof -
    have "w mod 32 = (r' + (d - n)) mod 32"
      using that(3) p(7) n(1) by (metis add.assoc le_add_diff_inverse mod_add_left_eq mod_mod_trivial)
    then have c: "cb_count cb' = d - n" using that(1) p(1) p(6) by (intro cb_count_eq [of _ w r']) simp_all
    have "ring_slice ?b r' (d - n) = ring_slice ?b (r + n) (d - n)"
      using that(3) p(8) ring_slice_mod by metis
    then show ?thesis using that c p dr by (simp add: cb_wf_def cb_bytes_def)
  qed
  have clip: "(if int m \<le> int d then int m else int d) = int n" by (auto simp: n_def)
  have a: "(x :: int) AND (32 - 1) = x mod 32" for x by simp
  show ?thesis
  proof (cases "d = 0")
    case True
    have "consume_item cb out (int m) = Some (0, out, cb)"
      using mac(1) True by (simp add: consume_item_def Let_def p(1,2) CIRC_BUF_SIZE_def)
    then show ?thesis using assms(1) True p(3) len by simp
  next
    case False
    then have some: "(int d \<ge> 1) = True" by simp
    show ?thesis
    proof (cases "r + n \<le> 32")
      case True
      let ?cb' = "cb\<lparr>cb_tail := int ((r + n) mod 32)\<rparr>"
      have one: "(int n > int (min d (32 - r))) = False" using True n(1) by simp
      have "c_memcpy out 0 ?b (int r) (int n) = Some (ring_slice ?b r n @ drop n out)"
        using c_memcpy_nat [of out 0 ?b r n] True p(8) n(3) by (simp add: ring_slice_inner)
      then have "consume_item cb out (int m) = Some (int n, ring_slice ?b r n @ drop n out, ?cb')"
        unfolding consume_item_def CIRC_BUF_SIZE_def p(1,2) mac Let_def clip some if_True one if_False a
        by (simp add: p(1,2) zmod_int)
      then show ?thesis using post [of ?cb' "(r + n) mod 32"] p(3) unfolding tk len(2) by simp
    next
      case False
      let ?k = "32 - r"
      define j where "j = n - ?k"
      have j: "n - ?k = j" "j < 32" "n = ?k + j" using False p(5) n(2) by (simp_all add: j_def)
      let ?cb' = "cb\<lparr>cb_tail := int j\<rparr>"
      have te: "min d (32 - r) = ?k" using False n(1) by simp
      have c1: "c_memcpy out 0 ?b (int r) (int ?k) = Some (drop r ?b @ drop ?k out)"
        and c2: "c_memcpy (drop r ?b @ drop ?k out) (int ?k) ?b 0 (int j) = Some (ring_slice ?b r n @ drop n out)"
        using c_memcpy_wrap_out [of r ?b n out] p(5,8) n False by (simp_all add: j_def)
      have i: "(int n > int ?k) = True" "int n - int ?k = int j" "(int r + int ?k) mod 32 = 0" "(0 + int j) mod 32 = int j"
        using False j p(5) by auto
      have pr: "consume_item cb out (int m) = Some (int n, ring_slice ?b r n @ drop n out, ?cb')"
        unfolding consume_item_def CIRC_BUF_SIZE_def p(1,2) mac Let_def clip te some if_True i a c1
        using c2 i(4) by simp
      have "j mod 32 = (r + n) mod 32" using j p(5) by simp
      then show ?thesis using post [OF refl j(2)] pr p(3) unfolding tk len(2) by simp
    qed
  qed
qed

section \<open>The buffer as a byte queue\<close>

definition cb_put :: "circ_buf \<Rightarrow> u8 list \<Rightarrow> (nat \<times> circ_buf) option" where
  "cb_put cb xs = do { (n, cb') \<leftarrow> produce_item cb xs (int (length xs)); Some (nat n, cb') }"

definition cb_get :: "circ_buf \<Rightarrow> nat \<Rightarrow> (u8 list \<times> circ_buf) option" where
  "cb_get cb m = do {
     (n, out, cb') \<leftarrow> consume_item cb (replicate m 0) (int m);
     Some (take (nat n) out, cb') }"

lemma cb_count_less: "cb_wf cb \<Longrightarrow> cb_count cb < 32"
  by (erule cb_positions) simp

lemma cb_bytes_length [simp]: "length (cb_bytes cb) = cb_count cb"
  by (simp add: cb_bytes_def)

lemma cb_put_spec:
  assumes "cb_wf cb"
  shows "\<exists>cb'. cb_put cb xs = Some (min (cb_room cb) (length xs), cb') \<and> cb_wf cb' \<and>
    cb_bytes cb' = cb_bytes cb @ take (cb_room cb) xs \<and> cb_room cb' = cb_room cb - min (cb_room cb) (length xs)"
  using produce_item_spec [OF assms, of xs] by (auto simp: cb_put_def cb_room_def)

lemma cb_get_spec:
  assumes "cb_wf cb"
  shows "\<exists>cb'. cb_get cb m = Some (take m (cb_bytes cb), cb') \<and> cb_wf cb' \<and>
    cb_bytes cb' = drop m (cb_bytes cb) \<and> cb_room cb' = cb_room cb + min (cb_count cb) m"
proof -
  obtain cb' where 1: "consume_item cb (replicate m 0) (int m) =
      Some (int (min (cb_count cb) m), take m (cb_bytes cb) @ drop (min (cb_count cb) m) (replicate m 0), cb')"
    "cb_wf cb'" "cb_bytes cb' = drop m (cb_bytes cb)" "cb_count cb' = cb_count cb - min (cb_count cb) m"
    using consume_item_spec [OF assms, of m "replicate m 0"] by auto
  have "take (min (cb_count cb) m) (take m (cb_bytes cb) @ drop (min (cb_count cb) m) (replicate m 0)) = take m (cb_bytes cb)"
    by (simp add: min_def)
  then show ?thesis using 1 cb_count_less [OF assms] by (auto simp: cb_get_def cb_room_def)
qed

interpretation cb: byte_fifo cb_wf cb_room cb_bytes cb_put cb_get
proof
  fix q :: circ_buf and xs n q' ys
  assume q: "cb_wf q"
  show "\<exists>q'. cb_put q xs = Some (min (cb_room q) (length xs), q') \<and> cb_wf q' \<and>
      cb_bytes q' = cb_bytes q @ take (cb_room q) xs" using cb_put_spec [OF q] by blast
  show "cb_put q xs = Some (n, q') \<Longrightarrow> cb_room q' = cb_room q - n" using cb_put_spec [OF q, of xs] by auto
  show "\<exists>q'. cb_get q n = Some (take n (cb_bytes q), q') \<and> cb_wf q' \<and>
      cb_bytes q' = drop n (cb_bytes q)" using cb_get_spec [OF q] by blast
  show "cb_get q n = Some (ys, q') \<Longrightarrow> cb_room q' = cb_room q + length ys" using cb_get_spec [OF q, of n] by auto
qed

section \<open>Property\<close>

text \<open>C34. On a circular buffer that starts empty, every sequence of produced and consumed blocks is defined, and what is
  consumed followed by what is still stored is what was accepted, in order; at most 31 bytes are stored.\<close>

theorem circ_buf_is_fifo:
  assumes "length buf = 32"
  shows "\<exists>acc out cb. fifo_run cb_put cb_get ops \<lparr>cb_buf = buf, cb_head = 0, cb_tail = 0\<rparr> = Some (acc, out, cb) \<and>
    cb_wf cb \<and> acc = out @ cb_bytes cb \<and> cb_room cb + length (cb_bytes cb) = 31"
proof -
  have i: "cb_wf \<lparr>cb_buf = buf, cb_head = 0, cb_tail = 0\<rparr>" "cb_bytes \<lparr>cb_buf = buf, cb_head = 0, cb_tail = 0\<rparr> = []"
    "cb_room \<lparr>cb_buf = buf, cb_head = 0, cb_tail = 0\<rparr> = 31"
    using assms by (simp_all add: cb_wf_def cb_bytes_def cb_room_def cb_count_def)
  obtain acc out cb where r: "fifo_run cb_put cb_get ops \<lparr>cb_buf = buf, cb_head = 0, cb_tail = 0\<rparr> = Some (acc, out, cb)"
    using cb.run_defined [OF i(1)] by (metis prod_cases3)
  show ?thesis using cb.run_fifo [OF i(1) r] i r by auto
qed

lemma circ_buf_is_fifo_witness:
  "\<exists>acc out cb. fifo_run cb_put cb_get [Put [1, 2, 3], Get 2, Put (replicate 40 4), Get 3]
       \<lparr>cb_buf = replicate 32 0, cb_head = 0, cb_tail = 0\<rparr> = Some (acc, out, cb) \<and>
     cb_wf cb \<and> acc = out @ cb_bytes cb \<and> cb_room cb + length (cb_bytes cb) = 31"
  by (rule circ_buf_is_fifo) simp

end
