(* ===== verification/Comport.thy ===== *)
theory Comport
  imports CpString
begin

text \<open>
  The serial port of the library (\<open>cp_library/cp_comport.c\<close>): its settings, opening and configuring the
  terminal, sending in fragments and receiving. The results of the system calls are arguments: of
  \<open>open\<close> and the terminal calls, of each \<open>write\<close>, of \<open>select\<close> and \<open>read\<close>.
\<close>

definition DEVNAME_LEN :: nat where "DEVNAME_LEN = 64"

record com_port =
  databit :: nat
  parity :: nat
  stopbit :: nat
  flowctrl :: nat
  is_connted :: nat
  dev_name :: string
  cp_used :: nat
  cp_fd :: int
  frag_size :: int
  baudrate :: int

section \<open>Settings\<close>

text \<open>\<open>settings\<close> is the block with the letters and the terminating zero.\<close>

definition set_settings :: "com_port \<Rightarrow> char list \<Rightarrow> com_port option" where
  "set_settings comport settings = do {
     c \<leftarrow> rd settings 0;
     let comport = comport\<lparr>databit := (if c = CHR ''7'' then 7 else 8)\<rparr>;
     c \<leftarrow> rd settings 1;
     let comport = comport\<lparr>parity := (if c \<in> {CHR ''O'', CHR ''o''} then 1 else if c \<in> {CHR ''E'', CHR ''e''} then 2
                                    else if c \<in> {CHR ''S'', CHR ''s''} then 3 else 0)\<rparr>;
     c \<leftarrow> rd settings 2;
     let comport = comport\<lparr>stopbit := (if c = CHR ''0'' then 0 else 1)\<rparr>;
     c \<leftarrow> rd settings 3;
     Some (comport\<lparr>flowctrl := (if c \<in> {CHR ''S'', CHR ''s''} then 1 else if c \<in> {CHR ''H'', CHR ''h''} then 2
                              else if c \<in> {CHR ''B'', CHR ''b''} then 3 else 0)\<rparr>) }"

text \<open>The result is \<open>Some None\<close> when there is no memory; \<open>settings\<close> may be a null pointer.\<close>

definition comport_init :: "bool \<Rightarrow> string \<Rightarrow> int \<Rightarrow> char list option \<Rightarrow> com_port option option" where
  "comport_init malloc_ok name baud settings =
     (if \<not> malloc_ok then Some None
      else do {
        dev \<leftarrow> c_strncpy (replicate DEVNAME_LEN NUL) name DEVNAME_LEN;
        let comport = \<lparr>databit = 0, parity = 0, stopbit = 0, flowctrl = 0, is_connted = 0, dev_name = dev, cp_used = 0,
          cp_fd = 0, frag_size = 128, baudrate = baud\<rparr>;
        case settings of
          None \<Rightarrow> Some (Some comport)
        | Some letters \<Rightarrow> map_option Some (set_settings comport letters) })"

section \<open>Opening\<close>

definition comport_close :: "com_port \<Rightarrow> com_port" where
  "comport_close comport = comport\<lparr>is_connted := 0, cp_fd := - 1\<rparr>"

text \<open>Descriptor closed by \<open>comport_close\<close>, if any.\<close>

definition comport_closes :: "com_port \<Rightarrow> int option" where
  "comport_closes comport = (if cp_fd comport \<noteq> 0 then Some (cp_fd comport) else None)"

text \<open>The descriptor that \<open>comport_term\<close> closes before it frees the structure; it accepts a null pointer.\<close>

definition comport_term :: "com_port option \<Rightarrow> int option" where
  "comport_term comport = (case comport of None \<Rightarrow> None | Some c \<Rightarrow> comport_closes c)"

datatype termflag = CS5 | CS6 | CS7 | CS8 | CSTOPB | PARENB | PARODD | CRTSCTS | INPCK | ISTRIP | IXON | IXOFF

text \<open>The fields of \<open>struct termios\<close> that are set, as sets of flags; the rest stays zero.\<close>

record termios =
  c_cflag :: "termflag set"
  c_iflag :: "termflag set"
  ispeed :: int

definition databit_flags :: "nat \<Rightarrow> termflag set" where
  "databit_flags n = (if n = 7 then {CS7} else if n = 6 then {CS6} else if n = 5 then {CS5} else {CS8})"

definition set_parity :: "nat \<Rightarrow> termflag set \<Rightarrow> termflag set" where
  "set_parity n f =
     (if n = 1 then f \<union> {PARENB, PARODD} \<union> {INPCK, ISTRIP}
      else if n = 2 then (f \<union> {PARENB}) - {PARODD} \<union> {INPCK, ISTRIP}
      else if n = 3 then f - {PARENB} - {CSTOPB}
      else f - {PARENB})"

definition set_stopbit :: "nat \<Rightarrow> termflag set \<Rightarrow> termflag set" where
  "set_stopbit n f = (if n \<noteq> 1 then f \<union> {CSTOPB} else f - {CSTOPB})"

definition set_flowctrl :: "nat \<Rightarrow> termios \<Rightarrow> termios" where
  "set_flowctrl n t =
     (if n = 1 \<or> n = 3 then t\<lparr>c_cflag := c_cflag t - {CRTSCTS}, c_iflag := c_iflag t \<union> {IXON, IXOFF}\<rparr>
      else if n = 2 then t\<lparr>c_cflag := c_cflag t \<union> {CRTSCTS}, c_iflag := c_iflag t - {IXON, IXOFF}\<rparr>
      else t\<lparr>c_cflag := c_cflag t - {CRTSCTS}, c_iflag := c_iflag t - {IXON, IXOFF}\<rparr>)"

definition BAUDRATES :: "int list" where
  "BAUDRATES = [115200, 57600, 38400, 19200, 9600, 4800, 2400, 1800, 1200, 600, 300, 200, 150, 134, 110, 75, 50]"

definition baud_const :: "int \<Rightarrow> int" where
  "baud_const n = (if n \<in> set BAUDRATES then n else 115200)"

text \<open>The flag sets start empty, so the masks that clear flags before the settings have no effect.\<close>

definition comport_termios :: "com_port \<Rightarrow> termios" where
  "comport_termios comport =
     (let f = databit_flags (databit comport);
          f = set_parity (parity comport) f;
          f = set_stopbit (stopbit comport) f
      in set_flowctrl (flowctrl comport) \<lparr>c_cflag = f, c_iflag = {}, ispeed = baud_const (baudrate comport)\<rparr>)"

text \<open>What the system answers; \<open>sys_open\<close> is the new descriptor or negative.\<close>

record open_results =
  sys_open :: int
  sys_fcntl :: bool
  sys_tcflush :: bool
  sys_tcgetattr :: bool
  sys_tcsetattr :: bool

fun is_substring :: "string \<Rightarrow> string \<Rightarrow> bool" where
  "is_substring pat [] = (pat = [])"
| "is_substring pat (c # s) = (take (length pat) (c # s) = pat \<or> is_substring pat s)"

text \<open>The name must have its terminating zero. The result has the descriptor or an error, and the configuration that
  was set.\<close>

definition comport_open :: "open_results \<Rightarrow> com_port \<Rightarrow> (int \<times> com_port \<times> termios option) option" where
  "comport_open sys comport =
     (let comport = comport_close comport
      in if NUL \<notin> set (dev_name comport) then None
         else if \<not> is_substring ''tty'' (cstr (dev_name comport))
         then (let comport = comport\<lparr>cp_fd := sys_open sys\<rparr>
               in Some (if cp_fd comport < 0 then - 2 else cp_fd comport, comport, None))
         else (let comport = comport\<lparr>cp_fd := sys_open sys\<rparr>
               in if cp_fd comport < 0 then Some (- 3, comport, None)
                  else if \<not> sys_fcntl sys then Some (- 5, comport, None)
                  else if \<not> sys_tcflush sys then Some (- 4, comport, None)
                  else if \<not> sys_tcgetattr sys then Some (- 6, comport, None)
                  else if \<not> sys_tcsetattr sys then Some (- 7, comport, None)
                  else Some (cp_fd comport, comport\<lparr>is_connted := 1\<rparr>, Some (comport_termios comport))))"

section \<open>Sending\<close>

text \<open>The loop over the fragments, with the results of the \<open>write\<close> calls in order: the result, and the
  blocks handed to \<open>write\<close>.\<close>

function send_loop :: "int \<Rightarrow> char list \<Rightarrow> int list \<Rightarrow> (int \<times> char list list) option" where
  "send_loop frag buf writes =
     (if frag \<le> 0 then None
      else (case writes of
         [] \<Rightarrow> None
       | w # writes \<Rightarrow>
           (let part = (if frag < int (length buf) then take (nat frag) buf else buf)
            in if 0 \<ge> w \<or> int (length part) \<noteq> w then Some (- 4, [part])
               else (let buf = drop (length part) buf
                     in if buf \<noteq> [] then map_option (\<lambda>(r, ps). (r, part # ps)) (send_loop frag buf writes)
                        else Some (0, [part])))))"
  by pat_completeness auto
termination by (relation "measure (\<lambda>(frag, buf, writes). length writes)") auto

declare send_loop.simps [simp del]

definition comport_send :: "com_port \<Rightarrow> char list \<Rightarrow> int \<Rightarrow> int list \<Rightarrow> (int \<times> char list list) option" where
  "comport_send comport buf send_bytes writes =
     (if 0 \<ge> send_bytes then Some (- 1, [])
      else if is_connted comport \<noteq> 1 then Some (- 3, [])
      else do {
        data \<leftarrow> rd_slice buf 0 (nat send_bytes);
        if frag_size comport < send_bytes then send_loop (frag_size comport) data writes
        else (case writes of
                [] \<Rightarrow> None
              | w # _ \<Rightarrow> Some (if 0 \<ge> w \<or> send_bytes \<noteq> w then - 5 else 0, [data])) })"

section \<open>Receiving\<close>

datatype select_result = SelNone | SelReady bool bool | SelInterrupted | SelFailed
datatype read_result = ReadBytes "char list" | ReadInterrupted | ReadFailed

text \<open>\<open>SelReady exc rdy\<close>: the exception and the read set after \<open>select\<close>. \<open>read\<close> returns at most the size asked for. The
  result is the return value and the bytes at the start of the buffer. \<open>wait\<close> is the argument \<open>timeout\<close>.\<close>

definition comport_recv ::
  "com_port \<Rightarrow> nat \<Rightarrow> int \<Rightarrow> nat \<Rightarrow> select_result \<Rightarrow> read_result \<Rightarrow> (int \<times> char list) option" where
  "comport_recv comport cap buf_size wait sel red =
     (let get = (case red of
                   ReadInterrupted \<Rightarrow> Some (0, [])
                 | ReadFailed \<Rightarrow> Some (- 3, [])
                 | ReadBytes xs \<Rightarrow> if length xs \<le> nat buf_size \<and> nat buf_size \<le> cap then Some (int (length xs), xs) else None)
      in if 0 \<ge> buf_size then Some (- 1, [])
         else if is_connted comport \<noteq> 1 then Some (- 2, [])
         else if wait \<noteq> 0xFFFFFFFF
         then (case sel of
                 SelNone \<Rightarrow> Some (0, [])
               | SelReady exc rdy \<Rightarrow> if exc then Some (- 6, []) else if \<not> rdy then Some (0, []) else get
               | SelInterrupted \<Rightarrow> Some (0, [])
               | SelFailed \<Rightarrow> Some (- 7, []))
         else get)"

section \<open>Properties\<close>

lemma send_loop_complete:
  "0 < frag \<Longrightarrow> buf \<noteq> [] \<Longrightarrow>
   \<exists>parts. concat parts = buf \<and> (\<forall>p\<in>set parts. p \<noteq> [] \<and> int (length p) \<le> frag) \<and>
     send_loop frag buf (map (int \<circ> length) parts @ rest) = Some (0, parts)"
proof (induction "length buf" arbitrary: buf rule: less_induct)
  case less
  show ?case
  proof (cases "frag < int (length buf)")
    case False
    then show ?thesis using less.prems by (intro exI [of _ "[buf]"]) (simp add: send_loop.simps [of _ buf] Let_def)
  next
    case True
    define p where "p = take (nat frag) buf"
    have p: "length p = nat frag" "p \<noteq> []" "drop (length p) buf \<noteq> []" "int (length p) = frag" "0 < length p"
      using True less.prems by (auto simp: p_def)
    obtain parts where parts: "concat parts = drop (length p) buf" "\<forall>p\<in>set parts. p \<noteq> [] \<and> int (length p) \<le> frag"
      "send_loop frag (drop (length p) buf) (map (int \<circ> length) parts @ rest) = Some (0, parts)"
      using less.hyps [of "drop (length p) buf"] less.prems p(3,5) by auto
    have "send_loop frag buf (map (int \<circ> length) (p # parts) @ rest) = Some (0, p # parts)"
      using less.prems(1) True p parts(3) by (subst send_loop.simps) (auto simp: p_def [symmetric] Let_def)
    moreover have "concat (p # parts) = buf" unfolding concat.simps parts(1) p(1) by (simp add: p_def)
    ultimately show ?thesis using parts(2) p by (intro exI [of _ "p # parts"]) auto
  qed
qed

lemma send_loop_short:
  "0 < frag \<Longrightarrow> send_loop frag buf writes = Some (r, parts) \<Longrightarrow> \<exists>rest. buf = concat parts @ rest \<and> (r = 0 \<longrightarrow> rest = [])"
proof (induction frag buf writes arbitrary: r parts rule: send_loop.induct)
  case (1 frag buf writes)
  obtain w ws where w: "writes = w # ws" using 1(2,3) by (cases writes) (simp_all add: send_loop.simps [of frag buf])
  define part where "part = (if frag < int (length buf) then take (nat frag) buf else buf)"
  have buf: "buf = part @ drop (length part) buf" by (simp add: part_def)
  have step: "send_loop frag buf writes =
      (if 0 \<ge> w \<or> int (length part) \<noteq> w then Some (- 4, [part])
       else if drop (length part) buf \<noteq> [] then map_option (\<lambda>(r, ps). (r, part # ps)) (send_loop frag (drop (length part) buf) ws)
       else Some (0, [part]))"
    using 1(2) unfolding w by (subst send_loop.simps) (simp add: part_def Let_def)
  show ?case
  proof (cases "(0 \<ge> w \<or> int (length part) \<noteq> w) \<or> drop (length part) buf = []")
    case True
    then show ?thesis using 1(3) step buf by (auto split: if_splits intro!: exI [of _ "drop (length part) buf"])
  next
    case False
    then obtain ps where ps: "send_loop frag (drop (length part) buf) ws = Some (r, ps)" "parts = part # ps"
      using 1(3) step by auto
    obtain rest where "drop (length part) buf = concat ps @ rest \<and> (r = 0 \<longrightarrow> rest = [])"
      using 1(1) [of w ws part "drop (length part) buf" r ps] 1(2) w part_def False ps(1) by auto
    then show ?thesis using buf ps(2) by (intro exI [of _ rest]) auto
  qed
qed

text \<open>Sending on a connected port: when every \<open>write\<close> takes its whole block, the data goes out in
  fragments of at most the set size and the result is 0; whatever the writes return, the blocks handed to them are a
  prefix of the data, and all of it if the result is 0.\<close>

theorem comport_send_delivers:
  assumes "is_connted cp = 1" "0 < frag_size cp" "data \<noteq> []"
  shows "(\<exists>parts. concat parts = data \<and> (\<forall>p\<in>set parts. int (length p) \<le> frag_size cp) \<and>
      comport_send cp data (int (length data)) (map (int \<circ> length) parts) = Some (0, parts)) \<and>
    (\<forall>writes r parts. comport_send cp data (int (length data)) writes = Some (r, parts) \<longrightarrow>
      (\<exists>rest. data = concat parts @ rest \<and> (r = 0 \<longrightarrow> rest = [])))"
proof (cases "frag_size cp < int (length data)")
  case True
  obtain parts where "concat parts = data" "\<forall>p\<in>set parts. p \<noteq> [] \<and> int (length p) \<le> frag_size cp"
    "send_loop (frag_size cp) data (map (int \<circ> length) parts @ []) = Some (0, parts)"
    using send_loop_complete [OF assms(2,3), of "[]"] by blast
  then show ?thesis using True assms(1,3) send_loop_short [OF assms(2)]
    by (intro conjI exI [of _ parts]) (auto simp: comport_send_def)
next
  case False
  then show ?thesis using assms(1,3) by (intro conjI exI [of _ "[data]"]) (auto simp: comport_send_def split: list.splits)
qed

definition demo_port :: com_port where
  "demo_port = \<lparr>databit = 8, parity = 0, stopbit = 1, flowctrl = 0, is_connted = 1,
     dev_name = ''/dev/ttyS2'' @ replicate 54 NUL, cp_used = 0, cp_fd = 3, frag_size = 2, baudrate = 115200\<rparr>"

lemma comport_send_delivers_witness:
  "\<exists>parts. concat parts = ''AT'' @ [CHR 0x0D] \<and> (\<forall>p\<in>set parts. int (length p) \<le> 2) \<and>
     comport_send demo_port (''AT'' @ [CHR 0x0D]) 3 (map (int \<circ> length) parts) = Some (0, parts)"
  using comport_send_delivers [of demo_port "''AT'' @ [CHR 0x0D]"] by (simp add: demo_port_def)

lemma termios_flags:
  "CS7 \<in> c_cflag (comport_termios cp) \<longleftrightarrow> databit cp = 7"
  "CS8 \<in> c_cflag (comport_termios cp) \<longleftrightarrow> databit cp \<notin> {5, 6, 7}"
  "PARENB \<in> c_cflag (comport_termios cp) \<longleftrightarrow> parity cp \<in> {1, 2}"
  "PARODD \<in> c_cflag (comport_termios cp) \<longleftrightarrow> parity cp = 1"
  "CSTOPB \<in> c_cflag (comport_termios cp) \<longleftrightarrow> stopbit cp \<noteq> 1"
  "CRTSCTS \<in> c_cflag (comport_termios cp) \<longleftrightarrow> flowctrl cp = 2"
  "IXON \<in> c_iflag (comport_termios cp) \<longleftrightarrow> flowctrl cp \<in> {1, 3}"
  "INPCK \<notin> c_iflag (comport_termios cp)" "ISTRIP \<notin> c_iflag (comport_termios cp)"
  "ispeed (comport_termios cp) = (if baudrate cp \<in> set BAUDRATES then baudrate cp else 115200)"
  by (auto simp: comport_termios_def Let_def databit_flags_def set_parity_def set_stopbit_def set_flowctrl_def baud_const_def)

text \<open>Opening a terminal with the settings of the constructor gives the configuration that the four letters and the rate
  name; only the flags \<open>INPCK\<close> and \<open>ISTRIP\<close>, which belong to the input flags, never get there.\<close>

theorem comport_open_configures:
  assumes "4 \<le> length letters" "length name < DEVNAME_LEN" "NUL \<notin> set name" "is_substring ''tty'' name" "0 \<le> fd"
  shows "\<exists>cp cp' t. comport_init True name baud (Some letters) = Some (Some cp) \<and>
    comport_open \<lparr>sys_open = fd, sys_fcntl = True, sys_tcflush = True, sys_tcgetattr = True, sys_tcsetattr = True\<rparr> cp =
      Some (fd, cp', Some t) \<and>
    is_connted cp' = 1 \<and> cp_fd cp' = fd \<and> ispeed t = (if baud \<in> set BAUDRATES then baud else 115200) \<and>
    (CS7 \<in> c_cflag t \<longleftrightarrow> letters ! 0 = CHR ''7'') \<and> (CS8 \<in> c_cflag t \<longleftrightarrow> letters ! 0 \<noteq> CHR ''7'') \<and>
    (PARENB \<in> c_cflag t \<longleftrightarrow> letters ! 1 \<in> set ''OoEe'') \<and> (PARODD \<in> c_cflag t \<longleftrightarrow> letters ! 1 \<in> set ''Oo'') \<and>
    (CSTOPB \<in> c_cflag t \<longleftrightarrow> letters ! 2 = CHR ''0'') \<and>
    (CRTSCTS \<in> c_cflag t \<longleftrightarrow> letters ! 3 \<in> set ''Hh'') \<and> (IXON \<in> c_iflag t \<longleftrightarrow> letters ! 3 \<in> set ''SsBb'') \<and>
    INPCK \<notin> c_iflag t \<and> ISTRIP \<notin> c_iflag t"
proof -
  define dev where "dev = name @ replicate (DEVNAME_LEN - length name) NUL"
  have dev: "c_strncpy (replicate DEVNAME_LEN NUL) name DEVNAME_LEN = Some dev"
    using assms(2) by (simp add: c_strncpy_def dev_def)
  have "\<forall>x\<in>set name. x \<noteq> CHR 0x00" using assms(3) by (auto simp: NUL_def)
  then have nm: "cstr dev = name" "NUL \<in> set dev"
    using assms(2) by (simp_all add: dev_def cstr_def NUL_def takeWhile_append2 takeWhile_replicate)
  define cp where "cp = \<lparr>databit = (if letters ! 0 = CHR ''7'' then 7 else 8),
    parity = (if letters ! 1 \<in> {CHR ''O'', CHR ''o''} then 1 else if letters ! 1 \<in> {CHR ''E'', CHR ''e''} then 2
      else if letters ! 1 \<in> {CHR ''S'', CHR ''s''} then 3 else 0),
    stopbit = (if letters ! 2 = CHR ''0'' then 0 else 1),
    flowctrl = (if letters ! 3 \<in> {CHR ''S'', CHR ''s''} then 1 else if letters ! 3 \<in> {CHR ''H'', CHR ''h''} then 2
      else if letters ! 3 \<in> {CHR ''B'', CHR ''b''} then 3 else 0),
    is_connted = 0, dev_name = dev, cp_used = 0, cp_fd = 0, frag_size = 128, baudrate = baud\<rparr>"
  have ne: "letters \<noteq> []" using assms(1) by auto
  have init: "comport_init True name baud (Some letters) = Some (Some cp)"
    using assms(1) ne by (simp add: comport_init_def dev set_settings_def Let_def cp_def)
  have "comport_open \<lparr>sys_open = fd, sys_fcntl = True, sys_tcflush = True, sys_tcgetattr = True, sys_tcsetattr = True\<rparr> cp =
      Some (fd, cp\<lparr>is_connted := 1, cp_fd := fd\<rparr>, Some (comport_termios cp))"
    using assms(4,5) nm by (simp add: comport_open_def comport_close_def Let_def cp_def comport_termios_def)
  then show ?thesis
    using init by (intro exI [of _ cp] exI [of _ "cp\<lparr>is_connted := 1, cp_fd := fd\<rparr>"] exI [of _ "comport_termios cp"])
      (simp add: termios_flags, simp add: cp_def)
qed

lemma comport_open_configures_witness:
  "\<exists>cp cp' t. comport_init True ''/dev/ttyS2'' 9600 (Some (''7E1N'' @ [NUL])) = Some (Some cp) \<and>
    comport_open \<lparr>sys_open = 3, sys_fcntl = True, sys_tcflush = True, sys_tcgetattr = True, sys_tcsetattr = True\<rparr> cp =
      Some (3, cp', Some t) \<and> is_connted cp' = 1 \<and> ispeed t = 9600 \<and> CS7 \<in> c_cflag t \<and> PARENB \<in> c_cflag t \<and> PARODD \<notin> c_cflag t"
proof -
  have "DEVNAME_LEN = 64" "is_substring ''tty'' ''/dev/ttyS2''" "NUL \<notin> set ''/dev/ttyS2''"
    by (simp_all add: DEVNAME_LEN_def NUL_def)
  then show ?thesis
    using comport_open_configures [of "''7E1N'' @ [NUL]" "''/dev/ttyS2''" 3 9600] by (force simp: BAUDRATES_def)
qed

text \<open>A device that is not a terminal is opened, but never counted as connected: its descriptor is returned, and sending
  is then refused.\<close>

theorem comport_open_no_tty_unusable:
  assumes "NUL \<in> set (dev_name cp)" "\<not> is_substring ''tty'' (cstr (dev_name cp))" "0 \<le> sys_open sys" "0 < n"
  shows "\<exists>cp'. comport_open sys cp = Some (sys_open sys, cp', None) \<and> comport_send cp' buf n writes = Some (- 3, [])"
  using assms by (simp add: comport_open_def comport_close_def comport_send_def Let_def)

lemma comport_open_no_tty_unusable_witness:
  "\<exists>cp'. comport_open \<lparr>sys_open = 5, sys_fcntl = True, sys_tcflush = True, sys_tcgetattr = True, sys_tcsetattr = True\<rparr>
       (demo_port\<lparr>dev_name := ''/dev/lp0'' @ [NUL]\<rparr>) = Some (5, cp', None) \<and>
     comport_send cp' ''x'' 1 [1] = Some (- 3, [])"
  using comport_open_no_tty_unusable [of "demo_port\<lparr>dev_name := ''/dev/lp0'' @ [NUL]\<rparr>"
      "\<lparr>sys_open = 5, sys_fcntl = True, sys_tcflush = True, sys_tcgetattr = True, sys_tcsetattr = True\<rparr>" 1 "''x''" "[1]"]
  by (simp add: cstr_def NUL_def)

end
