(* ===== verification/Atcmd.thy ===== *)
theory Atcmd
  imports Comport CpTime Printf
begin

text \<open>
  The commands to the GPRS module (\<open>cp_library/cp_atcmd.c\<close>): sending a command over the serial port and collecting the reply
  until it has an expected or an error text or the time is over, taking a value out of the reply, and the queries built on that.
  What the port and the clock give during one command is a record of results, in order.
\<close>

definition ATCMD_REPLY_LEN :: nat where "ATCMD_REPLY_LEN = 512"

abbreviation (input) cr :: char where "cr \<equiv> CHR 0x0D"
abbreviation (input) tab :: char where "tab \<equiv> CHR 0x09"

text \<open>\<open>"OK\r\n"\<close> and \<open>"ERROR\r\n"\<close>.\<close>

definition OK_REPLY :: string where "OK_REPLY = ''OK'' @ [cr, nl]"
definition ERROR_REPLY :: string where "ERROR_REPLY = ''ERROR'' @ [cr, nl]"

section \<open>Matching a reply\<close>

text \<open>\<open>strstr(s, pat) != NULL\<close> is \<^const>\<open>is_substring\<close>. The buffer for one pattern has 256 bytes, all zero at first; a
  pattern that leaves no zero in it is undefined.\<close>

function at_match :: "string \<Rightarrow> string \<Rightarrow> nat option" where
  "at_match s start =
     (let pat = takeWhile (\<lambda>c. c \<noteq> tab) start;
          rest = drop (Suc (length pat)) start
      in if length pat \<ge> 256 then None
         else if pat \<noteq> [] \<and> is_substring pat s then Some 0
         else if tab \<in> set start \<and> rest \<noteq> [] then at_match s rest
         else Some 1)"
  by pat_completeness auto
termination by (relation "measure (\<lambda>(s, start). length start)") auto

declare at_match.simps [simp del]

section \<open>Sending a command\<close>

text \<open>One round of a receiving loop: the clock when it is checked, and what \<open>select\<close> and \<open>read\<close> then give.\<close>

record at_poll =
  ap_now :: u32
  ap_select :: select_result
  ap_read :: read_result

record at_line =
  al_rubbish_start :: u32
  al_rubbish :: "at_poll list"
  al_writes :: "int list"
  al_start :: u32
  al_polls :: "at_poll list"

text \<open>Throwing away what is in the port: at most 200 ms, or until nothing is there. The bytes go to the start of \<open>acRecv\<close>. It is
  undefined on a list of rounds that ends before the loop does.\<close>

fun rubbish_loop :: "com_port \<Rightarrow> u32 \<Rightarrow> char list \<Rightarrow> at_poll list \<Rightarrow> char list option" where
  "rubbish_loop comport start acRecv [] = None"
| "rubbish_loop comport start acRecv (p # ps) =
     (if time_elapsed (ap_now p) start < 200
      then do {
        (iSize, xs) \<leftarrow> comport_recv comport (length acRecv) 1 50 (ap_select p) (ap_read p);
        acRecv \<leftarrow> wr_slice acRecv 0 xs;
        if iSize \<le> 0 then Some acRecv else rubbish_loop comport start acRecv ps }
      else Some acRecv)"

fun reply_loop ::
  "com_port \<Rightarrow> string option \<Rightarrow> string option \<Rightarrow> u32 \<Rightarrow> u32 \<Rightarrow> char list \<Rightarrow> nat \<Rightarrow> at_poll list \<Rightarrow> (int \<times> char list) option" where
  "reply_loop comport expect error timeout start acRecv iRecvLen [] = None"
| "reply_loop comport expect error timeout start acRecv iRecvLen (p # ps) =
     (if time_elapsed (ap_now p) start < timeout
      then if iRecvLen < length acRecv - 1
           then do {
             (iSize, xs) \<leftarrow> comport_recv comport (length acRecv - iRecvLen) 1 50 (ap_select p) (ap_read p);
             if iSize > 0
             then do {
               acRecv \<leftarrow> wr_slice acRecv iRecvLen xs;
               acRecv \<leftarrow> wr acRecv (length acRecv - 1) NUL;
               ok \<leftarrow> (case expect of None \<Rightarrow> Some 1 | Some e \<Rightarrow> at_match (cstr acRecv) e);
               if ok = 0 then Some (0, acRecv)
               else do {
                 bad \<leftarrow> (case error of None \<Rightarrow> Some 1 | Some e \<Rightarrow> at_match (cstr acRecv) e);
                 if bad = 0 then Some (- 3, acRecv)
                 else reply_loop comport expect error timeout start acRecv (iRecvLen + length xs) ps } }
             else reply_loop comport expect error timeout start acRecv iRecvLen ps }
           else reply_loop comport expect error timeout start acRecv iRecvLen ps
      else Some (if expect = None then 0 else - 4, acRecv))"

text \<open>\<open>reply\<close> is the block of the caller, if any, of at least \<open>reply_len\<close> bytes.\<close>

definition send_atcmd ::
  "com_port \<Rightarrow> string \<Rightarrow> string option \<Rightarrow> string option \<Rightarrow> u32 \<Rightarrow> char list option \<Rightarrow> nat \<Rightarrow> at_line \<Rightarrow> (int \<times> char list option) option" where
  "send_atcmd comport atCmd expect error timeout reply reply_len line =
     (if is_connted comport \<noteq> 1 then Some (- 1, reply)
      else do {
        acRecv \<leftarrow> rubbish_loop comport (al_rubbish_start line) (replicate 1024 NUL) (al_rubbish line);
        (sent, _) \<leftarrow> comport_send comport (atCmd @ [NUL]) (int (length atCmd)) (al_writes line);
        (retval, acRecv) \<leftarrow>
          (if sent \<noteq> 0 then Some (2, acRecv)
           else reply_loop comport expect error timeout (al_start line) (replicate 1024 NUL) 0 (al_polls line));
        case reply of
          None \<Rightarrow> Some (retval, None)
        | Some buf \<Rightarrow> do { buf \<leftarrow> c_strncpy buf (cstr acRecv) reply_len; Some (retval, Some buf) } })"

section \<open>Taking the value out of a reply\<close>

definition send_atcmd_check_ok :: "com_port \<Rightarrow> string \<Rightarrow> u32 \<Rightarrow> at_line \<Rightarrow> int option" where
  "send_atcmd_check_ok comport atcmd timeout line = do {
     (retval, _) \<leftarrow> send_atcmd comport atcmd (Some OK_REPLY) (Some ERROR_REPLY) timeout None 0 line;
     Some (if 0 = retval then 0 else - 2) }"

text \<open>\<open>strchr(tmp, c)\<close> from index \<open>i\<close> on: the index found, if any. A block without a zero is left at its end.\<close>

function c_strchr :: "char list \<Rightarrow> char \<Rightarrow> nat \<Rightarrow> nat option option" where
  "c_strchr b c i =
     (if i < length b then (if b ! i = c then Some (Some i) else if b ! i = NUL then Some None else c_strchr b c (i + 1)) else None)"
  by pat_completeness auto
termination by (relation "measure (\<lambda>(b, c, i). length b - i)") auto

declare c_strchr.simps [simp del]

text \<open>The copying loop: from \<open>start\<close> in \<open>tmp\<close> to \<open>i\<close> in \<open>buf\<close>, up to a carriage return; it gives \<open>i\<close> too.\<close>

function copy_value :: "char list \<Rightarrow> nat \<Rightarrow> char list \<Rightarrow> nat \<Rightarrow> nat \<Rightarrow> (char list \<times> nat) option" where
  "copy_value tmp start buf i buf_len = do {
     c \<leftarrow> rd tmp start;
     if c \<noteq> cr \<and> i < buf_len - 1
     then do { buf \<leftarrow> wr buf i c; copy_value tmp (start + 1) buf (i + 1) buf_len }
     else Some (buf, i) }"
  by pat_completeness auto
termination by (relation "measure (\<lambda>(tmp, start, buf, i, buf_len). buf_len - i)") auto

declare copy_value.simps [simp del]

text \<open>The common part of the two: \<open>found\<close> is the place where the value starts, if there is one.\<close>

definition store_value :: "char list \<Rightarrow> nat option \<Rightarrow> char list \<Rightarrow> nat \<Rightarrow> (int \<times> char list) option" where
  "store_value tmp found buf buf_len = do {
     (buf, i) \<leftarrow> (case found of None \<Rightarrow> Some (buf, 0) | Some start \<Rightarrow> copy_value tmp start buf 0 buf_len);
     buf \<leftarrow> wr buf i NUL;
     c \<leftarrow> rd buf 0;
     Some (if NUL = c then - 3 else 0, buf) }"

definition send_atcmd_check_value ::
  "com_port \<Rightarrow> string \<Rightarrow> u32 \<Rightarrow> char list option \<Rightarrow> nat \<Rightarrow> at_line \<Rightarrow> (int \<times> char list option) option" where
  "send_atcmd_check_value comport atcmd timeout buf buf_len line =
     (case buf of
        None \<Rightarrow> Some (- 1, None)
      | Some buf \<Rightarrow> do {
          (retval, tmp) \<leftarrow> send_atcmd comport atcmd (Some OK_REPLY) (Some ERROR_REPLY) timeout
             (Some (replicate ATCMD_REPLY_LEN NUL)) ATCMD_REPLY_LEN line;
          if 0 \<noteq> retval then Some (- 2, Some buf)
          else do {
            tmp \<leftarrow> tmp;
            start \<leftarrow> c_strchr tmp nl 0;
            (retval, buf) \<leftarrow> store_value tmp (map_option (\<lambda>n. n + 1) start) buf buf_len;
            Some (retval, Some buf) } })"

definition send_atcmd_check_request ::
  "com_port \<Rightarrow> string \<Rightarrow> u32 \<Rightarrow> char list option \<Rightarrow> nat \<Rightarrow> at_line \<Rightarrow> (int \<times> char list option) option" where
  "send_atcmd_check_request comport atcmd timeout buf buf_len line =
     (case buf of
        None \<Rightarrow> Some (- 1, None)
      | Some buf \<Rightarrow> do {
          (retval, tmp) \<leftarrow> send_atcmd comport atcmd (Some OK_REPLY) (Some ERROR_REPLY) timeout
             (Some (replicate ATCMD_REPLY_LEN NUL)) ATCMD_REPLY_LEN line;
          if 0 \<noteq> retval then Some (- 2, Some buf)
          else do {
            tmp \<leftarrow> tmp;
            start \<leftarrow> c_strchr tmp CHR '':'' 0;
            (retval, buf) \<leftarrow> store_value tmp (map_option (\<lambda>n. n + 2) start) buf buf_len;
            Some (retval, Some buf) } })"

section \<open>Queries\<close>

text \<open>The value stored through the \<open>n\<close>th pointer of \<open>split_string_to_value\<close>, or what was there before.\<close>

definition split_int :: "split_val option list \<Rightarrow> nat \<Rightarrow> int \<Rightarrow> int" where
  "split_int vs n old = (if n < length vs then (case vs ! n of Some (VInt v) \<Rightarrow> v | _ \<Rightarrow> old) else old)"

definition split_str :: "split_val option list \<Rightarrow> nat \<Rightarrow> string option" where
  "split_str vs n = (if n < length vs then (case vs ! n of Some (VString v) \<Rightarrow> Some v | _ \<Rightarrow> None) else None)"

text \<open>\<open>strcpy\<close> to a block of the caller, when there is a string.\<close>

definition store_str :: "char list \<Rightarrow> string option \<Rightarrow> char list option" where
  "store_str dst v = (case v of None \<Rightarrow> Some dst | Some x \<Rightarrow> wr_slice dst 0 (x @ [NUL]))"

definition at_cmd :: "string \<Rightarrow> string" where "at_cmd s = s @ [cr]"

text \<open>A reply buffer of the caller, which is set to zero or not; it has been overwritten with a string when the request succeeds.\<close>

definition atcmd_check_at_ready :: "com_port \<Rightarrow> at_line \<Rightarrow> int option" where
  "atcmd_check_at_ready comport line = send_atcmd_check_ok comport (at_cmd ''ATE0'') 500 line"

definition request :: "com_port \<Rightarrow> string \<Rightarrow> u32 \<Rightarrow> at_line \<Rightarrow> (int \<times> string) option" where
  "request comport cmd timeout line = do {
     (retval, buf) \<leftarrow> send_atcmd_check_request comport (at_cmd cmd) timeout (Some (replicate ATCMD_REPLY_LEN NUL)) ATCMD_REPLY_LEN line;
     buf \<leftarrow> buf;
     Some (retval, cstr buf) }"

definition atcmd_check_sim_valid :: "com_port \<Rightarrow> at_line \<Rightarrow> int option" where
  "atcmd_check_sim_valid comport line = do {
     (retval, recv) \<leftarrow> request comport ''AT+CPIN?'' 800 line;
     Some (if 0 \<noteq> retval then 1 else if is_substring ''READY'' recv then 0 else - 1) }"

definition atcmd_check_gprs_signal :: "com_port \<Rightarrow> at_line \<Rightarrow> int option" where
  "atcmd_check_gprs_signal comport line = do {
     (retval, recv) \<leftarrow> request comport ''AT+CSQ'' 3000 line;
     if 0 \<noteq> retval then Some retval
     else do {
       vs \<leftarrow> split_string_to_value recv ''%d,%d'' [True, False];
       Some (split_int vs 0 (- 1)) } }"

definition atcmd_check_gprs_register :: "com_port \<Rightarrow> at_line \<Rightarrow> int option" where
  "atcmd_check_gprs_register comport line = do {
     (retval, recv) \<leftarrow> request comport ''AT+CREG?'' 3000 line;
     if 0 \<noteq> retval then Some (- 1)
     else do {
       vs \<leftarrow> split_string_to_value recv ''%d,%d'' [False, True];
       Some (split_int vs 1 (- 1)) } }"

text \<open>The output blocks of the caller are arguments and results.\<close>

definition atcmd_check_gprs_carrier :: "com_port \<Rightarrow> char list option \<Rightarrow> at_line \<Rightarrow> (int \<times> char list option) option" where
  "atcmd_check_gprs_carrier comport carrier line =
     (case carrier of
        None \<Rightarrow> Some (- 1, None)
      | Some carrier \<Rightarrow> do {
          (retval, recv) \<leftarrow> request comport ''AT+COPS?'' 5000 line;
          if retval \<noteq> 0 then Some (retval, Some carrier)
          else do {
            vs \<leftarrow> split_string_to_value recv ''%d,%d,%s,%d'' [False, False, True, False];
            carrier \<leftarrow> store_str carrier (split_str vs 2);
            carrier \<leftarrow> del_char_from_string carrier CHR 0x22;
            Some (0, Some carrier) } })"

definition strrchr_suffix :: "string \<Rightarrow> char \<Rightarrow> string option" where
  "strrchr_suffix s c = (if c \<in> set s then Some (c # rev (takeWhile (\<lambda>x. x \<noteq> c) (rev s))) else None)"

text \<open>\<open>mcc\<close> and \<open>mnc\<close> have five bytes each and no value before; so has \<open>status\<close>.\<close>

definition atcmd_check_gprs_mcc_mnc :: "com_port \<Rightarrow> char list \<Rightarrow> at_line \<Rightarrow> at_line \<Rightarrow> (int \<times> char list) option" where
  "atcmd_check_gprs_mcc_mnc comport mcc_mnc line1 line2 = do {
     retval \<leftarrow> send_atcmd_check_ok comport (at_cmd ''AT+QENG=1'') 1000 line1;
     if retval \<noteq> 0 then Some (retval, mcc_mnc)
     else do {
       (retval, recv) \<leftarrow> send_atcmd comport (at_cmd ''AT+QENG?'') (Some OK_REPLY) (Some ERROR_REPLY) 5000
          (Some (replicate ATCMD_REPLY_LEN NUL)) ATCMD_REPLY_LEN line2;
       recv \<leftarrow> recv;
       if retval \<noteq> 0 then Some (retval, mcc_mnc)
       else if NUL \<notin> set recv then None
       else case strrchr_suffix (cstr recv) CHR '':'' of
              None \<Rightarrow> Some (- 1, mcc_mnc)
            | Some ptr \<Rightarrow> do {
                vs \<leftarrow> split_string_to_value ptr ''%d,%s,%s,%s'' [True, True, True, False];
                status \<leftarrow> (if vs = [] then None else Some (split_int vs 0 0));
                if status = 0
                then do {
                  mcc \<leftarrow> split_str vs 1;
                  mnc \<leftarrow> split_str vs 2;
                  _ \<leftarrow> store_str (replicate 5 NUL) (Some mcc);
                  _ \<leftarrow> store_str (replicate 5 NUL) (Some mnc);
                  mcc_mnc \<leftarrow> store_str mcc_mnc (Some (mcc @ ''-'' @ mnc));
                  Some (0, mcc_mnc) }
                else Some (- 1, mcc_mnc) } } }"

record gprs_location =
  loc_longitude :: "char list"
  loc_latitude :: "char list"
  loc_date :: "char list"
  loc_time :: "char list"
  loc_mcc_mnc :: "char list"

definition clear_location :: "gprs_location \<Rightarrow> gprs_location" where
  "clear_location loc = loc\<lparr>loc_longitude := replicate 15 NUL, loc_latitude := replicate 15 NUL, loc_date := replicate 15 NUL, loc_time := replicate 15 NUL\<rparr>"

definition atcmd_check_gprs_location :: "com_port \<Rightarrow> gprs_location \<Rightarrow> at_line \<Rightarrow> at_line \<Rightarrow> (int \<times> gprs_location) option" where
  "atcmd_check_gprs_location comport loc line1 line2 = do {
     retval \<leftarrow> send_atcmd_check_ok comport (at_cmd ''AT+QIFGCNT=0'') 1000 line1;
     if retval \<noteq> 0 then Some (retval, loc)
     else do {
       (retval, recv) \<leftarrow> request comport ''AT+QGSMLOC=1'' 10000 line2;
       if retval \<noteq> 0 then Some (retval, loc)
       else do {
         vs \<leftarrow> split_string_to_value recv ''%d,%s,%s,%s,%s'' [True, True, True, True, True];
         lon \<leftarrow> store_str (loc_longitude loc) (split_str vs 1);
         lat \<leftarrow> store_str (loc_latitude loc) (split_str vs 2);
         dat \<leftarrow> store_str (loc_date loc) (split_str vs 3);
         tim \<leftarrow> store_str (loc_time loc) (split_str vs 4);
         status \<leftarrow> (if vs = [] then None else Some (split_int vs 0 0));
         let loc = loc\<lparr>loc_longitude := lon, loc_latitude := lat, loc_date := dat, loc_time := tim\<rparr>;
         Some (if status \<noteq> 0 then (- 1, clear_location loc) else (retval, loc)) } } }"

text \<open>\<open>sprintf(atcmd, \<dots>)\<close> to the 64 bytes of the command.\<close>

definition c_int_dec :: "int \<Rightarrow> string" where
  "c_int_dec i = (if i < 0 then ''-'' @ udec 10 (nat (- i)) else udec 10 (nat i))"

definition sprintf_64 :: "string \<Rightarrow> string option" where
  "sprintf_64 s = map_option cstr (wr_slice (replicate 64 NUL) 0 (s @ [NUL]))"

definition atcmd_set_network_mode :: "com_port \<Rightarrow> int \<Rightarrow> at_line \<Rightarrow> at_line \<Rightarrow> int option" where
  "atcmd_set_network_mode comport mode line1 line2 = do {
     atcmd \<leftarrow> sprintf_64 (at_cmd (''AT+CNMP='' @ c_int_dec mode));
     retval \<leftarrow> send_atcmd_check_ok comport atcmd 3000 line1;
     if 0 \<noteq> retval then Some retval
     else do {
       retval \<leftarrow> send_atcmd_check_ok comport (at_cmd ''AT+CNAOP=2'') 3000 line2;
       Some (if 0 \<noteq> retval then retval else 0) } }"

definition check_string :: "(int \<times> string) option \<Rightarrow> char list \<Rightarrow> (int \<times> char list option) option" where
  "check_string result out = do {
     (retval, recv) \<leftarrow> result;
     if retval \<noteq> 0 then Some (retval, Some out)
     else do { out \<leftarrow> store_str out (Some recv); Some (0, Some out) } }"

definition value_of :: "com_port \<Rightarrow> string \<Rightarrow> u32 \<Rightarrow> at_line \<Rightarrow> (int \<times> string) option" where
  "value_of comport cmd timeout line = do {
     (retval, buf) \<leftarrow> send_atcmd_check_value comport (at_cmd cmd) timeout (Some (replicate ATCMD_REPLY_LEN NUL)) ATCMD_REPLY_LEN line;
     buf \<leftarrow> buf;
     Some (retval, cstr buf) }"

definition atcmd_check_gprs_name :: "com_port \<Rightarrow> char list option \<Rightarrow> at_line \<Rightarrow> (int \<times> char list option) option" where
  "atcmd_check_gprs_name comport out line =
     (case out of None \<Rightarrow> Some (- 1, None) | Some out \<Rightarrow> check_string (value_of comport ''AT+CGMM'' 5000 line) out)"

definition atcmd_check_gprs_version :: "com_port \<Rightarrow> char list option \<Rightarrow> at_line \<Rightarrow> (int \<times> char list option) option" where
  "atcmd_check_gprs_version comport out line =
     (case out of None \<Rightarrow> Some (- 1, None) | Some out \<Rightarrow> check_string (request comport ''AT+CGMR'' 5000 line) out)"

definition atcmd_check_gprs_iemi :: "com_port \<Rightarrow> char list option \<Rightarrow> at_line \<Rightarrow> (int \<times> char list option) option" where
  "atcmd_check_gprs_iemi comport out line =
     (case out of None \<Rightarrow> Some (- 1, None) | Some out \<Rightarrow> check_string (value_of comport ''AT+CGSN'' 5000 line) out)"

definition atcmd_check_gprs_network :: "com_port \<Rightarrow> int option \<Rightarrow> at_line \<Rightarrow> (int \<times> int option) option" where
  "atcmd_check_gprs_network comport network line =
     (case network of
        None \<Rightarrow> Some (- 1, None)
      | Some old \<Rightarrow> do {
          (retval, recv) \<leftarrow> request comport ''AT+CNSMOD?'' 5000 line;
          if retval \<noteq> 0 then Some (retval, Some old)
          else do {
            vs \<leftarrow> split_string_to_value recv ''%d,%d'' [False, True];
            Some (0, Some (split_int vs 1 old)) } })"

definition atcmd_set_apn :: "com_port \<Rightarrow> string \<Rightarrow> at_line \<Rightarrow> int option" where
  "atcmd_set_apn comport apn line = do {
     atcmd \<leftarrow> sprintf_64 (at_cmd (''AT+CGDCONT=1,'' @ [CHR 0x22] @ ''IP'' @ [CHR 0x22] @ '','' @ [CHR 0x22] @ apn @ [CHR 0x22]));
     send_atcmd_check_ok comport atcmd 2000 line }"

end
