(* ===== verification/AtcmdReply.thy ===== *)
theory AtcmdReply
  imports Atcmd
begin

text \<open>
  What the commands of \<open>Atcmd\<close> achieve on a modem that replies: the first prefix of the reply that has the expected or the error
  text ends the command, and a query hands out the value in it.
\<close>

section \<open>Matching\<close>

lemma takeWhile_other: "d \<notin> set p \<Longrightarrow> takeWhile (\<lambda>c. c \<noteq> d) p = p" "d \<notin> set p \<Longrightarrow> takeWhile (\<lambda>c. c \<noteq> d) (p @ d # q) = p"
  by (induction p) auto

lemma at_match_one:
  assumes "p \<noteq> []" "tab \<notin> set p" "length p < 256"
  shows "at_match s p = Some (if is_substring p s then 0 else 1)"
  unfolding at_match.simps [of s p] Let_def takeWhile_other(1) [OF assms(2)] using assms by simp

lemma at_match_list:
  "ps \<noteq> [] \<Longrightarrow> \<forall>p\<in>set ps. p \<noteq> [] \<and> tab \<notin> set p \<and> length p < 256 \<Longrightarrow>
   at_match s (csv tab ps) = Some (if \<exists>p\<in>set ps. is_substring p s then 0 else 1)"
proof (induction ps)
  case (Cons p ps)
  show ?case
  proof (cases "ps = []")
    case True
    then show ?thesis using Cons.prems at_match_one [of p s] by simp
  next
    case False
    have "takeWhile (\<lambda>c. c \<noteq> tab) (p @ tab # csv tab ps) = p"
      using Cons.prems(2) by (intro takeWhile_other(2)) auto
    moreover have "csv tab ps \<noteq> []" using False Cons.prems(2) by (cases ps; cases "tl ps") auto
    ultimately show ?thesis
      using Cons False by (simp add: csv_Cons at_match.simps [of s "p @ tab # csv tab ps"] Let_def)
  qed
qed simp

section \<open>Receiving\<close>

text \<open>What a round gives, and a reply as a block filled up with zeros.\<close>

definition poll_bytes :: "at_poll \<Rightarrow> string" where
  "poll_bytes p = (case ap_select p of SelReady False True \<Rightarrow> (case ap_read p of ReadBytes xs \<Rightarrow> xs | _ \<Rightarrow> []) | _ \<Rightarrow> [])"

definition one_byte :: "at_poll \<Rightarrow> bool" where
  "one_byte p \<longleftrightarrow> (\<forall>xs. ap_read p = ReadBytes xs \<longrightarrow> length xs \<le> 1)"

definition received :: "at_poll list \<Rightarrow> string" where
  "received ps = concat (map poll_bytes ps)"

definition padded :: "nat \<Rightarrow> string \<Rightarrow> char list" where
  "padded n s = s @ replicate (n - length s) NUL"

lemma received_simps [simp]: "received [] = []" "received (p # ps) = poll_bytes p @ received ps"
  "received (ps @ qs) = received ps @ received qs"
  by (simp_all add: received_def)

lemma poll_bytes_length: "one_byte p \<Longrightarrow> length (poll_bytes p) \<le> 1"
  by (auto simp: poll_bytes_def one_byte_def split: select_result.split bool.split read_result.split)

lemma comport_recv_one:
  assumes "is_connted cp = 1" "0 < cap" "one_byte p"
  shows "\<exists>n. comport_recv cp cap 1 50 (ap_select p) (ap_read p) = Some (n, poll_bytes p) \<and> (n > 0 \<longleftrightarrow> poll_bytes p \<noteq> [])"
  using assms by (cases "ap_select p"; cases "ap_read p")
    (auto simp: comport_recv_def Let_def poll_bytes_def one_byte_def split: bool.split)

lemma cstr_padded: "NUL \<notin> set s \<Longrightarrow> cstr (padded n s) = s"
  unfolding cstr_def padded_def NUL_def
  by (cases "n - length s") (simp_all add: takeWhile_other)

lemma padded_add:
  assumes "length acc + length xs < n"
  shows "wr_slice (padded n acc) (length acc) xs = Some (padded n (acc @ xs))"
    "wr (padded n (acc @ xs)) (n - 1) NUL = Some (padded n (acc @ xs))"
proof -
  show "wr_slice (padded n acc) (length acc) xs = Some (padded n (acc @ xs))"
    using assms by (simp add: padded_def wr_slice_def drop_replicate) 
  have "padded n (acc @ xs) ! (n - 1) = NUL" using assms by (auto simp: padded_def nth_append)
  then have "(padded n (acc @ xs))[n - 1 := NUL] = padded n (acc @ xs)" by (metis list_update_id)
  moreover have "n - 1 < length (padded n (acc @ xs))" using assms by (simp add: padded_def)
  ultimately show "wr (padded n (acc @ xs)) (n - 1) NUL = Some (padded n (acc @ xs))" by simp
qed

lemma padded_length: "length s \<le> n \<Longrightarrow> length (padded n s) = n"
  by (simp add: padded_def)

definition at_pattern :: "string \<Rightarrow> bool" where
  "at_pattern p \<longleftrightarrow> p \<noteq> [] \<and> tab \<notin> set p \<and> length p < 256"

lemma reply_step:
  assumes "is_connted cp = 1" "one_byte p" "time_elapsed (ap_now p) start < timeout" "at_pattern e" "at_pattern er"
    "NUL \<notin> set acc" "NUL \<notin> set (poll_bytes p)" "length acc < 1023"
  shows "reply_loop cp (Some e) (Some er) timeout start (padded 1024 acc) (length acc) (p # ps) =
    (if poll_bytes p = [] then reply_loop cp (Some e) (Some er) timeout start (padded 1024 acc) (length acc) ps
     else if is_substring e (acc @ poll_bytes p) then Some (0, padded 1024 (acc @ poll_bytes p))
     else if is_substring er (acc @ poll_bytes p) then Some (- 3, padded 1024 (acc @ poll_bytes p))
     else reply_loop cp (Some e) (Some er) timeout start (padded 1024 (acc @ poll_bytes p)) (length (acc @ poll_bytes p)) ps)"
proof -
  have len: "length (padded 1024 acc) = 1024" using assms(8) by (simp add: padded_length)
  obtain n where n: "comport_recv cp (1024 - length acc) 1 50 (ap_select p) (ap_read p) = Some (n, poll_bytes p)"
    "n > 0 \<longleftrightarrow> poll_bytes p \<noteq> []"
    using comport_recv_one [OF assms(1) _ assms(2), of "1024 - length acc"] assms(8) by auto
  show ?thesis
  proof (cases "poll_bytes p = []")
    case True
    then show ?thesis using n assms(3,8) len by simp
  next
    case False
    have fit: "length acc + length (poll_bytes p) < 1024" using poll_bytes_length [OF assms(2)] assms(8) by simp
    have c: "cstr (padded 1024 (acc @ poll_bytes p)) = acc @ poll_bytes p" using assms(6,7) by (simp add: cstr_padded)
    have l2: "length (padded 1024 (acc @ poll_bytes p)) = 1024" using fit by (simp add: padded_length)
    have m: "at_match s e = Some (if is_substring e s then 0 else 1)" "at_match s er = Some (if is_substring er s then 0 else 1)" for s
      using at_match_one assms(4,5) by (auto simp: at_pattern_def)
    show ?thesis using False n assms(3,8) len padded_add [OF fit] c l2 m by simp
  qed
qed

text \<open>A text that has just become complete.\<close>

definition completes :: "string \<Rightarrow> string \<Rightarrow> string \<Rightarrow> bool" where
  "completes e er ys \<longleftrightarrow> (is_substring e ys \<or> is_substring er ys) \<and>
     (\<forall>k<length ys. \<not> is_substring e (take k ys) \<and> \<not> is_substring er (take k ys))"

lemma reply_loop_completes:
  "is_connted cp = 1 \<Longrightarrow> \<forall>p\<in>set ps. one_byte p \<and> time_elapsed (ap_now p) start < timeout \<Longrightarrow> at_pattern e \<Longrightarrow> at_pattern er \<Longrightarrow>
   received ps = xs \<Longrightarrow> xs \<noteq> [] \<Longrightarrow> completes e er (acc @ xs) \<Longrightarrow> NUL \<notin> set (acc @ xs) \<Longrightarrow> length (acc @ xs) < 1024 \<Longrightarrow>
   reply_loop cp (Some e) (Some er) timeout start (padded 1024 acc) (length acc) (ps @ qs) =
     Some (if is_substring e (acc @ xs) then 0 else - 3, padded 1024 (acc @ xs))"
proof (induction ps arbitrary: acc xs)
  case (Cons p ps)
  have xs: "xs = poll_bytes p @ received ps" using Cons.prems(5) by simp
  note step = reply_step [of cp p start timeout e er acc "ps @ qs"]
  have pre: "is_connted cp = 1" "one_byte p" "time_elapsed (ap_now p) start < timeout" "at_pattern e" "at_pattern er"
    "NUL \<notin> set acc" "NUL \<notin> set (poll_bytes p)" "length acc < 1023"
    using Cons.prems(1-4,6,8,9) xs by (auto simp: neq_Nil_conv)
  show ?case
  proof (cases "poll_bytes p = []")
    case True
    then show ?thesis using step [OF pre] Cons.IH [of xs acc] Cons.prems xs by simp
  next
    case False
    show ?thesis
    proof (cases "received ps = []")
      case True
      have hit: "is_substring e (acc @ xs) \<or> is_substring er (acc @ xs)" using Cons.prems(7) by (simp add: completes_def)
      show ?thesis using step [OF pre] False hit xs True by auto
    next
      case rest: False
      have "take (length (acc @ poll_bytes p)) (acc @ xs) = acc @ poll_bytes p" by (simp add: xs)
      moreover have "length (acc @ poll_bytes p) < length (acc @ xs)" using rest by (simp add: xs)
      ultimately have "\<not> is_substring e (acc @ poll_bytes p)" "\<not> is_substring er (acc @ poll_bytes p)"
        using Cons.prems(7) unfolding completes_def by metis+
      then show ?thesis
        using step [OF pre] False rest Cons.IH [of "received ps" "acc @ poll_bytes p"] Cons.prems xs by simp
    qed
  qed
qed simp

lemma reply_loop_times_out:
  "is_connted cp = 1 \<Longrightarrow> \<forall>p\<in>set ps. one_byte p \<and> time_elapsed (ap_now p) start < timeout \<Longrightarrow> at_pattern e \<Longrightarrow> at_pattern er \<Longrightarrow>
   received ps = xs \<Longrightarrow> \<forall>k\<le>length (acc @ xs). \<not> is_substring e (take k (acc @ xs)) \<and> \<not> is_substring er (take k (acc @ xs)) \<Longrightarrow>
   NUL \<notin> set (acc @ xs) \<Longrightarrow> length (acc @ xs) < 1024 \<Longrightarrow> \<not> time_elapsed (ap_now q) start < timeout \<Longrightarrow>
   reply_loop cp (Some e) (Some er) timeout start (padded 1024 acc) (length acc) (ps @ q # qs) = Some (- 4, padded 1024 (acc @ xs))"
proof (induction ps arbitrary: acc xs)
  case (Cons p ps)
  have xs: "xs = poll_bytes p @ received ps" using Cons.prems(5) by simp
  show ?case
  proof (cases "poll_bytes p = []")
    case empty: True
    show ?thesis
    proof (cases "length acc < 1023")
      case True
      have pre: "is_connted cp = 1" "one_byte p" "time_elapsed (ap_now p) start < timeout" "at_pattern e" "at_pattern er"
        "NUL \<notin> set acc" "NUL \<notin> set (poll_bytes p)"
        using Cons.prems(1-4,7) xs by auto
      show ?thesis using reply_step [OF pre True, of "ps @ q # qs"] Cons.IH [of xs acc] Cons.prems xs empty by simp
    next
      case False
      then have "length (padded 1024 acc) = 1024" using Cons.prems(8) by (simp add: padded_length)
      then show ?thesis using False Cons.IH [of xs acc] Cons.prems xs empty by simp
    qed
  next
    case False
    have pre: "is_connted cp = 1" "one_byte p" "time_elapsed (ap_now p) start < timeout" "at_pattern e" "at_pattern er"
      "NUL \<notin> set acc" "NUL \<notin> set (poll_bytes p)" "length acc < 1023"
      using Cons.prems(1-4,7,8) xs False by (auto simp: neq_Nil_conv)
    have "take (length (acc @ poll_bytes p)) (acc @ xs) = acc @ poll_bytes p" "length (acc @ poll_bytes p) \<le> length (acc @ xs)"
      by (simp_all add: xs)
    then have "\<not> is_substring e (acc @ poll_bytes p)" "\<not> is_substring er (acc @ poll_bytes p)"
      using Cons.prems(6) by metis+
    then show ?thesis
      using reply_step [OF pre, of "ps @ q # qs"] False Cons.IH [of "received ps" "acc @ poll_bytes p"] Cons.prems xs by simp
  qed
qed simp

section \<open>Commands\<close>

text \<open>The port is open, its rubbish ends, the command can be written, and the modem sends \<open>ys\<close> in time, with pauses between the
  bytes, until one of the two texts is complete.\<close>

definition modem_answers :: "com_port \<Rightarrow> string \<Rightarrow> string \<Rightarrow> string \<Rightarrow> u32 \<Rightarrow> at_line \<Rightarrow> string \<Rightarrow> bool" where
  "modem_answers cp cmd e er timeout line ys \<longleftrightarrow>
     is_connted cp = 1 \<and> at_pattern e \<and> at_pattern er \<and>
     rubbish_loop cp (al_rubbish_start line) (replicate 1024 NUL) (al_rubbish line) \<noteq> None \<and>
     (\<exists>parts. comport_send cp (cmd @ [NUL]) (int (length cmd)) (al_writes line) = Some (0, parts)) \<and>
     (\<exists>ps qs. al_polls line = ps @ qs \<and> received ps = ys \<and>
        (\<forall>p\<in>set ps. one_byte p \<and> time_elapsed (ap_now p) (al_start line) < timeout)) \<and>
     ys \<noteq> [] \<and> NUL \<notin> set ys \<and> completes e er ys \<and> length ys < 1024"

lemma padded_Nil: "padded n [] = replicate n NUL"
  by (simp add: padded_def)

lemma send_atcmd_answer:
  assumes "modem_answers cp cmd e er timeout line ys"
  shows "send_atcmd cp cmd (Some e) (Some er) timeout None 0 line = Some (if is_substring e ys then 0 else - 3, None)"
    "n \<le> length buf \<Longrightarrow> send_atcmd cp cmd (Some e) (Some er) timeout (Some buf) n line =
      Some (if is_substring e ys then 0 else - 3, Some (take n (ys @ replicate n NUL) @ drop n buf))"
proof -
  obtain rub parts ps qs where l: "is_connted cp = 1" "at_pattern e" "at_pattern er"
    "rubbish_loop cp (al_rubbish_start line) (replicate 1024 NUL) (al_rubbish line) = Some rub"
    "comport_send cp (cmd @ [NUL]) (int (length cmd)) (al_writes line) = Some (0, parts)"
    "al_polls line = ps @ qs" "received ps = ys" "\<forall>p\<in>set ps. one_byte p \<and> time_elapsed (ap_now p) (al_start line) < timeout"
    "ys \<noteq> []" "NUL \<notin> set ys" "completes e er ys" "length ys < 1024"
    using assms unfolding modem_answers_def by blast
  have r: "reply_loop cp (Some e) (Some er) timeout (al_start line) (replicate 1024 NUL) 0 (al_polls line) =
      Some (if is_substring e ys then 0 else - 3, padded 1024 ys)"
    using reply_loop_completes [OF l(1,8,2,3,7,9), of "[]" qs] l(6,10-12) by (simp add: padded_Nil)
  have c: "cstr (padded 1024 ys) = ys" by (rule cstr_padded [OF l(10)])
  show "send_atcmd cp cmd (Some e) (Some er) timeout None 0 line = Some (if is_substring e ys then 0 else - 3, None)"
    using l(1,4,5) r by (simp add: send_atcmd_def)
  show "send_atcmd cp cmd (Some e) (Some er) timeout (Some buf) n line =
      Some (if is_substring e ys then 0 else - 3, Some (take n (ys @ replicate n NUL) @ drop n buf))" if "n \<le> length buf"
  proof -
    have len: "length (take n (ys @ replicate n NUL)) = n" by simp
    have "c_strncpy buf ys n = Some (take n (ys @ replicate n NUL) @ drop n buf)"
      unfolding c_strncpy_def wr_slice_def len using that by simp
    then show ?thesis using l(1,4,5) r c by (simp add: send_atcmd_def)
  qed
qed

section \<open>Values\<close>

lemma strchr_found:
  "c \<notin> set pre \<Longrightarrow> NUL \<notin> set pre \<Longrightarrow> c_strchr (a @ pre @ c # rest) c (length a) = Some (Some (length a + length pre))"
proof (induction pre arbitrary: a)
  case Nil
  then show ?case by (subst c_strchr.simps) simp
next
  case (Cons x pre)
  then show ?case using Cons.IH [of "a @ [x]"] by (subst c_strchr.simps) (auto simp: nth_append)
qed

lemma copy_value_all:
  "cr \<notin> set val \<Longrightarrow> length val \<le> length b2 \<Longrightarrow> length b1 + length val \<le> n - 1 \<Longrightarrow>
   copy_value (a @ val @ cr # rest) (length a) (b1 @ b2) (length b1) n =
     Some (b1 @ val @ drop (length val) b2, length b1 + length val)"
proof (induction val arbitrary: a b1 b2)
  case Nil
  then show ?case by (subst copy_value.simps) simp
next
  case (Cons x val)
  obtain y b3 where b2: "b2 = y # b3" using Cons.prems(2) by (cases b2) simp_all
  have "copy_value (a @ (x # val) @ cr # rest) (length a) (b1 @ b2) (length b1) n =
      copy_value (a @ (x # val) @ cr # rest) (length a + 1) (b1 @ x # b3) (length b1 + 1) n"
    using Cons.prems b2 by (subst copy_value.simps) (auto simp: nth_append)
  then show ?case using Cons.IH [of b3 "b1 @ [x]" "a @ [x]"] Cons.prems b2 by simp
qed

lemma store_value_all:
  assumes "cr \<notin> set val" "NUL \<notin> set val" "length val < n" "n \<le> length buf"
  shows "\<exists>buf'. store_value (a @ val @ cr # rest) (Some (length a)) buf n = Some (if val = [] then - 3 else 0, buf') \<and>
    cstr buf' = val \<and> length buf' = length buf"
proof -
  have c: "copy_value (a @ val @ cr # rest) (length a) buf 0 n = Some (val @ drop (length val) buf, length val)"
    using copy_value_all [of val buf "[]" n a rest] assms(1,3,4) by simp
  have d: "drop (length val) buf = buf ! length val # drop (Suc (length val)) buf"
    using assms(3,4) by (intro Cons_nth_drop_Suc [symmetric]) simp
  define buf' where "buf' = val @ NUL # drop (Suc (length val)) buf"
  have "wr (val @ drop (length val) buf) (length val) NUL = Some buf'"
    using assms(3,4) by (subst d) (simp add: buf'_def wr_def)
  moreover have "rd buf' 0 = Some (if val = [] then NUL else hd val)" by (cases val) (simp_all add: buf'_def)
  moreover have "cstr buf' = val" using assms(2) by (simp add: buf'_def cstr_append_NUL)
  moreover have "length buf' = length buf" using assms(3,4) by (simp add: buf'_def)
  ultimately show ?thesis using c assms(2) by (cases val) (auto simp: store_value_def)
qed

text \<open>A successful reply with a value behind the first colon and one more character, up to a carriage return.\<close>

lemma check_request_value:
  assumes "modem_answers cp cmd OK_REPLY ERROR_REPLY timeout line ys" "is_substring OK_REPLY ys"
    "ys = pre @ CHR '':'' # c # val @ cr # post" "CHR '':'' \<notin> set pre" "cr \<notin> set val" "length ys < ATCMD_REPLY_LEN"
    "length val < n" "n \<le> length buf"
  shows "\<exists>buf'. send_atcmd_check_request cp cmd timeout (Some buf) n line = Some (if val = [] then - 3 else 0, Some buf') \<and> cstr buf' = val"
proof -
  have nul: "NUL \<notin> set ys" using assms(1) by (simp add: modem_answers_def)
  define tl where "tl = replicate (ATCMD_REPLY_LEN - length ys) NUL"
  have t: "take ATCMD_REPLY_LEN (ys @ replicate ATCMD_REPLY_LEN NUL) = ys @ tl" using assms(6) by (simp add: tl_def)
  have s: "send_atcmd cp cmd (Some OK_REPLY) (Some ERROR_REPLY) timeout (Some (replicate ATCMD_REPLY_LEN NUL)) ATCMD_REPLY_LEN line =
      Some (0, Some (ys @ tl))"
    using send_atcmd_answer(2) [OF assms(1), of ATCMD_REPLY_LEN "replicate ATCMD_REPLY_LEN NUL"] assms(2) t by simp
  have f: "c_strchr (ys @ tl) CHR '':'' 0 = Some (Some (length pre))"
    using strchr_found [of "CHR '':''" pre "[]"] assms(3,4) nul by simp
  obtain buf' where b: "store_value ((pre @ [CHR '':'', c]) @ val @ cr # (post @ tl)) (Some (length (pre @ [CHR '':'', c]))) buf n =
      Some (if val = [] then - 3 else 0, buf')" "cstr buf' = val"
    using store_value_all [of val n buf "pre @ [CHR '':'', c]" "post @ tl"] assms(3,5,7,8) nul by auto
  have "ys @ tl = (pre @ [CHR '':'', c]) @ val @ cr # (post @ tl)" "length pre + 2 = length (pre @ [CHR '':'', c])" using assms(3) by simp_all
  then show ?thesis using s f b by (simp add: send_atcmd_check_request_def)
qed

lemma request_value:
  assumes "modem_answers cp (at_cmd cmd) OK_REPLY ERROR_REPLY timeout line ys" "is_substring OK_REPLY ys"
    "ys = pre @ CHR '':'' # c # val @ cr # post" "CHR '':'' \<notin> set pre" "cr \<notin> set val" "length ys < ATCMD_REPLY_LEN"
  shows "request cp cmd timeout line = Some (if val = [] then - 3 else 0, val)"
proof -
  have "length val < ATCMD_REPLY_LEN" using assms(3,6) by simp
  then show ?thesis
    using check_request_value [OF assms, of ATCMD_REPLY_LEN "replicate ATCMD_REPLY_LEN NUL"] by (auto simp: request_def)
qed

lemma split_colon:
  assumes "split_string_to_value (CHR '':'' # t) ''%d,%s,%s,%s'' [True, True, True, False] = Some vs"
  shows "split_int vs 0 0 = 0"
proof -
  obtain tok rest where tok: "strtok CHR '','' (CHR '':'' # t) = Some (CHR '':'' # tok, rest)" by (simp add: strtok_def)
  have z: "atoi (CHR '':'' # tok) = 0"
  proof -
    have "digit_val CHR '':'' = None" by code_simp
    then show ?thesis by (simp add: atoi_def strip_left_def c_isspace_def clamp_long_def LONG_MAX_def)
  qed
  obtain vs' where "vs = Some (VInt (atoi (CHR '':'' # tok))) # vs'"
    using assms tok by (auto simp: split_string_to_value_def split_conv_def)
  then show ?thesis by (simp add: split_int_def z)
qed

section \<open>A modem\<close>

text \<open>A line that delivers the given bytes, with one pause, and takes the command in one block.\<close>

definition byte_poll :: "char \<Rightarrow> at_poll" where
  "byte_poll c = \<lparr>ap_now = 0, ap_select = SelReady False True, ap_read = ReadBytes [c]\<rparr>"

definition idle_poll :: at_poll where
  "idle_poll = \<lparr>ap_now = 0, ap_select = SelNone, ap_read = ReadFailed\<rparr>"

definition demo_line :: "nat \<Rightarrow> string \<Rightarrow> at_line" where
  "demo_line n ys = \<lparr>al_rubbish_start = 0, al_rubbish = [idle_poll], al_writes = [int n], al_start = 0,
     al_polls = idle_poll # map byte_poll ys\<rparr>"

lemma received_bytes: "received (map byte_poll ys) = ys"
  by (induction ys) (simp_all add: byte_poll_def poll_bytes_def)

lemma completes_check: "completes e er ys \<longleftrightarrow> (is_substring e ys \<or> is_substring er ys) \<and>
    list_all (\<lambda>k. \<not> is_substring e (take k ys) \<and> \<not> is_substring er (take k ys)) [0..<length ys]"
  by (auto simp: completes_def list_all_iff)

lemma at_patterns: "at_pattern OK_REPLY" "at_pattern ERROR_REPLY"
  by (simp_all add: at_pattern_def OK_REPLY_def ERROR_REPLY_def)

lemma demo_answers:
  assumes "is_connted cp = 1" "0 < length cmd" "int (length cmd) \<le> frag_size cp" "0 < timeout" "ys \<noteq> []" "NUL \<notin> set ys"
    "completes e er ys" "length ys < 1024" "at_pattern e" "at_pattern er"
  shows "modem_answers cp cmd e er timeout (demo_line (length cmd) ys) ys"
proof -
  have idle: "poll_bytes idle_poll = []" "one_byte idle_poll" "ap_now idle_poll = 0"
    by (simp_all add: poll_bytes_def idle_poll_def one_byte_def)
  have byte: "one_byte (byte_poll c)" "ap_now (byte_poll c) = 0" for c
    by (simp_all add: byte_poll_def one_byte_def)
  have z: "time_elapsed 0 0 = 0" by (simp add: time_elapsed_def)
  have rub: "rubbish_loop cp 0 (replicate 1024 NUL) [idle_poll] \<noteq> None"
    using assms(1) z by (simp add: idle_poll_def comport_recv_def Let_def)
  have send: "comport_send cp (cmd @ [NUL]) (int (length cmd)) [int (length cmd)] = Some (0, [cmd])"
    using assms(1-3) by (simp add: comport_send_def)
  have "received (idle_poll # map byte_poll ys) = ys" using received_bytes idle by simp
  moreover have "\<forall>p\<in>set (idle_poll # map byte_poll ys). one_byte p \<and> time_elapsed (ap_now p) 0 < timeout"
    using idle byte z assms(4) by auto
  ultimately have "\<exists>ps qs. idle_poll # map byte_poll ys = ps @ qs \<and> received ps = ys \<and>
      (\<forall>p\<in>set ps. one_byte p \<and> time_elapsed (ap_now p) 0 < timeout)"
    by (intro exI [of _ "idle_poll # map byte_poll ys"] exI [of _ "[]"]) simp
  then show ?thesis using assms rub send by (auto simp: modem_answers_def demo_line_def)
qed

definition gsm_port :: com_port where "gsm_port = demo_port\<lparr>frag_size := 128\<rparr>"

definition csq_reply :: string where "csq_reply = [cr, nl] @ ''+CSQ: 24,0'' @ [cr, nl, cr, nl] @ OK_REPLY"
definition qeng_reply :: string where "qeng_reply = ''+QENG: 1,460,00,0'' @ OK_REPLY"

lemma gsm_answers:
  assumes "length cmd = n" "0 < n" "n \<le> 128" "0 < timeout" "NUL \<notin> set ys" "completes OK_REPLY ERROR_REPLY ys" "ys \<noteq> []" "length ys < 1024"
  shows "modem_answers gsm_port cmd OK_REPLY ERROR_REPLY timeout (demo_line n ys) ys"
  unfolding assms(1) [symmetric] using assms by (intro demo_answers at_patterns) (simp_all add: gsm_port_def demo_port_def)

lemma demo_replies:
  "completes OK_REPLY ERROR_REPLY OK_REPLY" "is_substring OK_REPLY OK_REPLY"
  "completes OK_REPLY ERROR_REPLY qeng_reply" "is_substring OK_REPLY qeng_reply"
  "NUL \<notin> set OK_REPLY \<and> OK_REPLY \<noteq> [] \<and> length OK_REPLY < 1024"
  "NUL \<notin> set qeng_reply \<and> qeng_reply \<noteq> [] \<and> length qeng_reply < 1024"
  "completes OK_REPLY ERROR_REPLY csq_reply" "is_substring OK_REPLY csq_reply"
  "NUL \<notin> set csq_reply \<and> csq_reply \<noteq> [] \<and> length csq_reply < 1024"
  unfolding completes_check by code_simp+

section \<open>Properties\<close>

text \<open>A list of texts with tabs between them matches a reply when one of the texts occurs in it.\<close>

theorem at_match_alternatives:
  assumes "ps \<noteq> []" "\<forall>p\<in>set ps. p \<noteq> [] \<and> CHR 0x09 \<notin> set p \<and> length p < 256"
  shows "at_match s (csv CHR 0x09 ps) = Some (if \<exists>p\<in>set ps. is_substring p s then 0 else 1)"
  using assms by (rule at_match_list)

lemma at_match_alternatives_witness: "at_match ''xxOK'' (''NO'' @ [CHR 0x09] @ ''OK'') = Some 0"
  using at_match_alternatives [of "[''NO'', ''OK'']" "''xxOK''"] by simp

text \<open>C30. A command to a modem that answers returns as soon as one of the two texts is complete, with 0 for the expected one and -3
  otherwise, and stores the reply up to there.\<close>

theorem send_atcmd_collects_reply:
  assumes "modem_answers cp cmd e er timeout line ys" "n \<le> length buf"
  shows "send_atcmd cp cmd (Some e) (Some er) timeout (Some buf) n line =
    Some (if is_substring e ys then 0 else - 3, Some (take n (ys @ replicate n NUL) @ drop n buf))"
  using assms by (rule send_atcmd_answer(2))

lemma send_atcmd_collects_reply_witness:
  "send_atcmd gsm_port (''AT'' @ [CHR 0x0D]) (Some OK_REPLY) (Some ERROR_REPLY) 500 (Some (replicate 512 NUL)) 6 (demo_line 3 OK_REPLY) =
     Some (0, Some (OK_REPLY @ replicate 508 NUL))"
proof -
  have "modem_answers gsm_port (''AT'' @ [CHR 0x0D]) OK_REPLY ERROR_REPLY 500 (demo_line 3 OK_REPLY) OK_REPLY"
    using gsm_answers [of "''AT'' @ [CHR 0x0D]" 3 500 OK_REPLY] demo_replies(1,2,5) by simp
  moreover have "replicate 508 NUL = replicate 2 NUL @ replicate 506 NUL" by (simp add: replicate_add [symmetric])
  ultimately show ?thesis
    using send_atcmd_collects_reply [of gsm_port "''AT'' @ [CHR 0x0D]" OK_REPLY ERROR_REPLY 500 "demo_line 3 OK_REPLY" OK_REPLY 6 "replicate 512 NUL"]
      demo_replies(2) by (simp add: OK_REPLY_def)
qed

text \<open>The signal strength is the first number of the reply.\<close>

theorem atcmd_signal_reads_strength:
  assumes "modem_answers cp (''AT+CSQ'' @ [CHR 0x0D]) OK_REPLY ERROR_REPLY 3000 line ys" "is_substring OK_REPLY ys"
    "ys = pre @ '':'' @ [c] @ rssi @ '','' @ ber @ [CHR 0x0D] @ post" "CHR '':'' \<notin> set pre"
    "CHR 0x0D \<notin> set (rssi @ ber)" "CHR '','' \<notin> set (rssi @ ber)" "rssi \<noteq> []" "ber \<noteq> []" "length ys < ATCMD_REPLY_LEN"
  shows "atcmd_check_gprs_signal cp line = Some (atoi rssi)"
proof -
  have "request cp ''AT+CSQ'' 3000 line = Some (0, csv CHR '','' [rssi, ber])"
    using request_value [of cp "''AT+CSQ''" 3000 line ys pre c "csv CHR '','' [rssi, ber]" post] assms by (simp add: at_cmd_def)
  moreover have "split_string_to_value (csv CHR '','' [rssi, ber]) ''%d,%d'' [True, False] = Some [Some (VInt (atoi rssi)), None]"
    using split_loop_csv [of "''dd''" "[rssi, ber]" "[True, False]" "CHR '',''"] assms(6-8)
    by (simp add: split_string_to_value_def conv_char_def split_conv_def)
  ultimately show ?thesis by (simp add: atcmd_check_gprs_signal_def split_int_def)
qed

lemma atcmd_signal_reads_strength_witness: "atcmd_check_gprs_signal gsm_port (demo_line 7 csq_reply) = Some 24"
proof -
  have a: "modem_answers gsm_port (''AT+CSQ'' @ [CHR 0x0D]) OK_REPLY ERROR_REPLY 3000 (demo_line 7 csq_reply) csq_reply"
    using gsm_answers [of "''AT+CSQ'' @ [CHR 0x0D]" 7 3000 csq_reply] demo_replies(7,9) by simp
  have "atcmd_check_gprs_signal gsm_port (demo_line 7 csq_reply) = Some (atoi ''24'')"
    by (rule atcmd_signal_reads_strength [OF a demo_replies(8), where pre = "[cr, nl] @ ''+CSQ''" and c = "CHR '' ''" and ber = "''0''"
        and post = "[nl, cr, nl] @ OK_REPLY"])
      (simp_all add: csq_reply_def OK_REPLY_def ATCMD_REPLY_LEN_def)
  moreover have "atoi ''24'' = 24" by code_simp
  ultimately show ?thesis by simp
qed

text \<open>The query for the country and network codes splits the text from the colon on, so its status field starts with the colon
  and is always read as 0: whatever status the modem reports, the query succeeds.\<close>

theorem atcmd_mcc_mnc_ignores_status:
  assumes "modem_answers cp (''AT+QENG=1'' @ [CHR 0x0D]) OK_REPLY ERROR_REPLY 1000 line1 ys1" "is_substring OK_REPLY ys1"
    "modem_answers cp (''AT+QENG?'' @ [CHR 0x0D]) OK_REPLY ERROR_REPLY 5000 line2 ys2" "is_substring OK_REPLY ys2"
    "length ys2 < ATCMD_REPLY_LEN" "CHR '':'' \<in> set ys2"
    "atcmd_check_gprs_mcc_mnc cp out line1 line2 = Some (r, out')"
  shows "r = 0"
proof -
  have ok: "send_atcmd_check_ok cp (at_cmd ''AT+QENG=1'') 1000 line1 = Some 0"
    using send_atcmd_answer(1) [OF assms(1)] assms(2) by (simp add: send_atcmd_check_ok_def at_cmd_def)
  define recv where "recv = padded ATCMD_REPLY_LEN ys2"
  have nul: "NUL \<notin> set ys2" using assms(3) by (simp add: modem_answers_def)
  have recv: "cstr recv = ys2" "NUL \<in> set recv" using nul assms(5) by (simp_all add: recv_def cstr_padded) (simp add: padded_def)
  have "send_atcmd cp (at_cmd ''AT+QENG?'') (Some OK_REPLY) (Some ERROR_REPLY) 5000
      (Some (replicate ATCMD_REPLY_LEN NUL)) ATCMD_REPLY_LEN line2 = Some (0, Some recv)"
    using send_atcmd_answer(2) [OF assms(3), of ATCMD_REPLY_LEN "replicate ATCMD_REPLY_LEN NUL"] assms(4,5)
    by (simp add: at_cmd_def recv_def padded_def)
  moreover define ptr where "ptr = CHR '':'' # rev (takeWhile (\<lambda>x. x \<noteq> CHR '':'') (rev ys2))"
  have "strrchr_suffix (cstr recv) CHR '':'' = Some ptr" using assms(6) by (simp add: strrchr_suffix_def recv ptr_def)
  ultimately obtain vs where vs: "split_string_to_value ptr ''%d,%s,%s,%s'' [True, True, True, False] = Some vs" "vs \<noteq> []"
    and res: "split_int vs 0 0 = 0 \<Longrightarrow> r = 0"
    using assms(7) ok recv(2) by (auto simp: atcmd_check_gprs_mcc_mnc_def split: if_splits)
  have "split_int vs 0 0 = 0" using split_colon [OF vs(1) [unfolded ptr_def]] .
  then show ?thesis by (rule res)
qed

lemma qeng_split:
  "strrchr_suffix qeng_reply CHR '':'' = Some ('': 1,460,00,0'' @ OK_REPLY)"
  "split_string_to_value ('': 1,460,00,0'' @ OK_REPLY) ''%d,%s,%s,%s'' [True, True, True, False] =
     Some [Some (VInt 0), Some (VString ''460''), Some (VString ''00''), None]"
  by code_simp+

lemma atcmd_mcc_mnc_ignores_status_witness:
  "map_option fst (atcmd_check_gprs_mcc_mnc gsm_port (replicate 16 NUL) (demo_line 10 OK_REPLY) (demo_line 9 qeng_reply)) = Some 0"
proof -
  have a1: "modem_answers gsm_port (''AT+QENG=1'' @ [CHR 0x0D]) OK_REPLY ERROR_REPLY 1000 (demo_line 10 OK_REPLY) OK_REPLY"
    using gsm_answers [of "''AT+QENG=1'' @ [CHR 0x0D]" 10 1000 OK_REPLY] demo_replies(1,2,5) by simp
  have a2: "modem_answers gsm_port (''AT+QENG?'' @ [CHR 0x0D]) OK_REPLY ERROR_REPLY 5000 (demo_line 9 qeng_reply) qeng_reply"
    using gsm_answers [of "''AT+QENG?'' @ [CHR 0x0D]" 9 5000 qeng_reply] demo_replies(3,4,6) by simp
  have s1: "send_atcmd_check_ok gsm_port (at_cmd ''AT+QENG=1'') 1000 (demo_line 10 OK_REPLY) = Some 0"
    using send_atcmd_answer(1) [OF a1] demo_replies(2) by (simp add: send_atcmd_check_ok_def at_cmd_def)
  have len: "length qeng_reply < ATCMD_REPLY_LEN" "CHR '':'' \<in> set qeng_reply"
    by (simp_all add: qeng_reply_def OK_REPLY_def ATCMD_REPLY_LEN_def)
  have s2: "send_atcmd gsm_port (at_cmd ''AT+QENG?'') (Some OK_REPLY) (Some ERROR_REPLY) 5000
      (Some (replicate ATCMD_REPLY_LEN NUL)) ATCMD_REPLY_LEN (demo_line 9 qeng_reply) = Some (0, Some (padded ATCMD_REPLY_LEN qeng_reply))"
    using send_atcmd_answer(2) [OF a2, of ATCMD_REPLY_LEN "replicate ATCMD_REPLY_LEN NUL"] demo_replies(4) len(1)
    by (simp add: at_cmd_def padded_def)
  have recv: "cstr (padded ATCMD_REPLY_LEN qeng_reply) = qeng_reply" "NUL \<in> set (padded ATCMD_REPLY_LEN qeng_reply)"
    using demo_replies(6) len(1) by (simp_all add: cstr_padded) (simp add: padded_def)
  obtain r out' where r: "atcmd_check_gprs_mcc_mnc gsm_port (replicate 16 NUL) (demo_line 10 OK_REPLY) (demo_line 9 qeng_reply) = Some (r, out')"
    using s1 s2 recv qeng_split by (simp add: atcmd_check_gprs_mcc_mnc_def split_int_def split_str_def store_str_def wr_slice_def)
  have "r = 0"
    by (rule atcmd_mcc_mnc_ignores_status [OF a1 demo_replies(2) a2 demo_replies(4) len r])
  then show ?thesis using r by simp
qed

text \<open>The command that sets the access point is formed in 64 bytes: with a name of more than 42 characters it leaves them.\<close>

theorem atcmd_set_apn_bounds:
  assumes "NUL \<notin> set apn"
  shows "atcmd_set_apn cp apn line =
    (if length apn \<le> 42 then send_atcmd_check_ok cp (''AT+CGDCONT=1,'' @ [CHR 0x22] @ ''IP'' @ [CHR 0x22] @ '','' @ [CHR 0x22] @ apn @ [CHR 0x22, CHR 0x0D]) 2000 line
     else None)"
proof -
  let ?s = "''AT+CGDCONT=1,'' @ [CHR 0x22] @ ''IP'' @ [CHR 0x22] @ '','' @ [CHR 0x22] @ apn @ [CHR 0x22, CHR 0x0D]"
  have "sprintf_64 ?s = (if length apn \<le> 42 then Some ?s else None)"
  proof (cases "length apn \<le> 42")
    case True
    have "cstr (?s @ NUL # drop (Suc (length ?s)) (replicate 64 NUL)) = ?s"
      by (rule cstr_append_NUL) (use assms in \<open>simp add: NUL_def\<close>)
    then show ?thesis using True by (simp add: sprintf_64_def wr_slice_def)
  next
    case False
    then show ?thesis by (simp add: sprintf_64_def wr_slice_def)
  qed
  then show ?thesis by (simp add: atcmd_set_apn_def at_cmd_def)
qed

lemma atcmd_set_apn_bounds_witness: "atcmd_set_apn demo_port (replicate 43 CHR ''a'') (demo_line 1 OK_REPLY) = None"
  using atcmd_set_apn_bounds [of "replicate 43 CHR ''a''"] by (simp add: NUL_def)

end
