(* ===== verification/Hal.thy ===== *)
theory Hal
  imports Prelude
begin

text \<open>
  The hardware access of the library (\<open>cp_library/cp_hal.c\<close>): each call opens a device, makes one \<open>ioctl\<close> and closes it. The results
  of the two system calls are the argument; the result is the value returned and the request that reached the device, if any.
\<close>

record dev_call =
  dc_open :: int
  dc_ioctl :: int

datatype dev_request = LED_ON int | LED_OFF int | LED_BLINK int | GSM_SET_POWER int | GSM_GET_POWER | GPS_SET_POWER int | GPS_GET_POWER
  | ZIGBEE_RESET | ZIGBEE_STATUS | GM_SET_MEASURE_RADI int | GM_GET_MEASURE_DOSE

abbreviation (input) OFF :: int where "OFF \<equiv> 0"
abbreviation (input) ON :: int where "ON \<equiv> 1"

definition hal_turn_led_on :: "int \<Rightarrow> dev_call \<Rightarrow> int \<times> dev_request option" where
  "hal_turn_led_on led sys = (if dc_open sys < 0 then (- 1, None) else (0, Some (LED_ON led)))"

definition hal_turn_led_off :: "int \<Rightarrow> dev_call \<Rightarrow> int \<times> dev_request option" where
  "hal_turn_led_off led sys = (if dc_open sys < 0 then (- 1, None) else (0, Some (LED_OFF led)))"

definition hal_turn_led_blink :: "int \<Rightarrow> int \<Rightarrow> dev_call \<Rightarrow> int \<times> dev_request option" where
  "hal_turn_led_blink led mode sys =
     (let arg = led OR push_bit 3 mode in if dc_open sys < 0 then (- 1, None) else (0, Some (LED_BLINK arg)))"

definition hal_turn_gprs_power :: "int \<Rightarrow> dev_call \<Rightarrow> int \<times> dev_request option" where
  "hal_turn_gprs_power status sys =
     (if dc_open sys < 0 then (- 1, None)
      else if dc_ioctl sys < 0 then (- 2, Some (GSM_SET_POWER status)) else (dc_ioctl sys, Some (GSM_SET_POWER status)))"

definition hal_get_gprs_power :: "dev_call \<Rightarrow> int \<times> dev_request option" where
  "hal_get_gprs_power sys =
     (if dc_open sys < 0 then (- 1, None)
      else if dc_ioctl sys < 0 then (- 2, Some GSM_GET_POWER) else (dc_ioctl sys, Some GSM_GET_POWER))"

definition hal_turn_gps_power :: "int \<Rightarrow> dev_call \<Rightarrow> int \<times> dev_request option" where
  "hal_turn_gps_power status sys =
     (if dc_open sys < 0 then (- 1, None)
      else if dc_ioctl sys < 0 then (- 2, Some (GPS_SET_POWER status)) else (dc_ioctl sys, Some (GPS_SET_POWER status)))"

definition hal_get_gps_power :: "dev_call \<Rightarrow> int \<times> dev_request option" where
  "hal_get_gps_power sys =
     (if dc_open sys < 0 then (- 1, None)
      else if dc_ioctl sys < 0 then (- 2, Some GPS_GET_POWER) else (dc_ioctl sys, Some GPS_GET_POWER))"

definition hal_reset_zigbee :: "dev_call \<Rightarrow> int \<times> dev_request option" where
  "hal_reset_zigbee sys =
     (if dc_open sys < 0 then (- 1, None) else if dc_ioctl sys < 0 then (- 2, Some ZIGBEE_RESET) else (0, Some ZIGBEE_RESET))"

definition hal_get_zigbee_status :: "dev_call \<Rightarrow> int \<times> dev_request option" where
  "hal_get_zigbee_status sys =
     (if dc_open sys < 0 then (- 1, None)
      else if dc_ioctl sys < 0 then (- 2, Some ZIGBEE_STATUS) else (dc_ioctl sys, Some ZIGBEE_STATUS))"

definition hal_set_gmtube :: "int \<Rightarrow> dev_call \<Rightarrow> int \<times> dev_request option" where
  "hal_set_gmtube status sys =
     (if dc_open sys < 0 then (- 1, None)
      else if dc_ioctl sys < 0 then (- 2, Some (GM_SET_MEASURE_RADI status)) else (dc_ioctl sys, Some (GM_SET_MEASURE_RADI status)))"

definition hal_get_gmtube_dose :: "dev_call \<Rightarrow> int \<times> dev_request option" where
  "hal_get_gmtube_dose sys =
     (if dc_open sys < 0 then (- 1, None)
      else if dc_ioctl sys < 0 then (- 2, Some GM_GET_MEASURE_DOSE) else (dc_ioctl sys, Some GM_GET_MEASURE_DOSE))"

end
