(* ===== verification/Gprs.thy ===== *)
theory Gprs
  imports Atcmd Hal
begin

text \<open>
  The GPRS module (\<open>cp_library/cp_gprs.c\<close>, \<open>cp_gsmmux.c\<close>): its ports and who uses them, switching it on and off, the
  requests for that, the checks that take it step by step to the state in which it can be used, and the control thread. A pointer to
  one of the module's data ports is its index in the array. Whatever the devices and the serial line answer is an argument.
\<close>

section \<open>State\<close>

abbreviation (input) YES :: nat where "YES \<equiv> 1"
abbreviation (input) NO :: nat where "NO \<equiv> 0"

definition MAX_DATAPORT :: int where "MAX_DATAPORT = 4"
definition CMUX_PORT_START_INDEX :: int where "CMUX_PORT_START_INDEX = 1"

datatype req_event = REQ_EVENT_NONE | REQ_POWER_OFF | REQ_POWER_ON | REQ_POWER_RESET
datatype ready_state = NOT_READY | MODULE_READY | CHECK_HWINFO | CHECK_REGISTRY | ALL_READY

fun ready_next :: "ready_state \<Rightarrow> ready_state" where
  "ready_next NOT_READY = MODULE_READY"
| "ready_next MODULE_READY = CHECK_HWINFO"
| "ready_next CHECK_HWINFO = CHECK_REGISTRY"
| "ready_next CHECK_REGISTRY = ALL_READY"
| "ready_next ALL_READY = ALL_READY"

abbreviation (input) REG_HOMEWORK :: int where "REG_HOMEWORK \<equiv> 1"
abbreviation (input) REG_DENIED :: int where "REG_DENIED \<equiv> 3"
abbreviation (input) REG_ROAMING :: int where "REG_ROAMING \<equiv> 5"

record hw_info =
  hw_model :: "char list"
  hw_mrev :: "char list"
  hw_iemi :: "char list"

record register_info =
  rg_type :: int
  rg_signal :: int
  rg_carrier :: "char list"
  rg_loc :: gprs_location

definition zero_hw :: hw_info where
  "zero_hw = \<lparr>hw_model = replicate 64 NUL, hw_mrev = replicate 64 NUL, hw_iemi = replicate 64 NUL\<rparr>"

definition zero_reg :: register_info where
  "zero_reg = \<lparr>rg_type = 0, rg_signal = 0, rg_carrier = replicate 64 NUL,
     rg_loc = \<lparr>loc_longitude = replicate 15 NUL, loc_latitude = replicate 15 NUL, loc_date = replicate 15 NUL,
       loc_time = replicate 15 NUL, loc_mcc_mnc = replicate 16 NUL\<rparr>\<rparr>"

text \<open>The power status is an \<open>unsigned char\<close>, so the negative results of the hardware access are large numbers in it.\<close>

record module_info =
  mi_users :: int
  mi_ready :: ready_state
  mi_event :: req_event
  mi_pwr_status :: u8
  mi_hw :: hw_info
  mi_reg :: register_info
  mi_gsmport :: "com_port option"
  mi_comport_cnt :: int
  mi_comport :: "com_port option list"

text \<open>The static variables of the functions.\<close>

record gprs_static =
  st_lock :: int
  st_start_time :: u32
  st_fail_module :: int
  st_fail_hwinfo :: int
  st_fail_regist :: int

section \<open>Ports\<close>

definition settings_8N1N :: "char list" where "settings_8N1N = ''8N1N'' @ [NUL]"

text \<open>The loop over the data ports, with the outcomes of the allocations; the result has the index where one failed.\<close>

fun init_ports :: "(nat \<Rightarrow> bool) \<Rightarrow> nat \<Rightarrow> nat \<Rightarrow> com_port option list \<Rightarrow> (nat option \<times> com_port option list) option" where
  "init_ports ok i 0 ports = Some (None, ports)"
| "init_ports ok i (Suc n) ports = do {
     p \<leftarrow> comport_init (ok i) (take (DEVNAME_LEN - 1) (''/dev/gsmtty'' @ c_int_dec (int i + CMUX_PORT_START_INDEX))) 115200 (Some settings_8N1N);
     ports \<leftarrow> wr ports i p;
     if p = None then Some (Some i, ports) else init_ports ok (i + 1) n ports }"

text \<open>The loop after a failure: \<open>i\<close> is tested before it is decremented, and the body has the new value. The result is what
  \<open>comport_term\<close> closes.\<close>

function term_ports :: "int \<Rightarrow> com_port option list \<Rightarrow> int option list option" where
  "term_ports i ports =
     (if i \<ge> 0
      then do {
        p \<leftarrow> (if i - 1 < 0 then None else rd ports (nat (i - 1)));
        rest \<leftarrow> term_ports (i - 1) ports;
        Some (comport_term p # rest) }
      else Some [])"
  by pat_completeness auto
termination by (relation "measure (\<lambda>(i, ports). nat (i + 1))") auto

declare term_ports.simps [simp del]

definition init_gsm_module :: "bool \<Rightarrow> (nat \<Rightarrow> bool) \<Rightarrow> (int \<times> module_info) option" where
  "init_gsm_module gsm_ok ok = do {
     let module = \<lparr>mi_users = 0, mi_ready = NOT_READY, mi_event = REQ_POWER_RESET, mi_pwr_status = 0, mi_hw = zero_hw, mi_reg = zero_reg,
       mi_gsmport = None, mi_comport_cnt = 0, mi_comport = replicate (nat MAX_DATAPORT) None\<rparr>;
     gsm \<leftarrow> comport_init gsm_ok ''/dev/ttyS2'' 115200 (Some settings_8N1N);
     let module = module\<lparr>mi_gsmport := gsm\<rparr>;
     if gsm = None then Some (- 1, module)
     else do {
       let module = module\<lparr>mi_comport_cnt := MAX_DATAPORT\<rparr>;
       (failed, ports) \<leftarrow> init_ports ok 0 (nat (mi_comport_cnt module)) (mi_comport module);
       let module = module\<lparr>mi_comport := ports\<rparr>;
       case failed of
         None \<Rightarrow> Some (0, module)
       | Some i \<Rightarrow> do { _ \<leftarrow> term_ports (int i) ports; Some (- 2, module) } } }"

fun close_ports :: "com_port option list \<Rightarrow> com_port option list option" where
  "close_ports [] = Some []"
| "close_ports (p # ps) = do { c \<leftarrow> p; ps \<leftarrow> close_ports ps; Some (Some (comport_close c) # ps) }"

definition close_gsm_dataport :: "module_info \<Rightarrow> module_info option" where
  "close_gsm_dataport module = do {
     used \<leftarrow> rd_slice (mi_comport module) 0 (nat (mi_comport_cnt module));
     used \<leftarrow> close_ports used;
     Some (module\<lparr>mi_comport := used @ drop (nat (mi_comport_cnt module)) (mi_comport module)\<rparr>) }"

fun open_ports :: "open_results list \<Rightarrow> com_port option list \<Rightarrow> (int \<times> com_port option list) option" where
  "open_ports sys [] = Some (0, [])"
| "open_ports [] (p # ps) = None"
| "open_ports (s # sys) (p # ps) = do {
     c \<leftarrow> p;
     (retval, c, _) \<leftarrow> comport_open s c;
     if retval < 0 then Some (retval, Some c # ps)
     else do { (retval, ps) \<leftarrow> open_ports sys ps; Some (retval, Some c # ps) } }"

definition open_gsm_dataport :: "open_results list \<Rightarrow> module_info \<Rightarrow> (int \<times> module_info) option" where
  "open_gsm_dataport sys module = do {
     used \<leftarrow> rd_slice (mi_comport module) 0 (nat (mi_comport_cnt module));
     (retval, used) \<leftarrow> open_ports sys used;
     let module = module\<lparr>mi_comport := used @ drop (nat (mi_comport_cnt module)) (mi_comport module)\<rparr>;
     if retval < 0 then do { module \<leftarrow> close_gsm_dataport module; Some (retval, module) }
     else Some (0, module) }"

fun find_unused :: "com_port option list \<Rightarrow> nat \<Rightarrow> nat option option" where
  "find_unused [] i = Some None"
| "find_unused (p # ps) i = do { c \<leftarrow> p; if cp_used c \<noteq> YES then Some (Some i) else find_unused ps (i + 1) }"

definition alloc_gsm_dataport :: "gprs_static \<Rightarrow> module_info \<Rightarrow> (nat option \<times> module_info) option" where
  "alloc_gsm_dataport st module =
     (if st_lock st \<noteq> 0 then Some (None, module)
      else do {
        used \<leftarrow> rd_slice (mi_comport module) 0 (nat (mi_comport_cnt module));
        found \<leftarrow> find_unused used 0;
        case found of
          None \<Rightarrow> Some (None, module)
        | Some i \<Rightarrow> do {
            p \<leftarrow> rd (mi_comport module) i;
            c \<leftarrow> p;
            ports \<leftarrow> wr (mi_comport module) i (Some (c\<lparr>cp_used := YES\<rparr>));
            Some (Some i, module\<lparr>mi_comport := ports, mi_users := mi_users module + 1\<rparr>) } })"

text \<open>\<open>comport\<close> is the pointer that the caller holds; it is set to \<open>NULL\<close> when it is one of the ports. A null pointer is found only among
  null entries, which the code would then dereference.\<close>

definition free_gsm_dataport :: "module_info \<Rightarrow> nat option \<Rightarrow> (module_info \<times> nat option) option" where
  "free_gsm_dataport module comport = do {
     used \<leftarrow> rd_slice (mi_comport module) 0 (nat (mi_comport_cnt module));
     case comport of
       None \<Rightarrow> if None \<in> set used then None else Some (module, None)
     | Some i \<Rightarrow>
         if i < length used
         then do {
           c \<leftarrow> used ! i;
           ports \<leftarrow> wr (mi_comport module) i (Some (c\<lparr>cp_used := NO\<rparr>));
           Some (module\<lparr>mi_comport := ports, mi_users := mi_users module - 1\<rparr>, None) }
         else Some (module, Some i) }"

section \<open>Power\<close>

fun check_power_loop :: "nat \<Rightarrow> com_port \<Rightarrow> at_line list \<Rightarrow> int option" where
  "check_power_loop 0 comport lines = Some 0"
| "check_power_loop (Suc n) comport lines =
     (case lines of
        [] \<Rightarrow> None
      | line # lines \<Rightarrow> do {
          rv \<leftarrow> atcmd_check_at_ready comport line;
          if rv = 0 then Some 1 else check_power_loop n comport lines })"

definition atcmd_check_power_on :: "com_port \<Rightarrow> at_line list \<Rightarrow> int option" where
  "atcmd_check_power_on comport lines = check_power_loop 10 comport lines"

text \<open>\<open>attach_gsm0710\<close> of \<open>cp_gsmmux.c\<close>; \<open>ldisc\<close> is the result of the \<open>ioctl\<close> that sets the line discipline. What follows it sets
  the parameters of the kernel's multiplexer.\<close>

definition attach_gsm0710 :: "com_port \<Rightarrow> at_line \<Rightarrow> int \<Rightarrow> int option" where
  "attach_gsm0710 comport line ldisc = do {
     rv \<leftarrow> send_atcmd_check_ok comport (at_cmd ''AT+CMUX=0'') 3000 line;
     Some (if rv \<noteq> 0 then - 1 else if ldisc < 0 then - 2 else 0) }"

text \<open>What the devices answer while the module is switched on: the power status before, the switching, the status after it, opening
  the serial port, the line for \<open>ATE0\<close> and for the multiplexer, opening the data ports, and the status at the end.\<close>

record power_env =
  pe_power :: dev_call
  pe_turn :: dev_call
  pe_turned :: dev_call
  pe_open :: open_results
  pe_ready :: "at_line list"
  pe_mux :: at_line
  pe_ldisc :: int
  pe_ports :: "open_results list"
  pe_end :: dev_call

definition power_on_end :: "power_env \<Rightarrow> int \<Rightarrow> module_info \<Rightarrow> int \<times> module_info" where
  "power_on_end env rv module =
     (rv, module\<lparr>mi_ready := (if 0 \<noteq> rv then NOT_READY else MODULE_READY), mi_reg := zero_reg,
        mi_pwr_status := word_of_int (fst (hal_get_gprs_power (pe_end env)))\<rparr>)"

definition power_on_module :: "power_env \<Rightarrow> module_info \<Rightarrow> (int \<times> module_info) option" where
  "power_on_module env module =
     (let module = module\<lparr>mi_pwr_status := word_of_int (fst (hal_get_gprs_power (pe_power env)))\<rparr>
      in if mi_pwr_status module = 1 then Some (power_on_end env 0 module)
         else if fst (hal_turn_gprs_power ON (pe_turn env)) \<noteq> 0 \<or> ON \<noteq> fst (hal_get_gprs_power (pe_turned env))
         then Some (power_on_end env (- 1) module)
         else do {
           gsm \<leftarrow> mi_gsmport module;
           (rv, gsm, _) \<leftarrow> comport_open (pe_open env) gsm;
           let module = module\<lparr>mi_gsmport := Some gsm\<rparr>;
           if rv < 0 then Some (- 2, module)
           else do {
             on \<leftarrow> atcmd_check_power_on gsm (pe_ready env);
             if on = 0 then Some (- 2, module)
             else do {
               _ \<leftarrow> attach_gsm0710 gsm (pe_mux env) (pe_ldisc env);
               (rv, module) \<leftarrow> open_gsm_dataport (pe_ports env) module;
               Some (power_on_end env (if 0 \<noteq> rv then - 3 else 0) module) } } })"

text \<open>Switching off: the test, the wait until nobody uses a port, in which the other threads run (one change of the module for each
  second), and the rest.\<close>

record off_env =
  oe_power :: dev_call
  oe_turn :: dev_call
  oe_end :: dev_call

definition power_off_test :: "off_env \<Rightarrow> module_info \<Rightarrow> bool \<times> module_info" where
  "power_off_test env module =
     (let module = module\<lparr>mi_pwr_status := word_of_int (fst (hal_get_gprs_power (oe_power env)))\<rparr> in (mi_pwr_status module = 0, module))"

fun power_off_wait :: "(module_info \<Rightarrow> module_info) list \<Rightarrow> module_info \<Rightarrow> module_info option" where
  "power_off_wait [] module = (if mi_users module = 0 then Some module else None)"
| "power_off_wait (others # later) module = (if mi_users module = 0 then Some module else power_off_wait later (others module))"

definition power_off_finish :: "off_env \<Rightarrow> module_info \<Rightarrow> module_info option" where
  "power_off_finish env module = do {
     module \<leftarrow> close_gsm_dataport module;
     gsm \<leftarrow> mi_gsmport module;
     Some (module\<lparr>mi_gsmport := Some (comport_close gsm), mi_ready := NOT_READY, mi_reg := zero_reg,
        mi_pwr_status := word_of_int (fst (hal_get_gprs_power (oe_end env)))\<rparr>) }"

definition power_off_module :: "off_env \<Rightarrow> (module_info \<Rightarrow> module_info) list \<Rightarrow> module_info \<Rightarrow> (int \<times> module_info) option" where
  "power_off_module env others module =
     (let (off, module) = power_off_test env module
      in if off then Some (0, module)
         else do {
           module \<leftarrow> power_off_wait others module;
           module \<leftarrow> power_off_finish env module;
           Some (0, module) })"

definition set_module_event :: "module_info \<Rightarrow> req_event \<Rightarrow> module_info" where
  "set_module_event module event = module\<lparr>mi_event := event\<rparr>"

text \<open>The answer to a request, once its switching has returned \<open>rv\<close>.\<close>

definition event_done :: "int \<times> module_info \<Rightarrow> int \<times> module_info" where
  "event_done r = (case r of (rv, module) \<Rightarrow> if rv \<noteq> 0 then (rv, module) else (0, set_module_event module REQ_EVENT_NONE))"

definition set_module_event_power ::
  "off_env \<Rightarrow> (module_info \<Rightarrow> module_info) list \<Rightarrow> power_env \<Rightarrow> module_info \<Rightarrow> (int \<times> module_info) option" where
  "set_module_event_power off others on module = map_option event_done
     (case mi_event module of
        REQ_POWER_ON \<Rightarrow> power_on_module on module
      | REQ_POWER_OFF \<Rightarrow> power_off_module off others module
      | REQ_POWER_RESET \<Rightarrow> do { (rv, module) \<leftarrow> power_off_module off others module; power_on_module on module }
      | REQ_EVENT_NONE \<Rightarrow> Some (0, module))"

section \<open>Checks\<close>

text \<open>The common end of the checks, with the counter of the function: the result and the new counter.\<close>

definition count_failure :: "int \<Rightarrow> int \<Rightarrow> int \<Rightarrow> int \<times> int" where
  "count_failure rv fail_cnt limit =
     (if rv \<noteq> 0 then (if fail_cnt < limit then (0, fail_cnt + 1) else (- 1, 0)) else (1, 0))"

definition atcmd_check_module_ready :: "com_port \<Rightarrow> int \<Rightarrow> at_line list \<Rightarrow> int \<Rightarrow> (int \<times> int) option" where
  "atcmd_check_module_ready comport limit lines fail_cnt = do {
     l0 \<leftarrow> rd lines 0;
     rv \<leftarrow> atcmd_check_at_ready comport l0;
     rv \<leftarrow> (if rv \<noteq> 0 then Some rv else do { l1 \<leftarrow> rd lines 1; atcmd_check_sim_valid comport l1 });
     Some (count_failure rv fail_cnt limit) }"

definition hwinfo_queries :: "com_port \<Rightarrow> hw_info \<Rightarrow> at_line list \<Rightarrow> (int \<times> hw_info) option" where
  "hwinfo_queries comport hw lines = do {
     l0 \<leftarrow> rd lines 0;
     (rv, out) \<leftarrow> atcmd_check_gprs_name comport (Some (hw_model hw)) l0;
     out \<leftarrow> out;
     let hw = hw\<lparr>hw_model := out\<rparr>;
     if rv \<noteq> 0 then Some (rv, hw)
     else do {
       l1 \<leftarrow> rd lines 1;
       (rv, out) \<leftarrow> atcmd_check_gprs_version comport (Some (hw_mrev hw)) l1;
       out \<leftarrow> out;
       let hw = hw\<lparr>hw_mrev := out\<rparr>;
       if rv \<noteq> 0 then Some (rv, hw)
       else do {
         l2 \<leftarrow> rd lines 2;
         (rv, out) \<leftarrow> atcmd_check_gprs_iemi comport (Some (hw_iemi hw)) l2;
         out \<leftarrow> out;
         Some (rv, hw\<lparr>hw_iemi := out\<rparr>) } } }"

definition atcmd_check_hwinfo :: "com_port \<Rightarrow> hw_info \<Rightarrow> int \<Rightarrow> at_line list \<Rightarrow> int \<Rightarrow> (int \<times> int \<times> hw_info) option" where
  "atcmd_check_hwinfo comport hw limit lines fail_cnt = do {
     (rv, hw) \<leftarrow> hwinfo_queries comport hw lines;
     let (rv, fail_cnt) = count_failure rv fail_cnt limit;
     Some (rv, fail_cnt, hw) }"

definition regist_queries :: "com_port \<Rightarrow> register_info \<Rightarrow> at_line list \<Rightarrow> (int \<times> register_info) option" where
  "regist_queries comport reg lines = do {
     l0 \<leftarrow> rd lines 0;
     signal \<leftarrow> atcmd_check_gprs_signal comport l0;
     let reg = reg\<lparr>rg_signal := signal\<rparr>;
     if rg_signal reg < 2 \<and> rg_signal reg > 31 then Some (- 1, reg)
     else do {
       l1 \<leftarrow> rd lines 1;
       type \<leftarrow> atcmd_check_gprs_register comport l1;
       let reg = reg\<lparr>rg_type := type\<rparr>;
       if REG_HOMEWORK = rg_type reg \<or> REG_ROAMING = rg_type reg
       then do {
         l2 \<leftarrow> rd lines 2;
         (rv, out) \<leftarrow> atcmd_check_gprs_carrier comport (Some (rg_carrier reg)) l2;
         out \<leftarrow> out;
         let reg = reg\<lparr>rg_carrier := out\<rparr>;
         if rv \<noteq> 0 then Some (- 4, reg)
         else do {
           l3 \<leftarrow> rd lines 3;
           l4 \<leftarrow> rd lines 4;
           (rv, out) \<leftarrow> atcmd_check_gprs_mcc_mnc comport (loc_mcc_mnc (rg_loc reg)) l3 l4;
           let reg = reg\<lparr>rg_loc := rg_loc reg\<lparr>loc_mcc_mnc := out\<rparr>\<rparr>;
           Some (if rv \<noteq> 0 then - 4 else rv, reg) } }
       else if REG_DENIED = rg_type reg then Some (- 2, reg)
       else Some (- 3, reg) } }"

definition atcmd_check_regist :: "com_port \<Rightarrow> register_info \<Rightarrow> int \<Rightarrow> at_line list \<Rightarrow> int \<Rightarrow> (int \<times> int \<times> register_info) option" where
  "atcmd_check_regist comport reg limit lines fail_cnt = do {
     (rv, reg) \<leftarrow> regist_queries comport reg lines;
     let (rv, fail_cnt) = count_failure rv fail_cnt limit;
     Some (rv, fail_cnt, reg) }"

definition atcmd_module_preset :: "com_port \<Rightarrow> at_line \<Rightarrow> int option" where
  "atcmd_module_preset comport line = do {
     retval \<leftarrow> send_atcmd_check_ok comport (at_cmd ''AT+COPS=0'') 3000 line;
     Some (if 0 \<noteq> retval then - 2 else retval) }"

definition atcmd_check_network_info :: "com_port \<Rightarrow> register_info \<Rightarrow> at_line list \<Rightarrow> (int \<times> register_info) option" where
  "atcmd_check_network_info comport reg lines = do {
     l0 \<leftarrow> rd lines 0;
     (retval, out) \<leftarrow> atcmd_check_gprs_carrier comport (Some (rg_carrier reg)) l0;
     out \<leftarrow> out;
     let reg = reg\<lparr>rg_carrier := out\<rparr>;
     if retval \<noteq> 0 then Some (- 1, reg)
     else do {
       l1 \<leftarrow> rd lines 1;
       l2 \<leftarrow> rd lines 2;
       (retval, loc) \<leftarrow> atcmd_check_gprs_location comport (rg_loc reg) l1 l2;
       Some (if retval \<noteq> 0 then - 3 else retval, reg\<lparr>rg_loc := loc\<rparr>) } }"

text \<open>A stage that is passed leads to the next one, a stage that has failed for good asks for a reset.\<close>

definition stage_result :: "int \<Rightarrow> module_info \<Rightarrow> module_info" where
  "stage_result rv module =
     (if rv > 0 then module\<lparr>mi_ready := ready_next (mi_ready module)\<rparr>
      else if rv = 0 then module
      else set_module_event module REQ_POWER_RESET)"

definition check_stage :: "com_port \<Rightarrow> gprs_static \<Rightarrow> at_line list \<Rightarrow> module_info \<Rightarrow> (gprs_static \<times> module_info) option" where
  "check_stage comport st lines module =
     (case mi_ready module of
        MODULE_READY \<Rightarrow> do {
          (rv, cnt) \<leftarrow> atcmd_check_module_ready comport 10 lines (st_fail_module st);
          Some (st\<lparr>st_fail_module := cnt\<rparr>, stage_result rv module) }
      | CHECK_HWINFO \<Rightarrow> do {
          (rv, cnt, hw) \<leftarrow> atcmd_check_hwinfo comport (mi_hw module) 10 lines (st_fail_hwinfo st);
          Some (st\<lparr>st_fail_hwinfo := cnt\<rparr>, stage_result rv (module\<lparr>mi_hw := hw\<rparr>)) }
      | CHECK_REGISTRY \<Rightarrow> do {
          (rv, cnt, reg) \<leftarrow> atcmd_check_regist comport (mi_reg module) 10 lines (st_fail_regist st);
          Some (st\<lparr>st_fail_regist := cnt\<rparr>, stage_result rv (module\<lparr>mi_reg := reg\<rparr>)) }
      | _ \<Rightarrow> Some (st, module))"

text \<open>The value returned is not set in the other two states of \<open>ready\<close>; no caller reads it.\<close>

definition atcmd_check_ready :: "gprs_static \<Rightarrow> at_line list \<Rightarrow> module_info \<Rightarrow> (gprs_static \<times> module_info) option" where
  "atcmd_check_ready st lines module = do {
     (comport, module) \<leftarrow> alloc_gsm_dataport st module;
     case comport of
       None \<Rightarrow> Some (st, module)
     | Some i \<Rightarrow> do {
         p \<leftarrow> rd (mi_comport module) i;
         c \<leftarrow> p;
         (st, module) \<leftarrow> check_stage c st lines module;
         (module, _) \<leftarrow> free_gsm_dataport module (Some i);
         Some (st, module) } }"

text \<open>\<open>now1\<close> is the clock at the test, \<open>now2\<close> after it.\<close>

definition atcmd_inspect_status ::
  "gprs_static \<Rightarrow> u32 \<Rightarrow> u32 \<Rightarrow> at_line list \<Rightarrow> module_info \<Rightarrow> (int \<times> gprs_static \<times> module_info) option" where
  "atcmd_inspect_status st now1 now2 lines module =
     (if st_start_time st \<noteq> 0 \<and> time_elapsed now1 (st_start_time st) < 10000 then Some (0, st, module)
      else do {
        let st = st\<lparr>st_start_time := now2\<rparr>;
        (comport, module) \<leftarrow> alloc_gsm_dataport st module;
        case comport of
          None \<Rightarrow> Some (- 1, st, module)
        | Some i \<Rightarrow> do {
            p \<leftarrow> rd (mi_comport module) i;
            c \<leftarrow> p;
            l0 \<leftarrow> rd lines 0;
            signal \<leftarrow> atcmd_check_gprs_signal c l0;
            let module = module\<lparr>mi_reg := mi_reg module\<lparr>rg_signal := signal\<rparr>\<rparr>;
            l1 \<leftarrow> rd lines 1;
            l2 \<leftarrow> rd lines 2;
            (_, loc) \<leftarrow> atcmd_check_gprs_location c (rg_loc (mi_reg module)) l1 l2;
            let module = module\<lparr>mi_reg := mi_reg module\<lparr>rg_loc := loc\<rparr>\<rparr>;
            (module, _) \<leftarrow> free_gsm_dataport module (Some i);
            Some (0, st, module) } })"

section \<open>The control thread\<close>

text \<open>The second half of a round, after the request of the round has been served.\<close>

record check_env =
  ce_now1 :: u32
  ce_now2 :: u32
  ce_lines :: "at_line list"

definition ctrl_check :: "check_env \<Rightarrow> gprs_static \<Rightarrow> module_info \<Rightarrow> (gprs_static \<times> module_info) option" where
  "ctrl_check env st module =
     (if ALL_READY = mi_ready module
      then do { (_, st, module) \<leftarrow> atcmd_inspect_status st (ce_now1 env) (ce_now2 env) (ce_lines env) module; Some (st, module) }
      else if mi_pwr_status module = 1 then atcmd_check_ready st (ce_lines env) module
      else Some (st, module))"

text \<open>One round of the loop: the devices for switching off and on, the other threads during the wait, and the check.\<close>

record ctrl_env =
  ct_off :: off_env
  ct_others :: "(module_info \<Rightarrow> module_info) list"
  ct_on :: power_env
  ct_check :: check_env

definition ctrl_round :: "ctrl_env \<Rightarrow> gprs_static \<Rightarrow> module_info \<Rightarrow> (gprs_static \<times> module_info) option" where
  "ctrl_round env st module = do {
     module \<leftarrow>
       (if mi_event module \<noteq> REQ_EVENT_NONE
        then map_option snd (set_module_event_power (ct_off env) (ct_others env) (ct_on env) module) else Some module);
     ctrl_check (ct_check env) st module }"

definition ctrl_thread_term :: "off_env \<Rightarrow> (module_info \<Rightarrow> module_info) list \<Rightarrow> module_info \<Rightarrow> (module_info \<times> int option list) option" where
  "ctrl_thread_term env others module = do {
     (_, module) \<leftarrow> power_off_module env others module;
     used \<leftarrow> rd_slice (mi_comport module) 0 (nat (mi_comport_cnt module));
     Some (module, map comport_term used) }"

fun ctrl_thread_start ::
  "ctrl_env list \<Rightarrow> off_env \<Rightarrow> (module_info \<Rightarrow> module_info) list \<Rightarrow> gprs_static \<Rightarrow> module_info \<Rightarrow> (module_info \<times> int option list) option" where
  "ctrl_thread_start [] off others st module = ctrl_thread_term off others module"
| "ctrl_thread_start (env # rounds) off others st module = do {
     (st, module) \<leftarrow> ctrl_round env st module;
     ctrl_thread_start rounds off others st module }"

end
