(* ===== verification/GprsPool.thy ===== *)
theory GprsPool
  imports Gprs
begin

text \<open>
  The data ports of the GPRS module as a pool of resources: the contract of handing out and taking back, stated as a locale, and
  the ports of the module as an instance. What opens, closes and checks the ports keeps the pool.
\<close>

section \<open>The contract\<close>

locale resource_pool =
  fixes wf :: "'s \<Rightarrow> bool"
    and held :: "'s \<Rightarrow> nat set"
    and capacity :: nat
    and acquire :: "'s \<Rightarrow> (nat option \<times> 's) option"
    and release :: "'s \<Rightarrow> nat \<Rightarrow> 's option"
  assumes held_bound: "wf s \<Longrightarrow> held s \<subseteq> {..<capacity}"
    and acquire_ok: "wf s \<Longrightarrow> held s \<noteq> {..<capacity} \<Longrightarrow>
      \<exists>i s'. acquire s = Some (Some i, s') \<and> wf s' \<and> i < capacity \<and> i \<notin> held s \<and> held s' = insert i (held s)"
    and acquire_full: "wf s \<Longrightarrow> held s = {..<capacity} \<Longrightarrow> acquire s = Some (None, s)"
    and release_ok: "wf s \<Longrightarrow> i \<in> held s \<Longrightarrow> \<exists>s'. release s i = Some s' \<and> wf s' \<and> held s' = held s - {i}"
begin

lemma acquire_cases:
  assumes "wf s"
  obtains (got) i s' where "acquire s = Some (Some i, s')" "wf s'" "i < capacity" "i \<notin> held s" "held s' = insert i (held s)"
    | (full) "acquire s = Some (None, s)" "held s = {..<capacity}"
  using acquire_ok [OF assms] acquire_full [OF assms] by (cases "held s = {..<capacity}") blast+

text \<open>A use of a resource between getting it and giving it back, whatever it does to the rest of the state, leaves the pool
  as it was.\<close>

lemma bracket:
  assumes "wf s" "acquire s = Some (Some i, s1)" "wf s2" "held s2 = held s1" "release s2 i = Some s3"
  shows "wf s3 \<and> held s3 = held s"
proof -
  have i: "wf s1 \<and> i \<notin> held s \<and> held s1 = insert i (held s)"
    using assms(1) by (cases rule: acquire_cases) (use assms(2) in auto)
  then have "i \<in> held s2" using assms(4) by simp
  then obtain s' where "release s2 i = Some s'" "wf s'" "held s' = held s2 - {i}" using release_ok [OF assms(3)] by blast
  then show ?thesis using assms(4,5) i by auto
qed

text \<open>While somebody holds a resource, the others can get and give back theirs.\<close>

lemma others_keep_mine:
  assumes "wf s" "i \<in> held s"
  shows "acquire s = Some (r, s') \<Longrightarrow> wf s' \<and> i \<in> held s' \<and> r \<noteq> Some i"
    "release s j = Some s' \<Longrightarrow> j \<in> held s \<Longrightarrow> j \<noteq> i \<Longrightarrow> wf s' \<and> i \<in> held s'"
proof -
  show "acquire s = Some (r, s') \<Longrightarrow> wf s' \<and> i \<in> held s' \<and> r \<noteq> Some i"
    using assms(1) by (cases rule: acquire_cases) (use assms in auto)
  show "release s j = Some s' \<Longrightarrow> j \<in> held s \<Longrightarrow> j \<noteq> i \<Longrightarrow> wf s' \<and> i \<in> held s'"
    using release_ok [OF assms(1), of j] assms(2) by auto
qed

end

section \<open>The ports\<close>

definition port_ok :: "com_port option \<Rightarrow> bool" where
  "port_ok p \<longleftrightarrow> (\<exists>c. p = Some c \<and> NUL \<in> set (dev_name c) \<and> cp_used c \<le> 1)"

definition in_use :: "com_port option \<Rightarrow> bool" where
  "in_use p \<longleftrightarrow> (case p of None \<Rightarrow> False | Some c \<Rightarrow> cp_used c = YES)"

definition ports_in_use :: "module_info \<Rightarrow> nat set" where
  "ports_in_use m = {i. i < length (mi_comport m) \<and> in_use (mi_comport m ! i)}"

definition pool_wf :: "module_info \<Rightarrow> bool" where
  "pool_wf m \<longleftrightarrow> mi_comport_cnt m = 4 \<and> length (mi_comport m) = 4 \<and> (\<forall>p\<in>set (mi_comport m). port_ok p) \<and>
     mi_users m = int (card (ports_in_use m))"

lemma finite_in_use [simp]: "finite (ports_in_use m)"
  by (simp add: ports_in_use_def)

text \<open>The pool is in three fields of the module.\<close>

lemma pool_cong:
  assumes "mi_users m' = mi_users m" "mi_comport_cnt m' = mi_comport_cnt m" "mi_comport m' = mi_comport m"
  shows "pool_wf m' = pool_wf m" "ports_in_use m' = ports_in_use m"
  using assms by (simp_all add: pool_wf_def ports_in_use_def)

lemma find_unused_first:
  "\<forall>p\<in>set ps. port_ok p \<Longrightarrow>
   find_unused ps k = Some (if \<forall>p\<in>set ps. in_use p then None else Some (k + first_slot (\<lambda>p. \<not> in_use p) ps))"
proof (induction ps arbitrary: k)
  case (Cons p ps)
  obtain c where c: "p = Some c" using Cons.prems by (auto simp: port_ok_def)
  show ?case using Cons.IH [of "k + 1"] Cons.prems by (auto simp: c in_use_def)
qed simp

lemma rd_ports: "pool_wf m \<Longrightarrow> rd_slice (mi_comport m) 0 (nat (mi_comport_cnt m)) = Some (mi_comport m)"
  by (simp add: pool_wf_def)

lemma port_at: "pool_wf m \<Longrightarrow> i < 4 \<Longrightarrow> \<exists>c. mi_comport m ! i = Some c \<and> NUL \<in> set (dev_name c) \<and> cp_used c \<le> 1"
  unfolding pool_wf_def port_ok_def by (metis nth_mem)

lemma pool_update:
  assumes "pool_wf m" "i < 4" "mi_comport m ! i = Some c"
  shows "ports_in_use (m\<lparr>mi_comport := (mi_comport m)[i := Some (c\<lparr>cp_used := u\<rparr>)], mi_users := n\<rparr>) =
      (if u = YES then insert i (ports_in_use m) else ports_in_use m - {i})"
    "u \<le> 1 \<Longrightarrow> \<forall>p\<in>set ((mi_comport m)[i := Some (c\<lparr>cp_used := u\<rparr>)]). port_ok p"
proof -
  have len: "length (mi_comport m) = 4" using assms(1) by (simp add: pool_wf_def)
  show "ports_in_use (m\<lparr>mi_comport := (mi_comport m)[i := Some (c\<lparr>cp_used := u\<rparr>)], mi_users := n\<rparr>) =
      (if u = YES then insert i (ports_in_use m) else ports_in_use m - {i})"
    using assms(2) by (auto simp: ports_in_use_def len nth_list_update in_use_def split: if_splits)
  have "port_ok (mi_comport m ! i)" using assms(1,2) len by (simp add: pool_wf_def)
  then have "u \<le> 1 \<Longrightarrow> port_ok (Some (c\<lparr>cp_used := u\<rparr>))" using assms(3) by (simp add: port_ok_def)
  then show "u \<le> 1 \<Longrightarrow> \<forall>p\<in>set ((mi_comport m)[i := Some (c\<lparr>cp_used := u\<rparr>)]). port_ok p"
    using assms(1) set_update_subset_insert [of "mi_comport m" i] by (fastforce simp: pool_wf_def)
qed

lemma alloc_ok:
  assumes "pool_wf m" "st_lock st = 0" "ports_in_use m \<noteq> {..<4}"
  shows "\<exists>i m'. alloc_gsm_dataport st m = Some (Some i, m') \<and> pool_wf m' \<and> i < 4 \<and> i \<notin> ports_in_use m \<and>
    ports_in_use m' = insert i (ports_in_use m) \<and>
    m' = m\<lparr>mi_comport := mi_comport m', mi_users := mi_users m + 1\<rparr> \<and>
    (\<exists>c. mi_comport m ! i = Some c \<and> mi_comport m' = (mi_comport m)[i := Some (c\<lparr>cp_used := YES\<rparr>)])"
proof -
  let ?ps = "mi_comport m"
  have len: "length ?ps = 4" and ok: "\<forall>p\<in>set ?ps. port_ok p" using assms(1) by (simp_all add: pool_wf_def)
  have free: "\<exists>p\<in>set ?ps. \<not> in_use p"
  proof (rule ccontr)
    assume "\<not> ?thesis"
    then have "ports_in_use m = {..<4}" by (auto simp: ports_in_use_def len)
    then show False using assms(3) by simp
  qed
  define i where "i = first_slot (\<lambda>p. \<not> in_use p) ?ps"
  have i: "i < 4" "\<not> in_use (?ps ! i)"
    using first_slot_less_iff [of "\<lambda>p. \<not> in_use p" ?ps] first_slot_nth [of "\<lambda>p. \<not> in_use p" ?ps] free by (auto simp: i_def len)
  obtain c where c: "?ps ! i = Some c" using port_at [OF assms(1) i(1)] by blast
  define m' where "m' = m\<lparr>mi_comport := ?ps[i := Some (c\<lparr>cp_used := YES\<rparr>)], mi_users := mi_users m + 1\<rparr>"
  have "alloc_gsm_dataport st m = Some (Some i, m')"
    using assms(2) free rd_ports [OF assms(1)] find_unused_first [OF ok, of 0] i(1) len c
    by (simp add: alloc_gsm_dataport_def i_def [symmetric] m'_def)
  moreover have notin: "i \<notin> ports_in_use m" using i by (simp add: ports_in_use_def)
  moreover have u: "ports_in_use m' = insert i (ports_in_use m)"
    unfolding m'_def using pool_update(1) [OF assms(1) i(1) c, where u = YES] by simp
  moreover have "pool_wf m'"
  proof -
    have "card (ports_in_use m') = card (ports_in_use m) + 1" using notin by (simp add: u)
    then show ?thesis using assms(1) pool_update(2) [OF assms(1) i(1) c, where u = YES] by (simp add: pool_wf_def m'_def)
  qed
  moreover have "m' = m\<lparr>mi_comport := mi_comport m', mi_users := mi_users m + 1\<rparr>" "mi_comport m' = ?ps[i := Some (c\<lparr>cp_used := YES\<rparr>)]"
    by (simp_all add: m'_def)
  ultimately show ?thesis using i(1) c by blast
qed

lemma alloc_full:
  assumes "pool_wf m" "st_lock st = 0" "ports_in_use m = {..<4}"
  shows "alloc_gsm_dataport st m = Some (None, m)"
proof -
  have len: "length (mi_comport m) = 4" and ok: "\<forall>p\<in>set (mi_comport m). port_ok p" using assms(1) by (simp_all add: pool_wf_def)
  have "\<forall>p\<in>set (mi_comport m). in_use p" using assms(3) by (fastforce simp: ports_in_use_def len in_set_conv_nth)
  then show ?thesis using assms(2) rd_ports [OF assms(1)] find_unused_first [OF ok, of 0] by (simp add: alloc_gsm_dataport_def)
qed

lemma free_ok:
  assumes "pool_wf m" "i \<in> ports_in_use m"
  shows "\<exists>m'. free_gsm_dataport m (Some i) = Some (m', None) \<and> pool_wf m' \<and> ports_in_use m' = ports_in_use m - {i} \<and>
    m' = m\<lparr>mi_comport := mi_comport m', mi_users := mi_users m - 1\<rparr>"
proof -
  have len: "length (mi_comport m) = 4" and i: "i < 4" using assms by (simp_all add: pool_wf_def ports_in_use_def)
  obtain c where c: "mi_comport m ! i = Some c" using port_at [OF assms(1) i] by blast
  define m' where "m' = m\<lparr>mi_comport := (mi_comport m)[i := Some (c\<lparr>cp_used := NO\<rparr>)], mi_users := mi_users m - 1\<rparr>"
  have "free_gsm_dataport m (Some i) = Some (m', None)"
    using rd_ports [OF assms(1)] i len c by (simp add: free_gsm_dataport_def m'_def)
  moreover have u: "ports_in_use m' = ports_in_use m - {i}"
    unfolding m'_def using pool_update(1) [OF assms(1) i c, where u = NO] by simp
  moreover have "pool_wf m'"
  proof -
    have "0 < card (ports_in_use m)" using assms(2) by (auto simp: card_gt_0_iff)
    then have "int (card (ports_in_use m')) = int (card (ports_in_use m)) - 1" using assms(2) by (simp add: u of_nat_diff)
    then show ?thesis using assms(1) pool_update(2) [OF assms(1) i c, where u = NO] by (simp add: pool_wf_def m'_def)
  qed
  moreover have "m' = m\<lparr>mi_comport := mi_comport m', mi_users := mi_users m - 1\<rparr>" by (simp add: m'_def)
  ultimately show ?thesis by blast
qed

text \<open>The lock of the allocation is free whenever no allocation runs.\<close>

definition st_unlocked :: gprs_static where
  "st_unlocked = \<lparr>st_lock = 0, st_start_time = 0, st_fail_module = 0, st_fail_hwinfo = 0, st_fail_regist = 0\<rparr>"

definition acquire_port :: "module_info \<Rightarrow> (nat option \<times> module_info) option" where
  "acquire_port m = alloc_gsm_dataport st_unlocked m"

definition release_port :: "module_info \<Rightarrow> nat \<Rightarrow> module_info option" where
  "release_port m i = map_option fst (free_gsm_dataport m (Some i))"

lemma alloc_acquire: "st_lock st = 0 \<Longrightarrow> alloc_gsm_dataport st m = acquire_port m"
  by (simp add: acquire_port_def alloc_gsm_dataport_def st_unlocked_def)

lemma in_use_bound: "pool_wf m \<Longrightarrow> ports_in_use m \<subseteq> {..<4}"
  by (auto simp: pool_wf_def ports_in_use_def)

interpretation gprs_pool: resource_pool pool_wf ports_in_use 4 acquire_port release_port
proof
  fix m assume m: "pool_wf m"
  show "ports_in_use m \<subseteq> {..<4}" by (rule in_use_bound [OF m])
  show "ports_in_use m \<noteq> {..<4} \<Longrightarrow>
      \<exists>i m'. acquire_port m = Some (Some i, m') \<and> pool_wf m' \<and> i < 4 \<and> i \<notin> ports_in_use m \<and> ports_in_use m' = insert i (ports_in_use m)"
    using alloc_ok [OF m, of st_unlocked] by (auto simp: acquire_port_def st_unlocked_def)
  show "ports_in_use m = {..<4} \<Longrightarrow> acquire_port m = Some (None, m)"
    using alloc_full [OF m, of st_unlocked] by (simp add: acquire_port_def st_unlocked_def)
  fix i show "i \<in> ports_in_use m \<Longrightarrow> \<exists>m'. release_port m i = Some m' \<and> pool_wf m' \<and> ports_in_use m' = ports_in_use m - {i}"
    using free_ok [OF m, of i] by (auto simp: release_port_def)
qed

section \<open>Opening and closing\<close>

lemma close_ports_defined:
  "\<forall>p\<in>set ps. port_ok p \<Longrightarrow> close_ports ps = Some (map (map_option comport_close) ps)"
  by (induction ps) (auto simp: port_ok_def)

text \<open>What keeps name and use of every port keeps the pool.\<close>

definition same_port :: "com_port option \<Rightarrow> com_port option \<Rightarrow> bool" where
  "same_port p q \<longleftrightarrow> rel_option (\<lambda>c d. dev_name c = dev_name d \<and> cp_used c = cp_used d) p q"

lemma same_port_keeps: "same_port p q \<Longrightarrow> port_ok p = port_ok q" "same_port p q \<Longrightarrow> in_use p = in_use q"
  by (auto simp: same_port_def port_ok_def in_use_def split: option.split elim!: option.rel_cases)

lemma pool_same_ports:
  assumes "list_all2 same_port (mi_comport m) qs"
  shows "pool_wf (m\<lparr>mi_comport := qs\<rparr>) = pool_wf m" "ports_in_use (m\<lparr>mi_comport := qs\<rparr>) = ports_in_use m"
proof -
  have len: "length qs = length (mi_comport m)" using assms by (simp add: list_all2_lengthD)
  show u: "ports_in_use (m\<lparr>mi_comport := qs\<rparr>) = ports_in_use m"
    using assms len by (auto simp: ports_in_use_def list_all2_conv_all_nth same_port_keeps)
  have "(\<forall>p\<in>set qs. port_ok p) = (\<forall>p\<in>set (mi_comport m). port_ok p)"
    using assms len same_port_keeps(1) unfolding list_all2_conv_all_nth all_set_conv_all_nth by metis
  then show "pool_wf (m\<lparr>mi_comport := qs\<rparr>) = pool_wf m" using u len by (simp add: pool_wf_def)
qed

lemma close_gsm_dataport_ok:
  assumes "pool_wf m"
  shows "close_gsm_dataport m = Some (m\<lparr>mi_comport := map (map_option comport_close) (mi_comport m)\<rparr>)"
    "pool_wf (m\<lparr>mi_comport := map (map_option comport_close) (mi_comport m)\<rparr>)"
    "ports_in_use (m\<lparr>mi_comport := map (map_option comport_close) (mi_comport m)\<rparr>) = ports_in_use m"
proof -
  have len: "length (mi_comport m) = 4" "mi_comport_cnt m = 4" and ok: "\<forall>p\<in>set (mi_comport m). port_ok p"
    using assms by (simp_all add: pool_wf_def)
  show "close_gsm_dataport m = Some (m\<lparr>mi_comport := map (map_option comport_close) (mi_comport m)\<rparr>)"
    using rd_ports [OF assms] close_ports_defined [OF ok] len by (simp add: close_gsm_dataport_def)
  have s: "list_all2 same_port (mi_comport m) (map (map_option comport_close) (mi_comport m))"
    using ok by (auto simp: list_all2_conv_all_nth port_ok_def same_port_def comport_close_def option.rel_map option.rel_refl)
  show "pool_wf (m\<lparr>mi_comport := map (map_option comport_close) (mi_comport m)\<rparr>)"
    "ports_in_use (m\<lparr>mi_comport := map (map_option comport_close) (mi_comport m)\<rparr>) = ports_in_use m"
    using pool_same_ports [OF s] assms by simp_all
qed

lemma comport_open_keeps:
  "comport_open sys c = Some (r, c', t) \<Longrightarrow> dev_name c' = dev_name c \<and> cp_used c' = cp_used c"
  by (auto simp: comport_open_def comport_close_def Let_def split: if_splits)

lemma comport_open_defined: "NUL \<in> set (dev_name c) \<Longrightarrow> \<exists>r c' t. comport_open sys c = Some (r, c', t)"
  by (auto simp: comport_open_def comport_close_def Let_def)

lemma open_ports_same: "open_ports sys ps = Some (r, qs) \<Longrightarrow> list_all2 same_port ps qs"
proof (induction sys ps arbitrary: r qs rule: open_ports.induct)
  case (3 s sys p ps)
  obtain c where c: "p = Some c" using 3(2) by auto
  obtain r1 c1 t1 where o: "comport_open s c = Some (r1, c1, t1)" using 3(2) c by auto
  have s: "same_port p (Some c1)" using comport_open_keeps [OF o] by (simp add: same_port_def c)
  have id: "list_all2 same_port ps ps"
    by (auto simp: list_all2_conv_all_nth same_port_def intro: option.rel_refl)
  show ?case
  proof (cases "r1 < 0")
    case True
    then have "qs = Some c1 # ps" using 3(2) c o by simp
    then show ?thesis using s id by simp
  next
    case False
    then obtain r2 ps2 where r: "open_ports sys ps = Some (r2, ps2)" "qs = Some c1 # ps2" using 3(2) c o by auto
    have "list_all2 same_port ps ps2" using 3(1) [OF c _ _ _ False r(1)] o by auto
    then show ?thesis using s r by simp
  qed
qed simp_all

lemma open_gsm_dataport_keeps:
  assumes "pool_wf m" "open_gsm_dataport sys m = Some (r, m')"
  shows "pool_wf m'" "ports_in_use m' = ports_in_use m" "\<exists>ps. m' = m\<lparr>mi_comport := ps\<rparr>"
proof -
  obtain r1 ps where o: "open_ports sys (mi_comport m) = Some (r1, ps)"
    using assms by (auto simp: open_gsm_dataport_def rd_ports)
  have s: "list_all2 same_port (mi_comport m) ps" by (rule open_ports_same [OF o])
  let ?m = "m\<lparr>mi_comport := ps\<rparr>"
  have m: "pool_wf ?m" "ports_in_use ?m = ports_in_use m" using pool_same_ports [OF s] assms(1) by simp_all
  have "m' = ?m \<or> m' = ?m\<lparr>mi_comport := map (map_option comport_close) (mi_comport ?m)\<rparr>"
    using assms o close_gsm_dataport_ok(1) [OF m(1)] by (auto simp: open_gsm_dataport_def rd_ports pool_wf_def Let_def split: if_splits)
  then show "pool_wf m'" "ports_in_use m' = ports_in_use m" "\<exists>ps. m' = m\<lparr>mi_comport := ps\<rparr>"
    using m close_gsm_dataport_ok(2,3) [OF m(1)] by auto
qed

section \<open>Initialisation\<close>

text \<open>A port as it is made for a name, the names of the data ports, and the module with all of them.\<close>

definition fresh_port :: "string \<Rightarrow> com_port" where
  "fresh_port name = \<lparr>databit = 8, parity = 0, stopbit = 1, flowctrl = 0, is_connted = 0, dev_name = name @ replicate (DEVNAME_LEN - length name) NUL,
     cp_used = 0, cp_fd = 0, frag_size = 128, baudrate = 115200\<rparr>"

lemma comport_init_8N1N:
  "length name < DEVNAME_LEN \<Longrightarrow> comport_init ok name 115200 (Some settings_8N1N) = Some (if ok then Some (fresh_port name) else None)"
proof -
  assume l: "length name < DEVNAME_LEN"
  then have s: "c_strncpy (replicate DEVNAME_LEN NUL) name DEVNAME_LEN = Some (name @ replicate (DEVNAME_LEN - length name) NUL)"
    by (simp add: c_strncpy_def wr_slice_def)
  show ?thesis using s by (simp add: comport_init_def settings_8N1N_def set_settings_def fresh_port_def Let_def)
qed

definition gsm_tty :: "nat \<Rightarrow> string" where "gsm_tty i = ''/dev/gsmtty'' @ c_int_dec (int i + 1)"

definition gsm_module0 :: module_info where
  "gsm_module0 = \<lparr>mi_users = 0, mi_ready = NOT_READY, mi_event = REQ_POWER_RESET, mi_pwr_status = 0, mi_hw = zero_hw, mi_reg = zero_reg,
     mi_gsmport = Some (fresh_port ''/dev/ttyS2''), mi_comport_cnt = 4, mi_comport = map (\<lambda>i. Some (fresh_port (gsm_tty i))) [0..<4]\<rparr>"

lemma gsm_tty_names: "gsm_tty 0 = ''/dev/gsmtty1''" "gsm_tty (Suc 0) = ''/dev/gsmtty2''" "gsm_tty 2 = ''/dev/gsmtty3''" "gsm_tty 3 = ''/dev/gsmtty4''"
  by code_simp+

lemma term_ports_leaves: "0 \<le> i \<Longrightarrow> term_ports i ports = None"
proof (induction "nat i" arbitrary: i)
  case 0
  then show ?case by (subst term_ports.simps) simp
next
  case (Suc n)
  then have "term_ports (i - 1) ports = None" by simp
  then show ?case using Suc.prems by (subst term_ports.simps) simp
qed

lemma init_ports_one:
  "i < 4 \<Longrightarrow> i < length ports \<Longrightarrow> init_ports ok i (Suc n) ports =
    (let ports = ports[i := (if ok i then Some (fresh_port (gsm_tty i)) else None)] in
     if ok i then init_ports ok (i + 1) n ports else Some (Some i, ports))"
proof -
  assume i: "i < 4" "i < length ports"
  then have "i = 0 \<or> i = Suc 0 \<or> i = 2 \<or> i = 3" by arith
  then have "length (gsm_tty i) = 12" by (elim disjE) (simp_all add: gsm_tty_names)
  then have "comport_init (ok i) (take (DEVNAME_LEN - 1) (gsm_tty i)) 115200 (Some settings_8N1N) =
      Some (if ok i then Some (fresh_port (gsm_tty i)) else None)"
    by (subst comport_init_8N1N) (simp_all add: DEVNAME_LEN_def)
  then show ?thesis using i by (simp add: gsm_tty_def CMUX_PORT_START_INDEX_def Let_def)
qed

declare init_ports.simps(2) [simp del]

lemma init_ports_ok:
  "\<forall>j. i \<le> j \<and> j < i + n \<longrightarrow> ok j \<Longrightarrow> i + n \<le> 4 \<Longrightarrow> length ports = 4 \<Longrightarrow>
   init_ports ok i n ports = Some (None, take i ports @ map (\<lambda>j. Some (fresh_port (gsm_tty j))) [i..<i + n] @ drop (i + n) ports)"
proof (induction n arbitrary: i ports)
  case (Suc n)
  let ?ports = "ports[i := Some (fresh_port (gsm_tty i))]"
  have "init_ports ok i (Suc n) ports = init_ports ok (i + 1) n ?ports"
    using init_ports_one [of i ports ok n] Suc.prems by (simp add: Let_def)
  also have "\<dots> = Some (None, take (i + 1) ?ports @ map (\<lambda>j. Some (fresh_port (gsm_tty j))) [i + 1..<i + 1 + n] @ drop (i + 1 + n) ?ports)"
    by (rule Suc.IH) (use Suc.prems in auto)
  also have "take (i + 1) ?ports = take i ports @ [Some (fresh_port (gsm_tty i))]"
    using Suc.prems(2,3) by (simp add: take_Suc_conv_app_nth)
  also have "drop (i + 1 + n) ?ports = drop (i + 1 + n) ports" by simp
  finally show ?case using Suc.prems(2) by (simp add: upt_rec [of i])
qed simp

lemma init_ports_fail:
  "\<exists>j. i \<le> j \<and> j < i + n \<and> \<not> ok j \<Longrightarrow> i + n \<le> 4 \<Longrightarrow> length ports = 4 \<Longrightarrow> \<exists>k ports'. init_ports ok i n ports = Some (Some k, ports')"
proof (induction n arbitrary: i ports)
  case (Suc n)
  have o: "init_ports ok i (Suc n) ports =
      (let ports = ports[i := (if ok i then Some (fresh_port (gsm_tty i)) else None)] in
       if ok i then init_ports ok (i + 1) n ports else Some (Some i, ports))"
    by (rule init_ports_one) (use Suc.prems in auto)
  show ?case
  proof (cases "ok i")
    case True
    then have "\<exists>j. i + 1 \<le> j \<and> j < i + 1 + n \<and> \<not> ok j"
      using Suc.prems(1) by (metis Suc_eq_plus1 add_Suc add_Suc_right less_or_eq_imp_le not_less_eq_eq order_antisym)
    then show ?thesis using o True Suc.IH [of "i + 1"] Suc.prems(2,3) by (simp add: Let_def)
  next
    case False
    then show ?thesis using o by (simp add: Let_def)
  qed
qed auto

lemma init_gsm_module_ports:
  "init_gsm_module True ok = (if \<forall>i<4. ok i then Some (0, gsm_module0) else None)"
proof -
  have g: "comport_init True ''/dev/ttyS2'' 115200 (Some settings_8N1N) = Some (Some (fresh_port ''/dev/ttyS2''))"
    by (subst comport_init_8N1N) (simp_all add: DEVNAME_LEN_def)
  let ?none = "replicate 4 None :: com_port option list"
  show ?thesis
  proof (cases "\<forall>i<4. ok i")
    case True
    then have "init_ports ok 0 4 ?none = Some (None, map (\<lambda>j. Some (fresh_port (gsm_tty j))) [0..<4])"
      using init_ports_ok [of 0 4 ok ?none] by simp
    then show ?thesis using g True by (simp add: init_gsm_module_def MAX_DATAPORT_def Let_def gsm_module0_def)
  next
    case False
    then obtain k ports where "init_ports ok 0 4 ?none = Some (Some k, ports)" using init_ports_fail [of 0 4 ok ?none] by auto
    then show ?thesis using g False by (auto simp: init_gsm_module_def MAX_DATAPORT_def Let_def term_ports_leaves)
  qed
qed
lemma init_gsm_module_no_port:
  "init_gsm_module False ok = Some (- 1, gsm_module0\<lparr>mi_gsmport := None, mi_comport_cnt := 0, mi_comport := replicate 4 None\<rparr>)"
  by (simp add: init_gsm_module_def comport_init_def gsm_module0_def MAX_DATAPORT_def Let_def)

lemma gsm_module0_pool: "pool_wf gsm_module0" "ports_in_use gsm_module0 = {}"
proof -
  have names: "length (gsm_tty i) = 12 \<or> length (gsm_tty i) < 64" if "i < 4" for i
    using that gsm_tty_names by (auto simp: eval_nat_numeral less_Suc_eq)
  have ok: "port_ok (Some (fresh_port (gsm_tty i)))" if "i < 4" for i
    using names [OF that] by (auto simp: port_ok_def fresh_port_def DEVNAME_LEN_def)
  show u: "ports_in_use gsm_module0 = {}"
    by (auto simp: ports_in_use_def gsm_module0_def in_use_def fresh_port_def)
  show "pool_wf gsm_module0" using ok u by (auto simp: pool_wf_def gsm_module0_def)
qed

section \<open>Properties\<close>

text \<open>The initialisation returns 0 with all ports when there is memory for them, and -1 without the hardware port. When a data port
  cannot be made its error path reads the entry before the first one: it never returns -2.\<close>

theorem init_gsm_module_all:
  "init_gsm_module gsm_ok ok =
    (if \<not> gsm_ok then Some (- 1, gsm_module0\<lparr>mi_gsmport := None, mi_comport_cnt := 0, mi_comport := replicate 4 None\<rparr>)
     else if \<forall>i<4. ok i then Some (0, gsm_module0) else None)"
  using init_gsm_module_ports [of ok] init_gsm_module_no_port [of ok] by (cases gsm_ok) simp_all

lemma init_gsm_module_all_witness: "init_gsm_module True (\<lambda>i. i \<noteq> 2) = None"
proof -
  have "\<not> (\<forall>i<4. i \<noteq> (2 :: nat))" by auto
  then show ?thesis using init_gsm_module_all [of True "\<lambda>i. i \<noteq> 2"] by (simp only: if_False simp_thms)
qed

end
