(* ===== verification/GprsReady.thy ===== *)
theory GprsReady
  imports GprsPool AtcmdReply
begin

text \<open>
  Bringing the GPRS module up: switching it on, the stages of the checks, and the rounds of the control thread that do both.
\<close>

section \<open>Opening\<close>

definition sys_good :: "open_results \<Rightarrow> bool" where
  "sys_good sys \<longleftrightarrow> 0 \<le> sys_open sys \<and> sys_fcntl sys \<and> sys_tcflush sys \<and> sys_tcgetattr sys \<and> sys_tcsetattr sys"

definition opened :: "open_results \<Rightarrow> com_port \<Rightarrow> com_port" where
  "opened sys c = c\<lparr>cp_fd := sys_open sys, is_connted := 1\<rparr>"

definition tty_port :: "com_port option \<Rightarrow> bool" where
  "tty_port p \<longleftrightarrow> (\<exists>c. p = Some c \<and> NUL \<in> set (dev_name c) \<and> is_substring ''tty'' (cstr (dev_name c)))"

lemma comport_open_good:
  assumes "sys_good sys" "NUL \<in> set (dev_name c)" "is_substring ''tty'' (cstr (dev_name c))"
  shows "\<exists>t. comport_open sys c = Some (sys_open sys, opened sys c, t)"
  using assms by (auto simp: comport_open_def comport_close_def sys_good_def opened_def Let_def)

lemma open_ports_good:
  "\<forall>p\<in>set ps. tty_port p \<Longrightarrow> \<forall>s\<in>set sys. sys_good s \<Longrightarrow> length sys = length ps \<Longrightarrow>
   \<exists>r\<ge>0. open_ports sys ps = Some (r, map2 (\<lambda>s p. map_option (opened s) p) sys ps)"
proof (induction sys ps rule: open_ports.induct)
  case (3 s sys p ps)
  obtain c where c: "p = Some c" "NUL \<in> set (dev_name c)" "is_substring ''tty'' (cstr (dev_name c))"
    using 3(2) by (auto simp: tty_port_def)
  have g: "sys_good s" using 3(3) by simp
  obtain t where t: "comport_open s c = Some (sys_open s, opened s c, t)" using comport_open_good [OF g c(2,3)] by blast
  have nn: "\<not> sys_open s < 0" using g by (simp add: sys_good_def)
  have "\<exists>r\<ge>0. open_ports sys ps = Some (r, map2 (\<lambda>s p. map_option (opened s) p) sys ps)"
    by (rule 3(1) [OF c(1) t refl refl nn]) (use 3(2-4) in auto)
  then show ?case using c t nn by auto
qed auto

lemma open_gsm_dataport_good:
  assumes "pool_wf m" "\<forall>p\<in>set (mi_comport m). tty_port p" "\<forall>s\<in>set sys. sys_good s" "length sys = 4"
  shows "open_gsm_dataport sys m = Some (0, m\<lparr>mi_comport := map2 (\<lambda>s p. map_option (opened s) p) sys (mi_comport m)\<rparr>)"
proof -
  have len: "length (mi_comport m) = 4" "mi_comport_cnt m = 4" using assms(1) by (simp_all add: pool_wf_def)
  obtain r where "r \<ge> 0" "open_ports sys (mi_comport m) = Some (r, map2 (\<lambda>s p. map_option (opened s) p) sys (mi_comport m))"
    using open_ports_good [OF assms(2,3)] assms(4) len by auto
  then show ?thesis using rd_ports [OF assms(1)] len by (simp add: open_gsm_dataport_def)
qed

section \<open>Switching on\<close>

definition answers_on :: "dev_call \<Rightarrow> bool" where
  "answers_on sys \<longleftrightarrow> 0 \<le> dc_open sys \<and> dc_ioctl sys = ON"

lemma answers_on_power: "answers_on sys \<Longrightarrow> fst (hal_get_gprs_power sys) = ON"
  by (simp add: answers_on_def hal_get_gprs_power_def)

text \<open>The module is off, the devices do what they are asked for, and the module answers \<open>ATE0\<close> in one of the ten attempts.\<close>

definition comes_on :: "power_env \<Rightarrow> com_port \<Rightarrow> bool" where
  "comes_on env gsm \<longleftrightarrow> (word_of_int (fst (hal_get_gprs_power (pe_power env))) :: u8) \<noteq> 1 \<and>
     0 \<le> dc_open (pe_turn env) \<and> dc_ioctl (pe_turn env) = 0 \<and> answers_on (pe_turned env) \<and> sys_good (pe_open env) \<and>
     atcmd_check_power_on (opened (pe_open env) gsm) (pe_ready env) = Some 1 \<and>
     attach_gsm0710 (opened (pe_open env) gsm) (pe_mux env) (pe_ldisc env) \<noteq> None \<and>
     length (pe_ports env) = 4 \<and> (\<forall>s\<in>set (pe_ports env). sys_good s) \<and> answers_on (pe_end env)"

lemma power_on_good:
  assumes "pool_wf m" "\<forall>p\<in>set (mi_comport m). tty_port p" "mi_gsmport m = Some gsm" "tty_port (Some gsm)" "comes_on env gsm"
  shows "power_on_module env m = Some (0, m\<lparr>mi_gsmport := Some (opened (pe_open env) gsm), mi_ready := MODULE_READY, mi_reg := zero_reg,
    mi_pwr_status := 1, mi_comport := map2 (\<lambda>s p. map_option (opened s) p) (pe_ports env) (mi_comport m)\<rparr>)"
proof -
  define m1 where "m1 = m\<lparr>mi_pwr_status := word_of_int (fst (hal_get_gprs_power (pe_power env)))\<rparr>"
  define m2 where "m2 = m1\<lparr>mi_gsmport := Some (opened (pe_open env) gsm)\<rparr>"
  have w2: "pool_wf m2" using assms(1) pool_cong(1) [of m2 m] by (simp add: m1_def m2_def)
  have t: "\<forall>p\<in>set (mi_comport m2). tty_port p" using assms(2) by (simp add: m1_def m2_def)
  have e: "length (pe_ports env) = 4" "\<forall>s\<in>set (pe_ports env). sys_good s" "sys_good (pe_open env)"
    using assms(5) by (simp_all add: comes_on_def)
  note o = open_gsm_dataport_good [OF w2 t e(2,1)]
  obtain t' where c: "comport_open (pe_open env) gsm = Some (sys_open (pe_open env), opened (pe_open env) gsm, t')"
    using comport_open_good [OF e(3)] assms(4) by (auto simp: tty_port_def)
  have nn: "\<not> sys_open (pe_open env) < 0" using e(3) by (simp add: sys_good_def)
  have off: "mi_pwr_status m1 \<noteq> 1" "mi_gsmport m1 = Some gsm" using assms(3,5) by (simp_all add: m1_def comes_on_def)
  have turn: "fst (hal_turn_gprs_power ON (pe_turn env)) = 0" "fst (hal_get_gprs_power (pe_turned env)) = ON"
    "fst (hal_get_gprs_power (pe_end env)) = ON"
    using assms(5) answers_on_power by (simp_all add: comes_on_def hal_turn_gprs_power_def)
  obtain a where at: "atcmd_check_power_on (opened (pe_open env) gsm) (pe_ready env) = Some 1"
    "attach_gsm0710 (opened (pe_open env) gsm) (pe_mux env) (pe_ldisc env) = Some a"
    using assms(5) by (auto simp: comes_on_def)
  have "power_on_module env m = Some (power_on_end env 0 (m2\<lparr>mi_comport := map2 (\<lambda>s p. map_option (opened s) p) (pe_ports env) (mi_comport m2)\<rparr>))"
    unfolding power_on_module_def m1_def [symmetric] Let_def using off turn c nn at o by (simp add: m2_def [symmetric])
  then show ?thesis using turn(3) by (simp add: power_on_end_def m2_def m1_def)
qed

section \<open>Counting failures\<close>

text \<open>Rounds of checks; the module stays on.\<close>

fun check_rounds :: "at_line list list \<Rightarrow> gprs_static \<times> module_info \<Rightarrow> (gprs_static \<times> module_info) option" where
  "check_rounds [] s = Some s"
| "check_rounds (lines # rounds) (st, m) = Option.bind (atcmd_check_ready st lines m) (check_rounds rounds)"

text \<open>A stage between getting a port and giving it back.\<close>

lemma check_ready_with_port:
  assumes "pool_wf m" "st_lock st = 0" "ports_in_use m = {}" "mi_comport m ! 0 = Some c"
    "check_stage (c\<lparr>cp_used := YES\<rparr>) st lines (m\<lparr>mi_comport := (mi_comport m)[0 := Some (c\<lparr>cp_used := YES\<rparr>)], mi_users := 1\<rparr>) = Some (st', m1)"
  shows "atcmd_check_ready st lines m = Some (st', m1\<lparr>mi_comport := mi_comport m, mi_users := 0\<rparr>)"
proof -
  have len: "length (mi_comport m) = 4" "mi_comport_cnt m = 4" "mi_users m = 0" and ok: "\<forall>p\<in>set (mi_comport m). port_ok p"
    using assms(1,3) by (simp_all add: pool_wf_def)
  obtain p ps where ps: "mi_comport m = p # ps" using len(1) by (cases "mi_comport m") simp_all
  have c: "cp_used c = NO" using assms(3,4) ok len(1) ps by (force simp: ports_in_use_def port_ok_def in_use_def)
  let ?m = "m\<lparr>mi_comport := (mi_comport m)[0 := Some (c\<lparr>cp_used := YES\<rparr>)], mi_users := 1\<rparr>"
  have a: "alloc_gsm_dataport st m = Some (Some 0, ?m)"
    using assms(2,4) len c ps by (simp add: alloc_gsm_dataport_def)
  have f: "mi_users m1 = 1" "mi_comport_cnt m1 = 4" "mi_comport m1 = (mi_comport m)[0 := Some (c\<lparr>cp_used := YES\<rparr>)]"
    using assms(5) len unfolding check_stage_def
    by (auto split: ready_state.splits simp: stage_result_def set_module_event_def)
  have "c\<lparr>cp_used := YES, cp_used := NO\<rparr> = c" using c by simp
  then have "free_gsm_dataport m1 (Some 0) = Some (m1\<lparr>mi_comport := mi_comport m, mi_users := 0\<rparr>, None)"
    using f len ps assms(4) by (simp add: free_gsm_dataport_def)
  then show ?thesis using a assms(5) len by (simp add: atcmd_check_ready_def)
qed

lemma module_same: "mi_users m = 0 \<Longrightarrow> m\<lparr>mi_comport := mi_comport m, mi_users := 0\<rparr> = m"
  by (cases m) simp

lemma module_ready_round:
  assumes "pool_wf m" "st_lock st = 0" "ports_in_use m = {}" "mi_comport m ! 0 = Some c" "mi_ready m = MODULE_READY"
    "atcmd_check_module_ready (c\<lparr>cp_used := YES\<rparr>) 10 lines (st_fail_module st) = Some (rv, cnt)"
  shows "atcmd_check_ready st lines m = Some (st\<lparr>st_fail_module := cnt\<rparr>, stage_result rv m)"
proof -
  let ?m = "m\<lparr>mi_comport := (mi_comport m)[0 := Some (c\<lparr>cp_used := YES\<rparr>)], mi_users := 1\<rparr>"
  have u: "mi_users m = 0" using assms(1,3) by (simp add: pool_wf_def)
  have "check_stage (c\<lparr>cp_used := YES\<rparr>) st lines ?m = Some (st\<lparr>st_fail_module := cnt\<rparr>, stage_result rv ?m)"
    using assms(5,6) by (simp add: check_stage_def)
  note r = check_ready_with_port [OF assms(1-4) this]
  have "(stage_result rv ?m)\<lparr>mi_comport := mi_comport m, mi_users := 0\<rparr> = stage_result rv m"
    using u by (cases m) (simp add: stage_result_def set_module_event_def)
  then show ?thesis using r by simp
qed

lemma hwinfo_round:
  assumes "pool_wf m" "st_lock st = 0" "ports_in_use m = {}" "mi_comport m ! 0 = Some c" "mi_ready m = CHECK_HWINFO"
    "atcmd_check_hwinfo (c\<lparr>cp_used := YES\<rparr>) (mi_hw m) 10 lines (st_fail_hwinfo st) = Some (rv, cnt, hw)"
  shows "atcmd_check_ready st lines m = Some (st\<lparr>st_fail_hwinfo := cnt\<rparr>, stage_result rv (m\<lparr>mi_hw := hw\<rparr>))"
proof -
  let ?m = "m\<lparr>mi_comport := (mi_comport m)[0 := Some (c\<lparr>cp_used := YES\<rparr>)], mi_users := 1\<rparr>"
  have u: "mi_users m = 0" using assms(1,3) by (simp add: pool_wf_def)
  have "check_stage (c\<lparr>cp_used := YES\<rparr>) st lines ?m = Some (st\<lparr>st_fail_hwinfo := cnt\<rparr>, stage_result rv (?m\<lparr>mi_hw := hw\<rparr>))"
    using assms(5,6) by (simp add: check_stage_def)
  note r = check_ready_with_port [OF assms(1-4) this]
  have "(stage_result rv (?m\<lparr>mi_hw := hw\<rparr>))\<lparr>mi_comport := mi_comport m, mi_users := 0\<rparr> = stage_result rv (m\<lparr>mi_hw := hw\<rparr>)"
    using u by (cases m) (simp add: stage_result_def set_module_event_def)
  then show ?thesis using r by simp
qed

lemma regist_round:
  assumes "pool_wf m" "st_lock st = 0" "ports_in_use m = {}" "mi_comport m ! 0 = Some c" "mi_ready m = CHECK_REGISTRY"
    "atcmd_check_regist (c\<lparr>cp_used := YES\<rparr>) (mi_reg m) 10 lines (st_fail_regist st) = Some (rv, cnt, reg)"
  shows "atcmd_check_ready st lines m = Some (st\<lparr>st_fail_regist := cnt\<rparr>, stage_result rv (m\<lparr>mi_reg := reg\<rparr>))"
proof -
  let ?m = "m\<lparr>mi_comport := (mi_comport m)[0 := Some (c\<lparr>cp_used := YES\<rparr>)], mi_users := 1\<rparr>"
  have u: "mi_users m = 0" using assms(1,3) by (simp add: pool_wf_def)
  have "check_stage (c\<lparr>cp_used := YES\<rparr>) st lines ?m = Some (st\<lparr>st_fail_regist := cnt\<rparr>, stage_result rv (?m\<lparr>mi_reg := reg\<rparr>))"
    using assms(5,6) by (simp add: check_stage_def)
  note r = check_ready_with_port [OF assms(1-4) this]
  have "(stage_result rv (?m\<lparr>mi_reg := reg\<rparr>))\<lparr>mi_comport := mi_comport m, mi_users := 0\<rparr> = stage_result rv (m\<lparr>mi_reg := reg\<rparr>)"
    using u by (cases m) (simp add: stage_result_def set_module_event_def)
  then show ?thesis using r by simp
qed

text \<open>A port on which the module does not answer \<open>ATE0\<close> in a round.\<close>

definition no_answer :: "com_port \<Rightarrow> at_line list \<Rightarrow> bool" where
  "no_answer c lines \<longleftrightarrow> (\<exists>rv. lines \<noteq> [] \<and> atcmd_check_at_ready (c\<lparr>cp_used := YES\<rparr>) (lines ! 0) = Some rv \<and> rv \<noteq> 0)"

lemma no_answer_round:
  assumes "pool_wf m" "st_lock st = 0" "ports_in_use m = {}" "mi_comport m ! 0 = Some c" "mi_ready m = MODULE_READY" "no_answer c lines"
  shows "atcmd_check_ready st lines m =
    (if st_fail_module st < 10 then Some (st\<lparr>st_fail_module := st_fail_module st + 1\<rparr>, m)
     else Some (st\<lparr>st_fail_module := 0\<rparr>, set_module_event m REQ_POWER_RESET))"
proof -
  obtain rv where rv: "lines \<noteq> []" "atcmd_check_at_ready (c\<lparr>cp_used := YES\<rparr>) (lines ! 0) = Some rv" "rv \<noteq> 0"
    using assms(6) by (auto simp: no_answer_def)
  have "atcmd_check_module_ready (c\<lparr>cp_used := YES\<rparr>) 10 lines (st_fail_module st) =
      Some (if st_fail_module st < 10 then (0, st_fail_module st + 1) else (- 1, 0))"
    using rv by (simp add: atcmd_check_module_ready_def count_failure_def)
  then show ?thesis using module_ready_round [OF assms(1-5), of lines] by (auto simp: stage_result_def)
qed

lemma no_answer_rounds:
  assumes "pool_wf m" "ports_in_use m = {}" "mi_comport m ! 0 = Some c" "mi_ready m = MODULE_READY"
  shows "st_lock st = 0 \<Longrightarrow> 0 \<le> st_fail_module st \<Longrightarrow> st_fail_module st \<le> 10 \<Longrightarrow> st_fail_module st + int (length rounds) \<le> 11 \<Longrightarrow> \<forall>lines\<in>set rounds. no_answer c lines \<Longrightarrow>
    check_rounds rounds (st, m) =
      Some (if st_fail_module st + int (length rounds) \<le> 10 then (st\<lparr>st_fail_module := st_fail_module st + int (length rounds)\<rparr>, m)
            else (st\<lparr>st_fail_module := 0\<rparr>, set_module_event m REQ_POWER_RESET))"
proof (induction rounds arbitrary: st)
  case Nil
  then show ?case by (cases st) simp
next
  case (Cons lines rounds)
  note r = no_answer_round [OF assms(1) Cons.prems(1) assms(2-4), of lines]
  show ?case
  proof (cases "st_fail_module st < 10")
    case True
    then show ?thesis
      using r Cons.prems Cons.IH [of "st\<lparr>st_fail_module := st_fail_module st + 1\<rparr>"] by (simp add: algebra_simps)
  next
    case False
    then have "rounds = []" "st_fail_module st = 10" using Cons.prems(3,4) by (auto simp: neq_Nil_conv)
    then show ?thesis using r Cons.prems by simp
  qed
qed

section \<open>Coming up\<close>

fun ctrl_rounds :: "ctrl_env list \<Rightarrow> gprs_static \<times> module_info \<Rightarrow> (gprs_static \<times> module_info) option" where
  "ctrl_rounds [] s = Some s"
| "ctrl_rounds (env # rounds) (st, m) = Option.bind (ctrl_round env st m) (ctrl_rounds rounds)"

definition reads_off :: "off_env \<Rightarrow> bool" where
  "reads_off env \<longleftrightarrow> (word_of_int (fst (hal_get_gprs_power (oe_power env))) :: u8) = 0"

text \<open>The queries of the three stages succeed on a port, with what they find out.\<close>

definition stages_pass :: "com_port \<Rightarrow> at_line list \<Rightarrow> at_line list \<Rightarrow> hw_info \<Rightarrow> at_line list \<Rightarrow> register_info \<Rightarrow> bool" where
  "stages_pass c l1 l2 hw l3 reg \<longleftrightarrow> 2 \<le> length l1 \<and> atcmd_check_at_ready c (l1 ! 0) = Some 0 \<and> atcmd_check_sim_valid c (l1 ! 1) = Some 0 \<and>
     hwinfo_queries c zero_hw l2 = Some (0, hw) \<and> regist_queries c zero_reg l3 = Some (0, reg)"

lemma ctrl_round_quiet:
  "mi_event m = REQ_EVENT_NONE \<Longrightarrow> mi_pwr_status m = 1 \<Longrightarrow> mi_ready m \<noteq> ALL_READY \<Longrightarrow>
   ctrl_round env st m = atcmd_check_ready st (ce_lines (ct_check env)) m"
  by (simp add: ctrl_round_def ctrl_check_def)

lemma comes_up:
  assumes "pool_wf m" "ports_in_use m = {}" "\<forall>p\<in>set (mi_comport m). tty_port p" "mi_gsmport m = Some gsm" "tty_port (Some gsm)"
    "mi_event m = REQ_POWER_RESET" "mi_hw m = zero_hw" "mi_comport m ! 0 = Some c0" "st_lock st = 0"
    "reads_off (ct_off e1)" "comes_on (ct_on e1) gsm"
    "stages_pass ((opened (pe_ports (ct_on e1) ! 0) c0)\<lparr>cp_used := YES\<rparr>) (ce_lines (ct_check e1)) (ce_lines (ct_check e2)) hw (ce_lines (ct_check e3)) reg"
  shows "ctrl_rounds [e1, e2, e3] (st, m) =
    Some (st\<lparr>st_fail_module := 0, st_fail_hwinfo := 0, st_fail_regist := 0\<rparr>,
      m\<lparr>mi_gsmport := Some (opened (pe_open (ct_on e1)) gsm), mi_ready := ALL_READY, mi_event := REQ_EVENT_NONE, mi_pwr_status := 1,
        mi_hw := hw, mi_reg := reg, mi_comport := map2 (\<lambda>s p. map_option (opened s) p) (pe_ports (ct_on e1)) (mi_comport m)\<rparr>)"
proof -
  let ?ports = "map2 (\<lambda>s p. map_option (opened s) p) (pe_ports (ct_on e1)) (mi_comport m)"
  define m1 where "m1 = m\<lparr>mi_pwr_status := word_of_int (fst (hal_get_gprs_power (oe_power (ct_off e1))))\<rparr>"
  define m2 where "m2 = m\<lparr>mi_gsmport := Some (opened (pe_open (ct_on e1)) gsm), mi_ready := MODULE_READY, mi_event := REQ_EVENT_NONE,
    mi_pwr_status := 1, mi_reg := zero_reg, mi_comport := ?ports\<rparr>"
  have len: "length (mi_comport m) = 4" "length (pe_ports (ct_on e1)) = 4" using assms(1,11) by (simp_all add: pool_wf_def comes_on_def)
  have w1: "pool_wf m1" using assms(1) pool_cong(1) [of m1 m] by (simp add: m1_def)
  have "power_on_module (ct_on e1) m1 = Some (0, m1\<lparr>mi_gsmport := Some (opened (pe_open (ct_on e1)) gsm), mi_ready := MODULE_READY,
      mi_reg := zero_reg, mi_pwr_status := 1, mi_comport := ?ports\<rparr>)"
    using power_on_good [OF w1 _ _ assms(5,11)] assms(3,4) by (simp add: m1_def)
  then have "set_module_event_power (ct_off e1) (ct_others e1) (ct_on e1) m = Some (0, m2)"
    using assms(6,10) by (simp add: set_module_event_power_def power_off_module_def power_off_test_def m1_def [symmetric] Let_def reads_off_def
        event_done_def set_module_event_def) (simp add: m1_def m2_def)
  then have r1: "ctrl_round e1 st m = atcmd_check_ready st (ce_lines (ct_check e1)) m2"
    using assms(6) by (simp add: ctrl_round_def ctrl_check_def) (simp add: m2_def)
  have same: "list_all2 same_port (mi_comport m) ?ports"
    using len assms(1) by (auto simp: list_all2_conv_all_nth pool_wf_def port_ok_def same_port_def opened_def all_set_conv_all_nth option.rel_map intro!: option.rel_refl)
  have w: "pool_wf m2" "ports_in_use m2 = {}"
    using pool_same_ports [OF same] assms(1,2) pool_cong [of m2 "m\<lparr>mi_comport := ?ports\<rparr>"] by (simp_all add: m2_def)
  define c where "c = opened (pe_ports (ct_on e1) ! 0) c0"
  have c: "mi_comport m2 ! 0 = Some c" using len assms(8) by (simp add: m2_def c_def)
  have p: "stages_pass (c\<lparr>cp_used := YES\<rparr>) (ce_lines (ct_check e1)) (ce_lines (ct_check e2)) hw (ce_lines (ct_check e3)) reg"
    using assms(12) by (simp add: c_def)
  have "ce_lines (ct_check e1) \<noteq> []" using p by (auto simp: stages_pass_def)
  then have "atcmd_check_module_ready (c\<lparr>cp_used := YES\<rparr>) 10 (ce_lines (ct_check e1)) (st_fail_module st) = Some (1, 0)"
    using p by (simp add: atcmd_check_module_ready_def stages_pass_def count_failure_def)
  then have s1: "ctrl_round e1 st m = Some (st\<lparr>st_fail_module := 0\<rparr>, m2\<lparr>mi_ready := CHECK_HWINFO\<rparr>)"
    using module_ready_round [OF w(1) assms(9) w(2) c] r1 by (simp add: stage_result_def m2_def)
  let ?st1 = "st\<lparr>st_fail_module := 0\<rparr>" and ?m3 = "m2\<lparr>mi_ready := CHECK_HWINFO\<rparr>"
  have w3: "pool_wf ?m3" "ports_in_use ?m3 = {}" using w pool_cong [of ?m3 m2] by simp_all
  have "atcmd_check_hwinfo (c\<lparr>cp_used := YES\<rparr>) (mi_hw ?m3) 10 (ce_lines (ct_check e2)) (st_fail_hwinfo ?st1) = Some (1, 0, hw)"
    using p assms(7) by (simp add: atcmd_check_hwinfo_def stages_pass_def count_failure_def m2_def)
  then have "atcmd_check_ready ?st1 (ce_lines (ct_check e2)) ?m3 =
      Some (?st1\<lparr>st_fail_hwinfo := 0\<rparr>, stage_result 1 (?m3\<lparr>mi_hw := hw\<rparr>))"
    using hwinfo_round [OF w3(1) _ w3(2)] c assms(9) by simp
  then have s2: "ctrl_round e2 ?st1 ?m3 = Some (?st1\<lparr>st_fail_hwinfo := 0\<rparr>, m2\<lparr>mi_hw := hw, mi_ready := CHECK_REGISTRY\<rparr>)"
    by (subst ctrl_round_quiet) (simp_all add: m2_def stage_result_def)
  let ?st2 = "?st1\<lparr>st_fail_hwinfo := 0\<rparr>" and ?m4 = "m2\<lparr>mi_hw := hw, mi_ready := CHECK_REGISTRY\<rparr>"
  have w4: "pool_wf ?m4" "ports_in_use ?m4 = {}" using w pool_cong [of ?m4 m2] by simp_all
  have "atcmd_check_regist (c\<lparr>cp_used := YES\<rparr>) (mi_reg ?m4) 10 (ce_lines (ct_check e3)) (st_fail_regist ?st2) = Some (1, 0, reg)"
    using p by (simp add: atcmd_check_regist_def stages_pass_def count_failure_def m2_def)
  then have "atcmd_check_ready ?st2 (ce_lines (ct_check e3)) ?m4 =
      Some (?st2\<lparr>st_fail_regist := 0\<rparr>, stage_result 1 (?m4\<lparr>mi_reg := reg\<rparr>))"
    using regist_round [OF w4(1) _ w4(2)] c assms(9) by simp
  then have s3: "ctrl_round e3 ?st2 ?m4 = Some (?st2\<lparr>st_fail_regist := 0\<rparr>, m2\<lparr>mi_hw := hw, mi_reg := reg, mi_ready := ALL_READY\<rparr>)"
    by (subst ctrl_round_quiet) (simp_all add: m2_def stage_result_def)
  show ?thesis using s1 s2 s3 by (simp add: m2_def)
qed

end
