(* ===== verification/Ppp.thy ===== *)
theory Ppp
  imports Gprs Iniparser
begin

text \<open>
  The PPP thread (\<open>cp_library/cp_ppp.c\<close>) with the ping test of \<open>cp_network.c\<close>: the account of the access point, the command that
  dials, watching the connection, and a round of the thread. Texts of files and of commands, descriptors and clocks are arguments.
\<close>

section \<open>Strings\<close>

text \<open>The string in a block that must have its zero, and one line of \<open>fgets\<close> with a buffer of \<open>n\<close> bytes.\<close>

definition str_of :: "char list \<Rightarrow> string option" where
  "str_of b = (if NUL \<in> set b then Some (cstr b) else None)"

definition fgets_line :: "nat \<Rightarrow> string \<Rightarrow> string" where
  "fgets_line n f = take (n - 1) (first_line f)"

definition fgets_rest :: "nat \<Rightarrow> string \<Rightarrow> string" where
  "fgets_rest n f = drop (length (fgets_line n f)) f"

text \<open>\<open>snprintf\<close> to \<open>n\<close> bytes, and \<open>strncat\<close> with the length of the buffer as its limit.\<close>

definition snprintf_to :: "nat \<Rightarrow> string \<Rightarrow> string" where
  "snprintf_to n s = take (n - 1) s"

definition strncat_to :: "nat \<Rightarrow> string \<Rightarrow> string \<Rightarrow> string option" where
  "strncat_to n dst src = (if length dst + length (take n src) < n then Some (dst @ take n src) else None)"

section \<open>Ping\<close>

function ping_loop :: "string \<Rightarrow> int option" where
  "ping_loop out =
     (if out = [] then Some 100
      else if is_substring ''transmitted'' (cstr (fgets_line 512 out))
      then do {
        vs \<leftarrow> split_string_to_value (cstr (fgets_line 512 out)) ''%l,%l,%d'' [True, True, True];
        Some (split_int vs 2 100) }
      else ping_loop (fgets_rest 512 out))"
  by pat_completeness auto

lemma fgets_rest_less: "1 < n \<Longrightarrow> f \<noteq> [] \<Longrightarrow> length (fgets_rest n f) < length f"
proof -
  assume "1 < n" "f \<noteq> []"
  moreover from \<open>f \<noteq> []\<close> have "first_line f \<noteq> []" by (cases f) (auto simp: first_line_def Let_def)
  ultimately have "fgets_line n f \<noteq> []" by (simp add: fgets_line_def)
  then show ?thesis using \<open>f \<noteq> []\<close> by (simp add: fgets_rest_def)
qed

termination ping_loop by (relation "measure length") (auto intro: fgets_rest_less)

declare ping_loop.simps [simp del]

text \<open>The command and the result; \<open>out\<close> is what it prints, if it can be started.\<close>

definition network_ping_test :: "string option \<Rightarrow> string \<Rightarrow> string option \<Rightarrow> (string \<times> int) option" where
  "network_ping_test source ping_ip out =
     (let cmd = snprintf_to 256 (case source of
            Some s \<Rightarrow> ''ping -W1 -c5 -s4 '' @ ping_ip @ '' -I '' @ s
          | None \<Rightarrow> ''ping -W1 -c5 -s4 '' @ ping_ip)
      in case out of
           None \<Rightarrow> Some (cmd, - 2)
         | Some text \<Rightarrow> do { lost \<leftarrow> ping_loop text; Some (cmd, lost) })"

section \<open>State\<close>

datatype ppp_status = DISCONNECT | SELECTED_APN | CONNECTING | CONNECTED

fun status_next :: "ppp_status \<Rightarrow> ppp_status" where
  "status_next DISCONNECT = SELECTED_APN"
| "status_next SELECTED_APN = CONNECTING"
| "status_next CONNECTING = CONNECTED"
| "status_next CONNECTED = CONNECTED"

datatype ppp_network = PPP_STOP | SIG_WEAK | PPP_CONN | PPP_BAD | PPP_GOOD

definition PPPD_DIAL_TIMEOUT :: u32 where "PPPD_DIAL_TIMEOUT = 20000"
definition PING_INTERVAL_TIME :: int where "PING_INTERVAL_TIME = 10000"
definition MAX_PPP_FAIL_CNT :: u8 where "MAX_PPP_FAIL_CNT = 3"
definition APN_LEN :: nat where "APN_LEN = 128"
definition UID_LEN :: nat where "UID_LEN = 64"
definition PWD_LEN :: nat where "PWD_LEN = 64"

record apn_account =
  aa_apn :: "char list"
  aa_uid :: "char list"
  aa_pwd :: "char list"
  aa_auth :: "char list"

definition zero_apn :: apn_account where
  "zero_apn = \<lparr>aa_apn = replicate APN_LEN NUL, aa_uid = replicate UID_LEN NUL, aa_pwd = replicate PWD_LEN NUL, aa_auth = replicate 10 NUL\<rparr>"

record pppd_info =
  pi_netaddr :: "char list"
  pi_ptpaddr :: "char list"
  pi_start_time :: u32
  pi_ping_time :: u32
  pi_pid :: int

definition zero_pppd :: pppd_info where
  "zero_pppd = \<lparr>pi_netaddr = replicate 16 NUL, pi_ptpaddr = replicate 16 NUL, pi_start_time = 0, pi_ping_time = 0, pi_pid = 0\<rparr>"

text \<open>The sixteen counters of the statistics, in the order in which they are read: the received bytes are number 0 and the sent bytes
  number 8.\<close>

type_synonym ppp_stat = "nat list"

definition zero_stat :: ppp_stat where "zero_stat = replicate 16 0"

record ppp_ctx =
  pc_status :: ppp_status
  pc_network :: ppp_network
  pc_dev :: "char list"
  pc_pppd :: pppd_info
  pc_stat :: ppp_stat
  pc_fail_cnt :: u8
  pc_apn :: apn_account
  pc_ping_ip :: "char list"
  pc_ping_interval :: int
  pc_comport :: "nat option"

definition set_ppp_disconnect :: "ppp_ctx \<Rightarrow> ppp_ctx" where
  "set_ppp_disconnect ctx = ctx\<lparr>pc_status := DISCONNECT, pc_pppd := zero_pppd, pc_stat := zero_stat, pc_network := PPP_STOP\<rparr>"

definition ppp_context_init :: "ppp_ctx option" where
  "ppp_context_init = do {
     dev \<leftarrow> c_strncpy (replicate 10 NUL) ''ppp10'' 10;
     ip \<leftarrow> c_strncpy (replicate 16 NUL) ''4.2.2.2'' 16;
     Some (set_ppp_disconnect \<lparr>pc_status = DISCONNECT, pc_network = PPP_STOP, pc_dev = dev, pc_pppd = zero_pppd, pc_stat = zero_stat,
       pc_fail_cnt = 0, pc_apn = zero_apn, pc_ping_ip = ip, pc_ping_interval = PING_INTERVAL_TIME, pc_comport = None\<rparr>) }"

section \<open>The interface\<close>

text \<open>\<open>reads\<close> is what the \<open>read\<close> calls on the file put into the buffer, whose content is \<open>buf\<close> before; \<open>None\<close> is a file that cannot be
  opened. Without a match the search stops only at a zero.\<close>

fun interface_loop :: "string \<Rightarrow> char list \<Rightarrow> char list list \<Rightarrow> int option" where
  "interface_loop dev buf [] = Some (- 1)"
| "interface_loop dev buf (xs # reads) =
     (if xs = [] then Some (- 1)
      else do {
        buf \<leftarrow> wr_slice buf 0 xs;
        if is_substring dev (cstr buf) then Some 0
        else if NUL \<in> set buf then interface_loop dev buf reads
        else None })"

definition check_ppp_interface :: "string \<Rightarrow> char list \<Rightarrow> char list list option \<Rightarrow> int option" where
  "check_ppp_interface dev buf file = (case file of None \<Rightarrow> Some (- 1) | Some reads \<Rightarrow> interface_loop dev buf reads)"

record if_env =
  if_buf :: "char list"
  if_reads :: "char list list option"

abbreviation ppp_interface :: "string \<Rightarrow> if_env \<Rightarrow> int option" where
  "ppp_interface dev env \<equiv> check_ppp_interface dev (if_buf env) (if_reads env)"

text \<open>The two addresses, as the \<open>ioctl\<close> calls give them.\<close>

definition check_ppp_ipaddr :: "pppd_info \<Rightarrow> char list \<Rightarrow> if_env \<Rightarrow> string option \<Rightarrow> string option \<Rightarrow> (int \<times> pppd_info) option" where
  "check_ppp_ipaddr info dev env local remote = do {
     dev \<leftarrow> str_of dev;
     missing \<leftarrow> ppp_interface dev env;
     if missing \<noteq> 0 then Some (- 2, info)
     else do {
       _ \<leftarrow> store_str (replicate 16 NUL) (Some dev);
       case local of
         None \<Rightarrow> Some (- 1, info)
       | Some a \<Rightarrow> do {
           net \<leftarrow> store_str (pi_netaddr info) (Some a);
           let info = info\<lparr>pi_netaddr := net\<rparr>;
           case remote of
             None \<Rightarrow> Some (- 1, info)
           | Some a \<Rightarrow> do {
               ptp \<leftarrow> store_str (pi_ptpaddr info) (Some a);
               Some (0, info\<lparr>pi_ptpaddr := ptp\<rparr>) } } } }"

text \<open>\<open>sscanf\<close> of unsigned numbers: the values that are found, at most \<open>n\<close>. A sign would negate the value; the file has none.\<close>

fun scan_numbers :: "nat \<Rightarrow> string \<Rightarrow> nat list" where
  "scan_numbers 0 s = []"
| "scan_numbers (Suc n) s =
     (let s = scan_ws s in
      case scan_set c_isdigit s of
        None \<Rightarrow> []
      | Some (ds, rest) \<Rightarrow> nat (digits_val 10 0 ds) # scan_numbers n rest)"

text \<open>Counters 0, 1, 8 and 9 have 64 bits, the others 32; a larger number is stored as the largest one.\<close>

definition stat_store :: "nat list \<Rightarrow> ppp_stat \<Rightarrow> ppp_stat" where
  "stat_store vs st =
     map (\<lambda>(k, v). min v (if k \<in> {0, 1, 8, 9} then 2 ^ 64 - 1 else 2 ^ 32 - 1)) (enumerate 0 vs) @ drop (length vs) st"

definition check_ppp_stat :: "ppp_stat \<Rightarrow> char list \<Rightarrow> string option \<Rightarrow> (int option \<times> ppp_stat) option" where
  "check_ppp_stat st dev file =
     (case file of
        None \<Rightarrow> Some (Some (- 1), st)
      | Some f \<Rightarrow>
          (let f = fgets_rest 512 (fgets_rest 512 f) in
           if f = [] then Some (None, st)
           else do {
             dev \<leftarrow> str_of dev;
             let buf = cstr (fgets_line 512 f);
             if \<not> is_substring dev buf then Some (Some (- 1), st)
             else do {
               let ptr = drop (first_slot (\<lambda>k. take (length dev) (drop k buf) = dev) [0..<Suc (length buf)]) buf;
               if CHR '':'' \<notin> set ptr then None
               else Some (Some 0, stat_store (scan_numbers 16 (tl (dropWhile (\<lambda>c. c \<noteq> CHR '':'') ptr))) st) } }))"

section \<open>The dialing process\<close>

text \<open>\<open>out\<close> is what the command prints; \<open>None\<close> when it cannot be started. The result has the command.\<close>

definition check_pppd_pid :: "string \<Rightarrow> string option \<Rightarrow> string \<times> int" where
  "check_pppd_pid find_key out =
     (let cmd = snprintf_to 128 (''ps | grep -v grep | grep pppd | grep '' @ find_key @ '' | awk '' @ [CHR 0x27] @ ''{print $1}'' @ [CHR 0x27])
      in case out of
           None \<Rightarrow> (cmd, - 1)
         | Some text \<Rightarrow> (let pid = atoi (cstr (fgets_line 10 text)) in (cmd, if pid \<le> 1 then - 1 else pid)))"

text \<open>\<open>outs\<close> is what each call prints. The result is the processes that get the signal.\<close>

fun kill_loop :: "string \<Rightarrow> string option list \<Rightarrow> int list option" where
  "kill_loop name [] = None"
| "kill_loop name (out # outs) =
     (let pid = snd (check_pppd_pid name out)
      in if pid > 0 then map_option (\<lambda>pids. pid # pids) (kill_loop name outs) else Some [])"

definition kill_pppd_process :: "com_port option \<Rightarrow> string option list \<Rightarrow> (int \<times> int list) option" where
  "kill_pppd_process comport outs = do {
     c \<leftarrow> comport;
     name \<leftarrow> str_of (dev_name c);
     pids \<leftarrow> kill_loop name outs;
     Some (0, pids) }"

text \<open>The port that the thread holds.\<close>

definition held_port :: "ppp_ctx \<Rightarrow> module_info \<Rightarrow> com_port option option" where
  "held_port ctx module = (case pc_comport ctx of None \<Rightarrow> Some None | Some i \<Rightarrow> rd (mi_comport module) i)"

record stop_env =
  se_if :: if_env
  se_pids :: "string option list"

definition stop_ppp_connect :: "stop_env \<Rightarrow> ppp_ctx \<Rightarrow> module_info \<Rightarrow> (int \<times> ppp_ctx \<times> module_info) option" where
  "stop_ppp_connect env ctx module = do {
     dev \<leftarrow> str_of (pc_dev ctx);
     missing \<leftarrow> ppp_interface dev (se_if env);
     if missing \<noteq> 0 then Some (0, ctx, module)
     else do {
       port \<leftarrow> held_port ctx module;
       _ \<leftarrow> kill_pppd_process port (se_pids env);
       (ctx, module) \<leftarrow>
         (case pc_comport ctx of
            None \<Rightarrow> Some (ctx, module)
          | Some i \<Rightarrow> do { (module, p) \<leftarrow> free_gsm_dataport module (Some i); Some (ctx\<lparr>pc_comport := p\<rparr>, module) });
       Some (0, ctx, module) } }"

definition ppp_context_term :: "stop_env \<Rightarrow> ppp_ctx \<Rightarrow> module_info \<Rightarrow> (ppp_ctx \<times> module_info) option" where
  "ppp_context_term env ctx module = do {
     (_, ctx, module) \<leftarrow> stop_ppp_connect env ctx module;
     Some (set_ppp_disconnect ctx, module) }"

section \<open>The access point\<close>

definition apn_key :: "string \<Rightarrow> string \<Rightarrow> string" where
  "apn_key ini_key name = snprintf_to 64 (ini_key @ '':'' @ name)"

text \<open>\<open>strncpy\<close> from what the lookup gives; \<open>NULL\<close> cannot be read.\<close>

definition copy_setting :: "char list \<Rightarrow> charp \<Rightarrow> nat \<Rightarrow> char list option" where
  "copy_setting dst v n = (case v of Ptr (Some s) \<Rightarrow> c_strncpy dst s n | _ \<Rightarrow> None)"

text \<open>The arguments before the account are the outcomes of the allocations of the parser and the text of the file.\<close>

definition get_apn_conf ::
  "(nat \<Rightarrow> bool) \<Rightarrow> (nat \<Rightarrow> nat \<Rightarrow> bool) \<Rightarrow> string option \<Rightarrow> string option \<Rightarrow> nat \<Rightarrow> apn_account \<Rightarrow> (int \<times> apn_account) option" where
  "get_apn_conf oknew ok file ini_key type apn =
     (case ini_key of
        None \<Rightarrow> Some (- 1, apn)
      | Some ini_key \<Rightarrow> do {
          ini \<leftarrow> iniparser_load oknew ok file;
          case ini of
            None \<Rightarrow> Some (- 2, apn)
          | Some ini \<Rightarrow> do {
              str \<leftarrow> iniparser_getstring (Some ini) (Some (apn_key ini_key (if type = 3 then ''3g_apn'' else ''apn''))) (Ptr None);
              if str = Ptr None then Some (- 1, zero_apn)
              else do {
                a \<leftarrow> copy_setting (aa_apn apn) str APN_LEN;
                str \<leftarrow> iniparser_getstring (Some ini) (Some (apn_key ini_key (if type = 3 then ''3g_uid'' else ''uid''))) (Ptr None);
                u \<leftarrow> copy_setting (aa_uid apn) str UID_LEN;
                str \<leftarrow> iniparser_getstring (Some ini) (Some (apn_key ini_key (if type = 3 then ''3g_pwd'' else ''pwd''))) (Ptr None);
                p \<leftarrow> copy_setting (aa_pwd apn) str PWD_LEN;
                Some (0, apn\<lparr>aa_apn := a, aa_uid := u, aa_pwd := p\<rparr>) } } })"

record apn_env =
  ae_oknew :: "nat \<Rightarrow> bool"
  ae_ok :: "nat \<Rightarrow> nat \<Rightarrow> bool"
  ae_file :: "string option"

definition select_apn :: "apn_env \<Rightarrow> ppp_ctx \<Rightarrow> string \<Rightarrow> (int \<times> ppp_ctx) option" where
  "select_apn env ctx key = do {
     (retval, apn) \<leftarrow> get_apn_conf (ae_oknew env) (ae_ok env) (ae_file env) (Some key) 2 (pc_apn ctx);
     Some (if retval = 0 then 0 else - 1, ctx\<lparr>pc_apn := apn\<rparr>) }"

definition PPPD_CMD_LEN :: nat where "PPPD_CMD_LEN = 512"

text \<open>One option of the command, when its value is not empty.\<close>

definition dial_option :: "string \<Rightarrow> string \<Rightarrow> char list \<Rightarrow> string option" where
  "dial_option cmd name val = do {
     v \<leftarrow> str_of val;
     if length v > 0 then strncat_to PPPD_CMD_LEN cmd (snprintf_to 64 (name @ v @ '' '')) else Some cmd }"

text \<open>The result has the command that the child process runs. \<open>pid\<close> is the result of \<open>fork\<close> in the parent.\<close>

definition start_ppp_dial_cmd :: "com_port option \<Rightarrow> apn_account \<Rightarrow> char list \<Rightarrow> int \<Rightarrow> (int \<times> string option) option" where
  "start_ppp_dial_cmd comport apn dev pid = do {
     c \<leftarrow> comport;
     if is_connted c = 0 then Some (- 1, None)
     else do {
       a \<leftarrow> str_of (aa_apn apn);
       if length a = 0 then Some (- 1, None)
       else do {
         name \<leftarrow> str_of (dev_name c);
         let cmd = snprintf_to PPPD_CMD_LEN (''/apps/tools/ifup-ppp -d '' @ name @ '' '');
         cmd \<leftarrow> strncat_to PPPD_CMD_LEN cmd (snprintf_to 64 ('' -a '' @ a @ '' ''));
         cmd \<leftarrow> dial_option cmd '' -u '' (aa_uid apn);
         cmd \<leftarrow> dial_option cmd '' -p '' (aa_pwd apn);
         cmd \<leftarrow> dial_option cmd '' -v '' (aa_auth apn);
         d \<leftarrow> str_of dev;
         cmd \<leftarrow> strncat_to PPPD_CMD_LEN cmd d;
         if pid < 0 then Some (- 1, None) else Some (0, Some cmd) } } }"

section \<open>The thread\<close>

record conn_env =
  cn_static :: gprs_static
  cn_apn :: apn_env
  cn_pid :: int

text \<open>The second stage, which the first falls into when it has been passed.\<close>

definition dial_stage :: "conn_env \<Rightarrow> ppp_ctx \<Rightarrow> module_info \<Rightarrow> (int \<times> ppp_ctx \<times> module_info) option" where
  "dial_stage env ctx module = do {
     let ctx = ctx\<lparr>pc_network := PPP_CONN\<rparr>;
     port \<leftarrow> held_port ctx module;
     _ \<leftarrow> start_ppp_dial_cmd port (pc_apn ctx) (pc_dev ctx) (cn_pid env);
     Some (0, ctx\<lparr>pc_status := status_next (pc_status ctx)\<rparr>, module) }"

definition start_ppp_connect :: "conn_env \<Rightarrow> ppp_ctx \<Rightarrow> module_info \<Rightarrow> (int \<times> ppp_ctx \<times> module_info) option" where
  "start_ppp_connect env ctx module = do {
     (ctx, module) \<leftarrow>
       (if pc_comport ctx = None
        then do { (p, module) \<leftarrow> alloc_gsm_dataport (cn_static env) module; Some (ctx\<lparr>pc_comport := p\<rparr>, module) }
        else Some (ctx, module));
     if pc_comport ctx = None then Some (- 1, ctx, module)
     else case pc_status ctx of
            DISCONNECT \<Rightarrow> do {
              let ctx = set_ppp_disconnect ctx;
              key \<leftarrow> str_of (loc_mcc_mnc (rg_loc (mi_reg module)));
              (retval, ctx) \<leftarrow> select_apn (cn_apn env) ctx key;
              if retval = 0
              then dial_stage env (ctx\<lparr>pc_fail_cnt := 0, pc_status := status_next (pc_status ctx)\<rparr>) module
              else Some (0, ctx\<lparr>pc_fail_cnt := pc_fail_cnt ctx + 1\<rparr>, set_module_event module REQ_POWER_RESET) }
          | SELECTED_APN \<Rightarrow> dial_stage env ctx module
          | _ \<Rightarrow> Some (0, ctx, module) }"

record watch_env =
  we_pid :: "string option"
  we_now1 :: u32
  we_if :: if_env
  we_local :: "string option"
  we_remote :: "string option"
  we_now2 :: u32
  we_ping :: "string option"
  we_stat :: "string option"
  we_now3 :: u32

text \<open>The first half: while the status is not \<open>CONNECTED\<close>.\<close>

definition watch_dialing :: "watch_env \<Rightarrow> ppp_ctx \<Rightarrow> module_info \<Rightarrow> ppp_ctx option" where
  "watch_dialing env ctx module = do {
     let ctx = ctx\<lparr>pc_pppd := (pc_pppd ctx)\<lparr>pi_ping_time := 0\<rparr>, pc_stat := zero_stat\<rparr>;
     port \<leftarrow> held_port ctx module;
     c \<leftarrow> port;
     name \<leftarrow> str_of (dev_name c);
     let ctx = ctx\<lparr>pc_pppd := (pc_pppd ctx)\<lparr>pi_pid := snd (check_pppd_pid name (we_pid env))\<rparr>\<rparr>;
     if pi_pid (pc_pppd ctx) \<le> 0
     then Some (if time_elapsed (we_now1 env) (pi_start_time (pc_pppd ctx)) \<ge> PPPD_DIAL_TIMEOUT then set_ppp_disconnect ctx else ctx)
     else do {
       net \<leftarrow> str_of (pi_netaddr (pc_pppd ctx));
       if net = []
       then do {
         (_, info) \<leftarrow> check_ppp_ipaddr (pc_pppd ctx) (pc_dev ctx) (we_if env) (we_local env) (we_remote env);
         Some (ctx\<lparr>pc_pppd := info\<rparr>) }
       else Some ctx } }"

text \<open>The second half, with the counters of sent and received bytes from before the first. \<open>ping_interval\<close> is a \<open>long\<close>, which is
  converted for the comparison.\<close>

definition watch_network :: "watch_env \<Rightarrow> nat \<Rightarrow> nat \<Rightarrow> ppp_ctx \<Rightarrow> ppp_ctx option" where
  "watch_network env last_tx last_rx ctx =
     (if time_elapsed (we_now2 env) (pi_ping_time (pc_pppd ctx)) \<ge> word_of_int (pc_ping_interval ctx * 1000)
      then if pc_fail_cnt ctx \<ge> MAX_PPP_FAIL_CNT then Some (set_ppp_disconnect ctx)
           else do {
             dev \<leftarrow> str_of (pc_dev ctx);
             ip \<leftarrow> str_of (pc_ping_ip ctx);
             (_, lost) \<leftarrow> network_ping_test (Some dev) ip (we_ping env);
             let ctx = ctx\<lparr>pc_network := (if lost \<le> 60 then PPP_GOOD else PPP_BAD)\<rparr>;
             ctx \<leftarrow>
               (if lost \<le> 80
                then do {
                  (_, st) \<leftarrow> check_ppp_stat (pc_stat ctx) (pc_dev ctx) (we_stat env);
                  let ctx = ctx\<lparr>pc_stat := st\<rparr>;
                  tx \<leftarrow> rd st 8;
                  rx \<leftarrow> rd st 0;
                  Some (if last_tx = tx \<or> last_rx = rx then ctx\<lparr>pc_fail_cnt := pc_fail_cnt ctx + 1\<rparr>
                        else (set_ppp_disconnect ctx)\<lparr>pc_fail_cnt := 0\<rparr>) }
                else Some (ctx\<lparr>pc_fail_cnt := pc_fail_cnt ctx + 1\<rparr>));
             Some (ctx\<lparr>pc_pppd := (pc_pppd ctx)\<lparr>pi_ping_time := we_now3 env\<rparr>\<rparr>) }
      else Some ctx)"

definition inspect_network_status :: "watch_env \<Rightarrow> ppp_ctx \<Rightarrow> module_info \<Rightarrow> ppp_ctx option" where
  "inspect_network_status env ctx module = do {
     last_tx \<leftarrow> rd (pc_stat ctx) 8;
     last_rx \<leftarrow> rd (pc_stat ctx) 0;
     ctx \<leftarrow> (if pc_status ctx \<noteq> CONNECTED then watch_dialing env ctx module else Some ctx);
     watch_network env last_tx last_rx ctx }"

record ppp_env =
  pe_stop :: stop_env
  pe_watch :: watch_env
  pe_conn :: conn_env

definition ppp_round :: "ppp_env \<Rightarrow> ppp_ctx \<Rightarrow> module_info \<Rightarrow> (ppp_ctx \<times> module_info) option" where
  "ppp_round env ctx module =
     (if mi_ready module \<noteq> ALL_READY
      then if pc_status ctx \<in> {CONNECTING, CONNECTED}
           then do { (_, ctx, module) \<leftarrow> stop_ppp_connect (pe_stop env) ctx module; Some (ctx, module) }
           else Some (ctx, module)
      else if pc_status ctx \<in> {CONNECTING, CONNECTED}
      then do { ctx \<leftarrow> inspect_network_status (pe_watch env) ctx module; Some (ctx, module) }
      else do { (_, ctx, module) \<leftarrow> start_ppp_connect (pe_conn env) ctx module; Some (ctx, module) })"

end
