(* ===== verification/GprsThreads.thy ===== *)
theory GprsThreads
  imports GprsPool Ppp
begin

text \<open>
  The control thread and the PPP thread on the module that they share. A step is a round of one of the threads; the control
  thread stops inside a round where it waits for the users of the ports, and the signal handler can ask both to end at any time.
\<close>

section \<open>Steps\<close>

text \<open>The control thread between two rounds, waiting to switch off for a request, waiting to switch off for the end, and ended.\<close>

datatype ctrl_pc = CtrlLoop | CtrlWait req_event | CtrlTermWait | CtrlEnd

record gprs_sys =
  gs_module :: module_info
  gs_static :: gprs_static
  gs_ppp :: ppp_ctx
  gs_ctrl :: ctrl_pc
  gs_ppp_run :: bool
  gs_stop :: bool

text \<open>The rest of the round after the wait.\<close>

definition ctrl_resume :: "req_event \<Rightarrow> ctrl_env \<Rightarrow> gprs_static \<Rightarrow> module_info \<Rightarrow> (gprs_static \<times> module_info) option" where
  "ctrl_resume event env st module = do {
     module \<leftarrow> power_off_finish (ct_off env) module;
     r \<leftarrow> (if event = REQ_POWER_RESET then power_on_module (ct_on env) module else Some (0, module));
     ctrl_check (ct_check env) st (snd (event_done r)) }"

definition must_wait :: "off_env \<Rightarrow> module_info \<Rightarrow> bool" where
  "must_wait env module \<longleftrightarrow> \<not> fst (power_off_test env module) \<and> mi_users module \<noteq> 0"

inductive gprs_step :: "gprs_sys \<Rightarrow> gprs_sys \<Rightarrow> bool" where
  ctrl_round_step: "gs_ctrl s = CtrlLoop \<Longrightarrow> \<not> gs_stop s \<Longrightarrow> ct_others env = [] \<Longrightarrow>
    ctrl_round env (gs_static s) (gs_module s) = Some (st, m) \<Longrightarrow>
    gprs_step s (s\<lparr>gs_static := st, gs_module := m\<rparr>)"
| ctrl_wait_step: "gs_ctrl s = CtrlLoop \<Longrightarrow> \<not> gs_stop s \<Longrightarrow> mi_event (gs_module s) \<in> {REQ_POWER_OFF, REQ_POWER_RESET} \<Longrightarrow>
    must_wait off (gs_module s) \<Longrightarrow>
    gprs_step s (s\<lparr>gs_module := snd (power_off_test off (gs_module s)), gs_ctrl := CtrlWait (mi_event (gs_module s))\<rparr>)"
| ctrl_resume_step: "gs_ctrl s = CtrlWait event \<Longrightarrow> mi_users (gs_module s) = 0 \<Longrightarrow>
    ctrl_resume event env (gs_static s) (gs_module s) = Some (st, m) \<Longrightarrow>
    gprs_step s (s\<lparr>gs_static := st, gs_module := m, gs_ctrl := CtrlLoop\<rparr>)"
| ctrl_term_step: "gs_ctrl s = CtrlLoop \<Longrightarrow> gs_stop s \<Longrightarrow> power_off_module off [] (gs_module s) = Some (r, m) \<Longrightarrow>
    gprs_step s (s\<lparr>gs_module := m, gs_ctrl := CtrlEnd\<rparr>)"
| ctrl_term_wait_step: "gs_ctrl s = CtrlLoop \<Longrightarrow> gs_stop s \<Longrightarrow> must_wait off (gs_module s) \<Longrightarrow>
    gprs_step s (s\<lparr>gs_module := snd (power_off_test off (gs_module s)), gs_ctrl := CtrlTermWait\<rparr>)"
| ctrl_term_resume_step: "gs_ctrl s = CtrlTermWait \<Longrightarrow> mi_users (gs_module s) = 0 \<Longrightarrow> power_off_finish off (gs_module s) = Some m \<Longrightarrow>
    gprs_step s (s\<lparr>gs_module := m, gs_ctrl := CtrlEnd\<rparr>)"
| ppp_round_step: "gs_ppp_run s \<Longrightarrow> \<not> gs_stop s \<Longrightarrow> st_lock (cn_static (pe_conn penv)) = st_lock (gs_static s) \<Longrightarrow>
    ppp_round penv (gs_ppp s) (gs_module s) = Some (ctx, m) \<Longrightarrow>
    gprs_step s (s\<lparr>gs_ppp := ctx, gs_module := m\<rparr>)"
| ppp_end_step: "gs_ppp_run s \<Longrightarrow> gs_stop s \<Longrightarrow> ppp_context_term senv (gs_ppp s) (gs_module s) = Some (ctx, m) \<Longrightarrow>
    gprs_step s (s\<lparr>gs_ppp := ctx, gs_module := m, gs_ppp_run := False\<rparr>)"
| stop_step: "gprs_step s (s\<lparr>gs_stop := True\<rparr>)"

text \<open>The start: the module as it has been initialised and the context that the PPP thread makes.\<close>

definition gprs_start :: "gprs_sys \<Rightarrow> bool" where
  "gprs_start s \<longleftrightarrow> (\<exists>ok. init_gsm_module True ok = Some (0, gs_module s)) \<and> gs_static s = st_unlocked \<and>
     ppp_context_init = Some (gs_ppp s) \<and> gs_ctrl s = CtrlLoop \<and> gs_ppp_run s \<and> \<not> gs_stop s"

inductive gprs_steps :: "gprs_sys \<Rightarrow> gprs_sys \<Rightarrow> bool" where
  refl: "gprs_steps s s"
| step: "gprs_steps s s' \<Longrightarrow> gprs_step s' s'' \<Longrightarrow> gprs_steps s s''"

section \<open>What the calls do to the pool\<close>

definition pool_kept :: "module_info \<Rightarrow> module_info \<Rightarrow> bool" where
  "pool_kept m m' \<longleftrightarrow> pool_wf m' \<and> ports_in_use m' = ports_in_use m"

lemma pool_keptI:
  assumes "pool_wf m" "mi_users m' = mi_users m" "mi_comport_cnt m' = mi_comport_cnt m" "mi_comport m' = mi_comport m"
  shows "pool_kept m m'"
  using assms(1) pool_cong [OF assms(2-4)] by (simp add: pool_kept_def)

lemma pool_kept_refl: "pool_wf m \<Longrightarrow> pool_kept m m"
  by (simp add: pool_kept_def)

lemma pool_kept_trans: "pool_kept m m1 \<Longrightarrow> pool_kept m1 m2 \<Longrightarrow> pool_kept m m2"
  by (simp add: pool_kept_def)

lemma power_on_end_kept: "pool_wf m \<Longrightarrow> pool_kept m (snd (power_on_end env rv m))"
  by (rule pool_keptI) (simp_all add: power_on_end_def)

lemma power_on_kept:
  assumes "pool_wf m" "power_on_module env m = Some (r, m')"
  shows "pool_kept m m'"
proof -
  define m1 where "m1 = m\<lparr>mi_pwr_status := word_of_int (fst (hal_get_gprs_power (pe_power env)))\<rparr>"
  have k1: "pool_kept m m1" by (rule pool_keptI [OF assms(1)]) (simp_all add: m1_def)
  then have w1: "pool_wf m1" by (simp add: pool_kept_def)
  have ends: "pool_kept m m'" if "pool_kept m m2" "power_on_end env rv m2 = (r, m')" for m2 rv
    using power_on_end_kept [of m2 env rv] pool_kept_trans [OF that(1), of m'] that by (simp add: pool_kept_def)
  show ?thesis
  proof (cases "mi_pwr_status m1 = 1 \<or> fst (hal_turn_gprs_power ON (pe_turn env)) \<noteq> 0 \<or> ON \<noteq> fst (hal_get_gprs_power (pe_turned env))")
    case True
    then show ?thesis using assms(2) ends [OF k1]
      by (auto simp: power_on_module_def Let_def m1_def [symmetric] split: if_splits)
  next
    case False
    then obtain gsm r1 gsm1 t1 where o: "mi_gsmport m1 = Some gsm" "comport_open (pe_open env) gsm = Some (r1, gsm1, t1)"
      using assms(2) by (auto simp: power_on_module_def Let_def m1_def [symmetric])
    define m2 where "m2 = m1\<lparr>mi_gsmport := Some gsm1\<rparr>"
    have k2: "pool_kept m m2" by (rule pool_kept_trans [OF k1 pool_keptI [OF w1]]) (simp_all add: m2_def)
    then have w2: "pool_wf m2" by (simp add: pool_kept_def)
    have "(\<exists>rv. (r, m') = (rv, m2)) \<or>
        (\<exists>rv m3 r3. open_gsm_dataport (pe_ports env) m2 = Some (rv, m3) \<and> power_on_end env r3 m3 = (r, m'))"
      using assms(2) False o by (auto simp: power_on_module_def Let_def m1_def [symmetric] m2_def [symmetric] split: if_splits)
    then show ?thesis
    proof
      assume "\<exists>rv. (r, m') = (rv, m2)"
      then show ?thesis using k2 by simp
    next
      assume "\<exists>rv m3 r3. open_gsm_dataport (pe_ports env) m2 = Some (rv, m3) \<and> power_on_end env r3 m3 = (r, m')"
      then obtain rv m3 r3 where e: "open_gsm_dataport (pe_ports env) m2 = Some (rv, m3)" "power_on_end env r3 m3 = (r, m')" by blast
      have "pool_kept m2 m3" using open_gsm_dataport_keeps(1,2) [OF w2 e(1)] by (simp add: pool_kept_def)
      then show ?thesis using ends [OF pool_kept_trans [OF k2] e(2)] by simp
    qed
  qed
qed

lemma power_off_finish_kept:
  assumes "pool_wf m" "power_off_finish env m = Some m'"
  shows "pool_kept m m'"
proof -
  let ?m = "m\<lparr>mi_comport := map (map_option comport_close) (mi_comport m)\<rparr>"
  have k: "pool_kept m ?m" using close_gsm_dataport_ok(2,3) [OF assms(1)] by (simp add: pool_kept_def)
  have "mi_users m' = mi_users ?m \<and> mi_comport_cnt m' = mi_comport_cnt ?m \<and> mi_comport m' = mi_comport ?m"
    using assms(2) close_gsm_dataport_ok(1) [OF assms(1)] by (auto simp: power_off_finish_def)
  then have "pool_kept ?m m'" using k by (intro pool_keptI) (simp_all add: pool_kept_def)
  then show ?thesis by (rule pool_kept_trans [OF k])
qed

lemma power_off_test_kept: "pool_wf m \<Longrightarrow> pool_kept m (snd (power_off_test env m))"
  by (rule pool_keptI) (simp_all add: power_off_test_def)

lemma power_off_test_simps [simp]:
  "mi_users (snd (power_off_test env m)) = mi_users m" "mi_ready (snd (power_off_test env m)) = mi_ready m"
  "mi_event (snd (power_off_test env m)) = mi_event m"
  by (simp_all add: power_off_test_def)

lemma power_off_kept:
  assumes "pool_wf m" "power_off_module env [] m = Some (r, m')"
  shows "pool_kept m m'"
proof -
  have t: "pool_kept m (snd (power_off_test env m))" by (rule power_off_test_kept [OF assms(1)])
  then have w: "pool_wf (snd (power_off_test env m))" by (simp add: pool_kept_def)
  show ?thesis
  proof (cases "fst (power_off_test env m)")
    case True
    then show ?thesis using assms(2) t by (auto simp: power_off_module_def Let_def case_prod_beta)
  next
    case False
    then have "power_off_finish env (snd (power_off_test env m)) = Some m'"
      using assms(2) by (auto simp: power_off_module_def Let_def case_prod_beta split: if_splits)
    then show ?thesis using power_off_finish_kept [OF w] pool_kept_trans [OF t] by blast
  qed
qed

lemma event_done_kept: "pool_wf (snd r) \<Longrightarrow> pool_kept (snd r) (snd (event_done r))"
  by (rule pool_keptI) (auto simp: event_done_def set_module_event_def split: prod.splits)

lemma set_event_power_kept:
  assumes "pool_wf m" "set_module_event_power off [] on m = Some (r, m')"
  shows "pool_kept m m'"
proof -
  have one: "pool_kept m (snd x)" if h: "(case mi_event m of
        REQ_POWER_ON \<Rightarrow> power_on_module on m
      | REQ_POWER_OFF \<Rightarrow> power_off_module off [] m
      | REQ_POWER_RESET \<Rightarrow> do { (rv, m) \<leftarrow> power_off_module off [] m; power_on_module on m }
      | REQ_EVENT_NONE \<Rightarrow> Some (0, m)) = Some x" for x
  proof (cases "mi_event m")
    case REQ_POWER_RESET
    then obtain rv m1 where "power_off_module off [] m = Some (rv, m1)" "power_on_module on m1 = Some x"
      using h by auto
    then have k: "pool_kept m m1" "power_on_module on m1 = Some (fst x, snd x)" using power_off_kept [OF assms(1)] by auto
    then have "pool_wf m1" by (simp add: pool_kept_def)
    then show ?thesis using power_on_kept k(2) pool_kept_trans [OF k(1)] by blast
  next
    case REQ_POWER_ON
    then have "power_on_module on m = Some (fst x, snd x)" using h by simp
    then show ?thesis by (rule power_on_kept [OF assms(1)])
  next
    case REQ_POWER_OFF
    then have "power_off_module off [] m = Some (fst x, snd x)" using h by simp
    then show ?thesis by (rule power_off_kept [OF assms(1)])
  next
    case REQ_EVENT_NONE
    then show ?thesis using h pool_kept_refl [OF assms(1)] by auto
  qed
  obtain x where x: "event_done x = (r, m')" "pool_kept m (snd x)"
    using assms(2) one unfolding set_module_event_power_def map_option_eq_Some by blast
  have "pool_kept (snd x) (snd (event_done x))" by (rule event_done_kept) (use x(2) in \<open>simp add: pool_kept_def\<close>)
  then show ?thesis using pool_kept_trans [OF x(2)] x(1) by simp
qed

text \<open>A check uses a port between getting it and giving it back.\<close>

lemma bracket_kept:
  assumes "pool_wf m" "st_lock st = 0" "alloc_gsm_dataport st m = Some (Some i, m1)" "pool_kept m1 m2"
    "free_gsm_dataport m2 (Some i) = Some (m3, p)"
  shows "pool_kept m m3"
proof -
  have a: "acquire_port m = Some (Some i, m1)" using assms(2,3) by (simp add: alloc_acquire)
  have "release_port m2 i = Some m3" using assms(5) by (simp add: release_port_def)
  then show ?thesis
    using gprs_pool.bracket [OF assms(1) a, of m2 m3] assms(4) by (simp add: pool_kept_def)
qed

lemma alloc_none: "pool_wf m \<Longrightarrow> st_lock st = 0 \<Longrightarrow> alloc_gsm_dataport st m = Some (None, m') \<Longrightarrow> m' = m"
  by (rule gprs_pool.acquire_cases [of m]) (auto simp: alloc_acquire)

lemma alloc_wf: "pool_wf m \<Longrightarrow> st_lock st = 0 \<Longrightarrow> alloc_gsm_dataport st m = Some (Some i, m') \<Longrightarrow>
    pool_wf m' \<and> i < 4 \<and> i \<notin> ports_in_use m \<and> ports_in_use m' = insert i (ports_in_use m)"
  by (rule gprs_pool.acquire_cases [of m]) (auto simp: alloc_acquire)

lemma stage_result_fields [simp]:
  "mi_users (stage_result rv m) = mi_users m" "mi_comport_cnt (stage_result rv m) = mi_comport_cnt m"
  "mi_comport (stage_result rv m) = mi_comport m"
  by (simp_all add: stage_result_def set_module_event_def)

lemma check_stage_fields:
  assumes "check_stage c st lines m = Some (st', m')"
  shows "mi_users m' = mi_users m" "mi_comport_cnt m' = mi_comport_cnt m" "mi_comport m' = mi_comport m" "st_lock st' = st_lock st"
  using assms by (auto simp: check_stage_def split: ready_state.splits)

lemma check_ready_kept:
  assumes "pool_wf m" "st_lock st = 0" "atcmd_check_ready st lines m = Some (st', m')"
  shows "pool_kept m m' \<and> st_lock st' = 0"
proof -
  obtain i m1 where a: "alloc_gsm_dataport st m = Some (i, m1)" using assms(3) by (auto simp: atcmd_check_ready_def)
  show ?thesis
  proof (cases i)
    case None
    then show ?thesis using assms a alloc_none [OF assms(1,2)] pool_kept_refl by (auto simp: atcmd_check_ready_def)
  next
    case (Some j)
    then obtain c m2 p where m2: "check_stage c st lines m1 = Some (st', m2)" "free_gsm_dataport m2 (Some j) = Some (m', p)"
      using assms(3) a by (auto simp: atcmd_check_ready_def)
    have "pool_kept m1 m2" using alloc_wf [OF assms(1,2)] a Some check_stage_fields [OF m2(1)] by (intro pool_keptI) auto
    then show ?thesis using bracket_kept [OF assms(1,2) a [unfolded Some] _ m2(2)] check_stage_fields(4) [OF m2(1)] assms(2) by simp
  qed
qed

lemma inspect_status_kept:
  assumes "pool_wf m" "st_lock st = 0" "atcmd_inspect_status st now1 now2 lines m = Some (r, st', m')"
  shows "pool_kept m m' \<and> st_lock st' = 0"
proof (cases "st_start_time st \<noteq> 0 \<and> time_elapsed now1 (st_start_time st) < 10000")
  case True
  then show ?thesis using assms pool_kept_refl by (auto simp: atcmd_inspect_status_def)
next
  case False
  define st1 where "st1 = st\<lparr>st_start_time := now2\<rparr>"
  have l: "st_lock st1 = 0" using assms(2) by (simp add: st1_def)
  obtain i m1 where a: "alloc_gsm_dataport st1 m = Some (i, m1)" using assms(3) False by (auto simp: atcmd_inspect_status_def Let_def st1_def [symmetric])
  show ?thesis
  proof (cases i)
    case None
    then show ?thesis using assms a False alloc_none [OF assms(1) l] pool_kept_refl l
      by (auto simp: atcmd_inspect_status_def Let_def st1_def [symmetric])
  next
    case (Some j)
    then obtain sig loc p where f: "free_gsm_dataport (m1\<lparr>mi_reg := mi_reg m1\<lparr>rg_signal := sig, rg_loc := loc\<rparr>\<rparr>) (Some j) = Some (m', p)" "st' = st1"
      using assms(3) a False unfolding atcmd_inspect_status_def by (auto simp: Let_def st1_def [symmetric])
    have "pool_kept m1 (m1\<lparr>mi_reg := mi_reg m1\<lparr>rg_signal := sig, rg_loc := loc\<rparr>\<rparr>)"
      using alloc_wf [OF assms(1) l] a Some by (intro pool_keptI) auto
    then show ?thesis using bracket_kept [OF assms(1) l a [unfolded Some] _ f(1)] f(2) l by simp
  qed
qed

lemma ctrl_check_kept:
  assumes "pool_wf m" "st_lock st = 0" "ctrl_check env st m = Some (st', m')"
  shows "pool_kept m m' \<and> st_lock st' = 0"
proof (cases "ALL_READY = mi_ready m")
  case True
  then obtain r where "atcmd_inspect_status st (ce_now1 env) (ce_now2 env) (ce_lines env) m = Some (r, st', m')"
    using assms(3) by (auto simp: ctrl_check_def)
  then show ?thesis by (rule inspect_status_kept [OF assms(1,2)])
next
  case False
  show ?thesis
  proof (cases "mi_pwr_status m = 1")
    case True
    then have "atcmd_check_ready st (ce_lines env) m = Some (st', m')" using False assms(3) by (simp add: ctrl_check_def)
    then show ?thesis by (rule check_ready_kept [OF assms(1,2)])
  next
    case power: False
    then show ?thesis using False assms pool_kept_refl by (simp add: ctrl_check_def)
  qed
qed

lemma ctrl_round_kept:
  assumes "pool_wf m" "st_lock st = 0" "ct_others env = []" "ctrl_round env st m = Some (st', m')"
  shows "pool_kept m m' \<and> st_lock st' = 0"
proof -
  obtain m1 where r: "(if mi_event m \<noteq> REQ_EVENT_NONE then map_option snd (set_module_event_power (ct_off env) [] (ct_on env) m)
      else Some m) = Some m1" and c: "ctrl_check (ct_check env) st m1 = Some (st', m')"
    using assms(4) unfolding ctrl_round_def assms(3) bind_Some_iff by blast
  have k: "pool_kept m m1"
  proof (cases "mi_event m = REQ_EVENT_NONE")
    case True
    then show ?thesis using r pool_kept_refl [OF assms(1)] by simp
  next
    case False
    then obtain rv where "set_module_event_power (ct_off env) [] (ct_on env) m = Some (rv, m1)" using r by auto
    then show ?thesis by (rule set_event_power_kept [OF assms(1)])
  qed
  note m1 = k c
  then have "pool_wf m1" by (simp add: pool_kept_def)
  then show ?thesis using ctrl_check_kept [OF _ assms(2) m1(2)] pool_kept_trans [OF m1(1)] by blast
qed

lemma ctrl_resume_kept:
  assumes "pool_wf m" "st_lock st = 0" "ctrl_resume event env st m = Some (st', m')"
  shows "pool_kept m m' \<and> st_lock st' = 0"
proof -
  obtain m1 r where m1: "power_off_finish (ct_off env) m = Some m1"
    and r: "(if event = REQ_POWER_RESET then power_on_module (ct_on env) m1 else Some (0, m1)) = Some r"
    and c: "ctrl_check (ct_check env) st (snd (event_done r)) = Some (st', m')"
    using assms(3) by (auto simp: ctrl_resume_def)
  have k1: "pool_kept m m1" by (rule power_off_finish_kept [OF assms(1) m1])
  then have w1: "pool_wf m1" by (simp add: pool_kept_def)
  have k2: "pool_kept m1 (snd r)"
    using r power_on_kept [OF w1, of "ct_on env" "fst r" "snd r"] pool_kept_refl [OF w1] by (auto split: if_splits)
  have k3: "pool_kept m (snd (event_done r))"
    using pool_kept_trans [OF pool_kept_trans [OF k1 k2] event_done_kept] k2 by (simp add: pool_kept_def)
  then show ?thesis using ctrl_check_kept [OF _ assms(2) c] pool_kept_trans [OF k3] by (simp add: pool_kept_def)
qed

section \<open>What the PPP thread does to the pool\<close>

definition ppp_ports :: "ppp_ctx \<Rightarrow> nat set" where
  "ppp_ports ctx = (case pc_comport ctx of None \<Rightarrow> {} | Some i \<Rightarrow> {i})"

lemma set_ppp_disconnect_simps [simp]:
  "pc_comport (set_ppp_disconnect ctx) = pc_comport ctx" "pc_status (set_ppp_disconnect ctx) = DISCONNECT"
  "pc_dev (set_ppp_disconnect ctx) = pc_dev ctx" "pc_apn (set_ppp_disconnect ctx) = pc_apn ctx"
  "pc_fail_cnt (set_ppp_disconnect ctx) = pc_fail_cnt ctx"
  by (simp_all add: set_ppp_disconnect_def)

lemma ppp_ports_cong: "pc_comport ctx' = pc_comport ctx \<Longrightarrow> ppp_ports ctx' = ppp_ports ctx"
  by (simp add: ppp_ports_def)

lemma stop_ppp_pool:
  assumes "pool_wf m" "ports_in_use m = ppp_ports ctx" "stop_ppp_connect env ctx m = Some (r, ctx', m')"
  shows "pool_wf m' \<and> ports_in_use m' = ppp_ports ctx' \<and> pc_status ctx' = pc_status ctx"
proof -
  have "(ctx', m') = (ctx, m) \<or>
      (\<exists>i p. pc_comport ctx = Some i \<and> free_gsm_dataport m (Some i) = Some (m', p) \<and> ctx' = ctx\<lparr>pc_comport := p\<rparr>)"
    using assms(3) by (cases "pc_comport ctx") (auto simp: stop_ppp_connect_def split: if_splits)
  then show ?thesis
  proof
    assume "\<exists>i p. pc_comport ctx = Some i \<and> free_gsm_dataport m (Some i) = Some (m', p) \<and> ctx' = ctx\<lparr>pc_comport := p\<rparr>"
    then obtain i p where i: "pc_comport ctx = Some i" "free_gsm_dataport m (Some i) = Some (m', p)" "ctx' = ctx\<lparr>pc_comport := p\<rparr>" by blast
    have "i \<in> ports_in_use m" using assms(2) i(1) by (simp add: ppp_ports_def)
    then obtain m2 where "free_gsm_dataport m (Some i) = Some (m2, None)" "pool_wf m2" "ports_in_use m2 = ports_in_use m - {i}"
      using free_ok [OF assms(1), of i] by blast
    then show ?thesis using i assms(2) by (simp add: ppp_ports_def)
  qed (use assms in simp)
qed

lemma select_apn_ctx:
  "select_apn env ctx key = Some (r, ctx') \<Longrightarrow> pc_comport ctx' = pc_comport ctx \<and> pc_status ctx' = pc_status ctx"
  by (auto simp: select_apn_def split: prod.splits)

lemma dial_stage_ctx:
  "dial_stage env ctx m = Some (r, ctx', m') \<Longrightarrow>
   pc_comport ctx' = pc_comport ctx \<and> pc_status ctx' = status_next (pc_status ctx) \<and> m' = m"
  by (auto simp: dial_stage_def Let_def)

text \<open>Connecting needs a port, and keeps it whatever happens.\<close>

lemma connect_with_port:
  assumes "pc_comport ctx = Some i" "start_ppp_connect env ctx m = Some (r, ctx', m')"
  shows "pc_comport ctx' = Some i" "m' = m \<or> m' = set_module_event m REQ_POWER_RESET"
    "pc_status ctx \<noteq> CONNECTED \<Longrightarrow> pc_status ctx' \<noteq> CONNECTED"
proof -
  have "pc_comport ctx' = Some i \<and> (m' = m \<or> m' = set_module_event m REQ_POWER_RESET) \<and>
      (pc_status ctx \<noteq> CONNECTED \<longrightarrow> pc_status ctx' \<noteq> CONNECTED)"
  proof (cases "pc_status ctx")
    case DISCONNECT
    then obtain key rv ctx1 where s: "select_apn (cn_apn env) (set_ppp_disconnect ctx) key = Some (rv, ctx1)"
      and r: "(if rv = 0 then dial_stage env (ctx1\<lparr>pc_fail_cnt := 0, pc_status := status_next (pc_status ctx1)\<rparr>) m
         else Some (0, ctx1\<lparr>pc_fail_cnt := pc_fail_cnt ctx1 + 1\<rparr>, set_module_event m REQ_POWER_RESET)) = Some (r, ctx', m')"
      using assms by (auto simp: start_ppp_connect_def Let_def)
    have c: "pc_comport ctx1 = Some i" "pc_status ctx1 = DISCONNECT" using select_apn_ctx [OF s] assms(1) by simp_all
    show ?thesis
    proof (cases "rv = 0")
      case True
      then show ?thesis using r c dial_stage_ctx [of env "ctx1\<lparr>pc_fail_cnt := 0, pc_status := status_next (pc_status ctx1)\<rparr>" m r ctx' m'] by simp
    next
      case False
      then show ?thesis using r c by auto
    qed
  next
    case SELECTED_APN
    then show ?thesis using assms dial_stage_ctx [of env ctx m r ctx' m'] by (simp add: start_ppp_connect_def)
  qed (use assms in \<open>auto simp: start_ppp_connect_def\<close>)
  then show "pc_comport ctx' = Some i" "m' = m \<or> m' = set_module_event m REQ_POWER_RESET"
    "pc_status ctx \<noteq> CONNECTED \<Longrightarrow> pc_status ctx' \<noteq> CONNECTED" by auto
qed

lemma set_event_pool: "pool_wf m \<Longrightarrow> pool_kept m (set_module_event m e)"
  by (rule pool_keptI) (simp_all add: set_module_event_def)

lemma start_ppp_pool:
  assumes "pool_wf m" "ports_in_use m = ppp_ports ctx" "st_lock (cn_static env) = 0" "pc_status ctx \<noteq> CONNECTED"
    "start_ppp_connect env ctx m = Some (r, ctx', m')"
  shows "pool_wf m' \<and> ports_in_use m' = ppp_ports ctx' \<and> pc_status ctx' \<noteq> CONNECTED"
proof -
  have holding: "pool_wf m' \<and> ports_in_use m' = ppp_ports ctx' \<and> pc_status ctx' \<noteq> CONNECTED"
    if "pool_wf m1" "ports_in_use m1 = {i}" "pc_comport ctx1 = Some i" "pc_status ctx1 \<noteq> CONNECTED"
      "start_ppp_connect env ctx1 m1 = Some (r, ctx', m')" for m1 ctx1 i
  proof -
    note h = connect_with_port [OF that(3,5)]
    have "pool_kept m1 m'" using h(2) pool_kept_refl [OF that(1)] set_event_pool [OF that(1)] by auto
    then show ?thesis using h(1,3) that(2,4) by (simp add: pool_kept_def ppp_ports_def)
  qed
  show ?thesis
  proof (cases "pc_comport ctx")
    case (Some i)
    then show ?thesis using holding [OF assms(1) _ Some assms(4,5)] assms(2) by (simp add: ppp_ports_def)
  next
    case None
    then obtain p m1 where a: "alloc_gsm_dataport (cn_static env) m = Some (p, m1)" using assms(5) by (auto simp: start_ppp_connect_def)
    show ?thesis
    proof (cases p)
      case None': None
      then show ?thesis using assms a None alloc_none [OF assms(1,3)] by (auto simp: start_ppp_connect_def ppp_ports_def)
    next
      case (Some i)
      have w: "pool_wf m1" "ports_in_use m1 = {i}" using alloc_wf [OF assms(1,3)] a Some assms(2) None by (auto simp: ppp_ports_def)
      have "start_ppp_connect env (ctx\<lparr>pc_comport := Some i\<rparr>) m1 = Some (r, ctx', m')"
        using assms(5) a None Some by (simp add: start_ppp_connect_def)
      then show ?thesis using holding [OF w, of "ctx\<lparr>pc_comport := Some i\<rparr>"] assms(4) by simp
    qed
  qed
qed

lemma watch_dialing_ctx:
  "watch_dialing env ctx m = Some ctx' \<Longrightarrow> pc_status ctx \<noteq> CONNECTED \<Longrightarrow> pc_comport ctx' = pc_comport ctx \<and> pc_status ctx' \<noteq> CONNECTED"
  by (auto simp: watch_dialing_def Let_def split: if_splits)

lemma watch_network_ctx:
  "watch_network env tx rx ctx = Some ctx' \<Longrightarrow> pc_status ctx \<noteq> CONNECTED \<Longrightarrow> pc_comport ctx' = pc_comport ctx \<and> pc_status ctx' \<noteq> CONNECTED"
  by (auto simp: watch_network_def Let_def split: if_splits prod.splits)

lemma inspect_network_ctx:
  "inspect_network_status env ctx m = Some ctx' \<Longrightarrow> pc_status ctx \<noteq> CONNECTED \<Longrightarrow>
   pc_comport ctx' = pc_comport ctx \<and> pc_status ctx' \<noteq> CONNECTED"
  unfolding inspect_network_status_def
  by (auto dest!: watch_dialing_ctx watch_network_ctx)

lemma ppp_round_pool:
  assumes "pool_wf m" "ports_in_use m = ppp_ports ctx" "st_lock (cn_static (pe_conn env)) = 0" "pc_status ctx \<noteq> CONNECTED"
    "ppp_round env ctx m = Some (ctx', m')"
  shows "pool_wf m' \<and> ports_in_use m' = ppp_ports ctx' \<and> pc_status ctx' \<noteq> CONNECTED"
proof (cases "mi_ready m = ALL_READY")
  case True
  show ?thesis
  proof (cases "pc_status ctx \<in> {CONNECTING, CONNECTED}")
    case c: True
    then have i: "inspect_network_status (pe_watch env) ctx m = Some ctx'" "m' = m"
      using assms(5) True by (auto simp: ppp_round_def)
    then show ?thesis using inspect_network_ctx [OF i(1) assms(4)] assms ppp_ports_cong [of ctx' ctx] by simp
  next
    case False
    then obtain r where "start_ppp_connect (pe_conn env) ctx m = Some (r, ctx', m')"
      using assms(5) True by (auto simp: ppp_round_def)
    then show ?thesis by (rule start_ppp_pool [OF assms(1-4)])
  qed
next
  case False
  show ?thesis
  proof (cases "pc_status ctx \<in> {CONNECTING, CONNECTED}")
    case True
    then obtain r where "stop_ppp_connect (pe_stop env) ctx m = Some (r, ctx', m')" using assms(5) False by (auto simp: ppp_round_def)
    then show ?thesis using stop_ppp_pool [OF assms(1,2)] assms(4) by metis
  next
    case c: False
    then show ?thesis using assms False by (auto simp: ppp_round_def)
  qed
qed

section \<open>The invariant of the system\<close>

definition gprs_inv :: "gprs_sys \<Rightarrow> bool" where
  "gprs_inv s \<longleftrightarrow> pool_wf (gs_module s) \<and> ports_in_use (gs_module s) = ppp_ports (gs_ppp s) \<and> st_lock (gs_static s) = 0 \<and>
     pc_status (gs_ppp s) \<noteq> CONNECTED"

lemma gprs_step_inv: "gprs_step s s' \<Longrightarrow> gprs_inv s \<Longrightarrow> gprs_inv s'"
proof (induction rule: gprs_step.induct)
  case (ctrl_round_step s env st m)
  then show ?case using ctrl_round_kept [of "gs_module s" "gs_static s" env st m] by (simp add: gprs_inv_def pool_kept_def)
next
  case (ctrl_wait_step s off)
  then show ?case using power_off_test_kept [of "gs_module s" off] by (simp add: gprs_inv_def pool_kept_def)
next
  case (ctrl_resume_step s event env st m)
  then show ?case using ctrl_resume_kept [of "gs_module s" "gs_static s" event env st m] by (simp add: gprs_inv_def pool_kept_def)
next
  case (ctrl_term_step s off r m)
  then show ?case using power_off_kept [of "gs_module s" off r m] by (simp add: gprs_inv_def pool_kept_def)
next
  case (ctrl_term_wait_step s off)
  then show ?case using power_off_test_kept [of "gs_module s" off] by (simp add: gprs_inv_def pool_kept_def)
next
  case (ctrl_term_resume_step s off m)
  then show ?case using power_off_finish_kept [of "gs_module s" off m] by (simp add: gprs_inv_def pool_kept_def)
next
  case (ppp_round_step s penv ctx m)
  then show ?case using ppp_round_pool [of "gs_module s" "gs_ppp s" penv ctx m] by (simp add: gprs_inv_def)
next
  case (ppp_end_step s senv ctx m)
  then obtain r ctx1 where c: "stop_ppp_connect senv (gs_ppp s) (gs_module s) = Some (r, ctx1, m)" "ctx = set_ppp_disconnect ctx1"
    by (auto simp: ppp_context_term_def)
  then show ?case using stop_ppp_pool [OF _ _ c(1)] ppp_end_step(4) ppp_ports_cong [of ctx ctx1] by (simp add: gprs_inv_def)
qed (simp add: gprs_inv_def)

text \<open>A wait of the control thread while the PPP thread holds a port and the module is in the state in which that thread works: no
  step but the stop changes it.\<close>

definition stuck_wait :: "req_event \<Rightarrow> nat \<Rightarrow> gprs_sys \<Rightarrow> bool" where
  "stuck_wait event i s \<longleftrightarrow> gprs_inv s \<and> gs_ctrl s = CtrlWait event \<and> mi_ready (gs_module s) = ALL_READY \<and> pc_comport (gs_ppp s) = Some i"

lemma held_users: "gprs_inv s \<Longrightarrow> pc_comport (gs_ppp s) = Some i \<Longrightarrow> mi_users (gs_module s) = 1"
  by (simp add: gprs_inv_def pool_wf_def ppp_ports_def)

lemma ready_round_holds:
  assumes "mi_ready m = ALL_READY" "pc_comport ctx = Some i" "pc_status ctx \<noteq> CONNECTED" "ppp_round env ctx m = Some (ctx', m')"
  shows "pc_comport ctx' = Some i \<and> mi_ready m' = ALL_READY"
proof (cases "pc_status ctx \<in> {CONNECTING, CONNECTED}")
  case True
  then have "inspect_network_status (pe_watch env) ctx m = Some ctx'" "m' = m" using assms(1,4) by (auto simp: ppp_round_def)
  then show ?thesis using inspect_network_ctx assms(1-3) by simp
next
  case False
  then obtain r where c: "start_ppp_connect (pe_conn env) ctx m = Some (r, ctx', m')" using assms(1,4) by (auto simp: ppp_round_def)
  show ?thesis using connect_with_port(1,2) [OF assms(2) c] assms(1) by (auto simp: set_module_event_def)
qed

lemma stuck_step:
  assumes "gprs_step s s'" "stuck_wait event i s" "\<not> gs_stop s'"
  shows "stuck_wait event i s'"
proof -
  have inv: "gprs_inv s'" using gprs_step_inv [OF assms(1)] assms(2) by (simp add: stuck_wait_def)
  have users: "mi_users (gs_module s) = 1" using assms(2) held_users by (auto simp: stuck_wait_def)
  show ?thesis using assms(1)
  proof cases
    case (ppp_round_step penv ctx m)
    then show ?thesis using inv assms(2) ready_round_holds [of "gs_module s" "gs_ppp s" i penv ctx m] by (simp add: stuck_wait_def gprs_inv_def)
  qed (use assms(2,3) users in \<open>auto simp: stuck_wait_def\<close>)
qed

lemma stop_stays: "gprs_step s s' \<Longrightarrow> gs_stop s \<Longrightarrow> gs_stop s'"
  by (induction rule: gprs_step.induct) auto

lemma stuck_steps:
  "gprs_steps s s' \<Longrightarrow> stuck_wait event i s \<Longrightarrow> \<not> gs_stop s' \<Longrightarrow> stuck_wait event i s'"
proof (induction rule: gprs_steps.induct)
  case (step s s' s'')
  then show ?case using stuck_step stop_stays by metis
qed

end
