(* ===== verification/GprsDemo.thy ===== *)
theory GprsDemo
  imports GprsReady GprsThreads
begin

text \<open>
  A modem that registers in its network, and the run of the threads on it. The properties of the GPRS module that need one are here.
\<close>

section \<open>Replies\<close>

lemma check_value_value:
  assumes "modem_answers cp cmd OK_REPLY ERROR_REPLY timeout line ys" "is_substring OK_REPLY ys"
    "ys = pre @ nl # val @ cr # post" "nl \<notin> set pre" "cr \<notin> set val" "length ys < ATCMD_REPLY_LEN"
    "length val < n" "n \<le> length buf"
  shows "\<exists>buf'. send_atcmd_check_value cp cmd timeout (Some buf) n line = Some (if val = [] then - 3 else 0, Some buf') \<and> cstr buf' = val"
proof -
  have nul: "NUL \<notin> set ys" using assms(1) by (simp add: modem_answers_def)
  define tl where "tl = replicate (ATCMD_REPLY_LEN - length ys) NUL"
  have t: "take ATCMD_REPLY_LEN (ys @ replicate ATCMD_REPLY_LEN NUL) = ys @ tl" using assms(6) by (simp add: tl_def)
  have s: "send_atcmd cp cmd (Some OK_REPLY) (Some ERROR_REPLY) timeout (Some (replicate ATCMD_REPLY_LEN NUL)) ATCMD_REPLY_LEN line =
      Some (0, Some (ys @ tl))"
    using send_atcmd_answer(2) [OF assms(1), of ATCMD_REPLY_LEN "replicate ATCMD_REPLY_LEN NUL"] assms(2) t by simp
  have f: "c_strchr (ys @ tl) nl 0 = Some (Some (length pre))"
    using strchr_found [of nl pre "[]"] assms(3,4) nul by simp
  obtain buf' where b: "store_value ((pre @ [nl]) @ val @ cr # (post @ tl)) (Some (length (pre @ [nl]))) buf n =
      Some (if val = [] then - 3 else 0, buf')" "cstr buf' = val"
    using store_value_all [of val n buf "pre @ [nl]" "post @ tl"] assms(3,5,7,8) nul by auto
  have "ys @ tl = (pre @ [nl]) @ val @ cr # (post @ tl)" "length pre + 1 = length (pre @ [nl])" using assms(3) by simp_all
  then show ?thesis using s f b by (simp add: send_atcmd_check_value_def)
qed

text \<open>A reply of one line, and the line of a port on which it arrives.\<close>

definition reply_text :: "string \<Rightarrow> string" where
  "reply_text s = [cr, nl] @ s @ [cr, nl, cr, nl] @ OK_REPLY"

definition text_ok :: "string \<Rightarrow> bool" where
  "text_ok s \<longleftrightarrow> NUL \<notin> set (reply_text s) \<and> length (reply_text s) < ATCMD_REPLY_LEN \<and> is_substring OK_REPLY (reply_text s) \<and>
     completes OK_REPLY ERROR_REPLY (reply_text s)"

definition live_port :: "com_port \<Rightarrow> bool" where
  "live_port c \<longleftrightarrow> is_connted c = 1 \<and> frag_size c = 128"

lemma live_answers:
  assumes "live_port c" "length cmd = n" "0 < n" "n \<le> 128" "0 < timeout" "NUL \<notin> set ys" "completes OK_REPLY ERROR_REPLY ys" "ys \<noteq> []"
    "length ys < 1024"
  shows "modem_answers c cmd OK_REPLY ERROR_REPLY timeout (demo_line n ys) ys"
  unfolding assms(2) [symmetric] using assms by (intro demo_answers at_patterns) (simp_all add: live_port_def)

lemma live_ok:
  assumes "live_port c" "length cmd = n" "0 < n" "n \<le> 128" "0 < timeout"
  shows "send_atcmd_check_ok c cmd timeout (demo_line n OK_REPLY) = Some 0"
  using send_atcmd_answer(1) [OF live_answers [OF assms, of OK_REPLY]] demo_replies(1,2,5) by (simp add: send_atcmd_check_ok_def)

lemma text_answers:
  assumes "live_port c" "length cmd + 1 = n" "n \<le> 128" "0 < timeout" "text_ok s"
  shows "modem_answers c (at_cmd cmd) OK_REPLY ERROR_REPLY timeout (demo_line n (reply_text s)) (reply_text s)"
  using assms by (intro live_answers) (auto simp: text_ok_def at_cmd_def reply_text_def ATCMD_REPLY_LEN_def)

lemma live_request:
  assumes "live_port c" "length cmd + 1 = n" "n \<le> 128" "0 < timeout" "text_ok (pre @ CHR '':'' # x # val)"
    "CHR '':'' \<notin> set pre" "cr \<notin> set val" "val \<noteq> []"
  shows "request c cmd timeout (demo_line n (reply_text (pre @ CHR '':'' # x # val))) = Some (0, val)"
proof -
  have "reply_text (pre @ CHR '':'' # x # val) = ([cr, nl] @ pre) @ CHR '':'' # x # val @ cr # ([nl, cr, nl] @ OK_REPLY)"
    by (simp add: reply_text_def)
  then show ?thesis
    using request_value [OF text_answers [OF assms(1-5)], of "[cr, nl] @ pre" x val "[nl, cr, nl] @ OK_REPLY"] assms(5-8)
    by (simp add: text_ok_def)
qed

lemma live_value:
  assumes "live_port c" "length cmd + 1 = n" "n \<le> 128" "0 < timeout" "text_ok val" "cr \<notin> set val" "val \<noteq> []"
  shows "value_of c cmd timeout (demo_line n (reply_text val)) = Some (0, val)"
proof -
  have r: "reply_text val = [cr] @ nl # val @ cr # ([nl, cr, nl] @ OK_REPLY)" by (simp add: reply_text_def)
  have l: "length (reply_text val) < ATCMD_REPLY_LEN" "is_substring OK_REPLY (reply_text val)" using assms(5) by (simp_all add: text_ok_def)
  have "length val < ATCMD_REPLY_LEN" using l(1) by (simp add: reply_text_def)
  then show ?thesis
    using check_value_value [OF text_answers [OF assms(1-5)] l(2) r _ assms(6) l(1), of ATCMD_REPLY_LEN "replicate ATCMD_REPLY_LEN NUL"] assms(7)
    by (auto simp: value_of_def)
qed

section \<open>The lines of a registration\<close>

definition cpin_text :: string where "cpin_text = ''+CPIN: READY''"
definition cgmm_text :: string where "cgmm_text = ''SIM900''"
definition cgmr_text :: string where "cgmr_text = ''+CGMR: B01''"
definition cgsn_text :: string where "cgsn_text = ''861''"
definition csq_text :: string where "csq_text = ''+CSQ: 24,0''"
definition creg_text :: string where "creg_text = ''+CREG: 0,1''"
definition cops_text :: string where "cops_text = ''+COPS: 0,0,CMCC,7''"

lemma texts_ok: "text_ok cpin_text" "text_ok cgmm_text" "text_ok cgmr_text" "text_ok cgsn_text" "text_ok csq_text" "text_ok creg_text"
  "text_ok cops_text"
  unfolding text_ok_def completes_check by code_simp+

definition lines_1 :: "at_line list" where "lines_1 = [demo_line 5 OK_REPLY, demo_line 9 (reply_text cpin_text)]"
definition lines_2 :: "at_line list" where
  "lines_2 = [demo_line 8 (reply_text cgmm_text), demo_line 8 (reply_text cgmr_text), demo_line 8 (reply_text cgsn_text)]"
definition lines_3 :: "at_line list" where
  "lines_3 = [demo_line 7 (reply_text csq_text), demo_line 9 (reply_text creg_text), demo_line 9 (reply_text cops_text),
     demo_line 10 OK_REPLY, demo_line 9 qeng_reply]"

definition demo_hw :: hw_info where
  "demo_hw = \<lparr>hw_model = cgmm_text @ replicate 58 NUL, hw_mrev = ''B01'' @ replicate 61 NUL, hw_iemi = cgsn_text @ replicate 61 NUL\<rparr>"

lemma demo_values:
  assumes "live_port c"
  shows "request c ''AT+CPIN?'' 800 (demo_line 9 (reply_text cpin_text)) = Some (0, ''READY'')"
    "value_of c ''AT+CGMM'' 5000 (demo_line 8 (reply_text cgmm_text)) = Some (0, cgmm_text)"
    "request c ''AT+CGMR'' 5000 (demo_line 8 (reply_text cgmr_text)) = Some (0, ''B01'')"
    "value_of c ''AT+CGSN'' 5000 (demo_line 8 (reply_text cgsn_text)) = Some (0, cgsn_text)"
    "request c ''AT+CSQ'' 3000 (demo_line 7 (reply_text csq_text)) = Some (0, ''24,0'')"
    "request c ''AT+CREG?'' 3000 (demo_line 9 (reply_text creg_text)) = Some (0, ''0,1'')"
    "request c ''AT+COPS?'' 5000 (demo_line 9 (reply_text cops_text)) = Some (0, ''0,0,CMCC,7'')"
proof -
  note r = live_request [OF assms, where x = "CHR '' ''"]
  show "request c ''AT+CPIN?'' 800 (demo_line 9 (reply_text cpin_text)) = Some (0, ''READY'')"
    using r [of "''AT+CPIN?''" 9 800 "''+CPIN''" "''READY''"] texts_ok(1) by (simp add: cpin_text_def)
  show "value_of c ''AT+CGMM'' 5000 (demo_line 8 (reply_text cgmm_text)) = Some (0, cgmm_text)"
    using texts_ok(2) by (intro live_value [OF assms]) (simp_all add: cgmm_text_def)
  show "request c ''AT+CGMR'' 5000 (demo_line 8 (reply_text cgmr_text)) = Some (0, ''B01'')"
    using r [of "''AT+CGMR''" 8 5000 "''+CGMR''" "''B01''"] texts_ok(3) by (simp add: cgmr_text_def)
  show "value_of c ''AT+CGSN'' 5000 (demo_line 8 (reply_text cgsn_text)) = Some (0, cgsn_text)"
    using texts_ok(4) by (intro live_value [OF assms]) (simp_all add: cgsn_text_def)
  show "request c ''AT+CSQ'' 3000 (demo_line 7 (reply_text csq_text)) = Some (0, ''24,0'')"
    using r [of "''AT+CSQ''" 7 3000 "''+CSQ''" "''24,0''"] texts_ok(5) by (simp add: csq_text_def)
  show "request c ''AT+CREG?'' 3000 (demo_line 9 (reply_text creg_text)) = Some (0, ''0,1'')"
    using r [of "''AT+CREG?''" 9 3000 "''+CREG''" "''0,1''"] texts_ok(6) by (simp add: creg_text_def)
  show "request c ''AT+COPS?'' 5000 (demo_line 9 (reply_text cops_text)) = Some (0, ''0,0,CMCC,7'')"
    using r [of "''AT+COPS?''" 9 5000 "''+COPS''" "''0,0,CMCC,7''"] texts_ok(7) by (simp add: cops_text_def)
qed

lemma demo_fields:
  "split_string_to_value ''24,0'' ''%d,%d'' [True, False] = Some [Some (VInt 24), None]"
  "split_string_to_value ''0,1'' ''%d,%d'' [False, True] = Some [None, Some (VInt 1)]"
  "split_string_to_value ''0,0,CMCC,7'' ''%d,%d,%s,%d'' [False, False, True, False] = Some [None, None, Some (VString ''CMCC''), None]"
  "is_substring ''READY'' ''READY''"
  "store_str (replicate 64 NUL) (Some ''CMCC'') = Some (''CMCC'' @ replicate 60 NUL)"
  "store_str (replicate 16 NUL) (Some ''460-00'') = Some (''460-00'' @ replicate 10 NUL)"
  "del_char_from_string (''CMCC'' @ replicate 60 NUL) CHR 0x22 = Some (''CMCC'' @ replicate 60 NUL)"
  by code_simp+

lemma demo_mcc:
  assumes "live_port c"
  shows "atcmd_check_gprs_mcc_mnc c (replicate 16 NUL) (demo_line 10 OK_REPLY) (demo_line 9 qeng_reply) = Some (0, ''460-00'' @ replicate 10 NUL)"
proof -
  have s1: "send_atcmd_check_ok c (at_cmd ''AT+QENG=1'') 1000 (demo_line 10 OK_REPLY) = Some 0"
    by (rule live_ok [OF assms]) (simp_all add: at_cmd_def)
  have a2: "modem_answers c (at_cmd ''AT+QENG?'') OK_REPLY ERROR_REPLY 5000 (demo_line 9 qeng_reply) qeng_reply"
    using demo_replies(3,6) by (intro live_answers [OF assms]) (simp_all add: at_cmd_def)
  have len: "length qeng_reply < ATCMD_REPLY_LEN"
    by (simp add: qeng_reply_def OK_REPLY_def ATCMD_REPLY_LEN_def)
  have s2: "send_atcmd c (at_cmd ''AT+QENG?'') (Some OK_REPLY) (Some ERROR_REPLY) 5000
      (Some (replicate ATCMD_REPLY_LEN NUL)) ATCMD_REPLY_LEN (demo_line 9 qeng_reply) = Some (0, Some (padded ATCMD_REPLY_LEN qeng_reply))"
    using send_atcmd_answer(2) [OF a2, of ATCMD_REPLY_LEN "replicate ATCMD_REPLY_LEN NUL"] demo_replies(4) len
    by (simp add: padded_def)
  have recv: "cstr (padded ATCMD_REPLY_LEN qeng_reply) = qeng_reply" "NUL \<in> set (padded ATCMD_REPLY_LEN qeng_reply)"
    using demo_replies(6) len by (simp_all add: cstr_padded) (simp add: padded_def)
  show ?thesis
    using s1 s2 recv qeng_split demo_fields(6)
    by (simp add: atcmd_check_gprs_mcc_mnc_def split_int_def split_str_def) (simp add: store_str_def wr_slice_def)
qed

definition demo_reg :: register_info where
  "demo_reg = zero_reg\<lparr>rg_type := 1, rg_signal := 24, rg_carrier := ''CMCC'' @ replicate 60 NUL,
     rg_loc := (rg_loc zero_reg)\<lparr>loc_mcc_mnc := ''460-00'' @ replicate 10 NUL\<rparr>\<rparr>"

lemma demo_stages:
  assumes "live_port c"
  shows "stages_pass c lines_1 lines_2 demo_hw lines_3 demo_reg"
proof -
  note v = demo_values [OF assms]
  have "atcmd_check_at_ready c (lines_1 ! 0) = Some 0"
    by (simp add: lines_1_def atcmd_check_at_ready_def live_ok [OF assms] at_cmd_def)
  moreover have "atcmd_check_sim_valid c (lines_1 ! 1) = Some 0"
    using v(1) demo_fields(4) by (simp add: lines_1_def atcmd_check_sim_valid_def)
  moreover have "hwinfo_queries c zero_hw lines_2 = Some (0, demo_hw)"
    using v(2-4) by (simp add: lines_2_def hwinfo_queries_def atcmd_check_gprs_name_def atcmd_check_gprs_version_def atcmd_check_gprs_iemi_def
        check_string_def zero_hw_def store_str_def wr_slice_def demo_hw_def)
      (simp add: cgmm_text_def cgsn_text_def eval_nat_numeral)
  moreover have "regist_queries c zero_reg lines_3 = Some (0, demo_reg)"
  proof -
    have "atcmd_check_gprs_signal c (lines_3 ! 0) = Some 24" "atcmd_check_gprs_register c (lines_3 ! 1) = Some 1"
      using v(5,6) demo_fields(1,2) by (simp_all add: lines_3_def atcmd_check_gprs_signal_def atcmd_check_gprs_register_def split_int_def)
    moreover have "atcmd_check_gprs_carrier c (Some (replicate 64 NUL)) (lines_3 ! 2) = Some (0, Some (''CMCC'' @ replicate 60 NUL))"
      using v(7) demo_fields(3,5,7) by (simp add: lines_3_def atcmd_check_gprs_carrier_def split_str_def)
    moreover have "atcmd_check_gprs_mcc_mnc c (replicate 16 NUL) (lines_3 ! 3) (lines_3 ! 4) = Some (0, ''460-00'' @ replicate 10 NUL)"
      using demo_mcc [OF assms] by (simp add: lines_3_def)
    moreover have "length lines_3 = 5" by (simp add: lines_3_def)
    ultimately show ?thesis by (simp add: regist_queries_def zero_reg_def demo_reg_def)
  qed
  ultimately show ?thesis by (simp add: stages_pass_def lines_1_def)
qed

end
