(* ===== verification/GprsSystem.thy ===== *)
theory GprsSystem
  imports GprsDemo
begin

text \<open>
  What holds of the GPRS module with its two threads: how it comes up, when a reset is asked for, what its users count, and the two
  places where the threads get in each other's way.
\<close>

section \<open>Runs\<close>

lemma gprs_steps_trans: "gprs_steps b c \<Longrightarrow> gprs_steps a b \<Longrightarrow> gprs_steps a c"
  by (induction rule: gprs_steps.induct) (auto intro: gprs_steps.step)

lemma ctrl_rounds_steps:
  "ctrl_rounds envs (gs_static s, gs_module s) = Some (st, m) \<Longrightarrow> \<forall>env\<in>set envs. ct_others env = [] \<Longrightarrow> gs_ctrl s = CtrlLoop \<Longrightarrow>
   \<not> gs_stop s \<Longrightarrow> gprs_steps s (s\<lparr>gs_static := st, gs_module := m\<rparr>)"
proof (induction envs arbitrary: s)
  case Nil
  then show ?case by (cases s) (auto intro: gprs_steps.refl)
next
  case (Cons env envs)
  obtain st1 m1 where r: "ctrl_round env (gs_static s) (gs_module s) = Some (st1, m1)" "ctrl_rounds envs (st1, m1) = Some (st, m)"
    using Cons.prems(1) by auto
  let ?s = "s\<lparr>gs_static := st1, gs_module := m1\<rparr>"
  have "gprs_steps s ?s"
    by (rule gprs_steps.step [OF gprs_steps.refl ctrl_round_step]) (use Cons.prems r in auto)
  moreover have "gprs_steps ?s (?s\<lparr>gs_static := st, gs_module := m\<rparr>)" by (rule Cons.IH) (use Cons.prems r in auto)
  ultimately show ?case using gprs_steps_trans by fastforce
qed

lemma gprs_start_inv: "gprs_start s \<Longrightarrow> gprs_inv s"
proof -
  assume s: "gprs_start s"
  then have m: "gs_module s = gsm_module0" using init_gsm_module_ports by (auto simp: gprs_start_def split: if_splits)
  have "ppp_context_init = Some x \<Longrightarrow> pc_comport x = None \<and> pc_status x = DISCONNECT" for x
    by (auto simp: ppp_context_init_def)
  then have "pc_comport (gs_ppp s) = None \<and> pc_status (gs_ppp s) = DISCONNECT" using s by (simp add: gprs_start_def)
  then show ?thesis using s m gsm_module0_pool by (simp add: gprs_inv_def gprs_start_def ppp_ports_def st_unlocked_def)
qed

lemma gprs_steps_inv: "gprs_steps s s' \<Longrightarrow> gprs_inv s \<Longrightarrow> gprs_inv s'"
  by (induction rule: gprs_steps.induct) (auto intro: gprs_step_inv)

lemma gsm_module0_ports: "\<forall>p\<in>set (mi_comport gsm_module0). tty_port p" "tty_port (Some (fresh_port ''/dev/ttyS2''))"
proof -
  have "tty_port (Some (fresh_port (gsm_tty i)))" if "i < 4" for i
  proof -
    have "i = 0 \<or> i = Suc 0 \<or> i = 2 \<or> i = 3" using that by arith
    then have "is_substring ''tty'' (gsm_tty i)" "NUL \<notin> set (gsm_tty i)" "length (gsm_tty i) = 12"
      by (elim disjE; simp add: gsm_tty_names NUL_def)+
    then show ?thesis using cstr_append_NUL [of "gsm_tty i"]
      by (simp add: tty_port_def fresh_port_def DEVNAME_LEN_def eval_nat_numeral)
  qed
  then show "\<forall>p\<in>set (mi_comport gsm_module0). tty_port p" by (auto simp: gsm_module0_def)
  show "tty_port (Some (fresh_port ''/dev/ttyS2''))"
    using cstr_append_NUL [of "''/dev/ttyS2''"] by (simp add: tty_port_def fresh_port_def DEVNAME_LEN_def eval_nat_numeral NUL_def)
qed

section \<open>A run\<close>

definition good_sys :: "int \<Rightarrow> open_results" where
  "good_sys fd = \<lparr>sys_open = fd, sys_fcntl = True, sys_tcflush = True, sys_tcgetattr = True, sys_tcsetattr = True\<rparr>"

definition good_on :: power_env where
  "good_on = \<lparr>pe_power = \<lparr>dc_open = 3, dc_ioctl = 0\<rparr>, pe_turn = \<lparr>dc_open = 3, dc_ioctl = 0\<rparr>, pe_turned = \<lparr>dc_open = 3, dc_ioctl = 1\<rparr>,
     pe_open = good_sys 4, pe_ready = [demo_line 5 OK_REPLY], pe_mux = demo_line 10 OK_REPLY, pe_ldisc = 0,
     pe_ports = [good_sys 5, good_sys 6, good_sys 7, good_sys 8], pe_end = \<lparr>dc_open = 3, dc_ioctl = 1\<rparr>\<rparr>"

definition reads :: "int \<Rightarrow> off_env" where
  "reads level = \<lparr>oe_power = \<lparr>dc_open = 3, dc_ioctl = level\<rparr>, oe_turn = \<lparr>dc_open = 3, dc_ioctl = 0\<rparr>, oe_end = \<lparr>dc_open = 3, dc_ioctl = 0\<rparr>\<rparr>"

definition round_env :: "at_line list \<Rightarrow> ctrl_env" where
  "round_env lines = \<lparr>ct_off = reads 0, ct_others = [], ct_on = good_on, ct_check = \<lparr>ce_now1 = 0, ce_now2 = 1, ce_lines = lines\<rparr>\<rparr>"

lemma live_fresh: "live_port (opened sys (fresh_port name))" "live_port c \<Longrightarrow> live_port (c\<lparr>cp_used := u\<rparr>)"
  by (simp_all add: live_port_def opened_def fresh_port_def)

lemma good_comes_on: "comes_on good_on (fresh_port name)"
proof -
  have "send_atcmd_check_ok (opened (good_sys 4) (fresh_port name)) (at_cmd ''ATE0'') 500 (demo_line 5 OK_REPLY) = Some 0"
    by (rule live_ok [OF live_fresh(1)]) (simp_all add: at_cmd_def)
  moreover have "send_atcmd_check_ok (opened (good_sys 4) (fresh_port name)) (at_cmd ''AT+CMUX=0'') 3000 (demo_line 10 OK_REPLY) = Some 0"
    by (rule live_ok [OF live_fresh(1)]) (simp_all add: at_cmd_def)
  ultimately show ?thesis
    by (simp add: comes_on_def good_on_def hal_get_gprs_power_def answers_on_def sys_good_def good_sys_def attach_gsm0710_def
        atcmd_check_power_on_def atcmd_check_at_ready_def eval_nat_numeral)
qed

lemma demo_stages_port:
  "stages_pass ((opened (pe_ports good_on ! 0) (fresh_port (gsm_tty 0)))\<lparr>cp_used := YES\<rparr>) lines_1 lines_2 demo_hw lines_3 demo_reg"
  by (rule demo_stages) (simp add: live_fresh)

section \<open>Properties\<close>

text \<open>C7. After the initialisation, with the module off, three rounds of the control thread switch it on, open all ports and take
  it through its stages to the ready state, with what the queries found; all ports are free again.\<close>

theorem gprs_comes_up:
  assumes "init_gsm_module True ok = Some (0, m)" "reads_off (ct_off e1)" "comes_on (ct_on e1) (fresh_port ''/dev/ttyS2'')"
    "stages_pass ((opened (pe_ports (ct_on e1) ! 0) (fresh_port (gsm_tty 0)))\<lparr>cp_used := 1\<rparr>)
       (ce_lines (ct_check e1)) (ce_lines (ct_check e2)) hw (ce_lines (ct_check e3)) reg"
  shows "\<exists>st m'. ctrl_rounds [e1, e2, e3] (st_unlocked, m) = Some (st, m') \<and> mi_ready m' = ALL_READY \<and> mi_event m' = REQ_EVENT_NONE \<and>
    mi_hw m' = hw \<and> mi_reg m' = reg \<and> mi_users m' = 0 \<and>
    length (mi_comport m') = 4 \<and> (\<forall>p\<in>set (mi_comport m'). \<exists>c. p = Some c \<and> is_connted c = 1 \<and> cp_used c = 0)"
proof -
  have m: "m = gsm_module0" using assms(1) init_gsm_module_ports by (auto split: if_splits)
  note pool = gsm_module0_pool and ports = gsm_module0_ports
  have c: "mi_comport m ! 0 = Some (fresh_port (gsm_tty 0))" "mi_gsmport m = Some (fresh_port ''/dev/ttyS2'')"
    "mi_event m = REQ_POWER_RESET" "mi_hw m = zero_hw" "mi_users m = 0" by (simp_all add: m gsm_module0_def)
  have st: "st_lock st_unlocked = 0" by (simp add: st_unlocked_def)
  let ?ports = "map2 (\<lambda>s p. map_option (opened s) p) (pe_ports (ct_on e1)) (mi_comport m)"
  have len: "length (pe_ports (ct_on e1)) = 4" using assms(3) by (simp add: comes_on_def)
  have p: "\<forall>p\<in>set ?ports. \<exists>c. p = Some c \<and> is_connted c = 1 \<and> cp_used c = 0" "length ?ports = 4"
    using len by (auto simp: m gsm_module0_def opened_def fresh_port_def dest!: set_zip_rightD)
  obtain st m' where s: "ctrl_rounds [e1, e2, e3] (st_unlocked, m) = Some (st, m')"
    and f: "m' = m\<lparr>mi_gsmport := Some (opened (pe_open (ct_on e1)) (fresh_port ''/dev/ttyS2'')), mi_ready := ALL_READY, mi_event := REQ_EVENT_NONE,
        mi_pwr_status := 1, mi_hw := hw, mi_reg := reg, mi_comport := ?ports\<rparr>"
    using comes_up [OF pool(1)[folded m] pool(2)[folded m] ports(1)[folded m] c(2) ports(2) c(3,4,1) st assms(2,3)] assms(4) by blast
  have "mi_comport m' = ?ports" "mi_ready m' = ALL_READY" "mi_event m' = REQ_EVENT_NONE" "mi_hw m' = hw" "mi_reg m' = reg" "mi_users m' = 0"
    using c(5) by (simp_all add: f)
  then show ?thesis using s p by auto
qed

lemma gprs_comes_up_witness:
  "\<exists>st m'. ctrl_rounds [round_env lines_1, round_env lines_2, round_env lines_3] (st_unlocked, gsm_module0) = Some (st, m') \<and>
    mi_ready m' = ALL_READY \<and> rg_signal (mi_reg m') = 24"
proof -
  have i: "init_gsm_module True (\<lambda>_. True) = Some (0, gsm_module0)" by (simp add: init_gsm_module_ports)
  have "\<exists>st m'. ctrl_rounds [round_env lines_1, round_env lines_2, round_env lines_3] (st_unlocked, gsm_module0) = Some (st, m') \<and>
      mi_ready m' = ALL_READY \<and> mi_event m' = REQ_EVENT_NONE \<and> mi_hw m' = demo_hw \<and> mi_reg m' = demo_reg \<and> mi_users m' = 0 \<and>
      length (mi_comport m') = 4 \<and> (\<forall>p\<in>set (mi_comport m'). \<exists>c. p = Some c \<and> is_connted c = 1 \<and> cp_used c = 0)"
    by (rule gprs_comes_up [OF i])
      (use good_comes_on demo_stages_port in \<open>simp_all add: round_env_def reads_off_def reads_def hal_get_gprs_power_def\<close>)
  moreover have "rg_signal demo_reg = 24" by (simp add: demo_reg_def)
  ultimately show ?thesis by metis
qed

text \<open>C27. A module that does not answer is given ten rounds; the eleventh in a row asks for a reset and starts the count again.\<close>

theorem gprs_silence_resets:
  assumes "pool_wf m" "ports_in_use m = {}" "mi_comport m ! 0 = Some c" "mi_ready m = MODULE_READY" "st_lock st = 0" "st_fail_module st = 0"
    "length rounds \<le> 11" "\<forall>lines\<in>set rounds. no_answer c lines"
  shows "check_rounds rounds (st, m) =
    Some (if length rounds \<le> 10 then (st\<lparr>st_fail_module := int (length rounds)\<rparr>, m)
          else (st\<lparr>st_fail_module := 0\<rparr>, m\<lparr>mi_event := REQ_POWER_RESET\<rparr>))"
  using no_answer_rounds [OF assms(1-5), of rounds] assms(6-8) by (simp add: set_module_event_def)

lemma gprs_silence_resets_witness:
  "check_rounds (replicate 11 [demo_line 1 []]) (st_unlocked, gsm_module0\<lparr>mi_ready := MODULE_READY, mi_event := REQ_EVENT_NONE\<rparr>) =
    Some (st_unlocked, gsm_module0\<lparr>mi_ready := MODULE_READY, mi_event := REQ_POWER_RESET\<rparr>)"
proof -
  let ?m = "gsm_module0\<lparr>mi_ready := MODULE_READY, mi_event := REQ_EVENT_NONE\<rparr>"
  have w: "pool_wf ?m" "ports_in_use ?m = {}" using gsm_module0_pool pool_cong [of ?m gsm_module0] by simp_all
  have n: "no_answer (fresh_port (gsm_tty 0)) [demo_line 1 []]"
    by (simp add: no_answer_def atcmd_check_at_ready_def send_atcmd_check_ok_def send_atcmd_def fresh_port_def)
  have c: "mi_comport ?m ! 0 = Some (fresh_port (gsm_tty 0))" by (simp add: gsm_module0_def)
  show ?thesis
    using gprs_silence_resets [OF w c, of st_unlocked "replicate 11 [demo_line 1 []]"] n by (simp add: st_unlocked_def)
qed


definition demo_start :: gprs_sys where
  "demo_start = \<lparr>gs_module = gsm_module0, gs_static = st_unlocked, gs_ppp = the ppp_context_init, gs_ctrl = CtrlLoop, gs_ppp_run = True,
     gs_stop = False\<rparr>"

definition demo_ctx :: ppp_ctx where
  "demo_ctx = \<lparr>pc_status = DISCONNECT, pc_network = PPP_STOP, pc_dev = ''ppp10'' @ replicate 5 NUL, pc_pppd = zero_pppd, pc_stat = zero_stat,
     pc_fail_cnt = 0, pc_apn = zero_apn, pc_ping_ip = ''4.2.2.2'' @ replicate 9 NUL, pc_ping_interval = PING_INTERVAL_TIME, pc_comport = None\<rparr>"

lemma ppp_context_init_demo: "ppp_context_init = Some demo_ctx"
proof -
  have "c_strncpy (replicate 10 NUL) ''ppp10'' 10 = Some (''ppp10'' @ replicate 5 NUL)"
    "c_strncpy (replicate 16 NUL) ''4.2.2.2'' 16 = Some (''4.2.2.2'' @ replicate 9 NUL)"
    by (simp_all add: c_strncpy_def wr_slice_def eval_nat_numeral)
  then show ?thesis by (simp add: ppp_context_init_def set_ppp_disconnect_def demo_ctx_def)
qed

lemma demo_start_ok: "gprs_start demo_start" "gs_ppp demo_start = demo_ctx"
  by (auto simp: gprs_start_def demo_start_def ppp_context_init_demo init_gsm_module_ports)

text \<open>A round of the PPP thread that gets a port and finds no file with access points.\<close>

definition no_apn :: ppp_env where
  "no_apn = \<lparr>pe_stop = \<lparr>se_if = \<lparr>if_buf = [], if_reads = None\<rparr>, se_pids = []\<rparr>,
     pe_watch = \<lparr>we_pid = None, we_now1 = 0, we_if = \<lparr>if_buf = [], if_reads = None\<rparr>, we_local = None, we_remote = None, we_now2 = 0,
       we_ping = None, we_stat = None, we_now3 = 0\<rparr>,
     pe_conn = \<lparr>cn_static = st_unlocked, cn_apn = \<lparr>ae_oknew = \<lambda>_. True, ae_ok = \<lambda>_ _. True, ae_file = None\<rparr>, cn_pid = 7\<rparr>\<rparr>"

lemma no_apn_round:
  assumes "pool_wf m" "ports_in_use m = {}" "mi_ready m = ALL_READY" "NUL \<in> set (loc_mcc_mnc (rg_loc (mi_reg m)))"
    "pc_comport ctx = None" "pc_status ctx = DISCONNECT"
  shows "\<exists>ctx' m' i. ppp_round no_apn ctx m = Some (ctx', m') \<and> pc_comport ctx' = Some i \<and> mi_ready m' = ALL_READY \<and>
    mi_event m' = REQ_POWER_RESET \<and> pc_status ctx' = DISCONNECT"
proof -
  have st: "st_lock st_unlocked = 0" by (simp add: st_unlocked_def)
  have "(0 :: nat) \<in> {..<4}" by simp
  then have ne: "ports_in_use m \<noteq> {..<4}" using assms(2) by blast
  obtain i m1 where a: "alloc_gsm_dataport st_unlocked m = Some (Some i, m1)"
    and m1: "m1 = m\<lparr>mi_comport := mi_comport m1, mi_users := mi_users m + 1\<rparr>"
    using alloc_ok [OF assms(1) st ne] by blast
  have f: "mi_ready m1 = ALL_READY" "mi_reg m1 = mi_reg m" by (subst m1, simp add: assms(3))+
  have k: "str_of (loc_mcc_mnc (rg_loc (mi_reg m1))) = Some (cstr (loc_mcc_mnc (rg_loc (mi_reg m))))"
    using assms(4) f by (simp add: str_of_def)
  have "start_ppp_connect (pe_conn no_apn) ctx m = Some (0, (set_ppp_disconnect (ctx\<lparr>pc_comport := Some i\<rparr>))\<lparr>pc_fail_cnt := pc_fail_cnt ctx + 1\<rparr>,
      set_module_event m1 REQ_POWER_RESET)"
    using a k assms(5,6)
    by (simp add: start_ppp_connect_def no_apn_def select_apn_def get_apn_conf_def iniparser_load_def Let_def)
  then show ?thesis using assms(3,6) f by (simp add: ppp_round_def set_module_event_def)
qed


lemma demo_ready_run:
  "\<exists>st m. gprs_steps demo_start (demo_start\<lparr>gs_static := st, gs_module := m\<rparr>) \<and> mi_ready m = ALL_READY \<and> mi_reg m = demo_reg"
proof -
  have m: "gs_module demo_start = gsm_module0" "gs_static demo_start = st_unlocked" "gs_ctrl demo_start = CtrlLoop" "\<not> gs_stop demo_start"
    by (simp_all add: demo_start_def)
  have c: "mi_comport gsm_module0 ! 0 = Some (fresh_port (gsm_tty 0))" "mi_gsmport gsm_module0 = Some (fresh_port ''/dev/ttyS2'')"
    "mi_event gsm_module0 = REQ_POWER_RESET" "mi_hw gsm_module0 = zero_hw" "st_lock st_unlocked = 0"
    by (simp_all add: gsm_module0_def st_unlocked_def)
  have e: "reads_off (ct_off (round_env lines_1))" "comes_on (ct_on (round_env lines_1)) (fresh_port ''/dev/ttyS2'')"
    using good_comes_on by (simp_all add: round_env_def reads_off_def reads_def hal_get_gprs_power_def)
  have p: "stages_pass ((opened (pe_ports (ct_on (round_env lines_1)) ! 0) (fresh_port (gsm_tty 0)))\<lparr>cp_used := YES\<rparr>)
      (ce_lines (ct_check (round_env lines_1))) (ce_lines (ct_check (round_env lines_2))) demo_hw (ce_lines (ct_check (round_env lines_3))) demo_reg"
    using demo_stages_port by (simp add: round_env_def)
  obtain st m where r: "ctrl_rounds [round_env lines_1, round_env lines_2, round_env lines_3] (st_unlocked, gsm_module0) = Some (st, m)"
    and f: "m = gsm_module0\<lparr>mi_gsmport := Some (opened (pe_open (ct_on (round_env lines_1))) (fresh_port ''/dev/ttyS2'')), mi_ready := ALL_READY,
      mi_event := REQ_EVENT_NONE, mi_pwr_status := 1, mi_hw := demo_hw, mi_reg := demo_reg,
      mi_comport := map2 (\<lambda>s p. map_option (opened s) p) (pe_ports (ct_on (round_env lines_1))) (mi_comport gsm_module0)\<rparr>"
    using comes_up [OF gsm_module0_pool gsm_module0_ports(1) c(2) gsm_module0_ports(2) c(3,4,1,5) e p] by blast
  have "gprs_steps demo_start (demo_start\<lparr>gs_static := st, gs_module := m\<rparr>)"
    by (rule ctrl_rounds_steps [where envs = "[round_env lines_1, round_env lines_2, round_env lines_3]"])
      (use r m in \<open>simp_all add: round_env_def\<close>)
  moreover have "mi_ready m = ALL_READY" "mi_reg m = demo_reg" by (simp_all add: f)
  ultimately show ?thesis by blast
qed

lemma demo_deadlock_run:
  "\<exists>s i. gprs_steps demo_start s \<and> gs_ctrl s = CtrlWait REQ_POWER_RESET \<and> mi_ready (gs_module s) = ALL_READY \<and> pc_comport (gs_ppp s) = Some i \<and>
    \<not> gs_stop s"
proof -
  obtain st m where r: "gprs_steps demo_start (demo_start\<lparr>gs_static := st, gs_module := m\<rparr>)" "mi_ready m = ALL_READY" "mi_reg m = demo_reg"
    using demo_ready_run by blast
  let ?s1 = "demo_start\<lparr>gs_static := st, gs_module := m\<rparr>"
  have inv: "gprs_inv ?s1" by (rule gprs_steps_inv [OF r(1) gprs_start_inv [OF demo_start_ok(1)]])
  have ctx: "pc_comport (gs_ppp ?s1) = None" "pc_status (gs_ppp ?s1) = DISCONNECT" using demo_start_ok(2) by (simp_all add: demo_ctx_def)
  have w: "pool_wf m" "ports_in_use m = {}" "st_lock st = 0" using inv ctx by (simp_all add: gprs_inv_def ppp_ports_def)
  have "NUL \<in> set (loc_mcc_mnc (rg_loc (mi_reg m)))" using r(3) by (simp add: demo_reg_def)
  then obtain ctx' m' i where p: "ppp_round no_apn (gs_ppp ?s1) m = Some (ctx', m')" "pc_comport ctx' = Some i" "mi_ready m' = ALL_READY"
    "mi_event m' = REQ_POWER_RESET"
    using no_apn_round [OF w(1,2) r(2) _ ctx] by blast
  let ?s2 = "?s1\<lparr>gs_ppp := ctx', gs_module := m'\<rparr>"
  have s2: "gprs_step ?s1 ?s2"
    by (rule ppp_round_step [where penv = no_apn]) (use p w in \<open>simp_all add: demo_start_def no_apn_def st_unlocked_def\<close>)
  have inv2: "gprs_inv ?s2" by (rule gprs_step_inv [OF s2 inv])
  have "mi_users m' = 1" using held_users [OF inv2, of i] p(2) by simp
  then have mw: "must_wait (reads 1) (gs_module ?s2)"
    by (simp add: must_wait_def power_off_test_def reads_def hal_get_gprs_power_def)
  have "gprs_step ?s2 (?s2\<lparr>gs_module := snd (power_off_test (reads 1) (gs_module ?s2)), gs_ctrl := CtrlWait (mi_event (gs_module ?s2))\<rparr>)"
    by (rule ctrl_wait_step [OF _ _ _ mw]) (use p in \<open>simp_all add: demo_start_def\<close>)
  then have "gprs_steps demo_start (?s2\<lparr>gs_module := snd (power_off_test (reads 1) (gs_module ?s2)), gs_ctrl := CtrlWait (mi_event (gs_module ?s2))\<rparr>)"
    using gprs_steps.step [OF gprs_steps.step [OF r(1) s2]] by blast
  then show ?thesis using p by (intro exI conjI) (assumption, simp_all add: demo_start_def)
qed



text \<open>When the PPP thread has given its port back, because the module was no longer ready while it was connecting, its next round on a
  ready module reads the name of a port that it does not have.\<close>

theorem ppp_released_port_faults:
  assumes "mi_ready m \<noteq> ALL_READY" "pc_status ctx = CONNECTING" "ppp_round env ctx m = Some (ctx', m')" "pc_comport ctx' = None"
    "mi_ready m2 = ALL_READY"
  shows "ppp_round env2 ctx' m2 = None"
proof -
  obtain r where "stop_ppp_connect (pe_stop env) ctx m = Some (r, ctx', m')" using assms(1-3) by (auto simp: ppp_round_def)
  then have "pc_status ctx' = CONNECTING"
    using assms(2) by (cases "pc_comport ctx") (auto simp: stop_ppp_connect_def split: if_splits)
  moreover from this have "inspect_network_status (pe_watch env2) ctx' m2 = None"
    using assms(4) by (auto simp: inspect_network_status_def watch_dialing_def held_port_def Let_def rd_def bind_eq_None_conv)
  ultimately show ?thesis using assms(5) by (simp add: ppp_round_def)
qed

definition with_interface :: ppp_env where
  "with_interface = no_apn\<lparr>pe_stop := \<lparr>se_if = \<lparr>if_buf = replicate 512 NUL, if_reads = Some [''ppp10:'']\<rparr>, se_pids = [Some ''1'']\<rparr>\<rparr>"

lemma ppp_released_port_faults_witness:
  "\<exists>ctx'. map_option fst (ppp_round with_interface (demo_ctx\<lparr>pc_status := CONNECTING, pc_comport := Some 0\<rparr>) gsm_module0) = Some ctx' \<and>
    ppp_round no_apn ctx' (gsm_module0\<lparr>mi_ready := ALL_READY\<rparr>) = None"
proof -
  let ?ctx = "demo_ctx\<lparr>pc_status := CONNECTING, pc_comport := Some 0\<rparr>"
  have d: "str_of (pc_dev ?ctx) = Some ''ppp10''" by (simp add: demo_ctx_def str_of_def cstr_def NUL_def)
  have w: "wr_slice (replicate 512 NUL) 0 ''ppp10:'' = Some (''ppp10:'' @ replicate 506 NUL)"
    by (simp add: wr_slice_def)
  have c: "cstr (''ppp10:'' @ replicate 506 NUL) = ''ppp10:''" by (simp add: cstr_def NUL_def)
  have i: "ppp_interface ''ppp10'' (se_if (pe_stop with_interface)) = Some 0"
    using w c by (simp add: check_ppp_interface_def with_interface_def)
  have p: "held_port ?ctx gsm_module0 = Some (Some (fresh_port (gsm_tty 0)))" by (simp add: held_port_def gsm_module0_def)
  have n: "str_of (dev_name (fresh_port (gsm_tty 0))) = Some ''/dev/gsmtty1''"
    by (simp add: str_of_def fresh_port_def gsm_tty_names DEVNAME_LEN_def cstr_def NUL_def)
  have k: "kill_pppd_process (Some (fresh_port (gsm_tty 0))) [Some ''1''] = Some (0, [])"
  proof -
    have "atoi (cstr (fgets_line 10 ''1'')) = 1" by code_simp
    then show ?thesis using n by (simp add: kill_pppd_process_def check_pppd_pid_def Let_def)
  qed
  obtain m' where f: "free_gsm_dataport gsm_module0 (Some 0) = Some (m', None)"
    by (simp add: free_gsm_dataport_def gsm_module0_def)
  have r: "ppp_round with_interface ?ctx gsm_module0 = Some (?ctx\<lparr>pc_comport := None\<rparr>, m')"
    using d i p k f by (simp add: ppp_round_def stop_ppp_connect_def) (simp add: gsm_module0_def with_interface_def)
  have "ppp_round no_apn (?ctx\<lparr>pc_comport := None\<rparr>) (gsm_module0\<lparr>mi_ready := ALL_READY\<rparr>) = None"
    by (rule ppp_released_port_faults [OF _ _ r]) (simp_all add: gsm_module0_def)
  then show ?thesis using r by auto
qed

text \<open>C26. Switching on a module that is off opens the hardware port and all data ports, clears what is known of the network and leads to
  the first stage of the checks.\<close>

theorem gprs_power_on_opens:
  assumes "pool_wf m" "\<forall>p\<in>set (mi_comport m). tty_port p" "mi_gsmport m = Some gsm" "tty_port (Some gsm)" "comes_on env gsm"
  shows "\<exists>m'. power_on_module env m = Some (0, m') \<and> mi_ready m' = MODULE_READY \<and> mi_pwr_status m' = 1 \<and> mi_reg m' = zero_reg \<and>
    (\<exists>g. mi_gsmport m' = Some g \<and> is_connted g = 1) \<and> ports_in_use m' = ports_in_use m \<and>
    (\<forall>i<4. \<exists>c. mi_comport m' ! i = Some c \<and> is_connted c = 1 \<and> cp_fd c = sys_open (pe_ports env ! i))"
proof -
  let ?m = "m\<lparr>mi_gsmport := Some (opened (pe_open env) gsm), mi_ready := MODULE_READY, mi_reg := zero_reg,
    mi_pwr_status := 1, mi_comport := map2 (\<lambda>s p. map_option (opened s) p) (pe_ports env) (mi_comport m)\<rparr>"
  have r: "power_on_module env m = Some (0, ?m)" by (rule power_on_good [OF assms])
  have len: "length (mi_comport m) = 4" "length (pe_ports env) = 4" using assms(1,5) by (simp_all add: pool_wf_def comes_on_def)
  have "\<exists>c. mi_comport ?m ! i = Some c \<and> is_connted c = 1 \<and> cp_fd c = sys_open (pe_ports env ! i)" if "i < 4" for i
    using port_at [OF assms(1) that] len that by (auto simp: opened_def)
  moreover have "ports_in_use ?m = ports_in_use m" using power_on_kept [OF assms(1) r] by (simp add: pool_kept_def)
  ultimately show ?thesis using r by (intro exI [of _ ?m]) (simp add: opened_def)
qed

lemma gprs_power_on_opens_witness: "\<exists>m'. power_on_module good_on gsm_module0 = Some (0, m') \<and> mi_ready m' = MODULE_READY"
proof -
  have "mi_gsmport gsm_module0 = Some (fresh_port ''/dev/ttyS2'')" by (simp add: gsm_module0_def)
  from gprs_power_on_opens [OF gsm_module0_pool(1) gsm_module0_ports(1) this gsm_module0_ports(2) good_comes_on]
  show ?thesis by blast
qed

text \<open>When switching on has failed because the hardware port could not be opened or the module did not answer, the next attempt finds
  the power on and reports success: the request is cleared, and the data ports have never been opened.\<close>

theorem gprs_retry_skips_ports:
  assumes "mi_event m = REQ_POWER_ON" "power_on_module env1 m = Some (- 2, m1)" "fst (hal_get_gprs_power (pe_power env2)) = 1"
  shows "\<exists>m2. set_module_event_power off others env2 m1 = Some (0, m2) \<and> mi_event m2 = REQ_EVENT_NONE \<and> mi_ready m2 = MODULE_READY \<and>
    mi_comport m2 = mi_comport m"
proof -
  have "\<not> (\<exists>rv m'. power_on_end env1 rv m' = (- 2, m1) \<and> rv \<in> {0, - 1, - 3})" by (auto simp: power_on_end_def)
  then have k: "mi_event m1 = mi_event m \<and> mi_comport m1 = mi_comport m"
    using assms(2) by (auto simp: power_on_module_def Let_def split: if_splits)
  have "power_on_module env2 m1 = Some (power_on_end env2 0 (m1\<lparr>mi_pwr_status := 1\<rparr>))"
    using assms(3) by (simp add: power_on_module_def Let_def)
  then show ?thesis
    using k assms(1) by (simp add: set_module_event_power_def event_done_def power_on_end_def set_module_event_def)
qed

lemma gprs_retry_skips_ports_witness:
  "\<exists>m1 m2. power_on_module (good_on\<lparr>pe_open := good_sys (- 1)\<rparr>) (gsm_module0\<lparr>mi_event := REQ_POWER_ON\<rparr>) = Some (- 2, m1) \<and>
    set_module_event_power (reads 0) [] (good_on\<lparr>pe_power := \<lparr>dc_open = 3, dc_ioctl = 1\<rparr>\<rparr>) m1 = Some (0, m2) \<and> mi_ready m2 = MODULE_READY \<and>
    mi_comport m2 = mi_comport gsm_module0"
proof -
  let ?env = "good_on\<lparr>pe_open := good_sys (- 1)\<rparr>" and ?m = "gsm_module0\<lparr>mi_event := REQ_POWER_ON\<rparr>"
  obtain t where o: "comport_open (good_sys (- 1)) (fresh_port ''/dev/ttyS2'') = Some (- 3, (fresh_port ''/dev/ttyS2'')\<lparr>is_connted := 0, cp_fd := - 1\<rparr>, t)"
    using gsm_module0_ports(2) by (auto simp: comport_open_def comport_close_def tty_port_def good_sys_def Let_def)
  obtain m1 where m1: "power_on_module ?env ?m = Some (- 2, m1)"
    using o by (simp add: power_on_module_def Let_def good_on_def hal_get_gprs_power_def hal_turn_gprs_power_def gsm_module0_def)
  have "fst (hal_get_gprs_power (pe_power (good_on\<lparr>pe_power := \<lparr>dc_open = 3, dc_ioctl = 1\<rparr>\<rparr>))) = 1" by (simp add: hal_get_gprs_power_def)
  from gprs_retry_skips_ports [OF _ m1 this, of "reads 0" "[]"] m1 show ?thesis by auto
qed

end
