(* ===== verification/PppDial.thy ===== *)
theory PppDial
  imports Ppp
begin

text \<open>
  What the PPP thread dials with: the account that it reads for a network from the file of access points, by the parser of
  \<open>Iniparser\<close>, and the command that it makes of the account.
\<close>

section \<open>The account\<close>

definition apn_setting :: "ini_entry list \<Rightarrow> string \<Rightarrow> string \<Rightarrow> string option option" where
  "apn_setting es key name = map_of (rev (ini_meaning [] es)) (map c_tolower (key @ '':'' @ name))"

lemma apn_key_short: "length key \<le> 59 \<Longrightarrow> length name \<le> 3 \<Longrightarrow> apn_key key name = key @ '':'' @ name"
  by (simp add: apn_key_def snprintf_to_def)

lemma apn_lookup:
  assumes "\<forall>k def. dictionary_get d k def = Some (case map_of (rev (ini_meaning [] es)) k of Some v \<Rightarrow> Ptr v | None \<Rightarrow> def)"
    "length key \<le> 59" "length name \<le> 3"
  shows "iniparser_getstring (Some d) (Some (apn_key key name)) (Ptr None) =
    Some (case apn_setting es key name of Some v \<Rightarrow> Ptr v | None \<Rightarrow> Ptr None)"
proof -
  have "strlwc (Some (apn_key key name)) = Some (map c_tolower (key @ '':'' @ name))"
    using assms(2,3) by (simp add: apn_key_short strlwc_def ASCIILINESZ_def)
  then show ?thesis using assms(1) by (simp add: iniparser_getstring_def apn_setting_def)
qed

lemma copy_setting_block:
  "length dst = n \<Longrightarrow> copy_setting dst v n = (case v of Ptr (Some s) \<Rightarrow> Some (take n (s @ replicate n NUL)) | _ \<Rightarrow> None)"
  by (auto simp: copy_setting_def c_strncpy_def wr_slice_def split: charp.split option.split)

section \<open>The command\<close>

text \<open>An option of the command: nothing for an empty value, and at most the 63 characters that fit the buffer.\<close>

definition option_text :: "string \<Rightarrow> string \<Rightarrow> string" where
  "option_text name v = (if v = [] then [] else take 63 (name @ v @ '' ''))"

lemma option_text_length: "length (option_text name v) \<le> 63"
  by (simp add: option_text_def del: take_append)

lemma str_of_length: "str_of b = Some s \<Longrightarrow> length s < length b"
proof -
  assume "str_of b = Some s"
  then have b: "NUL \<in> set b" "s = cstr b" by (auto simp: str_of_def split: if_splits)
  have "takeWhile (\<lambda>c. c \<noteq> NUL) b \<noteq> b" using b(1) by (metis set_takeWhileD)
  then show ?thesis using b(2) length_takeWhile_le [of "\<lambda>c. c \<noteq> NUL" b] takeWhile_eq_take [of "\<lambda>c. c \<noteq> NUL" b]
    by (metis NUL_def cstr_def le_neq_implies_less take_all_iff order_refl)
qed

lemma dial_option_text:
  assumes "str_of val = Some v" "length cmd + 63 < 512"
  shows "dial_option cmd name val = Some (cmd @ option_text name v)"
  using assms by (auto simp: dial_option_def option_text_def strncat_to_def snprintf_to_def PPPD_CMD_LEN_def simp del: take_append)

section \<open>Properties\<close>


definition demo_apns :: "ini_entry list" where
  "demo_apns = [Section ''460-00'', Pair ''apn'' ''cmnet'', Pair ''uid'' ''wap'', Pair ''pwd'' ''wap'']"


text \<open>C36. The command that dials always fits its 512 bytes, whatever the blocks of the account hold; every option is cut at 63
  characters, so a longer access point is dialed with a part of its name.\<close>

theorem dial_command_fits:
  assumes "is_connted c \<noteq> 0" "length (dev_name c) = 64" "str_of (dev_name c) = Some name" "str_of (aa_apn apn) = Some a" "a \<noteq> []"
    "str_of (aa_uid apn) = Some u" "str_of (aa_pwd apn) = Some p" "str_of (aa_auth apn) = Some v" "length dev = 10" "str_of dev = Some d"
  shows "start_ppp_dial_cmd (Some c) apn dev pid =
    Some (if pid < 0 then (- 1, None)
          else (0, Some (''/apps/tools/ifup-ppp -d '' @ name @ '' '' @ option_text '' -a '' a @ option_text '' -u '' u @
            option_text '' -p '' p @ option_text '' -v '' v @ d)))"
proof -
  let ?base = "''/apps/tools/ifup-ppp -d '' @ name @ '' ''"
  have len: "length name \<le> 63" "length d \<le> 9" using str_of_length [OF assms(3)] str_of_length [OF assms(10)] assms(2,9) by simp_all
  have b: "snprintf_to 512 ?base = ?base" "length ?base \<le> 88" using len by (simp_all add: snprintf_to_def)
  define c1 where "c1 = ?base @ option_text '' -a '' a"
  define c2 where "c2 = c1 @ option_text '' -u '' u"
  define c3 where "c3 = c2 @ option_text '' -p '' p"
  define c4 where "c4 = c3 @ option_text '' -v '' v"
  have l: "length c1 \<le> 151" "length c2 \<le> 214" "length c3 \<le> 277" "length c4 \<le> 340"
    using b(2) option_text_length [of "'' -a ''" a] option_text_length [of "'' -u ''" u] option_text_length [of "'' -p ''" p]
      option_text_length [of "'' -v ''" v] by (simp_all add: c1_def c2_def c3_def c4_def)
  have "strncat_to 512 ?base (snprintf_to 64 ('' -a '' @ a @ '' '')) = Some c1"
    using b(2) assms(5) by (simp add: strncat_to_def snprintf_to_def c1_def option_text_def)
  moreover have "dial_option c1 '' -u '' (aa_uid apn) = Some c2" "dial_option c2 '' -p '' (aa_pwd apn) = Some c3"
    "dial_option c3 '' -v '' (aa_auth apn) = Some c4"
    using l assms(6-8) dial_option_text by (simp_all add: c2_def c3_def c4_def)
  moreover have "strncat_to 512 c4 d = Some (c4 @ d)" using l(4) len(2) by (simp add: strncat_to_def)
  ultimately have "start_ppp_dial_cmd (Some c) apn dev pid = Some (if pid < 0 then (- 1, None) else (0, Some (c4 @ d)))"
    using assms(1,3-5,10) b(1) by (simp add: start_ppp_dial_cmd_def PPPD_CMD_LEN_def)
  then show ?thesis by (simp add: c4_def c3_def c2_def c1_def)
qed

lemma dial_command_fits_witness:
  "start_ppp_dial_cmd (Some demo_port) (zero_apn\<lparr>aa_apn := ''cmnet'' @ replicate 123 NUL\<rparr>) (''ppp10'' @ replicate 5 NUL) 7 =
    Some (0, Some ''/apps/tools/ifup-ppp -d /dev/ttyS2  -a cmnet ppp10'')"
proof -
  have s: "str_of (dev_name demo_port) = Some ''/dev/ttyS2''" "str_of (''cmnet'' @ replicate 123 NUL) = Some ''cmnet''"
    "str_of (replicate 64 NUL) = Some []" "str_of (replicate 10 NUL) = Some []" "str_of (''ppp10'' @ replicate 5 NUL) = Some ''ppp10''"
    by code_simp+
  have "length (dev_name demo_port) = 64" "is_connted demo_port \<noteq> 0" by (simp_all add: demo_port_def)
  then show ?thesis
    using dial_command_fits [of demo_port "''/dev/ttyS2''" "zero_apn\<lparr>aa_apn := ''cmnet'' @ replicate 123 NUL\<rparr>" "''cmnet''" "[]" "[]" "[]"
      "''ppp10'' @ replicate 5 NUL" "''ppp10''" 7] s
    by (simp add: zero_apn_def UID_LEN_def PWD_LEN_def option_text_def)
qed

end
