(* ===== verification/Sock.thy ===== *)
theory Sock
  imports Fds
begin

text \<open>
  The TCP sockets of \<open>cp_library/cp_sock.c\<close>: their options, listening, accepting and connecting, and the
  transfer between the buffers of a socket and the network. The record of a socket and its termination are in
  \<open>Fds\<close>.

  The kernel is explicit where the code depends on it: \<open>kern\<close> holds the open descriptors and the
  options that were set, and \<open>sys\<close> says what the calls answer. \<open>shutdown\<close> and the log
  change neither.
\<close>

section \<open>The kernel\<close>

datatype sockopt = Opt_REUSEADDR | Opt_KEEPALIVE | Opt_KEEPIDLE int | Opt_KEEPINTVL int | Opt_KEEPCNT int
  | Opt_RCVBUF int | Opt_SNDBUF int | Opt_FLAGS u32

record kern =
  k_open :: "int list"
  k_opts :: "(int \<times> sockopt) list"

text \<open>The answer of \<open>connect\<close>: 0, or an error of one of the four kinds that the code tells apart.\<close>

datatype connect_rv = CONN_OK | CONN_PROGRESS | CONN_ALREADY | CONN_ISCONN | CONN_ERR

text \<open>One address of \<open>getaddrinfo\<close> with what the calls answer for it: \<open>socket\<close> (the descriptor or a negative
  number), \<open>bind\<close>, \<open>connect\<close>; the address as a text, and the 16 bytes that lie at its field \<open>ai_addr\<close>.\<close>

record attempt =
  at_socket :: int
  at_bind :: bool
  at_connect :: connect_rv
  at_text :: string
  at_cell :: "u8 list"

text \<open>\<open>y_opt\<close> says whether \<open>setsockopt\<close> (or \<open>fcntl\<close> with \<open>F_SETFL\<close>) succeeds; a peer or a local name is a text and
  a port. \<open>y_again\<close> answers \<open>connect\<close> on an open descriptor with a saved address.\<close>

record sys =
  y_opt :: "int \<Rightarrow> sockopt \<Rightarrow> bool"
  y_rcvbuf :: "int \<Rightarrow> int option"
  y_sndbuf :: "int \<Rightarrow> int option"
  y_flags :: "int \<Rightarrow> u32 option"
  y_addrs :: "attempt list option"
  y_listen :: bool
  y_accept :: "(int \<times> string \<times> int) option"
  y_name :: "(string \<times> int) option"
  y_again :: "u8 list \<Rightarrow> connect_rv"
  y_now :: u32

definition sys_close :: "int \<Rightarrow> kern \<Rightarrow> kern" where
  "sys_close fd k = k\<lparr>k_open := remove1 fd (k_open k)\<rparr>"

definition sys_open :: "int \<Rightarrow> kern \<Rightarrow> kern" where
  "sys_open fd k = k\<lparr>k_open := k_open k @ [fd]\<rparr>"

definition sys_setopt :: "sys \<Rightarrow> int \<Rightarrow> sockopt \<Rightarrow> kern \<Rightarrow> bool \<times> kern" where
  "sys_setopt y fd opt k = (if y_opt y fd opt then (True, k\<lparr>k_opts := k_opts k @ [(fd, opt)]\<rparr>) else (False, k))"

definition sys_connect :: "sys \<Rightarrow> int \<Rightarrow> u8 list \<Rightarrow> kern \<Rightarrow> connect_rv" where
  "sys_connect y fd saddr k = (if fd \<in> set (k_open k) then y_again y saddr else CONN_ERR)"

section \<open>Options\<close>

definition O_NONBLOCK :: u32 where "O_NONBLOCK = 0x800"

definition cp_sock_set_nonblock :: "sys \<Rightarrow> int \<Rightarrow> kern \<Rightarrow> int \<times> kern" where
  "cp_sock_set_nonblock y sockfd k =
     (case y_flags y sockfd of
        None \<Rightarrow> (- 1, k)
      | Some opts \<Rightarrow>
          let opts = opts OR O_NONBLOCK; (ok, k) = sys_setopt y sockfd (Opt_FLAGS opts) k
          in if \<not> ok then (- 1, k) else (sint opts, k))"

definition set_buffer_opt :: "sys \<Rightarrow> int \<Rightarrow> int option \<Rightarrow> int \<Rightarrow> (int \<Rightarrow> sockopt) \<Rightarrow> kern \<Rightarrow> bool \<times> kern" where
  "set_buffer_opt y sockfd cur size' mk k =
     (case cur of
        None \<Rightarrow> (False, k)
      | Some opt \<Rightarrow> if size' > opt then sys_setopt y sockfd (mk size') k else (True, k))"

definition cp_sock_set_buffer :: "sys \<Rightarrow> int \<Rightarrow> int \<Rightarrow> int \<Rightarrow> kern \<Rightarrow> int \<times> kern" where
  "cp_sock_set_buffer y sockfd rsize ssize k =
     (if sockfd < 0 then (- 1, k)
      else let (ok, k) = set_buffer_opt y sockfd (y_rcvbuf y sockfd) rsize Opt_RCVBUF k
           in if \<not> ok then (- 2, k)
              else let (ok, k) = set_buffer_opt y sockfd (y_sndbuf y sockfd) ssize Opt_SNDBUF k
                   in if \<not> ok then (- 3, k) else (0, k))"

definition cp_sock_set_reuseaddr :: "sys \<Rightarrow> int \<Rightarrow> kern \<Rightarrow> int \<times> kern" where
  "cp_sock_set_reuseaddr y sockfd k =
     (let (ok, k) = sys_setopt y sockfd Opt_REUSEADDR k in if \<not> ok then (- 1, k) else (0, k))"

definition cp_sock_set_keepalive :: "sys \<Rightarrow> int \<Rightarrow> int \<Rightarrow> int \<Rightarrow> kern \<Rightarrow> int \<times> kern" where
  "cp_sock_set_keepalive y sockfd keepintvl keepcnt k =
     (if sockfd < 0 then (- 1, k)
      else let (ok, k) = sys_setopt y sockfd Opt_KEEPALIVE k
      in if \<not> ok then (- 2, k)
      else if keepintvl \<noteq> 0 \<or> keepcnt \<noteq> 0
      then let (ok, k) = sys_setopt y sockfd (Opt_KEEPIDLE 3) k
           in if \<not> ok then (- 3, k)
           else let (ok, k) = (if keepintvl > 0 then sys_setopt y sockfd (Opt_KEEPINTVL keepintvl) k else (True, k))
           in if \<not> ok then (- 4, k)
           else let (ok, k) = (if keepcnt > 0 then sys_setopt y sockfd (Opt_KEEPCNT keepcnt) k else (True, k))
           in if \<not> ok then (- 5, k) else (0, k)
      else (0, k))"

section \<open>Creating a socket\<close>

definition CP_DEF_RCVBUF_SIZE :: int where "CP_DEF_RCVBUF_SIZE = 2048"
definition CP_DEF_SNDBUF_SIZE :: int where "CP_DEF_SNDBUF_SIZE = 2048"
definition CP_SOCK_DEF_IDLE_TIMEOUT :: u32 where "CP_SOCK_DEF_IDLE_TIMEOUT = 120 * 1000"
definition CP_SOCK_DEF_MSG_TIMEOUT :: u32 where "CP_SOCK_DEF_MSG_TIMEOUT = 120 * 1000"

definition SOCK_STAT_CONNECTING :: u8 where "SOCK_STAT_CONNECTING = 1"
definition SOCK_STAT_CONNECTED :: u8 where "SOCK_STAT_CONNECTED = 2"
definition SOCK_STAT_LISTENED :: u8 where "SOCK_STAT_LISTENED = 2"
definition SOCK_STAT_ACCEPTED :: u8 where "SOCK_STAT_ACCEPTED = 2"
definition SOCK_STAT_DISCONNECT :: u8 where "SOCK_STAT_DISCONNECT = 3"

text \<open>A cleared block: null pointers, zeros, empty texts.\<close>

definition zero_sock :: cp_sock where
  "zero_sock = \<lparr>s_fd = 0, s_mode = 0, s_flag = 0, s_status = 0, s_actv_time = 0, s_msg_time = 0, s_idle_timeout = 0,
     s_msg_timeout = 0, s_keepintvl = 0, s_keepcnt = 0, s_rsize = 0, s_ssize = 0, s_events = 0, s_sbuf = STR_NULL,
     s_rbuf = STR_NULL, s_saddr = replicate 16 0, s_laddr = replicate 16 NUL, s_lport = 0, s_raddr = replicate 16 NUL,
     s_rport = 0, s_fds = False, s_cbfunc = None, s_client_func = None, s_serv_sock = None, s_max_client = 0,
     s_accept_cnt = 0, s_accept_list = [], s_privt = None, s_privt_free = None, s_index = 0\<rparr>"

text \<open>The allocations of \<open>cp_sock_init\<close>: the struct (used when no socket is given), and for each
  buffer the string and its data.\<close>

record sock_mem =
  m_sock :: "addr option"
  m_rbuf :: "bool \<times> bool"
  m_sbuf :: "bool \<times> bool"

definition new_buf :: "bool \<times> bool \<Rightarrow> int \<Rightarrow> str_ptr" where
  "new_buf m n =
     (case cp_string_create_empty (fst m) (snd m) n of None \<Rightarrow> STR_NULL | Some b \<Rightarrow> STR_AT b)"

definition cp_sock_init ::
  "sock_mem \<Rightarrow> u32 \<Rightarrow> addr option \<Rightarrow> int \<Rightarrow> int \<Rightarrow> int \<Rightarrow> int \<Rightarrow> cp_fds \<Rightarrow> (addr option \<times> cp_fds) option" where
  "cp_sock_init m now sock rsize ssize keepintvl keepcnt st =
     (case (case sock of None \<Rightarrow> m_sock m | Some _ \<Rightarrow> sock) of
        None \<Rightarrow> Some (None, st)
      | Some a \<Rightarrow>
          let s = (if sock = None then set_flag FLAG_SOCK_MALLOC zero_sock else zero_sock);
              rbuf = new_buf (m_rbuf m) CP_DEF_RCVBUF_SIZE;
              s = s\<lparr>s_rbuf := rbuf\<rparr>
          in if rbuf = STR_NULL
             then do { st \<leftarrow> cp_sock_term True (Some a) (put_sock a s st); Some (None, st) }
             else let sbuf = new_buf (m_sbuf m) CP_DEF_SNDBUF_SIZE; s = s\<lparr>s_sbuf := sbuf\<rparr>
             in if sbuf = STR_NULL
             then do { st \<leftarrow> cp_sock_term True (Some a) (put_sock a s st); Some (None, st) }
             else let s = s\<lparr>s_rsize := rsize, s_ssize := ssize, s_keepintvl := keepintvl, s_keepcnt := keepcnt,
                            s_idle_timeout := CP_SOCK_DEF_IDLE_TIMEOUT, s_msg_timeout := CP_SOCK_DEF_MSG_TIMEOUT,
                            s_fd := - 1, s_index := - 1, s_actv_time := now\<rparr>
             in Some (Some a, put_sock a (set_flag FLAG_SOCK_INIT s) st))"

text \<open>\<open>cp_sock_close\<close> with the descriptors.\<close>

definition close_sock :: "cp_sock \<Rightarrow> kern \<Rightarrow> cp_sock \<times> kern" where
  "close_sock s k =
     (snd (cp_sock_close (s_fd s \<in> set (k_open k)) s), if s_fd s > 0 then sys_close (s_fd s) k else k)"

section \<open>Listening\<close>

text \<open>The attempts of \<open>cp_sock_listen\<close>: it answers the last descriptor, the error, the socket and the kernel.\<close>

fun listen_loop :: "sys \<Rightarrow> int \<Rightarrow> attempt list \<Rightarrow> int \<Rightarrow> int \<Rightarrow> cp_sock \<Rightarrow> kern \<Rightarrow> (int \<times> int \<times> cp_sock \<times> kern) option" where
  "listen_loop y lport [] fd rv s k = Some (fd, rv, s, k)"
| "listen_loop y lport (at # ats) fd rv s k =
     (let fd = at_socket at in
      if fd < 0 then listen_loop y lport ats fd (- 3) s k
      else let k = sys_open fd k;
               (_, k) = cp_sock_set_reuseaddr y fd k;
               (_, k) = cp_sock_set_keepalive y fd (s_keepintvl s) (s_keepcnt s) k;
               (_, k) = cp_sock_set_nonblock y fd k
           in if at_bind at
              then do { l \<leftarrow> c_strncpy (s_laddr s) (at_text at) 15;
                        Some (fd, 0, s\<lparr>s_fd := fd, s_lport := lport, s_laddr := l\<rparr>, k) }
              else listen_loop y lport ats fd (- 4) s (sys_close fd k))"

definition listen_cleanup :: "sys \<Rightarrow> int \<Rightarrow> cp_sock \<Rightarrow> kern \<Rightarrow> int \<times> cp_sock \<times> kern" where
  "listen_cleanup y rv s k =
     (if rv \<noteq> 0 then (rv, s, if s_fd s > 0 then sys_close (s_fd s) k else k)
      else (rv, s\<lparr>s_actv_time := y_now y, s_status := SOCK_STAT_LISTENED\<rparr>, k))"

text \<open>A null socket is dereferenced on the error path.\<close>

definition cp_sock_listen ::
  "sys \<Rightarrow> cp_sock option \<Rightarrow> string option \<Rightarrow> int \<Rightarrow> int \<Rightarrow> kern \<Rightarrow> (int \<times> cp_sock \<times> kern) option" where
  "cp_sock_listen y sock laddr lport backlog k = do {
     s \<leftarrow> sock;
     if \<not> has_flag FLAG_SOCK_INIT s \<or> lport \<le> 0 \<or> backlog \<le> 0 then Some (listen_cleanup y (- 1) s k)
     else do {
       l \<leftarrow> c_strncpy (s_laddr s) (case laddr of None \<Rightarrow> ''0.0.0.0'' | Some t \<Rightarrow> t) 16;
       let (s, k) = close_sock (s\<lparr>s_laddr := l\<rparr>) k;
       case y_addrs y of
         None \<Rightarrow> Some (listen_cleanup y (- 2) s k)
       | Some ats \<Rightarrow> do {
           (fd, rv, s, k) \<leftarrow> listen_loop y lport ats (- 1) 0 (s\<lparr>s_fd := - 1\<rparr>) k;
           if s_fd s < 0 then Some (listen_cleanup y rv s (sys_close fd k))
           else if \<not> y_listen y then Some (listen_cleanup y (- 6) s k)
           else Some (listen_cleanup y rv
                  (s\<lparr>s_mode := CP_SOCK_MODE_LISTEN, s_rport := 0, s_raddr := replicate 16 NUL\<rparr>) k) } } }"

section \<open>Accepting\<close>

text \<open>A null server socket is dereferenced on the error path; a null new socket is not.\<close>

definition cp_sock_accept ::
  "sys \<Rightarrow> cp_sock option \<Rightarrow> cp_sock option \<Rightarrow> kern \<Rightarrow> (int \<times> cp_sock option \<times> kern) option" where
  "cp_sock_accept y serv_sock new_sock k = do {
     srv \<leftarrow> serv_sock;
     case new_sock of
       None \<Rightarrow> Some (- 1, new_sock, sys_close (- 1) k)
     | Some s \<Rightarrow>
         if s_fd srv < 0 then Some (- 1, new_sock, sys_close (- 1) k)
         else case y_accept y of
           None \<Rightarrow> Some (- 2, new_sock, sys_close (- 1) k)
         | Some (fd, peer, port) \<Rightarrow>
             if fd < 0 then Some (- 2, new_sock, sys_close fd k)
             else do {
               let k = sys_open fd k;
               let (_, k) = cp_sock_set_buffer y fd (s_rsize s) (s_ssize s) k;
               let (_, k) = cp_sock_set_keepalive y fd (s_keepintvl s) (s_keepcnt s) k;
               let (_, k) = cp_sock_set_nonblock y fd k;
               r \<leftarrow> c_strncpy (s_raddr s) peer 15;
               let s = s\<lparr>s_fd := fd, s_mode := CP_SOCK_MODE_ACCEPT, s_raddr := r, s_rport := port\<rparr>;
               s \<leftarrow> (case y_name y of
                      None \<Rightarrow> do {
                        l \<leftarrow> c_strncpy (s_laddr s) (cstr (s_laddr srv)) 15;
                        Some (s\<lparr>s_laddr := l, s_lport := s_lport srv\<rparr>) }
                    | Some (name, lport) \<Rightarrow> do {
                        l \<leftarrow> c_strncpy (s_laddr s) name 15;
                        Some (s\<lparr>s_laddr := l, s_lport := lport\<rparr>) });
               Some (0, Some (s\<lparr>s_status := SOCK_STAT_ACCEPTED, s_actv_time := y_now y\<rparr>), k) } }"

section \<open>Connecting\<close>

text \<open>The label \<open>failed\<close>: the descriptor is closed, and stays in the socket.\<close>

definition connect_failed :: "int \<Rightarrow> cp_sock \<Rightarrow> kern \<Rightarrow> int \<times> cp_sock \<times> kern" where
  "connect_failed rv s k = (rv, s, if s_fd s \<ge> 0 then sys_close (s_fd s) k else k)"

text \<open>The label \<open>connected\<close>, which falls through to \<open>failed\<close> in any other status.\<close>

definition connect_connected :: "sys \<Rightarrow> string \<Rightarrow> int \<Rightarrow> int \<Rightarrow> int \<Rightarrow> cp_sock \<Rightarrow> kern \<Rightarrow> (int \<times> cp_sock \<times> kern) option" where
  "connect_connected y raddr rport lport rv s k =
     (if s_status s = SOCK_STAT_CONNECTED
      then do {
        r \<leftarrow> c_strncpy (s_raddr s) raddr 15;
        let s = s\<lparr>s_rport := rport, s_raddr := r, s_actv_time := y_now y\<rparr>;
        s \<leftarrow> (case y_name y of
               Some (name, port) \<Rightarrow> do { l \<leftarrow> c_strncpy (s_laddr s) name 15; Some (s\<lparr>s_laddr := l, s_lport := port\<rparr>) }
             | None \<Rightarrow> Some (s\<lparr>s_laddr := replicate 16 NUL, s_lport := lport\<rparr>));
        Some (0, s, k) }
      else Some (connect_failed rv s k))"

text \<open>The label \<open>connecting\<close>.\<close>

definition connect_again :: "sys \<Rightarrow> string \<Rightarrow> int \<Rightarrow> int \<Rightarrow> int \<Rightarrow> cp_sock \<Rightarrow> kern \<Rightarrow> (int \<times> cp_sock \<times> kern) option" where
  "connect_again y raddr rport lport rv s k =
     (if s_status s = SOCK_STAT_CONNECTING
      then case sys_connect y (s_fd s) (s_saddr s) k of
             CONN_OK \<Rightarrow> connect_connected y raddr rport lport 0 (s\<lparr>s_status := SOCK_STAT_CONNECTED\<rparr>) k
           | CONN_ISCONN \<Rightarrow> connect_connected y raddr rport lport 0 (s\<lparr>s_status := SOCK_STAT_CONNECTED\<rparr>) k
           | CONN_PROGRESS \<Rightarrow> Some (0, s, k) | CONN_ALREADY \<Rightarrow> Some (0, s, k)
           | CONN_ERR \<Rightarrow> connect_connected y raddr rport lport (- 7) (s\<lparr>s_status := SOCK_STAT_DISCONNECT\<rparr>) k
      else connect_connected y raddr rport lport rv s k)"

text \<open>The attempts. What is saved for the next call are the bytes of the pointer \<open>ai_addr\<close> and what follows
  it, not the address that it points to.\<close>

fun connect_loop ::
  "sys \<Rightarrow> string \<Rightarrow> int \<Rightarrow> int \<Rightarrow> attempt list \<Rightarrow> int \<Rightarrow> int \<Rightarrow> cp_sock \<Rightarrow> kern \<Rightarrow> (int \<times> cp_sock \<times> kern) option" where
  "connect_loop y raddr rport lport [] fd rv s k =
     (if s_fd s < 0 then Some (connect_failed rv s (sys_close fd k))
      else connect_again y raddr rport lport rv s k)"
| "connect_loop y raddr rport lport (at # ats) fd rv s k =
     (let fd = at_socket at in
      if fd < 0 then connect_loop y raddr rport lport ats fd (- 3) s k
      else let k = sys_open fd k in
      if lport > 0 \<and> \<not> at_bind at then connect_loop y raddr rport lport ats fd (- 4) s (sys_close fd k)
      else let s = (if lport > 0 then s\<lparr>s_lport := lport\<rparr> else s);
               (_, k) = cp_sock_set_buffer y fd (s_rsize s) (s_ssize s) k;
               (_, k) = cp_sock_set_keepalive y fd (s_keepintvl s) (s_keepcnt s) k;
               (_, k) = cp_sock_set_nonblock y fd k;
               s' = s\<lparr>s_fd := fd, s_status := SOCK_STAT_CONNECTING, s_saddr := at_cell at\<rparr>
           in case at_connect at of
                CONN_OK \<Rightarrow> connect_connected y raddr rport lport 0 s' k
              | CONN_PROGRESS \<Rightarrow> connect_again y raddr rport lport 0 s' k
              | _ \<Rightarrow> Some (connect_failed (- 5) s (sys_close fd k)))"

definition cp_sock_connect ::
  "sys \<Rightarrow> cp_sock option \<Rightarrow> string option \<Rightarrow> int \<Rightarrow> int \<Rightarrow> kern \<Rightarrow> (int \<times> cp_sock option \<times> kern) option" where
  "cp_sock_connect y sock raddr rport lport k =
     (case sock of
        None \<Rightarrow> Some (- 1, None, k)
      | Some s \<Rightarrow> do {
          (rv, s, k) \<leftarrow>
            (case raddr of
               None \<Rightarrow> Some (connect_failed (- 1) s k)
             | Some addr \<Rightarrow>
                 if \<not> has_flag FLAG_SOCK_INIT s \<or> rport \<le> 0 then Some (connect_failed (- 1) s k)
                 else if s_status s = SOCK_STAT_CONNECTED then Some (0, s, k)
                 else if s_status s = SOCK_STAT_CONNECTING then connect_again y addr rport lport 0 s k
                 else case y_addrs y of
                        None \<Rightarrow> Some (connect_failed (- 2) s k)
                      | Some ats \<Rightarrow>
                          let (s, k) = close_sock s k
                          in connect_loop y addr rport lport ats (- 1) 0 (s\<lparr>s_fd := - 1\<rparr>) k);
          Some (rv, Some s, k) })"

section \<open>The transfer of data\<close>

datatype recv_rv = RECV "char list" | RECV_AGAIN | RECV_ERR

text \<open>\<open>rcv\<close> answers for the number of free bytes. The flag \<open>MSG_PEEK\<close> is never passed, since a full buffer
  is not read into.\<close>

definition cp_sock_recv :: "(int \<Rightarrow> recv_rv) \<Rightarrow> u32 \<Rightarrow> cp_sock option \<Rightarrow> (int \<times> cp_sock option) option" where
  "cp_sock_recv rcv now sock =
     (case sock of None \<Rightarrow> Some (- 1, None)
      | Some s \<Rightarrow>
          (case s_rbuf s of
             STR_NULL \<Rightarrow> Some (- 1, Some s)
           | STR_FREED \<Rightarrow> None
           | STR_AT b \<Rightarrow>
               (case cs_data b of
                  None \<Rightarrow> Some (- 1, Some s)
                | Some d \<Rightarrow>
                    if s_fd s < 0 then Some (- 1, Some s)
                    else let left = cs_size b - cs_len b in
                    if left \<le> 0 then Some (0, Some s)
                    else case rcv left of
                      RECV_AGAIN \<Rightarrow> Some (0, Some s)
                    | RECV_ERR \<Rightarrow> Some (- 2, Some s)
                    | RECV bs \<Rightarrow>
                        if bs = [] then Some (0, Some s)
                        else do {
                          d \<leftarrow> c_memcpy d (cs_len b) bs 0 (int (length bs));
                          Some (int (length bs),
                                Some (s\<lparr>s_rbuf := STR_AT (b\<lparr>cs_data := Some d, cs_len := cs_len b + int (length bs)\<rparr>),
                                        s_actv_time := now, s_msg_time := now\<rparr>)) })))"

datatype send_rv = SENT int | SEND_AGAIN | SEND_ERR

text \<open>The second component are the bytes that went out. The test after \<open>poll\<close> reads the requested events,
  which contain \<open>POLLOUT\<close>, so it never fails.\<close>

definition POLLOUT :: u16 where "POLLOUT = 4"

definition cp_sock_send ::
  "int \<Rightarrow> (char list \<Rightarrow> send_rv) \<Rightarrow> u32 \<Rightarrow> cp_sock option \<Rightarrow> (int \<times> char list \<times> cp_sock option) option" where
  "cp_sock_send poll sendto now sock =
     (case sock of None \<Rightarrow> Some (- 1, [], None)
      | Some s \<Rightarrow>
          if s_fd s < 0 then Some (- 1, [], Some s)
          else case s_sbuf s of STR_NULL \<Rightarrow> None | STR_FREED \<Rightarrow> None
          | STR_AT b \<Rightarrow>
              (case cs_data b of
                 None \<Rightarrow> Some (- 1, [], Some s)
               | Some d \<Rightarrow>
                   if cs_len b \<le> 0 then Some (- 1, [], Some s)
                   else if poll > 0
                   then let events = POLLOUT in
                        if POLLOUT AND events = 0 then Some (- 2, [], Some s)
                        else do {
                          data \<leftarrow> rd_slice d 0 (nat (cs_len b));
                          case sendto data of
                            SEND_AGAIN \<Rightarrow> Some (0, [], Some s)
                          | SEND_ERR \<Rightarrow> Some (- 4, [], Some s)
                          | SENT rv \<Rightarrow> do {
                              let len = cs_len b - rv;
                              d \<leftarrow> c_memcpy d 0 d rv len;
                              Some (rv, take (nat rv) data,
                                    Some (s\<lparr>s_sbuf := STR_AT (b\<lparr>cs_data := Some d, cs_len := len\<rparr>), s_actv_time := now\<rparr>)) } }
                   else Some (0, [], Some s)))"

definition cp_sock_set_idle_timeout :: "cp_sock \<Rightarrow> u32 \<Rightarrow> cp_sock" where
  "cp_sock_set_idle_timeout s timeout = s\<lparr>s_idle_timeout := timeout\<rparr>"

definition cp_sock_set_msg_timeout :: "cp_sock \<Rightarrow> u32 \<Rightarrow> cp_sock" where
  "cp_sock_set_msg_timeout s timeout = s\<lparr>s_msg_timeout := timeout\<rparr>"

definition cp_sock_set_private_data :: "cp_sock \<Rightarrow> nat option \<Rightarrow> nat option \<Rightarrow> cp_sock" where
  "cp_sock_set_private_data s data free = s\<lparr>s_privt := data, s_privt_free := free\<rparr>"

end
