(* ===== verification/Network.thy ===== *)
theory Network
  imports Sock
begin

text \<open>
  The services of \<open>cp_library/cp_network.c\<close> on the event loop: a server registers its listening socket,
  whose callback accepts and registers clients, and a client registers a connecting socket. The creation and the end of
  the context (\<open>cp_fds_init\<close>, \<open>cp_fds_term\<close>) and the shutdown of all services complete \<open>Fds\<close>.
\<close>

section \<open>The context\<close>

definition FLAG_FDS_INIT :: u8 where "FLAG_FDS_INIT = push_bit 0 1"
definition FLAG_FDS_MALLOC :: u8 where "FLAG_FDS_MALLOC = push_bit 1 1"
definition CP_DEF_MAX_EVENTS :: int where "CP_DEF_MAX_EVENTS = 1024"

text \<open>\<open>cur\<close> is the soft limit that \<open>getrlimit\<close> answers, \<open>setok\<close> the outcome of \<open>setrlimit\<close>. The
  comparison is unsigned.\<close>

definition cp_fds_setrlimit :: "u32 option \<Rightarrow> bool \<Rightarrow> int \<Rightarrow> int" where
  "cp_fds_setrlimit cur setok maxfd =
     (case cur of None \<Rightarrow> - 1
      | Some c \<Rightarrow> if c < word_of_int maxfd then (if setok then 0 else - 2) else 0)"

text \<open>The end of a context: its descriptor is closed, array and queue are freed. The first component says whether
  the context itself is freed; a context that is not has dangling pointers and is not used again, so none is answered.
  What is answered besides are the kernel and the heap of the queue.\<close>

definition cp_fds_term :: "cp_fds option \<Rightarrow> kern \<Rightarrow> (bool \<times> kern \<times> addr qheap option) option" where
  "cp_fds_term fds k =
     (case fds of
        None \<Rightarrow> Some (False, k, None)
      | Some st \<Rightarrow> do {
          let k = (if f_epfd st \<ge> 0 then sys_close (f_epfd st) k else k);
          h \<leftarrow> cp_queue_destroy (f_heap st) (f_queue st);
          Some (f_flag st AND FLAG_FDS_MALLOC \<noteq> 0, k, Some h) })"

record fds_sys =
  z_malloc :: bool
  z_limit :: "u32 option"
  z_setlimit :: bool
  z_epoll :: int
  z_array :: "bool \<times> bool"
  z_queue :: bool

text \<open>A cleared context; its ghost fields and the memory around it stay.\<close>

definition zero_fds :: "cp_fds \<Rightarrow> cp_fds" where
  "zero_fds st = st\<lparr>f_flag := 0, f_epfd := 0, f_timeout := 0, f_max_event := 0, f_event_cnt := 0,
     f_server_list := [], f_client_list := [], f_queue := None, f_tasks := None\<rparr>"

text \<open>\<open>st\<close> is the memory before the call, and \<open>given\<close> says that the caller owns the context. The result is the
  context, or \<open>None\<close> for \<open>NULL\<close>.\<close>

definition cp_fds_init ::
  "fds_sys \<Rightarrow> bool \<Rightarrow> int \<Rightarrow> int \<Rightarrow> kern \<Rightarrow> cp_fds \<Rightarrow> (kern \<times> cp_fds option) option" where
  "cp_fds_init z given maxevents timeout k st =
     (if \<not> given \<and> \<not> z_malloc z then Some (k, None)
      else let st = (zero_fds st)\<lparr>f_epfd := - 1\<rparr>;
               st = (if given then st else st\<lparr>f_flag := f_flag st OR FLAG_FDS_MALLOC\<rparr>);
               maxevents = (if maxevents < CP_DEF_MAX_EVENTS then maxevents else CP_DEF_MAX_EVENTS)
      in if cp_fds_setrlimit (z_limit z) (z_setlimit z) maxevents \<noteq> 0
      then do { (_, k, _) \<leftarrow> cp_fds_term (Some st) k; Some (k, None) }
      else let st = st\<lparr>f_epfd := z_epoll z\<rparr>
      in if f_epfd st < 0
      then do { (_, k, _) \<leftarrow> cp_fds_term (Some st) k; Some (k, None) }
      else do {
        let k = sys_open (f_epfd st) k;
        let st = st\<lparr>f_server_list := [], f_client_list := [],
                    f_tasks := cp_array_init False (fst (z_array z)) (snd (z_array z)) maxevents\<rparr>;
        q \<leftarrow> cp_queue_init (z_queue z) None maxevents;
        Some (k, Some (st\<lparr>f_queue := Some q, f_timeout := (if timeout < 0 then - 1 else timeout),
                          f_max_event := maxevents, f_flag := f_flag st OR FLAG_FDS_INIT\<rparr>)) })"

text \<open>What \<open>cp_fds_list_sock_task\<close> prints.\<close>

partial_function (option) list_task_loop :: "nat \<Rightarrow> addr option \<Rightarrow> cp_fds \<Rightarrow> (int \<times> addr) list option" where
  "list_task_loop i sock st = do {
     t \<leftarrow> f_tasks st;
     if int i < ar_size t
     then do {
       l \<leftarrow> (case sock of None \<Rightarrow> Some []
             | Some a \<Rightarrow> do { s \<leftarrow> f_socks st a; Some [(s_fd s, a)] });
       e \<leftarrow> (if int (Suc i) < ar_size t then rd (ar_data t) (Suc i) else Some None);
       ls \<leftarrow> list_task_loop (Suc i) e st;
       Some (l @ ls) }
     else Some [] }"

definition cp_fds_list_sock_task :: "cp_fds option \<Rightarrow> (int \<times> addr) list option" where
  "cp_fds_list_sock_task fds =
     (case fds of None \<Rightarrow> Some []
      | Some st \<Rightarrow> do { t \<leftarrow> f_tasks st; e \<leftarrow> rd (ar_data t) 0; list_task_loop 0 e st })"

section \<open>Registration\<close>

definition CP_DEF_MAX_CLIENTS :: int where "CP_DEF_MAX_CLIENTS = 1024"
definition CP_SOCK_RCVBUF :: int where "CP_SOCK_RCVBUF = 2048"
definition CP_SOCK_SNDBUF :: int where "CP_SOCK_SNDBUF = 2048"
definition CP_SOCK_KEEPINTVL :: int where "CP_SOCK_KEEPINTVL = 600"
definition CP_SOCK_KEEPCNT :: int where "CP_SOCK_KEEPCNT = 3"

text \<open>The number that stands for the callback \<open>cp_sock_accept_regist\<close>.\<close>

definition CB_ACCEPT :: nat where "CB_ACCEPT = 0"

text \<open>\<open>cp_sock_term\<close> with the descriptors.\<close>

definition term_sock :: "addr option \<Rightarrow> kern \<Rightarrow> cp_fds \<Rightarrow> (kern \<times> cp_fds) option" where
  "term_sock sock k st =
     (case sock of None \<Rightarrow> Some (k, st)
      | Some a \<Rightarrow> do {
          s \<leftarrow> f_socks st a;
          st \<leftarrow> cp_sock_term (s_fd s \<in> set (k_open k)) (Some a) st;
          Some (if has_flag FLAG_SOCK_INIT s \<and> s_fd s > 0 then sys_close (s_fd s) k else k, st) })"

text \<open>The labels \<open>exit_out\<close>, \<open>term_sock\<close> and \<open>del_regist\<close> of \<open>cp_sock_accept_regist\<close>.\<close>

definition accept_exit :: "int \<Rightarrow> addr \<Rightarrow> kern \<Rightarrow> cp_fds \<Rightarrow> (int \<times> kern \<times> cp_fds) option" where
  "accept_exit rv v k st = do { st \<leftarrow> cp_fds_del_sock_task (Some v) st; Some (rv, k, st) }"

definition accept_term :: "int \<Rightarrow> addr \<Rightarrow> addr \<Rightarrow> kern \<Rightarrow> cp_fds \<Rightarrow> (int \<times> kern \<times> cp_fds) option" where
  "accept_term rv a v k st = do { (k, st) \<leftarrow> term_sock (Some a) k st; accept_exit rv v k st }"

definition accept_del :: "int \<Rightarrow> addr \<Rightarrow> addr \<Rightarrow> kern \<Rightarrow> cp_fds \<Rightarrow> (int \<times> kern \<times> cp_fds) option" where
  "accept_del rv a v k st = do { st \<leftarrow> cp_fds_del_sock_registry (Some a) st; accept_term rv a v k st }"

definition cp_sock_accept_regist ::
  "sys \<Rightarrow> sock_mem \<Rightarrow> epoll_rv \<Rightarrow> addr option \<Rightarrow> kern \<Rightarrow> cp_fds \<Rightarrow> (int \<times> kern \<times> cp_fds) option" where
  "cp_sock_accept_regist y m ep serv_sock k st =
     (case serv_sock of
        None \<Rightarrow> Some (- 1, k, st)
      | Some v \<Rightarrow> do {
          srv \<leftarrow> f_socks st v;
          if s_accept_cnt srv \<ge> s_max_client srv then accept_exit 0 v k st
          else do {
            (new, st) \<leftarrow> cp_sock_init m (y_now y) None CP_SOCK_RCVBUF CP_SOCK_SNDBUF CP_SOCK_KEEPINTVL CP_SOCK_KEEPCNT st;
            case new of
              None \<Rightarrow> accept_exit 0 v k st
            | Some a \<Rightarrow> do {
                s \<leftarrow> f_socks st a;
                let st = put_sock a (s\<lparr>s_serv_sock := Some v, s_fds := s_fds srv, s_privt := s_privt srv,
                                       s_cbfunc := s_client_func srv, s_mode := CP_SOCK_MODE_ACCEPT\<rparr>) st;
                (rv, st) \<leftarrow> cp_fds_add_sock_registry (Some a) st;
                if rv \<noteq> 0 then accept_term (- 2) a v k st
                else do {
                  srv \<leftarrow> f_socks st v;
                  s \<leftarrow> f_socks st a;
                  (rv, s', k) \<leftarrow> cp_sock_accept y (Some srv) (Some s) k;
                  s' \<leftarrow> s';
                  let st = put_sock a s' st;
                  if rv \<noteq> 0 then accept_del (- 3) a v k st
                  else do {
                    (rv, st) \<leftarrow> cp_add_epoll_event ep (Some a) st;
                    if rv \<noteq> 0 then accept_del (- 4) a v k st
                    else Some (0, k, st) } } } } })"

text \<open>The end of a failed registration of a client or a server: the socket leaves the task array and is terminated.\<close>

definition regist_term :: "addr \<Rightarrow> kern \<Rightarrow> cp_fds \<Rightarrow> (addr option \<times> kern \<times> cp_fds) option" where
  "regist_term a k st = do {
     st \<leftarrow> cp_fds_del_sock_task (Some a) st;
     (k, st) \<leftarrow> term_sock (Some a) k st;
     Some (None, k, st) }"

definition regist_del :: "addr \<Rightarrow> kern \<Rightarrow> cp_fds \<Rightarrow> (addr option \<times> kern \<times> cp_fds) option" where
  "regist_del a k st = do { st \<leftarrow> cp_fds_del_sock_registry (Some a) st; regist_term a k st }"

text \<open>From the registered socket on.\<close>

definition connect_and_add ::
  "sys \<Rightarrow> epoll_rv \<Rightarrow> addr \<Rightarrow> string \<Rightarrow> int \<Rightarrow> int \<Rightarrow> kern \<Rightarrow> cp_fds \<Rightarrow> (addr option \<times> kern \<times> cp_fds) option" where
  "connect_and_add y ep a raddr rport lport k st = do {
     s \<leftarrow> f_socks st a;
     (rv, s', k) \<leftarrow> cp_sock_connect y (Some s) (Some raddr) rport lport k;
     s' \<leftarrow> s';
     let st = put_sock a s' st;
     if rv \<noteq> 0 then regist_del a k st
     else do {
       (rv, st) \<leftarrow> cp_add_epoll_event ep (Some a) st;
       if rv \<noteq> 0 then regist_del a k st else Some (Some a, k, st) } }"

definition cp_sock_connect_regist ::
  "sys \<Rightarrow> sock_mem \<Rightarrow> epoll_rv \<Rightarrow> bool \<Rightarrow> addr option \<Rightarrow> string option \<Rightarrow> int \<Rightarrow> int \<Rightarrow> nat option
   \<Rightarrow> kern \<Rightarrow> cp_fds \<Rightarrow> (addr option \<times> kern \<times> cp_fds) option" where
  "cp_sock_connect_regist y m ep fds sock raddr rport lport service_route k st =
     (case raddr of
        None \<Rightarrow> Some (None, k, st)
      | Some addr \<Rightarrow>
          if \<not> fds \<or> rport < 0 then Some (None, k, st)
          else do {
            (sock, st) \<leftarrow>
              (case sock of
                 Some _ \<Rightarrow> Some (sock, st)
               | None \<Rightarrow> cp_sock_init m (y_now y) None CP_SOCK_RCVBUF CP_SOCK_SNDBUF CP_SOCK_KEEPINTVL CP_SOCK_KEEPCNT st);
            case sock of
              None \<Rightarrow> Some (None, k, st)
            | Some a \<Rightarrow> do {
                s \<leftarrow> f_socks st a;
                if s_status s = SOCK_STAT_CONNECTED then Some (Some a, k, st)
                else if \<not> has_flag FLAG_SOCK_REGISTRY s
                then do {
                  l \<leftarrow> c_strncpy (s_laddr s) ''0.0.0.0'' 16;
                  (rv, st) \<leftarrow> cp_fds_add_sock_registry (Some a)
                    (put_sock a (s\<lparr>s_fds := True, s_cbfunc := service_route, s_mode := CP_SOCK_MODE_CONNECT,
                                   s_laddr := l\<rparr>) st);
                  if rv \<noteq> 0 then regist_term a k st else connect_and_add y ep a addr rport lport k st }
                else connect_and_add y ep a addr rport lport k st } })"

definition cp_sock_server_regist ::
  "sys \<Rightarrow> sock_mem \<Rightarrow> epoll_rv \<Rightarrow> bool \<Rightarrow> string option \<Rightarrow> int \<Rightarrow> int \<Rightarrow> nat option \<Rightarrow> nat option
   \<Rightarrow> kern \<Rightarrow> cp_fds \<Rightarrow> (addr option \<times> kern \<times> cp_fds) option" where
  "cp_sock_server_regist y m ep fds addr port max_client service_route data k st =
     (if \<not> fds \<or> port < 0 then Some (None, k, st)
      else do {
        (sock, st) \<leftarrow>
          cp_sock_init m (y_now y) None CP_SOCK_RCVBUF CP_SOCK_SNDBUF CP_SOCK_KEEPINTVL CP_SOCK_KEEPCNT st;
        case sock of
          None \<Rightarrow> Some (None, k, st)
        | Some a \<Rightarrow> do {
            s \<leftarrow> f_socks st a;
            (rv, st) \<leftarrow> cp_fds_add_sock_registry (Some a)
              (put_sock a (s\<lparr>s_accept_list := [], s_fds := True, s_cbfunc := Some CB_ACCEPT, s_client_func := service_route,
                             s_privt := data, s_mode := CP_SOCK_MODE_LISTEN\<rparr>) st);
            if rv \<noteq> 0 then regist_term a k st
            else do {
              s \<leftarrow> f_socks st a;
              let s = s\<lparr>s_max_client := (if max_client \<le> 0 then CP_DEF_MAX_CLIENTS else max_client)\<rparr>;
              let s = s\<lparr>s_max_client := (if max_client < f_max_event st then s_max_client s else CP_DEF_MAX_CLIENTS)\<rparr>;
              (rv, s, k) \<leftarrow> cp_sock_listen y (Some s) addr port (s_max_client s) k;
              let st = put_sock a s st;
              if rv \<noteq> 0 then regist_del a k st
              else do {
                (rv, st) \<leftarrow> cp_add_epoll_event ep (Some a) st;
                if rv \<noteq> 0 then regist_del a k st else Some (Some a, k, st) } } } })"

section \<open>Shutdown\<close>

partial_function (option) term_task_loop :: "nat \<Rightarrow> addr option \<Rightarrow> cp_fds \<Rightarrow> cp_fds option" where
  "term_task_loop i sock st = do {
     t \<leftarrow> f_tasks st;
     if int i < ar_size t
     then do {
       st \<leftarrow> (case sock of None \<Rightarrow> Some st | Some a \<Rightarrow> cp_fds_del_sock_task (Some a) st);
       t \<leftarrow> f_tasks st;
       e \<leftarrow> (if int (Suc i) < ar_size t then rd (ar_data t) (Suc i) else Some None);
       term_task_loop (Suc i) e st }
     else Some st }"

partial_function (option) drain_loop :: "cp_fds \<Rightarrow> cp_fds option" where
  "drain_loop st = do {
     q \<leftarrow> f_queue st;
     if cp_queue_is_empty q then Some st
     else do {
       (_, h, q) \<leftarrow> cp_dequeue (f_heap st) (Some q);
       drain_loop (st\<lparr>f_heap := h, f_queue := q\<rparr>) } }"

declare list_task_loop.simps [code] term_task_loop.simps [code] drain_loop.simps [code]

definition cp_sock_term_all_task :: "cp_fds \<Rightarrow> cp_fds option" where
  "cp_sock_term_all_task st = do {
     t \<leftarrow> f_tasks st;
     e \<leftarrow> rd (ar_data t) 0;
     st \<leftarrow> term_task_loop 0 e st;
     drain_loop st }"

text \<open>\<open>ok\<close> is the outcome of closing the sockets; their descriptors are not followed here.\<close>

definition cp_sock_term_all_service :: "bool \<Rightarrow> cp_fds option \<Rightarrow> kern \<Rightarrow> (bool \<times> kern \<times> cp_fds option) option" where
  "cp_sock_term_all_service ok fds k =
     (case fds of
        None \<Rightarrow> Some (False, k, None)
      | Some st \<Rightarrow> do {
          st \<leftarrow> cp_sock_term_all_task st;
          st \<leftarrow> cp_sock_term_all_server ok st;
          st \<leftarrow> cp_sock_term_all_client ok st;
          (freed, k, h) \<leftarrow> cp_fds_term (Some st) k;
          h \<leftarrow> h;
          Some (freed, k, Some (st\<lparr>f_heap := h\<rparr>)) })"

end
