(* ===== verification/Registry.thy ===== *)
theory Registry
  imports Network
begin

text \<open>
  The registry of the sockets is consistent: a registered socket is in exactly the list that its mode says (the clients
  and the servers of the context, or the clients that a server accepted), once, a list has no other address,
  a server counts its accepted clients, and the context the sockets that epoll watches. The operations on the
  registry and on epoll keep this.
\<close>

section \<open>What the registry sees of a socket\<close>

record sock_view =
  v_reg :: bool
  v_epolled :: bool
  v_mode :: int
  v_serv :: "addr option"
  v_list :: "addr list"
  v_cnt :: int

abbreviation registered :: "cp_sock \<Rightarrow> bool" where "registered \<equiv> has_flag FLAG_SOCK_REGISTRY"
abbreviation epolled :: "cp_sock \<Rightarrow> bool" where "epolled \<equiv> has_flag FLAG_SOCK_EPOLLED"

definition sock_view :: "cp_sock \<Rightarrow> sock_view" where
  "sock_view s = \<lparr>v_reg = registered s, v_epolled = epolled s, v_mode = s_mode s, v_serv = s_serv_sock s,
     v_list = s_accept_list s, v_cnt = s_accept_cnt s\<rparr>"

definition view :: "cp_fds \<Rightarrow> addr \<rightharpoonup> sock_view" where
  "view st a = map_option sock_view (f_socks st a)"

datatype home = Clients | Servers | Accepted addr

definition home_of :: "sock_view \<Rightarrow> home option" where
  "home_of v =
     (if \<not> v_reg v then None
      else if v_mode v = CP_SOCK_MODE_CONNECT then Some Clients
      else if v_mode v = CP_SOCK_MODE_LISTEN then Some Servers
      else if v_mode v = CP_SOCK_MODE_ACCEPT then map_option Accepted (v_serv v)
      else None)"

definition home_at :: "(addr \<rightharpoonup> sock_view) \<Rightarrow> addr \<Rightarrow> home option" where
  "home_at vw a = Option.bind (vw a) home_of"

fun list_of :: "(addr \<rightharpoonup> sock_view) \<Rightarrow> addr list \<Rightarrow> addr list \<Rightarrow> home \<Rightarrow> addr list" where
  "list_of vw cl sl Clients = cl"
| "list_of vw cl sl Servers = sl"
| "list_of vw cl sl (Accepted v) = (case vw v of None \<Rightarrow> [] | Some w \<Rightarrow> v_list w)"

definition watched :: "(addr \<rightharpoonup> sock_view) \<Rightarrow> addr set" where
  "watched vw = {a. \<exists>v. vw a = Some v \<and> v_epolled v}"

definition reg_inv :: "(addr \<rightharpoonup> sock_view) \<Rightarrow> addr list \<Rightarrow> addr list \<Rightarrow> int \<Rightarrow> bool" where
  "reg_inv vw cl sl n \<longleftrightarrow>
     (\<forall>h. distinct (list_of vw cl sl h) \<and> (\<forall>a. a \<in> set (list_of vw cl sl h) \<longleftrightarrow> home_at vw a = Some h)) \<and>
     (\<forall>a v. vw a = Some v \<longrightarrow> (v_reg v \<longrightarrow> home_of v \<noteq> None) \<and> v_cnt v = int (length (v_list v))) \<and>
     finite (dom vw) \<and> n = int (card (watched vw))"

definition reg_ok :: "cp_fds \<Rightarrow> bool" where
  "reg_ok st \<longleftrightarrow> reg_inv (view st) (f_client_list st) (f_server_list st) (f_event_cnt st)"

abbreviation lists :: "cp_fds \<Rightarrow> home \<Rightarrow> addr list" where
  "lists st \<equiv> list_of (view st) (f_client_list st) (f_server_list st)"

lemma reg_inv_lists:
  "reg_inv vw cl sl n \<Longrightarrow> distinct (list_of vw cl sl h)"
  "reg_inv vw cl sl n \<Longrightarrow> a \<in> set (list_of vw cl sl h) \<longleftrightarrow> home_at vw a = Some h"
  by (simp_all add: reg_inv_def)

lemma watched_finite: "finite (dom vw) \<Longrightarrow> finite (watched vw)"
  by (rule finite_subset [of _ "dom vw"]) (auto simp: watched_def)

text \<open>One socket enters a list, or leaves it.\<close>

lemma reg_inv_enter:
  assumes "reg_inv vw cl sl n" "home_at vw a = None"
    "\<And>b. home_at vw' b = (if b = a then Some h else home_at vw b)"
    "\<And>g. list_of vw' cl' sl' g = list_of vw cl sl g @ (if g = h then [a] else [])"
    "\<And>b v. vw' b = Some v \<Longrightarrow> (v_reg v \<longrightarrow> home_of v \<noteq> None) \<and> v_cnt v = int (length (v_list v))"
    "dom vw' = dom vw" "watched vw' = watched vw"
  shows "reg_inv vw' cl' sl' n"
proof -
  have "a \<notin> set (list_of vw cl sl g)" for g using reg_inv_lists(2) [OF assms(1)] assms(2) by simp
  then have "distinct (list_of vw' cl' sl' g)" for g
    using reg_inv_lists(1) [OF assms(1)] assms(4) by simp
  moreover have "b \<in> set (list_of vw' cl' sl' g) \<longleftrightarrow> home_at vw' b = Some g" for b g
    using reg_inv_lists(2) [OF assms(1), of b g] assms(2,3,4) by auto
  moreover have "finite (dom vw')" "n = int (card (watched vw'))"
    using assms(1,6,7) by (simp_all add: reg_inv_def)
  ultimately show ?thesis
    using assms(5) unfolding reg_inv_def by blast
qed

lemma reg_inv_leave:
  assumes "reg_inv vw cl sl n"
    "\<And>b. home_at vw' b = (if b = a then None else home_at vw b)"
    "\<And>g. list_of vw' cl' sl' g = remove1 a (list_of vw cl sl g)"
    "\<And>b v. vw' b = Some v \<Longrightarrow> (v_reg v \<longrightarrow> home_of v \<noteq> None) \<and> v_cnt v = int (length (v_list v))"
    "dom vw' = dom vw" "watched vw' = watched vw"
  shows "reg_inv vw' cl' sl' n"
proof -
  have "distinct (list_of vw' cl' sl' g)" for g
    using reg_inv_lists(1) [OF assms(1)] assms(3) by simp
  moreover have "b \<in> set (list_of vw' cl' sl' g) \<longleftrightarrow> home_at vw' b = Some g" for b g
    using reg_inv_lists [OF assms(1)] assms(2,3) by (auto simp: reg_inv_lists)
  moreover have "finite (dom vw')" "n = int (card (watched vw'))"
    using assms(1,5,6) by (simp_all add: reg_inv_def)
  ultimately show ?thesis
    using assms(4) unfolding reg_inv_def by blast
qed

section \<open>The operations on the view\<close>

lemma flag_tests_reg [simp]:
  "registered (set_flag FLAG_SOCK_REGISTRY s)" "\<not> registered (clear_flag FLAG_SOCK_REGISTRY s)"
  "epolled (set_flag FLAG_SOCK_EPOLLED s)" "\<not> epolled (clear_flag FLAG_SOCK_EPOLLED s)"
  "registered (set_flag FLAG_SOCK_EPOLLED s) = registered s" "registered (clear_flag FLAG_SOCK_EPOLLED s) = registered s"
  "registered (set_flag FLAG_SOCK_TASKED s) = registered s" "registered (clear_flag FLAG_SOCK_TASKED s) = registered s"
  "registered (set_flag FLAG_SOCK_INQUEUE s) = registered s" "registered (clear_flag FLAG_SOCK_INQUEUE s) = registered s"
  "registered (set_flag FLAG_SOCK_INIT s) = registered s" "registered (set_flag FLAG_SOCK_MALLOC s) = registered s"
  "epolled (set_flag FLAG_SOCK_REGISTRY s) = epolled s" "epolled (clear_flag FLAG_SOCK_REGISTRY s) = epolled s"
  "epolled (set_flag FLAG_SOCK_TASKED s) = epolled s" "epolled (clear_flag FLAG_SOCK_TASKED s) = epolled s"
  "epolled (set_flag FLAG_SOCK_INQUEUE s) = epolled s" "epolled (clear_flag FLAG_SOCK_INQUEUE s) = epolled s"
  "epolled (set_flag FLAG_SOCK_INIT s) = epolled s" "epolled (set_flag FLAG_SOCK_MALLOC s) = epolled s"
  by (simp_all only: flag_defs has_flag_set has_flag_clear rel_simps simp_thms zero_less_numeral numeral_less_iff)

lemma sock_fields_flag [simp]:
  "s_mode (set_flag f s) = s_mode s" "s_mode (clear_flag f s) = s_mode s"
  "s_accept_list (set_flag f s) = s_accept_list s" "s_accept_list (clear_flag f s) = s_accept_list s"
  "s_accept_cnt (set_flag f s) = s_accept_cnt s" "s_accept_cnt (clear_flag f s) = s_accept_cnt s"
  by (simp_all add: set_flag_def clear_flag_def)

lemma sock_view_flag [simp]:
  "sock_view (set_flag FLAG_SOCK_REGISTRY s) = (sock_view s)\<lparr>v_reg := True\<rparr>"
  "sock_view (clear_flag FLAG_SOCK_REGISTRY s) = (sock_view s)\<lparr>v_reg := False\<rparr>"
  "sock_view (set_flag FLAG_SOCK_EPOLLED s) = (sock_view s)\<lparr>v_epolled := True\<rparr>"
  "sock_view (clear_flag FLAG_SOCK_EPOLLED s) = (sock_view s)\<lparr>v_epolled := False\<rparr>"
  "sock_view (set_flag FLAG_SOCK_TASKED s) = sock_view s" "sock_view (clear_flag FLAG_SOCK_TASKED s) = sock_view s"
  "sock_view (set_flag FLAG_SOCK_INQUEUE s) = sock_view s" "sock_view (clear_flag FLAG_SOCK_INQUEUE s) = sock_view s"
  "sock_view (set_flag FLAG_SOCK_INIT s) = sock_view s"
  by (simp_all add: sock_view_def)

lemma sock_view_simps [simp]:
  "v_reg (sock_view s) = registered s" "v_epolled (sock_view s) = epolled s" "v_mode (sock_view s) = s_mode s"
  "v_serv (sock_view s) = s_serv_sock s" "v_list (sock_view s) = s_accept_list s" "v_cnt (sock_view s) = s_accept_cnt s"
  by (simp_all add: sock_view_def)

lemma view_put [simp]: "view (put_sock a s st) = (view st)(a \<mapsto> sock_view s)"
  by (rule ext) (simp add: view_def)

lemma view_fields [simp]:
  "view (st\<lparr>f_client_list := cl\<rparr>) = view st" "view (st\<lparr>f_server_list := sl\<rparr>) = view st"
  "view (st\<lparr>f_event_cnt := n\<rparr>) = view st" "view (st\<lparr>f_privt_calls := cs\<rparr>) = view st"
  "view (st\<lparr>f_calls := ks\<rparr>) = view st"
  by (rule ext, simp add: view_def)+

lemma put_sock_twice [simp]: "put_sock a s' (put_sock a s st) = put_sock a s' st"
  by (simp add: put_sock_def)

lemma put_sock_lists [simp]:
  "f_client_list (put_sock a s st) = f_client_list st" "f_server_list (put_sock a s st) = f_server_list st"
  "f_event_cnt (put_sock a s st) = f_event_cnt st" "f_max_event (put_sock a s st) = f_max_event st"
  by (simp_all add: put_sock_def)

lemma home_at_upd: "home_at (vw(a \<mapsto> v)) b = (if b = a then home_of v else home_at vw b)"
  by (simp add: home_at_def)

lemma home_of_upd [simp]:
  "home_of (v\<lparr>v_list := l\<rparr>) = home_of v" "home_of (v\<lparr>v_cnt := n\<rparr>) = home_of v"
  "home_of (v\<lparr>v_epolled := e\<rparr>) = home_of v" "home_of (v\<lparr>v_reg := False\<rparr>) = None"
  by (simp_all add: home_of_def)

lemma watched_upd:
  "vw a = Some v \<Longrightarrow> v_epolled w = v_epolled v \<Longrightarrow> watched (vw(a \<mapsto> w)) = watched vw"
  by (auto simp: watched_def)

lemma watched_map:
  assumes "\<And>b. vw' b = map_option (f b) (vw b)" "\<And>b v. v_epolled (f b v) = v_epolled v"
  shows "watched vw' = watched vw"
proof -
  have "(\<exists>v. vw' b = Some v \<and> v_epolled v) \<longleftrightarrow> (\<exists>v. vw b = Some v \<and> v_epolled v)" for b
    using assms by (cases "vw b") simp_all
  then show ?thesis by (simp add: watched_def)
qed

text \<open>Where a socket is registered: the list it goes to, which exists.\<close>

definition can_enter :: "cp_fds \<Rightarrow> addr \<Rightarrow> cp_sock \<Rightarrow> home \<Rightarrow> bool" where
  "can_enter st a s h \<longleftrightarrow>
     (case h of
        Clients \<Rightarrow> s_mode s = CP_SOCK_MODE_CONNECT
      | Servers \<Rightarrow> s_mode s = CP_SOCK_MODE_LISTEN
      | Accepted v \<Rightarrow> s_mode s = CP_SOCK_MODE_ACCEPT \<and> s_serv_sock s = Some v \<and> v \<noteq> a \<and>
          (\<exists>srv. f_socks st v = Some srv \<and> s_mode srv = CP_SOCK_MODE_LISTEN))"

lemmas mode_defs = CP_SOCK_MODE_CONNECT_def CP_SOCK_MODE_LISTEN_def CP_SOCK_MODE_ACCEPT_def

lemma can_enter_home: "can_enter st a s h \<Longrightarrow> home_of ((sock_view s)\<lparr>v_reg := True\<rparr>) = Some h"
  by (cases h) (auto simp: can_enter_def home_of_def mode_defs)

text \<open>Registering.\<close>

lemma add_registry_ok:
  assumes "reg_ok st" "f_socks st a = Some s" "s_fds s" "\<not> registered s" "can_enter st a s h"
  obtains st' where "cp_fds_add_sock_registry (Some a) st = Some (0, st')" "reg_ok st'"
    "\<And>g. lists st' g = lists st g @ (if g = h then [a] else [])"
    "f_socks st' a = Some (set_flag FLAG_SOCK_REGISTRY s)"
    "\<And>b. b \<noteq> a \<Longrightarrow> f_socks st' b = (case h of Accepted v \<Rightarrow> if b = v
        then map_option (\<lambda>srv. srv\<lparr>s_accept_list := s_accept_list srv @ [a], s_accept_cnt := s_accept_cnt srv + 1\<rparr>) (f_socks st b)
        else f_socks st b | _ \<Rightarrow> f_socks st b)"
    "f_queue st' = f_queue st" "f_heap st' = f_heap st" "f_tasks st' = f_tasks st" "f_max_event st' = f_max_event st"
proof -
  have ok: "reg_inv (view st) (f_client_list st) (f_server_list st) (f_event_cnt st)" using assms(1) by (simp add: reg_ok_def)
  have va: "view st a = Some (sock_view s)" using assms(2) by (simp add: view_def)
  have none: "home_at (view st) a = None" using va assms(4) by (simp add: home_at_def home_of_def)
  have hs: "home_of ((sock_view s)\<lparr>v_reg := True\<rparr>) = Some h" by (rule can_enter_home [OF assms(5)])
  have each: "(v_reg v \<longrightarrow> home_of v \<noteq> None) \<and> v_cnt v = int (length (v_list v))" if "view st b = Some v" for b v
    using ok that by (auto simp: reg_inv_def)
  let ?s = "set_flag FLAG_SOCK_REGISTRY s"
  show thesis
  proof (cases h)
    case Clients
    let ?st = "put_sock a ?s (st\<lparr>f_client_list := f_client_list st @ [a]\<rparr>)"
    have "cp_fds_add_sock_registry (Some a) st = Some (0, ?st)"
      using assms(2-5) Clients by (simp add: cp_fds_add_sock_registry_def can_enter_def)
    moreover have lists: "lists ?st g = lists st g @ (if g = h then [a] else [])" for g
      using Clients va by (cases g) (auto split: option.splits)
    moreover have "reg_inv (view ?st) (f_client_list ?st) (f_server_list ?st) (f_event_cnt st)"
      by (rule reg_inv_enter [OF ok none, where h = h])
        (use hs lists each [OF va] each va in \<open>auto simp: home_at_upd watched_def split: if_splits\<close>)
    ultimately show thesis using that [of ?st] Clients by (simp add: reg_ok_def)
  next
    case Servers
    let ?st = "put_sock a ?s (st\<lparr>f_server_list := f_server_list st @ [a]\<rparr>)"
    have "cp_fds_add_sock_registry (Some a) st = Some (0, ?st)"
      using assms(2-5) Servers by (simp add: cp_fds_add_sock_registry_def can_enter_def mode_defs)
    moreover have lists: "lists ?st g = lists st g @ (if g = h then [a] else [])" for g
      using Servers va by (cases g) (auto split: option.splits)
    moreover have "reg_inv (view ?st) (f_client_list ?st) (f_server_list ?st) (f_event_cnt st)"
      by (rule reg_inv_enter [OF ok none, where h = h])
        (use hs lists each [OF va] each va in \<open>auto simp: home_at_upd watched_def split: if_splits\<close>)
    ultimately show thesis using that [of ?st] Servers by (simp add: reg_ok_def)
  next
    case (Accepted v)
    then obtain srv where v: "s_mode s = CP_SOCK_MODE_ACCEPT" "s_serv_sock s = Some v" "v \<noteq> a" "f_socks st v = Some srv"
      using assms(5) by (auto simp: can_enter_def)
    let ?srv = "srv\<lparr>s_accept_list := s_accept_list srv @ [a], s_accept_cnt := s_accept_cnt srv + 1\<rparr>"
    let ?st = "put_sock a ?s (put_sock v ?srv st)"
    have vv: "view st v = Some (sock_view srv)" using v(4) by (simp add: view_def)
    have wv: "sock_view ?srv = (sock_view srv)\<lparr>v_list := s_accept_list srv @ [a], v_cnt := s_accept_cnt srv + 1\<rparr>"
      by (simp add: sock_view_def)
    have "cp_fds_add_sock_registry (Some a) st = Some (0, ?st)"
      using assms(2-4) v by (simp add: cp_fds_add_sock_registry_def mode_defs Let_def)
    moreover have lists: "lists ?st g = lists st g @ (if g = h then [a] else [])" for g
      using Accepted va vv wv v(3) by (cases g) (auto split: option.splits)
    moreover have "reg_inv (view ?st) (f_client_list st) (f_server_list st) (f_event_cnt st)"
    proof (rule reg_inv_enter [OF ok none, where h = h])
      show "home_at (view ?st) b = (if b = a then Some h else home_at (view st) b)" for b
        using hs vv v(3) by (simp add: home_at_def wv)
      show "list_of (view ?st) (f_client_list st) (f_server_list st) g =
          list_of (view st) (f_client_list st) (f_server_list st) g @ (if g = h then [a] else [])" for g
        using lists [of g] by simp
      show "(v_reg w \<longrightarrow> home_of w \<noteq> None) \<and> v_cnt w = int (length (v_list w))" if "view ?st b = Some w" for b w
        using that hs each [OF va] each [OF vv] each wv by (auto split: if_splits)
      show "dom (view ?st) = dom (view st)" using va vv by auto
      show "watched (view ?st) = watched (view st)" using va vv v(3) wv by (auto simp: watched_def)
    qed
    ultimately show thesis using that [of ?st] Accepted v(3,4) by (simp add: reg_ok_def)
  qed
qed


text \<open>Unregistering.\<close>

lemma view_unlink: "view (unlink_registry a st) b = map_option (\<lambda>v. v\<lparr>v_list := remove1 a (v_list v)\<rparr>) (view st b)"
  by (cases "f_socks st b") (simp_all add: view_def unlink_registry_def sock_view_def has_flag_def)

lemma home_atE:
  assumes "home_at vw a = Some h"
  obtains v where "vw a = Some v" "home_of v = Some h" "v_reg v"
  using assms by (cases "vw a") (auto simp: home_at_def home_of_def split: if_splits)

lemma home_of_Accepted:
  "home_of v = Some (Accepted u) \<longleftrightarrow> v_reg v \<and> v_mode v = CP_SOCK_MODE_ACCEPT \<and> v_serv v = Some u"
  by (auto simp: home_of_def mode_defs)

lemma del_registry_ok:
  assumes "reg_ok st" "f_socks st a = Some s" "s_serv_sock s \<noteq> Some a"
  obtains st' s' where "cp_fds_del_sock_registry (Some a) st = Some st'" "reg_ok st'"
    "\<And>g. lists st' g = remove1 a (lists st g)"
    "f_socks st' a = Some s'" "sock_view s' = (sock_view s)\<lparr>v_reg := False, v_list := remove1 a (s_accept_list s)\<rparr>"
proof (cases "registered s")
  case False
  have ok: "reg_inv (view st) (f_client_list st) (f_server_list st) (f_event_cnt st)" using assms(1) by (simp add: reg_ok_def)
  have va: "view st a = Some (sock_view s)" using assms(2) by (simp add: view_def)
  have "a \<notin> set (lists st g)" for g
    using reg_inv_lists(2) [OF ok, of a g] va False by (simp add: home_at_def home_of_def)
  then have id: "remove1 a (lists st g) = lists st g" for g by (simp add: remove1_idem)
  have "a \<notin> set (s_accept_list s)"
    using \<open>a \<notin> set (lists st (Accepted a))\<close> va by simp
  then have "sock_view s = (sock_view s)\<lparr>v_reg := False, v_list := remove1 a (s_accept_list s)\<rparr>"
    using False by (simp add: sock_view_def remove1_idem)
  moreover have "cp_fds_del_sock_registry (Some a) st = Some st"
    using assms(2) False by (simp add: cp_fds_del_sock_registry_def)
  ultimately show thesis using that [of st s] assms(1,2) id by simp
next
  case True
  have ok: "reg_inv (view st) (f_client_list st) (f_server_list st) (f_event_cnt st)" using assms(1) by (simp add: reg_ok_def)
  have va: "view st a = Some (sock_view s)" using assms(2) by (simp add: view_def)
  have each: "(v_reg v \<longrightarrow> home_of v \<noteq> None) \<and> v_cnt v = int (length (v_list v))" if "view st b = Some v" for b v
    using ok that by (auto simp: reg_inv_def)
  obtain h where h: "home_of (sock_view s) = Some h" using each [OF va] True by auto
  then have home: "home_at (view st) a = Some h" using va by (simp add: home_at_def)
  have inh: "a \<in> set (lists st g) \<longleftrightarrow> g = h" for g
    using reg_inv_lists(2) [OF ok, of a g] home by auto
  define count :: "addr \<Rightarrow> sock_view \<Rightarrow> sock_view" where "count b v = (if h = Accepted b then v\<lparr>v_cnt := v_cnt v - 1\<rparr> else v)" for b v
  obtain st1 where st1: "(case s_serv_sock s of
      Some v \<Rightarrow> if s_mode s = CP_SOCK_MODE_ACCEPT
        then do { srv \<leftarrow> f_socks st v; Some (put_sock v (srv\<lparr>s_accept_cnt := s_accept_cnt srv - 1\<rparr>) st) }
        else Some st
      | None \<Rightarrow> Some st) = Some st1"
    "f_client_list st1 = f_client_list st" "f_server_list st1 = f_server_list st" "f_event_cnt st1 = f_event_cnt st"
    "\<And>b. view st1 b = map_option (count b) (view st b)"
  proof (cases h)
    case (Accepted u)
    then have u: "s_mode s = CP_SOCK_MODE_ACCEPT" "s_serv_sock s = Some u" using h by (simp_all add: home_of_Accepted)
    have "lists st h \<noteq> []" using inh [of h] by auto
    then obtain srv where srv: "f_socks st u = Some srv" using Accepted by (cases "f_socks st u") (simp_all add: view_def)
    let ?st = "put_sock u (srv\<lparr>s_accept_cnt := s_accept_cnt srv - 1\<rparr>) st"
    have "view ?st b = map_option (count b) (view st b)" for b
      using srv Accepted by (cases "view st b") (auto simp: count_def view_def sock_view_def)
    then show thesis using that [of ?st] u srv by simp
  next
    case Clients
    then have "s_mode s \<noteq> CP_SOCK_MODE_ACCEPT" using h by (auto simp: home_of_def mode_defs split: if_splits)
    moreover have "map_option (count b) x = x" for b x using Clients by (cases x) (simp_all add: count_def)
    ultimately show thesis using that [of st] by (simp split: option.splits)
  next
    case Servers
    then have "s_mode s \<noteq> CP_SOCK_MODE_ACCEPT" using h by (auto simp: home_of_def mode_defs split: if_splits)
    moreover have "map_option (count b) x = x" for b x using Servers by (cases x) (simp_all add: count_def)
    ultimately show thesis using that [of st] by (simp split: option.splits)
  qed
  let ?st2 = "unlink_registry a st1"
  have "h \<noteq> Accepted a"
    using assms(3) h by (auto simp: home_of_Accepted)
  have v2: "view ?st2 b = map_option (\<lambda>v. (count b v)\<lparr>v_list := remove1 a (v_list v)\<rparr>) (view st b)" for b
    using st1(5) [of b] by (cases "view st b") (auto simp: view_unlink count_def)
  have "view ?st2 a = Some ((sock_view s)\<lparr>v_list := remove1 a (s_accept_list s)\<rparr>)"
    using v2 [of a] va \<open>h \<noteq> Accepted a\<close> by (simp add: count_def)
  then obtain s2 where s2: "f_socks ?st2 a = Some s2" "sock_view s2 = (sock_view s)\<lparr>v_list := remove1 a (s_accept_list s)\<rparr>"
    by (auto simp: view_def)
  let ?s = "clear_flag FLAG_SOCK_REGISTRY s2" and ?st = "put_sock a (clear_flag FLAG_SOCK_REGISTRY s2) ?st2"
  have call: "cp_fds_del_sock_registry (Some a) st = Some ?st"
    using True assms(2) st1(1) s2(1) by (simp add: cp_fds_del_sock_registry_def Let_def)
  have fl: "f_client_list ?st2 = remove1 a (f_client_list st)" "f_server_list ?st2 = remove1 a (f_server_list st)"
    "f_event_cnt ?st2 = f_event_cnt st"
    using st1(2-4) by (simp_all add: unlink_registry_def)
  have vw: "view ?st b = map_option (\<lambda>v. (count b v)\<lparr>v_list := remove1 a (v_list v), v_reg := v_reg v \<and> b \<noteq> a\<rparr>) (view st b)" for b
    using v2 [of b] s2(2) va \<open>h \<noteq> Accepted a\<close> by (cases "view st b") (auto simp: count_def)
  have ls: "list_of (view ?st) (f_client_list ?st) (f_server_list ?st) g = remove1 a (lists st g)" for g
    using fl vw by (cases g) (auto simp: count_def split: option.splits)
  have "reg_inv (view ?st) (f_client_list ?st) (f_server_list ?st) (f_event_cnt st)"
  proof (rule reg_inv_leave [OF ok])
    show "home_at (view ?st) b = (if b = a then None else home_at (view st) b)" for b
      using vw [of b] va by (cases "view st b") (auto simp: home_at_def count_def home_of_def)
    show "list_of (view ?st) (f_client_list ?st) (f_server_list ?st) g = remove1 a (lists st g)" for g by (rule ls)
    show "(v_reg w \<longrightarrow> home_of w \<noteq> None) \<and> v_cnt w = int (length (v_list w))" if w: "view ?st b = Some w" for b w
    proof -
      obtain v where v: "view st b = Some v" "w = (count b v)\<lparr>v_list := remove1 a (v_list v), v_reg := v_reg v \<and> b \<noteq> a\<rparr>"
        using vw [of b] w by (cases "view st b") auto
      have "a \<in> set (v_list v) \<longleftrightarrow> h = Accepted b" using inh [of "Accepted b"] v(1) by auto
      then have "v_cnt w = int (length (v_list w))"
        using each [OF v(1)] v(2) length_pos_if_in_set [of a "v_list v"]
        by (cases "h = Accepted b") (auto simp: count_def length_remove1 of_nat_diff Suc_le_eq)
      moreover have "v_reg w \<longrightarrow> home_of w \<noteq> None"
        using each [OF v(1)] v(2) by (auto simp: count_def home_of_def)
      ultimately show ?thesis by simp
    qed
    show "dom (view ?st) = dom (view st)" using vw by (auto simp: dom_def)
    show "watched (view ?st) = watched (view st)"
      by (rule watched_map [where f = "\<lambda>b v. (count b v)\<lparr>v_list := remove1 a (v_list v), v_reg := v_reg v \<and> b \<noteq> a\<rparr>"])
        (rule vw, simp add: count_def)
  qed
  then have "reg_ok ?st" using fl by (simp add: reg_ok_def)
  moreover have "sock_view ?s = (sock_view s)\<lparr>v_reg := False, v_list := remove1 a (s_accept_list s)\<rparr>"
    using s2(2) by simp
  ultimately show thesis using that [OF call, of ?s] ls by simp
qed

end
