(* ===== verification/NetInv.thy ===== *)
theory NetInv
  imports Registry
begin

text \<open>
  The invariant of the context with its services: the event queue and the task array are consistent (\<open>fds_wf\<close>), the
  registry is (\<open>reg_ok\<close>), and every socket is a live heap object within its limits. Each operation on a socket of
  the context keeps it.
\<close>

section \<open>The invariant\<close>

definition sock_ok :: "cp_sock \<Rightarrow> bool" where
  "sock_ok s \<longleftrightarrow> s_fds s \<and> bufs_live s \<and> has_flag FLAG_SOCK_INIT s \<and> has_flag FLAG_SOCK_MALLOC s \<and>
     length (s_laddr s) = 16 \<and> length (s_raddr s) = 16 \<and> s_accept_cnt s \<le> s_max_client s \<and>
     (s_mode s \<noteq> CP_SOCK_MODE_LISTEN \<longrightarrow> s_accept_list s = [])"

definition net_inv :: "cp_fds \<Rightarrow> bool" where
  "net_inv st \<longleftrightarrow> fds_wf st \<and> reg_ok st \<and> (\<forall>a s. f_socks st a = Some s \<longrightarrow> sock_ok s \<and> s_serv_sock s \<noteq> Some a)"

text \<open>The part that does not speak of queue and array.\<close>

definition core_inv :: "cp_fds \<Rightarrow> bool" where
  "core_inv st \<longleftrightarrow> reg_ok st \<and> (\<forall>a s. f_socks st a = Some s \<longrightarrow> sock_ok s \<and> s_serv_sock s \<noteq> Some a)"

lemma net_inv_core: "net_inv st \<longleftrightarrow> fds_wf st \<and> core_inv st"
  by (simp add: net_inv_def core_inv_def)

lemma core_invD:
  assumes "core_inv st"
  shows "reg_ok st" "f_socks st a = Some s \<Longrightarrow> sock_ok s" "f_socks st a = Some s \<Longrightarrow> s_serv_sock s \<noteq> Some a"
  using assms by (auto simp: core_inv_def)

lemma net_invD:
  assumes "net_inv st"
  shows "fds_wf st" "reg_ok st" "f_socks st a = Some s \<Longrightarrow> sock_ok s"
    "f_socks st a = Some s \<Longrightarrow> s_serv_sock s \<noteq> Some a"
  using assms by (auto simp: net_inv_def)

lemma flag_tests_init [simp]:
  "has_flag FLAG_SOCK_INIT (set_flag FLAG_SOCK_REGISTRY s) = has_flag FLAG_SOCK_INIT s"
  "has_flag FLAG_SOCK_INIT (clear_flag FLAG_SOCK_REGISTRY s) = has_flag FLAG_SOCK_INIT s"
  "has_flag FLAG_SOCK_INIT (set_flag FLAG_SOCK_EPOLLED s) = has_flag FLAG_SOCK_INIT s"
  "has_flag FLAG_SOCK_INIT (clear_flag FLAG_SOCK_EPOLLED s) = has_flag FLAG_SOCK_INIT s"
  "has_flag FLAG_SOCK_INIT (set_flag FLAG_SOCK_TASKED s) = has_flag FLAG_SOCK_INIT s"
  "has_flag FLAG_SOCK_INIT (clear_flag FLAG_SOCK_TASKED s) = has_flag FLAG_SOCK_INIT s"
  "has_flag FLAG_SOCK_INIT (set_flag FLAG_SOCK_INQUEUE s) = has_flag FLAG_SOCK_INIT s"
  "has_flag FLAG_SOCK_INIT (clear_flag FLAG_SOCK_INQUEUE s) = has_flag FLAG_SOCK_INIT s"
  "has_flag FLAG_SOCK_INIT (set_flag FLAG_SOCK_INIT s)"
  "has_flag FLAG_SOCK_MALLOC (set_flag FLAG_SOCK_REGISTRY s) = has_flag FLAG_SOCK_MALLOC s"
  "has_flag FLAG_SOCK_MALLOC (clear_flag FLAG_SOCK_REGISTRY s) = has_flag FLAG_SOCK_MALLOC s"
  "has_flag FLAG_SOCK_MALLOC (set_flag FLAG_SOCK_EPOLLED s) = has_flag FLAG_SOCK_MALLOC s"
  "has_flag FLAG_SOCK_MALLOC (clear_flag FLAG_SOCK_EPOLLED s) = has_flag FLAG_SOCK_MALLOC s"
  "has_flag FLAG_SOCK_MALLOC (set_flag FLAG_SOCK_TASKED s) = has_flag FLAG_SOCK_MALLOC s"
  "has_flag FLAG_SOCK_MALLOC (clear_flag FLAG_SOCK_TASKED s) = has_flag FLAG_SOCK_MALLOC s"
  "has_flag FLAG_SOCK_MALLOC (set_flag FLAG_SOCK_INQUEUE s) = has_flag FLAG_SOCK_MALLOC s"
  "has_flag FLAG_SOCK_MALLOC (clear_flag FLAG_SOCK_INQUEUE s) = has_flag FLAG_SOCK_MALLOC s"
  "has_flag FLAG_SOCK_MALLOC (set_flag FLAG_SOCK_INIT s) = has_flag FLAG_SOCK_MALLOC s"
  by (simp_all only: flag_defs has_flag_set has_flag_clear rel_simps simp_thms zero_less_numeral numeral_less_iff)

lemma flag_tests_place [simp]:
  "inq (set_flag FLAG_SOCK_INIT s) = inq s" "tasked (set_flag FLAG_SOCK_INIT s) = tasked s"
  by (simp_all only: flag_defs has_flag_set has_flag_clear rel_simps simp_thms zero_less_numeral numeral_less_iff)

lemma sock_view_upd [simp]:
  "sock_view (s\<lparr>s_events := e\<rparr>) = sock_view s" "sock_view (s\<lparr>s_index := i\<rparr>) = sock_view s"
  by (simp_all add: sock_view_def)

lemma more_fields_flag [simp]:
  "s_fd (set_flag f s) = s_fd s" "s_fd (clear_flag f s) = s_fd s"
  "s_laddr (set_flag f s) = s_laddr s" "s_laddr (clear_flag f s) = s_laddr s"
  "s_raddr (set_flag f s) = s_raddr s" "s_raddr (clear_flag f s) = s_raddr s"
  "s_status (set_flag f s) = s_status s" "s_status (clear_flag f s) = s_status s"
  "s_max_client (set_flag f s) = s_max_client s" "s_max_client (clear_flag f s) = s_max_client s"
  by (simp_all add: set_flag_def clear_flag_def)

lemma sock_ok_flag [simp]:
  "sock_ok (set_flag FLAG_SOCK_REGISTRY s) = sock_ok s" "sock_ok (clear_flag FLAG_SOCK_REGISTRY s) = sock_ok s"
  "sock_ok (set_flag FLAG_SOCK_EPOLLED s) = sock_ok s" "sock_ok (clear_flag FLAG_SOCK_EPOLLED s) = sock_ok s"
  "sock_ok (set_flag FLAG_SOCK_TASKED s) = sock_ok s" "sock_ok (clear_flag FLAG_SOCK_TASKED s) = sock_ok s"
  "sock_ok (set_flag FLAG_SOCK_INQUEUE s) = sock_ok s" "sock_ok (clear_flag FLAG_SOCK_INQUEUE s) = sock_ok s"
  "sock_ok (s\<lparr>s_events := e\<rparr>) = sock_ok s" "sock_ok (s\<lparr>s_index := i\<rparr>) = sock_ok s"
  by (simp_all add: sock_ok_def)

text \<open>What the operations on a socket alone keep.\<close>

definition sock_core :: "cp_sock \<Rightarrow> _" where
  "sock_core s = (s_flag s, s_mode s, s_index s, s_serv_sock s, s_accept_list s, s_accept_cnt s, s_fds s, s_rbuf s,
     s_sbuf s, length (s_laddr s), length (s_raddr s))"

lemma sock_coreD:
  assumes "sock_core s' = sock_core s"
  shows "has_flag f s' = has_flag f s" "s_mode s' = s_mode s" "s_index s' = s_index s" "s_serv_sock s' = s_serv_sock s"
    "s_accept_list s' = s_accept_list s" "s_accept_cnt s' = s_accept_cnt s" "s_fds s' = s_fds s"
    "bufs_live s' = bufs_live s" "length (s_laddr s') = length (s_laddr s)" "length (s_raddr s') = length (s_raddr s)"
    "sock_view s' = sock_view s"
  using assms by (simp_all add: sock_core_def has_flag_def bufs_live_def sock_view_def)

lemma net_inv_put_core:
  assumes "net_inv st" "f_socks st a = Some s" "sock_core s' = sock_core s" "s_accept_cnt s' \<le> s_max_client s'"
  shows "net_inv (put_sock a s' st)" "lists (put_sock a s' st) = lists st"
proof -
  note c = sock_coreD [OF assms(3)]
  have vw: "view (put_sock a s' st) = view st"
    using assms(2) c(11) by (auto simp: view_def)
  then show ls: "lists (put_sock a s' st) = lists st" by simp
  have "sock_ok s'"
    using net_invD(3) [OF assms(1,2)] c assms(4) by (simp add: sock_ok_def)
  moreover have "fds_wf (put_sock a s' st)"
    by (rule fds_wf_put_same [OF net_invD(1) [OF assms(1)] assms(2)]) (simp_all add: c)
  moreover have "reg_ok (put_sock a s' st)"
    using net_invD(2) [OF assms(1)] vw by (simp add: reg_ok_def)
  ultimately show "net_inv (put_sock a s' st)"
    using assms(1,2) c(4) by (auto simp: net_inv_def)
qed

section \<open>A new socket\<close>

lemma reg_inv_same:
  assumes "reg_inv vw cl sl n" "\<And>b. home_at vw' b = home_at vw b"
    "\<And>g. list_of vw' cl' sl' g = list_of vw cl sl g"
    "\<And>b v. vw' b = Some v \<Longrightarrow> (v_reg v \<longrightarrow> home_of v \<noteq> None) \<and> v_cnt v = int (length (v_list v))"
    "finite (dom vw')" "m = int (card (watched vw'))"
  shows "reg_inv vw' cl' sl' m"
  using assms unfolding reg_inv_def by auto

lemma fds_wf_new:
  assumes "fds_wf st" "f_socks st a = None" "\<not> inq s" "\<not> tasked s"
  shows "fds_wf (put_sock a s st)"
proof -
  note w = fds_wfD [OF assms(1)]
  have "a \<notin> set (waiting st)" using w(5) assms(2) by simp
  then have inq: "b \<in> set (waiting st) \<longleftrightarrow> (\<exists>x. f_socks (put_sock a s st) b = Some x \<and> inq x)" for b
    using w(5) [of b] assms(3) by (cases "b = a") simp_all
  have "Some a \<notin> set (task_cells st)" using w(7) [of a] assms(2) by auto
  then have "task_ok (task_cells st) a s" using assms(4) by (auto simp: task_ok_def in_set_conv_nth)
  then have ok: "task_ok (task_cells st) b x" if "f_socks (put_sock a s st) b = Some x" for b x
    using w(6) [of b x] that by (auto split: if_splits)
  have live: "f_socks (put_sock a s st) b \<noteq> None" if "Some b \<in> set (task_cells st)" for b
    using w(7) [OF that] by simp
  show ?thesis
    using assms(1) inq ok live unfolding fds_wf_def by simp
qed

lemma net_inv_new:
  assumes "net_inv st" "f_socks st a = None" "sock_ok s" "\<not> inq s" "\<not> tasked s" "\<not> registered s" "\<not> epolled s"
    "s_accept_list s = []" "s_accept_cnt s = 0" "s_serv_sock s \<noteq> Some a"
  shows "net_inv (put_sock a s st)" "\<And>h. lists (put_sock a s st) h = lists st h"
proof -
  have ok: "reg_inv (view st) (f_client_list st) (f_server_list st) (f_event_cnt st)"
    using net_invD(2) [OF assms(1)] by (simp add: reg_ok_def)
  have va: "view st a = None" using assms(2) by (simp add: view_def)
  show ls: "lists (put_sock a s st) h = lists st h" for h
    using va assms(8) by (cases h) simp_all
  have "home_at (view st) a = None" using va by (simp add: home_at_def)
  moreover have "home_of (sock_view s) = None" using assms(6) by (simp add: home_of_def)
  ultimately have "home_at (view (put_sock a s st)) b = home_at (view st) b" for b
    by (simp add: home_at_upd)
  moreover have "watched (view (put_sock a s st)) = watched (view st)"
    using va assms(7) by (auto simp: watched_def)
  ultimately have "reg_inv (view (put_sock a s st)) (f_client_list (put_sock a s st)) (f_server_list (put_sock a s st))
      (f_event_cnt st)"
    using ls ok assms(6,8,9)
    by (intro reg_inv_same [OF ok]) (auto simp: reg_inv_def split: if_splits)
  then show "net_inv (put_sock a s st)"
    using fds_wf_new [OF _ assms(2,4,5)] assms(1,3,10) by (auto simp: net_inv_def reg_ok_def)
qed

section \<open>Registration\<close>

lemma same_place_upd:
  assumes "\<And>b. b \<noteq> a \<Longrightarrow> f_socks st' b = f_socks st b" "f_socks st a = Some s" "f_socks st' a = Some s'"
    "inq s' = inq s" "tasked s' = tasked s" "s_index s' = s_index s"
  shows "same_place (f_socks st b) (f_socks st' b)"
  using assms by (cases "b = a") (simp_all add: same_place_def)

lemma net_inv_add_registry:
  assumes "net_inv st" "f_socks st a = Some s" "\<not> registered s" "can_enter st a s h"
    "\<And>v srv. h = Accepted v \<Longrightarrow> f_socks st v = Some srv \<Longrightarrow> s_accept_cnt srv < s_max_client srv"
  obtains st' where "cp_fds_add_sock_registry (Some a) st = Some (0, st')" "net_inv st'"
    "\<And>g. lists st' g = lists st g @ (if g = h then [a] else [])"
    "f_socks st' a = Some (set_flag FLAG_SOCK_REGISTRY s)" "dom (f_socks st') = dom (f_socks st)"
    "f_max_event st' = f_max_event st"
    "\<And>b. h \<noteq> Accepted b \<Longrightarrow> b \<noteq> a \<Longrightarrow> f_socks st' b = f_socks st b"
proof -
  have sa: "sock_ok s" using net_invD(3) [OF assms(1,2)] .
  then have "s_fds s" by (simp add: sock_ok_def)
  then obtain st' where st': "cp_fds_add_sock_registry (Some a) st = Some (0, st')" "reg_ok st'"
    "\<And>g. lists st' g = lists st g @ (if g = h then [a] else [])"
    "f_socks st' a = Some (set_flag FLAG_SOCK_REGISTRY s)"
    "\<And>b. b \<noteq> a \<Longrightarrow> f_socks st' b = (case h of Accepted v \<Rightarrow> if b = v
        then map_option (\<lambda>srv. srv\<lparr>s_accept_list := s_accept_list srv @ [a], s_accept_cnt := s_accept_cnt srv + 1\<rparr>) (f_socks st b)
        else f_socks st b | _ \<Rightarrow> f_socks st b)"
    "f_queue st' = f_queue st" "f_heap st' = f_heap st" "f_tasks st' = f_tasks st" "f_max_event st' = f_max_event st"
    using add_registry_ok [OF net_invD(2) [OF assms(1)] assms(2) _ assms(3,4)] by blast
  have other: "(\<exists>x. f_socks st b = Some x \<and> (y = x \<or> h = Accepted b \<and>
      y = x\<lparr>s_accept_list := s_accept_list x @ [a], s_accept_cnt := s_accept_cnt x + 1\<rparr>))"
    if "f_socks st' b = Some y" "b \<noteq> a" for b y
    using st'(5) [OF that(2)] that(1) by (cases h; cases "f_socks st b") (auto split: if_splits)
  have place: "same_place (f_socks st b) (f_socks st' b)" for b
  proof (cases "b = a")
    case True
    then show ?thesis using assms(2) st'(4) by (simp add: same_place_def)
  next
    case False
    then show ?thesis using st'(5) [OF False] by (cases "f_socks st b"; cases h) (auto simp: same_place_def)
  qed
  have "fds_wf st'"
    by (rule fds_wf_same_place(1) [OF net_invD(1) [OF assms(1)] st'(6-8) place])
  moreover have "sock_ok y \<and> s_serv_sock y \<noteq> Some b" if y: "f_socks st' b = Some y" for b y
  proof (cases "b = a")
    case True
    then show ?thesis using y st'(4) sa net_invD(4) [OF assms(1,2)] by auto
  next
    case False
    then obtain x where "f_socks st b = Some x" "y = x \<or> h = Accepted b \<and>
        y = x\<lparr>s_accept_list := s_accept_list x @ [a], s_accept_cnt := s_accept_cnt x + 1\<rparr>"
      using other [OF y] by blast
    moreover have "s_mode x = CP_SOCK_MODE_LISTEN" if "h = Accepted b" "f_socks st b = Some x"
      using assms(4) that by (simp add: can_enter_def)
    ultimately show ?thesis
      using net_invD(3,4) [OF assms(1), of b x] assms(5) [of b x] by (auto simp: sock_ok_def bufs_live_def)
  qed
  ultimately have "net_inv st'" using st'(2) by (simp add: net_inv_def)
  moreover have "dom (f_socks st') = dom (f_socks st)"
  proof -
    have "f_socks st' b = None \<longleftrightarrow> f_socks st b = None" for b
      using place [of b] by (cases "f_socks st b"; cases "f_socks st' b") (simp_all add: same_place_def)
    then show ?thesis unfolding dom_def by simp
  qed
  moreover have "f_socks st' b = f_socks st b" if "h \<noteq> Accepted b" "b \<noteq> a" for b
    using st'(5) [OF that(2)] that(1) by (cases h) auto
  ultimately show thesis using that st'(1,3,4,9) by blast
qed

section \<open>Epoll\<close>

lemma net_inv_add_epoll:
  assumes "net_inv st" "f_socks st a = Some s"
  obtains rv st' s' where "cp_add_epoll_event ep (Some a) st = Some (rv, st')" "net_inv st'" "lists st' = lists st"
    "f_socks st' = (f_socks st)(a \<mapsto> s')" "s_accept_list s' = s_accept_list s" "registered s' = registered s"
    "inq s' = inq s" "tasked s' = tasked s" "rv \<noteq> 0 \<Longrightarrow> epolled s' = epolled s" "s_fd s' = s_fd s" "s_mode s' = s_mode s"
    "s_serv_sock s' = s_serv_sock s" "rv = 0 \<Longrightarrow> ep = EP_OK \<Longrightarrow> epolled s'" "s_status s' = s_status s"
proof -
  have sa: "sock_ok s" "s_fds s" using net_invD(3) [OF assms] by (simp_all add: sock_ok_def)
  have ok: "reg_inv (view st) (f_client_list st) (f_server_list st) (f_event_cnt st)"
    using net_invD(2) [OF assms(1)] by (simp add: reg_ok_def)
  have core: "sock_core (s\<lparr>s_events := e\<rparr>) = sock_core s" for e by (simp add: sock_core_def)
  have lim: "s_accept_cnt (s\<lparr>s_events := e\<rparr>) \<le> s_max_client (s\<lparr>s_events := e\<rparr>)" for e using sa(1) by (simp add: sock_ok_def)
  have each: "(v_reg v \<longrightarrow> home_of v \<noteq> None) \<and> v_cnt v = int (length (v_list v))" if "view st b = Some v" for b v
    using ok that by (auto simp: reg_inv_def)
  let ?s = "s\<lparr>s_events := CP_SOCK_EVENT_READ\<rparr>"
  note same = net_inv_put_core [OF assms core lim]
  consider "epolled s" | "\<not> epolled s" "f_event_cnt st > f_max_event st"
    | "\<not> epolled s" "\<not> f_event_cnt st > f_max_event st" "ep \<noteq> EP_OK"
    | "\<not> epolled s" "\<not> f_event_cnt st > f_max_event st" "ep = EP_OK" by blast
  then show thesis
  proof cases
    case 1
    then have "cp_add_epoll_event ep (Some a) st = Some (0, st)"
      using assms(2) sa(2) by (simp add: cp_add_epoll_event_def)
    then show thesis using that [of 0 st s] assms 1 by (simp add: fun_upd_idem)
  next
    case 2
    then have "cp_add_epoll_event ep (Some a) st = Some (- 2, st)"
      using assms(2) sa(2) by (simp add: cp_add_epoll_event_def)
    then show thesis using that [of "- 2" st s] assms by (simp add: fun_upd_idem)
  next
    case 3
    then have "cp_add_epoll_event ep (Some a) st = Some (if ep = EP_EXIST then 0 else - 3, put_sock a ?s st)"
      using assms(2) sa(2) by (cases ep) (simp_all add: cp_add_epoll_event_def)
    then show thesis using that [of _ "put_sock a ?s st" ?s] same 3(3) by simp
  next
    case 4
    let ?t = "set_flag FLAG_SOCK_EPOLLED ?s" and ?st = "put_sock a (set_flag FLAG_SOCK_EPOLLED ?s) (st\<lparr>f_event_cnt := f_event_cnt st + 1\<rparr>)"
    have call: "cp_add_epoll_event ep (Some a) st = Some (0, ?st)"
      using assms(2) sa(2) 4 by (simp add: cp_add_epoll_event_def)
    have va: "view st a = Some (sock_view s)" using assms(2) by (simp add: view_def)
    have vt: "sock_view ?t = (sock_view s)\<lparr>v_epolled := True\<rparr>" by (simp add: sock_view_def)
    have ls: "lists ?st h = lists st h" for h
      using va vt by (cases h) simp_all
    have "a \<notin> watched (view st)" using va 4(1) by (simp add: watched_def)
    moreover have "watched (view ?st) = insert a (watched (view st))" using va vt by (auto simp: watched_def)
    moreover have fin: "finite (dom (view st))" using ok by (simp add: reg_inv_def)
    ultimately have card: "f_event_cnt st + 1 = int (card (watched (view ?st)))"
      using ok watched_finite [OF fin] by (simp add: reg_inv_def)
    have "reg_inv (view ?st) (f_client_list ?st) (f_server_list ?st) (f_event_cnt st + 1)"
      by (rule reg_inv_same [OF ok])
        (use va vt ls card fin each [OF va] each in \<open>auto simp: home_at_upd home_at_def split: if_splits\<close>)
    then have "reg_ok ?st" by (simp add: reg_ok_def)
    moreover have "fds_wf ?st"
      by (rule fds_wf_same_place(1) [OF net_invD(1) [OF assms(1)]]) (use assms(2) in \<open>simp_all add: same_place_def\<close>)
    moreover have "sock_ok ?t" using sa(1) by simp
    ultimately have "net_inv ?st" using assms(1,2) by (auto simp: net_inv_def)
    then show thesis using that [OF call, of ?t] ls by (simp add: fun_eq_iff)
  qed
qed


lemma core_del_epoll:
  assumes "core_inv st" "f_socks st a = Some s"
  obtains st' s' where "cp_del_epoll_event (Some a) st = Some st'" "core_inv st'" "lists st' = lists st"
    "f_socks st' = (f_socks st)(a \<mapsto> s')" "\<not> epolled s'" "s_accept_list s' = s_accept_list s" "registered s' = registered s"
    "inq s' = inq s" "tasked s' = tasked s" "s_mode s' = s_mode s" "s_serv_sock s' = s_serv_sock s"
    "s_index s' = s_index s" "f_queue st' = f_queue st" "f_heap st' = f_heap st" "f_tasks st' = f_tasks st"
proof (cases "epolled s")
  case False
  then have "cp_del_epoll_event (Some a) st = Some st"
    using assms(2) by (simp add: cp_del_epoll_event_def)
  then show thesis using that [of st s] assms False by (simp add: fun_upd_idem)
next
  case True
  have sa: "sock_ok s" "s_fds s" using core_invD(2) [OF assms] by (simp_all add: sock_ok_def)
  have ok: "reg_inv (view st) (f_client_list st) (f_server_list st) (f_event_cnt st)"
    using core_invD(1) [OF assms(1)] by (simp add: reg_ok_def)
  have each: "(v_reg v \<longrightarrow> home_of v \<noteq> None) \<and> v_cnt v = int (length (v_list v))" if "view st b = Some v" for b v
    using ok that by (auto simp: reg_inv_def)
  let ?t = "clear_flag FLAG_SOCK_EPOLLED s" and ?st = "put_sock a (clear_flag FLAG_SOCK_EPOLLED s) (st\<lparr>f_event_cnt := f_event_cnt st - 1\<rparr>)"
  have call: "cp_del_epoll_event (Some a) st = Some ?st"
    using assms(2) sa(2) True by (simp add: cp_del_epoll_event_def)
  have va: "view st a = Some (sock_view s)" using assms(2) by (simp add: view_def)
  have ls: "lists ?st h = lists st h" for h
    using va by (cases h) simp_all
  have "a \<in> watched (view st)" using va True by (simp add: watched_def)
  moreover have "watched (view ?st) = watched (view st) - {a}" using va by (auto simp: watched_def)
  moreover have fin: "finite (dom (view st))" using ok by (simp add: reg_inv_def)
  ultimately have card: "f_event_cnt st - 1 = int (card (watched (view ?st)))"
    using ok card_Suc_Diff1 [OF watched_finite [OF fin], of a] by (simp add: reg_inv_def)
  have "reg_inv (view ?st) (f_client_list ?st) (f_server_list ?st) (f_event_cnt st - 1)"
    by (rule reg_inv_same [OF ok])
      (use va ls card fin each [OF va] each in \<open>auto simp: home_at_upd home_at_def split: if_splits\<close>)
  then have "reg_ok ?st" by (simp add: reg_ok_def)
  moreover have "sock_ok ?t" using sa(1) by simp
  ultimately have "core_inv ?st" using assms(1,2) by (auto simp: core_inv_def)
  then show thesis using that [OF call, of ?t] ls by (simp add: fun_eq_iff)
qed

lemma net_inv_del_epoll:
  assumes "net_inv st" "f_socks st a = Some s"
  obtains st' s' where "cp_del_epoll_event (Some a) st = Some st'" "net_inv st'" "lists st' = lists st"
    "f_socks st' = (f_socks st)(a \<mapsto> s')" "\<not> epolled s'" "s_accept_list s' = s_accept_list s" "registered s' = registered s"
    "inq s' = inq s" "tasked s' = tasked s"
proof -
  have core: "core_inv st" using assms(1) by (simp add: net_inv_core)
  obtain st' s' where d: "cp_del_epoll_event (Some a) st = Some st'" "core_inv st'" "lists st' = lists st"
    "f_socks st' = (f_socks st)(a \<mapsto> s')" "\<not> epolled s'" "s_accept_list s' = s_accept_list s" "registered s' = registered s"
    "inq s' = inq s" "tasked s' = tasked s" "s_index s' = s_index s" "f_queue st' = f_queue st" "f_heap st' = f_heap st"
    "f_tasks st' = f_tasks st"
    by (rule core_del_epoll [OF core assms(2)]) (rule that)
  have "fds_wf st'"
    by (rule fds_wf_same_place(1) [OF net_invD(1) [OF assms(1)] d(11-13)]) (use d(4,8-10) assms(2) in \<open>simp add: same_place_def\<close>)
  then show thesis using that [OF d(1) _ d(3-9)] d(2) by (simp add: net_inv_core)
qed

section \<open>Leaving the context\<close>

text \<open>What unregistering does to a socket: the flag is cleared, and accepted clients are forgotten.\<close>

definition loosen :: "cp_sock \<Rightarrow> cp_sock \<Rightarrow> bool" where
  "loosen x y \<longleftrightarrow> (\<exists>fl l n. y = x\<lparr>s_flag := fl, s_accept_list := l, s_accept_cnt := n\<rparr> \<and> n \<le> s_accept_cnt x \<and>
     set l \<subseteq> set (s_accept_list x) \<and> fl \<in> {s_flag x, s_flag x AND NOT FLAG_SOCK_REGISTRY})"

lemma loosen_refl: "loosen x x"
  by (cases x) (auto simp: loosen_def)

lemma loosen_trans: "loosen x y \<Longrightarrow> loosen y z \<Longrightarrow> loosen x z"
  by (cases x) (auto simp: loosen_def word_bw_assocs)

lemma loosenI:
  assumes "y = x\<lparr>s_flag := fl, s_accept_list := l, s_accept_cnt := n\<rparr>" "n \<le> s_accept_cnt x"
    "set l \<subseteq> set (s_accept_list x)" "fl \<in> {s_flag x, s_flag x AND NOT FLAG_SOCK_REGISTRY}"
  shows "loosen x y"
  unfolding loosen_def using assms by blast

lemma loosen_intros:
  "n \<le> s_accept_cnt x \<Longrightarrow> loosen x (x\<lparr>s_accept_cnt := n\<rparr>)" "loosen x (x\<lparr>s_accept_list := remove1 a (s_accept_list x)\<rparr>)"
  "loosen x (clear_flag FLAG_SOCK_REGISTRY x)"
proof -
  show "loosen x (x\<lparr>s_accept_cnt := n\<rparr>)" if "n \<le> s_accept_cnt x"
    by (rule loosenI [where fl = "s_flag x" and l = "s_accept_list x" and n = n]) (use that in \<open>cases x, simp_all\<close>)
  show "loosen x (x\<lparr>s_accept_list := remove1 a (s_accept_list x)\<rparr>)"
    by (rule loosenI [where fl = "s_flag x" and l = "remove1 a (s_accept_list x)" and n = "s_accept_cnt x"]) (cases x, simp_all add: set_remove1_subset)
  show "loosen x (clear_flag FLAG_SOCK_REGISTRY x)"
    by (rule loosenI [where fl = "s_flag x AND NOT FLAG_SOCK_REGISTRY" and l = "s_accept_list x" and n = "s_accept_cnt x"])
      (cases x, simp_all add: clear_flag_def)
qed

lemma loosenD:
  assumes "loosen x y"
  shows "s_fds y = s_fds x" "bufs_live y = bufs_live x" "s_serv_sock y = s_serv_sock x" "s_fd y = s_fd x"
    "sock_ok x \<Longrightarrow> sock_ok y" "inq y = inq x" "tasked y = tasked x" "epolled y = epolled x"
proof -
  obtain fl l n where y: "y = x\<lparr>s_flag := fl, s_accept_list := l, s_accept_cnt := n\<rparr>" "n \<le> s_accept_cnt x"
    "set l \<subseteq> set (s_accept_list x)" "fl \<in> {s_flag x, s_flag x AND NOT FLAG_SOCK_REGISTRY}"
    using assms by (auto simp: loosen_def)
  have "has_flag f y = has_flag f x \<or> has_flag f y = has_flag f (clear_flag FLAG_SOCK_REGISTRY x)" for f
    using y by (auto simp: has_flag_def clear_flag_def)
  then have fl: "has_flag FLAG_SOCK_INIT y = has_flag FLAG_SOCK_INIT x" "has_flag FLAG_SOCK_MALLOC y = has_flag FLAG_SOCK_MALLOC x"
    "inq y = inq x" "tasked y = tasked x" "epolled y = epolled x"
    by (metis flag_tests_init(2) , metis flag_tests_init(11), metis flag_tests(15), metis flag_tests(16), metis flag_tests_reg(14))
  show "inq y = inq x" "tasked y = tasked x" "epolled y = epolled x" by (rule fl)+
  show "s_fds y = s_fds x" "bufs_live y = bufs_live x" "s_serv_sock y = s_serv_sock x" "s_fd y = s_fd x"
    using y by (simp_all add: bufs_live_def)
  then show "sock_ok y" if "sock_ok x"
    using that fl(1,2) y by (auto simp: sock_ok_def)
qed

lemma del_registry_loosen:
  assumes "cp_fds_del_sock_registry (Some a) st = Some st'"
  shows "rel_option loosen (f_socks st b) (f_socks st' b)"
proof -
  have cnt: "rel_option loosen (f_socks st b) (f_socks (put_sock v (srv\<lparr>s_accept_cnt := s_accept_cnt srv - 1\<rparr>) st) b)"
    if "f_socks st v = Some srv" for v srv
    using that loosen_intros(1) [of "s_accept_cnt srv - 1" srv] by (cases "f_socks st b") (auto intro: loosen_refl)
  have un: "rel_option loosen (f_socks st0 b) (f_socks (put_sock a (clear_flag FLAG_SOCK_REGISTRY s0) (unlink_registry a st0)) b)"
    if "f_socks (unlink_registry a st0) a = Some s0" for st0 s0
    using that by (cases "f_socks st0 b")
      (auto simp: unlink_registry_def intro: loosen_intros loosen_trans [OF loosen_intros(2) loosen_intros(3)])
  have tr: "rel_option loosen x z" if "rel_option loosen x y" "rel_option loosen y z" for x y z
    using that by (cases x; cases y; cases z) (auto intro: loosen_trans)
  have rf: "rel_option loosen x x" for x by (cases x) (auto intro: loosen_refl)
  obtain s where "f_socks st a = Some s" using assms by (auto simp: cp_fds_del_sock_registry_def)
  then show ?thesis
    using assms rf un tr [OF cnt un] by (auto simp: cp_fds_del_sock_registry_def Let_def split: if_splits option.splits)
qed

lemma core_del_registry:
  assumes "core_inv st" "f_socks st a = Some s"
  obtains st' s' where "cp_fds_del_sock_registry (Some a) st = Some st'" "core_inv st'"
    "\<And>g. lists st' g = remove1 a (lists st g)" "f_socks st' a = Some s'" "dom (f_socks st') = dom (f_socks st)"
    "\<not> registered s'" "s_accept_list s' = remove1 a (s_accept_list s)" "loosen s s'"
proof -
  have ok: "reg_inv (view st) (f_client_list st) (f_server_list st) (f_event_cnt st)"
    using core_invD(1) [OF assms(1)] by (simp add: reg_ok_def)
  obtain st' s' where d: "cp_fds_del_sock_registry (Some a) st = Some st'" "reg_ok st'"
    "\<And>g. lists st' g = remove1 a (lists st g)" "f_socks st' a = Some s'"
    "sock_view s' = (sock_view s)\<lparr>v_reg := False, v_list := remove1 a (s_accept_list s)\<rparr>"
    by (rule del_registry_ok [OF core_invD(1) [OF assms(1)] assms(2) core_invD(3) [OF assms]]) (rule that)
  note loose = del_registry_loosen [OF d(1)]
  have "sock_ok y \<and> s_serv_sock y \<noteq> Some b" if y: "f_socks st' b = Some y" for b y
  proof -
    obtain x where x: "f_socks st b = Some x" "loosen x y"
      using loose [of b] y by (cases "f_socks st b") simp_all
    then show ?thesis
      using loosenD(3,5) [OF x(2)] core_invD(2,3) [OF assms(1) x(1)] by simp
  qed
  then have "core_inv st'" using d(2) by (simp add: core_inv_def)
  moreover have "dom (f_socks st') = dom (f_socks st)"
  proof -
    have "f_socks st' b = None \<longleftrightarrow> f_socks st b = None" for b
      using loose [of b] by (cases "f_socks st b"; cases "f_socks st' b") simp_all
    then show ?thesis unfolding dom_def by simp
  qed
  moreover have "loosen s s'" using loose [of a] d(4) assms(2) by simp
  moreover have "\<not> registered s'" "s_accept_list s' = remove1 a (s_accept_list s)"
    using d(5) by (simp_all add: sock_view_def)
  ultimately show thesis using that d(1,3,4) by blast
qed

lemma net_inv_del_registry:
  assumes "net_inv st" "f_socks st a = Some s"
  obtains st' s' where "cp_fds_del_sock_registry (Some a) st = Some st'" "net_inv st'"
    "\<And>g. lists st' g = remove1 a (lists st g)" "f_socks st' a = Some s'" "dom (f_socks st') = dom (f_socks st)"
    "\<not> registered s'" "s_accept_list s' = remove1 a (s_accept_list s)" "loosen s s'"
proof -
  have core: "core_inv st" using assms(1) by (simp add: net_inv_core)
  have ok: "reg_inv (view st) (f_client_list st) (f_server_list st) (f_event_cnt st)"
    using net_invD(2) [OF assms(1)] by (simp add: reg_ok_def)
  obtain st' s' where d: "cp_fds_del_sock_registry (Some a) st = Some st'" "core_inv st'"
    "\<And>g. lists st' g = remove1 a (lists st g)" "f_socks st' a = Some s'" "dom (f_socks st') = dom (f_socks st)"
    "\<not> registered s'" "s_accept_list s' = remove1 a (s_accept_list s)" "loosen s s'"
    by (rule core_del_registry [OF core assms(2)]) (rule that)
  have live: "f_socks st u \<noteq> None" if "registered s" "s_mode s = CP_SOCK_MODE_ACCEPT" "s_serv_sock s = Some u" for u
  proof -
    have "home_at (view st) a = Some (Accepted u)"
      using that assms(2) by (simp add: home_at_def view_def home_of_Accepted)
    then have "a \<in> set (lists st (Accepted u))" using reg_inv_lists(2) [OF ok, of a "Accepted u"] by simp
    then show ?thesis by (cases "f_socks st u") (simp_all add: view_def)
  qed
  obtain st1 where "cp_fds_del_sock_registry (Some a) st = Some st1" "fds_wf st1"
    using del_registry_state [OF net_invD(1) [OF assms(1)] assms(2) live] by blast
  then show thesis using that [OF d(1) _ d(3-8)] d(1,2) by (simp add: net_inv_core)
qed

end
