(* ===== verification/NetOps.thy ===== *)
theory NetOps
  imports NetInv
begin

text \<open>
  The services keep the invariant of \<open>NetInv\<close>: what they do when they succeed, and that a failure leaves
  the registry as it was, with no socket left behind.
\<close>

section \<open>The places of a socket\<close>

lemma net_inv_place:
  assumes "net_inv st" "f_socks st a = Some s" "fds_wf st'" "f_socks st' = (f_socks st)(a \<mapsto> s')"
    "sock_view s' = sock_view s" "sock_ok s'" "s_serv_sock s' = s_serv_sock s"
    "f_client_list st' = f_client_list st" "f_server_list st' = f_server_list st" "f_event_cnt st' = f_event_cnt st"
  shows "net_inv st'" "lists st' = lists st"
proof -
  have "view st' = view st" using assms(2,4,5) by (auto simp: view_def)
  then show "lists st' = lists st" and "net_inv st'"
    using assms net_invD(2) [OF assms(1)] net_invD(4) [OF assms(1,2)] by (auto simp: net_inv_def reg_ok_def)
qed

lemma net_inv_del_task:
  assumes "net_inv st" "f_socks st a = Some s"
  obtains st' s' where "cp_fds_del_sock_task (Some a) st = Some st'" "net_inv st'" "lists st' = lists st"
    "f_socks st' = (f_socks st)(a \<mapsto> s')" "sock_view s' = sock_view s" "\<not> tasked s'" "inq s' = inq s" "s_fd s' = s_fd s"
proof -
  have sa: "sock_ok s" "s_fds s" using net_invD(3) [OF assms] by (simp_all add: sock_ok_def)
  obtain st' s1 where d: "cp_fds_del_sock_task (Some a) st = Some st'" "fds_wf st'"
    "f_socks st' = (f_socks st)(a \<mapsto> s1)" "inq s1 = inq s" "\<not> tasked s1"
    using del_task_state [OF net_invD(1) [OF assms(1)] assms(2) sa(2)] by blast
  have a1: "f_socks st' a = Some s1" using d(3) by simp
  have shape: "s1 = s \<or> s1 = (clear_flag FLAG_SOCK_TASKED s)\<lparr>s_index := - 1, s_events := 0\<rparr>"
    and same: "f_client_list st' = f_client_list st" "f_server_list st' = f_server_list st" "f_event_cnt st' = f_event_cnt st"
    using d(1) a1 assms(2) by (auto simp: cp_fds_del_sock_task_def put_sock_def split: if_splits)
  have s1: "sock_view s1 = sock_view s" "sock_ok s1" "s_serv_sock s1 = s_serv_sock s" "s_fd s1 = s_fd s"
    using shape sa(1) by auto
  show thesis
    by (rule that [OF d(1) net_inv_place [OF assms d(2,3) s1(1-3) same] d(3) s1(1) d(5,4) s1(4)])
qed

lemma net_inv_rmqueue:
  assumes "net_inv st" "f_socks st a = Some s"
  obtains r st' s' where "cp_fds_sock_rmqueue (Some a) st = Some (r, st')" "net_inv st'" "lists st' = lists st"
    "f_socks st' = (f_socks st)(a \<mapsto> s')" "sock_view s' = sock_view s" "\<not> inq s'" "tasked s' = tasked s" "s_fd s' = s_fd s"
proof -
  have sa: "sock_ok s" "s_fds s" using net_invD(3) [OF assms] by (simp_all add: sock_ok_def)
  obtain r st' s1 where d: "cp_fds_sock_rmqueue (Some a) st = Some (r, st')" "fds_wf st'"
    "f_socks st' = (f_socks st)(a \<mapsto> s1)" "\<not> inq s1" "tasked s1 = tasked s"
    using rmqueue_state [OF net_invD(1) [OF assms(1)] assms(2) sa(2)] by blast
  have a1: "f_socks st' a = Some s1" using d(3) by simp
  have shape: "s1 = s \<or> s1 = clear_flag FLAG_SOCK_INQUEUE s"
    and same: "f_client_list st' = f_client_list st" "f_server_list st' = f_server_list st" "f_event_cnt st' = f_event_cnt st"
    using d(1) a1 assms(2) by (auto simp: cp_fds_sock_rmqueue_def put_sock_def Let_def split: if_splits)
  have s1: "sock_view s1 = sock_view s" "sock_ok s1" "s_serv_sock s1 = s_serv_sock s" "s_fd s1 = s_fd s"
    using shape sa(1) by auto
  show thesis
    by (rule that [OF d(1) net_inv_place [OF assms d(2,3) s1(1-3) same] d(3) s1(1) d(4,5) s1(4)])
qed

section \<open>Termination\<close>

lemma core_term:
  assumes "core_inv st" "f_socks st a = Some s" "\<not> registered s" "\<not> epolled s" "s_accept_list s = []"
  obtains st' where "cp_sock_term ok (Some a) st = Some st'" "core_inv st'" "\<And>h. lists st' h = lists st h"
    "f_socks st' = (f_socks st)(a := None)" "f_queue st' = f_queue st" "f_heap st' = f_heap st" "f_tasks st' = f_tasks st"
proof -
  have sa: "sock_ok s" using core_invD(2) [OF assms(1,2)] .
  have ok: "reg_inv (view st) (f_client_list st) (f_server_list st) (f_event_cnt st)"
    using core_invD(1) [OF assms(1)] by (simp add: reg_ok_def)
  have va: "view st a = Some (sock_view s)" using assms(2) by (simp add: view_def)
  obtain calls s' where t: "cp_sock_term ok (Some a) st = Some (let st = st\<lparr>f_privt_calls := calls\<rparr> in
       if has_flag FLAG_SOCK_MALLOC s then st\<lparr>f_socks := (f_socks st)(a := None)\<rparr> else put_sock a s' st)"
    using sock_term_cases [OF assms(2)] sa by (metis sock_ok_def)
  let ?st = "st\<lparr>f_privt_calls := calls, f_socks := (f_socks st)(a := None)\<rparr>"
  have call: "cp_sock_term ok (Some a) st = Some ?st"
    using t sa by (simp add: sock_ok_def Let_def)
  have vw: "view ?st = (view st)(a := None)" by (rule ext) (simp add: view_def)
  have ls: "lists ?st h = lists st h" for h
    using vw va assms(5) by (cases h) auto
  have "home_at (view ?st) b = home_at (view st) b" for b
    using vw va assms(3) by (simp add: home_at_def home_of_def)
  moreover have "watched (view ?st) = watched (view st)"
    using vw va assms(4) by (auto simp: watched_def)
  ultimately have "reg_inv (view ?st) (f_client_list ?st) (f_server_list ?st) (f_event_cnt st)"
    using ls ok vw
    by (intro reg_inv_same [OF ok]) (auto simp: reg_inv_def split: if_splits)
  then have "reg_ok ?st" by (simp add: reg_ok_def)
  then have "core_inv ?st" using assms(1) by (auto simp: core_inv_def)
  then show thesis using that [OF call _ ls] by simp
qed

lemma net_inv_term:
  assumes "net_inv st" "f_socks st a = Some s" "\<not> inq s" "\<not> tasked s" "\<not> registered s" "\<not> epolled s" "s_accept_list s = []"
  obtains st' where "cp_sock_term ok (Some a) st = Some st'" "net_inv st'" "\<And>h. lists st' h = lists st h"
    "f_socks st' = (f_socks st)(a := None)"
proof -
  have core: "core_inv st" using assms(1) by (simp add: net_inv_core)
  note wf = net_invD(1) [OF assms(1)]
  obtain st' where d: "cp_sock_term ok (Some a) st = Some st'" "core_inv st'" "\<And>h. lists st' h = lists st h"
    "f_socks st' = (f_socks st)(a := None)"
    by (rule core_term [OF core assms(2,5-7)]) (rule that)
  have "a \<notin> set (waiting st)" using fds_wfD(5) [OF wf, of a] assms(2,3) by simp
  moreover have "Some a \<notin> set (task_cells st)"
    using fds_wfD(6) [OF wf assms(2)] assms(4) by (auto simp: task_ok_def in_set_conv_nth)
  moreover have "bufs_live s" using net_invD(3) [OF assms(1,2)] by (simp add: sock_ok_def)
  ultimately have "fds_wf st'" using sock_term_state [OF wf assms(2), of ok] d(1) by auto
  then show thesis using that [OF d(1) _ d(3,4)] d(2) by (simp add: net_inv_core)
qed

text \<open>A socket that is in no list, queue or array disappears.\<close>

lemma net_inv_term_sock:
  assumes "net_inv st" "f_socks st a = Some s" "\<not> inq s" "\<not> tasked s" "\<not> registered s" "\<not> epolled s" "s_accept_list s = []"
  obtains k' st' where "term_sock (Some a) k st = Some (k', st')" "net_inv st'" "\<And>h. lists st' h = lists st h"
    "f_socks st' = (f_socks st)(a := None)"
proof -
  obtain st' where "cp_sock_term (s_fd s \<in> set (k_open k)) (Some a) st = Some st'" "net_inv st'" "\<And>h. lists st' h = lists st h"
    "f_socks st' = (f_socks st)(a := None)"
    by (rule net_inv_term [OF assms]) (rule that)
  then show thesis using that assms(2) by (simp add: term_sock_def)
qed


section \<open>New sockets\<close>

definition fresh_sock :: "cp_sock \<Rightarrow> bool" where
  "fresh_sock s \<longleftrightarrow> has_flag FLAG_SOCK_INIT s \<and> has_flag FLAG_SOCK_MALLOC s \<and> bufs_live s \<and>
     \<not> inq s \<and> \<not> tasked s \<and> \<not> registered s \<and> \<not> epolled s \<and> s_accept_list s = [] \<and> s_accept_cnt s = 0 \<and>
     s_max_client s = 0 \<and> s_serv_sock s = None \<and> s_fd s = - 1 \<and> s_status s = 0 \<and> length (s_laddr s) = 16 \<and>
     length (s_raddr s) = 16 \<and> s_privt_free s = None"

lemma new_buf_cases: "new_buf m n = STR_NULL \<or> (\<exists>b. new_buf m n = STR_AT b)"
  by (cases "cp_string_create_empty (fst m) (snd m) n") (simp_all add: new_buf_def)

lemma zero_sock_flags [simp]: "has_flag f zero_sock = False"
  by (simp add: has_flag_def zero_sock_def)

lemma has_flag_upd [simp]:
  "has_flag f (s\<lparr>s_rbuf := b\<rparr>) = has_flag f s" "has_flag f (s\<lparr>s_sbuf := b\<rparr>) = has_flag f s"
  "has_flag f (s\<lparr>s_rsize := n\<rparr>) = has_flag f s" "has_flag f (s\<lparr>s_ssize := n\<rparr>) = has_flag f s"
  "has_flag f (s\<lparr>s_keepintvl := n\<rparr>) = has_flag f s" "has_flag f (s\<lparr>s_keepcnt := n\<rparr>) = has_flag f s"
  "has_flag f (s\<lparr>s_idle_timeout := t\<rparr>) = has_flag f s" "has_flag f (s\<lparr>s_msg_timeout := t\<rparr>) = has_flag f s"
  "has_flag f (s\<lparr>s_serv_sock := v\<rparr>) = has_flag f s" "has_flag f (s\<lparr>s_fds := x\<rparr>) = has_flag f s"
  "has_flag f (s\<lparr>s_privt := p\<rparr>) = has_flag f s" "has_flag f (s\<lparr>s_cbfunc := g\<rparr>) = has_flag f s"
  "has_flag f (s\<lparr>s_client_func := g\<rparr>) = has_flag f s" "has_flag f (s\<lparr>s_mode := n\<rparr>) = has_flag f s"
  "has_flag f (s\<lparr>s_max_client := n\<rparr>) = has_flag f s" "has_flag f (s\<lparr>s_laddr := l\<rparr>) = has_flag f s"
  by (simp_all add: has_flag_def)

lemma flag_tests_malloc [simp]:
  "\<not> has_flag FLAG_SOCK_INIT (set_flag FLAG_SOCK_MALLOC zero_sock)" "has_flag FLAG_SOCK_MALLOC (set_flag FLAG_SOCK_MALLOC s)"
  "\<not> inq (set_flag FLAG_SOCK_MALLOC zero_sock)" "\<not> tasked (set_flag FLAG_SOCK_MALLOC zero_sock)"
  "\<not> registered (set_flag FLAG_SOCK_MALLOC zero_sock)" "\<not> epolled (set_flag FLAG_SOCK_MALLOC zero_sock)"
  by (simp_all add: has_flag_def set_flag_def zero_sock_def flag_defs)

text \<open>The documented behaviour of the allocator: a new socket does not lie where a live one is.\<close>

definition fresh_mem :: "sock_mem \<Rightarrow> cp_fds \<Rightarrow> bool" where
  "fresh_mem m st \<longleftrightarrow> (case m_sock m of None \<Rightarrow> True | Some a \<Rightarrow> f_socks st a = None)"

text \<open>Creating a socket either answers \<open>NULL\<close> and leaves the memory as it was, or a fresh socket.\<close>

lemma sock_init_cases:
  assumes "fresh_mem m st"
  obtains (failed) "cp_sock_init m now None r w i c st = Some (None, st)"
  | (made) a s where "m_sock m = Some a" "cp_sock_init m now None r w i c st = Some (Some a, put_sock a s st)"
      "fresh_sock s" "f_socks st a = None"
proof (cases "m_sock m")
  case None
  then show thesis using failed by (simp add: cp_sock_init_def)
next
  case (Some a)
  have a: "f_socks st a = None" using assms Some by (simp add: fresh_mem_def)
  have gone: "cp_sock_term True (Some a) (put_sock a s st) = Some st"
    if s: "has_flag FLAG_SOCK_MALLOC s" "\<not> has_flag FLAG_SOCK_INIT s" "s_privt s = None" "bufs_live s" for s
  proof -
    obtain x y where "cp_string_destroy (s_rbuf s) = Some x" "cp_string_destroy (s_sbuf s) = Some y"
      using s(4) cp_string_destroy_ok by (metis bufs_live_def)
    moreover have "(put_sock a s st)\<lparr>f_socks := (f_socks st)(a := None)\<rparr> = st"
      using a by (simp add: put_sock_def fun_upd_idem)
    ultimately show ?thesis using s(1-3) by (simp add: cp_sock_term_def Let_def)
  qed
  let ?z = "set_flag FLAG_SOCK_MALLOC zero_sock"
  have z: "s_privt ?z = None" "s_accept_list ?z = []" "s_accept_cnt ?z = 0" "s_max_client ?z = 0" "s_serv_sock ?z = None"
    "s_status ?z = 0" "length (s_laddr ?z) = 16" "length (s_raddr ?z) = 16" "s_privt_free ?z = None" "s_rbuf ?z = STR_NULL"
    "s_sbuf ?z = STR_NULL"
    by (simp_all add: zero_sock_def set_flag_def)
  consider "new_buf (m_rbuf m) CP_DEF_RCVBUF_SIZE = STR_NULL"
    | b where "new_buf (m_rbuf m) CP_DEF_RCVBUF_SIZE = STR_AT b" "new_buf (m_sbuf m) CP_DEF_SNDBUF_SIZE = STR_NULL"
    | b c where "new_buf (m_rbuf m) CP_DEF_RCVBUF_SIZE = STR_AT b" "new_buf (m_sbuf m) CP_DEF_SNDBUF_SIZE = STR_AT c"
    using new_buf_cases by metis
  then show thesis
  proof cases
    case 1
    then have "cp_sock_init m now None r w i c st = Some (None, st)"
      using Some gone [of "?z\<lparr>s_rbuf := STR_NULL\<rparr>"] z by (simp add: cp_sock_init_def Let_def bufs_live_def)
    then show thesis by (rule failed)
  next
    case (2 b)
    then have "cp_sock_init m now None r w i c st = Some (None, st)"
      using Some gone [of "?z\<lparr>s_rbuf := STR_AT b, s_sbuf := STR_NULL\<rparr>"] z
      by (simp add: cp_sock_init_def Let_def bufs_live_def)
    then show thesis by (rule failed)
  next
    case (3 b d)
    let ?s = "set_flag FLAG_SOCK_INIT (?z\<lparr>s_rbuf := STR_AT b, s_sbuf := STR_AT d, s_rsize := r, s_ssize := w, s_keepintvl := i,
        s_keepcnt := c, s_idle_timeout := CP_SOCK_DEF_IDLE_TIMEOUT, s_msg_timeout := CP_SOCK_DEF_MSG_TIMEOUT, s_fd := - 1,
        s_index := - 1, s_actv_time := now\<rparr>)"
    have "cp_sock_init m now None r w i c st = Some (Some a, put_sock a ?s st)"
      using Some 3 by (simp add: cp_sock_init_def Let_def)
    moreover have "fresh_sock ?s"
      using z by (simp add: fresh_sock_def bufs_live_def) (simp add: set_flag_def)
    ultimately show thesis using made [OF Some _ _ a] by blast
  qed
qed

section \<open>The calls on a socket alone\<close>

lemma c_strncpy_16: "length l = 16 \<Longrightarrow> n \<le> 16 \<Longrightarrow> \<exists>l'. c_strncpy l t n = Some l' \<and> length l' = 16"
  by (auto simp: c_strncpy_def wr_slice_def)


definition keeps :: "cp_sock \<Rightarrow> cp_sock \<Rightarrow> bool" where
  "keeps s s' \<longleftrightarrow> sock_core s' = sock_core s \<and> s_max_client s' = s_max_client s"

lemma keeps_refl [simp]: "keeps s s"
  by (simp add: keeps_def)

lemma keeps_trans: "keeps s t \<Longrightarrow> keeps t u \<Longrightarrow> keeps s u"
  by (simp add: keeps_def)

lemma keeps_upd [simp]:
  "keeps s (s\<lparr>s_fd := n\<rparr>)" "keeps s (s\<lparr>s_lport := n\<rparr>)" "keeps s (s\<lparr>s_rport := n\<rparr>)" "keeps s (s\<lparr>s_status := x\<rparr>)"
  "keeps s (s\<lparr>s_actv_time := t\<rparr>)" "keeps s (s\<lparr>s_saddr := bs\<rparr>)"
  "length (s_laddr s) = length l \<Longrightarrow> keeps s (s\<lparr>s_laddr := l\<rparr>)"
  "length (s_raddr s) = length l \<Longrightarrow> keeps s (s\<lparr>s_raddr := l\<rparr>)"
  "s_mode s = m \<Longrightarrow> keeps s (s\<lparr>s_mode := m\<rparr>)"
  by (simp_all add: keeps_def sock_core_def)

lemma keepsD:
  assumes "keeps s s'"
  shows "length (s_laddr s') = length (s_laddr s)" "length (s_raddr s') = length (s_raddr s)" "s_mode s' = s_mode s"
    "has_flag f s' = has_flag f s"
  using assms by (simp_all add: keeps_def sock_core_def has_flag_def)

lemma net_inv_keeps:
  assumes "net_inv st" "f_socks st a = Some s" "keeps s s'"
  shows "net_inv (put_sock a s' st)" "lists (put_sock a s' st) = lists st"
proof -
  have "sock_core s' = sock_core s" "s_accept_cnt s' \<le> s_max_client s'"
    using assms(3) net_invD(3) [OF assms(1,2)] by (simp_all add: keeps_def sock_ok_def sock_core_def)
  then show "net_inv (put_sock a s' st)" "lists (put_sock a s' st) = lists st"
    using net_inv_put_core [OF assms(1,2)] by blast+
qed

lemma accept_keeps:
  assumes "length (s_laddr s) = 16" "length (s_raddr s) = 16" "s_mode s = CP_SOCK_MODE_ACCEPT"
  obtains rv s' k' where "cp_sock_accept y (Some srv) (Some s) k = Some (rv, Some s', k')" "keeps s s'"
    "rv = 0 \<Longrightarrow> s_status s' = SOCK_STAT_ACCEPTED"
proof (cases "s_fd srv < 0 \<or> y_accept y = None \<or> fst (the (y_accept y)) < 0")
  case True
  then have "\<exists>rv k'. rv \<noteq> 0 \<and> cp_sock_accept y (Some srv) (Some s) k = Some (rv, Some s, k')"
    by (cases "s_fd srv < 0"; cases "y_accept y") (auto simp: cp_sock_accept_def)
  then show thesis using that by auto
next
  case False
  then obtain fd peer port where acc: "y_accept y = Some (fd, peer, port)" "\<not> fd < 0" "\<not> s_fd srv < 0"
    by (cases "y_accept y") auto
  obtain r where r: "c_strncpy (s_raddr s) peer 15 = Some r" "length r = 16"
    using c_strncpy_16 [OF assms(2), of 15] by auto
  let ?s1 = "s\<lparr>s_fd := fd, s_mode := CP_SOCK_MODE_ACCEPT, s_raddr := r, s_rport := port\<rparr>"
  have k1: "keeps s ?s1" using r(2) assms(2,3) by (simp add: keeps_def sock_core_def)
  obtain l p where l: "(case y_name y of
      None \<Rightarrow> do { l \<leftarrow> c_strncpy (s_laddr ?s1) (cstr (s_laddr srv)) 15; Some (?s1\<lparr>s_laddr := l, s_lport := s_lport srv\<rparr>) }
    | Some (name, lport) \<Rightarrow> do { l \<leftarrow> c_strncpy (s_laddr ?s1) name 15; Some (?s1\<lparr>s_laddr := l, s_lport := lport\<rparr>) })
      = Some (?s1\<lparr>s_laddr := l, s_lport := p\<rparr>)" "length l = 16"
  proof (cases "y_name y")
    case None
    obtain l where "c_strncpy (s_laddr s) (cstr (s_laddr srv)) 15 = Some l" "length l = 16"
      using c_strncpy_16 [OF assms(1), of 15] by auto
    then show thesis using that [where l = l and p = "s_lport srv"] None by simp
  next
    case (Some np)
    obtain l where "c_strncpy (s_laddr s) (fst np) 15 = Some l" "length l = 16"
      using c_strncpy_16 [OF assms(1), of 15] by auto
    then show thesis using that [where l = l and p = "snd np"] Some by (simp add: split_beta)
  qed
  let ?s2 = "?s1\<lparr>s_laddr := l, s_lport := p, s_status := SOCK_STAT_ACCEPTED, s_actv_time := y_now y\<rparr>"
  have "\<exists>k'. cp_sock_accept y (Some srv) (Some s) k = Some (0, Some ?s2, k')"
    using acc r(1) l(1) by (simp add: cp_sock_accept_def Let_def split_beta)
  moreover have "keeps s ?s2" using l(2) r(2) assms by (simp add: keeps_def sock_core_def)
  ultimately show thesis using that by auto
qed

lemma connect_connected_keeps:
  assumes "length (s_laddr s) = 16" "length (s_raddr s) = 16"
  obtains rv' s' k' where "connect_connected y raddr rport lport rv s k = Some (rv', s', k')" "keeps s s'"
proof (cases "s_status s = SOCK_STAT_CONNECTED")
  case False
  then show thesis using that by (simp add: connect_connected_def connect_failed_def)
next
  case True
  obtain r where r: "c_strncpy (s_raddr s) raddr 15 = Some r" "length r = 16"
    using c_strncpy_16 [OF assms(2), of 15] by auto
  let ?s1 = "s\<lparr>s_rport := rport, s_raddr := r, s_actv_time := y_now y\<rparr>"
  obtain l p where l: "(case y_name y of
      Some (name, port) \<Rightarrow> do { l \<leftarrow> c_strncpy (s_laddr ?s1) name 15; Some (?s1\<lparr>s_laddr := l, s_lport := port\<rparr>) }
    | None \<Rightarrow> Some (?s1\<lparr>s_laddr := replicate 16 NUL, s_lport := lport\<rparr>))
      = Some (?s1\<lparr>s_laddr := l, s_lport := p\<rparr>)" "length l = 16"
  proof (cases "y_name y")
    case None
    then show thesis using that [where l = "replicate 16 NUL" and p = lport] by simp
  next
    case (Some np)
    obtain l where "c_strncpy (s_laddr s) (fst np) 15 = Some l" "length l = 16"
      using c_strncpy_16 [OF assms(1), of 15] by auto
    then show thesis using that [where l = l and p = "snd np"] Some by (simp add: split_beta)
  qed
  have "connect_connected y raddr rport lport rv s k = Some (0, ?s1\<lparr>s_laddr := l, s_lport := p\<rparr>, k)"
    using True r(1) l(1) by (simp add: connect_connected_def Let_def)
  moreover have "keeps s (?s1\<lparr>s_laddr := l, s_lport := p\<rparr>)"
    using l(2) r(2) assms by (simp add: keeps_def sock_core_def)
  ultimately show thesis using that by blast
qed

lemma connect_again_keeps:
  assumes "length (s_laddr s) = 16" "length (s_raddr s) = 16"
  shows "\<exists>rv' s' k'. connect_again y raddr rport lport rv s k = Some (rv', s', k') \<and> keeps s s'"
proof -
  have step: "\<exists>rv' s' k'. connect_connected y raddr rport lport r0 t k = Some (rv', s', k') \<and> keeps s s'"
    if "keeps s t" for r0 t
    using connect_connected_keeps [of t] keepsD(1,2) [OF that] assms keeps_trans [OF that] by metis
  then show ?thesis
    using step [of s] step [of "s\<lparr>s_status := SOCK_STAT_CONNECTED\<rparr>"] step [of "s\<lparr>s_status := SOCK_STAT_DISCONNECT\<rparr>"]
    by (cases "s_status s = SOCK_STAT_CONNECTING"; cases "sys_connect y (s_fd s) (s_saddr s) k")
      (simp_all add: connect_again_def)
qed


lemma close_sock_keeps: "keeps s (fst (close_sock s k))"
  by (simp add: close_sock_def cp_sock_close_def)

lemma connect_loop_keeps:
  assumes "length (s_laddr s) = 16" "length (s_raddr s) = 16"
  shows "\<exists>rv' s' k'. connect_loop y raddr rport lport ats fd rv s k = Some (rv', s', k') \<and> keeps s s'"
  using assms
proof (induction ats arbitrary: fd rv k s)
  case Nil
  then show ?case
    using connect_again_keeps [OF Nil] by (simp add: connect_failed_def)
next
  case (Cons at ats)
  let ?fd = "at_socket at"
  show ?case
  proof (cases "?fd < 0 \<or> lport > 0 \<and> \<not> at_bind at")
    case True
    then show ?thesis using Cons.IH [OF Cons.prems] by (cases "?fd < 0") (simp_all add: Let_def)
  next
    case False
    define t where "t = (if lport > 0 then s\<lparr>s_lport := lport\<rparr> else s)"
    have t: "keeps s t" by (simp add: t_def)
    let ?t = "t\<lparr>s_fd := ?fd, s_status := SOCK_STAT_CONNECTING, s_saddr := at_cell at\<rparr>"
    have k2: "keeps s ?t" using t by (simp add: keeps_def sock_core_def)
    have len: "length (s_laddr ?t) = 16" "length (s_raddr ?t) = 16" using keepsD(1,2) [OF k2] Cons.prems by simp_all
    have c1: "\<not> ?fd < 0" and c2: "\<not> (lport > 0 \<and> \<not> at_bind at)" using False by auto
    define k1 where "k1 = snd (cp_sock_set_nonblock y ?fd (snd (cp_sock_set_keepalive y ?fd (s_keepintvl t) (s_keepcnt t)
      (snd (cp_sock_set_buffer y ?fd (s_rsize t) (s_ssize t) (sys_open ?fd k))))))"
    have step: "connect_loop y raddr rport lport (at # ats) fd rv s k =
        (case at_connect at of
           CONN_OK \<Rightarrow> connect_connected y raddr rport lport 0 ?t k1
         | CONN_PROGRESS \<Rightarrow> connect_again y raddr rport lport 0 ?t k1
         | _ \<Rightarrow> Some (connect_failed (- 5) t (sys_close ?fd k1)))"
      unfolding connect_loop.simps Let_def if_not_P [OF c1] if_not_P [OF c2] split_beta t_def [symmetric]
        k1_def [symmetric] by (rule refl)
    have "\<exists>rv' s' k'. connect_connected y raddr rport lport 0 ?t k1 = Some (rv', s', k') \<and> keeps s s'"
      using connect_connected_keeps [OF len] keeps_trans [OF k2] by metis
    moreover have "\<exists>rv' s' k'. connect_again y raddr rport lport 0 ?t k1 = Some (rv', s', k') \<and> keeps s s'"
      using connect_again_keeps [OF len] keeps_trans [OF k2] by metis
    ultimately show ?thesis
      unfolding step using t by (cases "at_connect at") (simp_all add: connect_failed_def)
  qed
qed

lemma connect_keeps:
  assumes "length (s_laddr s) = 16" "length (s_raddr s) = 16"
  shows "\<exists>rv s' k'. cp_sock_connect y (Some s) raddr rport lport k = Some (rv, Some s', k') \<and> keeps s s'"
proof -
  obtain s1 k1 where c: "close_sock s k = (s1, k1)" by (cases "close_sock s k")
  let ?s1 = "s1\<lparr>s_fd := - 1\<rparr>"
  have k1: "keeps s ?s1" using close_sock_keeps [of s k] c by (simp add: keeps_def sock_core_def)
  have len: "length (s_laddr ?s1) = 16" "length (s_raddr ?s1) = 16" using keepsD(1,2) [OF k1] assms by simp_all
  have loop: "\<exists>rv' s' k'. connect_loop y a rport lport ats (- 1) 0 ?s1 k1 = Some (rv', s', k') \<and> keeps s s'" for a ats
    using connect_loop_keeps [OF len] keeps_trans [OF k1] by metis
  have again: "\<exists>rv' s' k'. connect_again y a rport lport 0 s k = Some (rv', s', k') \<and> keeps s s'" for a
    by (rule connect_again_keeps [OF assms])
  show ?thesis
    using loop again c
    by (cases raddr; cases "y_addrs y") (auto simp: cp_sock_connect_def connect_failed_def)
qed

lemma listen_loop_keeps:
  assumes "length (s_laddr s) = 16"
  shows "\<exists>fd' rv' s' k'. listen_loop y lport ats fd rv s k = Some (fd', rv', s', k') \<and> keeps s s'"
  using assms
proof (induction ats arbitrary: fd rv k)
  case (Cons at ats)
  obtain l where l: "c_strncpy (s_laddr s) (at_text at) 15 = Some l" "length l = 16"
    using c_strncpy_16 [OF Cons.prems, of 15] by auto
  have "keeps s (s\<lparr>s_fd := at_socket at, s_lport := lport, s_laddr := l\<rparr>)"
    using l(2) Cons.prems by (simp add: keeps_def sock_core_def)
  then show ?case
    using Cons.IH [OF Cons.prems] l(1) by (simp add: Let_def split_beta)
qed simp

lemma listen_keeps:
  assumes "length (s_laddr s) = 16" "length (s_raddr s) = 16" "s_mode s = CP_SOCK_MODE_LISTEN"
  shows "\<exists>rv s' k'. cp_sock_listen y (Some s) laddr lport backlog k = Some (rv, s', k') \<and> keeps s s'"
proof -
  have clean: "\<exists>rv s' k'. Some (listen_cleanup y r t q) = Some (rv, s', k') \<and> keeps s s'" if "keeps s t" for r t q
    using that keeps_trans [OF that] by (simp add: listen_cleanup_def keeps_def sock_core_def)
  show ?thesis
  proof (cases "\<not> has_flag FLAG_SOCK_INIT s \<or> lport \<le> 0 \<or> backlog \<le> 0")
    case True
    then show ?thesis using clean [of s] by (simp add: cp_sock_listen_def)
  next
    case False
    obtain l where l: "c_strncpy (s_laddr s) (case laddr of None \<Rightarrow> ''0.0.0.0'' | Some t \<Rightarrow> t) 16 = Some l" "length l = 16"
      using c_strncpy_16 [OF assms(1), of 16] by auto
    obtain s1 k1 where c: "close_sock (s\<lparr>s_laddr := l\<rparr>) k = (s1, k1)" by (cases "close_sock (s\<lparr>s_laddr := l\<rparr>) k")
    have k1: "keeps s s1" using close_sock_keeps [of "s\<lparr>s_laddr := l\<rparr>" k] c l(2) assms(1) by (simp add: keeps_def sock_core_def)
    have k2: "keeps s (s1\<lparr>s_fd := - 1\<rparr>)" using k1 by (simp add: keeps_def sock_core_def)
    have len: "length (s_laddr (s1\<lparr>s_fd := - 1\<rparr>)) = 16" using keepsD(1) [OF k2] assms(1) by simp
    show ?thesis
    proof (cases "y_addrs y")
      case None
      then show ?thesis using False l(1) c clean [OF k1] by (simp add: cp_sock_listen_def)
    next
      case (Some ats)
      obtain fd rv t q where t: "listen_loop y lport ats (- 1) 0 (s1\<lparr>s_fd := - 1\<rparr>) k1 = Some (fd, rv, t, q)" "keeps s t"
        using listen_loop_keeps [OF len] keeps_trans [OF k2] by metis
      have "keeps s (t\<lparr>s_mode := CP_SOCK_MODE_LISTEN, s_rport := 0, s_raddr := replicate 16 NUL\<rparr>)"
        using t(2) assms(2,3) by (simp add: keeps_def sock_core_def)
      then show ?thesis
        using False l(1) c t Some clean [OF t(2)] clean
        by (cases "s_fd t < 0"; cases "y_listen y") (simp_all add: cp_sock_listen_def)
    qed
  qed
qed

end
