(* ===== verification/NetServices.thy ===== *)
theory NetServices
  imports NetOps
begin

text \<open>
  The three registrations keep the invariant of the context. Each either enters one socket into one list, or
  leaves the lists and the set of sockets as they were.
\<close>

section \<open>Failures\<close>

definition same_services :: "cp_fds \<Rightarrow> cp_fds \<Rightarrow> bool" where
  "same_services st st' \<longleftrightarrow> (\<forall>h. lists st' h = lists st h) \<and> dom (f_socks st') = dom (f_socks st)"

definition entered :: "addr \<Rightarrow> home \<Rightarrow> cp_fds \<Rightarrow> cp_fds \<Rightarrow> bool" where
  "entered a h st st' \<longleftrightarrow> (\<forall>g. lists st' g = lists st g @ (if g = h then [a] else [])) \<and>
     dom (f_socks st') = insert a (dom (f_socks st))"

lemma same_services_refl [simp]: "same_services st st"
  by (simp add: same_services_def)

text \<open>A socket that is only in the registry leaves it and disappears.\<close>

lemma drop_sock:
  assumes "net_inv st" "f_socks st a = Some s" "\<not> inq s" "\<not> tasked s" "\<not> epolled s" "s_accept_list s = []"
  obtains k' st1 st' where "cp_fds_del_sock_registry (Some a) st = Some st1" "net_inv st1"
    "term_sock (Some a) k st1 = Some (k', st')" "net_inv st'" "\<And>h. lists st' h = remove1 a (lists st h)"
    "dom (f_socks st') = dom (f_socks st) - {a}"
    "\<exists>s1. f_socks st1 a = Some s1 \<and> \<not> inq s1 \<and> \<not> tasked s1 \<and> \<not> registered s1 \<and> \<not> epolled s1 \<and> s_accept_list s1 = []"
proof -
  obtain st1 s1 where 1: "cp_fds_del_sock_registry (Some a) st = Some st1" "net_inv st1"
    "\<And>g. lists st1 g = remove1 a (lists st g)" "f_socks st1 a = Some s1" "dom (f_socks st1) = dom (f_socks st)"
    "\<not> registered s1" "s_accept_list s1 = remove1 a (s_accept_list s)" "loosen s s1"
    by (rule net_inv_del_registry [OF assms(1,2)]) (rule that)
  have s1: "\<not> inq s1" "\<not> tasked s1" "\<not> epolled s1" "s_accept_list s1 = []"
    using loosenD(6-8) [OF 1(8)] 1(7) assms(3-6) by simp_all
  obtain k' st' where 2: "term_sock (Some a) k st1 = Some (k', st')" "net_inv st'" "\<And>h. lists st' h = lists st1 h"
    "f_socks st' = (f_socks st1)(a := None)"
    by (rule net_inv_term_sock [OF 1(2,4) s1(1,2) 1(6) s1(3,4)]) (rule that)
  show thesis
    by (rule that [OF 1(1,2) 2(1,2)]) (use 1 2 s1 in simp_all)
qed

lemma accept_exit_ok:
  assumes "net_inv st" "f_socks st v \<noteq> None"
  shows "\<exists>st'. accept_exit rv v k st = Some (rv, k, st') \<and> net_inv st' \<and> same_services st st'"
proof -
  obtain s where s: "f_socks st v = Some s" using assms(2) by auto
  obtain st' s' where "cp_fds_del_sock_task (Some v) st = Some st'" "net_inv st'" "lists st' = lists st"
    "f_socks st' = (f_socks st)(v \<mapsto> s')"
    by (rule net_inv_del_task [OF assms(1) s]) (rule that)
  then show ?thesis using s by (simp add: accept_exit_def same_services_def insert_absorb domI)
qed

lemma accept_del_ok:
  assumes "net_inv st" "f_socks st a = Some s" "\<not> inq s" "\<not> tasked s" "\<not> epolled s" "s_accept_list s = []"
    "v \<noteq> a" "f_socks st v \<noteq> None"
  shows "\<exists>k' st'. accept_del rv a v k st = Some (rv, k', st') \<and> net_inv st' \<and> (\<forall>h. lists st' h = remove1 a (lists st h)) \<and>
    dom (f_socks st') = dom (f_socks st) - {a}"
proof -
  obtain k' st1 st2 where 1: "cp_fds_del_sock_registry (Some a) st = Some st1"
    "term_sock (Some a) k st1 = Some (k', st2)" "net_inv st2" "\<And>h. lists st2 h = remove1 a (lists st h)"
    "dom (f_socks st2) = dom (f_socks st) - {a}"
    by (rule drop_sock [OF assms(1-6)]) (rule that)
  have "f_socks st2 v \<noteq> None" using 1(5) assms(7,8) by (auto simp: dom_def)
  then obtain st' where "accept_exit rv v k' st2 = Some (rv, k', st')" "net_inv st'" "same_services st2 st'"
    using accept_exit_ok [OF 1(3)] by blast
  then show ?thesis
    using 1 by (simp add: accept_del_def accept_term_def same_services_def)
qed

lemma regist_term_ok:
  assumes "net_inv st" "f_socks st a = Some s" "\<not> inq s" "\<not> registered s" "\<not> epolled s" "s_accept_list s = []"
  shows "\<exists>k' st'. regist_term a k st = Some (None, k', st') \<and> net_inv st' \<and> (\<forall>h. lists st' h = lists st h) \<and>
    dom (f_socks st') = dom (f_socks st) - {a}"
proof -
  obtain st1 s1 where 1: "cp_fds_del_sock_task (Some a) st = Some st1" "net_inv st1" "lists st1 = lists st"
    "f_socks st1 = (f_socks st)(a \<mapsto> s1)" "sock_view s1 = sock_view s" "\<not> tasked s1" "inq s1 = inq s"
    by (rule net_inv_del_task [OF assms(1,2)]) (rule that)
  have a1: "f_socks st1 a = Some s1" using 1(4) by simp
  have s1: "\<not> inq s1" "\<not> registered s1" "\<not> epolled s1" "s_accept_list s1 = []"
    using 1(5,7) assms(3-6) sock_view_simps by metis+
  obtain k' st' where 2: "term_sock (Some a) k st1 = Some (k', st')" "net_inv st'" "\<And>h. lists st' h = lists st1 h"
    "f_socks st' = (f_socks st1)(a := None)"
    by (rule net_inv_term_sock [OF 1(2) a1 s1(1) 1(6) s1(2-4)]) (rule that)
  have "dom (f_socks st') = dom (f_socks st) - {a}"
    using 1(4) 2(4) by auto
  then show ?thesis using 1(1,3) 2 by (simp add: regist_term_def)
qed

lemma regist_del_ok:
  assumes "net_inv st" "f_socks st a = Some s" "\<not> inq s" "\<not> epolled s" "s_accept_list s = []"
  shows "\<exists>k' st'. regist_del a k st = Some (None, k', st') \<and> net_inv st' \<and> (\<forall>h. lists st' h = remove1 a (lists st h)) \<and>
    dom (f_socks st') = dom (f_socks st) - {a}"
proof -
  obtain st1 s1 where 1: "cp_fds_del_sock_registry (Some a) st = Some st1" "net_inv st1"
    "\<And>g. lists st1 g = remove1 a (lists st g)" "f_socks st1 a = Some s1" "dom (f_socks st1) = dom (f_socks st)"
    "\<not> registered s1" "s_accept_list s1 = remove1 a (s_accept_list s)" "loosen s s1"
    by (rule net_inv_del_registry [OF assms(1,2)]) (rule that)
  have s1: "\<not> inq s1" "\<not> epolled s1" "s_accept_list s1 = []"
    using loosenD(6-8) [OF 1(8)] 1(7) assms(3-5) by simp_all
  show ?thesis
    using regist_term_ok [OF 1(2,4) s1(1) 1(6) s1(2,3), of k] 1(1,3,5) by (simp add: regist_del_def)
qed

text \<open>A new address is in no list.\<close>

lemma fresh_not_listed:
  assumes "net_inv st" "f_socks st a = None"
  shows "a \<notin> set (lists st h)"
proof -
  have "home_at (view st) a = None" using assms(2) by (simp add: home_at_def view_def)
  then show ?thesis
    using reg_inv_lists(2) [of "view st" "f_client_list st" "f_server_list st" "f_event_cnt st" a h] net_invD(2) [OF assms(1)]
    by (simp add: reg_ok_def)
qed

lemma entered_then_dropped:
  assumes "net_inv st" "f_socks st a = None" "entered a h st st1"
    "\<And>g. lists st' g = remove1 a (lists st1 g)" "dom (f_socks st') = dom (f_socks st1) - {a}"
  shows "same_services st st'"
proof -
  have "lists st' g = lists st g" for g
    using assms(3) assms(4) [of g] fresh_not_listed [OF assms(1,2), of g]
    by (simp add: entered_def remove1_append remove1_idem)
  moreover have "dom (f_socks st') = dom (f_socks st)"
    using assms(2,3,5) by (auto simp: entered_def)
  ultimately show ?thesis by (simp add: same_services_def)
qed

section \<open>Entering\<close>

text \<open>A fresh socket that was given its mode enters its list.\<close>

lemma enter_sock:
  assumes "net_inv st" "f_socks st a = None" "sock_ok s" "\<not> inq s" "\<not> tasked s" "\<not> registered s" "\<not> epolled s"
    "s_accept_list s = []" "s_accept_cnt s = 0" "s_serv_sock s \<noteq> Some a" "can_enter (put_sock a s st) a s h"
    "\<And>v srv. h = Accepted v \<Longrightarrow> f_socks st v = Some srv \<Longrightarrow> s_accept_cnt srv < s_max_client srv"
  obtains st2 where "cp_fds_add_sock_registry (Some a) (put_sock a s st) = Some (0, st2)" "net_inv st2" "entered a h st st2"
    "f_socks st2 a = Some (set_flag FLAG_SOCK_REGISTRY s)" "f_max_event st2 = f_max_event st"
proof -
  note new = net_inv_new [OF assms(1-10)]
  have sa: "f_socks (put_sock a s st) a = Some s" by simp
  have room: "s_accept_cnt srv < s_max_client srv" if "h = Accepted v" "f_socks (put_sock a s st) v = Some srv" for v srv
    using that assms(11) assms(12) [of v srv] by (auto simp: can_enter_def split: if_splits)
  obtain st2 where st2: "cp_fds_add_sock_registry (Some a) (put_sock a s st) = Some (0, st2)" "net_inv st2"
    "\<And>g. lists st2 g = lists (put_sock a s st) g @ (if g = h then [a] else [])"
    "f_socks st2 a = Some (set_flag FLAG_SOCK_REGISTRY s)" "dom (f_socks st2) = dom (f_socks (put_sock a s st))"
    "f_max_event st2 = f_max_event (put_sock a s st)"
    by (rule net_inv_add_registry [OF new(1) sa assms(6,11) room]) (use that in blast)+
  have "entered a h st st2" using st2(3,5) new(2) by (simp add: entered_def)
  then show thesis using that st2(1,2,4,6) by simp
qed


section \<open>The three registrations\<close>

lemma accept_regist_ok:
  assumes "net_inv st" "f_socks st v = Some srv" "s_mode srv = CP_SOCK_MODE_LISTEN" "fresh_mem m st"
  shows "\<exists>rv k' st'. cp_sock_accept_regist y m ep (Some v) k st = Some (rv, k', st') \<and> net_inv st' \<and>
    (same_services st st' \<or> rv = 0 \<and> s_accept_cnt srv < s_max_client srv \<and>
      (\<exists>a s. m_sock m = Some a \<and> entered a (Accepted v) st st' \<and> f_socks st' a = Some s \<and> s_status s = SOCK_STAT_ACCEPTED))"
    (is "\<exists>rv k' st'. ?call = _ \<and> _")
proof -
  have v: "f_socks st v \<noteq> None" using assms(2) by simp
  have srv: "sock_ok srv" using net_invD(3) [OF assms(1,2)] .
  have exit: "\<exists>st'. accept_exit 0 v k st = Some (0, k, st') \<and> net_inv st' \<and> same_services st st'"
    by (rule accept_exit_ok [OF assms(1) v])
  show ?thesis
  proof (cases "s_accept_cnt srv \<ge> s_max_client srv")
    case True
    then show ?thesis using exit assms(2) by (auto simp: cp_sock_accept_regist_def)
  next
    case room: False
    show ?thesis
      using assms(4)
    proof (cases rule: sock_init_cases [where now = "y_now y" and r = CP_SOCK_RCVBUF and w = CP_SOCK_SNDBUF
          and i = CP_SOCK_KEEPINTVL and c = CP_SOCK_KEEPCNT])
      case failed
      then show ?thesis using exit assms(2) room by (auto simp: cp_sock_accept_regist_def)
    next
      case (made a s)
      let ?s = "s\<lparr>s_serv_sock := Some v, s_fds := s_fds srv, s_privt := s_privt srv, s_cbfunc := s_client_func srv,
          s_mode := CP_SOCK_MODE_ACCEPT\<rparr>"
      have va: "v \<noteq> a" using v made(4) by auto
      have f: "sock_ok ?s" "\<not> inq ?s" "\<not> tasked ?s" "\<not> registered ?s" "\<not> epolled ?s" "s_accept_list ?s = []"
        "s_accept_cnt ?s = 0" "s_serv_sock ?s \<noteq> Some a" "length (s_laddr ?s) = 16" "length (s_raddr ?s) = 16"
        using made(3) srv va by (simp_all add: fresh_sock_def sock_ok_def bufs_live_def)
      have "can_enter (put_sock a ?s st) a ?s (Accepted v)" using va assms(2,3) by (simp add: can_enter_def)
      then obtain st2 where 2: "cp_fds_add_sock_registry (Some a) (put_sock a ?s st) = Some (0, st2)" "net_inv st2"
        "entered a (Accepted v) st st2" "f_socks st2 a = Some (set_flag FLAG_SOCK_REGISTRY ?s)"
        using enter_sock [OF assms(1) made(4) f(1-8)] room assms(2) by force
      have v2: "f_socks st2 v \<noteq> None" using 2(3) v by (auto simp: entered_def)
      then obtain srv2 where srv2: "f_socks st2 v = Some srv2" by auto
      obtain rv s3 k3 where 3: "cp_sock_accept y (Some srv2) (Some (set_flag FLAG_SOCK_REGISTRY ?s)) k = Some (rv, Some s3, k3)"
        "keeps (set_flag FLAG_SOCK_REGISTRY ?s) s3" "rv = 0 \<Longrightarrow> s_status s3 = SOCK_STAT_ACCEPTED"
        using accept_keeps [of "set_flag FLAG_SOCK_REGISTRY ?s" y srv2 k] f(9,10) by auto
      note i3 = net_inv_keeps [OF 2(2,4) 3(2)]
      have fs3: "f_socks (put_sock a s3 st2) a = Some s3" by simp
      have s3: "\<not> inq s3" "\<not> tasked s3" "\<not> epolled s3" "s_accept_list s3 = []"
        using keepsD(4) [OF 3(2)] f(2,3,5,6) 3(2) by (simp_all add: keeps_def sock_core_def)
      have e3: "entered a (Accepted v) st (put_sock a s3 st2)"
        using 2(3,4) i3(2) by (auto simp: entered_def)
      have prefix: "?call = (if rv \<noteq> 0 then accept_del (- 3) a v k3 (put_sock a s3 st2)
          else do { (rv, st) \<leftarrow> cp_add_epoll_event ep (Some a) (put_sock a s3 st2);
                    if rv \<noteq> 0 then accept_del (- 4) a v k3 st else Some (0, k3, st) })"
        using assms(2) room made(2) 2(1,4) srv2 3(1) by (simp add: cp_sock_accept_regist_def cong: if_cong)
      show ?thesis
      proof (cases "rv = 0")
        case False
        have "f_socks (put_sock a s3 st2) v \<noteq> None" using v2 va by simp
        then obtain k' st' where "accept_del (- 3) a v k3 (put_sock a s3 st2) = Some (- 3, k', st')" "net_inv st'"
          "\<forall>h. lists st' h = remove1 a (lists (put_sock a s3 st2) h)" "dom (f_socks st') = dom (f_socks (put_sock a s3 st2)) - {a}"
          using accept_del_ok [OF i3(1) fs3 s3 va] by blast
        then show ?thesis
          using prefix False entered_then_dropped [OF assms(1) made(4) e3, of st'] by simp
      next
        case True
        obtain rv4 st4 s4 where 4: "cp_add_epoll_event ep (Some a) (put_sock a s3 st2) = Some (rv4, st4)" "net_inv st4"
          "lists st4 = lists (put_sock a s3 st2)" "f_socks st4 = (f_socks (put_sock a s3 st2))(a \<mapsto> s4)"
          "s_accept_list s4 = s_accept_list s3" "inq s4 = inq s3" "tasked s4 = tasked s3" "rv4 \<noteq> 0 \<Longrightarrow> epolled s4 = epolled s3"
          "s_status s4 = s_status s3"
          by (rule net_inv_add_epoll [OF i3(1) fs3, of ep]) (rule that)
        have e4: "entered a (Accepted v) st st4" using e3 4(3,4) by (auto simp: entered_def)
        have a4: "f_socks st4 a = Some s4" using 4(4) by simp
        show ?thesis
        proof (cases "rv4 = 0")
          case True
          then show ?thesis
            using prefix \<open>rv = 0\<close> 4(1,2,9) e4 a4 made(1) 3(3) room by auto
        next
          case False
          have "f_socks st4 v \<noteq> None" using v2 va 4(4) by simp
          moreover have "\<not> inq s4" "\<not> tasked s4" "\<not> epolled s4" "s_accept_list s4 = []"
            using 4(5-8) False s3 by simp_all
          ultimately obtain k' st' where "accept_del (- 4) a v k3 st4 = Some (- 4, k', st')" "net_inv st'"
            "\<forall>h. lists st' h = remove1 a (lists st4 h)" "dom (f_socks st') = dom (f_socks st4) - {a}"
            using accept_del_ok [OF 4(2) a4 _ _ _ _ va] by blast
          then show ?thesis
            using prefix \<open>rv = 0\<close> 4(1) False entered_then_dropped [OF assms(1) made(4) e4, of st'] by simp
        qed
      qed
    qed
  qed
qed


text \<open>Connecting a registered socket that epoll does not watch yet.\<close>

lemma connect_and_add_ok:
  assumes "net_inv st" "f_socks st a = Some s" "\<not> inq s" "\<not> epolled s" "s_accept_list s = []"
  shows "\<exists>r k' st'. connect_and_add y ep a raddr rport lport k st = Some (r, k', st') \<and> net_inv st' \<and>
    (r = Some a \<and> lists st' = lists st \<and> dom (f_socks st') = dom (f_socks st) \<or>
     r = None \<and> (\<forall>h. lists st' h = remove1 a (lists st h)) \<and> dom (f_socks st') = dom (f_socks st) - {a})"
proof -
  have "sock_ok s" using net_invD(3) [OF assms(1,2)] .
  then obtain rv s3 k3 where 3: "cp_sock_connect y (Some s) (Some raddr) rport lport k = Some (rv, Some s3, k3)" "keeps s s3"
    using connect_keeps [of s y "Some raddr" rport lport k] by (auto simp: sock_ok_def)
  note i3 = net_inv_keeps [OF assms(1,2) 3(2)]
  have fs3: "f_socks (put_sock a s3 st) a = Some s3" by simp
  have s3: "\<not> inq s3" "\<not> epolled s3" "s_accept_list s3 = []"
    using keepsD(4) [OF 3(2)] assms(3-5) 3(2) by (simp_all add: keeps_def sock_core_def)
  have d3: "dom (f_socks (put_sock a s3 st)) = dom (f_socks st)" using assms(2) by auto
  show ?thesis
  proof (cases "rv = 0")
    case False
    obtain k' st' where "regist_del a k3 (put_sock a s3 st) = Some (None, k', st')" "net_inv st'"
      "\<forall>h. lists st' h = remove1 a (lists (put_sock a s3 st) h)" "dom (f_socks st') = dom (f_socks (put_sock a s3 st)) - {a}"
      using regist_del_ok [OF i3(1) fs3 s3] by blast
    then show ?thesis using assms(2) 3(1) False i3(2) d3 by (simp add: connect_and_add_def)
  next
    case True
    obtain rv4 st4 s4 where 4: "cp_add_epoll_event ep (Some a) (put_sock a s3 st) = Some (rv4, st4)" "net_inv st4"
      "lists st4 = lists (put_sock a s3 st)" "f_socks st4 = (f_socks (put_sock a s3 st))(a \<mapsto> s4)"
      "s_accept_list s4 = s_accept_list s3" "inq s4 = inq s3" "rv4 \<noteq> 0 \<Longrightarrow> epolled s4 = epolled s3"
      by (rule net_inv_add_epoll [OF i3(1) fs3, of ep]) (rule that)
    have a4: "f_socks st4 a = Some s4" and d4: "dom (f_socks st4) = dom (f_socks st)" using 4(4) assms(2) by auto
    show ?thesis
    proof (cases "rv4 = 0")
      case True
      then show ?thesis using assms(2) 3(1) \<open>rv = 0\<close> 4(1-3) i3(2) d4 by (simp add: connect_and_add_def)
    next
      case False
      have "\<not> inq s4" "\<not> epolled s4" "s_accept_list s4 = []" using 4(5-7) False s3 by simp_all
      then obtain k' st' where "regist_del a k3 st4 = Some (None, k', st')" "net_inv st'"
        "\<forall>h. lists st' h = remove1 a (lists st4 h)" "dom (f_socks st') = dom (f_socks st4) - {a}"
        using regist_del_ok [OF 4(2) a4] by blast
      then show ?thesis
        using assms(2) 3(1) \<open>rv = 0\<close> 4(1,3) False i3(2) d4 by (simp add: connect_and_add_def)
    qed
  qed
qed

lemma connect_regist_ok:
  assumes "net_inv st" "fresh_mem m st"
  shows "\<exists>r k' st'. cp_sock_connect_regist y m ep fds None raddr rport lport cb k st = Some (r, k', st') \<and> net_inv st' \<and>
    (case r of None \<Rightarrow> same_services st st' | Some a \<Rightarrow> m_sock m = Some a \<and> entered a Clients st st')"
    (is "\<exists>r k' st'. ?call = _ \<and> _")
proof -
  have none: ?thesis if "?call = Some (None, k, st)"
    using that assms(1) by simp
  show ?thesis
  proof (cases "raddr = None \<or> \<not> fds \<or> rport < 0")
    case True
    then have "?call = Some (None, k, st)" by (cases raddr) (auto simp: cp_sock_connect_regist_def)
    then show ?thesis by (rule none)
  next
    case False
    then obtain addr where addr: "raddr = Some addr" "fds" "\<not> rport < 0" by auto
    show ?thesis
      using assms(2)
    proof (cases rule: sock_init_cases [where now = "y_now y" and r = CP_SOCK_RCVBUF and w = CP_SOCK_SNDBUF
          and i = CP_SOCK_KEEPINTVL and c = CP_SOCK_KEEPCNT])
      case failed
      then have "?call = Some (None, k, st)" using addr by (simp add: cp_sock_connect_regist_def)
      then show ?thesis by (rule none)
    next
      case (made a s)
      obtain l where l: "c_strncpy (s_laddr s) ''0.0.0.0'' 16 = Some l" "length l = 16"
        using c_strncpy_16 [of "s_laddr s" 16] made(3) by (auto simp: fresh_sock_def)
      let ?s = "s\<lparr>s_fds := True, s_cbfunc := cb, s_mode := CP_SOCK_MODE_CONNECT, s_laddr := l\<rparr>"
      have f: "sock_ok ?s" "\<not> inq ?s" "\<not> tasked ?s" "\<not> registered ?s" "\<not> epolled ?s" "s_accept_list ?s = []"
        "s_accept_cnt ?s = 0" "s_serv_sock ?s \<noteq> Some a"
        using made(3) l(2) by (simp_all add: fresh_sock_def sock_ok_def bufs_live_def)
      have "can_enter (put_sock a ?s st) a ?s Clients" by (simp add: can_enter_def)
      then obtain st2 where 2: "cp_fds_add_sock_registry (Some a) (put_sock a ?s st) = Some (0, st2)" "net_inv st2"
        "entered a Clients st st2" "f_socks st2 a = Some (set_flag FLAG_SOCK_REGISTRY ?s)"
        using enter_sock [OF assms(1) made(4) f] by force
      have status: "s_status s \<noteq> SOCK_STAT_CONNECTED" "\<not> registered s"
        using made(3) by (simp_all add: fresh_sock_def SOCK_STAT_CONNECTED_def)
      have prefix: "?call = connect_and_add y ep a addr rport lport k st2"
        using addr made(2) status l(1) 2(1) by (simp add: cp_sock_connect_regist_def)
      have g: "\<not> inq (set_flag FLAG_SOCK_REGISTRY ?s)" "\<not> epolled (set_flag FLAG_SOCK_REGISTRY ?s)"
        "s_accept_list (set_flag FLAG_SOCK_REGISTRY ?s) = []" using f by simp_all
      obtain r k' st' where 3: "connect_and_add y ep a addr rport lport k st2 = Some (r, k', st')" "net_inv st'"
        "r = Some a \<and> lists st' = lists st2 \<and> dom (f_socks st') = dom (f_socks st2) \<or>
         r = None \<and> (\<forall>h. lists st' h = remove1 a (lists st2 h)) \<and> dom (f_socks st') = dom (f_socks st2) - {a}"
        using connect_and_add_ok [OF 2(2,4) g] by blast
      from 3(3) show ?thesis
      proof
        assume "r = Some a \<and> lists st' = lists st2 \<and> dom (f_socks st') = dom (f_socks st2)"
        then show ?thesis using prefix 3(1,2) 2(3) made(1) by (simp add: entered_def)
      next
        assume d: "r = None \<and> (\<forall>h. lists st' h = remove1 a (lists st2 h)) \<and> dom (f_socks st') = dom (f_socks st2) - {a}"
        have "same_services st st'"
          by (rule entered_then_dropped [OF assms(1) made(4) 2(3)]) (use d in simp_all)
        then show ?thesis using prefix 3(1,2) d by simp
      qed
    qed
  qed
qed

lemma server_regist_ok:
  assumes "net_inv st" "fresh_mem m st"
  shows "\<exists>r k' st'. cp_sock_server_regist y m ep fds addr port max_client cb data k st = Some (r, k', st') \<and> net_inv st' \<and>
    (case r of None \<Rightarrow> same_services st st' | Some a \<Rightarrow> m_sock m = Some a \<and> entered a Servers st st')"
    (is "\<exists>r k' st'. ?call = _ \<and> _")
proof -
  have none: ?thesis if "?call = Some (None, k, st)"
    using that assms(1) by simp
  show ?thesis
  proof (cases "\<not> fds \<or> port < 0")
    case True
    then show ?thesis by (intro none) (simp add: cp_sock_server_regist_def)
  next
    case ok: False
    show ?thesis
      using assms(2)
    proof (cases rule: sock_init_cases [where now = "y_now y" and r = CP_SOCK_RCVBUF and w = CP_SOCK_SNDBUF
          and i = CP_SOCK_KEEPINTVL and c = CP_SOCK_KEEPCNT])
      case failed
      then have "?call = Some (None, k, st)" using ok by (simp add: cp_sock_server_regist_def)
      then show ?thesis by (rule none)
    next
      case (made a s)
      let ?s = "s\<lparr>s_accept_list := [], s_fds := True, s_cbfunc := Some CB_ACCEPT, s_client_func := cb, s_privt := data,
          s_mode := CP_SOCK_MODE_LISTEN\<rparr>"
      have f: "sock_ok ?s" "\<not> inq ?s" "\<not> tasked ?s" "\<not> registered ?s" "\<not> epolled ?s" "s_accept_list ?s = []"
        "s_accept_cnt ?s = 0" "s_serv_sock ?s \<noteq> Some a" "s_mode ?s = CP_SOCK_MODE_LISTEN"
        using made(3) by (simp_all add: fresh_sock_def sock_ok_def bufs_live_def)
      have "can_enter (put_sock a ?s st) a ?s Servers" by (simp add: can_enter_def)
      then obtain st2 where 2: "cp_fds_add_sock_registry (Some a) (put_sock a ?s st) = Some (0, st2)" "net_inv st2"
        "entered a Servers st st2" "f_socks st2 a = Some (set_flag FLAG_SOCK_REGISTRY ?s)" "f_max_event st2 = f_max_event st"
        using enter_sock [OF assms(1) made(4) f(1-8)] by force
      define mx where "mx = (if max_client < f_max_event st then if max_client \<le> 0 then CP_DEF_MAX_CLIENTS else max_client
        else CP_DEF_MAX_CLIENTS)"
      let ?s2 = "set_flag FLAG_SOCK_REGISTRY ?s"
      let ?s3 = "?s2\<lparr>s_max_client := mx\<rparr>"
      have core: "sock_core ?s3 = sock_core ?s2" by (simp add: sock_core_def)
      have "sock_ok ?s2" using f(1) by simp
      then have len: "length (s_laddr ?s3) = 16" "length (s_raddr ?s3) = 16" by (simp_all add: sock_ok_def)
      have mode: "s_mode ?s3 = CP_SOCK_MODE_LISTEN" by simp
      obtain rv s4 k4 where 3: "cp_sock_listen y (Some ?s3) addr port mx k = Some (rv, s4, k4)" "keeps ?s3 s4"
        using listen_keeps [OF len mode] by blast
      have core4: "sock_core s4 = sock_core ?s2" "s_accept_cnt s4 \<le> s_max_client s4"
        using 3(2) core f(7) by (simp_all add: keeps_def sock_core_def mx_def CP_DEF_MAX_CLIENTS_def)
      note i4 = net_inv_put_core [OF 2(2,4) core4]
      have fs4: "f_socks (put_sock a s4 st2) a = Some s4" by simp
      have s4: "\<not> inq s4" "\<not> epolled s4" "s_accept_list s4 = []"
        using sock_coreD(1,5) [OF core4(1)] f(2,5,6) by simp_all
      have e4: "entered a Servers st (put_sock a s4 st2)"
        using 2(3,4) i4(2) by (auto simp: entered_def)
      have mx: "(if max_client < f_max_event st then s_max_client (?s2\<lparr>s_max_client := if max_client \<le> 0 then CP_DEF_MAX_CLIENTS else max_client\<rparr>)
          else CP_DEF_MAX_CLIENTS) = mx"
        by (simp add: mx_def)
      have prefix: "?call = (if rv \<noteq> 0 then regist_del a k4 (put_sock a s4 st2)
          else do { (rv, st) \<leftarrow> cp_add_epoll_event ep (Some a) (put_sock a s4 st2);
                    if rv \<noteq> 0 then regist_del a k4 st else Some (Some a, k4, st) })"
        using ok made(2) 2(1,4,5) 3(1) mx by (simp add: cp_sock_server_regist_def cong: if_cong)
      show ?thesis
      proof (cases "rv = 0")
        case False
        obtain k' st' where "regist_del a k4 (put_sock a s4 st2) = Some (None, k', st')" "net_inv st'"
          "\<forall>h. lists st' h = remove1 a (lists (put_sock a s4 st2) h)" "dom (f_socks st') = dom (f_socks (put_sock a s4 st2)) - {a}"
          using regist_del_ok [OF i4(1) fs4 s4] by blast
        then show ?thesis using prefix False entered_then_dropped [OF assms(1) made(4) e4, of st'] by simp
      next
        case True
        obtain rv5 st5 s5 where 5: "cp_add_epoll_event ep (Some a) (put_sock a s4 st2) = Some (rv5, st5)" "net_inv st5"
          "lists st5 = lists (put_sock a s4 st2)" "f_socks st5 = (f_socks (put_sock a s4 st2))(a \<mapsto> s5)"
          "s_accept_list s5 = s_accept_list s4" "inq s5 = inq s4" "rv5 \<noteq> 0 \<Longrightarrow> epolled s5 = epolled s4"
          by (rule net_inv_add_epoll [OF i4(1) fs4, of ep]) (rule that)
        have e5: "entered a Servers st st5" using e4 5(3,4) by (auto simp: entered_def)
        have a5: "f_socks st5 a = Some s5" using 5(4) by simp
        show ?thesis
        proof (cases "rv5 = 0")
          case True
          then show ?thesis using prefix \<open>rv = 0\<close> 5(1,2) e5 made(1) by simp
        next
          case False
          have "\<not> inq s5" "\<not> epolled s5" "s_accept_list s5 = []" using 5(5-7) False s4 by simp_all
          then obtain k' st' where "regist_del a k4 st5 = Some (None, k', st')" "net_inv st'"
            "\<forall>h. lists st' h = remove1 a (lists st5 h)" "dom (f_socks st') = dom (f_socks st5) - {a}"
            using regist_del_ok [OF 5(2) a5] by blast
          then show ?thesis
            using prefix \<open>rv = 0\<close> 5(1) False entered_then_dropped [OF assms(1) made(4) e5, of st'] by simp
        qed
      qed
    qed
  qed
qed

end
