(* ===== verification/NetSteps.thy ===== *)
theory NetSteps
  imports NetServices
begin

text \<open>
  The steps of a program that uses the services, from the creation of the context on: registrations, events, timeouts,
  sockets that are destroyed. Every reachable context satisfies the invariant.
\<close>

section \<open>Operations that move a socket between queue and array\<close>

definition same_net :: "cp_fds \<Rightarrow> cp_fds \<Rightarrow> bool" where
  "same_net st st' \<longleftrightarrow> f_client_list st' = f_client_list st \<and> f_server_list st' = f_server_list st \<and>
     f_event_cnt st' = f_event_cnt st \<and>
     (\<forall>b. map_option (\<lambda>s. (sock_view s, sock_ok s)) (f_socks st' b) = map_option (\<lambda>s. (sock_view s, sock_ok s)) (f_socks st b))"

lemma same_net_refl [simp]: "same_net st st"
  by (simp add: same_net_def)

lemma same_net_trans: "same_net st st' \<Longrightarrow> same_net st' st'' \<Longrightarrow> same_net st st''"
  by (simp add: same_net_def)

lemma same_net_put:
  "f_socks st a = Some s \<Longrightarrow> sock_view s' = sock_view s \<Longrightarrow> sock_ok s' = sock_ok s \<Longrightarrow> same_net st (put_sock a s' st)"
  by (simp add: same_net_def)

lemma same_net_frame [simp]:
  "same_net st (st\<lparr>f_heap := h, f_queue := q\<rparr>)" "same_net st (st\<lparr>f_tasks := t\<rparr>)"
  by (simp_all add: same_net_def)

lemma same_net_inv:
  assumes "net_inv st" "same_net st st'" "fds_wf st'"
  shows "net_inv st'" "lists st' = lists st" "dom (f_socks st') = dom (f_socks st)"
proof -
  have f: "map_option (\<lambda>s. (sock_view s, sock_ok s)) (f_socks st' b) = map_option (\<lambda>s. (sock_view s, sock_ok s)) (f_socks st b)" for b
    using assms(2) by (simp add: same_net_def)
  have vw: "view st' = view st"
  proof
    show "view st' b = view st b" for b
      using f [of b] by (cases "f_socks st b"; cases "f_socks st' b") (simp_all add: view_def)
  qed
  then show "lists st' = lists st" using assms(2) by (simp add: same_net_def)
  have "f_socks st' b = None \<longleftrightarrow> f_socks st b = None" for b
    using f [of b] by (cases "f_socks st b"; cases "f_socks st' b") simp_all
  then show "dom (f_socks st') = dom (f_socks st)" unfolding dom_def by simp
  have "sock_ok s' \<and> s_serv_sock s' \<noteq> Some b" if s': "f_socks st' b = Some s'" for b s'
  proof -
    obtain s where s: "f_socks st b = Some s" "sock_view s' = sock_view s" "sock_ok s' = sock_ok s"
      using f [of b] s' by (cases "f_socks st b") simp_all
    have "s_serv_sock s' = s_serv_sock s" using s(2) sock_view_simps(4) by metis
    then show ?thesis using net_invD(3,4) [OF assms(1) s(1)] s(3) by simp
  qed
  moreover have "reg_ok st'" using net_invD(2) [OF assms(1)] vw assms(2) by (simp add: reg_ok_def same_net_def)
  ultimately show "net_inv st'" using assms(3) by (simp add: net_inv_def)
qed

lemma sock_upd_ok [simp]:
  "sock_ok (s\<lparr>s_events := e, s_actv_time := t\<rparr>) = sock_ok s" "sock_view (s\<lparr>s_events := e, s_actv_time := t\<rparr>) = sock_view s"
  by (simp_all add: sock_ok_def bufs_live_def sock_view_def has_flag_def)

lemma enqueue_same_net:
  assumes "cp_fds_sock_enqueue mal (Some a) st = Some (r, st')"
  shows "same_net st st'"
proof -
  obtain s where s: "f_socks st a = Some s" using assms by (auto simp: cp_fds_sock_enqueue_def)
  have "st' = st \<or> (\<exists>h q. st' = put_sock a (set_flag FLAG_SOCK_INQUEUE s) st\<lparr>f_heap := h, f_queue := q\<rparr>)"
    using assms s by (auto simp: cp_fds_sock_enqueue_def Let_def split: if_splits)
  then show ?thesis
    using same_net_put [OF s, of "set_flag FLAG_SOCK_INQUEUE s"] by (auto simp: same_net_def)
qed

lemma add_task_same_net:
  assumes "cp_fds_add_sock_task (Some a) st = Some (r, st')"
  shows "same_net st st'"
proof -
  obtain s where s: "f_socks st a = Some s" using assms by (auto simp: cp_fds_add_sock_task_def)
  have "st' = st \<or> (\<exists>t. st' = st\<lparr>f_tasks := t\<rparr>) \<or>
      (\<exists>t i. st' = put_sock a (set_flag FLAG_SOCK_TASKED (s\<lparr>s_index := i\<rparr>)) (st\<lparr>f_tasks := t\<rparr>))"
    using assms s by (auto simp: cp_fds_add_sock_task_def Let_def split: if_splits)
  then show ?thesis using s by (auto simp: same_net_def)
qed

lemma detect_loop_same_net: "detect_loop mal now es st = Some st' \<Longrightarrow> same_net st st'"
proof (induction es arbitrary: st)
  case (Cons e es)
  obtain a ev where e: "e = (a, ev)" by (cases e)
  obtain s st1 where s: "f_socks st a = Some s"
    "(if s_status s = SOCK_STAT_ALREADY
      then do { (_, st) \<leftarrow> cp_fds_sock_enqueue mal (Some a) (put_sock a (s\<lparr>s_events := ev, s_actv_time := now\<rparr>) st); Some st }
      else Some (put_sock a (s\<lparr>s_events := ev, s_actv_time := now\<rparr>) st)) = Some st1"
    "detect_loop mal now es st1 = Some st'"
    using Cons.prems e by (auto simp: Let_def)
  have put: "same_net st (put_sock a (s\<lparr>s_events := ev, s_actv_time := now\<rparr>) st)"
    by (rule same_net_put [OF s(1)]) simp_all
  then have "same_net st st1"
    using s(2) same_net_trans [OF put enqueue_same_net] by (auto split: if_splits)
  then show ?case using Cons.IH [OF s(3)] same_net_trans by blast
qed simp

lemma check_timeout_same_net:
  assumes "check_timeout now a st = Some st'"
  shows "same_net st st'"
proof -
  obtain s where s: "f_socks st a = Some s" using assms by (auto simp: check_timeout_def)
  have put: "same_net st (put_sock a (s\<lparr>s_events := ev\<rparr>) st)" for ev
    by (rule same_net_put [OF s]) simp_all
  show ?thesis
    using assms s same_net_trans [OF put add_task_same_net]
    by (auto simp: check_timeout_def split: if_splits)
qed

lemma check_timeout_net_inv:
  assumes "net_inv st" "f_socks st a \<noteq> None"
  shows "\<exists>st'. check_timeout now a st = Some st' \<and> net_inv st' \<and> same_net st st' \<and> dom (f_socks st') = dom (f_socks st)"
proof -
  obtain s where s: "f_socks st a = Some s" using assms(2) by auto
  then have "s_fds s" using net_invD(3) [OF assms(1) s] by (simp add: sock_ok_def)
  then obtain st' where "check_timeout now a st = Some st'" "fds_wf st'"
    using check_timeout_state [OF net_invD(1) [OF assms(1)] s, of now] by blast
  then show ?thesis using same_net_inv [OF assms(1) check_timeout_same_net] check_timeout_same_net by blast
qed

lemma timeout_loop_net_inv:
  "net_inv st \<Longrightarrow> set as \<subseteq> dom (f_socks st) \<Longrightarrow>
   \<exists>st'. timeout_loop now as st = Some st' \<and> net_inv st' \<and> same_net st st' \<and> dom (f_socks st') = dom (f_socks st)"
proof (induction as arbitrary: st)
  case (Cons a as)
  obtain st1 where 1: "check_timeout now a st = Some st1" "net_inv st1" "same_net st st1" "dom (f_socks st1) = dom (f_socks st)"
    using check_timeout_net_inv [OF Cons.prems(1), of a now] Cons.prems(2) by auto
  obtain st2 where "timeout_loop now as st1 = Some st2" "net_inv st2" "same_net st1 st2" "dom (f_socks st2) = dom (f_socks st1)"
    using Cons.IH [OF 1(2)] 1(4) Cons.prems(2) by auto
  then show ?case using 1 same_net_trans by fastforce
qed simp

text \<open>The addresses in a list are live sockets.\<close>

lemma lists_live:
  assumes "net_inv st"
  shows "set (lists st h) \<subseteq> dom (f_socks st)"
proof
  fix a assume "a \<in> set (lists st h)"
  then have "f_socks st a \<noteq> None" using fresh_not_listed [OF assms, of a h] by blast
  then show "a \<in> dom (f_socks st)" by auto
qed

lemma server_timeout_loop_net_inv:
  "net_inv st \<Longrightarrow> set vs \<subseteq> dom (f_socks st) \<Longrightarrow>
   \<exists>st'. server_timeout_loop now vs st = Some st' \<and> net_inv st' \<and> same_net st st'"
proof (induction vs arbitrary: st)
  case (Cons v vs)
  obtain srv where v: "f_socks st v = Some srv" using Cons.prems(2) by auto
  have "set (s_accept_list srv) \<subseteq> dom (f_socks st)"
    using lists_live [OF Cons.prems(1), of "Accepted v"] v by (simp add: view_def)
  then obtain st1 where 1: "timeout_loop now (s_accept_list srv) st = Some st1" "net_inv st1" "same_net st st1"
    "dom (f_socks st1) = dom (f_socks st)"
    using timeout_loop_net_inv [OF Cons.prems(1)] by blast
  obtain st2 where "server_timeout_loop now vs st1 = Some st2" "net_inv st2" "same_net st1 st2"
    using Cons.IH [OF 1(2)] 1(4) Cons.prems(2) by auto
  then show ?case using v 1 same_net_trans by fastforce
qed simp

lemma detect_timeout_net_inv:
  assumes "net_inv st"
  shows "\<exists>st'. cp_sock_detect_timeout now st = Some st' \<and> net_inv st' \<and> same_net st st'"
proof -
  obtain st1 where 1: "timeout_loop now (f_client_list st) st = Some st1" "net_inv st1" "same_net st st1"
    "dom (f_socks st1) = dom (f_socks st)"
    using timeout_loop_net_inv [OF assms, of "f_client_list st" now] lists_live [OF assms, of Clients] by auto
  have fsl: "f_server_list st1 = f_server_list st" using 1(3) by (simp add: same_net_def)
  then obtain st2 where 2: "server_timeout_loop now (f_server_list st) st1 = Some st2" "net_inv st2" "same_net st1 st2"
    using server_timeout_loop_net_inv [OF 1(2), of "f_server_list st" now] lists_live [OF 1(2), of Servers] by auto
  then show ?thesis using 1 fsl same_net_trans [OF 1(3) 2(3)] by (simp add: cp_sock_detect_timeout_def)
qed

section \<open>Destroying a socket\<close>

lemma destroy_sock_net_inv:
  assumes "net_inv st" "f_socks st a = Some s" "s_accept_list s = []"
  shows "\<exists>st'. cp_fds_destroy_sock ok (Some a) st = Some st' \<and> net_inv st' \<and> (\<forall>h. lists st' h = remove1 a (lists st h)) \<and>
    dom (f_socks st') = dom (f_socks st) - {a}"
proof -
  obtain st1 s1 where 1: "cp_fds_del_sock_task (Some a) st = Some st1" "net_inv st1" "lists st1 = lists st"
    "f_socks st1 = (f_socks st)(a \<mapsto> s1)" "sock_view s1 = sock_view s" "\<not> tasked s1"
    by (rule net_inv_del_task [OF assms(1,2)]) (rule that)
  have a1: "f_socks st1 a = Some s1" using 1(4) by simp
  obtain r st2 s2 where 2: "cp_fds_sock_rmqueue (Some a) st1 = Some (r, st2)" "net_inv st2" "lists st2 = lists st1"
    "f_socks st2 = (f_socks st1)(a \<mapsto> s2)" "sock_view s2 = sock_view s1" "\<not> inq s2" "tasked s2 = tasked s1"
    by (rule net_inv_rmqueue [OF 1(2) a1]) (rule that)
  have a2: "f_socks st2 a = Some s2" using 2(4) by simp
  obtain st3 s3 where 3: "cp_del_epoll_event (Some a) st2 = Some st3" "net_inv st3" "lists st3 = lists st2"
    "f_socks st3 = (f_socks st2)(a \<mapsto> s3)" "\<not> epolled s3" "s_accept_list s3 = s_accept_list s2" "inq s3 = inq s2" "tasked s3 = tasked s2"
    by (rule net_inv_del_epoll [OF 2(2) a2]) (rule that)
  have a3: "f_socks st3 a = Some s3" using 3(4) by simp
  have "s_accept_list s2 = s_accept_list s" using 1(5) 2(5) sock_view_simps(5) by metis
  then have s3: "\<not> inq s3" "\<not> tasked s3" "\<not> epolled s3" "s_accept_list s3 = []"
    using 1(6) 2(6,7) 3(5-8) assms(3) by simp_all
  obtain k' st4 st' where 4: "cp_fds_del_sock_registry (Some a) st3 = Some st4" "net_inv st4"
    "\<exists>s1. f_socks st4 a = Some s1 \<and> \<not> inq s1 \<and> \<not> tasked s1 \<and> \<not> registered s1 \<and> \<not> epolled s1 \<and> s_accept_list s1 = []"
    by (rule drop_sock [OF 3(2) a3 s3]) (rule that)
  have l4: "lists st4 h = remove1 a (lists st3 h)" "dom (f_socks st4) = dom (f_socks st3)" for h
  proof -
    obtain st5 where "cp_fds_del_sock_registry (Some a) st3 = Some st5" "\<And>g. lists st5 g = remove1 a (lists st3 g)"
      "dom (f_socks st5) = dom (f_socks st3)"
      by (rule net_inv_del_registry [OF 3(2) a3]) (rule that)
    then show "lists st4 h = remove1 a (lists st3 h)" "dom (f_socks st4) = dom (f_socks st3)" using 4(1) by auto
  qed
  obtain s4 where s4: "f_socks st4 a = Some s4" "\<not> inq s4" "\<not> tasked s4" "\<not> registered s4" "\<not> epolled s4" "s_accept_list s4 = []"
    using 4(3) by blast
  obtain st5 where 5: "cp_sock_term ok (Some a) st4 = Some st5" "net_inv st5" "\<And>h. lists st5 h = lists st4 h"
    "f_socks st5 = (f_socks st4)(a := None)"
    by (rule net_inv_term [OF 4(2) s4]) (rule that)
  have "cp_fds_destroy_sock ok (Some a) st = Some st5"
    using 1(1) 2(1) 3(1) 4(1) 5(1) by (simp add: cp_fds_destroy_sock_def)
  moreover have "lists st5 h = remove1 a (lists st h)" for h using 1(3) 2(3) 3(3) l4(1) 5(3) by simp
  moreover have "dom (f_socks st5) = dom (f_socks st) - {a}"
    using 1(4) 2(4) 3(4) l4(2) 5(4) assms(2) by auto
  ultimately show ?thesis using 5(2) by blast
qed


section \<open>Creation\<close>

lemma init_net_inv:
  assumes "cp_fds_init z given maxevents timeout k st = Some (k', Some st0)" "f_socks st = Map.empty"
    "fst (z_array z)" "snd (z_array z)" "0 \<le> maxevents"
  shows "net_inv st0" "\<And>h. lists st0 h = []" "f_event_cnt st0 = 0"
    "f_max_event st0 = (if maxevents < CP_DEF_MAX_EVENTS then maxevents else CP_DEF_MAX_EVENTS)"
    "waiting st0 = []" "f_heap st0 = f_heap st" "q_cap (fq st0) = nat (f_max_event st0)"
proof -
  define n where "n = (if maxevents < CP_DEF_MAX_EVENTS then maxevents else CP_DEF_MAX_EVENTS)"
  have n: "0 \<le> n" using assms(5) by (simp add: n_def CP_DEF_MAX_EVENTS_def)
  obtain t :: "addr cp_array" where t: "cp_array_init False True True n = Some t" "ar_wf t" "ar_data t = replicate (nat n) None"
    using n by (auto simp: cp_array_init_def ar_wf_def Let_def)
  have ft: "fst (z_array z) = True" "snd (z_array z) = True" using assms(3,4) by simp_all
  have st0: "f_queue st0 = Some \<lparr>cq_front = None, cq_rear = None, cq_items = 0, cq_size = n\<rparr>" "f_tasks st0 = Some t"
    "f_heap st0 = f_heap st" "f_socks st0 = Map.empty" "f_client_list st0 = []" "f_server_list st0 = []" "f_event_cnt st0 = 0"
    "f_max_event st0 = n"
    using assms(1,2) t(1) unfolding cp_fds_init_def n_def [symmetric] Let_def ft
    by (auto simp: cp_queue_init_def zero_fds_def split: if_splits)
  have q: "q_rep (f_heap st) \<lparr>cq_front = None, cq_rear = None, cq_items = 0, cq_size = n\<rparr> []"
    using n by (simp add: q_rep_def)
  have w: "q_wf (fq st0)" "waiting st0 = []"
    using q_wf_rep [OF q, of "[]"] st0(1,3) by (simp_all add: fq_def waiting_def)
  have cells: "task_cells st0 = replicate (nat n) None" using st0(2) t(3) by (simp add: task_cells_def)
  have "fds_wf st0"
    using st0(1,2,4) w t(2) cells by (simp add: fds_wf_def)
  have vw: "view st0 = Map.empty" by (rule ext) (simp add: view_def st0(4))
  show ls: "lists st0 h = []" for h using vw st0(5,6) by (cases h) simp_all
  have "reg_ok st0"
    using ls vw st0(5,6,7) by (simp add: reg_ok_def reg_inv_def home_at_def watched_def)
  then show "net_inv st0" using \<open>fds_wf st0\<close> st0(4) by (simp add: net_inv_def)
  show "f_event_cnt st0 = 0" "f_max_event st0 = (if maxevents < CP_DEF_MAX_EVENTS then maxevents else CP_DEF_MAX_EVENTS)"
    "waiting st0 = []" "f_heap st0 = f_heap st"
    using st0 w by (simp_all add: n_def)
  show "q_cap (fq st0) = nat (f_max_event st0)" using st0(1,8) by (simp add: fq_def q_cap_def)
qed

section \<open>Steps\<close>

text \<open>What a program does with its services. The allocators give new memory; a batch of events is about sockets of the
  context and finds room in the queue; a socket is destroyed when it serves no accepted clients.\<close>

inductive net_step :: "cp_fds \<Rightarrow> cp_fds \<Rightarrow> bool" where
  server: "\<lbrakk>fresh_mem m st; cp_sock_server_regist y m ep fds addr port n cb data k st = Some (r, k', st')\<rbrakk> \<Longrightarrow> net_step st st'"
| accept: "\<lbrakk>fresh_mem m st; f_socks st v = Some srv; s_mode srv = CP_SOCK_MODE_LISTEN; cp_sock_accept_regist y m ep (Some v) k st = Some (rv, k', st')\<rbrakk>
    \<Longrightarrow> net_step st st'"
| connect: "\<lbrakk>fresh_mem m st; cp_sock_connect_regist y m ep fds None raddr rport lport cb k st = Some (r, k', st')\<rbrakk>
    \<Longrightarrow> net_step st st'"
| events: "\<lbrakk>good_malloc mal; finite (dom (f_heap st)); fst ` set es \<subseteq> dom (f_socks st);
    length (waiting st) + length es \<le> q_cap (fq st); cp_fds_detect_event mal (Some es) now st = Some (rv, st')\<rbrakk> \<Longrightarrow> net_step st st'"
| timeouts: "cp_sock_detect_timeout now st = Some st' \<Longrightarrow> net_step st st'"
| destroy: "\<lbrakk>f_socks st a = Some s; s_accept_list s = []; cp_fds_destroy_sock ok (Some a) st = Some st'\<rbrakk> \<Longrightarrow> net_step st st'"

inductive net_steps :: "cp_fds \<Rightarrow> cp_fds \<Rightarrow> bool" where
  refl: "net_steps st st"
| step: "net_steps st st' \<Longrightarrow> net_step st' st'' \<Longrightarrow> net_steps st st''"

lemma net_step_inv:
  assumes "net_step st st'" "net_inv st"
  shows "net_inv st'"
  using assms(1)
proof cases
  case (server m y ep fds addr port n cb data k r k')
  obtain r1 k1 st1 where "cp_sock_server_regist y m ep fds addr port n cb data k st = Some (r1, k1, st1)" "net_inv st1"
    using server_regist_ok [OF assms(2) server(1)] by blast
  then show ?thesis using server(2) by simp
next
  case (accept m v srv y ep k rv k')
  obtain r1 k1 st1 where "cp_sock_accept_regist y m ep (Some v) k st = Some (r1, k1, st1)" "net_inv st1"
    using accept_regist_ok [OF assms(2) accept(2,3,1)] by blast
  then show ?thesis using accept(4) by simp
next
  case (connect m y ep fds raddr rport lport cb k r k')
  obtain r1 k1 st1 where "cp_sock_connect_regist y m ep fds None raddr rport lport cb k st = Some (r1, k1, st1)" "net_inv st1"
    using connect_regist_ok [OF assms(2) connect(1)] by blast
  then show ?thesis using connect(2) by simp
next
  case (events mal es now rv)
  have d: "detect_loop mal now es st = Some st'" using events(5) by (auto simp: cp_fds_detect_event_def)
  obtain st1 where "detect_loop mal now es st = Some st1" "fds_wf st1"
    using detect_loop_state [OF events(1) net_invD(1) [OF assms(2)] events(2-4)] by blast
  then show ?thesis using same_net_inv(1) [OF assms(2) detect_loop_same_net [OF d]] d by simp
next
  case (timeouts now)
  then show ?thesis using detect_timeout_net_inv [OF assms(2), of now] by auto
next
  case (destroy a s ok)
  obtain st1 where "cp_fds_destroy_sock ok (Some a) st = Some st1" "net_inv st1"
    using destroy_sock_net_inv [OF assms(2) destroy(1,2)] by blast
  then show ?thesis using destroy(3) by simp
qed

lemma net_steps_inv: "net_steps st st' \<Longrightarrow> net_inv st \<Longrightarrow> net_inv st'"
  by (induction rule: net_steps.induct) (auto intro: net_step_inv)

end
