(* ===== verification/SockProps.thy ===== *)
theory SockProps
  imports NetOps
begin

text \<open>
  Properties of the calls on a single socket: which descriptors they leave open, what the options are, and that sending and
  receiving keep the stream of bytes.
\<close>

section \<open>Descriptors\<close>

lemma setopt_open [simp]: "k_open (snd (sys_setopt y fd opt k)) = k_open k"
  by (simp add: sys_setopt_def)

lemma options_open [simp]:
  "k_open (snd (cp_sock_set_nonblock y fd k)) = k_open k"
  "k_open (snd (cp_sock_set_reuseaddr y fd k)) = k_open k"
  "k_open (snd (cp_sock_set_keepalive y fd i c k)) = k_open k"
  "k_open (snd (cp_sock_set_buffer y fd r w k)) = k_open k"
  by (auto simp: cp_sock_set_nonblock_def cp_sock_set_reuseaddr_def cp_sock_set_keepalive_def cp_sock_set_buffer_def
      set_buffer_opt_def sys_setopt_def Let_def split: option.splits)

lemma open_close [simp]:
  "set (k_open (sys_open fd k)) = insert fd (set (k_open k))"
  "distinct (k_open k) \<Longrightarrow> set (k_open (sys_close fd k)) = set (k_open k) - {fd}"
  "distinct (k_open k) \<Longrightarrow> distinct (k_open (sys_close fd k))"
  "distinct (k_open (sys_open fd k)) \<longleftrightarrow> distinct (k_open k) \<and> fd \<notin> set (k_open k)"
  by (auto simp: sys_open_def sys_close_def)

text \<open>The kernel answers descriptors that are free.\<close>

definition free_fds :: "attempt list \<Rightarrow> int set \<Rightarrow> bool" where
  "free_fds ats used \<longleftrightarrow> (\<forall>at \<in> set ats. at_socket at \<notin> used)"

definition listened :: "kern \<Rightarrow> int \<Rightarrow> int \<Rightarrow> cp_sock \<Rightarrow> kern \<Rightarrow> bool" where
  "listened k fd' rv' s' k' \<longleftrightarrow> distinct (k_open k') \<and>
     (if s_fd s' < 0 then set (k_open k') = set (k_open k) \<and> fd' \<notin> set (k_open k)
      else set (k_open k') = insert (s_fd s') (set (k_open k)) \<and> rv' = 0 \<and> s_fd s' > 0 \<and> s_fd s' \<notin> set (k_open k))"

lemma listen_loop_fds:
  assumes "distinct (k_open k)" "free_fds ats (insert 0 (set (k_open k)))" "s_fd s = - 1" "fd \<notin> set (k_open k)"
    "listen_loop y lport ats fd rv s k = Some (fd', rv', s', k')"
  shows "listened k fd' rv' s' k'"
  using assms
proof (induction ats arbitrary: fd rv k)
  case (Cons at ats)
  let ?fd = "at_socket at"
  let ?k = "snd (cp_sock_set_nonblock y ?fd (snd (cp_sock_set_keepalive y ?fd (s_keepintvl s) (s_keepcnt s)
      (snd (cp_sock_set_reuseaddr y ?fd (sys_open ?fd k))))))"
  note p = Cons.prems
  have new: "?fd \<notin> set (k_open k)" "?fd \<noteq> 0" using p(2) by (simp_all add: free_fds_def)
  show ?case
  proof (cases "?fd < 0")
    case True
    then have l: "listen_loop y lport ats ?fd (- 3) s k = Some (fd', rv', s', k')" using p(5) by (simp add: Let_def)
    have "free_fds ats (insert 0 (set (k_open k)))" using p(2) by (simp add: free_fds_def)
    then show ?thesis by (rule Cons.IH [OF p(1) _ p(3) new(1) l])
  next
    case False
    have dist: "distinct (k_open ?k)" "set (k_open ?k) = insert ?fd (set (k_open k))" using p(1) new by simp_all
    show ?thesis
    proof (cases "at_bind at")
      case True
      then have "s_fd s' = ?fd" "rv' = 0" "k' = ?k"
        using p(5) False by (auto simp: Let_def split_beta)
      then show ?thesis using dist new False by (simp add: listened_def)
    next
      case fail: False
      let ?k2 = "sys_close ?fd ?k"
      have l: "listen_loop y lport ats ?fd (- 4) s ?k2 = Some (fd', rv', s', k')"
        using p(5) False fail by (simp add: Let_def split_beta)
      have c: "set (k_open ?k2) = set (k_open k)" "distinct (k_open ?k2)"
        using dist new by auto
      have "free_fds ats (insert 0 (set (k_open ?k2)))" "?fd \<notin> set (k_open ?k2)"
        using p(2) c(1) new by (simp_all add: free_fds_def)
      then have "listened ?k2 fd' rv' s' k'" using Cons.IH [OF c(2) _ p(3) _ l] by blast
      then show ?thesis unfolding listened_def c(1) .
    qed
  qed
qed (simp add: listened_def)

lemma listen_loop_rv:
  "rv < 0 \<or> ats \<noteq> [] \<Longrightarrow> listen_loop y lport ats fd rv s k = Some (fd', rv', s', k') \<Longrightarrow> s_fd s' < 0 \<Longrightarrow> rv' < 0"
proof (induction ats arbitrary: fd rv k)
  case (Cons at ats)
  show ?case
  proof (cases "at_socket at < 0 \<or> \<not> at_bind at")
    case True
    then obtain fd1 r1 k1 where "listen_loop y lport ats fd1 r1 s k1 = Some (fd', rv', s', k')" "r1 < 0"
      using Cons.prems(2) that [of "at_socket at" "- 3" k] by (cases "at_socket at < 0") (force simp: Let_def split_beta)+
    then show ?thesis using Cons.IH Cons.prems(3) by blast
  next
    case False
    then show ?thesis using Cons.prems(2,3) by (auto simp: Let_def split_beta)
  qed
qed simp

lemma close_sock_fds:
  assumes "distinct (k_open k)"
  shows "distinct (k_open (snd (close_sock s k)))"
    "set (k_open (snd (close_sock s k))) = set (k_open k) - (if s_fd s > 0 then {s_fd s} else {})"
  using assms by (simp_all add: close_sock_def)

lemma cleanup_fds:
  assumes "distinct (k_open k)"
  shows "set (k_open (snd (snd (listen_cleanup y rv s k)))) =
      set (k_open k) - (if rv \<noteq> 0 \<and> s_fd s > 0 then {s_fd s} else {})"
    "distinct (k_open (snd (snd (listen_cleanup y rv s k))))"
    "fst (listen_cleanup y rv s k) = rv" "s_fd (fst (snd (listen_cleanup y rv s k))) = s_fd s"
  using assms by (simp_all add: listen_cleanup_def)

text \<open>The end of \<open>cp_sock_listen\<close>, after the loop over the addresses.\<close>

lemma listen_end_fds:
  assumes "listened k\<^sub>1 fd r t q" "s_fd t < 0 \<Longrightarrow> r < 0"
    "(if s_fd t < 0 then listen_cleanup y r t (sys_close fd q)
      else if \<not> y_listen y then listen_cleanup y (- 6) t q
      else listen_cleanup y r (t\<lparr>s_mode := CP_SOCK_MODE_LISTEN, s_rport := 0, s_raddr := replicate 16 NUL\<rparr>) q) = (rv, s', k')"
  shows "set (k_open k') = set (k_open k\<^sub>1) \<union> (if rv = 0 then {s_fd s'} else {})"
proof (cases "s_fd t < 0")
  case True
  then have q: "distinct (k_open q)" "set (k_open q) = set (k_open k\<^sub>1)" "fd \<notin> set (k_open k\<^sub>1)"
    using assms(1) by (simp_all add: listened_def)
  have c: "distinct (k_open (sys_close fd q))" "set (k_open (sys_close fd q)) = set (k_open k\<^sub>1)" using q by auto
  have e: "listen_cleanup y r t (sys_close fd q) = (rv, s', k')" using assms(3) True by simp
  show ?thesis using cleanup_fds(1,3) [OF c(1), of y r t] c(2) True assms(2) unfolding e by simp
next
  case False
  then have q: "distinct (k_open q)" "set (k_open q) = insert (s_fd t) (set (k_open k\<^sub>1))" "r = 0" "s_fd t > 0"
      "s_fd t \<notin> set (k_open k\<^sub>1)"
    using assms(1) by (simp_all add: listened_def)
  show ?thesis
  proof (cases "y_listen y")
    case True
    let ?t = "t\<lparr>s_mode := CP_SOCK_MODE_LISTEN, s_rport := 0, s_raddr := replicate 16 NUL\<rparr>"
    have e: "listen_cleanup y r ?t q = (rv, s', k')" using assms(3) False True by simp
    show ?thesis using cleanup_fds(1,3,4) [OF q(1), of y r ?t] q(2,3) unfolding e by simp
  next
    case noListen: False
    have e: "listen_cleanup y (- 6) t q = (rv, s', k')" using assms(3) False noListen by simp
    show ?thesis using cleanup_fds(1,3,4) [OF q(1), of y "- 6" t] q(2-5) unfolding e by auto
  qed
qed



definition sample_sys :: sys where
  "sample_sys = \<lparr>y_opt = (\<lambda>_ _. True), y_rcvbuf = (\<lambda>_. Some 87380), y_sndbuf = (\<lambda>_. Some 16384), y_flags = (\<lambda>_. Some 2),
     y_addrs = Some [\<lparr>at_socket = 5, at_bind = False, at_connect = CONN_OK, at_text = ''10.0.0.1'', at_cell = replicate 16 0\<rparr>,
       \<lparr>at_socket = 6, at_bind = True, at_connect = CONN_OK, at_text = ''10.0.0.2'', at_cell = replicate 16 1\<rparr>],
     y_listen = True, y_accept = None, y_name = None, y_again = (\<lambda>_. CONN_OK), y_now = 1000\<rparr>"

definition sample_tcp :: cp_sock where
  "sample_tcp = zero_sock\<lparr>s_fd := - 1, s_flag := 3, s_keepintvl := 600, s_keepcnt := 3\<rparr>"

definition sample_kern :: kern where
  "sample_kern = \<lparr>k_open = [0, 1, 2], k_opts = []\<rparr>"

lemma sample_listen:
  "\<exists>s' k'. cp_sock_listen sample_sys (Some sample_tcp) None 8000 5 sample_kern = Some (0, s', k') \<and> s_fd s' = 6"
proof -
  have "map_option (\<lambda>(rv, s, k). (rv, s_fd s)) (cp_sock_listen sample_sys (Some sample_tcp) None 8000 5 sample_kern) = Some (0, 6)"
    by code_simp
  then show ?thesis by auto
qed


section \<open>Connecting\<close>

lemma flag_init_fd: "has_flag f (s\<lparr>s_fd := n, s_status := x, s_saddr := bs\<rparr>) = has_flag f s"
  by (simp add: has_flag_def)

text \<open>A connection that the kernel establishes at once (as it may for a peer on the same host) is lost: the code marks the
  socket as still connecting, closes its descriptor and answers 0, success. The next call finds the descriptor
  closed and fails.\<close>

theorem connect_at_once_is_lost:
  assumes "has_flag FLAG_SOCK_INIT s" "s_fd s = - 1" "s_status s = 0" "0 < rport" "y_addrs y = Some (at # ats)"
    "0 \<le> at_socket at" "at_connect at = CONN_OK" "at_socket at \<notin> set (k_open k)" "distinct (k_open k)"
    "length (s_laddr s) = 16" "length (s_raddr s) = 16"
  shows "\<exists>s' k'. cp_sock_connect y (Some s) (Some addr) rport 0 k = Some (0, Some s', k') \<and> s_fd s' = at_socket at \<and>
    s_status s' = SOCK_STAT_CONNECTING \<and> set (k_open k') = set (k_open k) \<and>
    (\<forall>y2. \<exists>s2 k2. cp_sock_connect y2 (Some s') (Some addr) rport 0 k' = Some (- 7, Some s2, k2))"
proof -
  let ?fd = "at_socket at"
  define k1 where "k1 = snd (cp_sock_set_nonblock y ?fd (snd (cp_sock_set_keepalive y ?fd (s_keepintvl s) (s_keepcnt s)
    (snd (cp_sock_set_buffer y ?fd (s_rsize s) (s_ssize s) (sys_open ?fd k))))))"
  let ?t = "s\<lparr>s_fd := ?fd, s_status := SOCK_STAT_CONNECTING, s_saddr := at_cell at\<rparr>" and ?k = "sys_close ?fd k1"
  have same: "s\<lparr>s_fd := - 1\<rparr> = s" using assms(2) by (cases s) simp
  have st: "s_status s \<noteq> SOCK_STAT_CONNECTED" "s_status s \<noteq> SOCK_STAT_CONNECTING" "SOCK_STAT_CONNECTING \<noteq> SOCK_STAT_CONNECTED"
    "SOCK_STAT_DISCONNECT \<noteq> SOCK_STAT_CONNECTED"
    using assms(3) by (simp_all add: SOCK_STAT_CONNECTED_def SOCK_STAT_CONNECTING_def SOCK_STAT_DISCONNECT_def)
  have loop: "connect_loop y addr rport 0 (at # ats) (- 1) 0 s k = Some (0, ?t, ?k)"
    using assms(6,7) st(3) by (simp add: split_beta Let_def k1_def connect_connected_def connect_failed_def)
  have "close_sock s k = (s, k)" using assms(2) same by (simp add: close_sock_def cp_sock_close_def)
  then have "cp_sock_connect y (Some s) (Some addr) rport 0 k = Some (0, Some ?t, ?k)"
    using assms(1,4,5) st(1,2) same loop by (simp add: cp_sock_connect_def del: connect_loop.simps)
  moreover have k: "set (k_open ?k) = set (k_open k)"
    using assms(8,9) by (auto simp: k1_def)
  moreover have "\<exists>s2 k2. cp_sock_connect y2 (Some ?t) (Some addr) rport 0 ?k = Some (- 7, Some s2, k2)" for y2
    using assms(1,4,8) st(3,4) k
    by (simp add: cp_sock_connect_def flag_init_fd connect_again_def sys_connect_def connect_connected_def connect_failed_def)
  ultimately show ?thesis by auto
qed

theorem connect_at_once_is_lost_witness:
  "\<exists>s' k'. cp_sock_connect sample_sys (Some sample_tcp) (Some ''10.0.0.1'') 8000 0 sample_kern = Some (0, Some s', k') \<and>
    s_fd s' = 5 \<and> s_status s' = SOCK_STAT_CONNECTING \<and> set (k_open k') = {0, 1, 2} \<and>
    (\<forall>y2. \<exists>s2 k2. cp_sock_connect y2 (Some s') (Some ''10.0.0.1'') 8000 0 k' = Some (- 7, Some s2, k2))"
proof -
  let ?at = "\<lparr>at_socket = 5, at_bind = False, at_connect = CONN_OK, at_text = ''10.0.0.1'', at_cell = replicate 16 0\<rparr>"
  have "\<exists>s' k'. cp_sock_connect sample_sys (Some sample_tcp) (Some ''10.0.0.1'') 8000 0 sample_kern = Some (0, Some s', k') \<and>
      s_fd s' = at_socket ?at \<and> s_status s' = SOCK_STAT_CONNECTING \<and> set (k_open k') = set (k_open sample_kern) \<and>
      (\<forall>y2. \<exists>s2 k2. cp_sock_connect y2 (Some s') (Some ''10.0.0.1'') 8000 0 k' = Some (- 7, Some s2, k2))"
    by (rule connect_at_once_is_lost)
      (simp_all add: sample_tcp_def sample_sys_def sample_kern_def zero_sock_def has_flag_def FLAG_SOCK_INIT_def)
  then show ?thesis by (simp add: sample_kern_def)
qed

section \<open>The stream of bytes\<close>

lemma shift_front:
  assumes "n \<le> len" "len \<le> length d"
  shows "\<exists>d'. c_memcpy d 0 d (int n) (int (len - n)) = Some d' \<and> length d' = length d \<and> take (len - n) d' = drop n (take len d)"
proof -
  have "c_memcpy d 0 d (int n) (int (len - n)) = Some (take (len - n) (drop n d) @ drop (len - n) d)"
    using c_memcpy_nat [of d 0 d n "len - n"] assms by simp
  moreover have "take (len - n) (drop n d) = drop n (take len d)" by (simp add: drop_take)
  ultimately show ?thesis using assms by auto
qed

lemma sock_send_takes:
  assumes "0 \<le> s_fd s" "s_sbuf s = STR_AT b" "cs_data b = Some d" "rd_slice d 0 (nat (cs_len b)) = Some xs" "0 < cs_len b" "0 < poll"
    "sendto xs = SENT (int n)" "c_memcpy d 0 d (int n) (cs_len b - int n) = Some d'"
  shows "cp_sock_send poll sendto now (Some s) = Some (int n, take n xs,
    Some (s\<lparr>s_sbuf := STR_AT (b\<lparr>cs_data := Some d', cs_len := cs_len b - int n\<rparr>), s_actv_time := now\<rparr>))"
proof -
  have n: "\<not> s_fd s < 0" "\<not> cs_len b \<le> 0" "POLLOUT AND POLLOUT \<noteq> 0" using assms(1,5) by (simp_all add: POLLOUT_def)
  show ?thesis
    unfolding cp_sock_send_def option.case if_not_P [OF n(1)] assms(2) str_ptr.case assms(3) if_not_P [OF n(2)] if_P [OF assms(6)]
      Let_def if_not_P [OF n(3)] assms(4) Option.bind.bind_lunit assms(7) send_rv.case assms(8) nat_int ..
qed

lemma sock_recv_appends:
  assumes "0 \<le> s_fd t" "s_rbuf t = STR_AT c" "cs_data c = Some e" "0 < cs_size c - cs_len c" "xs \<noteq> []"
    "c_memcpy e (cs_len c) xs 0 (int (length xs)) = Some e'"
  shows "cp_sock_recv (\<lambda>_. RECV xs) now (Some t) = Some (int (length xs),
    Some (t\<lparr>s_rbuf := STR_AT (c\<lparr>cs_data := Some e', cs_len := cs_len c + int (length xs)\<rparr>), s_actv_time := now, s_msg_time := now\<rparr>))"
proof -
  have room: "\<not> cs_size c - cs_len c \<le> 0" "\<not> s_fd t < 0" using assms(1,4) by simp_all
  show ?thesis
    unfolding cp_sock_recv_def option.case assms(2) str_ptr.case assms(3) Let_def if_not_P [OF room(1)] if_not_P [OF room(2)]
      recv_rv.case if_not_P [OF assms(5)] if_not_P [OF room(1)] assms(6) Option.bind.bind_lunit ..
qed

text \<open>C23. Nothing is lost, doubled or reordered between two sockets: when the kernel takes \<open>n\<close> bytes from the send buffer
  of one and delivers them to the receive buffer of the other, which has room for them, then the bytes received so far followed
  by those still to be sent are the same as before.\<close>

theorem transfer_keeps_stream:
  assumes "0 \<le> s_fd s" "s_sbuf s = STR_AT b" "cs_wf b" "0 < cs_len b" "0 < poll" "sendto (cs_bytes b) = SENT (int n)"
    "0 < n" "int n \<le> cs_len b" "0 \<le> s_fd t" "s_rbuf t = STR_AT c" "cs_wf c" "int n \<le> cs_size c - cs_len c"
  shows "\<exists>s' t' b' c'. cp_sock_send poll sendto now (Some s) = Some (int n, take n (cs_bytes b), Some s') \<and>
    cp_sock_recv (\<lambda>_. RECV (take n (cs_bytes b))) now2 (Some t) = Some (int n, Some t') \<and>
    s_sbuf s' = STR_AT b' \<and> cs_wf b' \<and> s_rbuf t' = STR_AT c' \<and> cs_wf c' \<and>
    cs_bytes c' @ cs_bytes b' = cs_bytes c @ cs_bytes b"
proof -
  obtain d l where b: "cs_data b = Some d" "cs_size b = int (length d)" "cs_len b = int l" "l \<le> length d" "cs_bytes b = take l d"
    by (rule cs_wfE [OF assms(3)]) (rule that)
  obtain e r where c: "cs_data c = Some e" "cs_size c = int (length e)" "cs_len c = int r" "r \<le> length e" "cs_bytes c = take r e"
    by (rule cs_wfE [OF assms(11)]) (rule that)
  have nl: "n \<le> l" "n \<le> length e - r" using assms(8,12) b(3) c(2,3,4) by simp_all
  obtain d' where d': "c_memcpy d 0 d (int n) (int (l - n)) = Some d'" "length d' = length d" "take (l - n) d' = drop n (take l d)"
    using shift_front [OF nl(1) b(4)] by blast
  let ?xs = "take n (cs_bytes b)" and ?b = "b\<lparr>cs_data := Some d', cs_len := int (l - n)\<rparr>"
  let ?e = "take r e @ take n (cs_bytes b) @ drop (r + n) e"
  let ?c = "c\<lparr>cs_data := Some ?e, cs_len := int r + int n\<rparr>"
  have len: "length ?xs = n" using nl(1) b(4,5) by simp
  have pos: "cs_len b - int n = int (l - n)" using nl(1) b(3) by simp
  have send: "cp_sock_send poll sendto now (Some s) = Some (int n, ?xs, Some (s\<lparr>s_sbuf := STR_AT ?b, s_actv_time := now\<rparr>))"
  proof -
    have out: "rd_slice d 0 (nat (cs_len b)) = Some (cs_bytes b)" using b by simp
    show ?thesis
      using sock_send_takes [where sendto = sendto and xs = "cs_bytes b" and d' = d', OF assms(1,2) b(1) out assms(4,5,6)] d'(1)
      unfolding pos by blast
  qed
  have copy: "c_memcpy e (int r) ?xs 0 (int n) = Some ?e"
  proof -
    have "0 + n \<le> length ?xs \<and> r + n \<le> length e" using len nl(2) c(4) by simp
    then show ?thesis using c_memcpy_nat [of e r ?xs 0 n] by simp
  qed
  have ne: "?xs \<noteq> []" "0 < cs_size c - cs_len c" using len assms(7,12) by auto
  have recv: "cp_sock_recv (\<lambda>_. RECV ?xs) now2 (Some t) =
      Some (int n, Some (t\<lparr>s_rbuf := STR_AT ?c, s_actv_time := now2, s_msg_time := now2\<rparr>))"
    using sock_recv_appends [OF assms(9,10) c(1) ne(2,1)] copy unfolding len c(3) by blast
  have wf: "cs_wf ?b" "cs_bytes ?b = drop n (cs_bytes b)"
    using cs_wfI [of ?b d' "l - n"] d' b(2,4,5) by simp_all
  have wf2: "cs_wf ?c" "cs_bytes ?c = cs_bytes c @ ?xs"
    using cs_wfI [of ?c ?e "r + n"] c len nl(2) by simp_all
  have "cs_bytes ?c @ cs_bytes ?b = cs_bytes c @ cs_bytes b"
    unfolding wf(2) wf2(2) append_assoc append_take_drop_id ..
  with send recv wf(1) wf2(1) show ?thesis
    by (intro exI [of _ "s\<lparr>s_sbuf := STR_AT ?b, s_actv_time := now\<rparr>"]
        exI [of _ "t\<lparr>s_rbuf := STR_AT ?c, s_actv_time := now2, s_msg_time := now2\<rparr>"] exI [of _ ?b] exI [of _ ?c] conjI)
      simp_all
qed

definition sample_out :: cp_string where
  "sample_out = \<lparr>cs_size = 8, cs_len = 5, cs_data = Some ''hello...''\<rparr>"

definition sample_in :: cp_string where
  "sample_in = \<lparr>cs_size = 8, cs_len = 2, cs_data = Some ''ab......''\<rparr>"

theorem transfer_keeps_stream_witness:
  "\<exists>s' t' b' c'. cp_sock_send 1 (\<lambda>_. SENT (int 3)) 7 (Some (sample_tcp\<lparr>s_fd := 6, s_sbuf := STR_AT sample_out\<rparr>)) =
      Some (int 3, take 3 (cs_bytes sample_out), Some s') \<and>
    cp_sock_recv (\<lambda>_. RECV (take 3 (cs_bytes sample_out))) 8 (Some (sample_tcp\<lparr>s_fd := 7, s_rbuf := STR_AT sample_in\<rparr>)) =
      Some (int 3, Some t') \<and>
    s_sbuf s' = STR_AT b' \<and> cs_wf b' \<and> s_rbuf t' = STR_AT c' \<and> cs_wf c' \<and>
    cs_bytes c' @ cs_bytes b' = cs_bytes sample_in @ cs_bytes sample_out"
  by (rule transfer_keeps_stream) (simp_all add: sample_out_def sample_in_def cs_wf_def)

end
