(* ===== verification/NetSystem.thy ===== *)
theory NetSystem
  imports NetSteps SockProps
begin

text \<open>
  The properties of the network services as a whole, on the contexts that a program can reach from \<open>cp_fds_init\<close> with the
  steps of \<open>NetSteps\<close>: the registry is consistent in all of them, a registration is complete or leaves nothing, and
  what a failed retry of a pending connection leaves.
\<close>

section \<open>Reachable contexts\<close>

inductive reachable_net :: "cp_fds \<Rightarrow> bool" where
  created: "\<lbrakk>cp_fds_init z given maxevents timeout k w = Some (k', Some st); f_socks w = Map.empty;
    z_array z = (True, True); 0 \<le> maxevents\<rbrakk> \<Longrightarrow> reachable_net st"
| stepped: "\<lbrakk>reachable_net st; net_step st st'\<rbrakk> \<Longrightarrow> reachable_net st'"

lemma reachable_net_inv: "reachable_net st \<Longrightarrow> net_inv st"
proof (induction rule: reachable_net.induct)
  case (created z given maxevents timeout k w k' st)
  then show ?case using init_net_inv(1) [OF created(1,2) _ _ created(4)] by simp
next
  case (stepped st st')
  then show ?case using net_step_inv by blast
qed

lemma reachable_steps: "net_steps st st' \<Longrightarrow> reachable_net st \<Longrightarrow> reachable_net st'"
  by (induction rule: net_steps.induct) (auto intro: reachable_net.stepped)

lemma reg_inv_once:
  assumes "net_inv st"
  shows "distinct (lists st h)" "a \<in> set (lists st h) \<longleftrightarrow> home_at (view st) a = Some h"
    "f_event_cnt st = int (card (watched (view st)))"
  using net_invD(2) [OF assms] by (simp_all add: reg_ok_def reg_inv_def)

lemma registered_home:
  assumes "net_inv st" "f_socks st a = Some s"
  shows "registered s \<longleftrightarrow> (\<exists>h. home_at (view st) a = Some h)" "s_accept_cnt s = int (length (s_accept_list s))"
proof -
  have "(v_reg v \<longrightarrow> home_of v \<noteq> None) \<and> v_cnt v = int (length (v_list v))" if "view st a = Some v" for v
    using net_invD(2) [OF assms(1)] that by (auto simp: reg_ok_def reg_inv_def)
  then show "registered s \<longleftrightarrow> (\<exists>h. home_at (view st) a = Some h)" "s_accept_cnt s = int (length (s_accept_list s))"
    using assms(2) by (auto simp: view_def home_at_def home_of_def)
qed

section \<open>An instance\<close>

definition demo_sys :: sys where
  "demo_sys = \<lparr>y_opt = (\<lambda>_ _. True), y_rcvbuf = (\<lambda>_. Some 87380), y_sndbuf = (\<lambda>_. Some 16384), y_flags = (\<lambda>_. Some 2),
     y_addrs = Some [\<lparr>at_socket = 5, at_bind = True, at_connect = CONN_PROGRESS, at_text = ''10.0.0.1'', at_cell = replicate 16 0\<rparr>],
     y_listen = True, y_accept = Some (6, ''10.0.0.2'', 40000), y_name = Some (''10.0.0.1'', 8000),
     y_again = (\<lambda>_. CONN_PROGRESS), y_now = 1000\<rparr>"

definition demo_mem :: "addr \<Rightarrow> sock_mem" where
  "demo_mem a = \<lparr>m_sock = Some a, m_rbuf = (True, True), m_sbuf = (True, True)\<rparr>"

definition demo_kern :: kern where
  "demo_kern = \<lparr>k_open = [0, 1, 2], k_opts = []\<rparr>"

definition demo_world :: cp_fds where
  "demo_world = \<lparr>f_flag = 0, f_epfd = 0, f_timeout = 0, f_max_event = 0, f_event_cnt = 0, f_server_list = [], f_client_list = [],
     f_queue = None, f_tasks = None, f_heap = Map.empty, f_socks = Map.empty, f_calls = [], f_privt_calls = []\<rparr>"

definition demo_fds_sys :: fds_sys where
  "demo_fds_sys = \<lparr>z_malloc = True, z_limit = Some 1024, z_setlimit = True, z_epoll = 3, z_array = (True, True), z_queue = True\<rparr>"

definition demo_fds :: cp_fds where
  "demo_fds = \<lparr>f_flag = 3, f_epfd = 3, f_timeout = 10, f_max_event = 4, f_event_cnt = 0, f_server_list = [], f_client_list = [],
     f_queue = Some \<lparr>cq_front = None, cq_rear = None, cq_items = 0, cq_size = 4\<rparr>,
     f_tasks = Some \<lparr>ar_flag = 1, ar_size = 4, ar_items = 0, ar_data = [None, None, None, None]\<rparr>,
     f_heap = Map.empty, f_socks = Map.empty, f_calls = [], f_privt_calls = []\<rparr>"

lemma demo_fds_init:
  "cp_fds_init demo_fds_sys False 4 10 demo_kern demo_world = Some (\<lparr>k_open = [0, 1, 2, 3], k_opts = []\<rparr>, Some demo_fds)"
  by (simp add: cp_fds_init_def demo_fds_sys_def demo_kern_def demo_world_def demo_fds_def zero_fds_def sys_open_def
     cp_fds_setrlimit_def cp_array_init_def cp_queue_init_def CP_DEF_MAX_EVENTS_def FLAG_FDS_INIT_def FLAG_FDS_MALLOC_def
     CP_ARRAY_FLAG_MALLOC_def numeral_eq_Suc word_less_def)

text \<open>From the empty context one step registers a server at address 100, another one a client that waits for its
  connection.\<close>

definition after_call :: "('a \<times> kern \<times> cp_fds) option \<Rightarrow> cp_fds" where
  "after_call c = (case c of Some (_, _, st) \<Rightarrow> st | None \<Rightarrow> demo_fds)"

abbreviation demo_st :: cp_fds where
  "demo_st \<equiv> after_call (cp_sock_server_regist demo_sys (demo_mem 100) EP_OK True None 8000 2 (Some 1) None demo_kern demo_fds)"

abbreviation pending_st :: cp_fds where
  "pending_st \<equiv> after_call
     (cp_sock_connect_regist demo_sys (demo_mem 100) EP_OK True None (Some ''10.0.0.1'') 8000 0 (Some 1) demo_kern demo_fds)"

lemma demo_fds_reachable: "reachable_net demo_fds"
  by (rule reachable_net.created [OF demo_fds_init]) (simp_all add: demo_world_def demo_fds_sys_def)

lemma demo_fresh: "fresh_mem (demo_mem a) demo_fds"
  by (simp add: demo_mem_def fresh_mem_def demo_fds_def)

lemma demo_st_reachable: "reachable_net demo_st"
proof -
  let ?c = "cp_sock_server_regist demo_sys (demo_mem 100) EP_OK True None 8000 2 (Some 1) None demo_kern demo_fds"
  obtain r k' st where c: "?c = Some (r, k', st)"
    using server_regist_ok [OF reachable_net_inv [OF demo_fds_reachable] demo_fresh, of demo_sys 100 EP_OK True None 8000 2 "Some 1"
        None demo_kern] by (elim exE conjE) (rule that)
  have "net_step demo_fds st" by (rule net_step.server [OF demo_fresh c])
  then show ?thesis unfolding c after_call_def by (simp add: reachable_net.stepped [OF demo_fds_reachable])
qed

lemma pending_st_reachable: "reachable_net pending_st"
proof -
  let ?c = "cp_sock_connect_regist demo_sys (demo_mem 100) EP_OK True None (Some ''10.0.0.1'') 8000 0 (Some 1) demo_kern demo_fds"
  obtain r k' st where c: "?c = Some (r, k', st)"
    using connect_regist_ok [OF reachable_net_inv [OF demo_fds_reachable] demo_fresh, of demo_sys 100 EP_OK True
        "Some ''10.0.0.1''" 8000 0 "Some 1" demo_kern] by (elim exE conjE) (rule that)
  have "net_step demo_fds st" by (rule net_step.connect [OF demo_fresh c])
  then show ?thesis unfolding c after_call_def by (simp add: reachable_net.stepped [OF demo_fds_reachable])
qed

lemma demo_state:
  "(let st = demo_st in (map_option s_mode (f_socks st 100), f_socks st 101 = None, f_server_list st, f_event_cnt st))
   = (Some CP_SOCK_MODE_LISTEN, True, [100], 1)"
  by code_simp

lemma pending_state:
  "map_option (\<lambda>s. (s_mode s = CP_SOCK_MODE_CONNECT, registered s, epolled s, inq s, s_status s = SOCK_STAT_CONNECTING, s_fd s))
     (f_socks pending_st 100) = Some (True, True, True, False, True, 5)"
  by code_simp

section \<open>The registry\<close>



section \<open>Registrations are complete or leave nothing\<close>

text \<open>C22. A server below its limit that accepts a client, whatever the allocator, the kernel and epoll answer: either the
  call succeeds and the new socket is the last client of the server and nothing else has changed in the lists, or no socket was
  added, none lost, and all lists are as before; a server at its limit accepts nobody.\<close>

theorem accept_all_or_nothing:
  assumes "reachable_net st" "f_socks st v = Some srv" "s_mode srv = CP_SOCK_MODE_LISTEN" "fresh_mem m st"
  shows "\<exists>rv k' st'. cp_sock_accept_regist y m ep (Some v) k st = Some (rv, k', st') \<and>
    ((dom (f_socks st') = dom (f_socks st) \<and> (\<forall>h. lists st' h = lists st h)) \<or>
     (\<exists>a s. rv = 0 \<and> s_accept_cnt srv < s_max_client srv \<and> f_socks st a = None \<and>
        dom (f_socks st') = insert a (dom (f_socks st)) \<and> f_socks st' a = Some s \<and> s_status s = SOCK_STAT_ACCEPTED \<and>
        (\<forall>h. lists st' h = lists st h @ (if h = Accepted v then [a] else []))))"
proof -
  let ?grown = "\<lambda>rv st'. \<exists>a s. rv = 0 \<and> s_accept_cnt srv < s_max_client srv \<and> f_socks st a = None \<and>
        dom (f_socks st') = insert a (dom (f_socks st)) \<and> f_socks st' a = Some s \<and> s_status s = SOCK_STAT_ACCEPTED \<and>
        (\<forall>h. lists st' h = lists st h @ (if h = Accepted v then [a] else []))"
  obtain rv k' st' where c: "cp_sock_accept_regist y m ep (Some v) k st = Some (rv, k', st')"
    "same_services st st' \<or> rv = 0 \<and> s_accept_cnt srv < s_max_client srv \<and>
      (\<exists>a s. m_sock m = Some a \<and> entered a (Accepted v) st st' \<and> f_socks st' a = Some s \<and> s_status s = SOCK_STAT_ACCEPTED)"
    using accept_regist_ok [OF reachable_net_inv [OF assms(1)] assms(2-4), of y ep k] by (elim exE conjE) (rule that)
  have "dom (f_socks st') = dom (f_socks st) \<and> (\<forall>h. lists st' h = lists st h) \<or> ?grown rv st'"
  proof (cases "same_services st st'")
    case False
    then obtain a s where a: "rv = 0" "s_accept_cnt srv < s_max_client srv" "m_sock m = Some a" "entered a (Accepted v) st st'"
      "f_socks st' a = Some s" "s_status s = SOCK_STAT_ACCEPTED" using c(2) by blast
    have "f_socks st a = None" using assms(4) a(3) by (simp add: fresh_mem_def)
    then have "?grown rv st'"
      using a(1,2,5,6) a(4) [unfolded entered_def, THEN conjunct1] a(4) [unfolded entered_def, THEN conjunct2]
      by (intro exI [of _ a] exI [of _ s] conjI)
    then show ?thesis by (rule disjI2)
  next
    case True
    then show ?thesis unfolding same_services_def by (intro disjI1 conjI) (rule conjunct2, assumption, rule conjunct1, assumption)
  qed
  then show ?thesis by (intro exI) (rule conjI [OF c(1)])
qed

theorem accept_all_or_nothing_witness:
  "\<exists>rv k' st'. cp_sock_accept_regist demo_sys (demo_mem 101) EP_OK (Some 100) \<lparr>k_open = [0, 1, 2, 5], k_opts = []\<rparr> demo_st
      = Some (rv, k', st') \<and> lists st' Servers = [100]"
proof -
  obtain srv where s: "f_socks demo_st 100 = Some srv" "s_mode srv = CP_SOCK_MODE_LISTEN" using demo_state by (auto simp: Let_def)
  have f: "fresh_mem (demo_mem 101) demo_st" using demo_state by (simp add: fresh_mem_def demo_mem_def Let_def)
  have l: "lists demo_st Servers = [100]" using demo_state by (simp add: Let_def)
  have keep: "lists st' Servers = [100]"
    if "(dom (f_socks st') = dom (f_socks demo_st) \<and> (\<forall>h. lists st' h = lists demo_st h)) \<or>
     (\<exists>a s. rv = 0 \<and> s_accept_cnt srv < s_max_client srv \<and> f_socks demo_st a = None \<and>
        dom (f_socks st') = insert a (dom (f_socks demo_st)) \<and> f_socks st' a = Some s \<and> s_status s = SOCK_STAT_ACCEPTED \<and>
        (\<forall>h. lists st' h = lists demo_st h @ (if h = Accepted 100 then [a] else [])))" for rv st'
  proof -
    have "lists st' Servers = lists demo_st Servers"
      using that by (elim disjE exE conjE) (erule allE [of _ Servers], assumption, erule allE [of _ Servers], simp)
    then show ?thesis using l by simp
  qed
  show ?thesis
    using accept_all_or_nothing [OF demo_st_reachable s f, of demo_sys EP_OK "\<lparr>k_open = [0, 1, 2, 5], k_opts = []\<rparr>"]
    by (elim exE conjE) (intro exI conjI, assumption, rule keep, assumption)
qed

section \<open>A pending connection\<close>

text \<open>A client that waits for its connection is registered and watched by epoll. When the program asks again and the
  connection has failed, the socket is removed from the lists and freed, but not from epoll: the context counts one
  socket more than there are, for good, and one of its \<open>max_event\<close> places is lost.\<close>

theorem pending_connect_leaks_slot:
  assumes "reachable_net st" "f_socks st a = Some s" "s_mode s = CP_SOCK_MODE_CONNECT" "registered s" "epolled s" "\<not> inq s"
    "s_status s = SOCK_STAT_CONNECTING" "sys_connect y (s_fd s) (s_saddr s) k = CONN_ERR" "0 < rport"
  shows "\<exists>k' st'. cp_sock_connect_regist y m ep True (Some a) (Some raddr) rport lport cb k st = Some (None, k', st') \<and>
    f_socks st' a = None \<and> (\<forall>h. a \<notin> set (lists st' h)) \<and>
    f_event_cnt st' = int (card {b. \<exists>x. f_socks st' b = Some x \<and> epolled x}) + 1"
proof -
  note inv = reachable_net_inv [OF assms(1)]
  have sa: "sock_ok s" using net_invD(3) [OF inv assms(2)] .
  let ?s = "s\<lparr>s_status := SOCK_STAT_DISCONNECT\<rparr>"
  have stat: "SOCK_STAT_CONNECTING \<noteq> SOCK_STAT_CONNECTED" "SOCK_STAT_DISCONNECT \<noteq> SOCK_STAT_CONNECTED"
    by (simp_all add: SOCK_STAT_CONNECTED_def SOCK_STAT_CONNECTING_def SOCK_STAT_DISCONNECT_def)
  define k1 where "k1 = (if s_fd s \<ge> 0 then sys_close (s_fd s) k else k)"
  have call: "cp_sock_connect y (Some s) (Some raddr) rport lport k = Some (- 7, Some ?s, k1)"
    using sa assms(7-9) stat
    by (simp add: cp_sock_connect_def sock_ok_def connect_again_def connect_connected_def connect_failed_def k1_def)
  have prefix: "cp_sock_connect_regist y m ep True (Some a) (Some raddr) rport lport cb k st = regist_del a k1 (put_sock a ?s st)"
    using assms(2,4,7,9) stat call by (simp add: cp_sock_connect_regist_def connect_and_add_def)
  have k: "keeps s ?s" by simp
  note i1 = net_inv_keeps [OF inv assms(2) k]
  have a1: "f_socks (put_sock a ?s st) a = Some ?s" by simp
  obtain st2 s2 where 2: "cp_fds_del_sock_registry (Some a) (put_sock a ?s st) = Some st2" "net_inv st2"
    "\<And>g. lists st2 g = remove1 a (lists (put_sock a ?s st) g)" "f_socks st2 a = Some s2" "loosen ?s s2"
    by (rule net_inv_del_registry [OF i1(1) a1]) (rule that)
  obtain st3 s3 where 3: "cp_fds_del_sock_task (Some a) st2 = Some st3" "net_inv st3" "lists st3 = lists st2"
    "f_socks st3 = (f_socks st2)(a \<mapsto> s3)" "sock_view s3 = sock_view s2"
    by (rule net_inv_del_task [OF 2(2,4)]) (rule that)
  have a3: "f_socks st3 a = Some s3" using 3(4) by simp
  have "epolled s2 = epolled ?s" by (rule loosenD(8) [OF 2(5)])
  moreover have "epolled s3 = epolled s2" using 3(5) sock_view_simps(2) by metis
  ultimately have ep: "epolled s3" using assms(5) by (simp add: has_flag_def)
  have s3: "sock_ok s3" using net_invD(3) [OF 3(2) a3] .
  obtain calls s' where t: "cp_sock_term (s_fd s3 \<in> set (k_open k1)) (Some a) st3 = Some (let st = st3\<lparr>f_privt_calls := calls\<rparr> in
       if has_flag FLAG_SOCK_MALLOC s3 then st\<lparr>f_socks := (f_socks st)(a := None)\<rparr> else put_sock a s' st)"
    using sock_term_cases [OF a3] s3 by (metis sock_ok_def)
  let ?st = "st3\<lparr>f_privt_calls := calls, f_socks := (f_socks st3)(a := None)\<rparr>"
  have "cp_sock_term (s_fd s3 \<in> set (k_open k1)) (Some a) st3 = Some ?st" using t s3 by (simp add: sock_ok_def Let_def)
  then obtain k' where fin_call: "regist_del a k1 (put_sock a ?s st) = Some (None, k', ?st)"
    using 2(1) 3(1) a3 by (simp add: regist_del_def regist_term_def term_sock_def)
  have "distinct (lists (put_sock a ?s st) h)" for h using reg_inv_once(1) [OF i1(1)] .
  then have out: "a \<notin> set (lists st3 h)" for h using 2(3) 3(3) by simp
  have vw: "view ?st = (view st3)(a := None)" by (rule ext) (simp add: view_def)
  have va: "view st3 a = Some (sock_view s3)" using a3 by (simp add: view_def)
  have ls: "a \<notin> set (lists ?st h)" for h using out [of h] vw by (cases h) auto
  have "finite (dom (view st3))" using net_invD(2) [OF 3(2)] by (simp add: reg_ok_def reg_inv_def)
  then have fin: "finite (watched (view st3))" by (rule watched_finite)
  have "a \<in> watched (view st3)" using va ep by (simp add: watched_def)
  moreover have "watched (view ?st) = watched (view st3) - {a}" using vw by (auto simp: watched_def)
  ultimately have "f_event_cnt ?st = int (card (watched (view ?st))) + 1"
    using reg_inv_once(3) [OF 3(2)] card_Suc_Diff1 [OF fin, of a] by simp
  moreover have "watched (view ?st) = {b. \<exists>x. f_socks ?st b = Some x \<and> epolled x}" by (auto simp: watched_def view_def)
  ultimately show ?thesis using prefix fin_call ls by simp
qed

theorem pending_connect_leaks_slot_witness:
  "\<exists>k' st'. cp_sock_connect_regist (demo_sys\<lparr>y_again := (\<lambda>_. CONN_ERR)\<rparr>) (demo_mem 101) EP_OK True (Some 100) (Some ''10.0.0.1'')
      8000 0 None \<lparr>k_open = [0, 1, 2, 5], k_opts = []\<rparr> pending_st = Some (None, k', st') \<and>
    f_socks st' 100 = None \<and> f_event_cnt st' = int (card {b. \<exists>x. f_socks st' b = Some x \<and> epolled x}) + 1"
proof -
  obtain s where s: "f_socks pending_st 100 = Some s" "s_mode s = CP_SOCK_MODE_CONNECT" "registered s" "epolled s" "\<not> inq s"
    "s_status s = SOCK_STAT_CONNECTING" "s_fd s = 5"
    using pending_state by auto
  have c: "sys_connect (demo_sys\<lparr>y_again := (\<lambda>_. CONN_ERR)\<rparr>) (s_fd s) (s_saddr s) \<lparr>k_open = [0, 1, 2, 5], k_opts = []\<rparr> = CONN_ERR"
    by (simp add: sys_connect_def)
  have "(0::int) < 8000" by simp
  from pending_connect_leaks_slot [OF pending_st_reachable s(1-6) c this, of "demo_mem 101" EP_OK "''10.0.0.1''" 0 None]
  show ?thesis by (elim exE conjE) (intro exI conjI)
qed

end
