(* ===== verification/Led.thy ===== *)
theory Led
  imports Button
begin

text \<open>
  The LED driver (\<open>driver/plat_led.c\<close>): the table of the LEDs, the timer that drives their pins and makes them blink, the
  commands of \<open>ioctl\<close>, and the registration with the kernel. The step relation \<open>led_step\<close> says when the kernel calls them.
\<close>

section \<open>State\<close>

definition OFF :: u8 where "OFF = 0"
definition ON :: u8 where "ON = 1"
definition DISABLE :: u8 where "DISABLE = 0"
definition ENABLE :: u8 where "ENABLE = 1"
definition TIMER_TIMEOUT :: nat where "TIMER_TIMEOUT = 40"

lemmas led_consts = OFF_def ON_def DISABLE_def ENABLE_def

record s3c_led_info =
  li_num :: u8
  li_gpio :: nat
  li_active_level :: u8
  li_status :: u8
  li_blink :: u8

text \<open>The numbers of the pins come from the headers of the kernel.\<close>

definition s3c_leds :: "(nat \<Rightarrow> nat) \<Rightarrow> s3c_led_info list" where
  "s3c_leds gpb =
     [\<lparr>li_num = 1, li_gpio = gpb 5, li_active_level = 0, li_status = OFF, li_blink = ENABLE\<rparr>,
      \<lparr>li_num = 2, li_gpio = gpb 6, li_active_level = 0, li_status = OFF, li_blink = DISABLE\<rparr>,
      \<lparr>li_num = 3, li_gpio = gpb 8, li_active_level = 0, li_status = OFF, li_blink = DISABLE\<rparr>,
      \<lparr>li_num = 4, li_gpio = gpb 10, li_active_level = 0, li_status = OFF, li_blink = DISABLE\<rparr>]"

text \<open>The driver with what the kernel keeps for it: the last value set on a pin, the pins that are outputs, the time at which the
  timer is due if it is pending, and what is registered.\<close>

record led_device =
  ld_leds :: "s3c_led_info list"
  ld_debug :: u8
  ld_pins :: "nat \<rightharpoonup> u32"
  ld_outputs :: "nat set"
  ld_timer :: "nat option"
  ld_jiffies :: nat
  ld_res :: "kres set"

definition s3c2410_gpio_setpin :: "nat \<Rightarrow> u32 \<Rightarrow> led_device \<Rightarrow> led_device" where
  "s3c2410_gpio_setpin pin v s = s\<lparr>ld_pins := (ld_pins s)(pin \<mapsto> v)\<rparr>"

text \<open>The complement is taken of an \<open>int\<close>.\<close>

definition level_on :: "s3c_led_info \<Rightarrow> u32" where "level_on l = ucast (li_active_level l)"
definition level_off :: "s3c_led_info \<Rightarrow> u32" where "level_off l = NOT (ucast (li_active_level l))"

definition led_level :: "s3c_led_info \<Rightarrow> u32" where
  "led_level l = (if ON = li_status l then level_on l else level_off l)"

section \<open>The timer and the file operations\<close>

text \<open>The timer is set again in the loop, once for each LED.\<close>

definition led_toggle :: "s3c_led_info \<Rightarrow> s3c_led_info" where
  "led_toggle l = (if ENABLE = li_blink l then l\<lparr>li_status := li_status l XOR 1\<rparr> else l)"

fun timer_loop :: "s3c_led_info list \<Rightarrow> led_device \<Rightarrow> s3c_led_info list \<times> led_device" where
  "timer_loop [] s = ([], s)"
| "timer_loop (l # ls) s =
     (let s = s3c2410_gpio_setpin (li_gpio l) (led_level l) s;
          s = s\<lparr>ld_timer := Some (ld_jiffies s + TIMER_TIMEOUT)\<rparr>;
          (ls, s) = timer_loop ls s
      in (led_toggle l # ls, s))"

definition led_timer_handler :: "led_device \<Rightarrow> led_device" where
  "led_timer_handler s = (let (ls, s) = timer_loop (ld_leds s) s in s\<lparr>ld_leds := ls\<rparr>)"

text \<open>Commands are \<open>_IO(0x60, n)\<close>.\<close>

definition PLATDRV_MAGIC :: nat where "PLATDRV_MAGIC = 0x60"
definition plat_cmd :: "nat \<Rightarrow> nat" where "plat_cmd n = PLATDRV_MAGIC * 0x100 + n"
definition SET_DRV_DEBUG :: nat where "SET_DRV_DEBUG = plat_cmd 0x01"
definition GET_DRV_VER :: nat where "GET_DRV_VER = plat_cmd 0x02"
definition LED_OFF :: nat where "LED_OFF = plat_cmd 0x18"
definition LED_ON :: nat where "LED_ON = plat_cmd 0x19"
definition LED_BLINK :: nat where "LED_BLINK = plat_cmd 0x1A"

lemmas led_cmds = plat_cmd_def PLATDRV_MAGIC_def SET_DRV_DEBUG_def GET_DRV_VER_def LED_OFF_def LED_ON_def LED_BLINK_def

definition DRV_VERSION :: int where "DRV_VERSION = 0x10000"
definition ENOTTY :: int where "ENOTTY = 25"
definition EINVAL :: int where "EINVAL = 22"

definition set_led :: "nat \<Rightarrow> u8 \<Rightarrow> u8 \<Rightarrow> led_device \<Rightarrow> int \<times> led_device" where
  "set_led arg status blink s =
     (if length (ld_leds s) \<le> arg then (- ENOTTY, s)
      else (0, s\<lparr>ld_leds := (ld_leds s)[arg := (ld_leds s ! arg)\<lparr>li_status := status, li_blink := blink\<rparr>]\<rparr>))"

definition led_ioctl :: "nat \<Rightarrow> nat \<Rightarrow> led_device \<Rightarrow> int \<times> led_device" where
  "led_ioctl cmd arg s =
     (if cmd = SET_DRV_DEBUG then (0, s\<lparr>ld_debug := (if arg = 0 then DISABLE else ENABLE)\<rparr>)
      else if cmd = GET_DRV_VER then (DRV_VERSION, s)
      else if cmd = LED_OFF then set_led arg OFF DISABLE s
      else if cmd = LED_ON then set_led arg ON DISABLE s
      else if cmd = LED_BLINK then set_led arg ON ENABLE s
      else (- EINVAL, s))"

section \<open>Registration\<close>

fun probe_pins :: "s3c_led_info list \<Rightarrow> led_device \<Rightarrow> led_device" where
  "probe_pins [] s = s"
| "probe_pins (l # ls) s =
     probe_pins ls (s3c2410_gpio_setpin (li_gpio l) (led_level l) (s\<lparr>ld_outputs := insert (li_gpio l) (ld_outputs s)\<rparr>))"

definition s3c_led_probe :: "int \<Rightarrow> int \<Rightarrow> bool \<Rightarrow> led_device \<Rightarrow> int \<times> led_device" where
  "s3c_led_probe region add class_ok s =
     (let s = probe_pins (ld_leds s) s
      in if region < 0 then (region, s)
         else let s = s\<lparr>ld_res := insert Region (ld_res s), ld_timer := None\<rparr>
              in if add \<noteq> 0 then (add, s\<lparr>ld_res := ld_res s - {Cdev} - {Region}\<rparr>)
                 else let s = s\<lparr>ld_res := insert Cdev (ld_res s)\<rparr>
                      in if \<not> class_ok then (- ENOMEM, s\<lparr>ld_res := ld_res s - {Cdev} - {Region}\<rparr>)
                         else (0, s\<lparr>ld_res := insert Device (insert Class (ld_res s)),
                                    ld_timer := Some (ld_jiffies s + TIMER_TIMEOUT)\<rparr>))"

definition s3c_led_remove :: "led_device \<Rightarrow> led_device" where
  "s3c_led_remove s = s\<lparr>ld_timer := None, ld_res := ld_res s - {Cdev} - {Device} - {Class} - {Region}\<rparr>"

fun all_off :: "s3c_led_info list \<Rightarrow> led_device \<Rightarrow> led_device" where
  "all_off [] s = s"
| "all_off (l # ls) s = all_off ls (s3c2410_gpio_setpin (li_gpio l) (level_off l) s)"

definition platform_led_release :: "led_device \<Rightarrow> led_device" where
  "platform_led_release s = all_off (ld_leds s) s"

text \<open>The device and the driver have the same name, so that registering the driver probes the device; a failing probe leaves the
  driver registered, unbound.\<close>

definition s3c_led_init :: "int \<Rightarrow> int \<Rightarrow> int \<Rightarrow> int \<Rightarrow> bool \<Rightarrow> led_device \<Rightarrow> int \<times> led_device" where
  "s3c_led_init reg_dev reg_drv region add class_ok s =
     (if reg_dev \<noteq> 0 then (reg_dev, s)
      else let s = s\<lparr>ld_res := insert PlatDevice (ld_res s)\<rparr>
           in if reg_drv \<noteq> 0 then (reg_drv, s\<lparr>ld_res := ld_res s - {PlatDriver}\<rparr>)
              else (0, snd (s3c_led_probe region add class_ok (s\<lparr>ld_res := insert PlatDriver (ld_res s)\<rparr>))))"

text \<open>The driver is removed from the device only if its probe has succeeded.\<close>

definition s3c_led_exit :: "led_device \<Rightarrow> led_device" where
  "s3c_led_exit s =
     (let s = (if Device \<in> ld_res s then s3c_led_remove s else s);
          s = s\<lparr>ld_res := ld_res s - {PlatDriver}\<rparr>
      in platform_led_release (s\<lparr>ld_res := ld_res s - {PlatDevice}\<rparr>))"

section \<open>The driver in the kernel\<close>

datatype led_event = LedTick | LedFire | LedIoctl nat nat int

inductive led_step :: "led_device \<Rightarrow> led_event \<Rightarrow> led_device \<Rightarrow> bool" where
  StepLedTick: "led_step s LedTick (s\<lparr>ld_jiffies := ld_jiffies s + 1\<rparr>)"
| StepLedFire: "ld_timer s = Some t \<Longrightarrow> t \<le> ld_jiffies s \<Longrightarrow> led_step s LedFire (led_timer_handler (s\<lparr>ld_timer := None\<rparr>))"
| StepLedIoctl: "led_ioctl cmd arg s = (rv, s') \<Longrightarrow> led_step s (LedIoctl cmd arg rv) s'"

inductive_cases LedTickE [elim!]: "led_step s LedTick s'"
inductive_cases LedFireE [elim!]: "led_step s LedFire s'"
inductive_cases LedIoctlE [elim!]: "led_step s (LedIoctl cmd arg rv) s'"

inductive led_steps :: "led_device \<Rightarrow> led_event list \<Rightarrow> led_device \<Rightarrow> bool" where
  LedNil: "led_steps s [] s"
| LedSnoc: "led_steps s es s' \<Longrightarrow> led_step s' e s'' \<Longrightarrow> led_steps s (es @ [e]) s''"

text \<open>The number of times the timer has fired, and whether no command was for LED \<open>i\<close>.\<close>

definition fires :: "led_event list \<Rightarrow> nat" where "fires es = count_list es LedFire"

fun addresses :: "nat \<Rightarrow> led_event \<Rightarrow> bool" where
  "addresses i (LedIoctl cmd arg rv) \<longleftrightarrow> arg = i \<and> cmd \<in> {LED_OFF, LED_ON, LED_BLINK}"
| "addresses i e \<longleftrightarrow> False"

definition led_ok :: "s3c_led_info \<Rightarrow> bool" where
  "led_ok l \<longleftrightarrow> li_status l \<in> {OFF, ON} \<and> li_blink l \<in> {DISABLE, ENABLE}"

definition led_wf :: "led_device \<Rightarrow> bool" where
  "led_wf s \<longleftrightarrow> ld_leds s \<noteq> [] \<and> distinct (map li_gpio (ld_leds s)) \<and>
     (\<exists>t. ld_timer s = Some t \<and> t \<le> ld_jiffies s + TIMER_TIMEOUT) \<and>
     (\<forall>l\<in>set (ld_leds s). led_ok l)"

section \<open>Lemmas\<close>

lemma toggle_sel [simp]: "li_gpio (led_toggle l) = li_gpio l" "li_active_level (led_toggle l) = li_active_level l"
    "li_blink (led_toggle l) = li_blink l" "li_num (led_toggle l) = li_num l"
  by (simp_all add: led_toggle_def)

lemma toggle_ok: "led_ok l \<Longrightarrow> led_ok (led_toggle l)"
  by (auto simp: led_ok_def led_toggle_def led_consts)

lemma timer_loop_spec:
  "timer_loop ls s = (map led_toggle ls, s\<lparr>ld_pins := ld_pins s ++ map_of (rev (map (\<lambda>l. (li_gpio l, led_level l)) ls)),
     ld_timer := (if ls = [] then ld_timer s else Some (ld_jiffies s + TIMER_TIMEOUT))\<rparr>)"
  by (induction ls arbitrary: s) (simp_all add: s3c2410_gpio_setpin_def Let_def)

lemma handler_spec:
  "led_timer_handler s = s\<lparr>ld_leds := map led_toggle (ld_leds s),
     ld_pins := ld_pins s ++ map_of (rev (map (\<lambda>l. (li_gpio l, led_level l)) (ld_leds s))),
     ld_timer := (if ld_leds s = [] then ld_timer s else Some (ld_jiffies s + TIMER_TIMEOUT))\<rparr>"
  by (simp add: led_timer_handler_def timer_loop_spec)

lemma handler_pin:
  assumes "distinct (map li_gpio (ld_leds s))" "i < length (ld_leds s)"
  shows "ld_pins (led_timer_handler s) (li_gpio (ld_leds s ! i)) = Some (led_level (ld_leds s ! i))"
proof -
  let ?xs = "rev (map (\<lambda>l. (li_gpio l, led_level l)) (ld_leds s))"
  have "map fst ?xs = rev (map li_gpio (ld_leds s))" by (simp add: rev_map [symmetric] o_def)
  then have d: "distinct (map fst ?xs)" using assms(1) by (simp only: distinct_rev)
  have "(li_gpio (ld_leds s ! i), led_level (ld_leds s ! i)) \<in> set ?xs" using assms(2) by auto
  then have "map_of ?xs (li_gpio (ld_leds s ! i)) = Some (led_level (ld_leds s ! i))" using d by (simp add: map_of_eq_Some_iff)
  then show ?thesis by (simp add: handler_spec map_add_Some_iff)
qed

lemma set_led_cases:
  obtains "arg < length (ld_leds s)"
      "set_led arg v b s = (0, s\<lparr>ld_leds := (ld_leds s)[arg := (ld_leds s ! arg)\<lparr>li_status := v, li_blink := b\<rparr>]\<rparr>)"
    | "length (ld_leds s) \<le> arg" "set_led arg v b s = (- ENOTTY, s)"
  by (cases "length (ld_leds s) \<le> arg") (auto simp: set_led_def)

text \<open>A command is for a LED of the table, or leaves all of them.\<close>

lemma ioctl_cases:
  assumes "led_ioctl cmd arg s = (rv, s')"
  obtains (set) v b where "arg < length (ld_leds s)" "cmd \<in> {LED_OFF, LED_ON, LED_BLINK}" "v \<in> {OFF, ON}" "b \<in> {DISABLE, ENABLE}"
      "s' = s\<lparr>ld_leds := (ld_leds s)[arg := (ld_leds s ! arg)\<lparr>li_status := v, li_blink := b\<rparr>]\<rparr>"
    | (keep) d where "s' = s\<lparr>ld_debug := d\<rparr>"
proof -
  have *: thesis if call: "set_led arg v b s = (rv, s')" and c: "cmd \<in> {LED_OFF, LED_ON, LED_BLINK}" "v \<in> {OFF, ON}" "b \<in> {DISABLE, ENABLE}" for v b
  proof (cases rule: set_led_cases [of arg s v b])
    case 1
    show ?thesis by (rule set [OF 1(1) c]) (use 1(2) call in simp)
  next
    case 2
    show ?thesis by (rule keep [of "ld_debug s"]) (use 2(2) call in simp)
  qed
  consider "cmd = SET_DRV_DEBUG" | "cmd = LED_OFF" | "cmd = LED_ON" | "cmd = LED_BLINK" | "s' = s"
    using assms unfolding led_ioctl_def by (metis prod.inject)
  then show thesis
  proof cases
    case 1
    show ?thesis by (rule keep [of "if arg = 0 then DISABLE else ENABLE"]) (use assms 1 in \<open>auto simp: led_ioctl_def\<close>)
  next
    case 2
    have "set_led arg OFF DISABLE s = (rv, s')" using assms 2 by (simp add: led_ioctl_def led_cmds)
    then show ?thesis by (rule *) (simp_all add: 2)
  next
    case 3
    have "set_led arg ON DISABLE s = (rv, s')" using assms 3 by (simp add: led_ioctl_def led_cmds)
    then show ?thesis by (rule *) (simp_all add: 3)
  next
    case 4
    have "set_led arg ON ENABLE s = (rv, s')" using assms 4 by (simp add: led_ioctl_def led_cmds)
    then show ?thesis by (rule *) (simp_all add: 4)
  next
    case 5
    show ?thesis by (rule keep [of "ld_debug s"]) (use 5 in simp)
  qed
qed

lemma map_gpio_update: "i < length ls \<Longrightarrow> map li_gpio (ls[i := (ls ! i)\<lparr>li_status := v, li_blink := b\<rparr>]) = map li_gpio ls"
  by (simp add: map_update list_update_same_conv)

lemma step_wf: "led_wf s \<Longrightarrow> led_step s e s' \<Longrightarrow> led_wf s'"
proof (induction e)
  case LedFire
  then show ?case by (auto simp: handler_spec led_wf_def o_def toggle_ok)
next
  case (LedIoctl cmd arg rv)
  then have "led_ioctl cmd arg s = (rv, s')" by auto
  then show ?case
  proof (cases rule: ioctl_cases)
    case (set v b)
    have "led_ok ((ld_leds s ! arg)\<lparr>li_status := v, li_blink := b\<rparr>)" using set(3,4) by (simp add: led_ok_def)
    then show ?thesis using LedIoctl.prems(1) map_gpio_update [OF set(1), where v = v and b = b] unfolding set(5)
      by (auto simp: led_wf_def dest!: set_update_subset_insert [THEN subsetD])
  qed (use LedIoctl.prems(1) in \<open>auto simp: led_wf_def\<close>)
qed (auto simp: led_wf_def)

lemma steps_wf: "led_steps s es s' \<Longrightarrow> led_wf s \<Longrightarrow> led_wf s'"
  by (induction rule: led_steps.induct) (auto intro: step_wf)

text \<open>One step, seen from a LED.\<close>

lemma step_led:
  assumes "led_step s e s'" "i < length (ld_leds s)" "\<not> addresses i e"
  shows "length (ld_leds s') = length (ld_leds s)"
    "ld_leds s' ! i = (if e = LedFire then led_toggle (ld_leds s ! i) else ld_leds s ! i)"
    "e \<noteq> LedFire \<Longrightarrow> ld_pins s' = ld_pins s"
proof -
  have "length (ld_leds s') = length (ld_leds s) \<and>
    ld_leds s' ! i = (if e = LedFire then led_toggle (ld_leds s ! i) else ld_leds s ! i) \<and>
    (e \<noteq> LedFire \<longrightarrow> ld_pins s' = ld_pins s)"
  proof (cases e)
    case (LedIoctl cmd arg rv)
    then have "led_ioctl cmd arg s = (rv, s')" using assms(1) by auto
    then show ?thesis using assms(2,3) LedIoctl by (cases rule: ioctl_cases) auto
  qed (use assms in \<open>auto simp: handler_spec\<close>)
  then show "length (ld_leds s') = length (ld_leds s)"
    "ld_leds s' ! i = (if e = LedFire then led_toggle (ld_leds s ! i) else ld_leds s ! i)"
    "e \<noteq> LedFire \<Longrightarrow> ld_pins s' = ld_pins s" by auto
qed

definition led_after :: "nat \<Rightarrow> s3c_led_info \<Rightarrow> s3c_led_info" where
  "led_after n l = (if li_blink l = ENABLE \<and> odd n then l\<lparr>li_status := li_status l XOR 1\<rparr> else l)"

lemma after_sel [simp]: "li_gpio (led_after n l) = li_gpio l" "led_after 0 l = l"
  by (simp_all add: led_after_def)

lemma after_Suc: "led_after (Suc n) l = led_toggle (led_after n l)"
  by (auto simp: led_after_def led_toggle_def xor.assoc)

lemma fires_simps [simp]: "fires [] = 0" "fires (es @ [e]) = (if e = LedFire then Suc (fires es) else fires es)"
  by (simp_all add: fires_def)

lemma steps_led:
  assumes "led_steps s es s'" "led_wf s" "i < length (ld_leds s)" "\<forall>e\<in>set es. \<not> addresses i e"
  shows "length (ld_leds s') = length (ld_leds s) \<and> ld_leds s' ! i = led_after (fires es) (ld_leds s ! i) \<and>
    (0 < fires es \<longrightarrow> ld_pins s' (li_gpio (ld_leds s ! i)) = Some (led_level (led_after (fires es - 1) (ld_leds s ! i))))"
  using assms
proof (induction rule: led_steps.induct)
  case (LedNil s)
  then show ?case by simp
next
  case (LedSnoc s es s' e s'')
  let ?l = "ld_leds s ! i"
  have ih: "length (ld_leds s') = length (ld_leds s)" "ld_leds s' ! i = led_after (fires es) ?l"
    "0 < fires es \<Longrightarrow> ld_pins s' (li_gpio ?l) = Some (led_level (led_after (fires es - 1) ?l))"
    using LedSnoc.IH LedSnoc.prems by auto
  have i: "i < length (ld_leds s')" "\<not> addresses i e" using ih(1) LedSnoc.prems(2,3) by auto
  note st = step_led [OF LedSnoc.hyps(2) i]
  show ?case
  proof (cases "e = LedFire")
    case False
    then show ?thesis using ih st by simp
  next
    case True
    then obtain t where t: "s'' = led_timer_handler (s'\<lparr>ld_timer := None\<rparr>)" using LedSnoc.hyps(2) by auto
    have "led_wf s'" using steps_wf LedSnoc.hyps(1) LedSnoc.prems(1) by blast
    then have "distinct (map li_gpio (ld_leds s'))" by (simp add: led_wf_def)
    then have "ld_pins s'' (li_gpio (ld_leds s' ! i)) = Some (led_level (ld_leds s' ! i))"
      unfolding t using handler_pin [of "s'\<lparr>ld_timer := None\<rparr>" i] i(1) by simp
    then show ?thesis using True st(1,2) ih(1,2) by (simp add: after_Suc)
  qed
qed

section \<open>Properties\<close>

text \<open>C39. From the moment a command for a LED is accepted, and as long as none follows for it, its pin shows the command every time the
  timer has fired: on, off, or alternating, whatever the other LEDs are told.\<close>

theorem led_obeys_last_command:
  assumes "led_wf s" "led_ioctl cmd i s = (0, s\<^sub>1)" "cmd \<in> {LED_OFF, LED_ON, LED_BLINK}"
    "led_steps s\<^sub>1 es s'" "\<forall>e\<in>set es. \<not> addresses i e" "0 < fires es"
  shows "ld_pins s' (li_gpio (ld_leds s ! i)) =
    Some (if cmd = LED_ON \<or> cmd = LED_BLINK \<and> odd (fires es) then level_on (ld_leds s ! i) else level_off (ld_leds s ! i))"
proof -
  define v b where vb: "v = (if cmd = LED_OFF then OFF else ON)" "b = (if cmd = LED_BLINK then ENABLE else DISABLE)"
  let ?l = "(ld_leds s ! i)\<lparr>li_status := v, li_blink := b\<rparr>"
  have "set_led i v b s = (0, s\<^sub>1)" using assms(2,3) by (auto simp: led_ioctl_def led_cmds vb)
  then have s1: "i < length (ld_leds s)" "s\<^sub>1 = s\<lparr>ld_leds := (ld_leds s)[i := ?l]\<rparr>"
    by (auto simp: set_led_def ENOTTY_def split: if_splits)
  have wf: "led_wf s\<^sub>1" using step_wf [OF assms(1) StepLedIoctl [OF assms(2)]] .
  have "ld_pins s' (li_gpio ?l) = Some (led_level (led_after (fires es - 1) ?l))"
    using steps_led [OF assms(4) wf _ assms(5), of] s1 assms(6) by simp
  moreover obtain n where "fires es = Suc n" using assms(6) by (cases "fires es") auto
  ultimately show ?thesis using assms(3)
    by (auto simp: led_level_def led_after_def vb led_consts led_cmds level_on_def level_off_def)
qed

definition demo_leds :: led_device where
  "demo_leds = \<lparr>ld_leds = s3c_leds (\<lambda>n. n), ld_debug = 0, ld_pins = Map.empty, ld_outputs = {}, ld_timer = None, ld_jiffies = 0, ld_res = {}\<rparr>"

definition demo_leds_up :: led_device where
  "demo_leds_up = snd (s3c_led_init 0 0 0 0 True demo_leds)"

lemma probe_pins_spec:
  "\<exists>p q. probe_pins ls s = s\<lparr>ld_pins := p, ld_outputs := q\<rparr>"
proof (induction ls arbitrary: s)
  case Nil
  have "s = s\<lparr>ld_pins := ld_pins s, ld_outputs := ld_outputs s\<rparr>" by simp
  then show ?case unfolding probe_pins.simps by blast
next
  case (Cons l ls)
  then show ?case using Cons.IH [of "s3c2410_gpio_setpin (li_gpio l) (led_level l) (s\<lparr>ld_outputs := insert (li_gpio l) (ld_outputs s)\<rparr>)"]
    by (auto simp: s3c2410_gpio_setpin_def)
qed

lemma init_wf:
  assumes "inj gpb" "ld_leds s = s3c_leds gpb" "0 \<le> region"
  shows "led_wf (snd (s3c_led_init 0 0 region 0 True s))"
proof -
  let ?s = "s\<lparr>ld_res := insert PlatDriver (insert PlatDevice (ld_res s))\<rparr>"
  obtain p q where "probe_pins (ld_leds s) ?s = ?s\<lparr>ld_pins := p, ld_outputs := q\<rparr>" using probe_pins_spec [of "ld_leds s" ?s] by auto
  then show ?thesis using assms
    by (simp add: s3c_led_init_def s3c_led_probe_def Let_def led_wf_def TIMER_TIMEOUT_def s3c_leds_def led_ok_def inj_eq)
qed

lemma led_steps_ticks: "led_steps s (replicate n LedTick) (s\<lparr>ld_jiffies := ld_jiffies s + n\<rparr>)"
proof (induction n)
  case (Suc n)
  have "led_steps s (replicate n LedTick @ [LedTick]) (s\<lparr>ld_jiffies := ld_jiffies s + n\<rparr>\<lparr>ld_jiffies := ld_jiffies s + n + 1\<rparr>)"
    by (rule LedSnoc [OF Suc]) (use StepLedTick [of "s\<lparr>ld_jiffies := ld_jiffies s + n\<rparr>"] in simp)
  then show ?case by (simp add: replicate_append_same)
qed (use LedNil [of s] in simp)

lemma next_fire:
  assumes "led_wf s"
  shows "\<exists>n s'. n \<le> TIMER_TIMEOUT \<and> led_steps s (replicate n LedTick @ [LedFire]) s'"
proof -
  obtain t where t: "ld_timer s = Some t" "t \<le> ld_jiffies s + TIMER_TIMEOUT" using assms by (auto simp: led_wf_def)
  let ?n = "t - ld_jiffies s"
  let ?s = "s\<lparr>ld_jiffies := ld_jiffies s + ?n\<rparr>"
  have le: "t \<le> ld_jiffies s + (t - ld_jiffies s)" by arith
  have "led_step ?s LedFire (led_timer_handler (?s\<lparr>ld_timer := None\<rparr>))" by (rule StepLedFire [of _ t]) (use t(1) le in simp_all)
  then have "led_steps s (replicate ?n LedTick @ [LedFire]) (led_timer_handler (?s\<lparr>ld_timer := None\<rparr>))"
    by (rule LedSnoc [OF led_steps_ticks])
  moreover have "?n \<le> TIMER_TIMEOUT" using t(2) by simp
  ultimately show ?thesis by blast
qed

lemma demo_up_wf: "led_wf demo_leds_up"
  unfolding demo_leds_up_def by (rule init_wf [of "\<lambda>n. n"]) (simp_all add: demo_leds_def)

lemma demo_up_leds: "ld_leds demo_leds_up = s3c_leds (\<lambda>n. n)"
  by code_simp

theorem led_obeys_last_command_witness:
  "\<exists>s\<^sub>1 n s'. led_ioctl LED_ON 2 demo_leds_up = (0, s\<^sub>1) \<and> led_steps s\<^sub>1 (replicate n LedTick @ [LedFire]) s' \<and>
     ld_pins s' 8 = Some 0"
proof -
  define s where "s = snd (led_ioctl LED_ON 2 demo_leds_up)"
  have "fst (led_ioctl LED_ON 2 demo_leds_up) = 0" by (simp add: led_ioctl_def led_cmds set_led_def demo_up_leds s3c_leds_def)
  then have s: "led_ioctl LED_ON 2 demo_leds_up = (0, s)" unfolding s_def by (intro prod_eqI) simp_all
  obtain n s' where st: "led_steps s (replicate n LedTick @ [LedFire]) s'"
    using next_fire [OF step_wf [OF demo_up_wf StepLedIoctl [OF s]]] by (elim exE conjE) (rule that)
  have free: "\<forall>e\<in>set (replicate n LedTick @ [LedFire]). \<not> addresses 2 e" "0 < fires (replicate n LedTick @ [LedFire])" by auto
  have "ld_pins s' (li_gpio (ld_leds demo_leds_up ! 2)) = Some (level_on (ld_leds demo_leds_up ! 2))"
    using led_obeys_last_command [OF demo_up_wf s _ st free] by simp
  then have "ld_pins s' 8 = Some 0" unfolding demo_up_leds by (simp add: s3c_leds_def level_on_def)
  then show ?thesis using s st by (intro exI conjI)
qed

text \<open>Once the module is loaded its timer is pending at every moment, so that at most 40 ticks later the pins are brought up to date;
  every status stays 0 or 1.\<close>

theorem led_timer_never_stops:
  assumes "inj gpb" "ld_leds s\<^sub>0 = s3c_leds gpb" "0 \<le> region" "s3c_led_init 0 0 region 0 True s\<^sub>0 = (0, s)" "led_steps s es s'"
  shows "led_wf s' \<and> (\<exists>n s''. n \<le> TIMER_TIMEOUT \<and> led_steps s' (replicate n LedTick @ [LedFire]) s'')"
proof -
  have "led_wf s" using init_wf [OF assms(1-3)] assms(4) by simp
  then have "led_wf s'" by (rule steps_wf [OF assms(5)])
  then show ?thesis using next_fire by simp
qed

theorem led_timer_never_stops_witness:
  "led_wf demo_leds_up \<and> (\<exists>n s''. n \<le> TIMER_TIMEOUT \<and> led_steps demo_leds_up (replicate n LedTick @ [LedFire]) s'')"
proof -
  have "fst (s3c_led_init 0 0 0 0 True demo_leds) = 0" by code_simp
  then have "s3c_led_init 0 0 0 0 True demo_leds = (0, demo_leds_up)" unfolding demo_leds_up_def by (intro prod_eqI) simp_all
  moreover have "inj (\<lambda>n :: nat. n)" "ld_leds demo_leds = s3c_leds (\<lambda>n. n)" by (simp_all add: demo_leds_def)
  ultimately show ?thesis using led_timer_never_stops [where gpb = "\<lambda>n. n", OF _ _ _ _ LedNil] by blast
qed

text \<open>Where the driver cannot be registered, the device that was registered before stays.\<close>

lemma led_init_leaves_device:
  assumes "reg_drv \<noteq> 0" "ld_res s = {}"
  shows "s3c_led_init 0 reg_drv region add class_ok s = (reg_drv, s\<lparr>ld_res := {PlatDevice}\<rparr>)"
  using assms by (simp add: s3c_led_init_def Let_def)

text \<open>For a LED that is lit by a high pin neither value of the driver is a low level: the complement of 1 is not 0.\<close>

lemma high_led_has_no_off:
  assumes "li_active_level l = 1"
  shows "level_on l \<noteq> 0" "level_off l \<noteq> 0"
  by (simp_all add: level_on_def level_off_def assms)

end
