(* ===== verification/Gpsd.thy ===== *)
theory Gpsd
  imports Nmea Comport Hal
begin

text \<open>
  The GPS service (\<open>program/fwed/gpsd/gpsd.c\<close>): it keeps the receiver switched on, reads the serial port and hands what it has read
  to the parser. What the devices answer in a round of its loop is an argument.
\<close>

section \<open>The context and the service\<close>

definition POWER_OFF :: u8 where "POWER_OFF = 0"

record gpsd_contex =
  gc_pwr_status :: u8
  gc_info :: nmeaINFO
  gc_comport :: "com_port option"

text \<open>\<open>tm\<close> is the time of day.\<close>

definition init_gpsd_context :: "bool \<Rightarrow> open_results \<Rightarrow> nmeaTIME \<Rightarrow> (int \<times> gpsd_contex) option" where
  "init_gpsd_context malloc_ok sys tm = do {
     port \<leftarrow> comport_init malloc_ok ''/dev/ttyS4'' 9600 (Some (''8N1N'' @ [NUL]));
     let gps = \<lparr>gc_pwr_status = POWER_OFF, gc_info = nmea_zero_INFO tm, gc_comport = port\<rparr>;
     case port of
       None \<Rightarrow> Some (- 1, gps)
     | Some c \<Rightarrow> do {
         (rv, c, _) \<leftarrow> comport_open sys c;
         Some (if rv < 0 then - 2 else 0, gps\<lparr>gc_comport := Some c\<rparr>) } }"

text \<open>The descriptor that is closed.\<close>

definition term_gpsd_context :: "gpsd_contex \<Rightarrow> int option" where
  "term_gpsd_context gps = comport_term (gc_comport gps)"

text \<open>The answers in one round of the loop.\<close>

record gpsd_round =
  gr_power :: dev_call
  gr_turn :: dev_call
  gr_select :: select_result
  gr_read :: Comport.read_result
  gr_parse :: "nat \<Rightarrow> bool \<times> char list"

definition gpsd_round :: "gpsd_round \<Rightarrow> gpsd_contex \<Rightarrow> (dev_request list \<times> gpsd_contex) option" where
  "gpsd_round r gps =
     (let (power, req) = hal_get_gps_power (gr_power r);
          gps = gps\<lparr>gc_pwr_status := word_of_int power\<rparr>;
          reqs = (case req of None \<Rightarrow> [] | Some q \<Rightarrow> [q])
      in if gc_pwr_status gps = 0
         then Some (reqs @ (case snd (hal_turn_gps_power ON (gr_turn r)) of None \<Rightarrow> [] | Some q \<Rightarrow> [q]), gps)
         else do {
           port \<leftarrow> gc_comport gps;
           (len, xs) \<leftarrow> comport_recv port 1024 1024 3000 (gr_select r) (gr_read r);
           if len > 0
           then do {
             buf \<leftarrow> wr_slice (replicate 1024 nul) 0 xs;
             (_, info) \<leftarrow> nmea_parse (gr_parse r) buf len (gc_info gps);
             Some (reqs, gps\<lparr>gc_info := info\<rparr>) }
           else Some (reqs, gps) })"

text \<open>The rounds until the flag to stop is set.\<close>

fun start_gpsd_service :: "gpsd_round list \<Rightarrow> gpsd_contex \<Rightarrow> (int \<times> dev_request list \<times> gpsd_contex) option" where
  "start_gpsd_service [] gps = Some (0, [], gps)"
| "start_gpsd_service (r # rs) gps = do {
     (reqs, gps) \<leftarrow> gpsd_round r gps;
     (rv, reqs', gps) \<leftarrow> start_gpsd_service rs gps;
     Some (rv, reqs @ reqs', gps) }"

section \<open>Lemmas\<close>

lemma c_strchr_miss: "c \<notin> set xs \<Longrightarrow> nul \<notin> set xs \<Longrightarrow> c \<noteq> nul \<Longrightarrow> Nmea.c_strchr (xs @ nul # ys) c = Some None"
proof -
  assume a: "c \<notin> set xs" "nul \<notin> set xs" "c \<noteq> nul"
  have "takeWhile (\<lambda>x. x \<noteq> c \<and> x \<noteq> nul) (xs @ nul # ys) = xs" using a by (auto simp: takeWhile_append)
  then show ?thesis using a(3) by (simp add: Nmea.c_strchr_def)
qed

text \<open>A block without a whole sentence in it leaves the information as it is.\<close>

lemma no_item_line:
  assumes "nul \<notin> set xs" "CHR ''$'' \<notin> set xs \<or> CHR ''*'' \<notin> set xs"
  shows "nmea_get_item_line (xs @ nul # ys) len line = Some (len, - 1, line)"
proof (cases "CHR ''$'' \<in> set xs")
  case False
  then show ?thesis using c_strchr_miss [OF False assms(1)] by (simp add: nmea_get_item_line_def)
next
  case True
  obtain as bs where xs: "xs = as @ CHR ''$'' # bs" "CHR ''$'' \<notin> set as" using split_list_first [OF True] by auto
  have "Nmea.c_strchr (as @ CHR ''$'' # (bs @ nul # ys)) CHR ''$'' = Some (Some (length as))"
    using c_strchr_hit [of "CHR ''$''" as] xs assms(1) by simp
  moreover have "Nmea.c_strchr ((CHR ''$'' # bs) @ nul # ys) CHR ''*'' = Some None"
    by (rule c_strchr_miss) (use assms True xs in auto)
  ultimately show ?thesis unfolding nmea_get_item_line_def xs(1) by simp
qed

lemma parse_no_sentence:
  assumes "nul \<notin> set xs" "CHR ''$'' \<notin> set xs \<or> CHR ''*'' \<notin> set xs" "0 < k"
  shows "nmea_parse env (xs @ replicate k nul) len info = Some (0, info)"
proof -
  obtain n where "k = Suc n" using assms(3) by (cases k) auto
  then have "nmea_get_item_line (xs @ replicate k nul) len (replicate 512 nul) = Some (len, - 1, replicate 512 nul)"
    using no_item_line [OF assms(1,2), of "replicate n nul"] by simp
  then have "nmea_parse_loop env 0 (xs @ replicate k nul) len info = Some info"
    by (subst nmea_parse_loop.simps) simp
  then show ?thesis by (simp add: nmea_parse_def)
qed

lemma service_append:
  "start_gpsd_service (rs @ rs') gps = do {
     (rv, reqs, gps) \<leftarrow> start_gpsd_service rs gps;
     (rv, reqs', gps) \<leftarrow> start_gpsd_service rs' gps;
     Some (rv, reqs @ reqs', gps) }"
proof (induction rs arbitrary: gps)
  case Nil
  show ?case by (cases "start_gpsd_service rs' gps") auto
next
  case (Cons r rs)
  show ?case by (cases "gpsd_round r gps") (auto simp: Cons.IH split: bind_splits prod.splits)
qed

text \<open>A round in which the receiver has power, or the question for it fails, and bytes arrive.\<close>

definition delivers :: "gpsd_round \<Rightarrow> string \<Rightarrow> bool" where
  "delivers r xs \<longleftrightarrow> (word_of_int (fst (hal_get_gps_power (gr_power r))) :: u8) \<noteq> 0 \<and> gr_select r = SelReady False True \<and>
     gr_read r = ReadBytes xs \<and> xs \<noteq> [] \<and> length xs < 1024"

definition port_open :: "gpsd_contex \<Rightarrow> bool" where
  "port_open gps \<longleftrightarrow> (\<exists>port. gc_comport gps = Some port \<and> is_connted port = 1)"

lemma round_delivers:
  assumes "delivers r xs" "port_open gps" "nmea_parse (gr_parse r) (xs @ replicate (1024 - length xs) nul) (int (length xs)) (gc_info gps) = Some (0, info)"
  obtains reqs v where "gpsd_round r gps = Some (reqs, gps\<lparr>gc_pwr_status := v, gc_info := info\<rparr>)"
proof -
  obtain power req where p: "hal_get_gps_power (gr_power r) = (power, req)" by (cases "hal_get_gps_power (gr_power r)")
  obtain port where port: "gc_comport gps = Some port" "is_connted port = 1" using assms(2) by (auto simp: port_open_def)
  have d: "(word_of_int power :: u8) \<noteq> 0" "gr_select r = SelReady False True" "gr_read r = ReadBytes xs" "0 < length xs" "length xs < 1024"
    using assms(1) p by (auto simp: delivers_def)
  have recv: "comport_recv port 1024 1024 3000 (gr_select r) (gr_read r) = Some (int (length xs), xs)"
    using port(2) d by (simp add: comport_recv_def)
  have slice: "wr_slice (replicate 1024 nul) 0 xs = Some (xs @ replicate (1024 - length xs) nul)"
    using d(5) by (simp add: wr_slice_def)
  have "gpsd_round r gps = Some (case req of None \<Rightarrow> [] | Some q \<Rightarrow> [q], gps\<lparr>gc_pwr_status := word_of_int power, gc_info := info\<rparr>)"
    using d(1,4) port(1) assms(3) unfolding gpsd_round_def by (simp add: p recv slice Let_def)
  then show thesis by (rule that)
qed

lemma parse_whole_sentence:
  assumes "nmea_body body" "length body \<le> 510"
    "nmea_parse_line (fst (env 0)) (snd (env 0)) (''$'' @ body @ ''*'' @ replicate (510 - length body) nul) (int (length body) + 2) info = Some (rv, i)"
  shows "nmea_parse env ((''$'' @ body @ ''*'' @ [h, l, CHR 0x0D, CHR 0x0A]) @ rest) (int (length body) + 6) info = Some (0, i)"
proof -
  have g: "nmea_get_item_line (''$'' @ body @ ''*'' @ [h, l, CHR 0x0D, CHR 0x0A] @ rest) (int (length body) + 6) (replicate 512 nul) =
      Some (int (length body) + 6, int (length body) + 2, ''$'' @ body @ ''*'' @ replicate (510 - length body) nul)"
    using nmea_get_item_line_body [OF assms(1,2) refl, of "[h, l, CHR 0x0D, CHR 0x0A] @ rest" "int (length body) + 6"] by simp
  have "nmea_parse_loop env 0 (''$'' @ body @ ''*'' @ [h, l, CHR 0x0D, CHR 0x0A] @ rest) (int (length body) + 6) info = Some i"
    by (subst nmea_parse_loop.simps) (use g assms(3) in \<open>simp add: nmea_parse_loop.simps [of env _ _ 0]\<close>)
  then show ?thesis by (simp add: nmea_parse_def)
qed

section \<open>Properties\<close>

definition sentence :: "string \<Rightarrow> char \<Rightarrow> char \<Rightarrow> string" where
  "sentence body h l = ''$'' @ body @ ''*'' @ [h, l, CHR 0x0D, CHR 0x0A]"

text \<open>C37. What the receiver sends is parsed read by read. A sentence that arrives in one read is parsed; the same sentence cut by the end
  of a read between its \<open>$\<close> and its \<open>*\<close> is lost, whatever it says.\<close>

theorem gpsd_loses_split_sentence:
  assumes "nmea_body body" "length body \<le> 510" "h \<notin> {nul, CHR ''$''}" "l \<notin> {nul, CHR ''$''}" "port_open gps"
    "delivers r (sentence body h l)" "delivers r\<^sub>1 (take k (sentence body h l))" "delivers r\<^sub>2 (drop k (sentence body h l))"
    "k \<le> length body + 1"
    "nmea_parse_line (fst (gr_parse r 0)) (snd (gr_parse r 0)) (''$'' @ body @ ''*'' @ replicate (510 - length body) nul)
       (int (length body) + 2) (gc_info gps) = Some (rv, info)"
  shows "(\<exists>reqs gps'. start_gpsd_service [r] gps = Some (0, reqs, gps') \<and> gc_info gps' = info) \<and>
    (\<exists>reqs gps'. start_gpsd_service [r\<^sub>1, r\<^sub>2] gps = Some (0, reqs, gps') \<and> gc_info gps' = gc_info gps)"
proof
  have len: "int (length (sentence body h l)) = int (length body) + 6" by (simp add: sentence_def)
  have whole: "nmea_parse (gr_parse r) (sentence body h l @ replicate (1024 - length (sentence body h l)) nul) (int (length (sentence body h l)))
      (gc_info gps) = Some (0, info)"
    unfolding len unfolding sentence_def by (rule parse_whole_sentence [where env = "gr_parse r", OF assms(1,2,10)])
  obtain q v where "gpsd_round r gps = Some (q, gps\<lparr>gc_pwr_status := v, gc_info := info\<rparr>)"
    by (rule round_delivers [OF assms(6,5) whole])
  then show "\<exists>reqs gps'. start_gpsd_service [r] gps = Some (0, reqs, gps') \<and> gc_info gps' = info" by simp
next
  let ?xs = "take k (sentence body h l)" and ?ys = "drop k (sentence body h l)"
  have k: "0 < k" using assms(7) by (auto simp: delivers_def)
  have s: "?xs = take k (''$'' @ body)" "?ys = drop k (''$'' @ body) @ ''*'' @ [h, l, CHR 0x0D, CHR 0x0A]"
  proof -
    have "sentence body h l = (''$'' @ body) @ ''*'' @ [h, l, CHR 0x0D, CHR 0x0A]" "k - length (''$'' @ body) = 0"
      using assms(9) by (simp_all add: sentence_def)
    then show "?xs = take k (''$'' @ body)" "?ys = drop k (''$'' @ body) @ ''*'' @ [h, l, CHR 0x0D, CHR 0x0A]"
      by (simp_all only: take_append drop_append take0 drop0 append_Nil2)
  qed
  have "set ?xs \<subseteq> set (''$'' @ body)" unfolding s(1) by (rule set_take_subset)
  then have x: "nul \<notin> set ?xs" "CHR ''*'' \<notin> set ?xs" using assms(1) by (auto simp: nmea_body_def)
  have "drop k (''$'' @ body) = drop (k - 1) body" using k by (cases k) simp_all
  then have "set (drop k (''$'' @ body)) \<subseteq> set body" by (simp add: set_drop_subset)
  then have y: "nul \<notin> set ?ys" "CHR ''$'' \<notin> set ?ys" using assms(1,3,4) unfolding s(2) by (auto simp: nmea_body_def)
  have "length ?xs < 1024" "length ?ys < 1024" using assms(7,8) unfolding delivers_def by blast+
  then have "0 < 1024 - length ?xs" "0 < 1024 - length ?ys" by (simp_all only: zero_less_diff)
  then have p: "nmea_parse env (?xs @ replicate (1024 - length ?xs) nul) len info = Some (0, info)"
    "nmea_parse env (?ys @ replicate (1024 - length ?ys) nul) len info = Some (0, info)" for env len info
    using parse_no_sentence [of ?xs] parse_no_sentence [of ?ys] x y by simp_all
  obtain q1 v1 where r1: "gpsd_round r\<^sub>1 gps = Some (q1, gps\<lparr>gc_pwr_status := v1, gc_info := gc_info gps\<rparr>)"
    by (rule round_delivers [OF assms(7,5) p(1)])
  have o: "port_open (gps\<lparr>gc_pwr_status := v1, gc_info := gc_info gps\<rparr>)" using assms(5) by (simp add: port_open_def)
  obtain q2 v2 where r2: "gpsd_round r\<^sub>2 (gps\<lparr>gc_pwr_status := v1, gc_info := gc_info gps\<rparr>) =
      Some (q2, gps\<lparr>gc_pwr_status := v1, gc_info := gc_info gps\<rparr>\<lparr>gc_pwr_status := v2, gc_info := gc_info gps\<rparr>)"
    by (rule round_delivers [OF assms(8) o, of "gc_info gps"]) (use p(2) in simp_all)
  show "\<exists>reqs gps'. start_gpsd_service [r\<^sub>1, r\<^sub>2] gps = Some (0, reqs, gps') \<and> gc_info gps' = gc_info gps"
    unfolding start_gpsd_service.simps r1 Option.bind.bind_lunit prod.case r2 by simp
qed

definition demo_gps :: gpsd_contex where
  "demo_gps = \<lparr>gc_pwr_status = 1, gc_info = nmea_zero_INFO zero_time, gc_comport = Some
     \<lparr>databit = 8, parity = 0, stopbit = 1, flowctrl = 0, is_connted = 1, dev_name = ''/dev/ttyS4'' @ [NUL], cp_used = 0,
      cp_fd = 5, frag_size = 128, baudrate = 9600\<rparr>\<rparr>"

definition demo_round :: "string \<Rightarrow> gpsd_round" where
  "demo_round xs = \<lparr>gr_power = \<lparr>dc_open = 6, dc_ioctl = 1\<rparr>, gr_turn = \<lparr>dc_open = 6, dc_ioctl = 0\<rparr>, gr_select = SelReady False True,
     gr_read = ReadBytes xs, gr_parse = (\<lambda>_. (True, []))\<rparr>"

text \<open>The line of the parser that the service uses, at a sentence from the comment of the source.\<close>

definition gga_body :: string where "gga_body = ''GPGGA,081803,3029.9100,N,11423.2012,E,1,05,1.6,38.7,M,-13.7,M,,0000''"

lemma gga_line: "map_option (\<lambda>(rv, i). i_lat i) (nmea_parse_line True [] (''$'' @ gga_body @ ''*'' @ replicate (510 - length gga_body) nul)
    (int (length gga_body) + 2) (nmea_zero_INFO zero_time)) = Some (DStrtod ''3029.9100'')"
proof -
  define L where "L = ''$'' @ gga_body @ ''*''"
  have "gga_fields [''081803'', ''3029.9100'', ''N'', ''11423.2012'', ''E'', ''1'', ''05'', ''1.6'', ''38.7'', ''M'', ''-13.7'',
      ''M'', [], ''0000'']" by code_simp
  then have T: "nmea_parse_GPGGA [] L = Some (1, \<lparr>gga_utc = zero_time\<lparr>t_hour := nmea_atoi ''08'' 10,
        t_min := nmea_atoi ''18'' 10, t_sec := nmea_atoi ''03'' 10\<rparr>,
      gga_lat = field_dbl ''3029.9100'', gga_ns = field_chr ''N'', gga_lon = field_dbl ''11423.2012'', gga_ew = field_chr ''E'',
      gga_sig = field_int ''1'', gga_satinuse = field_int ''05'', gga_HDOP = field_dbl ''1.6'', gga_elv = field_dbl ''38.7'',
      gga_elv_units = field_chr ''M'', gga_diff = field_dbl ''-13.7'', gga_diff_units = field_chr ''M'', gga_dgps_age = field_dbl [],
      gga_dgps_sid = field_int ''0000''\<rparr>)"
    using nmea_parse_GPGGA_fields [OF _ refl, of "CHR ''0''" "CHR ''8''" "CHR ''1''" "CHR ''8''" "CHR ''0''" "CHR ''3''"
        "''3029.9100''" "''N''" "''11423.2012''" "''E''" "''1''" "''05''" "''1.6''" "''38.7''" "''M''" "''-13.7''" "''M''" "[]" "''0000''" "[]"]
    by (simp add: gga_body_def L_def)
  have type: "nmea_pack_type (drop 1 (''$'' @ gga_body @ ''*'' @ replicate (510 - length gga_body) nul)) (int (length gga_body) + 2) = Some GPGGA"
    using pack_type_GPGGA [of "drop 5 gga_body @ ''*'' @ replicate (510 - length gga_body) nul" "int (length gga_body) + 2"]
    by (simp add: gga_body_def)
  have slice: "rd_slice (''$'' @ gga_body @ ''*'' @ replicate (510 - length gga_body) nul) 0 (nat (int (length gga_body) + 2)) =
      Some L"
    by (simp add: gga_body_def L_def)
  have atof: "nmea_atof ''3029.9100'' = DStrtod ''3029.9100''" by code_simp
  show ?thesis unfolding nmea_parse_line_def type slice
    by (simp add: T nmea_GPGGA2info_def field_chr_def field_dbl_def atof)
qed

theorem gpsd_loses_split_sentence_witness:
  "\<exists>reqs gps' reqs' gps''. start_gpsd_service [demo_round (sentence gga_body CHR ''4'' CHR ''C'')] demo_gps = Some (0, reqs, gps') \<and>
     i_lat (gc_info gps') = DStrtod ''3029.9100'' \<and>
     start_gpsd_service [demo_round (take 30 (sentence gga_body CHR ''4'' CHR ''C'')), demo_round (drop 30 (sentence gga_body CHR ''4'' CHR ''C''))]
       demo_gps = Some (0, reqs', gps'') \<and> i_lat (gc_info gps'') = DZero"
proof -
  obtain rv i where line: "nmea_parse_line True [] (''$'' @ gga_body @ ''*'' @ replicate (510 - length gga_body) nul)
      (int (length gga_body) + 2) (nmea_zero_INFO zero_time) = Some (rv, i)" "i_lat i = DStrtod ''3029.9100''"
    using gga_line by auto
  have b: "nmea_body gga_body" "length gga_body \<le> 510" by (simp_all add: gga_body_def nmea_body_def)
  have d: "port_open demo_gps" "\<And>xs. xs \<noteq> [] \<Longrightarrow> length xs < 1024 \<Longrightarrow> delivers (demo_round xs) xs"
    by (simp_all add: delivers_def demo_round_def hal_get_gps_power_def port_open_def demo_gps_def)
  let ?s = "sentence gga_body CHR ''4'' CHR ''C''"
  have s: "delivers (demo_round ?s) ?s" "delivers (demo_round (take 30 ?s)) (take 30 ?s)" "delivers (demo_round (drop 30 ?s)) (drop 30 ?s)"
    by (rule d(2); simp add: sentence_def gga_body_def)+
  have c: "CHR ''4'' \<notin> {nul, CHR ''$''}" "CHR ''C'' \<notin> {nul, CHR ''$''}" "30 \<le> length gga_body + 1" by (simp_all add: gga_body_def)
  have i: "nmea_parse_line (fst (gr_parse (demo_round ?s) 0)) (snd (gr_parse (demo_round ?s) 0))
      (''$'' @ gga_body @ ''*'' @ replicate (510 - length gga_body) nul) (int (length gga_body) + 2) (gc_info demo_gps) = Some (rv, i)"
    using line(1) by (simp add: demo_round_def demo_gps_def)
  have z: "i_lat (gc_info demo_gps) = DZero" by (simp add: demo_gps_def nmea_zero_INFO_def)
  show ?thesis using gpsd_loses_split_sentence [OF b c(1,2) d(1) s c(3) i] line(2) z by auto
qed

end
