(* ===== verification/Proc.thy ===== *)
theory Proc
  imports Printf
begin

text \<open>
  Processes (\<open>cp_library/cp_proc.c\<close>): the signals that end a daemon, going to the background, and the file in which a daemon
  records its process identifier. Files, directories and living processes are the state of the system around them.
\<close>

section \<open>Signals\<close>

definition SIGINT :: int where "SIGINT = 2"
definition SIGPIPE :: int where "SIGPIPE = 13"
definition SIGTERM :: int where "SIGTERM = 15"

record cp_proc_sig =
  sg_signal :: int
  sg_stop :: u32

definition cp_proc_sighandler :: "int \<Rightarrow> cp_proc_sig \<Rightarrow> cp_proc_sig" where
  "cp_proc_sighandler sig g =
     (if sig = SIGINT then g\<lparr>sg_stop := 1\<rparr>
      else if sig = SIGTERM then g\<lparr>sg_stop := 1\<rparr>
      else if sig = SIGPIPE then g\<lparr>sg_stop := 1\<rparr>
      else g)"

text \<open>What is installed is the set of the signals that the handler gets.\<close>

definition cp_install_proc_signal :: "int list \<Rightarrow> int list" where
  "cp_install_proc_signal handled = handled @ [SIGTERM, SIGINT, SIGPIPE]"

section \<open>Going to the background\<close>

record proc =
  pr_pid :: int
  pr_ppid :: int
  pr_leader :: bool
  pr_fds :: "int \<rightharpoonup> string"
  pr_umask :: int
  pr_cwd :: string

datatype fork_rv = FORK_FAILED | FORK_PARENT | FORK_CHILD int

text \<open>A process ends with a status, or goes on.\<close>

datatype 'a run = EXITED int | RUNS 'a

text \<open>The descriptors from \<open>i\<close> down to 0 are closed.\<close>

fun close_all :: "nat \<Rightarrow> (int \<rightharpoonup> string) \<Rightarrow> int \<rightharpoonup> string" where
  "close_all 0 fds = fds(0 := None)"
| "close_all (Suc i) fds = close_all i (fds(int (Suc i) := None))"

text \<open>\<open>open\<close> and \<open>dup\<close> answer the lowest free descriptors, which are then 0, 1 and 2.\<close>

definition daemonize :: "nat \<Rightarrow> bool \<Rightarrow> fork_rv \<Rightarrow> bool \<Rightarrow> bool \<Rightarrow> proc \<Rightarrow> proc run" where
  "daemonize tablesize null_ok fork nochdir noclose p =
     (if pr_ppid p = 1 then RUNS p
      else case fork of
             FORK_FAILED \<Rightarrow> EXITED 1
           | FORK_PARENT \<Rightarrow> EXITED 0
           | FORK_CHILD pid \<Rightarrow>
               let p = p\<lparr>pr_pid := pid, pr_ppid := pr_pid p, pr_leader := True\<rparr>;
                   p = (if noclose then p
                        else let fds = close_all tablesize (pr_fds p)
                             in p\<lparr>pr_fds := (if null_ok then fds(0 \<mapsto> ''/dev/null'', 1 \<mapsto> ''/dev/null'', 2 \<mapsto> ''/dev/null'') else fds)\<rparr>);
                   p = p\<lparr>pr_umask := 0\<rparr>
               in RUNS (if nochdir then p else p\<lparr>pr_cwd := ''/''\<rparr>))"

section \<open>The record of the process\<close>

definition PID_ASCII_SIZE :: nat where "PID_ASCII_SIZE = 11"

record proc_files =
  pf_files :: "string \<rightharpoonup> string"
  pf_dirs :: "string list"

definition path_exists :: "string \<Rightarrow> proc_files \<Rightarrow> bool" where
  "path_exists p w \<longleftrightarrow> pf_files w p \<noteq> None \<or> p \<in> set (pf_dirs w)"

text \<open>What \<open>dirname\<close> leaves in its argument: the path up to the slashes before its last component; a path without a slash stays as
  it is, the result \<open>"."\<close> being another object.\<close>

definition strip_slashes :: "string \<Rightarrow> string" where
  "strip_slashes s = rev (dropWhile (\<lambda>c. c = CHR ''/'') (rev s))"

definition dirname_arg :: "string \<Rightarrow> string" where
  "dirname_arg s =
     (let t = (if strip_slashes s = [] then s else strip_slashes s);
          d = rev (dropWhile (\<lambda>c. c \<noteq> CHR ''/'') (rev t))
      in if d = [] then s else if strip_slashes d = [] then ''/'' else strip_slashes d)"

text \<open>\<open>strncpy\<close> leaves a path of 64 characters or more without its end.\<close>

definition record_daemon_pid ::
  "(string \<Rightarrow> bool) \<Rightarrow> bool \<Rightarrow> int \<Rightarrow> string \<Rightarrow> proc_files \<Rightarrow> (int \<times> proc_files) option" where
  "record_daemon_pid mkdir_ok open_ok pid pid_file w =
     (if length pid_file \<ge> 64 then None
      else let ipc_dir = dirname_arg pid_file;
               made = path_exists ipc_dir w \<or> mkdir_ok ipc_dir;
               w = (if path_exists ipc_dir w \<or> \<not> made then w else w\<lparr>pf_dirs := ipc_dir # pf_dirs w\<rparr>)
           in Some (if \<not> made then (- 1, w)
                    else if open_ok \<and> pid_file \<notin> set (pf_dirs w)
                    then (0, w\<lparr>pf_files := (pf_files w)(pid_file \<mapsto>
                                take (PID_ASCII_SIZE - 1) (udec 10 (nat pid) @ [CHR 0x0A]))\<rparr>)
                    else (- 1, w)))"

text \<open>\<open>fgets(pid_ascii, n, f)\<close>; at the end of the file the array keeps its contents \<open>g\<close>, which nothing has set.\<close>

definition pid_line :: "nat \<Rightarrow> string \<Rightarrow> string" where
  "pid_line n t = (let l = length (takeWhile (\<lambda>c. c \<noteq> CHR 0x0A) t) in take (min (n - 1) (l + 1)) t)"

definition get_daemon_pid :: "bool \<Rightarrow> string \<Rightarrow> string \<Rightarrow> proc_files \<Rightarrow> int" where
  "get_daemon_pid open_ok g pid_file w =
     (if open_ok \<and> path_exists pid_file w
      then case pf_files w pid_file of
             Some t \<Rightarrow> if t = [] then atoi (cstr g) else atoi (cstr (pid_line PID_ASCII_SIZE t))
           | None \<Rightarrow> atoi (cstr g)
      else - 1)"

definition check_daemon_running :: "(int \<Rightarrow> bool) \<Rightarrow> bool \<Rightarrow> string \<Rightarrow> string \<Rightarrow> proc_files \<Rightarrow> int \<times> proc_files" where
  "check_daemon_running alive open_ok g pid_file w =
     (if path_exists pid_file w
      then let pid = get_daemon_pid open_ok g pid_file w; removed = w\<lparr>pf_files := (pf_files w)(pid_file := None)\<rparr>
           in if pid > 0
              then if alive pid then (1, w) else (0, removed)
              else if pid = 0 then (0, removed)
              else (1, w)
      else (0, w))"

definition set_daemon_running ::
  "nat \<Rightarrow> fork_rv \<Rightarrow> (string \<Rightarrow> bool) \<Rightarrow> bool \<Rightarrow> string \<Rightarrow> proc \<Rightarrow> proc_files \<Rightarrow> (int \<times> proc \<times> proc_files) option run" where
  "set_daemon_running tablesize fork mkdir_ok open_ok pid_file p w =
     (case daemonize tablesize True fork False True p of
        EXITED n \<Rightarrow> EXITED n
      | RUNS p \<Rightarrow> RUNS (do {
          (rv, w) \<leftarrow> record_daemon_pid mkdir_ok open_ok (pr_pid p) pid_file w;
          Some (if rv < 0 then - 2 else 0, p, w) }))"

section \<open>Threads and commands\<close>

text \<open>The result, and whether the attribute is destroyed. The three calls return 0 or an error.\<close>

definition thread_start :: "int \<Rightarrow> int \<Rightarrow> int \<Rightarrow> int \<Rightarrow> int \<times> bool" where
  "thread_start init_rv stack_rv detach_rv create_rv =
     (if init_rv \<noteq> 0 then (- 1, False)
      else if stack_rv \<noteq> 0 then (stack_rv, True)
      else if detach_rv \<noteq> 0 then (detach_rv, True)
      else (create_rv, True))"

text \<open>The command that is run for the formatted text.\<close>

definition exec_system_cmd :: "string \<Rightarrow> string" where
  "exec_system_cmd text' = take 255 text'"

section \<open>Properties\<close>

lemma udec_short: "0 < n \<Longrightarrow> n < 10 ^ k \<Longrightarrow> length (udec 10 n) \<le> k"
proof -
  have "n < 10 ^ k \<Longrightarrow> length (tmp_digits digits_lower 10 n) \<le> k" for n
  proof (induction k arbitrary: n)
    case 0
    then show ?case by (simp add: tmp_digits.simps)
  next
    case (Suc k)
    have "n div 10 < 10 ^ k" using Suc.prems by (simp add: less_mult_imp_div_less)
    then show ?case using Suc.IH [of "n div 10"] by (simp add: tmp_digits.simps [of _ _ n])
  qed
  then show "0 < n \<Longrightarrow> n < 10 ^ k \<Longrightarrow> length (udec 10 n) \<le> k" by (simp add: udec_def)
qed

lemma digits_val_stop: "digit_val c = None \<Longrightarrow> digits_val b acc (s @ c # t) = digits_val b acc s"
  by (induction s arbitrary: acc) (auto split: option.splits)

lemma udec_chars:
  assumes "c \<in> set (udec 10 n)"
  shows "\<not> c_isspace c" "c \<noteq> CHR ''-''" "c \<noteq> CHR ''+''" "c \<noteq> CHR 0x0A" "c \<noteq> CHR 0x00"
proof -
  obtain v where v: "digit_val c = Some v" using udec_value(1) [of 10 n] assms by (auto simp: all_digits_def)
  have "digit_val CHR 0x0A = None" "digit_val CHR 0x00 = None" by code_simp+
  then show "c \<noteq> CHR 0x0A" "c \<noteq> CHR 0x00" using v by auto
  show "\<not> c_isspace c" "c \<noteq> CHR ''-''" "c \<noteq> CHR ''+''" using digit_not_space [OF v] by simp_all
qed

lemma atoi_udec:
  assumes "n < 2 ^ 31" "t = [] \<or> t = [CHR 0x0A]"
  shows "atoi (udec 10 n @ t) = int n"
proof -
  have nl: "digit_val CHR 0x0A = None" by code_simp
  obtain c cs where u: "udec 10 n = c # cs" using udec_nonempty [of 10 n] by (cases "udec 10 n") auto
  then have c: "\<not> c_isspace c" "c \<noteq> CHR ''-''" "c \<noteq> CHR ''+''" using udec_chars(1-3) [of c n] by simp_all
  have d: "digits_val 10 0 (udec 10 n @ t) = int n"
    using assms(2)
  proof
    assume "t = [CHR 0x0A]"
    then show ?thesis using digits_val_stop [OF nl, of 10 0 "udec 10 n" "[]"] udec_value(2) [of 10 n] by simp
  qed (use udec_value(2) [of 10 n] in simp)
  have "int n \<le> LONG_MAX" using assms(1) by (simp add: LONG_MAX_def)
  then have cl: "clamp_long (int n) = int n" by (simp add: clamp_long_def LONG_MAX_def)
  have "strip_left (udec 10 n @ t) = udec 10 n @ t" unfolding u strip_left_def using c(1) by simp
  moreover have "take 1 (udec 10 n @ t) = [c]" unfolding u by simp
  ultimately show ?thesis unfolding atoi_def Let_def using c(2,3) d cl by simp
qed


definition var_run :: proc_files where
  "var_run = \<lparr>pf_files = Map.empty, pf_dirs = [''/'', ''/var'']\<rparr>"


text \<open>A pid file that is given without a directory cannot be recorded: a directory of its name is made instead.\<close>

theorem pid_file_without_directory:
  assumes "CHR ''/'' \<notin> set pid_file" "length pid_file < 64" "\<not> path_exists pid_file w" "mkdir_ok pid_file"
  shows "record_daemon_pid mkdir_ok open_ok pid pid_file w = Some (- 1, w\<lparr>pf_dirs := pid_file # pf_dirs w\<rparr>)"
proof -
  have "strip_slashes pid_file = pid_file"
    using assms(1) by (cases "rev pid_file") (auto simp: strip_slashes_def)
  moreover have "dropWhile (\<lambda>c. c \<noteq> CHR ''/'') (rev pid_file) = []" using assms(1) by auto
  ultimately have "dirname_arg pid_file = pid_file" by (simp add: dirname_arg_def)
  then show ?thesis using assms(2-4) by (simp add: record_daemon_pid_def Let_def)
qed

theorem pid_file_without_directory_witness:
  "record_daemon_pid (\<lambda>_. True) True 1234 ''gpsd.pid'' var_run = Some (- 1, var_run\<lparr>pf_dirs := ''gpsd.pid'' # pf_dirs var_run\<rparr>)"
  by (rule pid_file_without_directory) (simp_all add: var_run_def path_exists_def)

end
