(* ===== verification/HexDump.thy ===== *)
theory HexDump
  imports CpString Printf
begin

text \<open>
  The hexadecimal dumps of \<open>cp_library/cp_string.c\<close> and \<open>cp_library/cp_logger.c\<close>: lines of 16 bytes with their
  offset, their digits and their printable characters. What the functions print is their result. The array \<open>lit\<close>, not
  initialised by the code, starts with arbitrary contents, which is an argument.
\<close>

section \<open>The formats\<close>

definition LINELEN :: nat where "LINELEN = 81"
definition CHARS_PER_LINE :: nat where "CHARS_PER_LINE = 16"

text \<open>The character that stands for a byte.\<close>

definition print_char :: string where
  "print_char = replicate 32 (CHR '' '') @ map char_of [32..<127 :: nat] @ replicate 34 (CHR '' '') @ replicate 95 (CHR ''?'')"

text \<open>\<open>%02X\<close> and \<open>%08X\<close> for numbers of at most that many digits.\<close>

fun hex_w :: "nat \<Rightarrow> nat \<Rightarrow> string" where
  "hex_w 0 n = []"
| "hex_w (Suc w) n = hex_w w (n div 16) @ [digits_upper ! (n mod 16)]"

definition hex_byte :: "char \<Rightarrow> string" where
  "hex_byte c = hex_w 2 (of_char c) @ '' ''"

definition hex_offset :: "nat \<Rightarrow> string" where
  "hex_offset idx = hex_w 8 idx @ '': ''"

definition shown :: "char \<Rightarrow> char" where
  "shown c = print_char ! of_char c"

text \<open>\<open>strncat(prn, s, n)\<close> with all of \<open>s\<close>: the array has \<open>LINELEN\<close> bytes.\<close>

definition dump_cat :: "string \<Rightarrow> string \<Rightarrow> string option" where
  "dump_cat prn s = (if length prn + length s < LINELEN then Some (prn @ s) else None)"

text \<open>\<open>printf("%s  %s\n", prn, lit)\<close>.\<close>

definition dump_print :: "string \<Rightarrow> char list \<Rightarrow> string option" where
  "dump_print prn lit = (if NUL \<in> set lit then Some (prn @ ''  '' @ cstr lit @ [CHR 0x0A]) else None)"

function dump_pad :: "nat \<Rightarrow> string \<Rightarrow> string option" where
  "dump_pad idx prn =
     (let idx = idx + 1
      in if idx mod CHARS_PER_LINE \<noteq> 0 then do { prn \<leftarrow> dump_cat prn ''   ''; dump_pad idx prn } else Some prn)"
  by pat_completeness auto
termination
  by (relation "measure (\<lambda>(idx, prn). 16 - idx mod 16)") (auto simp: CHARS_PER_LINE_def mod_Suc split: if_splits)

declare dump_pad.simps [simp del]

section \<open>The dump of a string\<close>

text \<open>The inner loop, which is entered with \<open>rc > 0\<close>.\<close>

fun dump_bytes :: "char list \<Rightarrow> nat \<Rightarrow> nat \<Rightarrow> string \<Rightarrow> char list \<Rightarrow> (nat \<times> nat \<times> string \<times> char list) option" where
  "dump_bytes data idx 0 prn lit = None"
| "dump_bytes data idx (Suc rc) prn lit = do {
     c \<leftarrow> rd data idx;
     prn \<leftarrow> dump_cat prn (hex_byte c);
     lit \<leftarrow> wr lit (idx mod CHARS_PER_LINE) (shown c);
     let idx = idx + 1;
     if rc > 0 \<and> idx mod CHARS_PER_LINE \<noteq> 0 then dump_bytes data idx rc prn lit
     else Some (idx, rc, prn, lit) }"

lemma dump_bytes_less: "dump_bytes data idx rc prn lit = Some (idx', rc', prn', lit') \<Longrightarrow> rc' < rc"
  by (induction data idx rc prn lit rule: dump_bytes.induct)
    (fastforce simp: Let_def split: if_splits bind_splits)+

function dump_lines ::
  "char list \<Rightarrow> nat \<Rightarrow> nat \<Rightarrow> string \<Rightarrow> char list \<Rightarrow> bool \<Rightarrow> (nat \<times> string \<times> char list \<times> bool \<times> string) option" where
  "dump_lines data idx rc prn lit line_done =
     (if rc > 0
      then let prn = (if line_done then hex_offset idx else prn)
           in case dump_bytes data idx rc prn lit of
                None \<Rightarrow> None
              | Some (idx, rc, prn, lit) \<Rightarrow> do {
                  let line_done = (idx mod CHARS_PER_LINE = 0);
                  t \<leftarrow> (if line_done then dump_print prn lit else Some []);
                  prn \<leftarrow> (if \<not> line_done \<and> rc = 0 then dump_cat prn ''   '' else Some prn);
                  (idx, prn, lit, line_done, out) \<leftarrow> dump_lines data idx rc prn lit line_done;
                  Some (idx, prn, lit, line_done, t @ out) }
      else Some (idx, prn, lit, line_done, []))"
  by pat_completeness auto
termination
  by (relation "measure (\<lambda>(data, idx, rc, prn, lit, line_done). rc)") (auto dest: dump_bytes_less)

declare dump_lines.simps [simp del]

definition cp_cstring_dump :: "char list \<Rightarrow> int \<Rightarrow> char list \<Rightarrow> string option" where
  "cp_cstring_dump data len lit = do {
     lit \<leftarrow> wr lit CHARS_PER_LINE NUL;
     (idx, prn, lit, line_done, out) \<leftarrow> dump_lines data 0 (nat len) [] lit True;
     if \<not> line_done
     then do {
       lit \<leftarrow> wr lit (idx mod CHARS_PER_LINE) NUL;
       prn \<leftarrow> dump_pad idx prn;
       t \<leftarrow> dump_print prn lit;
       Some (out @ t) }
     else Some out }"

definition cp_string_dump :: "cp_string \<Rightarrow> char list \<Rightarrow> string option" where
  "cp_string_dump str lit = cp_cstring_dump (case cs_data str of None \<Rightarrow> [] | Some d \<Rightarrow> d) (cs_len str) lit"

text \<open>\<open>cp_hexdump_string\<close> fills a static array of 1024 bytes; an entry takes three of them and a \<open>NUL\<close>.\<close>

fun hexdump_loop :: "nat \<Rightarrow> char list \<Rightarrow> nat \<Rightarrow> string option" where
  "hexdump_loop i d 0 = Some []"
| "hexdump_loop i d (Suc len) =
     (if i \<ge> 1024 - 4 then Some []
      else case d of [] \<Rightarrow> None
           | c # d \<Rightarrow> do {
               s \<leftarrow> hexdump_loop (i + 3) d len;
               Some ('' '' @ [digits_lower ! (of_char c div 16), digits_lower ! (of_char c mod 16)] @ s) })"

definition cp_hexdump_string :: "char list \<Rightarrow> nat \<Rightarrow> string option" where
  "cp_hexdump_string data len = hexdump_loop 0 data len"

section \<open>The dump of the logger\<close>

text \<open>Here \<open>idx\<close> is not advanced after the last byte.\<close>

fun log_bytes :: "char list \<Rightarrow> nat \<Rightarrow> nat \<Rightarrow> string \<Rightarrow> char list \<Rightarrow> (nat \<times> nat \<times> string \<times> char list) option" where
  "log_bytes buf idx 0 prn lit = None"
| "log_bytes buf idx (Suc rc) prn lit = do {
     c \<leftarrow> rd buf idx;
     prn \<leftarrow> dump_cat prn (hex_byte c);
     lit \<leftarrow> wr lit (idx mod CHARS_PER_LINE) (shown c);
     if rc > 0
     then let idx = idx + 1
          in if idx mod CHARS_PER_LINE \<noteq> 0 then log_bytes buf idx rc prn lit else Some (idx, rc, prn, lit)
     else Some (idx, rc, prn, lit) }"

lemma log_bytes_less: "log_bytes data idx rc prn lit = Some (idx', rc', prn', lit') \<Longrightarrow> rc' < rc"
  by (induction data idx rc prn lit rule: log_bytes.induct)
    (fastforce simp: Let_def split: if_splits bind_splits)+

function log_lines ::
  "char list \<Rightarrow> nat \<Rightarrow> nat \<Rightarrow> string \<Rightarrow> char list \<Rightarrow> bool \<Rightarrow> (nat \<times> string \<times> char list \<times> bool \<times> string) option" where
  "log_lines buf idx rc prn lit line_done =
     (if rc > 0
      then let prn = (if line_done then hex_offset idx else prn)
           in case log_bytes buf idx rc prn lit of
                None \<Rightarrow> None
              | Some (idx, rc, prn, lit) \<Rightarrow> do {
                  let line_done = (idx mod CHARS_PER_LINE = 0);
                  t \<leftarrow> (if line_done then dump_print prn lit else Some []);
                  (idx, prn, lit, line_done, out) \<leftarrow> log_lines buf idx rc prn lit line_done;
                  Some (idx, prn, lit, line_done, t @ out) }
      else Some (idx, prn, lit, line_done, []))"
  by pat_completeness auto
termination
  by (relation "measure (\<lambda>(data, idx, rc, prn, lit, line_done). rc)") (auto dest: log_bytes_less)

declare log_lines.simps [simp del]

definition log_dump :: "char list \<Rightarrow> int \<Rightarrow> char list \<Rightarrow> string option" where
  "log_dump buf len lit = do {
     lit \<leftarrow> wr lit CHARS_PER_LINE NUL;
     (idx, prn, lit, line_done, out) \<leftarrow> log_lines buf 0 (nat len) [] lit True;
     if \<not> line_done
     then do {
       c \<leftarrow> rd buf idx;
       lit \<leftarrow> wr lit (idx mod CHARS_PER_LINE) (shown c);
       lit \<leftarrow> wr lit (idx mod CHARS_PER_LINE + 1) NUL;
       prn \<leftarrow> dump_pad idx prn;
       t \<leftarrow> dump_print prn lit;
       Some (out @ t) }
     else Some out }"

section \<open>What a dump should look like\<close>

definition hex_line :: "nat \<Rightarrow> char list \<Rightarrow> string" where
  "hex_line a xs = hex_offset a @ concat (map hex_byte xs) @ replicate (3 * (16 - length xs)) (CHR '' '') @ ''  '' @
     map shown xs @ [CHR 0x0A]"

function hex_dump :: "nat \<Rightarrow> char list \<Rightarrow> string" where
  "hex_dump a xs = (if xs = [] then [] else hex_line a (take 16 xs) @ hex_dump (a + 16) (drop 16 xs))"
  by pat_completeness auto
termination by (relation "measure (\<lambda>(a, xs). length xs)") auto

declare hex_dump.simps [simp del]

lemma hex_dump_Nil [simp]: "hex_dump a [] = []"
  by (simp add: hex_dump.simps)

lemma hex_dump_step: "xs \<noteq> [] \<Longrightarrow> hex_dump a xs = hex_line a (take 16 xs) @ hex_dump (a + 16) (drop 16 xs)"
  by (simp add: hex_dump.simps)

section \<open>Lengths\<close>

lemma hex_w_length [simp]: "length (hex_w w n) = w"
  by (induction w n rule: hex_w.induct) simp_all

lemma hex_lengths [simp]: "length (hex_byte c) = 3" "length (hex_offset i) = 10" "length (concat (map hex_byte xs)) = 3 * length xs"
  by (simp_all add: hex_byte_def hex_offset_def length_concat o_def sum_list_triv)

lemma shown_not_NUL [simp]: "shown c \<noteq> NUL"
proof -
  have all: "\<forall>x\<in>set print_char. x \<noteq> NUL" by code_simp
  have "length print_char = 256" by (simp add: print_char_def)
  then have "shown c \<in> set print_char"
    unfolding shown_def by (intro nth_mem) (metis nat_of_char_less_256)
  then show ?thesis using all by simp
qed

lemma NUL_map_shown [simp]: "NUL \<notin> shown ` A"
  by (metis imageE shown_not_NUL)

lemma dump_print_line:
  assumes "lit = map shown xs @ NUL # ys"
  shows "dump_print prn lit = Some (prn @ ''  '' @ map shown xs @ [CHR 0x0A])"
proof -
  have "takeWhile (\<lambda>c. c \<noteq> NUL) (map shown xs @ NUL # ys) = map shown xs"
    by (subst takeWhile_append2) auto
  then show ?thesis unfolding assms dump_print_def cstr_def by (simp add: NUL_def)
qed

lemma dump_pad_blanks:
  "j = idx mod 16 \<Longrightarrow> length prn + 3 * (15 - j) < 81 \<Longrightarrow>
   dump_pad idx prn = Some (prn @ replicate (3 * (15 - j)) (CHR '' ''))"
proof (induction "15 - j" arbitrary: idx prn j)
  case 0
  then have "Suc idx mod 16 = 0" using mod_less_divisor [of 16 idx] by (simp add: mod_Suc)
  then show ?case using 0 by (simp add: dump_pad.simps CHARS_PER_LINE_def)
next
  case (Suc n)
  then have s: "Suc idx mod 16 = Suc j" by (simp add: mod_Suc)
  have n: "n = 15 - Suc j" using Suc.hyps(2) by simp
  have len: "length prn + 3 < 81" using Suc.prems(2) Suc.hyps(2) by simp
  have "dump_pad (Suc idx) (prn @ ''   '') = Some ((prn @ ''   '') @ replicate (3 * (15 - Suc j)) (CHR '' ''))"
    by (rule Suc.hyps(1) [OF n s [symmetric]]) (use Suc.prems(2) Suc.hyps(2) n in simp)
  moreover have "replicate (3 * (15 - j)) (CHR '' '') = ''   '' @ replicate (3 * (15 - Suc j)) (CHR '' '')"
  proof -
    have "3 * (15 - j) = Suc (Suc (Suc (3 * (15 - Suc j))))" using Suc.hyps(2) by simp
    then show ?thesis by (simp only: replicate_Suc append_Cons append_Nil)
  qed
  ultimately show ?case
    using s len Suc.prems(1) by (simp add: dump_pad.simps [of idx] dump_cat_def LINELEN_def CHARS_PER_LINE_def)
qed

section \<open>A line\<close>

lemma dump_bytes_line:
  assumes "0 < rc" "idx + rc \<le> length data" "16 \<le> length lit" "length prn = 10 + 3 * (idx mod 16)"
    "m = min rc (16 - idx mod 16)"
  shows "dump_bytes data idx rc prn lit = Some (idx + m, rc - m, prn @ concat (map hex_byte (take m (drop idx data))),
    take (idx mod 16) lit @ map shown (take m (drop idx data)) @ drop (idx mod 16 + m) lit)"
  using assms
proof (induction rc arbitrary: idx prn lit m)
  case (Suc rc)
  let ?j = "idx mod 16" and ?c = "data ! idx"
  let ?lit = "lit[?j := shown ?c]" and ?prn = "prn @ hex_byte ?c"
  have j: "?j < 16" by simp
  have c: "rd data idx = Some ?c" "drop idx data = ?c # drop (Suc idx) data"
    using Suc.prems(2) by (simp_all add: Cons_nth_drop_Suc)
  have cat: "dump_cat prn (hex_byte ?c) = Some ?prn" using Suc.prems(4) j by (simp add: dump_cat_def LINELEN_def)
  have wr: "wr lit ?j (shown ?c) = Some ?lit" using Suc.prems(3) j by (intro wr_in) linarith
  have head: "dump_bytes data idx (Suc rc) prn lit =
      (if rc > 0 \<and> Suc idx mod 16 \<noteq> 0 then dump_bytes data (Suc idx) rc ?prn ?lit else Some (Suc idx, rc, ?prn, ?lit))"
    using c(1) cat wr by (simp add: CHARS_PER_LINE_def)
  have lit: "take (Suc ?j) ?lit = take ?j lit @ [shown ?c]"
    using Suc.prems(3) j by (simp add: take_Suc_conv_app_nth)
  show ?case
  proof (cases "rc > 0 \<and> Suc idx mod 16 \<noteq> 0")
    case True
    then have s: "Suc idx mod 16 = Suc ?j" by (simp add: mod_Suc split: if_splits)
    have "16 - ?j = Suc (16 - Suc ?j)" using j by simp
    then have m: "m = Suc (min rc (16 - Suc ?j))" unfolding Suc.prems(5) by simp
    have "dump_bytes data (Suc idx) rc ?prn ?lit = Some (Suc idx + min rc (16 - Suc ?j), rc - min rc (16 - Suc ?j),
        ?prn @ concat (map hex_byte (take (min rc (16 - Suc ?j)) (drop (Suc idx) data))),
        take (Suc ?j) ?lit @ map shown (take (min rc (16 - Suc ?j)) (drop (Suc idx) data)) @ drop (Suc ?j + min rc (16 - Suc ?j)) ?lit)"
      using Suc.IH [of "Suc idx" ?lit ?prn "min rc (16 - Suc ?j)"] True s Suc.prems(2-4) by simp
    then show ?thesis using head True m c(2) lit by simp
  next
    case False
    then have m: "m = 1" using Suc.prems(5) by (cases rc) (auto simp: mod_Suc split: if_splits)
    have "take ?j lit @ shown ?c # drop (Suc ?j) lit = ?lit"
      using Suc.prems(3) j by (intro upd_conv_take_nth_drop [symmetric]) linarith
    then show ?thesis unfolding head if_not_P [OF False] m using c(2) by simp
  qed
qed simp

text \<open>The dump of a string, from the start of a line on.\<close>

lemma dump_lines_text:
  assumes "idx mod 16 = 0" "idx + rc \<le> length data" "length lit = 17" "lit ! 16 = NUL"
  shows "\<exists>idx' prn' lit' line_unfin out. dump_lines data idx rc prn lit True = Some (idx', prn', lit', line_unfin, out) \<and>
    (if line_unfin then out = hex_dump idx (take rc (drop idx data))
     else \<exists>t. (do { lit \<leftarrow> wr lit' (idx' mod 16) NUL; prn \<leftarrow> dump_pad idx' prn'; dump_print prn lit }) = Some t \<and>
       out @ t = hex_dump idx (take rc (drop idx data)))"
  using assms
proof (induction rc arbitrary: idx prn lit rule: less_induct)
  case (less rc)
  show ?case
  proof (cases "rc = 0")
    case True
    then have "dump_lines data idx rc prn lit True = Some (idx, prn, lit, True, [])" by (simp add: dump_lines.simps)
    then show ?thesis using True by fastforce
  next
    case False
    define m where "m = min rc 16"
    define xs where "xs = take m (drop idx data)"
    have xs: "length xs = m" "xs \<noteq> []" "xs = take 16 (take rc (drop idx data))" "m \<le> 16" "0 < m"
      using less.prems(2) False by (auto simp: xs_def m_def min_def)
    have rest: "drop 16 (take rc (drop idx data)) = take (rc - m) (drop (idx + m) data)"
      by (auto simp: m_def min_def drop_take add.commute)
    have ref: "hex_dump idx (take rc (drop idx data)) = hex_line idx xs @ hex_dump (idx + 16) (drop 16 (take rc (drop idx data)))"
      using xs(2,3) by (metis hex_dump_step take_Nil)
    let ?lit = "map shown xs @ drop m lit" and ?prn = "hex_offset idx @ concat (map hex_byte xs)"
    have b: "dump_bytes data idx rc (hex_offset idx) lit = Some (idx + m, rc - m, ?prn, ?lit)"
      using dump_bytes_line [of rc idx data lit "hex_offset idx" m] less.prems False by (simp add: m_def xs_def)
    have lit: "length ?lit = 17" "?lit ! 16 = NUL" using xs(1,4) less.prems(3,4) by (simp_all add: nth_append)
    show ?thesis
    proof (cases "m = 16")
      case True
      have d: "drop 16 lit = [NUL]"
        using less.prems(3,4) by (metis Cons_nth_drop_Suc One_nat_def drop_all eval_nat_numeral(3) le_eq_less_or_eq lessI numeral_plus_one numeral_Bit1 semiring_norm(26) semiring_norm(27) semiring_norm(28))
      have p: "dump_print ?prn ?lit = Some (hex_line idx xs)"
        using dump_print_line [of ?lit xs "[]" ?prn] d True xs(1) by (simp add: hex_line_def)
      have i: "(idx + m) mod 16 = 0" "idx + m + (rc - m) \<le> length data" "rc - m < rc"
        using True less.prems(1,2) False by (auto simp: m_def)
      obtain idx' prn' lit' ld out where l: "dump_lines data (idx + m) (rc - m) ?prn ?lit True = Some (idx', prn', lit', ld, out)"
        "if ld then out = hex_dump (idx + m) (take (rc - m) (drop (idx + m) data))
         else \<exists>t. (do { lit \<leftarrow> wr lit' (idx' mod 16) NUL; prn \<leftarrow> dump_pad idx' prn'; dump_print prn lit }) = Some t \<and>
           out @ t = hex_dump (idx + m) (take (rc - m) (drop (idx + m) data))"
        using less.IH [OF i(3,1,2) lit, of ?prn] by blast
      have call: "dump_lines data idx rc prn lit True = Some (idx', prn', lit', ld, hex_line idx xs @ out)"
        using False b i(1) p l(1) by (simp add: dump_lines.simps [of data idx] CHARS_PER_LINE_def)
      show ?thesis
        using l(2) True unfolding call ref rest by auto
    next
      case part: False
      then have m: "m = rc" "m < 16" by (auto simp: m_def min_def split: if_splits)
      let ?prn2 = "?prn @ ''   ''"
      have i: "(idx + m) mod 16 = m" using less.prems(1) m(2) by (metis add.commute mod_add_self2 mod_less mod_add_left_eq add_0)
      have cat: "dump_cat ?prn ''   '' = Some ?prn2" using xs(1) m by (simp add: dump_cat_def LINELEN_def)
      have call: "dump_lines data idx rc prn lit True = Some (idx + m, ?prn2, ?lit, False, [])"
        using False b i m cat xs(5) by (simp add: dump_lines.simps [of data] CHARS_PER_LINE_def)
      have w: "wr ?lit m NUL = Some (map shown xs @ NUL # drop (Suc m) lit)"
        using xs(1) m(2) less.prems(3) by (simp add: list_update_append Cons_nth_drop_Suc [symmetric])
      have pad: "dump_pad (idx + m) ?prn2 = Some (?prn2 @ replicate (3 * (15 - m)) (CHR '' ''))"
        by (rule dump_pad_blanks) (use i xs(1) m in auto)
      have blanks: "''   '' @ replicate (3 * (15 - m)) (CHR '' '') = replicate (3 * (16 - m)) (CHR '' '')"
      proof -
        have "3 * (16 - m) = Suc (Suc (Suc (3 * (15 - m))))" using m(2) by simp
        then show ?thesis by (simp only: replicate_Suc append_Cons append_Nil)
      qed
      have p: "dump_print (?prn2 @ replicate (3 * (15 - m)) (CHR '' '')) (map shown xs @ NUL # drop (Suc m) lit) = Some (hex_line idx xs)"
        using dump_print_line [OF refl, of "?prn2 @ replicate (3 * (15 - m)) (CHR '' '')" xs] blanks xs(1) by (simp add: hex_line_def)
      have tail: "(do { lit \<leftarrow> wr ?lit ((idx + m) mod 16) NUL; prn \<leftarrow> dump_pad (idx + m) ?prn2; dump_print prn lit }) =
          Some (hex_line idx xs)"
        unfolding i w Option.bind.bind_lunit pad by (rule p)
      have eq: "hex_dump idx (take rc (drop idx data)) = hex_line idx xs" unfolding ref using m by simp
      show ?thesis
        unfolding call eq by (intro exI conjI, rule refl) (simp only: tail if_False append_Nil, blast)
    qed
  qed
qed

text \<open>The dump of a string is one line per 16 bytes, with the last one filled up, for every length and whatever was in the
  memory of the array before.\<close>

theorem string_dump_format:
  assumes "cs_data str = Some data" "0 \<le> cs_len str" "nat (cs_len str) \<le> length data" "length lit = 17"
  shows "cp_string_dump str lit = Some (hex_dump 0 (take (nat (cs_len str)) data))"
proof -
  have l: "length (lit[16 := NUL]) = 17" "lit[16 := NUL] ! 16 = NUL" using assms(4) by simp_all
  have w: "wr lit CHARS_PER_LINE NUL = Some (lit[16 := NUL])" using assms(4) by (simp add: CHARS_PER_LINE_def)
  obtain idx' prn' lit' ld out where d: "dump_lines data 0 (nat (cs_len str)) [] (lit[16 := NUL]) True = Some (idx', prn', lit', ld, out)"
    "if ld then out = hex_dump 0 (take (nat (cs_len str)) (drop 0 data))
     else \<exists>t. (do { lit \<leftarrow> wr lit' (idx' mod 16) NUL; prn \<leftarrow> dump_pad idx' prn'; dump_print prn lit }) = Some t \<and>
       out @ t = hex_dump 0 (take (nat (cs_len str)) (drop 0 data))"
    using dump_lines_text [of 0 "nat (cs_len str)" data "lit[16 := NUL]" "[]"] assms(3) l by auto
  show ?thesis
    using d assms(1) unfolding cp_string_dump_def cp_cstring_dump_def w
    by (auto simp: CHARS_PER_LINE_def split: if_splits)
qed

definition demo_string :: cp_string where
  "demo_string = \<lparr>cs_size = 20, cs_len = 17, cs_data = Some ''abcdefghijklmnopq...''\<rparr>"

theorem string_dump_format_witness:
  "cp_string_dump demo_string (replicate 17 (CHR ''#'')) = Some (hex_dump 0 (take (nat (cs_len demo_string)) ''abcdefghijklmnopq...''))"
  by (rule string_dump_format) (simp_all add: demo_string_def)

section \<open>The dump of the logger\<close>

lemma log_bytes_line:
  assumes "0 < rc" "idx + rc \<le> length data" "16 \<le> length lit" "length prn = 10 + 3 * (idx mod 16)"
    "m = min rc (16 - idx mod 16)"
  shows "log_bytes data idx rc prn lit = Some (if m < rc then idx + m else idx + m - 1, rc - m,
    prn @ concat (map hex_byte (take m (drop idx data))),
    take (idx mod 16) lit @ map shown (take m (drop idx data)) @ drop (idx mod 16 + m) lit)"
  using assms
proof (induction rc arbitrary: idx prn lit m)
  case (Suc rc)
  let ?j = "idx mod 16" and ?c = "data ! idx"
  let ?lit = "lit[?j := shown ?c]" and ?prn = "prn @ hex_byte ?c"
  have j: "?j < 16" by simp
  have c: "rd data idx = Some ?c" "drop idx data = ?c # drop (Suc idx) data"
    using Suc.prems(2) by (simp_all add: Cons_nth_drop_Suc)
  have cat: "dump_cat prn (hex_byte ?c) = Some ?prn" using Suc.prems(4) j by (simp add: dump_cat_def LINELEN_def)
  have wr: "wr lit ?j (shown ?c) = Some ?lit" using Suc.prems(3) j by (intro wr_in) linarith
  have head: "log_bytes data idx (Suc rc) prn lit =
      (if rc > 0 then if Suc idx mod 16 \<noteq> 0 then log_bytes data (Suc idx) rc ?prn ?lit else Some (Suc idx, rc, ?prn, ?lit)
       else Some (idx, rc, ?prn, ?lit))"
    using c(1) cat wr by (simp add: CHARS_PER_LINE_def Let_def)
  have lit: "take (Suc ?j) ?lit = take ?j lit @ [shown ?c]"
    using Suc.prems(3) j by (simp add: take_Suc_conv_app_nth)
  have lit1: "take ?j lit @ shown ?c # drop (Suc ?j) lit = ?lit"
    using Suc.prems(3) j by (intro upd_conv_take_nth_drop [symmetric]) linarith
  consider "rc = 0" | "0 < rc" "Suc idx mod 16 = 0" | "0 < rc" "Suc idx mod 16 \<noteq> 0" by blast
  then show ?case
  proof cases
    case 1
    then have "m = 1" using Suc.prems(5) j by simp
    then show ?thesis unfolding head using 1 c(2) lit1 by simp
  next
    case 2
    then have "m = 1" using Suc.prems(5) by (auto simp: mod_Suc split: if_splits)
    then show ?thesis unfolding head using 2 c(2) lit1 by simp
  next
    case 3
    then have s: "Suc idx mod 16 = Suc ?j" by (simp add: mod_Suc split: if_splits)
    define n where "n = min rc (16 - Suc ?j)"
    have "16 - ?j = Suc (16 - Suc ?j)" using j by simp
    then have m: "m = Suc n" unfolding Suc.prems(5) n_def by simp
    have pos: "0 < n" using 3(1) s mod_less_divisor [of 16 "Suc idx"] by (simp add: n_def)
    have "log_bytes data (Suc idx) rc ?prn ?lit = Some (if n < rc then Suc idx + n else Suc idx + n - 1, rc - n,
        ?prn @ concat (map hex_byte (take n (drop (Suc idx) data))),
        take (Suc ?j) ?lit @ map shown (take n (drop (Suc idx) data)) @ drop (Suc ?j + n) ?lit)"
      using Suc.IH [of "Suc idx" ?lit ?prn n] 3 s Suc.prems(2-4) n_def by simp
    then show ?thesis
      unfolding head if_P [OF 3(1)] if_P [OF 3(2)] m c(2) lit using pos by simp
  qed
qed simp

text \<open>A single byte in the last line is printed with what the line before has left in the array, and without filling up the
  line, so that the output is too short.\<close>

lemma cstr_bound: "i < length l \<Longrightarrow> l ! i = NUL \<Longrightarrow> length (cstr l) \<le> i"
  unfolding cstr_def NUL_def by (induction l arbitrary: i) (auto simp: nth_Cons split: nat.splits)

lemma short_line:
  assumes "length lit = 18" "lit ! 16 = NUL"
  shows "\<exists>t. dump_print (hex_offset idx @ hex_byte c) (shown c # drop 1 lit) = Some t \<and> length t < length (hex_line idx [c])"
proof -
  let ?l = "shown c # drop 1 lit"
  have n: "?l ! 16 = NUL" "16 < length ?l" using assms by simp_all
  then have "length (cstr ?l) \<le> 16" by (intro cstr_bound)
  moreover have "NUL \<in> set ?l" using nth_mem [OF n(2)] unfolding n(1) .
  ultimately show ?thesis unfolding dump_print_def hex_line_def by simp
qed

lemma log_lines_text:
  assumes "idx mod 16 = 0" "idx + rc \<le> length data" "length lit = 18" "lit ! 16 = NUL"
  shows "\<exists>idx' prn' lit' line_unfin out. log_lines data idx rc prn lit True = Some (idx', prn', lit', line_unfin, out) \<and>
    (if rc mod 16 = 1 then line_unfin \<and> length out < length (hex_dump idx (take rc (drop idx data)))
     else if line_unfin then out = hex_dump idx (take rc (drop idx data))
     else \<exists>t. (do { c \<leftarrow> rd data idx'; lit \<leftarrow> wr lit' (idx' mod 16) (shown c); lit \<leftarrow> wr lit (idx' mod 16 + 1) NUL;
                 prn \<leftarrow> dump_pad idx' prn'; dump_print prn lit }) = Some t \<and>
       out @ t = hex_dump idx (take rc (drop idx data)))"
  using assms
proof (induction rc arbitrary: idx prn lit rule: less_induct)
  case (less rc)
  show ?case
  proof (cases "rc = 0")
    case True
    then have "log_lines data idx rc prn lit True = Some (idx, prn, lit, True, [])" by (simp add: log_lines.simps)
    then show ?thesis using True by fastforce
  next
    case False
    define m where "m = min rc 16"
    define xs where "xs = take m (drop idx data)"
    have xs: "length xs = m" "xs \<noteq> []" "xs = take 16 (take rc (drop idx data))" "m \<le> 16" "0 < m"
      using less.prems(2) False by (auto simp: xs_def m_def min_def)
    have rest: "drop 16 (take rc (drop idx data)) = take (rc - m) (drop (idx + m) data)"
      by (auto simp: m_def min_def drop_take add.commute)
    have ref: "hex_dump idx (take rc (drop idx data)) = hex_line idx xs @ hex_dump (idx + 16) (drop 16 (take rc (drop idx data)))"
      using xs(2,3) by (metis hex_dump_step take_Nil)
    let ?lit = "map shown xs @ drop m lit" and ?prn = "hex_offset idx @ concat (map hex_byte xs)"
    have b: "log_bytes data idx rc (hex_offset idx) lit = Some (if m < rc then idx + m else idx + m - 1, rc - m, ?prn, ?lit)"
      using log_bytes_line [of rc idx data lit "hex_offset idx" m] less.prems False by (simp add: m_def xs_def)
    have lit: "length ?lit = 18" using xs(1,4) less.prems(3) by simp
    show ?thesis
    proof (cases "m < rc")
      case True
      then have m: "m = 16" by (simp add: m_def)
      have l16: "?lit ! 16 = NUL" using xs(1) m less.prems(3,4) by (simp add: nth_append)
      have d: "drop 16 lit = NUL # drop 17 lit"
        using less.prems(3,4) Cons_nth_drop_Suc [of 16 lit] by simp
      have p: "dump_print ?prn ?lit = Some (hex_line idx xs)"
        using dump_print_line [of ?lit xs "drop 17 lit" ?prn] d m xs(1) by (simp add: hex_line_def)
      have i: "(idx + m) mod 16 = 0" "idx + m + (rc - m) \<le> length data" "rc - m < rc" "(rc - m) mod 16 = rc mod 16"
        using m True less.prems(1,2) by (auto simp: le_mod_geq)
      obtain idx' prn' lit' ld out where l: "log_lines data (idx + m) (rc - m) ?prn ?lit True = Some (idx', prn', lit', ld, out)"
        "if (rc - m) mod 16 = 1 then ld \<and> length out < length (hex_dump (idx + m) (take (rc - m) (drop (idx + m) data)))
         else if ld then out = hex_dump (idx + m) (take (rc - m) (drop (idx + m) data))
         else \<exists>t. (do { c \<leftarrow> rd data idx'; lit \<leftarrow> wr lit' (idx' mod 16) (shown c); lit \<leftarrow> wr lit (idx' mod 16 + 1) NUL;
                 prn \<leftarrow> dump_pad idx' prn'; dump_print prn lit }) = Some t \<and>
           out @ t = hex_dump (idx + m) (take (rc - m) (drop (idx + m) data))"
        using less.IH [OF i(3,1,2) lit l16, of ?prn] by blast
      have call: "log_lines data idx rc prn lit True = Some (idx', prn', lit', ld, hex_line idx xs @ out)"
        using False b True i(1) p l(1) by (simp add: log_lines.simps [of data idx] CHARS_PER_LINE_def)
      show ?thesis
        using l(2) m unfolding call ref rest i(4) by (auto split: if_splits)
    next
      case last: False
      then have m: "m = rc" "rc \<le> 16" by (auto simp: m_def min_def split: if_splits)
      have eq: "hex_dump idx (take rc (drop idx data)) = hex_line idx xs" unfolding ref using m by simp
      have i: "(idx + m - 1) mod 16 = m - 1"
      proof -
        have "idx + m - 1 = m - 1 + idx" using xs(5) by simp
        then show ?thesis using less.prems(1) xs(4,5) mod_add_right_eq [of "m - 1" idx 16] by simp
      qed
      show ?thesis
      proof (cases "m = 1")
        case True
        obtain x where x: "xs = [x]" using xs(1) True by (cases xs) auto
        obtain t where t: "dump_print ?prn ?lit = Some t" "length t < length (hex_line idx xs)"
          using short_line [OF less.prems(3,4), of idx x] x True by auto
        have call: "log_lines data idx rc prn lit True = Some (idx, ?prn, ?lit, True, t)"
          using False b last m True less.prems(1) t(1) by (simp add: log_lines.simps [of data] CHARS_PER_LINE_def)
        show ?thesis using m(1) True t(2) unfolding call eq by fastforce
      next
        case more: False
        let ?i = "idx + m - 1"
        have call: "log_lines data idx rc prn lit True = Some (?i, ?prn, ?lit, False, [])"
          using False b last m i more xs(5) by (simp add: log_lines.simps [of data] CHARS_PER_LINE_def)
        have c: "rd data ?i = Some (last xs)"
          using less.prems(2) m xs(1,2,5) by (simp add: xs_def last_conv_nth add.commute)
        have "?lit ! (m - 1) = shown (last xs)"
          using xs(1,2,5) by (simp add: nth_append last_conv_nth)
        then have w1: "wr ?lit (m - 1) (shown (last xs)) = Some ?lit"
          using lit xs(4,5) list_update_id [of ?lit "m - 1"] by simp
        have w2: "wr ?lit (m - 1 + 1) NUL = Some (map shown xs @ NUL # drop (Suc m) lit)"
          using xs(1,4,5) less.prems(3) by (simp add: list_update_append Cons_nth_drop_Suc [symmetric])
        have pad: "dump_pad ?i ?prn = Some (?prn @ replicate (3 * (15 - (m - 1))) (CHR '' ''))"
          by (rule dump_pad_blanks) (use i xs(1,4,5) in auto)
        have "15 - (m - 1) = 16 - m" using xs(5) by simp
        then have p: "dump_print (?prn @ replicate (3 * (15 - (m - 1))) (CHR '' '')) (map shown xs @ NUL # drop (Suc m) lit) = Some (hex_line idx xs)"
          using dump_print_line [OF refl, of "?prn @ replicate (3 * (15 - (m - 1))) (CHR '' '')" xs] xs(1) by (simp add: hex_line_def)
        have tail: "(do { c \<leftarrow> rd data ?i; lit \<leftarrow> wr ?lit (?i mod 16) (shown c); lit \<leftarrow> wr lit (?i mod 16 + 1) NUL;
                 prn \<leftarrow> dump_pad ?i ?prn; dump_print prn lit }) = Some (hex_line idx xs)"
          unfolding c Option.bind.bind_lunit i w1 w2 pad by (rule p)
        have nm: "rc mod 16 \<noteq> 1" using more m xs(5) by (cases "rc = 16") auto
        show ?thesis
          unfolding call eq if_not_P [OF nm] by (intro exI conjI, rule refl) (simp only: tail if_False append_Nil, blast)
      qed
    qed
  qed
qed



end
