(* ===== verification/Logger.thy ===== *)
theory Logger
  imports HexDump "HOL-Library.Sublist"
begin

text \<open>
  The logger (\<open>cp_library/cp_logger.c\<close>): one log, in a file that is copied away when it has grown to its limit, or on
  the error output. The state is the logger object, the limit, the files and the error output. A stream to a file has the text
  that stdio still holds back. A formatted text, the time and the thread are arguments.
\<close>

section \<open>State\<close>

definition FILENAME_LEN :: nat where "FILENAME_LEN = 64"
definition LOG_ROLLBACK_NONE :: nat where "LOG_ROLLBACK_NONE = 0"
definition DBG_LOG_FILE :: string where "DBG_LOG_FILE = ''console''"
definition MAX_LOG_MESSAGE_LEN :: nat where "MAX_LOG_MESSAGE_LEN = 0x1000"
definition LOG_VERSION_STR :: string where "LOG_VERSION_STR = ''1.0.0''"
definition LOG_LEVEL_FATAL :: int where "LOG_LEVEL_FATAL = 1"
definition CP_LOGGER_MALLOC :: u8 where "CP_LOGGER_MALLOC = 1"
definition CP_LOGGER_ARGUMENT :: u8 where "CP_LOGGER_ARGUMENT = 0"
definition CP_LOGGER_CONSOLE :: u8 where "CP_LOGGER_CONSOLE = 2"

definition log_str :: "string list" where
  "log_str = [[], ''F'', ''E'', ''W'', ''N'', ''D'', ''I'', ''T'', ''M'']"

definition level_str :: "int \<Rightarrow> string option" where
  "level_str level = (if level < 0 then None else rd log_str (nat level))"

datatype stream = FP_NULL | FP_STDERR | FP_FILE (held: string)

record cp_logger =
  lg_flag :: u8
  lg_file :: string
  lg_level :: int
  lg_size :: int
  lg_fp :: stream

text \<open>\<open>None\<close> as the error output: it has been closed.\<close>

record log_state =
  logger :: "cp_logger option"
  log_rollback_size :: nat
  log_files :: "string \<rightharpoonup> string"
  log_stderr :: "string option"
  log_handler :: bool

text \<open>What lies outside: how much of its text stdio writes out by itself, what a shell command does to the files, and whether
  a file can be opened for appending.\<close>

record log_env =
  le_spill :: "string \<Rightarrow> nat"
  le_shell :: "string \<Rightarrow> (string \<rightharpoonup> string) \<Rightarrow> string \<rightharpoonup> string"
  le_opens :: "string \<Rightarrow> bool"

record log_stamp =
  ls_time :: string
  ls_usec :: nat
  ls_tid :: nat

text \<open>The array \<open>file\<close> is a string only if it has room for the end.\<close>

definition log_name :: "cp_logger \<Rightarrow> string option" where
  "log_name l = (if length (lg_file l) < FILENAME_LEN then Some (lg_file l) else None)"

definition file_text :: "log_state \<Rightarrow> string \<Rightarrow> string" where
  "file_text st f = (case log_files st f of None \<Rightarrow> [] | Some t \<Rightarrow> t)"

definition set_fp :: "stream \<Rightarrow> log_state \<Rightarrow> log_state" where
  "set_fp fp st = st\<lparr>logger := map_option (\<lambda>l. l\<lparr>lg_fp := fp\<rparr>) (logger st)\<rparr>"

section \<open>Writing\<close>

definition fp_write :: "log_env \<Rightarrow> string \<Rightarrow> log_state \<Rightarrow> log_state option" where
  "fp_write env s st = do {
     l \<leftarrow> logger st;
     case lg_fp l of
       FP_NULL \<Rightarrow> None
     | FP_STDERR \<Rightarrow> do { t \<leftarrow> log_stderr st; Some (st\<lparr>log_stderr := Some (t @ s)\<rparr>) }
     | FP_FILE b \<Rightarrow>
         let n = le_spill env (b @ s)
         in Some (set_fp (FP_FILE (drop n (b @ s))) (st\<lparr>log_files := (log_files st)(lg_file l \<mapsto> file_text st (lg_file l) @ take n (b @ s))\<rparr>)) }"

definition fp_flush :: "log_state \<Rightarrow> log_state option" where
  "fp_flush st = do {
     l \<leftarrow> logger st;
     case lg_fp l of
       FP_NULL \<Rightarrow> Some st
     | FP_STDERR \<Rightarrow> do { t \<leftarrow> log_stderr st; Some st }
     | FP_FILE b \<Rightarrow> Some (set_fp (FP_FILE []) (st\<lparr>log_files := (log_files st)(lg_file l \<mapsto> file_text st (lg_file l) @ b)\<rparr>)) }"

definition zpad :: "nat \<Rightarrow> nat \<Rightarrow> string" where
  "zpad w n = replicate (w - length (udec 10 n)) (CHR ''0'') @ udec 10 n"

definition nl :: string where "nl = [CHR 0x0A]"
definition dq :: string where "dq = [CHR 0x22]"

definition banner_line :: "string \<Rightarrow> string \<Rightarrow> string \<Rightarrow> nat \<Rightarrow> string" where
  "banner_line prefix' name level limit =
     prefix' @ '' log '' @ dq @ name @ dq @ '' on level ['' @ level @ ''] size ['' @ udec 10 (limit div 1024) @
     ''], log system version '' @ LOG_VERSION_STR @ nl"

definition banner_head :: string where
  "banner_head = '' [Date]    [Time]   [Level] [PID/TID] [File/Line]  [Content]'' @ nl"

definition banner_rule :: string where
  "banner_rule = replicate 61 (CHR ''-'') @ nl"

definition log_banner :: "log_env \<Rightarrow> string \<Rightarrow> log_state \<Rightarrow> log_state option" where
  "log_banner env prefix' st =
     (case logger st of
        None \<Rightarrow> Some st
      | Some l \<Rightarrow> do {
          name \<leftarrow> log_name l;
          level \<leftarrow> level_str (lg_level l);
          st \<leftarrow> fp_write env (banner_line prefix' name level (log_rollback_size st)) st;
          st \<leftarrow> fp_write env banner_head st;
          fp_write env banner_rule st })"

definition roll_cmd :: "string \<Rightarrow> string" where
  "roll_cmd name = take 511 (''cp -f '' @ name @ '' '' @ name @ ''.roll'')"

text \<open>The offset of a stream that appends is the size of the file with the text held back; the error output has none. \<open>fseek\<close>
  writes out what is held back before the file is cut.\<close>

definition check_and_rollback :: "log_env \<Rightarrow> log_state \<Rightarrow> log_state option" where
  "check_and_rollback env st =
     (case logger st of
        None \<Rightarrow> Some st
      | Some l \<Rightarrow>
          if log_rollback_size st \<noteq> LOG_ROLLBACK_NONE
          then case lg_fp l of
                 FP_NULL \<Rightarrow> None
               | FP_STDERR \<Rightarrow> Some st
               | FP_FILE b \<Rightarrow>
                   if length (file_text st (lg_file l)) + length b \<ge> log_rollback_size st
                   then do {
                     name \<leftarrow> log_name l;
                     let st = st\<lparr>log_files := le_shell env (roll_cmd name) (log_files st)\<rparr>;
                     st \<leftarrow> fp_flush st;
                     let st = st\<lparr>log_files := (log_files st)(name \<mapsto> [])\<rparr>;
                     log_banner env ''Already rollback'' st }
                   else Some st
          else Some st)"

definition cp_log_raw :: "log_env \<Rightarrow> string \<Rightarrow> log_state \<Rightarrow> log_state option" where
  "cp_log_raw env text' st =
     (case logger st of
        None \<Rightarrow> Some st
      | Some l \<Rightarrow>
          if lg_fp l = FP_NULL then Some st
          else do { st \<leftarrow> check_and_rollback env st; fp_write env text' st })"

text \<open>The common part of \<open>cp_printout\<close> and \<open>cp_printout_line\<close>, with the formatted record.\<close>

definition printout :: "log_env \<Rightarrow> string \<Rightarrow> log_state \<Rightarrow> log_state option" where
  "printout env entry st = do {
     st \<leftarrow> check_and_rollback env st;
     l \<leftarrow> logger st;
     if lg_fp l \<noteq> FP_NULL
     then do { st \<leftarrow> fp_write env entry st; fp_flush st }
     else Some st }"

definition entry_head :: "log_stamp \<Rightarrow> string \<Rightarrow> string" where
  "entry_head now level =
     ls_time now @ ''.'' @ zpad 3 (ls_usec now div 1000) @ '' ['' @ level @ ''] ['' @ zpad 6 (ls_tid now) @ '']''"

definition cp_printout :: "log_env \<Rightarrow> log_stamp \<Rightarrow> string \<Rightarrow> string \<Rightarrow> log_state \<Rightarrow> log_state option" where
  "cp_printout env now level text' st =
     (if logger st = None then Some st
      else printout env (entry_head now level @ '': '' @ take (MAX_LOG_MESSAGE_LEN - 1) text') st)"

definition cp_printout_line ::
  "log_env \<Rightarrow> log_stamp \<Rightarrow> string \<Rightarrow> string \<Rightarrow> string \<Rightarrow> nat \<Rightarrow> log_state \<Rightarrow> log_state option" where
  "cp_printout_line env now level text' src line st =
     (if logger st = None then Some st
      else printout env (entry_head now level @ '' ('' @ src @ '' ['' @ zpad 4 line @ '']) : '' @ take (MAX_LOG_MESSAGE_LEN - 1) text') st)"

definition cp_log :: "log_env \<Rightarrow> log_stamp \<Rightarrow> int \<Rightarrow> string \<Rightarrow> log_state \<Rightarrow> log_state option" where
  "cp_log env now level text' st =
     (case logger st of
        None \<Rightarrow> Some st
      | Some l \<Rightarrow>
          if level > lg_level l then Some st
          else do { s \<leftarrow> level_str level; cp_printout env now s text' st })"

definition cp_log_line ::
  "log_env \<Rightarrow> log_stamp \<Rightarrow> int \<Rightarrow> string \<Rightarrow> nat \<Rightarrow> string \<Rightarrow> log_state \<Rightarrow> log_state option" where
  "cp_log_line env now level src line text' st =
     (case logger st of
        None \<Rightarrow> Some st
      | Some l \<Rightarrow>
          if level > lg_level l then Some st
          else do { s \<leftarrow> level_str level; cp_printout_line env now s text' src line st })"

text \<open>The dump goes to the stream without a check of the size.\<close>

definition cp_log_dump :: "log_env \<Rightarrow> int \<Rightarrow> char list \<Rightarrow> int \<Rightarrow> char list \<Rightarrow> log_state \<Rightarrow> log_state option" where
  "cp_log_dump env level buf len lit st =
     (case logger st of
        None \<Rightarrow> Some st
      | Some l \<Rightarrow>
          if level > lg_level l then Some st
          else do {
            out \<leftarrow> log_dump buf len lit;
            if lg_fp l = FP_NULL then Some st else fp_write env out st })"

section \<open>Opening and closing\<close>

text \<open>\<open>given\<close> says that the caller passes an object. The block is cleared before it is compared with \<open>NULL\<close>.\<close>

definition cp_log_init :: "bool \<Rightarrow> bool \<Rightarrow> string \<Rightarrow> int \<Rightarrow> int \<Rightarrow> log_state \<Rightarrow> log_state option" where
  "cp_log_init given mem filename level log_size st =
     (if \<not> given \<and> \<not> mem then None
      else Some (st\<lparr>logger := Some
             \<lparr>lg_flag = (if given then CP_LOGGER_ARGUMENT else CP_LOGGER_MALLOC), lg_file = take FILENAME_LEN filename,
              lg_level = level, lg_size = log_size, lg_fp = FP_NULL\<rparr>\<rparr>))"

text \<open>The test for an empty name compares the address of the array, which is never 0. The product is one of \<open>int\<close>.\<close>

definition cp_log_open :: "log_env \<Rightarrow> log_state \<Rightarrow> (int \<times> log_state) option" where
  "cp_log_open env st =
     (case logger st of
        None \<Rightarrow> Some (- 1, st)
      | Some l \<Rightarrow>
          if lg_size l * 1024 \<ge> 2 ^ 31 then None
          else do {
            let st = st\<lparr>log_rollback_size := (if lg_size l \<le> 0 then LOG_ROLLBACK_NONE else nat (lg_size l * 1024))\<rparr>;
            name \<leftarrow> log_name l;
            if name = DBG_LOG_FILE
            then do {
              st \<leftarrow> log_banner env ''Initialize''
                 (st\<lparr>logger := Some (l\<lparr>lg_fp := FP_STDERR, lg_flag := lg_flag l OR CP_LOGGER_CONSOLE\<rparr>),
                     log_rollback_size := LOG_ROLLBACK_NONE\<rparr>);
              Some (0, st) }
            else if \<not> le_opens env name then Some (- 2, set_fp FP_NULL st)
            else do {
              st \<leftarrow> log_banner env ''Initialize''
                 ((set_fp (FP_FILE []) st)\<lparr>log_files := (log_files st)(name \<mapsto> file_text st name), log_handler := True\<rparr>);
              Some (0, st) } })"

definition cp_log_close :: "log_env \<Rightarrow> log_state \<Rightarrow> log_state option" where
  "cp_log_close env st =
     (case logger st of
        None \<Rightarrow> Some st
      | Some l \<Rightarrow>
          if lg_fp l = FP_NULL then Some st
          else do {
            st \<leftarrow> log_banner env (nl @ ''Terminate'') st;
            st \<leftarrow> cp_log_raw env (nl @ nl @ nl @ nl) st;
            st \<leftarrow> fp_flush st;
            Some (set_fp FP_NULL (if lg_fp l = FP_STDERR then st\<lparr>log_stderr := None\<rparr> else st)) })"

definition cp_log_reopen :: "log_env \<Rightarrow> log_state \<Rightarrow> (int \<times> log_state) option" where
  "cp_log_reopen env st =
     (case logger st of
        None \<Rightarrow> Some (- 1, st)
      | Some l \<Rightarrow>
          if lg_flag l AND CP_LOGGER_CONSOLE \<noteq> 0
          then do { st \<leftarrow> fp_flush st; Some (0, set_fp FP_STDERR st) }
          else if lg_fp l \<noteq> FP_NULL
          then do {
            st \<leftarrow> cp_log_close env st;
            name \<leftarrow> log_name l;
            if \<not> le_opens env name then Some (- 2, st)
            else do {
              st \<leftarrow> log_banner env (nl @ ''Reopen'')
                 ((set_fp (FP_FILE []) st)\<lparr>log_files := (log_files st)(name \<mapsto> file_text st name)\<rparr>);
              Some (0, st) } }
          else Some (- 3, st))"

definition cp_log_term :: "log_env \<Rightarrow> log_state \<Rightarrow> log_state option" where
  "cp_log_term env st =
     (if logger st = None then Some st
      else do { st \<leftarrow> cp_log_close env st; Some (st\<lparr>logger := None\<rparr>) })"

text \<open>\<open>SIGHUP\<close>; the handler stays installed.\<close>

definition SIGHUP :: int where "SIGHUP = 1"

definition cp_log_default_signal_handler :: "log_env \<Rightarrow> log_stamp \<Rightarrow> string \<Rightarrow> int \<Rightarrow> log_state \<Rightarrow> log_state option" where
  "cp_log_default_signal_handler env now src sig st =
     (case logger st of
        None \<Rightarrow> Some st
      | Some l \<Rightarrow>
          if sig = SIGHUP
          then do {
            name \<leftarrow> log_name l;
            st \<leftarrow> cp_log_line env now LOG_LEVEL_FATAL src 40
                 (''SIGHUP received - reopenning log file ['' @ name @ '']'') (st\<lparr>log_handler := True\<rparr>);
            (rv, st) \<leftarrow> cp_log_reopen env st;
            Some st }
          else Some st)"

section \<open>A log in a file\<close>

definition on_file :: "cp_logger \<Rightarrow> log_state \<Rightarrow> string \<Rightarrow> string \<Rightarrow> log_state" where
  "on_file l st b c = st\<lparr>logger := Some (l\<lparr>lg_fp := FP_FILE b\<rparr>), log_files := (log_files st)(lg_file l \<mapsto> c)\<rparr>"

definition log_ready :: "log_state \<Rightarrow> cp_logger \<Rightarrow> string \<Rightarrow> string \<Rightarrow> bool" where
  "log_ready st l b c \<longleftrightarrow> logger st = Some l \<and> lg_fp l = FP_FILE b \<and> log_files st (lg_file l) = Some c \<and>
     length (lg_file l) < FILENAME_LEN \<and> level_str (lg_level l) \<noteq> None"

text \<open>The command does what \<open>cp\<close> does: the name has no characters that mean something to the shell.\<close>

definition roll_copies :: "log_env \<Rightarrow> string \<Rightarrow> bool" where
  "roll_copies env name \<longleftrightarrow> (\<forall>fs. fs name \<noteq> None \<longrightarrow> le_shell env (roll_cmd name) fs = fs(name @ ''.roll'' := fs name))"

definition banner :: "string \<Rightarrow> cp_logger \<Rightarrow> nat \<Rightarrow> string" where
  "banner prefix' l limit =
     banner_line prefix' (lg_file l) (case level_str (lg_level l) of None \<Rightarrow> [] | Some s \<Rightarrow> s) limit @ banner_head @ banner_rule"

lemma on_file_sel [simp]:
  "logger (on_file l st b c) = Some (l\<lparr>lg_fp := FP_FILE b\<rparr>)"
  "log_files (on_file l st b c) = (log_files st)(lg_file l \<mapsto> c)"
  "log_rollback_size (on_file l st b c) = log_rollback_size st"
  "on_file (l\<lparr>lg_fp := fp\<rparr>) st b c = on_file l st b c"
  "file_text (on_file l st b c) (lg_file l) = c"
  by (simp_all add: on_file_def file_text_def)

lemma ready_on_file: "log_ready st l b c \<Longrightarrow> st = on_file l st b c"
  by (cases st, cases l) (auto simp: log_ready_def on_file_def)

lemma on_file_ready:
  "log_ready st l b c \<Longrightarrow> log_ready (on_file l st' b' c') (l\<lparr>lg_fp := FP_FILE b'\<rparr>) b' c'"
  by (simp add: log_ready_def)

lemma fp_write_on:
  obtains b' c' where "c' @ b' = c @ b @ s" "fp_write env s (on_file l st b c) = Some (on_file l st b' c')"
proof (rule that)
  let ?n = "le_spill env (b @ s)"
  show "(c @ take ?n (b @ s)) @ drop ?n (b @ s) = c @ b @ s" by (simp only: append_assoc append_take_drop_id)
  show "fp_write env s (on_file l st b c) = Some (on_file l st (drop ?n (b @ s)) (c @ take ?n (b @ s)))"
    by (simp add: fp_write_def Let_def set_fp_def) (simp add: on_file_def del: take_append drop_append)
qed

lemma fp_flush_on: "fp_flush (on_file l st b c) = Some (on_file l st [] (c @ b))"
  by (simp add: fp_flush_def set_fp_def) (simp add: on_file_def)

lemma banner_on:
  assumes "length (lg_file l) < FILENAME_LEN" "level_str (lg_level l) \<noteq> None"
  obtains b' c' where "c' @ b' = c @ b @ banner p l (log_rollback_size st)"
    "log_banner env p (on_file l st b c) = Some (on_file l st b' c')"
proof -
  obtain v where v: "level_str (lg_level l) = Some v" using assms(2) by auto
  obtain b1 c1 where w1: "c1 @ b1 = c @ b @ banner_line p (lg_file l) v (log_rollback_size st)"
    "fp_write env (banner_line p (lg_file l) v (log_rollback_size st)) (on_file l st b c) = Some (on_file l st b1 c1)"
    by (rule fp_write_on)
  obtain b2 c2 where w2: "c2 @ b2 = c1 @ b1 @ banner_head" "fp_write env banner_head (on_file l st b1 c1) = Some (on_file l st b2 c2)"
    by (rule fp_write_on)
  obtain b3 c3 where w3: "c3 @ b3 = c2 @ b2 @ banner_rule" "fp_write env banner_rule (on_file l st b2 c2) = Some (on_file l st b3 c3)"
    by (rule fp_write_on)
  have "c3 @ b3 = ((c1 @ b1) @ banner_head) @ banner_rule" unfolding w3(1) using w2(1) by simp
  then have t: "c3 @ b3 = c @ b @ banner p l (log_rollback_size st)" unfolding w1(1) by (simp add: banner_def v)
  have "log_banner env p (on_file l st b c) = Some (on_file l st b3 c3)"
    using assms(1) v w1(2) w2(2) w3(2) by (simp add: log_banner_def log_name_def)
  then show thesis using t that by blast
qed

text \<open>Whether the next message finds the file full.\<close>

definition rolls :: "log_state \<Rightarrow> string \<Rightarrow> string \<Rightarrow> bool" where
  "rolls st b c \<longleftrightarrow> log_rollback_size st \<noteq> 0 \<and> log_rollback_size st \<le> length c + length b"

definition archived :: "cp_logger \<Rightarrow> string \<Rightarrow> log_state \<Rightarrow> log_state" where
  "archived l c st = st\<lparr>log_files := (log_files st)(lg_file l @ ''.roll'' \<mapsto> c)\<rparr>"

lemma archived_sel [simp]: "log_rollback_size (archived l c st) = log_rollback_size st"
  by (simp add: archived_def)

lemma check_on:
  assumes "length (lg_file l) < FILENAME_LEN" "level_str (lg_level l) \<noteq> None" "roll_copies env (lg_file l)"
  obtains b' c' where
    "c' @ b' = (if rolls st b c then banner ''Already rollback'' l (log_rollback_size st) else c @ b)"
    "check_and_rollback env (on_file l st b c) = Some (on_file l (if rolls st b c then archived l c st else st) b' c')"
proof (cases "rolls st b c")
  case False
  then have "check_and_rollback env (on_file l st b c) = Some (on_file l st b c)"
    by (auto simp: check_and_rollback_def rolls_def LOG_ROLLBACK_NONE_def)
  then show thesis using that [of c b] False by simp
next
  case True
  let ?st = "archived l c st"
  have shell: "le_shell env (roll_cmd (lg_file l)) ((log_files st)(lg_file l \<mapsto> c)) = (log_files ?st)(lg_file l \<mapsto> c)"
    using assms(3) by (simp add: roll_copies_def archived_def fun_upd_twist)
  have on: "(on_file l st b c)\<lparr>log_files := (log_files ?st)(lg_file l \<mapsto> c)\<rparr> = on_file l ?st b c"
    by (simp add: on_file_def archived_def)
  have cut: "(on_file l ?st [] (c @ b))\<lparr>log_files := (log_files ?st)(lg_file l \<mapsto> [])\<rparr> = on_file l ?st [] []"
    by (simp add: on_file_def)
  obtain b' c' where w: "c' @ b' = [] @ [] @ banner ''Already rollback'' l (log_rollback_size ?st)"
    "log_banner env ''Already rollback'' (on_file l ?st [] []) = Some (on_file l ?st b' c')"
    using assms(1,2) by (rule banner_on)
  have nm: "log_name (l\<lparr>lg_fp := FP_FILE b\<rparr>) = Some (lg_file l)" using assms(1) by (simp add: log_name_def)
  have "check_and_rollback env (on_file l st b c) = Some (on_file l ?st b' c')"
    using True unfolding check_and_rollback_def on_file_sel option.case
    by (simp add: nm shell on fp_flush_on w(2) cut rolls_def LOG_ROLLBACK_NONE_def Let_def)
  then show thesis using that [of c' b'] True w(1) by simp
qed

lemma printout_on:
  assumes "length (lg_file l) < FILENAME_LEN" "level_str (lg_level l) \<noteq> None" "roll_copies env (lg_file l)"
  shows "printout env s (on_file l st b c) =
    Some (if rolls st b c then on_file l (archived l c st) [] (banner ''Already rollback'' l (log_rollback_size st) @ s)
          else on_file l st [] (c @ b @ s))"
proof -
  obtain b1 c1 where w1: "c1 @ b1 = (if rolls st b c then banner ''Already rollback'' l (log_rollback_size st) else c @ b)"
    "check_and_rollback env (on_file l st b c) = Some (on_file l (if rolls st b c then archived l c st else st) b1 c1)"
    using assms by (rule check_on)
  let ?st = "if rolls st b c then archived l c st else st"
  obtain b2 c2 where w2: "c2 @ b2 = c1 @ b1 @ s" "fp_write env s (on_file l ?st b1 c1) = Some (on_file l ?st b2 c2)"
    by (rule fp_write_on)
  have "printout env s (on_file l st b c) = Some (on_file l ?st [] (c2 @ b2))"
    unfolding printout_def w1(2) Option.bind.bind_lunit on_file_sel using w2(2) by (simp add: fp_flush_on)
  moreover have "c2 @ b2 = (c1 @ b1) @ s" using w2(1) by simp
  ultimately show ?thesis unfolding w1(1) by simp
qed

definition line_entry :: "log_stamp \<Rightarrow> string \<Rightarrow> string \<Rightarrow> nat \<Rightarrow> string \<Rightarrow> string" where
  "line_entry now level src line text' =
     entry_head now level @ '' ('' @ src @ '' ['' @ zpad 4 line @ '']) : '' @ take (MAX_LOG_MESSAGE_LEN - 1) text'"

lemma log_line_on:
  assumes "log_ready st l b c" "roll_copies env (lg_file l)" "level \<le> lg_level l" "level_str level = Some v"
  shows "cp_log_line env now level src line text' st =
    Some (if rolls st b c
          then on_file l (archived l c st) [] (banner ''Already rollback'' l (log_rollback_size st) @ line_entry now v src line text')
          else on_file l st [] (c @ b @ line_entry now v src line text'))"
proof -
  have p: "length (lg_file l) < FILENAME_LEN" "level_str (lg_level l) \<noteq> None" "logger st = Some l"
    using assms(1) by (simp_all add: log_ready_def)
  note po = printout_on [OF p(1,2) assms(2), of "line_entry now v src line text'" st b c, folded ready_on_file [OF assms(1)]]
  show ?thesis using assms(3,4) p(3) po by (simp add: cp_log_line_def cp_printout_line_def line_entry_def)
qed

lemma log_line_filtered: "log_ready st l b c \<Longrightarrow> level > lg_level l \<Longrightarrow> cp_log_line env now level src line text' st = Some st"
  by (simp add: cp_log_line_def log_ready_def)

record log_msg =
  msg_now :: log_stamp
  msg_level :: int
  msg_src :: string
  msg_line :: nat
  msg_text :: string

text \<open>A sequence of messages.\<close>

fun log_all :: "log_env \<Rightarrow> log_msg list \<Rightarrow> log_state \<Rightarrow> log_state option" where
  "log_all env [] st = Some st"
| "log_all env (m # ms) st = do {
     st \<leftarrow> cp_log_line env (msg_now m) (msg_level m) (msg_src m) (msg_line m) (msg_text m) st;
     log_all env ms st }"

text \<open>The level of a message that is written has a letter, and its entry has at most \<open>n\<close> characters.\<close>

definition msg_fits :: "nat \<Rightarrow> cp_logger \<Rightarrow> log_msg \<Rightarrow> bool" where
  "msg_fits n l m \<longleftrightarrow> msg_level m > lg_level l \<or>
     (case level_str (msg_level m) of None \<Rightarrow> False
      | Some v \<Rightarrow> length (line_entry (msg_now m) v (msg_src m) (msg_line m) (msg_text m)) \<le> n)"

lemma msg_fits_fp [simp]: "msg_fits n (l\<lparr>lg_fp := fp\<rparr>) m = msg_fits n l m"
  by (simp add: msg_fits_def)

lemma log_all_on:
  assumes "log_ready st l b c" "roll_copies env (lg_file l)" "\<forall>m\<in>set ms. msg_fits n l m"
    "log_rollback_size st = r" "r \<noteq> 0" "length (banner ''Already rollback'' l r) < r" "length c + length b < r + n"
  shows "\<exists>st' b' c'. log_all env ms st = Some st' \<and> log_ready st' (l\<lparr>lg_fp := FP_FILE b'\<rparr>) b' c' \<and>
    log_rollback_size st' = r \<and> length c' + length b' < r + n"
  using assms
proof (induction ms arbitrary: st l b c)
  case Nil
  have "l\<lparr>lg_fp := FP_FILE b\<rparr> = l" using Nil(1) by (cases l) (simp add: log_ready_def)
  then show ?case using Nil by (intro exI [of _ st] exI [of _ b] exI [of _ c]) simp
next
  case (Cons m ms)
  let ?e = "\<lambda>v. line_entry (msg_now m) v (msg_src m) (msg_line m) (msg_text m)"
  have rest: "\<forall>m\<in>set ms. msg_fits n l m" "msg_fits n l m" using Cons.prems(3) by auto
  show ?case
  proof (cases "msg_level m > lg_level l")
    case True
    then show ?thesis using Cons.IH [OF Cons.prems(1,2) rest(1) Cons.prems(4-7)] log_line_filtered [OF Cons.prems(1)] by simp
  next
    case False
    then obtain v where v: "level_str (msg_level m) = Some v" "length (?e v) \<le> n" "msg_level m \<le> lg_level l"
      using rest(2) by (auto simp: msg_fits_def split: option.splits)
    let ?st = "if rolls st b c then archived l c st else st"
    let ?c = "if rolls st b c then banner ''Already rollback'' l r @ ?e v else c @ b @ ?e v"
    have call: "cp_log_line env (msg_now m) (msg_level m) (msg_src m) (msg_line m) (msg_text m) st = Some (on_file l ?st [] ?c)"
      unfolding log_line_on [OF Cons.prems(1,2) v(3,1)] Cons.prems(4) by simp
    have bound: "length ?c + length [] < r + n" using Cons.prems(4-6) v(2) by (auto simp: rolls_def)
    have "log_ready (on_file l ?st [] ?c) (l\<lparr>lg_fp := FP_FILE []\<rparr>) [] ?c" by (rule on_file_ready [OF Cons.prems(1)])
    then have "\<exists>st' b' c'. log_all env ms (on_file l ?st [] ?c) = Some st' \<and>
        log_ready st' (l\<lparr>lg_fp := FP_FILE []\<rparr>\<lparr>lg_fp := FP_FILE b'\<rparr>) b' c' \<and> log_rollback_size st' = r \<and> length c' + length b' < r + n"
      by (rule Cons.IH) (use Cons.prems(2,4-6) rest(1) bound in \<open>simp_all add: banner_def\<close>)
    then show ?thesis using call by simp
  qed
qed

section \<open>Properties\<close>


definition demo_shell :: "string \<Rightarrow> (string \<rightharpoonup> string) \<Rightarrow> string \<rightharpoonup> string" where
  "demo_shell cmd fs = (if cmd = roll_cmd ''gps.log'' then fs(''gps.log.roll'' := fs ''gps.log'') else fs)"

definition demo_env :: log_env where
  "demo_env = \<lparr>le_spill = (\<lambda>t. 0), le_shell = demo_shell, le_opens = (\<lambda>f. f \<noteq> ''/ro/gps.log'')\<rparr>"

definition demo_logger :: "string \<Rightarrow> cp_logger" where
  "demo_logger b = \<lparr>lg_flag = 1, lg_file = ''gps.log'', lg_level = 4, lg_size = 1, lg_fp = FP_FILE b\<rparr>"

definition demo_log :: "string \<Rightarrow> string \<Rightarrow> log_state" where
  "demo_log b c = \<lparr>logger = Some (demo_logger b), log_rollback_size = 1024, log_files = [''gps.log'' \<mapsto> c],
     log_stderr = Some [], log_handler = True\<rparr>"

definition demo_now :: log_stamp where "demo_now = \<lparr>ls_time = ''2012-08-08 16:24:01'', ls_usec = 5000, ls_tid = 42\<rparr>"

lemma demo_ready: "log_ready (demo_log b c) (demo_logger b) b c"
proof -
  have "level_str 4 = Some ''N''" by code_simp
  then show ?thesis by (simp add: log_ready_def demo_log_def demo_logger_def FILENAME_LEN_def)
qed

lemma demo_copies: "roll_copies demo_env (lg_file (demo_logger b))"
  by (simp add: roll_copies_def demo_env_def demo_shell_def demo_logger_def)


text \<open>However many messages come, the file never has more than its limit and one entry.\<close>

theorem log_size_bounded:
  assumes "log_ready st l b c" "roll_copies env (lg_file l)" "\<forall>m\<in>set ms. msg_fits n l m"
    "log_rollback_size st \<noteq> 0" "length (banner ''Already rollback'' l (log_rollback_size st)) < log_rollback_size st"
    "length c + length b < log_rollback_size st + n"
  shows "\<exists>st'. log_all env ms st = Some st' \<and> length (file_text st' (lg_file l)) < log_rollback_size st + n"
proof -
  obtain st' b' c' where "log_all env ms st = Some st'" "log_ready st' (l\<lparr>lg_fp := FP_FILE b'\<rparr>) b' c'"
    "length c' + length b' < log_rollback_size st + n"
    using log_all_on [OF assms(1-3) refl assms(4-6)] by (elim exE conjE)
  then show ?thesis by (intro exI [of _ st']) (simp add: log_ready_def file_text_def)
qed

definition demo_msg :: log_msg where
  "demo_msg = \<lparr>msg_now = demo_now, msg_level = 2, msg_src = ''a.c'', msg_line = 7, msg_text = ''no fix''\<rparr>"

theorem log_size_bounded_witness:
  "\<exists>st'. log_all demo_env (replicate 100 demo_msg) (demo_log [] []) = Some st' \<and> length (file_text st' ''gps.log'') < 1024 + 80"
proof -
  have "msg_fits 80 (demo_logger []) demo_msg" "length (banner ''Already rollback'' (demo_logger []) 1024) < 1024"
    by code_simp+
  then show ?thesis
    using log_size_bounded [OF demo_ready [of "[]" "[]"] demo_copies, of "replicate 100 demo_msg" 80]
    by (simp add: demo_log_def demo_logger_def)
qed

text \<open>When the file cannot be opened \<open>cp_log_open\<close> says so, and the next message is dropped if the log has no limit; with a limit
  it asks the null stream for its offset.\<close>

theorem log_without_file:
  assumes "logger st = Some l" "length (lg_file l) < FILENAME_LEN" "lg_file l \<noteq> DBG_LOG_FILE" "\<not> le_opens env (lg_file l)"
    "lg_size l * 1024 < 2 ^ 31" "level \<le> lg_level l" "level_str level \<noteq> None"
  shows "\<exists>st'. cp_log_open env st = Some (- 2, st') \<and>
    cp_log_line env now level src line text' st' = (if lg_size l > 0 then None else Some st')"
proof -
  obtain v where "level_str level = Some v" using assms(7) by auto
  then show ?thesis using assms(1-6)
    by (auto simp: cp_log_open_def log_name_def set_fp_def cp_log_line_def cp_printout_line_def printout_def
        check_and_rollback_def LOG_ROLLBACK_NONE_def Let_def)
qed

definition read_only_log :: log_state where
  "read_only_log = \<lparr>logger = Some \<lparr>lg_flag = 1, lg_file = ''/ro/gps.log'', lg_level = 4, lg_size = 512, lg_fp = FP_NULL\<rparr>,
     log_rollback_size = 0, log_files = Map.empty, log_stderr = Some [], log_handler = False\<rparr>"

theorem log_without_file_witness:
  "\<exists>st'. cp_log_open demo_env read_only_log = Some (- 2, st') \<and> cp_log_line demo_env demo_now 2 ''a.c'' 7 ''lost'' st' = None"
proof -
  have "level_str 2 \<noteq> None" by code_simp
  then show ?thesis
    using log_without_file [of read_only_log "the (logger read_only_log)" demo_env 2 demo_now "''a.c''" 7 "''lost''"]
    by (simp add: read_only_log_def FILENAME_LEN_def DBG_LOG_FILE_def demo_env_def)
qed

end
