(* ===== verification/Daemons.thy ===== *)
theory Daemons
  imports Gpsd GprsThreads Proc Logger
begin

text \<open>
  The programs of \<open>program/fwed\<close> that put the components together: the choice of the applet (\<open>fwe_entry.c\<close>), the GPS daemon
  (\<open>gpsd.c\<close>), which runs the service of \<open>Gpsd\<close>, and the GSM daemon (\<open>gsmd.c\<close>), which starts the control thread and
  the PPP thread. Their common start and end are modelled once; the messages that they log are left out, as
  everywhere. What the system answers is an argument.
\<close>

section \<open>The applets\<close>

definition FWE_ENTRY_NAME :: string where "FWE_ENTRY_NAME = ''fwed''"
definition applets_list :: "string list" where "applets_list = [''gsmd'', ''gpsd'', ''zigd'']"

text \<open>The applet, with the number of arguments that are dropped. The names are base names.\<close>

datatype fwe_choice = FweUsage | FweApplet string nat | FweNotFound

definition fwe_main :: "string \<Rightarrow> string option \<Rightarrow> fwe_choice" where
  "fwe_main applet_name argv1 =
     (let look = (\<lambda>name ind. if name \<in> set applets_list then FweApplet name ind else FweNotFound)
      in if strncmp_eq applet_name FWE_ENTRY_NAME 4
         then case argv1 of
                None \<Rightarrow> FweUsage
              | Some name \<Rightarrow> if take 1 name = ''-'' then FweUsage else look (rev (takeWhile (\<lambda>c. c \<noteq> CHR ''/'') (rev name))) 1
         else look applet_name 0)"

section \<open>The common start and end\<close>

definition LOG_LEVEL_NRML :: int where "LOG_LEVEL_NRML = 4"
definition PID_FILE_PATH :: string where "PID_FILE_PATH = ''/var/run/''"

record daemon_opts =
  do_debug :: bool
  do_log :: string
  do_level :: int
  do_conf :: string

record daemon_env =
  de_alive :: "int \<Rightarrow> bool"
  de_pid_open :: bool
  de_garbage :: string
  de_mem :: bool
  de_log :: log_env
  de_table :: nat
  de_fork :: fork_rv
  de_mkdir :: "string \<Rightarrow> bool"
  de_record :: bool

record daemon_state =
  ds_log :: log_state
  ds_proc :: proc
  ds_files :: proc_files

text \<open>The process ends in \<open>exit\<close>, \<open>main\<close> returns, jumps to its end, or goes on with its own work.\<close>

datatype phase = EXIT int | RETURN int | CLEANUP | BODY

text \<open>The options as \<open>getopt_long\<close> answers them; \<open>None\<close> if the program only prints something and returns 0.\<close>

fun parse_opts :: "(char \<times> string) list \<Rightarrow> daemon_opts \<Rightarrow> daemon_opts option" where
  "parse_opts [] o' = Some o'"
| "parse_opts ((c, optarg) # opts) o' =
     (if c = CHR ''c'' then parse_opts opts (o'\<lparr>do_conf := optarg\<rparr>)
      else if c = CHR ''d'' then parse_opts opts (o'\<lparr>do_debug := True, do_log := DBG_LOG_FILE\<rparr>)
      else if c = CHR ''l'' then parse_opts opts (o'\<lparr>do_level := atoi optarg\<rparr>)
      else if c = CHR ''v'' then None
      else if c = CHR ''h'' then None
      else parse_opts opts o')"

definition pid_path :: "string \<Rightarrow> string" where
  "pid_path progname = take 63 (PID_FILE_PATH @ ''/'' @ progname @ ''.pid'')"

definition daemon_start ::
  "daemon_env \<Rightarrow> string \<Rightarrow> int \<Rightarrow> daemon_opts \<Rightarrow> daemon_state \<Rightarrow> (phase \<times> string \<times> daemon_state) option" where
  "daemon_start env progname log_size o' s =
     (let pid_file = (if do_debug o' then [] else pid_path progname);
          (running, files) = (if do_debug o' then (0, ds_files s)
             else check_daemon_running (de_alive env) (de_pid_open env) (de_garbage env) pid_file (ds_files s));
          s = s\<lparr>ds_files := files\<rparr>
      in if running \<noteq> 0 then Some (RETURN (- 1), pid_file, s)
         else do {
           log \<leftarrow> cp_log_init False (de_mem env) (do_log o') (do_level o') log_size (ds_log s);
           (rv, log) \<leftarrow> cp_log_open (de_log env) log;
           let s = s\<lparr>ds_log := log\<rparr>;
           if rv \<noteq> 0 then Some (RETURN (- 1), pid_file, s)
           else if do_debug o' then Some (BODY, pid_file, s)
           else case set_daemon_running (de_table env) (de_fork env) (de_mkdir env) (de_record env) pid_file (ds_proc s) (ds_files s) of
                  EXITED n \<Rightarrow> Some (EXIT n, pid_file, s)
                | RUNS r \<Rightarrow> do {
                    (rv, p, w) \<leftarrow> r;
                    let s = s\<lparr>ds_proc := p, ds_files := w\<rparr>;
                    if rv \<noteq> 0 then Some (CLEANUP, pid_file, s) else Some (BODY, pid_file, s) } })"

definition daemon_end :: "daemon_env \<Rightarrow> string \<Rightarrow> int \<Rightarrow> daemon_state \<Rightarrow> (phase \<times> daemon_state) option" where
  "daemon_end env pid_file rv s = do {
     log \<leftarrow> cp_log_term (de_log env) (ds_log s);
     Some (RETURN rv, s\<lparr>ds_log := log, ds_files := (ds_files s)\<lparr>pf_files := (pf_files (ds_files s))(pid_file := None)\<rparr>\<rparr>) }"

section \<open>The GPS daemon\<close>

text \<open>The end closes the port of the context, which lies on the stack and has no value before it has been initialised. An error of
  the initialisation is not kept in \<open>rv\<close>.\<close>

definition gpsd_main ::
  "daemon_env \<Rightarrow> string \<Rightarrow> (char \<times> string) list \<Rightarrow> bool \<Rightarrow> open_results \<Rightarrow> nmeaTIME \<Rightarrow> gpsd_round list \<Rightarrow> daemon_state \<Rightarrow>
   (phase \<times> gpsd_contex option \<times> daemon_state) option" where
  "gpsd_main env progname opts malloc_ok sys tm rounds s =
     (case parse_opts opts \<lparr>do_debug = False, do_log = ''/logs/gpsd.log'', do_level = LOG_LEVEL_NRML, do_conf = []\<rparr> of
        None \<Rightarrow> Some (RETURN 0, None, s)
      | Some o' \<Rightarrow> do {
          (ph, pid_file, s) \<leftarrow> daemon_start env progname 12 o' s;
          case ph of
            EXIT n \<Rightarrow> Some (ph, None, s)
          | RETURN n \<Rightarrow> Some (ph, None, s)
          | CLEANUP \<Rightarrow> None
          | BODY \<Rightarrow> do {
              (rv, gps) \<leftarrow> init_gpsd_context malloc_ok sys tm;
              if rv < 0
              then do {
                (ph, s) \<leftarrow> daemon_end env pid_file 0 s;
                Some (ph, Some gps, s) }
              else do {
                (rv, reqs, gps) \<leftarrow> start_gpsd_service rounds gps;
                (ph, s) \<leftarrow> daemon_end env pid_file rv s;
                Some (ph, Some gps, s) } } })"

section \<open>The GSM daemon\<close>

record thread_results =
  th_init :: int
  th_stack :: int
  th_detach :: int
  th_create :: int

definition start_thread_ppp :: "thread_results \<Rightarrow> int" where
  "start_thread_ppp t = fst (thread_start (th_init t) (th_stack t) (th_detach t) (th_create t))"

text \<open>The program has ended, or its control thread runs on the module, and the flag says whether there is a PPP thread.\<close>

datatype gsmd_result = GsmdEnds phase | GsmdThreads module_info bool

definition gsmd_main ::
  "daemon_env \<Rightarrow> string \<Rightarrow> (char \<times> string) list \<Rightarrow> bool \<Rightarrow> (nat \<Rightarrow> bool) \<Rightarrow> thread_results \<Rightarrow> daemon_state \<Rightarrow>
   (gsmd_result \<times> daemon_state) option" where
  "gsmd_main env progname opts gsm_ok ok threads s =
     (case parse_opts opts \<lparr>do_debug = False, do_log = ''/logs/gsmd.log'', do_level = LOG_LEVEL_NRML, do_conf = ''/apps/rmwe/etc/gsmd.conf''\<rparr> of
        None \<Rightarrow> Some (GsmdEnds (RETURN 0), s)
      | Some o' \<Rightarrow> do {
          (ph, pid_file, s) \<leftarrow> daemon_start env progname 12 o' s;
          case ph of
            EXIT n \<Rightarrow> Some (GsmdEnds ph, s)
          | RETURN n \<Rightarrow> Some (GsmdEnds ph, s)
          | CLEANUP \<Rightarrow> do { (ph, s) \<leftarrow> daemon_end env pid_file 0 s; Some (GsmdEnds ph, s) }
          | BODY \<Rightarrow> do {
              (rv, module) \<leftarrow> init_gsm_module gsm_ok ok;
              if rv < 0
              then do {
                (ph, s) \<leftarrow> daemon_end env pid_file 0 s;
                Some (GsmdEnds ph, s) }
              else if start_thread_ppp threads < 0
              then do {
                (ph, s) \<leftarrow> daemon_end env pid_file (start_thread_ppp threads) s;
                Some (GsmdEnds ph, s) }
              else Some (GsmdThreads module (start_thread_ppp threads = 0), s) } })"

section \<open>The ZigBee daemon\<close>

text \<open>It has no service yet: it makes the structure of its port and ends.\<close>

definition init_zigd_context :: "bool \<Rightarrow> (int \<times> com_port option) option" where
  "init_zigd_context malloc_ok = do {
     port \<leftarrow> comport_init malloc_ok ''/dev/ttyS1'' 9600 (Some (''8N1N'' @ [NUL]));
     Some (if port = None then - 1 else 0, port) }"

definition zigd_main :: "daemon_env \<Rightarrow> string \<Rightarrow> (char \<times> string) list \<Rightarrow> bool \<Rightarrow> daemon_state \<Rightarrow> (phase \<times> daemon_state) option" where
  "zigd_main env progname opts malloc_ok s =
     (case parse_opts opts \<lparr>do_debug = False, do_log = ''/logs/zigd.log'', do_level = LOG_LEVEL_NRML, do_conf = []\<rparr> of
        None \<Rightarrow> Some (RETURN 0, s)
      | Some o' \<Rightarrow> do {
          (ph, pid_file, s) \<leftarrow> daemon_start env progname 12 o' s;
          case ph of
            EXIT n \<Rightarrow> Some (ph, s)
          | RETURN n \<Rightarrow> Some (ph, s)
          | CLEANUP \<Rightarrow> daemon_end env pid_file 0 s
          | BODY \<Rightarrow> do { _ \<leftarrow> init_zigd_context malloc_ok; daemon_end env pid_file 0 s } })"

section \<open>Properties\<close>

lemma init_gsm_ok:
  assumes "init_gsm_module gsm_ok ok = Some (rv, m)" "\<not> rv < 0"
  shows "init_gsm_module True ok = Some (0, m)"
proof -
  have "gsm_ok" using assms by (cases gsm_ok) (auto simp: init_gsm_module_def comport_init_def Let_def)
  moreover have "rv = 0" using assms by (auto simp: init_gsm_module_def Let_def split: option.splits if_splits)
  ultimately show ?thesis using assms(1) by simp
qed

text \<open>When the GSM daemon gets to its threads, the module and the context of the PPP thread are a start of the system of the two
  threads, so that all that holds of its reachable states holds of the daemon. That the PPP thread exists is another matter: a
  positive error of the calls that make it goes unnoticed.\<close>

theorem gsmd_starts_system:
  assumes "gsmd_main env progname opts gsm_ok ok threads s = Some (GsmdThreads m run, s')" "ppp_context_init = Some ctx"
  shows "gprs_start \<lparr>gs_module = m, gs_static = st_unlocked, gs_ppp = ctx, gs_ctrl = CtrlLoop, gs_ppp_run = True, gs_stop = False\<rparr> \<and>
    (run \<longleftrightarrow> start_thread_ppp threads = 0) \<and> 0 \<le> start_thread_ppp threads"
proof -
  obtain rv where i: "init_gsm_module gsm_ok ok = Some (rv, m)" "\<not> rv < 0" "run = (start_thread_ppp threads = 0)" "\<not> start_thread_ppp threads < 0"
    using assms(1) by (auto simp: gsmd_main_def split: option.splits phase.splits if_splits)
      (metis phase.exhaust)
  then show ?thesis using init_gsm_ok [OF i(1,2)] assms(2) by (auto simp: gprs_start_def)
qed

definition quiet_env :: daemon_env where
  "quiet_env = \<lparr>de_alive = (\<lambda>_. False), de_pid_open = True, de_garbage = [NUL], de_mem = True,
     de_log = \<lparr>le_spill = (\<lambda>_. 0), le_shell = (\<lambda>_ fs. fs), le_opens = (\<lambda>_. True)\<rparr>, de_table = 3, de_fork = FORK_CHILD 100,
     de_mkdir = (\<lambda>_. False), de_record = True\<rparr>"

definition shell_state :: daemon_state where
  "shell_state = \<lparr>ds_log = \<lparr>logger = None, log_rollback_size = 0, log_files = Map.empty, log_stderr = Some [], log_handler = False\<rparr>,
     ds_proc = \<lparr>pr_pid = 99, pr_ppid = 50, pr_leader = False, pr_fds = Map.empty, pr_umask = 18, pr_cwd = ''/root''\<rparr>,
     ds_files = \<lparr>pf_files = Map.empty, pf_dirs = [''/'', ''/var'']\<rparr>\<rparr>"

fun threads_run :: "gsmd_result \<Rightarrow> bool option" where
  "threads_run (GsmdEnds ph) = None"
| "threads_run (GsmdThreads m b) = Some b"

lemma threads_run_cases:
  assumes "map_option (\<lambda>(r, s). threads_run r) x = Some (Some b)"
  obtains m s' where "x = Some (GsmdThreads m b, s')"
proof -
  obtain r s' where x: "x = Some (r, s')" "threads_run r = Some b" using assms by auto
  then show thesis using that by (cases r) auto
qed

text \<open>\<open>pthread_create\<close> answers \<open>EAGAIN\<close>, and the daemon goes on without the thread that dials.\<close>

theorem gsmd_starts_system_witness:
  "\<exists>m s'. gsmd_main quiet_env ''gsmd'' [(CHR ''d'', [])] True (\<lambda>_. True) \<lparr>th_init = 0, th_stack = 0, th_detach = 0, th_create = 11\<rparr> shell_state =
      Some (GsmdThreads m False, s') \<and> gprs_start \<lparr>gs_module = m, gs_static = st_unlocked, gs_ppp = the ppp_context_init, gs_ctrl = CtrlLoop,
      gs_ppp_run = True, gs_stop = False\<rparr>"
proof -
  let ?call = "gsmd_main quiet_env ''gsmd'' [(CHR ''d'', [])] True (\<lambda>_. True) \<lparr>th_init = 0, th_stack = 0, th_detach = 0, th_create = 11\<rparr> shell_state"
  have "map_option (\<lambda>(r, s). threads_run r) ?call = Some (Some False)" by code_simp
  then obtain m s' where g: "?call = Some (GsmdThreads m False, s')" by (rule threads_run_cases)
  have "ppp_context_init \<noteq> None" by code_simp
  then obtain ctx where c: "ppp_context_init = Some ctx" by auto
  show ?thesis using g gsmd_starts_system [OF g c] unfolding c option.sel by blast
qed

text \<open>When the process cannot be recorded, because the directory of the pid file does not exist and cannot be made, the GPS daemon
  jumps to its end, which uses the port of a context that has never been initialised.\<close>

theorem gpsd_end_uses_unset_port:
  assumes "\<not> path_exists (pid_path progname) (ds_files s)"
    "cp_log_init False (de_mem env) ''/logs/gpsd.log'' LOG_LEVEL_NRML 12 (ds_log s) = Some log\<^sub>0" "cp_log_open (de_log env) log\<^sub>0 = Some (0, log)"
    "pr_ppid (ds_proc s) \<noteq> 1" "de_fork env = FORK_CHILD pid"
    "\<not> path_exists (dirname_arg (pid_path progname)) (ds_files s)" "\<not> de_mkdir env (dirname_arg (pid_path progname))"
  shows "(\<exists>s'. daemon_start env progname 12 \<lparr>do_debug = False, do_log = ''/logs/gpsd.log'', do_level = LOG_LEVEL_NRML, do_conf = []\<rparr> s =
       Some (CLEANUP, pid_path progname, s')) \<and>
     gpsd_main env progname [] malloc_ok sys tm rounds s = None"
proof -
  have len: "\<not> length (pid_path progname) \<ge> 64" by (simp add: pid_path_def)
  obtain p where d: "daemonize (de_table env) True (de_fork env) False True (ds_proc s) = RUNS p"
    using assms(4,5) by (simp add: daemonize_def Let_def)
  have r: "record_daemon_pid (de_mkdir env) (de_record env) (pr_pid p) (pid_path progname) (ds_files s) = Some (- 1, ds_files s)"
    using len assms(6,7) by (simp add: record_daemon_pid_def Let_def)
  have "set_daemon_running (de_table env) (de_fork env) (de_mkdir env) (de_record env) (pid_path progname) (ds_proc s) (ds_files s) =
      RUNS (Some (- 2, p, ds_files s))"
    by (simp add: set_daemon_running_def d r)
  then obtain s' where "daemon_start env progname 12 \<lparr>do_debug = False, do_log = ''/logs/gpsd.log'', do_level = LOG_LEVEL_NRML, do_conf = []\<rparr> s =
      Some (CLEANUP, pid_path progname, s')"
    using assms(1-3) by (simp add: daemon_start_def check_daemon_running_def)
  then show ?thesis by (simp add: gpsd_main_def)
qed

theorem gpsd_end_uses_unset_port_witness:
  "gpsd_main quiet_env ''gpsd'' [] True \<lparr>sys_open = 3, sys_fcntl = True, sys_tcflush = True, sys_tcgetattr = True, sys_tcsetattr = True\<rparr>
     zero_time [] shell_state = None"
proof -
  define log\<^sub>0 where "log\<^sub>0 = the (cp_log_init False True ''/logs/gpsd.log'' LOG_LEVEL_NRML 12 (ds_log shell_state))"
  have l0: "cp_log_init False (de_mem quiet_env) ''/logs/gpsd.log'' LOG_LEVEL_NRML 12 (ds_log shell_state) = Some log\<^sub>0"
    by (simp add: log\<^sub>0_def cp_log_init_def quiet_env_def)
  have "map_option fst (cp_log_open (de_log quiet_env) log\<^sub>0) = Some 0" unfolding log\<^sub>0_def by code_simp
  then obtain log where l: "cp_log_open (de_log quiet_env) log\<^sub>0 = Some (0, log)" by auto
  have "dirname_arg (pid_path ''gpsd'') = ''/var/run''" by code_simp
  then show ?thesis
    using gpsd_end_uses_unset_port [of "''gpsd''" shell_state, OF _ l0 l]
    by (simp add: path_exists_def shell_state_def quiet_env_def pid_path_def PID_FILE_PATH_def)
qed

end
