(* ===== verification/Spec2Isabelle.thy ===== *)
theory Spec2Isabelle
  imports Tlv Ringbuf CpQueue CpArray Iniparser Fds CpString Nmea Xmodem Printf K9f2g08 Button CircBuf AtcmdReply GprsSystem PppDial NetSystem Led Daemons
begin

text \<open>
  The software of the FL2440 board: a boot loader, Linux drivers, and daemons that talk to a GPS receiver and to a GPRS modem
  over a common C library. This development models the own code of the repository: the library
  \<open>src/program/cp_library\<close>, the NMEA parser of \<open>src/program/fwed/gpsd\<close>, the packets of \<open>src/program/tlv\<close>, the circular
  buffer of \<open>src/program/samples\<close>, the loader \<open>src/bootloader/myboot\<close>, the daemons of \<open>src/program/fwed\<close> and the button and LED
  drivers of \<open>src/driver\<close>.

  \<^bold>\<open>How the code is modelled.\<close> A struct is a record with its fields, an enumeration a datatype or the numbers it stands for, an
  integer of the target (an ILP32 ARM) a word of its width where it can wrap and an \<open>int\<close> elsewhere. A function of the code is
  a function from the state to the state and the result; \<open>None\<close> is an access outside of an object, a null or freed pointer
  or another undefined behaviour, so that every theorem with a result also says that the code stays in its memory. Blocks of
  memory are lists read and written by \<open>rd\<close>, \<open>wr\<close> and \<open>c_memcpy\<close> of \<open>Prelude\<close>; objects that are shared (queue nodes, sockets)
  lie in an explicit store. What a system call, a device or the kernel answers is an argument. Loops are structural recursion where they
  walk over a list, recursion with a measure where they count, and \<open>partial_function\<close> where nothing bounds them; their
  termination is then a theorem. The messages of the log, which have no effect on the state, are left out.

  \<^bold>\<open>The library of proofs.\<close> \<open>Prelude\<close> holds the types, the memory and the lemmas on lists and slots that all components share,
  \<open>CString\<close> the functions of the C library on texts. Contracts between components are locales, each proved of the code that
  provides it: \<open>byte_fifo\<close> (\<open>Fifo\<close>) of the two ring buffers, \<open>item_queue\<close> (\<open>ItemQueue\<close>) of the linked queue, \<open>slot_table\<close>
  (\<open>SlotTable\<close>) of the pointer array, \<open>string_dict\<close> of the dictionary, \<open>checksum\<close> of the CRC, \<open>resource_pool\<close> of the ports of the
  modem, and \<open>nand_chip\<close> of a register-level model of the flash chip. The users rest on the facts of the interpretations.

  \<^bold>\<open>Containers.\<close> \<open>CpQueue\<close> (\<open>cp_queue.c\<close>): nodes in a heap; every sequence of operations refines a bounded list.
  \<open>CpArray\<close> (\<open>cp_array.c\<close>, \<open>cp_vector.c\<close>): an index stays the handle of its object. \<open>Ringbuf\<close> (\<open>cp_ringbuf.c\<close>) and \<open>CircBuf\<close>
  (\<open>circ_buf.c\<close>): first in, first out, over the wrap-around. \<open>CpString\<close> (\<open>cp_string.c\<close>): growable texts and the splitting of a line into
  values. \<open>Dictionary\<close> (\<open>cp_dictionary.c\<close>): a map, through hashing, free slots and growth. \<open>CpTime\<close> (\<open>cp_time.h\<close>): the clock.

  \<^bold>\<open>Files and formats.\<close> \<open>Iniparser\<close> (\<open>cp_iniparser.c\<close>) loads a file into a \<open>Dictionary\<close>: what is looked up is what the file says,
  and each pass of the loader, whose loop has a jump backwards, gets smaller in a lexicographic order. \<open>Crc\<close> and \<open>Tlv\<close>
  (\<open>tlv\<close>): the table equals the division by the polynomial, packing and unpacking are inverse, damage is found. \<open>Nmea\<close>
  (\<open>nmea_parse.c\<close>, \<open>nmea_info.c\<close>): the scanner, one record per kind of sentence, and their merging into the state of the receiver.
  \<open>Printf\<close> (\<open>myboot/common.c\<close>): the formatted output of the loader.

  \<^bold>\<open>Logs, processes and daemons.\<close> \<open>HexDump\<close> (\<open>cp_string.c\<close>, \<open>cp_logger.c\<close>): the two dumps, and where they differ. \<open>Logger\<close>
  (\<open>cp_logger.c\<close>): levels and the rollback of a file that has reached its limit, over a stream that holds text back; what a message leaves
  in the two files, and the bound on their size. \<open>Proc\<close> (\<open>cp_proc.c\<close>): going to the background and the pid file, which is read back as it
  was written. \<open>Gpsd\<close> (\<open>fwed/gpsd\<close>) is the GPS service over \<open>Hal\<close>, \<open>Comport\<close> and \<open>Nmea\<close>, with what it makes of a sentence that comes whole or
  in two reads. \<open>Daemons\<close> (\<open>fwed\<close>) has the main programs: how they start and end, and that the GSM daemon hands a start of the system of
  \<open>GprsThreads\<close> to its threads.

  \<^bold>\<open>Event loop and network.\<close> \<open>Fds\<close> (\<open>cp_fds.c\<close>) is the context: it waits for events, keeps sockets with work to do in a queue and
  an array, calls their callbacks and watches timeouts; its invariant \<open>fds_wf\<close> ties the flags of a socket to its places. \<open>Sock\<close>
  (\<open>cp_sock.c\<close>) is the socket, with the open descriptors and options as the state of the kernel; \<open>SockProps\<close> has what
  holds of a single socket. \<open>Network\<close> (\<open>cp_network.c\<close>) registers servers and clients, accepts, and shuts down. \<open>Registry\<close> states
  that the lists, the counts and epoll agree, \<open>NetInv\<close> adds the rest of the invariant of the context, \<open>NetOps\<close> and
  \<open>NetServices\<close> show that every operation keeps it, also on each of its error paths, \<open>NetSteps\<close> is the step relation, and
  \<open>NetSystem\<close> has the properties of all reachable contexts. A step is one call of the library: the code has one thread here.

  \<^bold>\<open>The modem.\<close> \<open>Hal\<close> (\<open>cp_hal.c\<close>) and \<open>Comport\<close> (\<open>cp_comport.c\<close>) reach the hardware, \<open>Atcmd\<close> (\<open>cp_atcmd.c\<close>) sends commands and
  reads replies, \<open>Gprs\<close> (\<open>cp_gprs.c\<close>, \<open>cp_gsmmux.c\<close>) is the control thread, \<open>Ppp\<close> (\<open>cp_ppp.c\<close>) the thread that dials. \<open>AtcmdReply\<close>,
  \<open>GprsPool\<close>, \<open>GprsReady\<close>, \<open>PppDial\<close> show what each part achieves; \<open>GprsThreads\<close> interleaves the two threads: a step is one round of a
  loop, which runs under the mutex of the module, except where the control thread waits for the users of the ports and
  where the signal handler ends both. \<open>GprsDemo\<close> is a modem that answers, \<open>GprsSystem\<close> has the properties of the two threads: how
  the module comes up, what its counts mean, and where the threads block each other.

  \<^bold>\<open>Boot loader and driver.\<close> \<open>Xmodem\<close> (\<open>xmodem.c\<close>) receives an image, with the number of polls as the bound on the waiting as the code has
  it. \<open>Nand\<close> (\<open>k9f2g08.c\<close>) is the flash driver over a bus, \<open>NandChip\<close> proves it on the laws of the data sheet, \<open>K9f2g08\<close> is a chip that obeys
  them. \<open>Button\<close> (\<open>plat_button.c\<close>) is the push button driver, whose interrupts, timers and calls are steps of a relation. \<open>Led\<close> (\<open>plat_led.c\<close>)
  is the LED driver: every pin shows the last command for its LED, and the timer never stops.

  \<^bold>\<open>Bounds and fuel.\<close> No operation of the code runs on fuel: loops that may not end are partial functions, and that they do end is
  proved from the invariant (the event loop, the removal from the queue, the flash driver, the loader of ini files) or stated exactly
  (erasing without the skip flag returns if and only if no block is worn). Instances in the witnesses are small: a context for four
  events, a flash chip of a few blocks.

  \<^bold>\<open>Not modelled.\<close> What \<open>cp_log\<close> writes at the places where the components call it: \<open>Logger\<close> models the logger itself, the
  components leave their messages out; the texts that the daemons print about their options, and the SMS thread, which is
  not configured; the addresses of the network interfaces (\<open>nic_*\<close>); Linux lists (\<open>cp_klist.h\<close>), which appear as lists of addresses; the
  start-up code of the loader, its serial port, and the imported big numbers, RSA and CRC-32; the drivers other than those of the
  buttons and the LEDs; the file system yaffs2, the patches to U-Boot and Linux, the examples of books, and all other third-party
  code. Doubles of the NMEA parser are kept as the texts they are converted from. Preemption inside of a library call by another
  thread is not modelled; the mutex of the module excludes it for the modem.
\<close>

end
